(* ===== verification/Prelude.thy ===== *)
theory Prelude
  imports Main "HOL-Library.Word"
begin

section \<open>Prelude: bytes, big-endian integers, UTF-16 strings, errors, reachability\<close>

text \<open>
  The vocabulary every component of the development shares.

  \<^item> Node Buffers are lists of 8-bit words; JavaScript strings are lists of UTF-16 code units
    (16-bit words), because the driver's code counts code units (\<open>s.length\<close>) and encodes
    them to UTF-8 bytes explicitly.
  \<^item> The fixed-width big-endian reads and writes of Node's Buffer, with their range checks: a
    write outside the integer type's range and a read outside the buffer throw a RangeError.
  \<^item> The errors the modelled code throws, as one datatype; fallible pure code returns
    \<open>js_error + 'a\<close>.
  \<^item> Reachable states of a transition system and the locale that turns a one-step invariant
    into an invariant of every reachable state.
\<close>

named_theorems bytes_simps \<open>rewriting fixed-width integers and byte lists\<close>
named_theorems codec_simps \<open>a reader applied to what the matching writer produced\<close>

type_synonym byte = "8 word"
type_synonym bytes = "8 word list"
type_synonym unit16 = "16 word"
type_synonym jsstr = "16 word list"

subsection \<open>Errors\<close>

text \<open>
  One constructor per kind of throw in the modelled sources. The texts of the messages are not
  kept, the numbers they interpolate are.
\<close>

datatype js_error =
    NulByte string            \<comment> \<open>guardNul and the parameter NUL checks: the kind of text that contained it\<close>
  | TooManyParams nat         \<comment> \<open>more than 65535 Bind parameters\<close>
  | OutOfRange int            \<comment> \<open>Node's ERR_OUT_OF_RANGE on a fixed-width Buffer write\<close>
  | BufferOutOfBounds         \<comment> \<open>a fixed-width read or write past the end of a Buffer\<close>
  | InvalidMessageLength int  \<comment> \<open>Parser.push: a backend length below 4\<close>
  | InvalidArrayLength int    \<comment> \<open>new Array(n) with a negative n\<close>
  | ElemMismatch              \<comment> \<open>the MISMATCH singleton of encode.ts\<close>
  | InvalidDate               \<comment> \<open>toISOString of an Invalid Date\<close>
  | BigIntInJson              \<comment> \<open>JSON.stringify of a BigInt\<close>
  | CopyMismatch nat nat      \<comment> \<open>copyRowsBinary: row and column of the offending value\<close>
  | RawParamsLength nat nat   \<comment> \<open>rawParams: number of values and number of formats\<close>
  | ParamsNotArray            \<comment> \<open>startTask: params must be an array\<close>
  | UnknownType string        \<comment> \<open>paramTypeOid: an unknown type alias\<close>
  | NoArrayType string        \<comment> \<open>paramTypeOid: no array type for the alias\<close>
  | Thrown string             \<comment> \<open>any other Error, by its subject\<close>
  | NoReturn                  \<comment> \<open>the source loops forever: no result and no throw\<close>

subsection \<open>Big-endian integers\<close>

text \<open>\<open>be_bytes k n\<close> is the \<open>k\<close>-byte big-endian two's complement form of \<open>n\<close>.\<close>

fun be_bytes :: "nat \<Rightarrow> int \<Rightarrow> bytes" where
  "be_bytes 0 n = []"
| "be_bytes (Suc k) n = be_bytes k (n div 256) @ [word_of_int n]"

definition be_val :: "bytes \<Rightarrow> int" where
  "be_val bs = foldl (\<lambda>a b. a * 256 + uint b) 0 bs"

text \<open>Reading the unsigned value \<open>u\<close> of \<open>k\<close> bytes as two's complement.\<close>

definition to_signed :: "nat \<Rightarrow> int \<Rightarrow> int" where
  "to_signed k u = (if 2 * u < 256 ^ k then u else u - 256 ^ k)"

lemma length_be_bytes [simp]: "length (be_bytes k n) = k"
  by (induction k arbitrary: n) auto

lemma be_val_snoc [simp]: "be_val (bs @ [b]) = be_val bs * 256 + uint b"
  by (simp add: be_val_def)

lemma be_val_Nil [simp]: "be_val [] = 0"
  by (simp add: be_val_def)

lemma be_val_nonneg: "0 \<le> be_val bs"
  by (induction bs rule: rev_induct) auto

lemma be_val_bound: "be_val bs < 256 ^ length bs"
proof (induction bs rule: rev_induct)
  case (snoc b bs)
  have "uint b < 256" using uint_lt2p [of b] by simp
  with snoc show ?case by simp
qed simp

lemma be_val_be_bytes: "be_val (be_bytes k n) = n mod 256 ^ k"
proof (induction k arbitrary: n)
  case (Suc k)
  have "n mod (256 * 256 ^ k) = 256 * (n div 256 mod 256 ^ k) + n mod 256"
    by (rule zmod_zmult2_eq) simp
  with Suc show ?case
    by (simp add: uint_word_of_int mult.commute)
qed simp

lemma to_signed_mod:
  assumes "- (256 ^ k) \<le> 2 * n" and "2 * n < (256::int) ^ k"
  shows "to_signed k (n mod 256 ^ k) = n"
proof (cases "0 \<le> n")
  case True
  with assms show ?thesis by (simp add: to_signed_def)
next
  case False
  have "(n + 256 ^ k) mod 256 ^ k = n + 256 ^ k"
    using False assms(1) by (intro mod_pos_pos_trivial) simp_all
  then have "n mod 256 ^ k = n + 256 ^ k" by simp
  with False assms show ?thesis by (simp add: to_signed_def)
qed

lemma be_bytes_be_val:
  "length bs = k \<Longrightarrow> be_bytes k (be_val bs) = bs"
proof (induction k arbitrary: bs)
  case (Suc k)
  then obtain cs c where bs: "bs = cs @ [c]" and len: "length cs = k"
    by (metis length_Suc_conv_rev)
  have "uint c < 256" using uint_lt2p [of c] by simp
  then have "be_val bs div 256 = be_val cs" and "be_val bs mod 256 = uint c"
    by (simp_all add: bs)
  moreover have "(word_of_int (be_val bs) :: byte) = c"
    using \<open>be_val bs mod 256 = uint c\<close>
    by (intro word_uint_eqI) (simp add: uint_word_of_int)
  ultimately show ?case using Suc.IH [OF len] by (simp add: bs)
qed simp


subsection \<open>Fixed-width Buffer accesses\<close>

text \<open>
  \<open>b.readIntBE\<close>-style accesses at offset \<open>off\<close>: Node throws when the access does not lie
  inside the buffer. \<open>b[i]\<close> instead yields \<open>undefined\<close> (here None) out of range.
\<close>

definition in_buf :: "nat \<Rightarrow> bytes \<Rightarrow> int \<Rightarrow> bool" where
  "in_buf k b off \<longleftrightarrow> 0 \<le> off \<and> off + int k \<le> int (length b)"

definition read_uint :: "nat \<Rightarrow> bytes \<Rightarrow> int \<Rightarrow> js_error + int" where
  "read_uint k b off =
     (if in_buf k b off then Inr (be_val (take k (drop (nat off) b))) else Inl BufferOutOfBounds)"

definition read_int :: "nat \<Rightarrow> bytes \<Rightarrow> int \<Rightarrow> js_error + int" where
  "read_int k b off =
     (if in_buf k b off then Inr (to_signed k (be_val (take k (drop (nat off) b))))
      else Inl BufferOutOfBounds)"

definition byte_at :: "bytes \<Rightarrow> int \<Rightarrow> byte option" where
  "byte_at b i = (if 0 \<le> i \<and> i < int (length b) then Some (b ! nat i) else None)"

text \<open>\<open>b.subarray(s, e)\<close>: negative indices count from the end, both are clamped.\<close>

definition clamp_index :: "nat \<Rightarrow> int \<Rightarrow> nat" where
  "clamp_index n i = nat (if i < 0 then max 0 (int n + i) else min i (int n))"

definition subarray :: "'a list \<Rightarrow> int \<Rightarrow> int \<Rightarrow> 'a list" where
  "subarray b s e = take (clamp_index (length b) e - clamp_index (length b) s) (drop (clamp_index (length b) s) b)"

text \<open>\<open>writeUInt16BE\<close>, \<open>writeInt32BE\<close> and \<open>writeUInt32BE\<close>: the value is range-checked first.\<close>

definition i16_bytes :: "int \<Rightarrow> js_error + bytes" where
  "i16_bytes n = (if 0 \<le> n \<and> n \<le> 65535 then Inr (be_bytes 2 n) else Inl (OutOfRange n))"

definition i32_bytes :: "int \<Rightarrow> js_error + bytes" where
  "i32_bytes n = (if - 2147483648 \<le> n \<and> n \<le> 2147483647 then Inr (be_bytes 4 n) else Inl (OutOfRange n))"

lemma in_buf_append [simp]:
  "in_buf k (xs @ ys) (int (length xs)) \<longleftrightarrow> k \<le> length ys"
  by (auto simp: in_buf_def)

lemma read_int_at [codec_simps]:
  assumes "- (256 ^ k) \<le> 2 * n" and "2 * n < (256::int) ^ k"
  shows "read_int k (xs @ be_bytes k n @ ys) (int (length xs)) = Inr n"
  using assms by (simp add: read_int_def be_val_be_bytes to_signed_mod)

lemma read_uint_at [codec_simps]:
  assumes "0 \<le> n" and "n < (256::int) ^ k"
  shows "read_uint k (xs @ be_bytes k n @ ys) (int (length xs)) = Inr n"
  using assms by (simp add: read_uint_def be_val_be_bytes)

lemma subarray_at [simp]:
  "subarray (xs @ ys @ zs) (int (length xs)) (int (length xs) + int (length ys)) = ys"
  by (simp add: subarray_def clamp_index_def nat_add_distrib)

lemma subarray_tail [simp]:
  "subarray (xs @ ys) (int (length xs)) (int (length xs) + int (length ys)) = ys"
  by (simp add: subarray_def clamp_index_def nat_add_distrib)

lemma subarray_nat:
  "s \<le> e \<Longrightarrow> e \<le> length b \<Longrightarrow> subarray b (int s) (int e) = take (e - s) (drop s b)"
  by (simp add: subarray_def clamp_index_def)

subsection \<open>Strings: UTF-16 code units, UTF-8 and latin1 bytes\<close>

text \<open>
  Injections of numbers into bytes and code units. They are constants of their own so that the
  simplifier does not push the conversion through sums.
\<close>

definition b8 :: "nat \<Rightarrow> byte" where
  "b8 n = of_nat n"

definition u16 :: "nat \<Rightarrow> unit16" where
  "u16 n = of_nat n"

lemma unat_b8 [simp]: "unat (b8 n) = n mod 256"
  by (simp add: b8_def unat_of_nat)

lemma unat_u16 [simp]: "unat (u16 n) = n mod 65536"
  by (simp add: u16_def unat_of_nat)

lemma b8_unat [simp]: "b8 (unat b) = b"
  by (simp add: b8_def)

lemma u16_unat [simp]: "u16 (unat c) = c"
  by (simp add: u16_def)

lemma unat_unit16_less: "unat (c :: unit16) < 65536"
proof -
  have "unat c < 2 ^ LENGTH(16)" by (rule unsigned_less)
  then show ?thesis by simp
qed

lemma unat_byte_less: "unat (b :: byte) < 256"
proof -
  have "unat b < 2 ^ LENGTH(8)" by (rule unsigned_less)
  then show ?thesis by simp
qed

lemma b8_eq_0_iff: "b8 n = 0 \<longleftrightarrow> n mod 256 = 0"
  by (metis unat_b8 unat_eq_0)

text \<open>An ASCII literal of the source as code units.\<close>

definition asc :: "string \<Rightarrow> jsstr" where
  "asc s = map (\<lambda>c. u16 (of_char c)) s"

definition latin1 :: "jsstr \<Rightarrow> bytes" where
  "latin1 s = map (\<lambda>c. b8 (unat c)) s"

definition is_hi :: "unit16 \<Rightarrow> bool" where
  "is_hi c \<longleftrightarrow> 55296 \<le> unat c \<and> unat c \<le> 56319"

definition is_lo :: "unit16 \<Rightarrow> bool" where
  "is_lo c \<longleftrightarrow> 56320 \<le> unat c \<and> unat c \<le> 57343"

text \<open>The code points of a string; a lone surrogate becomes U+FFFD, as \<open>Buffer.from(s, 'utf8')\<close> does.\<close>

definition lone_cp :: "unit16 \<Rightarrow> nat" where
  "lone_cp c = (if is_hi c \<or> is_lo c then 65533 else unat c)"

fun code_points :: "jsstr \<Rightarrow> nat list" where
  "code_points [] = []"
| "code_points [c] = [lone_cp c]"
| "code_points (c # d # cs) =
     (if is_hi c \<and> is_lo d
      then (65536 + (unat c - 55296) * 1024 + (unat d - 56320)) # code_points cs
      else lone_cp c # code_points (d # cs))"

definition utf8_cp :: "nat \<Rightarrow> bytes" where
  "utf8_cp n =
     (if n < 128 then [b8 n]
      else if n < 2048 then [b8 (192 + n div 64), b8 (128 + n mod 64)]
      else if n < 65536 then
        [b8 (224 + n div 4096), b8 (128 + n div 64 mod 64), b8 (128 + n mod 64)]
      else [b8 (240 + n div 262144), b8 (128 + n div 4096 mod 64),
            b8 (128 + n div 64 mod 64), b8 (128 + n mod 64)])"

definition utf8 :: "jsstr \<Rightarrow> bytes" where
  "utf8 s = concat (map utf8_cp (code_points s))"

text \<open>\<open>b.toString('utf8')\<close>: ill-formed input yields U+FFFD per maximal subpart (WHATWG).\<close>

definition in_rng :: "nat \<Rightarrow> nat \<Rightarrow> byte \<Rightarrow> bool" where
  "in_rng lo hi b \<longleftrightarrow> lo \<le> unat b \<and> unat b \<le> hi"

fun utf8_dec :: "bytes \<Rightarrow> nat list" where
  "utf8_dec [] = []"
| "utf8_dec (b # bs) =
     (let n = unat b in
      if n < 128 then n # utf8_dec bs
      else if 194 \<le> n \<and> n \<le> 223 then
        (case bs of
           [] \<Rightarrow> [65533]
         | c # cs \<Rightarrow> if in_rng 128 191 c then ((n - 192) * 64 + (unat c - 128)) # utf8_dec cs
                    else 65533 # utf8_dec (c # cs))
      else if 224 \<le> n \<and> n \<le> 239 then
        (case bs of
           [] \<Rightarrow> [65533]
         | c # cs \<Rightarrow>
             if in_rng (if n = 224 then 160 else 128) (if n = 237 then 159 else 191) c then
               (case cs of
                  [] \<Rightarrow> [65533]
                | d # ds \<Rightarrow> if in_rng 128 191 d
                    then ((n - 224) * 4096 + (unat c - 128) * 64 + (unat d - 128)) # utf8_dec ds
                    else 65533 # utf8_dec (d # ds))
             else 65533 # utf8_dec (c # cs))
      else if 240 \<le> n \<and> n \<le> 244 then
        (case bs of
           [] \<Rightarrow> [65533]
         | c # cs \<Rightarrow>
             if in_rng (if n = 240 then 144 else 128) (if n = 244 then 143 else 191) c then
               (case cs of
                  [] \<Rightarrow> [65533]
                | d # ds \<Rightarrow>
                    if in_rng 128 191 d then
                      (case ds of
                         [] \<Rightarrow> [65533]
                       | e # es \<Rightarrow> if in_rng 128 191 e
                           then ((n - 240) * 262144 + (unat c - 128) * 4096 + (unat d - 128) * 64
                                  + (unat e - 128)) # utf8_dec es
                           else 65533 # utf8_dec (e # es))
                    else 65533 # utf8_dec (d # ds))
             else 65533 # utf8_dec (c # cs))
      else 65533 # utf8_dec bs)"

definition cp_units :: "nat \<Rightarrow> jsstr" where
  "cp_units n = (if n < 65536 then [u16 n]
     else [u16 (55296 + (n - 65536) div 1024), u16 (56320 + (n - 65536) mod 1024)])"

definition from_utf8 :: "bytes \<Rightarrow> jsstr" where
  "from_utf8 bs = concat (map cp_units (utf8_dec bs))"

text \<open>A well-formed string has no lone surrogate.\<close>

fun well_formed :: "jsstr \<Rightarrow> bool" where
  "well_formed [] = True"
| "well_formed [c] = (\<not> is_hi c \<and> \<not> is_lo c)"
| "well_formed (c # d # cs) =
     (if is_hi c \<and> is_lo d then well_formed cs else \<not> is_hi c \<and> \<not> is_lo c \<and> well_formed (d # cs))"

definition is_scalar :: "nat \<Rightarrow> bool" where
  "is_scalar n \<longleftrightarrow> n < 55296 \<or> (57344 \<le> n \<and> n < 1114112)"

declare utf8_dec.simps(2) [simp del]


lemma utf8_dec_cp1: "n < 128 \<Longrightarrow> utf8_dec (utf8_cp n @ bs) = n # utf8_dec bs"
  by (simp add: utf8_cp_def utf8_dec.simps)

lemma utf8_dec_cp2:
  assumes "128 \<le> n" "n < 2048"
  shows "utf8_dec (utf8_cp n @ bs) = n # utf8_dec bs"
proof -
  have "192 + n div 64 < 256" and "194 \<le> 192 + n div 64" and "192 + n div 64 \<le> 223"
    using assms by (simp_all add: div_less_iff_less_mult less_eq_div_iff_mult_less_eq)
  then show ?thesis using assms
    by (simp add: utf8_cp_def utf8_dec.simps(2) [of "b8 (192 + n div 64)"] in_rng_def Let_def)
qed

lemma utf8_dec_cp3:
  assumes "2048 \<le> n" "n < 65536" "is_scalar n"
  shows "utf8_dec (utf8_cp n @ bs) = n # utf8_dec bs"
proof -
  let ?a = "n div 4096" let ?b = "n div 64 mod 64" let ?c = "n mod 64"
  have a: "?a < 16" using assms by (simp add: div_less_iff_less_mult)
  have "n div 64 = ?a * 64 + ?b" using div_mult_mod_eq [of "n div 64" 64] by (simp add: div_mult2_eq [symmetric])
  then have n: "n = ?a * 4096 + ?b * 64 + ?c" using div_mult_mod_eq [of n 64] by linarith
  have lo: "?a = 0 \<Longrightarrow> 32 \<le> ?b" using assms(1) n by arith
  have hi: "?a = 13 \<Longrightarrow> ?b < 32" using assms(3) n unfolding is_scalar_def by arith
  have b: "in_rng (if 224 + ?a = 224 then 160 else 128) (if 224 + ?a = 237 then 159 else 191)
             (b8 (128 + ?b))"
    using lo hi by (auto simp: in_rng_def)
  have c: "in_rng 128 191 (b8 (128 + ?c))" by (auto simp: in_rng_def)
  show ?thesis using assms(1,2) a b c n
    by (simp add: utf8_cp_def utf8_dec.simps(2) [of "b8 (224 + n div 4096)"] Let_def)
qed

lemma utf8_dec_cp4:
  assumes "65536 \<le> n" "n < 1114112"
  shows "utf8_dec (utf8_cp n @ bs) = n # utf8_dec bs"
proof -
  let ?a = "n div 262144" let ?b = "n div 4096 mod 64" let ?c = "n div 64 mod 64" let ?d = "n mod 64"
  have "n div 4096 = ?a * 64 + ?b" using div_mult_mod_eq [of "n div 4096" 64] by (simp add: div_mult2_eq [symmetric])
  moreover have "n div 64 = n div 4096 * 64 + ?c" using div_mult_mod_eq [of "n div 64" 64] by (simp add: div_mult2_eq [symmetric])
  ultimately have n: "n = ?a * 262144 + ?b * 4096 + ?c * 64 + ?d" using div_mult_mod_eq [of n 64] by linarith
  have a: "?a \<le> 4" using assms(2) by arith
  have lo: "?a = 0 \<Longrightarrow> 16 \<le> ?b" using assms(1) n by arith
  have hi: "?a = 4 \<Longrightarrow> ?b < 16" using assms(2) n by arith
  have b: "in_rng (if 240 + ?a = 240 then 144 else 128) (if 240 + ?a = 244 then 143 else 191)
             (b8 (128 + ?b))"
    using lo hi by (auto simp: in_rng_def)
  have c: "in_rng 128 191 (b8 (128 + ?c))" "in_rng 128 191 (b8 (128 + ?d))"
    by (auto simp: in_rng_def)
  show ?thesis using assms(1) a b c n
    by (simp add: utf8_cp_def utf8_dec.simps(2) [of "b8 (240 + n div 262144)"] Let_def)
qed

lemma utf8_dec_cp: "is_scalar n \<Longrightarrow> utf8_dec (utf8_cp n @ bs) = n # utf8_dec bs"
  using utf8_dec_cp1 [of n bs] utf8_dec_cp2 [of n bs] utf8_dec_cp3 [of n bs] utf8_dec_cp4 [of n bs]
  by (cases "n < 128"; cases "n < 2048"; cases "n < 65536") (auto simp: is_scalar_def)

lemma utf8_dec_cps: "list_all is_scalar ns \<Longrightarrow> utf8_dec (concat (map utf8_cp ns)) = ns"
  by (induction ns) (auto simp: utf8_dec_cp)

lemma lone_cp_scalar: "is_scalar (lone_cp c)"
  using unat_unit16_less [of c] unfolding is_scalar_def lone_cp_def is_hi_def is_lo_def by auto

lemma code_points_scalar: "list_all is_scalar (code_points s)"
proof (induction s rule: code_points.induct)
  case (3 c d cs)
  have "is_scalar (65536 + (unat c - 55296) * 1024 + (unat d - 56320))" if "is_hi c" "is_lo d"
    using that by (auto simp: is_scalar_def is_hi_def is_lo_def)
  with 3 show ?case by (simp add: lone_cp_scalar)
qed (simp_all add: lone_cp_scalar)

lemma utf8_dec_utf8: "utf8_dec (utf8 s) = code_points s"
  by (simp add: utf8_def utf8_dec_cps code_points_scalar)

lemma cp_units_pair:
  assumes "is_hi c" "is_lo d"
  shows "cp_units (65536 + (unat c - 55296) * 1024 + (unat d - 56320)) = [c, d]"
proof -
  let ?k = "unat d - 56320"
  have k: "?k < 1024" using assms(2) by (auto simp: is_lo_def)
  have "55296 + ((unat c - 55296) * 1024 + ?k) div 1024 = unat c"
    using k assms(1) by (simp add: is_hi_def)
  moreover have "((unat c - 55296) * 1024 + ?k) mod 1024 = ?k"
    using k by (metis mod_less mod_mult_self3)
  then have "56320 + ((unat c - 55296) * 1024 + ?k) mod 1024 = unat d"
    using assms(2) unfolding is_lo_def by linarith
  moreover have "65536 + (unat c - 55296) * 1024 + ?k - 65536 = (unat c - 55296) * 1024 + ?k"
    by (simp only: add.assoc diff_add_inverse)
  ultimately show ?thesis by (simp only: cp_units_def u16_unat) simp
qed

lemma cp_units_lone: "\<not> is_hi c \<Longrightarrow> \<not> is_lo c \<Longrightarrow> cp_units (lone_cp c) = [c]"
  by (simp add: cp_units_def lone_cp_def unat_unit16_less)

lemma units_code_points: "well_formed s \<Longrightarrow> concat (map cp_units (code_points s)) = s"
  by (induction s rule: code_points.induct) (auto simp: cp_units_pair cp_units_lone split: if_splits)

lemma from_utf8_utf8: "well_formed s \<Longrightarrow> from_utf8 (utf8 s) = s"
  by (simp add: from_utf8_def utf8_dec_utf8 units_code_points)

lemma utf8_Nil [simp]: "utf8 [] = []"
  by (simp add: utf8_def)

text \<open>On ASCII text the two encodings agree and the length is the number of code units.\<close>

definition ascii :: "jsstr \<Rightarrow> bool" where
  "ascii s \<longleftrightarrow> list_all (\<lambda>c. unat c < 128) s"

lemma ascii_simps [simp]:
  "ascii []" "ascii (c # s) \<longleftrightarrow> unat c < 128 \<and> ascii s" "ascii (s @ t) \<longleftrightarrow> ascii s \<and> ascii t"
  by (auto simp: ascii_def)

lemma code_points_ascii: "unat c < 128 \<Longrightarrow> code_points (c # s) = unat c # code_points s"
  by (cases s) (auto simp: lone_cp_def is_hi_def is_lo_def)

lemma utf8_ascii_Cons: "unat c < 128 \<Longrightarrow> utf8 (c # s) = b8 (unat c) # utf8 s"
  by (simp add: utf8_def code_points_ascii utf8_cp_def)

lemma utf8_ascii: "ascii s \<Longrightarrow> utf8 s = latin1 s"
  by (induction s) (auto simp: utf8_ascii_Cons latin1_def)

lemma utf8_ascii_append: "ascii s \<Longrightarrow> utf8 (s @ t) = latin1 s @ utf8 t"
  by (induction s) (auto simp: utf8_ascii_Cons latin1_def)

lemma latin1_simps [simp]:
  "latin1 [] = []" "latin1 (c # s) = b8 (unat c) # latin1 s" "latin1 (s @ t) = latin1 s @ latin1 t"
  "length (latin1 s) = length s"
  by (auto simp: latin1_def)

lemma ascii_asc: "list_all (\<lambda>c. (of_char c :: nat) < 128) s \<Longrightarrow> ascii (asc s)"
  by (auto simp: ascii_def asc_def list_all_iff)

text \<open>
  Appending after a complete prefix: cutting a string where no surrogate pair straddles the cut
  does not change its bytes.
\<close>

lemma utf8_append_at:
  assumes "\<not> (s \<noteq> [] \<and> t \<noteq> [] \<and> is_hi (last s) \<and> is_lo (hd t))"
  shows "utf8 (s @ t) = utf8 s @ utf8 t"
  using assms
proof (induction s rule: code_points.induct)
  case (2 c)
  then show ?case by (cases t) (auto simp: utf8_def)
next
  case (3 c d cs)
  show ?case
  proof (cases "is_hi c \<and> is_lo d")
    case True
    then have "\<not> is_hi d" by (auto simp: is_hi_def is_lo_def)
    with 3 True show ?thesis by (cases cs) (auto simp: utf8_def)
  next
    case False
    with 3 show ?thesis by (auto simp: utf8_def)
  qed
qed simp

text \<open>No byte of a UTF-8 text is NUL unless the string has the code unit 0.\<close>

lemma utf8_cp_nonzero:
  assumes n: "n < 1114112" and z: "0 \<in> set (utf8_cp n)"
  shows "n = 0"
proof -
  have m: "(192 + n div 64) mod 256 \<noteq> 0" if "128 \<le> n" "n < 2048"
    using that by (simp add: div_less_iff_less_mult)
  have m3: "(224 + n div 4096) mod 256 \<noteq> 0" if "n < 65536"
    using that by (simp add: div_less_iff_less_mult)
  have m4: "(240 + n div 262144) mod 256 \<noteq> 0"
    using n by (simp add: div_less_iff_less_mult)
  have k: "(128 + x mod 64) mod 256 \<noteq> 0" for x :: nat
    using mod_less_divisor [of 64 x] by simp
  show ?thesis using z m m3 m4 k n
    by (auto simp: utf8_cp_def b8_eq_0_iff split: if_splits)
qed

lemma utf8_nonzero: "0 \<notin> set s \<Longrightarrow> 0 \<notin> set (utf8 s)"
proof -
  assume s: "0 \<notin> set s"
  have "0 \<notin> set (code_points s)" using s
  proof (induction s rule: code_points.induct)
    case (2 c)
    then show ?case by (auto simp: lone_cp_def unat_gt_0)
  next
    case (3 c d cs)
    then show ?case by (auto simp: lone_cp_def unat_gt_0)
  qed simp
  moreover have "list_all is_scalar (code_points s)" by (rule code_points_scalar)
  ultimately have "0 \<notin> set (utf8_cp n)" if "n \<in> set (code_points s)" for n
    using utf8_cp_nonzero [of n] that by (auto simp: list_all_iff is_scalar_def)
  then show "0 \<notin> set (utf8 s)" by (auto simp: utf8_def)
qed


subsection \<open>Decimal and hexadecimal digits\<close>

text \<open>\<open>String(n)\<close> of an integer: decimal digits, most significant first, a leading minus.\<close>

fun dec_digits :: "nat \<Rightarrow> nat list" where
  "dec_digits n = (if n < 10 then [n] else dec_digits (n div 10) @ [n mod 10])"

declare dec_digits.simps [simp del]

definition digit_unit :: "nat \<Rightarrow> unit16" where
  "digit_unit d = u16 (48 + d)"

definition dec_nat :: "nat \<Rightarrow> jsstr" where
  "dec_nat n = map digit_unit (dec_digits n)"

definition dec_int :: "int \<Rightarrow> jsstr" where
  "dec_int i = (if i < 0 then u16 45 # dec_nat (nat (- i)) else dec_nat (nat i))"

fun digits_val :: "nat list \<Rightarrow> nat" where
  "digits_val ds = foldl (\<lambda>a d. a * 10 + d) 0 ds"

lemma dec_digits_less: "d \<in> set (dec_digits n) \<Longrightarrow> d < 10"
proof (induction n rule: dec_digits.induct)
  case (1 n)
  then show ?case by (cases "n < 10") (auto simp: dec_digits.simps [of n])
qed

lemma dec_digits_nonempty [simp]: "dec_digits n \<noteq> []"
  by (subst dec_digits.simps) simp

lemma digits_val_dec_digits: "foldl (\<lambda>a d. a * 10 + d) 0 (dec_digits n) = n"
proof (induction n rule: dec_digits.induct)
  case (1 n)
  then show ?case by (cases "n < 10") (auto simp: dec_digits.simps [of n])
qed

lemma ascii_dec_nat [simp]: "ascii (dec_nat n)"
proof -
  have "unat (digit_unit d) < 128" if "d \<in> set (dec_digits n)" for d
    using dec_digits_less [OF that] by (simp add: digit_unit_def)
  then show ?thesis by (auto simp: ascii_def dec_nat_def list_all_iff)
qed

lemma ascii_dec_int [simp]: "ascii (dec_int i)"
  by (simp add: dec_int_def)

lemma unat_digit_unit: "d < 10 \<Longrightarrow> unat (digit_unit d) = 48 + d"
  by (simp add: digit_unit_def)

lemma digit_unit_nonzero: "d < 10 \<Longrightarrow> digit_unit d \<noteq> 0"
  using unat_digit_unit [of d] by (metis add_is_0 unat_0 zero_neq_numeral)

definition hex_unit :: "nat \<Rightarrow> unit16" where
  "hex_unit d = (if d < 10 then u16 (48 + d) else u16 (87 + d))"

definition hex_bytes :: "bytes \<Rightarrow> jsstr" where
  "hex_bytes b = concat (map (\<lambda>x. [hex_unit (unat x div 16), hex_unit (unat x mod 16)]) b)"

lemma hex_unit_ascii: "d < 16 \<Longrightarrow> unat (hex_unit d) < 128"
  by (simp add: hex_unit_def)

lemma ascii_hex_bytes [simp]: "ascii (hex_bytes b)"
proof (induction b)
  case (Cons x b)
  have "unat x div 16 < 16" using unat_byte_less [of x] by (simp add: div_less_iff_less_mult)
  with Cons show ?case by (simp add: hex_bytes_def hex_unit_ascii)
qed (simp add: hex_bytes_def)

subsection \<open>Results\<close>

text \<open>Sequencing of fallible computations: the first error wins, as a throw does.\<close>

definition rbind :: "('e + 'a) \<Rightarrow> ('a \<Rightarrow> 'e + 'b) \<Rightarrow> 'e + 'b" where
  "rbind m f = (case m of Inl e \<Rightarrow> Inl e | Inr x \<Rightarrow> f x)"

fun rmap :: "('a \<Rightarrow> 'e + 'b) \<Rightarrow> 'a list \<Rightarrow> 'e + 'b list" where
  "rmap f [] = Inr []"
| "rmap f (x # xs) = rbind (f x) (\<lambda>y. rbind (rmap f xs) (\<lambda>ys. Inr (y # ys)))"

fun rconcat :: "('e + 'a list) list \<Rightarrow> 'e + 'a list" where
  "rconcat [] = Inr []"
| "rconcat (x # xs) = rbind x (\<lambda>y. rbind (rconcat xs) (\<lambda>ys. Inr (y @ ys)))"

lemma rbind_simps [simp]:
  "rbind (Inl e) f = Inl e" "rbind (Inr x) f = f x"
  by (simp_all add: rbind_def)

lemma rbind_Inr_iff: "rbind m f = Inr y \<longleftrightarrow> (\<exists>x. m = Inr x \<and> f x = Inr y)"
  by (cases m) auto

lemma rmap_Inr: "rmap (\<lambda>x. Inr (g x)) xs = Inr (map g xs)"
  by (induction xs) auto

lemma rmap_cong_Inr: "(\<And>x. x \<in> set xs \<Longrightarrow> f x = Inr (g x)) \<Longrightarrow> rmap f xs = Inr (map g xs)"
  by (induction xs) auto

lemma length_rmap: "rmap f xs = Inr ys \<Longrightarrow> length ys = length xs"
  by (induction xs arbitrary: ys) (auto simp: rbind_Inr_iff)

subsection \<open>Transition systems\<close>

inductive reach :: "('s \<Rightarrow> bool) \<Rightarrow> ('s \<Rightarrow> 's \<Rightarrow> bool) \<Rightarrow> 's \<Rightarrow> bool" for ini tr where
  reach_init: "ini s \<Longrightarrow> reach ini tr s"
| reach_step: "reach ini tr s \<Longrightarrow> tr s t \<Longrightarrow> reach ini tr t"

text \<open>
  The contract of an inductive invariant: it holds initially and every step keeps it. The
  component theories interpret it on their own step relations.
\<close>

locale invariant_of =
  fixes ini :: "'s \<Rightarrow> bool" and tr :: "'s \<Rightarrow> 's \<Rightarrow> bool" and inv :: "'s \<Rightarrow> bool"
  assumes inv_init: "ini s \<Longrightarrow> inv s"
    and inv_step: "inv s \<Longrightarrow> tr s t \<Longrightarrow> inv t"
begin

lemma reach_inv: "reach ini tr s \<Longrightarrow> inv s"
  by (induction rule: reach.induct) (auto intro: inv_init inv_step)

lemma star_inv: "tr\<^sup>*\<^sup>* s t \<Longrightarrow> inv s \<Longrightarrow> inv t"
  by (induction rule: rtranclp_induct) (auto intro: inv_step)

end

end
