(* ===== verification/Wire_Writer.thy ===== *)
theory Wire_Writer
  imports Prelude
begin

section \<open>The growable write buffer (src/protocol.ts, class Writer)\<close>

text \<open>
  \<open>Writer\<close> is the reusable buffer every outbound message is serialised into: an allocated
  Buffer, the offset of the next byte and the offset of the current message's length field.
  Each method is a \<open>wop\<close>: it takes the writer and returns the thrown error or the value
  together with the writer as the method leaves it, so that what a method wrote before it threw
  is part of the model (\<open>startTask\<close> rewinds over exactly that).

  The group of definitions follows the class; the lemmas give each method's effect on the
  written bytes (\<open>w_slice\<close>) and the two relations the message writers are verified with:
  \<open>yields m r\<close> (the method returns the value and appends the bytes of the pure result
  \<open>r\<close>, or throws its error with the earlier bytes intact) and its special case \<open>refines\<close>
  for methods without a value.
\<close>

record writer =
  wbuf :: bytes       \<comment> \<open>the allocated Buffer\<close>
  woff :: nat         \<comment> \<open>off\<close>
  wmsg :: nat         \<comment> \<open>msgStart\<close>

type_synonym 'a wop = "writer \<Rightarrow> (js_error + 'a) \<times> writer"

subsection \<open>Sequencing\<close>

definition wret :: "'a \<Rightarrow> 'a wop" where
  "wret x w = (Inr x, w)"

definition wfail :: "js_error \<Rightarrow> 'a wop" where
  "wfail e w = (Inl e, w)"

definition wbind :: "'a wop \<Rightarrow> ('a \<Rightarrow> 'b wop) \<Rightarrow> 'b wop" where
  "wbind m f w = (case m w of (Inl e, w') \<Rightarrow> (Inl e, w') | (Inr x, w') \<Rightarrow> f x w')"

fun wdo :: "unit wop list \<Rightarrow> unit wop" where
  "wdo [] = wret ()"
| "wdo (m # ms) = wbind m (\<lambda>_. wdo ms)"

text \<open>Node leaves the memory of \<open>Buffer.allocUnsafe\<close> unspecified; zeros are one admissible
  content, and no lemma below depends on it (\<open>w_slice\<close> never exposes unwritten bytes).\<close>

definition allocUnsafe :: "nat \<Rightarrow> bytes" where
  "allocUnsafe n = replicate n 0"

text \<open>Overwriting part of a buffer.\<close>

definition blit :: "bytes \<Rightarrow> nat \<Rightarrow> bytes \<Rightarrow> bytes" where
  "blit b pos xs = take pos b @ xs @ drop (pos + length xs) b"

subsection \<open>The methods\<close>

definition new_writer :: "nat \<Rightarrow> writer" where
  "new_writer sz = \<lparr>wbuf = allocUnsafe sz, woff = 0, wmsg = 0\<rparr>"

definition w_reset :: "unit wop" where
  "w_reset w = (Inr (), w\<lparr>woff := 0\<rparr>)"

text \<open>The doubling loop of \<open>ensure\<close>; with capacity 0 it would not end.\<close>

function grow_cap :: "nat \<Rightarrow> nat \<Rightarrow> nat" where
  "grow_cap cap need = (if 0 < cap \<and> cap < need then grow_cap (cap * 2) need else cap)"
  by pat_completeness auto
termination by (relation "measure (\<lambda>(cap, need). need - cap)") auto

declare grow_cap.simps [simp del]

definition w_ensure :: "nat \<Rightarrow> unit wop" where
  "w_ensure n w =
     (let need = woff w + n in
      if need \<le> length (wbuf w) then (Inr (), w)
      else if length (wbuf w) = 0 then (Inl NoReturn, w)
      else let cap = grow_cap (length (wbuf w) * 2) need;
               nb = blit (allocUnsafe cap) 0 (take (woff w) (wbuf w))
           in (Inr (), w\<lparr>wbuf := nb\<rparr>))"

text \<open>Storing bytes at the offset and advancing it.\<close>

definition w_put :: "bytes \<Rightarrow> unit wop" where
  "w_put xs w = (Inr (), w\<lparr>wbuf := blit (wbuf w) (woff w) xs, woff := woff w + length xs\<rparr>)"

text \<open>A fixed-width write: the range check throws before anything is stored.\<close>

definition w_put_checked :: "js_error + bytes \<Rightarrow> unit wop" where
  "w_put_checked r = (case r of Inl e \<Rightarrow> wfail e | Inr xs \<Rightarrow> w_put xs)"

definition w_byte :: "nat \<Rightarrow> unit wop" where
  "w_byte n = wdo [w_ensure 1, w_put [b8 n]]"

definition w_int16 :: "int \<Rightarrow> unit wop" where
  "w_int16 n = wdo [w_ensure 2, w_put_checked (i16_bytes n)]"

definition w_int32 :: "int \<Rightarrow> unit wop" where
  "w_int32 n = wdo [w_ensure 4, w_put_checked (i32_bytes n)]"

text \<open>
  \<open>buf.write(s, off, 'utf8')\<close> stores as many whole characters as fit and returns the number of
  bytes stored.
\<close>

fun fit_cps :: "nat \<Rightarrow> nat list \<Rightarrow> bytes" where
  "fit_cps room [] = []"
| "fit_cps room (c # cs) =
     (if length (utf8_cp c) \<le> room then utf8_cp c @ fit_cps (room - length (utf8_cp c)) cs else [])"

definition buf_write_utf8 :: "bytes \<Rightarrow> nat \<Rightarrow> jsstr \<Rightarrow> bytes" where
  "buf_write_utf8 buf off s = fit_cps (length buf - off) (code_points s)"

definition buf_write_latin1 :: "bytes \<Rightarrow> nat \<Rightarrow> jsstr \<Rightarrow> bytes" where
  "buf_write_latin1 buf off s = take (length buf - off) (latin1 s)"

definition w_cstr :: "jsstr \<Rightarrow> unit wop" where
  "w_cstr s = wdo [w_ensure (length (utf8 s) + 1),
     (\<lambda>w. (Inr (), w\<lparr>wbuf := blit (wbuf w) (woff w) (buf_write_utf8 (wbuf w) (woff w) s),
                     woff := woff w + length (utf8 s)\<rparr>)),
     w_put [0]]"

definition w_bytes :: "bytes \<Rightarrow> unit wop" where
  "w_bytes b = wdo [w_ensure (length b), w_put b]"

definition w_str :: "jsstr \<Rightarrow> unit wop" where
  "w_str s = wdo [w_ensure (length s * 3), (\<lambda>w. w_put (buf_write_utf8 (wbuf w) (woff w) s) w)]"

definition w_asc :: "jsstr \<Rightarrow> unit wop" where
  "w_asc s = wdo [w_ensure (length s), (\<lambda>w. w_put (buf_write_latin1 (wbuf w) (woff w) s) w)]"

text \<open>Back-patching a reserved slot: a bounds-checked store that leaves the offset alone.\<close>

definition w_patch :: "nat \<Rightarrow> js_error + bytes \<Rightarrow> unit wop" where
  "w_patch pos r w = (case r of
       Inl e \<Rightarrow> (Inl e, w)
     | Inr xs \<Rightarrow> if pos + length xs \<le> length (wbuf w)
                then (Inr (), w\<lparr>wbuf := blit (wbuf w) pos xs\<rparr>)
                else (Inl BufferOutOfBounds, w))"

definition w_patch16 :: "nat \<Rightarrow> int \<Rightarrow> unit wop" where
  "w_patch16 pos n = w_patch pos (i16_bytes n)"

definition w_patch32 :: "nat \<Rightarrow> int \<Rightarrow> unit wop" where
  "w_patch32 pos n = w_patch pos (i32_bytes n)"

definition w_lpBytes :: "bytes \<Rightarrow> unit wop" where
  "w_lpBytes b = wdo [w_int32 (int (length b)), w_bytes b]"

text \<open>\<open>lpStr\<close> and \<open>lpAsc\<close> store the text four bytes ahead and back-patch its length.\<close>

definition w_lp_back :: "bytes \<Rightarrow> unit wop" where
  "w_lp_back xs w =
     (let n = length xs; w1 = w\<lparr>wbuf := blit (wbuf w) (woff w + 4) xs\<rparr>
      in case i32_bytes (int n) of
           Inl e \<Rightarrow> (Inl e, w1)
         | Inr h \<Rightarrow> (Inr (), w1\<lparr>wbuf := blit (wbuf w1) (woff w) h, woff := woff w + 4 + n\<rparr>))"

definition w_lpStr :: "jsstr \<Rightarrow> unit wop" where
  "w_lpStr s = wdo [w_ensure (4 + length s * 3),
     (\<lambda>w. w_lp_back (buf_write_utf8 (wbuf w) (woff w + 4) s) w)]"

definition w_lpAsc :: "jsstr \<Rightarrow> unit wop" where
  "w_lpAsc s = wdo [w_ensure (4 + length s),
     (\<lambda>w. w_lp_back (buf_write_latin1 (wbuf w) (woff w + 4) s) w)]"

text \<open>\<open>lpAsciiInt\<close>: count the digits, then store them from the last one backwards.\<close>

fun count_digits :: "nat \<Rightarrow> nat" where
  "count_digits t = (if t \<ge> 10 then Suc (count_digits (t div 10)) else 1)"

declare count_digits.simps [simp del]

fun put_digits :: "nat \<Rightarrow> nat \<Rightarrow> nat \<Rightarrow> bytes \<Rightarrow> bytes" where
  "put_digits 0 p n b = b"
| "put_digits (Suc d) p n b = put_digits d (p - 1) (n div 10) (b[p := b8 (48 + n mod 10)])"

definition w_lpAsciiInt :: "int \<Rightarrow> unit wop" where
  "w_lpAsciiInt v = wdo [w_ensure 25,
     (\<lambda>w. let neg = v < 0; n = nat \<bar>v\<bar>; d = count_digits n; len = d + (if neg then 1 else 0)
          in case i32_bytes (int len) of
               Inl e \<Rightarrow> (Inl e, w)
             | Inr h \<Rightarrow>
                 let b1 = blit (wbuf w) (woff w) h;
                     b2 = put_digits d (woff w + 4 + len - 1) n b1;
                     b3 = (if neg then b2[woff w + 4 := b8 45] else b2)
                 in (Inr (), w\<lparr>wbuf := b3, woff := woff w + 4 + len\<rparr>))]"

text \<open>\<open>lpI64\<close>: length 8, the floor-divided high word (signed), the low word modulo 2^32.\<close>

definition w_lpI64 :: "int \<Rightarrow> unit wop" where
  "w_lpI64 v = wdo [w_ensure 12,
     w_put_checked (rconcat [i32_bytes 8, i32_bytes (v div 4294967296), Inr (be_bytes 4 (v mod 4294967296))])]"

definition i64_bytes :: "int \<Rightarrow> js_error + bytes" where
  "i64_bytes v = (if - 9223372036854775808 \<le> v \<and> v \<le> 9223372036854775807
     then Inr (be_bytes 8 v) else Inl (OutOfRange v))"

definition w_lpI64Big :: "int \<Rightarrow> unit wop" where
  "w_lpI64Big v = wdo [w_ensure 12, w_put_checked (rconcat [i32_bytes 8, i64_bytes v])]"

text \<open>\<open>lpF8\<close>: the IEEE-754 bits of the double, big-endian.\<close>

definition w_lpF8 :: "64 word \<Rightarrow> unit wop" where
  "w_lpF8 v = wdo [w_ensure 12, w_put_checked (rconcat [i32_bytes 8, Inr (be_bytes 8 (uint v))])]"

definition w_start :: "nat \<Rightarrow> unit wop" where
  "w_start ty = wdo [w_byte ty, (\<lambda>w. (Inr (), w\<lparr>wmsg := woff w\<rparr>)), w_ensure 4,
     (\<lambda>w. (Inr (), w\<lparr>woff := woff w + 4\<rparr>))]"

definition w_end :: "unit wop" where
  "w_end w = w_patch (wmsg w) (i32_bytes (int (woff w) - int (wmsg w))) w"

definition w_slice :: "writer \<Rightarrow> bytes" where
  "w_slice w = take (woff w) (wbuf w)"

definition w_mark :: "nat wop" where
  "w_mark w = (Inr (woff w), w)"

definition w_rewind :: "nat \<Rightarrow> unit wop" where
  "w_rewind off w = (Inr (), w\<lparr>woff := off\<rparr>)"

subsection \<open>Well-formed writers\<close>

definition wf_writer :: "writer \<Rightarrow> bool" where
  "wf_writer w \<longleftrightarrow> 0 < length (wbuf w) \<and> woff w \<le> length (wbuf w)"


text \<open>
  \<open>appends w r res\<close>: an operation that was run on \<open>w\<close> and ended in \<open>res\<close> left a
  well-formed writer and either returned the value of \<open>r\<close> and appended exactly its bytes, or
  threw the error of \<open>r\<close> with everything written before it intact. \<open>yields m r\<close> says so of
  every well-formed writer, \<open>refines m r\<close> is the case without a value. \<open>keeps_msg m\<close>: the
  operation does not start a message.
\<close>

definition appends :: "writer \<Rightarrow> js_error + 'a \<times> bytes \<Rightarrow> (js_error + 'a) \<times> writer \<Rightarrow> bool" where
  "appends w r res \<longleftrightarrow> wf_writer (snd res) \<and>
     (case r of
        Inr (x, bs) \<Rightarrow> fst res = Inr x \<and> w_slice (snd res) = w_slice w @ bs
      | Inl e \<Rightarrow> fst res = Inl e \<and> woff w \<le> woff (snd res) \<and>
                 take (woff w) (wbuf (snd res)) = w_slice w)"

definition yields :: "'a wop \<Rightarrow> js_error + 'a \<times> bytes \<Rightarrow> bool" where
  "yields m r \<longleftrightarrow> (\<forall>w. wf_writer w \<longrightarrow> appends w r (m w))"

definition unit_of :: "js_error + bytes \<Rightarrow> js_error + unit \<times> bytes" where
  "unit_of r = rbind r (\<lambda>bs. Inr ((), bs))"

definition refines :: "unit wop \<Rightarrow> js_error + bytes \<Rightarrow> bool" where
  "refines m r \<longleftrightarrow> yields m (unit_of r)"

definition keeps_msg :: "'a wop \<Rightarrow> bool" where
  "keeps_msg m \<longleftrightarrow> (\<forall>w. wmsg (snd (m w)) = wmsg w)"

text \<open>Sequencing results that carry a value and the bytes appended.\<close>

definition ybind :: "js_error + 'a \<times> bytes \<Rightarrow> ('a \<Rightarrow> js_error + 'b \<times> bytes) \<Rightarrow> js_error + 'b \<times> bytes" where
  "ybind r f = rbind r (\<lambda>(x, bs). rbind (f x) (\<lambda>(y, bs'). Inr (y, bs @ bs')))"

subsection \<open>Buffer lemmas\<close>

lemma length_allocUnsafe [simp]: "length (allocUnsafe n) = n"
  by (simp add: allocUnsafe_def)

lemma length_blit: "pos + length xs \<le> length b \<Longrightarrow> length (blit b pos xs) = length b"
  by (simp add: blit_def)

lemma take_blit_below: "k \<le> pos \<Longrightarrow> pos \<le> length b \<Longrightarrow> take k (blit b pos xs) = take k b"
  by (simp add: blit_def min_def)

lemma take_blit_end: "pos \<le> length b \<Longrightarrow> take (pos + length xs) (blit b pos xs) = take pos b @ xs"
  by (simp add: blit_def)

lemma take_blit_inside:
  assumes "pos + length xs \<le> k" "k \<le> length b"
  shows "take k (blit b pos xs) = blit (take k b) pos xs"
proof -
  have "take (k - (pos + length xs)) (drop (pos + length xs) b) = drop (pos + length xs) (take k b)"
    by (simp add: drop_take)
  moreover have "take k (take pos b @ xs @ drop (pos + length xs) b)
      = take pos b @ xs @ take (k - (pos + length xs)) (drop (pos + length xs) b)"
    using assms by (simp add: min_absorb2 min_absorb1)
  moreover have "take pos (take k b) = take pos b" using assms by (simp add: min_absorb1)
  ultimately show ?thesis by (simp add: blit_def)
qed

lemma blit_append_left [simp]:
  "length pre = pos \<Longrightarrow> length old = length xs \<Longrightarrow> blit (pre @ old @ post) pos xs = pre @ xs @ post"
  by (simp add: blit_def)

lemma grow_cap_ge: "0 < cap \<Longrightarrow> need \<le> grow_cap cap need"
proof (induction cap need rule: grow_cap.induct)
  case (1 cap need)
  then show ?case by (cases "cap < need") (auto simp: grow_cap.simps [of cap need])
qed

lemma length_w_slice [simp]: "wf_writer w \<Longrightarrow> length (w_slice w) = woff w"
  by (simp add: wf_writer_def w_slice_def)

lemma wf_new_writer: "0 < n \<Longrightarrow> wf_writer (new_writer n)"
  by (simp add: wf_writer_def new_writer_def)

lemma w_slice_new_writer [simp]: "w_slice (new_writer n) = []"
  by (simp add: w_slice_def new_writer_def)

text \<open>What \<open>ensure(n)\<close> guarantees: room for \<open>n\<close> bytes, and nothing written is lost.\<close>

lemma w_ensure_spec:
  assumes "wf_writer w"
  obtains w' where "w_ensure n w = (Inr (), w')" "wf_writer w'" "woff w' = woff w" "wmsg w' = wmsg w"
    "take (woff w) (wbuf w') = take (woff w) (wbuf w)" "woff w + n \<le> length (wbuf w')"
proof (cases "woff w + n \<le> length (wbuf w)")
  case True
  with assms show ?thesis by (intro that [of w]) (auto simp: w_ensure_def Let_def)
next
  case False
  let ?cap = "grow_cap (length (wbuf w) * 2) (woff w + n)"
  let ?w = "w\<lparr>wbuf := blit (allocUnsafe ?cap) 0 (take (woff w) (wbuf w))\<rparr>"
  have pos: "0 < length (wbuf w)" and off: "woff w \<le> length (wbuf w)"
    using assms by (auto simp: wf_writer_def)
  have cap: "woff w + n \<le> ?cap" using pos by (intro grow_cap_ge) simp
  have len: "length (blit (allocUnsafe ?cap) 0 (take (woff w) (wbuf w))) = ?cap"
    using cap off by (intro trans [OF length_blit]) auto
  have "w_ensure n w = (Inr (), ?w)" using False pos by (simp add: w_ensure_def Let_def)
  moreover have "take (woff w) (blit (allocUnsafe ?cap) 0 (take (woff w) (wbuf w)))
      = take (woff w) (wbuf w)"
    using off by (simp add: blit_def)
  moreover have "wf_writer ?w" using len cap False pos by (simp add: wf_writer_def)
  ultimately show ?thesis using cap len by (intro that [of ?w]) auto
qed

lemma w_put_spec:
  assumes "wf_writer w" "woff w + length xs \<le> length (wbuf w)"
  shows "fst (w_put xs w) = Inr ()" "wf_writer (snd (w_put xs w))"
    "w_slice (snd (w_put xs w)) = w_slice w @ xs" "wmsg (snd (w_put xs w)) = wmsg w"
    "woff (snd (w_put xs w)) = woff w + length xs"
  using assms by (auto simp: w_put_def wf_writer_def length_blit w_slice_def take_blit_end)

lemma wf_offD: "wf_writer w \<Longrightarrow> woff w \<le> length (wbuf w)"
  by (simp add: wf_writer_def)

subsection \<open>The refinement calculus\<close>

lemma wbind_Inr: "m w = (Inr x, w') \<Longrightarrow> wbind m f w = f x w'"
  by (simp add: wbind_def)

lemma wbind_Inl: "m w = (Inl e, w') \<Longrightarrow> wbind m f w = (Inl e, w')"
  by (simp add: wbind_def)

lemma wbind_wret_right [simp]: "wbind m wret = m"
  by (auto simp: wbind_def wret_def fun_eq_iff split: prod.splits sum.splits)

lemma wbind_wret [simp]: "wbind (wret x) f = f x"
  by (simp add: wbind_def wret_def fun_eq_iff)

lemma wbind_wfail [simp]: "wbind (wfail e) f = wfail e"
  by (simp add: wbind_def wfail_def fun_eq_iff)

lemma wbind_assoc: "wbind (wbind m f) g = wbind m (\<lambda>x. wbind (f x) g)"
  by (auto simp: wbind_def fun_eq_iff split: prod.splits sum.splits)

lemma wdo_append: "wdo (ms @ ns) = wbind (wdo ms) (\<lambda>_. wdo ns)"
  by (induction ms) (auto simp: wbind_assoc)

lemma unit_of_simps [simp]: "unit_of (Inl e) = Inl e" "unit_of (Inr bs) = Inr ((), bs)"
  by (simp_all add: unit_of_def)

lemma yieldsD: "yields m r \<Longrightarrow> wf_writer w \<Longrightarrow> appends w r (m w)"
  by (simp add: yields_def)

lemma refinesI: "(\<And>w. wf_writer w \<Longrightarrow> appends w (unit_of r) (m w)) \<Longrightarrow> refines m r"
  by (simp add: refines_def yields_def)

lemma refinesD: "refines m r \<Longrightarrow> wf_writer w \<Longrightarrow> appends w (unit_of r) (m w)"
  by (simp add: refines_def yields_def)

lemma appends_Inr:
  "appends w (Inr (x, bs)) res \<longleftrightarrow> wf_writer (snd res) \<and> fst res = Inr x \<and> w_slice (snd res) = w_slice w @ bs"
  by (simp add: appends_def)

lemma appends_Inl:
  "appends w (Inl e) res \<longleftrightarrow> wf_writer (snd res) \<and> fst res = Inl e \<and> woff w \<le> woff (snd res) \<and>
     take (woff w) (wbuf (snd res)) = w_slice w"
  by (simp add: appends_def)

lemma yields_InrD:
  assumes "yields m (Inr (x, bs))" "wf_writer w"
  obtains w' where "m w = (Inr x, w')" "wf_writer w'" "w_slice w' = w_slice w @ bs" "woff w' = woff w + length bs"
proof -
  from yieldsD [OF assms] have *: "wf_writer (snd (m w))" "fst (m w) = Inr x" "w_slice (snd (m w)) = w_slice w @ bs"
    by (auto simp: appends_Inr)
  then have "woff (snd (m w)) = woff w + length bs"
    using assms(2) by (metis length_append length_w_slice)
  with * show ?thesis by (intro that [of "snd (m w)"]) (auto simp: prod_eq_iff)
qed

lemma refines_InrD:
  assumes "refines m (Inr bs)" "wf_writer w"
  obtains w' where "m w = (Inr (), w')" "wf_writer w'" "w_slice w' = w_slice w @ bs" "woff w' = woff w + length bs"
  using assms by (auto simp: refines_def elim: yields_InrD)

lemma yields_wret: "yields (wret x) (Inr (x, []))"
  by (simp add: yields_def wret_def appends_Inr)

lemma refines_wret: "refines (wret ()) (Inr [])"
  by (simp add: refines_def yields_wret)

lemma yields_wfail: "yields (wfail e) (Inl e)"
  by (simp add: yields_def wfail_def appends_Inl w_slice_def)

lemma refines_wfail: "refines (wfail e) (Inl e)"
  by (simp add: refines_def yields_wfail)

lemma slice_prefix_take:
  assumes "w_slice w' = w_slice w @ bs" "woff w' = woff w + length bs" "woff w' \<le> woff w''"
    "take (woff w') (wbuf w'') = w_slice w'" "wf_writer w"
  shows "take (woff w) (wbuf w'') = w_slice w"
proof -
  have "take (woff w) (take (woff w') (wbuf w'')) = take (woff w) (w_slice w')" using assms by simp
  also have "take (woff w) (w_slice w') = w_slice w" using assms by simp
  finally show ?thesis using assms(2) by (simp add: min_def)
qed

lemma appends_trans:
  assumes w: "wf_writer w" and m: "m w = (Inr x, w1)" and w1: "wf_writer w1" "w_slice w1 = w_slice w @ bs"
    "woff w1 = woff w + length bs" and f: "appends w1 r' (f x w1)"
  shows "appends w (rbind r' (\<lambda>(y, bs'). Inr (y, bs @ bs'))) (wbind m f w)"
proof (cases r')
  case (Inl e)
  with f have "wf_writer (snd (f x w1))" "fst (f x w1) = Inl e" "woff w1 \<le> woff (snd (f x w1))"
    "take (woff w1) (wbuf (snd (f x w1))) = w_slice w1" by (auto simp: appends_Inl)
  with slice_prefix_take [OF w1(2,3) _ _ w] Inl m w1 show ?thesis
    by (simp add: wbind_def appends_Inl)
next
  case (Inr p)
  with f m w1 show ?thesis by (cases p) (auto simp: appends_Inr wbind_def)
qed

lemma yields_bind:
  assumes m: "yields m r" and f: "\<And>x bs. r = Inr (x, bs) \<Longrightarrow> yields (f x) (g x)"
  shows "yields (wbind m f) (ybind r g)"
  unfolding yields_def
proof (intro allI impI)
  fix w assume w: "wf_writer w"
  show "appends w (ybind r g) (wbind m f w)"
  proof (cases r)
    case (Inl e)
    then have "fst (m w) = Inl e" using yieldsD [OF m w] by (simp add: appends_Inl)
    then have "wbind m f w = (Inl e, snd (m w))"
      by (cases "m w") (simp add: wbind_def)
    with Inl yieldsD [OF m w] show ?thesis by (simp add: ybind_def appends_Inl)
  next
    case (Inr p)
    obtain x bs where p: "p = (x, bs)" by (cases p)
    with m w Inr obtain w1 where w1: "m w = (Inr x, w1)" "wf_writer w1" "w_slice w1 = w_slice w @ bs"
      "woff w1 = woff w + length bs" by (auto elim: yields_InrD)
    with f [of x bs] Inr p have "appends w1 (g x) (f x w1)" by (auto dest: yieldsD)
    from appends_trans [of w m x w1 bs "g x" f, OF w w1 this] Inr p show ?thesis by (simp add: ybind_def)
  qed
qed

lemma refines_bind:
  assumes "refines m r" and "\<And>bs. r = Inr bs \<Longrightarrow> refines k r'"
  shows "refines (wbind m (\<lambda>_. k)) (rbind r (\<lambda>bs. rbind r' (\<lambda>bs'. Inr (bs @ bs'))))"
proof -
  have "yields (wbind m (\<lambda>_. k)) (ybind (unit_of r) (\<lambda>_. unit_of r'))"
    using assms by (intro yields_bind) (cases r; auto simp: refines_def)+
  moreover have "ybind (unit_of r) (\<lambda>_. unit_of r') = unit_of (rbind r (\<lambda>bs. rbind r' (\<lambda>bs'. Inr (bs @ bs'))))"
    by (cases r; cases r') (auto simp: ybind_def)
  ultimately show ?thesis by (simp add: refines_def)
qed

lemma refines_wdo: "list_all2 refines ms rs \<Longrightarrow> refines (wdo ms) (rconcat rs)"
  by (induction rule: list_all2_induct) (auto simp: refines_wret intro: refines_bind)

lemma refines_map:
  "(\<And>x. x \<in> set xs \<Longrightarrow> refines (f x) (g x)) \<Longrightarrow> refines (wdo (map f xs)) (rconcat (map g xs))"
  by (rule refines_wdo) (simp add: list_all2_conv_all_nth)


subsection \<open>What each method appends\<close>

lemma length_utf8_cp: "length (utf8_cp n) \<le> 4" "n < 65536 \<Longrightarrow> length (utf8_cp n) \<le> 3"
  by (auto simp: utf8_cp_def)

text \<open>The worst case the buffer sizing relies on: three bytes per UTF-16 code unit.\<close>

lemma length_utf8_le: "length (utf8 s) \<le> length s * 3"
proof (induction s rule: code_points.induct)
  case (2 c)
  have "length (utf8_cp (lone_cp c)) \<le> 3"
    using unat_unit16_less [of c] by (intro length_utf8_cp(2)) (simp add: lone_cp_def)
  then show ?case by (simp add: utf8_def)
next
  case (3 c d cs)
  have "length (utf8_cp (lone_cp c)) \<le> 3"
    using unat_unit16_less [of c] by (intro length_utf8_cp(2)) (simp add: lone_cp_def)
  with 3 show ?case
    using length_utf8_cp(1) [of "65536 + (unat c - 55296) * 1024 + (unat d - 56320)"]
    by (auto simp: utf8_def)
qed simp

lemma fit_cps_all: "length (concat (map utf8_cp cs)) \<le> room \<Longrightarrow> fit_cps room cs = concat (map utf8_cp cs)"
  by (induction cs arbitrary: room) auto

lemma buf_write_utf8_fits:
  "off + length s * 3 \<le> length buf \<Longrightarrow> buf_write_utf8 buf off s = utf8 s"
  "off + length (utf8 s) \<le> length buf \<Longrightarrow> buf_write_utf8 buf off s = utf8 s"
  using length_utf8_le [of s] by (auto simp: buf_write_utf8_def utf8_def intro: fit_cps_all)

lemma buf_write_latin1_fits:
  "off + length s \<le> length buf \<Longrightarrow> buf_write_latin1 buf off s = latin1 s"
  by (simp add: buf_write_latin1_def)

text \<open>
  The shape of most methods: reserve \<open>n\<close> bytes, then store. \<open>k\<close> may rely on the room.
\<close>

lemma refines_reserve:
  assumes "\<And>w. wf_writer w \<Longrightarrow> woff w + n \<le> length (wbuf w) \<Longrightarrow> appends w (unit_of r) (k w)"
  shows "refines (wdo [w_ensure n, k]) r"
proof (rule refinesI)
  fix w assume "wf_writer w"
  then obtain w1 where w1: "w_ensure n w = (Inr (), w1)" "wf_writer w1" "woff w1 = woff w"
    "take (woff w) (wbuf w1) = take (woff w) (wbuf w)" "woff w + n \<le> length (wbuf w1)"
    by (rule w_ensure_spec)
  have "w_slice w1 = w_slice w" using w1 by (simp add: w_slice_def)
  then have "appends w (unit_of r) (k w1)" using assms [of w1] w1
    by (cases "unit_of r") (auto simp: appends_Inl appends_Inr)
  then show "appends w (unit_of r) (wdo [w_ensure n, k] w)" using w1(1) by (simp add: wbind_def)
qed

lemma appends_put:
  "wf_writer w \<Longrightarrow> woff w + length bs \<le> length (wbuf w) \<Longrightarrow> appends w (Inr ((), bs)) (w_put bs w)"
  by (simp add: appends_Inr w_put_spec)

lemma refines_reserve_put:
  assumes "\<And>bs. r = Inr bs \<Longrightarrow> length bs \<le> n"
  shows "refines (wdo [w_ensure n, w_put_checked r]) r"
proof (rule refines_reserve)
  fix w assume "wf_writer w" "woff w + n \<le> length (wbuf w)"
  with assms show "appends w (unit_of r) (w_put_checked r w)"
    using yieldsD [OF yields_wfail] by (cases r) (auto simp: w_put_checked_def intro!: appends_put)
qed

lemma refines_reserve_bytes:
  "length bs \<le> n \<Longrightarrow> refines (wdo [w_ensure n, w_put bs]) (Inr bs)"
  using refines_reserve_put [of "Inr bs" n] by (simp add: w_put_checked_def)

named_theorems writes \<open>the bytes each Writer method appends\<close>

lemma refines_byte [writes]: "refines (w_byte n) (Inr [b8 n])"
  unfolding w_byte_def by (rule refines_reserve_bytes) simp

lemma refines_int16 [writes]: "refines (w_int16 n) (i16_bytes n)"
  unfolding w_int16_def by (rule refines_reserve_put) (auto simp: i16_bytes_def split: if_splits)

lemma refines_int32 [writes]: "refines (w_int32 n) (i32_bytes n)"
  unfolding w_int32_def by (rule refines_reserve_put) (auto simp: i32_bytes_def split: if_splits)

lemma refines_bytes [writes]: "refines (w_bytes b) (Inr b)"
  unfolding w_bytes_def by (rule refines_reserve_bytes) simp

lemma refines_str [writes]: "refines (w_str s) (Inr (utf8 s))"
  unfolding w_str_def
proof (rule refines_reserve)
  fix w assume w: "wf_writer w" "woff w + length s * 3 \<le> length (wbuf w)"
  then have "woff w + length (utf8 s) \<le> length (wbuf w)" using length_utf8_le [of s] by linarith
  with w show "appends w (unit_of (Inr (utf8 s))) (w_put (buf_write_utf8 (wbuf w) (woff w) s) w)"
    by (simp add: buf_write_utf8_fits appends_put)
qed

lemma refines_asc [writes]: "refines (w_asc s) (Inr (latin1 s))"
  unfolding w_asc_def by (rule refines_reserve) (simp add: buf_write_latin1_fits appends_put)

lemma refines_cstr [writes]: "refines (w_cstr s) (Inr (utf8 s @ [0]))"
proof -
  let ?k = "\<lambda>w. (Inr (), w\<lparr>wbuf := blit (wbuf w) (woff w) (buf_write_utf8 (wbuf w) (woff w) s),
                     woff := woff w + length (utf8 s)\<rparr>) :: (js_error + unit) \<times> writer"
  have "w_cstr s = wdo [w_ensure (length (utf8 s) + 1), wdo [?k, w_put [0]]]"
    by (simp add: w_cstr_def)
  moreover have "refines (wdo [w_ensure (length (utf8 s) + 1), wdo [?k, w_put [0]]]) (Inr (utf8 s @ [0]))"
  proof (rule refines_reserve)
    fix w assume w: "wf_writer w" "woff w + (length (utf8 s) + 1) \<le> length (wbuf w)"
    then have "?k w = w_put (utf8 s) w"
      by (simp add: w_put_def buf_write_utf8_fits)
    then have k: "wdo [?k, w_put [0]] w = w_put [0] (snd (w_put (utf8 s) w))"
      by (simp add: wbind_def w_put_def)
    have "length (wbuf (snd (w_put (utf8 s) w))) = length (wbuf w)"
      using w by (simp add: w_put_def length_blit)
    then show "appends w (unit_of (Inr (utf8 s @ [0]))) (wdo [?k, w_put [0]] w)"
      unfolding k using w w_put_spec [of w "utf8 s"] w_put_spec [of "snd (w_put (utf8 s) w)" "[0]"]
      by (simp add: appends_Inr)
  qed
  ultimately show ?thesis by simp
qed

lemma refines_lpBytes [writes]:
  "refines (w_lpBytes b) (rconcat [i32_bytes (int (length b)), Inr b])"
  unfolding w_lpBytes_def by (rule refines_wdo) (simp add: writes)

lemma w_lp_back_spec:
  assumes w: "wf_writer w" and room: "woff w + 4 + length xs \<le> length (wbuf w)"
  shows "appends w (unit_of (rconcat [i32_bytes (int (length xs)), Inr xs])) (w_lp_back xs w)"
proof (cases "i32_bytes (int (length xs))")
  case (Inl e)
  with w room show ?thesis
    by (simp add: w_lp_back_def Let_def wf_writer_def length_blit w_slice_def take_blit_below appends_Inl)
next
  case (Inr h)
  then have h: "length h = 4" by (auto simp: i32_bytes_def split: if_splits)
  let ?b = "blit (wbuf w) (woff w + 4) xs"
  have lb: "length ?b = length (wbuf w)" using room by (simp add: length_blit)
  have "take (woff w + 4 + length xs) (blit ?b (woff w) h) = blit (take (woff w + 4 + length xs) ?b) (woff w) h"
    using room h lb by (intro take_blit_inside) auto
  also have "take (woff w + 4 + length xs) ?b = take (woff w + 4) (wbuf w) @ xs"
    using room by (intro take_blit_end) simp
  also have "take (woff w + 4) (wbuf w) = take (woff w) (wbuf w) @ take 4 (drop (woff w) (wbuf w))"
    by (rule take_add)
  also have "blit ((take (woff w) (wbuf w) @ take 4 (drop (woff w) (wbuf w))) @ xs) (woff w) h
      = take (woff w) (wbuf w) @ h @ xs"
    using room h by simp
  finally show ?thesis using Inr room h lb
    by (simp add: w_lp_back_def Let_def wf_writer_def length_blit w_slice_def appends_Inr) (use w in \<open>simp add: wf_writer_def\<close>)
qed

lemma refines_lpStr [writes]:
  "refines (w_lpStr s) (rconcat [i32_bytes (int (length (utf8 s))), Inr (utf8 s)])"
  unfolding w_lpStr_def
proof (rule refines_reserve)
  fix w assume w: "wf_writer w" "woff w + (4 + length s * 3) \<le> length (wbuf w)"
  then have e: "buf_write_utf8 (wbuf w) (woff w + 4) s = utf8 s" by (simp add: buf_write_utf8_fits)
  have room: "woff w + 4 + length (utf8 s) \<le> length (wbuf w)" using w length_utf8_le [of s] by linarith
  show "appends w (unit_of (rconcat [i32_bytes (int (length (utf8 s))), Inr (utf8 s)]))
      (w_lp_back (buf_write_utf8 (wbuf w) (woff w + 4) s) w)"
    unfolding e by (rule w_lp_back_spec [OF w(1) room])
qed

lemma refines_lpAsc [writes]:
  "refines (w_lpAsc s) (rconcat [i32_bytes (int (length s)), Inr (latin1 s)])"
  unfolding w_lpAsc_def
proof (rule refines_reserve)
  fix w assume w: "wf_writer w" "woff w + (4 + length s) \<le> length (wbuf w)"
  then have e: "buf_write_latin1 (wbuf w) (woff w + 4) s = latin1 s" by (simp add: buf_write_latin1_fits)
  have room: "woff w + 4 + length (latin1 s) \<le> length (wbuf w)" using w by simp
  show "appends w (unit_of (rconcat [i32_bytes (int (length s)), Inr (latin1 s)]))
      (w_lp_back (buf_write_latin1 (wbuf w) (woff w + 4) s) w)"
    unfolding e using w_lp_back_spec [OF w(1) room] by simp
qed


text \<open>
  \<open>lpAsciiInt\<close> stores the digits backwards; the result is the text of \<open>String(v)\<close>.
\<close>

lemma count_digits_length: "count_digits n = length (dec_digits n)"
proof (induction n rule: count_digits.induct)
  case (1 t)
  then show ?case by (cases "10 \<le> t") (simp_all add: count_digits.simps [of t] dec_digits.simps [of t])
qed

lemma put_digits_gen:
  assumes "d = count_digits n" "length mid = d"
  shows "put_digits d (length pre + d - 1) n (pre @ mid @ post) = pre @ latin1 (dec_nat n) @ post"
  using assms
proof (induction n arbitrary: d mid post rule: dec_digits.induct)
  case (1 n)
  have digit: "b8 (unat (digit_unit (n mod 10))) = b8 (48 + n mod 10)"
    by (simp add: unat_digit_unit)
  show ?case
  proof (cases "n < 10")
    case True
    with 1 have d: "d = Suc 0" by (simp add: count_digits.simps)
    with 1 obtain x where "mid = [x]" by (metis length_0_conv length_Suc_conv)
    with True d digit show ?thesis
      by (simp add: dec_nat_def dec_digits.simps [of n])
  next
    case False
    with 1 have d: "d = Suc (count_digits (n div 10))" by (simp add: count_digits.simps [of n])
    with 1 obtain mid' x where mid: "mid = mid' @ [x]" "length mid' = count_digits (n div 10)"
      by (metis length_Suc_conv_rev)
    let ?c = "b8 (48 + n mod 10)"
    have upd: "(pre @ mid @ post)[length pre + d - 1 := ?c] = pre @ mid' @ (?c # post)"
      using mid d by (simp add: list_update_append)
    have "put_digits d (length pre + d - 1) n (pre @ mid @ post)
        = put_digits (count_digits (n div 10)) (length pre + count_digits (n div 10) - 1) (n div 10) (pre @ mid' @ (?c # post))"
      unfolding upd [symmetric] by (simp add: d)
    also have "\<dots> = pre @ latin1 (dec_nat (n div 10)) @ (?c # post)"
      using 1(1) False mid by simp
    finally show ?thesis using False digit
      by (simp add: dec_nat_def dec_digits.simps [of n])
  qed
qed

lemma length_dec_nat: "length (dec_nat n) = count_digits n"
  by (simp add: dec_nat_def count_digits_length)

lemma length_dec_int: "length (dec_int v) = count_digits (nat \<bar>v\<bar>) + (if v < 0 then 1 else 0)"
  by (simp add: dec_int_def length_dec_nat)

lemma count_digits_le: "n < 10 ^ k \<Longrightarrow> 0 < k \<Longrightarrow> count_digits n \<le> k"
proof (induction k arbitrary: n)
  case (Suc k)
  show ?case
  proof (cases "n < 10")
    case False
    then have "n div 10 < 10 ^ k" "0 < k" using Suc.prems by (auto simp: div_less_iff_less_mult intro: Nat.gr0I)
    with Suc.IH False show ?thesis by (simp add: count_digits.simps [of n])
  qed (simp add: count_digits.simps)
qed simp

text \<open>The JavaScript safe integers, \<open>Number.isSafeInteger\<close>.\<close>

definition safe_int :: "int \<Rightarrow> bool" where
  "safe_int v \<longleftrightarrow> \<bar>v\<bar> \<le> 9007199254740991"

lemma ascii_int_stores:
  assumes "length pre = off" "length mid = len"
    "len = count_digits n + (if neg then 1 else 0)"
  shows "(if neg then (put_digits (count_digits n) (off + len - 1) n (pre @ mid @ post))[off := b8 45]
          else put_digits (count_digits n) (off + len - 1) n (pre @ mid @ post))
    = pre @ (if neg then [b8 45] else []) @ latin1 (dec_nat n) @ post"
proof (cases neg)
  case False
  with assms put_digits_gen [of "count_digits n" n mid pre post] show ?thesis by simp
next
  case True
  with assms obtain x mid' where mid: "mid = x # mid'" "length mid' = count_digits n"
    by (cases mid) auto
  with True assms put_digits_gen [of "count_digits n" n mid' "pre @ [x]" post] show ?thesis
    by (simp add: list_update_append)
qed

lemma buf_split:
  assumes "off + 4 + len \<le> length b" "length h = 4"
  shows "blit b off h = (take off b @ h) @ take len (drop (off + 4) b) @ drop (off + 4 + len) b"
  using assms by (simp add: blit_def) (metis add.commute append_take_drop_id drop_drop)

lemma refines_lpAsciiInt [writes]:
  assumes "safe_int v"
  shows "refines (w_lpAsciiInt v) (rconcat [i32_bytes (int (length (dec_int v))), Inr (latin1 (dec_int v))])"
  unfolding w_lpAsciiInt_def
proof (rule refines_reserve)
  fix w assume w: "wf_writer w" "woff w + 25 \<le> length (wbuf w)"
  let ?n = "nat \<bar>v\<bar>" and ?len = "length (dec_int v)"
  have len: "?len = count_digits ?n + (if v < 0 then 1 else 0)" by (rule length_dec_int)
  have "?n < 10 ^ 16" using assms by (simp add: safe_int_def)
  then have "count_digits ?n \<le> 16" by (rule count_digits_le) simp
  then have l17: "?len \<le> 17" unfolding len by (rule order_trans [OF add_right_mono]) simp
  then obtain h where h: "i32_bytes (int ?len) = Inr h" "length h = 4" by (simp add: i32_bytes_def)
  let ?pre = "take (woff w) (wbuf w) @ h"
  let ?mid = "take ?len (drop (woff w + 4) (wbuf w))" and ?post = "drop (woff w + 4 + ?len) (wbuf w)"
  have split: "blit (wbuf w) (woff w) h = ?pre @ ?mid @ ?post"
    using w l17 h by (intro buf_split) simp_all
  have pre: "length ?pre = woff w + 4" and mid: "length ?mid = ?len"
    using w l17 h by (simp_all add: wf_writer_def)
  have tx: "(if v < 0 then [b8 45] else []) @ latin1 (dec_nat ?n) = latin1 (dec_int v)"
    by (simp add: dec_int_def)
  note st = ascii_int_stores [OF pre mid len, of ?post]
  show "appends w (unit_of (rconcat [i32_bytes (int ?len), Inr (latin1 (dec_int v))]))
     ((\<lambda>w. let neg = v < 0; n = nat \<bar>v\<bar>; d = count_digits n; len = d + (if neg then 1 else 0)
          in case i32_bytes (int len) of
               Inl e \<Rightarrow> (Inl e, w)
             | Inr h \<Rightarrow>
                 let b1 = blit (wbuf w) (woff w) h;
                     b2 = put_digits d (woff w + 4 + len - 1) n b1;
                     b3 = (if neg then b2[woff w + 4 := b8 45] else b2)
                 in (Inr (), w\<lparr>wbuf := b3, woff := woff w + 4 + len\<rparr>)) w)"
    unfolding Let_def len [symmetric] h(1) sum.case split st unfolding append_assoc [symmetric] tx
    using w h l17 by (simp add: appends_Inr wf_writer_def w_slice_def)
qed

text \<open>The two int64 writers store the same eight bytes wherever both apply.\<close>

lemma word_byte_mod: "(word_of_int (v mod 4294967296) :: byte) = word_of_int v"
  by (simp add: word_of_int_eq_iff take_bit_eq_mod mod_mod_cancel)

lemma be_bytes_mod: "be_bytes k (v mod 256 ^ k) = be_bytes k v"
proof (induction k arbitrary: v)
  case (Suc k)
  have "v mod (256 * 256 ^ k) div 256 = v div 256 mod 256 ^ k"
    by (simp add: zmod_zmult2_eq)
  moreover have "(word_of_int (v mod (256 * 256 ^ k)) :: byte) = word_of_int v"
    by (simp add: word_of_int_eq_iff take_bit_eq_mod mod_mod_cancel)
  ultimately show ?case using Suc [of "v div 256"] by simp
qed simp

lemma be_bytes_add: "be_bytes (j + k) v = be_bytes j (v div 256 ^ k) @ be_bytes k v"
  by (induction k arbitrary: v) (simp_all add: zdiv_zmult2_eq)

lemma be_bytes_halves: "be_bytes 8 v = be_bytes 4 (v div 4294967296) @ be_bytes 4 (v mod 4294967296)"
  using be_bytes_add [of 4 4 v] be_bytes_mod [of 4 v] by simp

lemma i64_halves:
  "rconcat [i32_bytes (v div 4294967296), Inr (be_bytes 4 (v mod 4294967296))] =
     (if - 9223372036854775808 \<le> v \<and> v \<le> 9223372036854775807 then Inr (be_bytes 8 v)
      else Inl (OutOfRange (v div 4294967296)))"
proof -
  have "- 2147483648 \<le> v div 4294967296 \<and> v div 4294967296 \<le> 2147483647 \<longleftrightarrow>
      - 9223372036854775808 \<le> v \<and> v \<le> 9223372036854775807" by arith
  then show ?thesis by (simp add: i32_bytes_def be_bytes_halves)
qed

lemma refines_lpI64 [writes]:
  assumes "safe_int v"
  shows "refines (w_lpI64 v) (rconcat [i32_bytes 8, i64_bytes v])"
proof -
  have "rconcat [i32_bytes 8, i32_bytes (v div 4294967296), Inr (be_bytes 4 (v mod 4294967296))]
      = rconcat [i32_bytes 8, i64_bytes v]"
    using assms i64_halves [of v] by (simp add: safe_int_def i64_bytes_def i32_bytes_def abs_le_iff)
  then show ?thesis unfolding w_lpI64_def
    using refines_reserve_put [of "rconcat [i32_bytes 8, i64_bytes v]" 12]
    by (simp add: i32_bytes_def i64_bytes_def split: if_splits)
qed

lemma refines_lpI64Big [writes]: "refines (w_lpI64Big v) (rconcat [i32_bytes 8, i64_bytes v])"
  unfolding w_lpI64Big_def
  by (rule refines_reserve_put) (auto simp: i32_bytes_def i64_bytes_def split: if_splits)

lemma refines_lpF8 [writes]: "refines (w_lpF8 v) (rconcat [i32_bytes 8, Inr (be_bytes 8 (uint v))])"
  unfolding w_lpF8_def by (rule refines_reserve_put) (auto simp: i32_bytes_def)

subsection \<open>Whole messages: start, payload, end\<close>

named_theorems msg_kept \<open>operations that leave the current message's start alone\<close>

lemma keeps_msg_wret [msg_kept]: "keeps_msg (wret x)"
  by (simp add: keeps_msg_def wret_def)

lemma keeps_msg_wfail [msg_kept]: "keeps_msg (wfail e)"
  by (simp add: keeps_msg_def wfail_def)

lemma keeps_msg_bind [msg_kept]:
  "keeps_msg m \<Longrightarrow> (\<And>x. keeps_msg (f x)) \<Longrightarrow> keeps_msg (wbind m f)"
  unfolding keeps_msg_def by (auto simp: wbind_def split: prod.splits sum.splits) (metis snd_conv)+

lemma keeps_msg_wdo [msg_kept]: "list_all keeps_msg ms \<Longrightarrow> keeps_msg (wdo ms)"
  by (induction ms) (auto intro!: msg_kept)

lemma keeps_msg_ensure [msg_kept]: "keeps_msg (w_ensure n)"
  by (simp add: keeps_msg_def w_ensure_def Let_def)

lemma keeps_msg_put [msg_kept]: "keeps_msg (w_put xs)" "keeps_msg (w_put_checked r)"
  by (auto simp: keeps_msg_def w_put_def w_put_checked_def wfail_def split: sum.splits)

lemma keeps_msg_methods [msg_kept]:
  "keeps_msg (w_byte n)" "keeps_msg (w_int16 i)" "keeps_msg (w_int32 i)" "keeps_msg (w_bytes b)"
  "keeps_msg (w_lpI64 i)" "keeps_msg (w_lpI64Big i)" "keeps_msg (w_lpF8 v)" "keeps_msg (w_lpBytes b)"
  unfolding w_byte_def w_int16_def w_int32_def w_bytes_def w_lpI64_def w_lpI64Big_def w_lpF8_def w_lpBytes_def
  by (simp_all add: msg_kept del: wdo.simps)

lemma keeps_msg_texts [msg_kept]:
  "keeps_msg (w_cstr s)" "keeps_msg (w_str s)" "keeps_msg (w_asc s)"
  "keeps_msg (w_lpStr s)" "keeps_msg (w_lpAsc s)" "keeps_msg (w_lpAsciiInt i)"
  unfolding w_cstr_def w_str_def w_asc_def w_lpStr_def w_lpAsc_def w_lpAsciiInt_def
  by (intro keeps_msg_wdo; simp add: msg_kept del: wdo.simps;
      simp add: keeps_msg_def w_put_def w_lp_back_def Let_def split: sum.splits)+

text \<open>The framing of the wire protocol: type byte, int32 length of itself and the payload, payload.\<close>

definition frame :: "nat \<Rightarrow> js_error + bytes \<Rightarrow> js_error + bytes" where
  "frame ty r = rbind r (\<lambda>p. rbind (i32_bytes (int (length p) + 4)) (\<lambda>h. Inr (b8 ty # h @ p)))"

lemma w_start_spec:
  assumes "wf_writer w"
  obtains w' gap where "w_start ty w = (Inr (), w')" "wf_writer w'" "length gap = 4"
    "w_slice w' = w_slice w @ b8 ty # gap" "woff w' = woff w + 5" "wmsg w' = woff w + 1"
proof -
  obtain w1 where w1: "w_byte ty w = (Inr (), w1)" "wf_writer w1" "w_slice w1 = w_slice w @ [b8 ty]"
    "woff w1 = woff w + 1" using refines_InrD [OF refines_byte assms] by auto
  let ?w1 = "w1\<lparr>wmsg := woff w1\<rparr>"
  have "wf_writer ?w1" using w1 by (simp add: wf_writer_def)
  then obtain w2 where w2: "w_ensure 4 ?w1 = (Inr (), w2)" "wf_writer w2" "woff w2 = woff w1"
    "wmsg w2 = woff w1" "take (woff w1) (wbuf w2) = take (woff w1) (wbuf w1)" "woff w1 + 4 \<le> length (wbuf w2)"
    by (rule w_ensure_spec) auto
  let ?w3 = "w2\<lparr>woff := woff w2 + 4\<rparr>"
  have "w_start ty w = (Inr (), ?w3)" using w1 w2 by (simp add: w_start_def wbind_def wret_def)
  moreover have "wf_writer ?w3" using w2 by (simp add: wf_writer_def)
  moreover have "w_slice ?w3 = w_slice w1 @ take 4 (drop (woff w1) (wbuf w2))"
    using w2 by (simp add: w_slice_def take_add)
  ultimately show ?thesis using w1 w2
    by (intro that [of ?w3 "take 4 (drop (woff w1) (wbuf w2))"]) auto
qed

lemma refines_frame:
  assumes body: "refines body r" and kept: "keeps_msg body"
  shows "refines (wdo [w_start ty, body, w_end]) (frame ty r)"
proof (rule refinesI)
  fix w assume w: "wf_writer w"
  obtain w1 gap where w1: "w_start ty w = (Inr (), w1)" "wf_writer w1" "length gap = 4"
    "w_slice w1 = w_slice w @ b8 ty # gap" "woff w1 = woff w + 5" "wmsg w1 = woff w + 1"
    using w by (rule w_start_spec)
  have bd: "appends w1 (unit_of r) (body w1)" by (rule refinesD [OF body w1(2)])
  have run: "wdo [w_start ty, body, w_end] w = wbind body (\<lambda>_. w_end) w1"
    using w1(1) by (simp add: wbind_def)
  show "appends w (unit_of (frame ty r)) (wdo [w_start ty, body, w_end] w)"
  proof (cases r)
    case (Inl e)
    with bd have b: "fst (body w1) = Inl e" "wf_writer (snd (body w1))" "woff w1 \<le> woff (snd (body w1))"
      "take (woff w1) (wbuf (snd (body w1))) = w_slice w1" by (auto simp: appends_Inl)
    have "take (woff w) (wbuf (snd (body w1))) = w_slice w"
      using slice_prefix_take [OF w1(4) _ b(3,4) w] w1 by simp
    with Inl b w1 show ?thesis unfolding run
      by (cases "body w1") (simp add: wbind_def appends_Inl frame_def)
  next
    case (Inr p)
    obtain w2 where w2: "body w1 = (Inr (), w2)" "wf_writer w2" "w_slice w2 = w_slice w1 @ p"
      "woff w2 = woff w1 + length p" using refines_InrD [OF body [unfolded Inr] w1(2)] .
    have m2: "wmsg w2 = woff w + 1" using kept w1(6) w2(1) by (metis keeps_msg_def snd_conv)
    have "int (woff w2) - int (wmsg w2) = int (length p) + 4" using m2 w1(5) w2(4) by simp
    then have "w_end w2 = w_patch (woff w + 1) (i32_bytes (int (length p) + 4)) w2"
      by (simp only: w_end_def m2)
    then have wend: "wdo [w_start ty, body, w_end] w = w_patch (woff w + 1) (i32_bytes (int (length p) + 4)) w2"
      using run w2(1) by (simp add: wbind_def)
    have sl: "w_slice w2 = w_slice w @ b8 ty # gap @ p" using w1 w2 by simp
    show ?thesis
    proof (cases "i32_bytes (int (length p) + 4)")
      case (Inl e)
      have "take (woff w) (wbuf w2) = take (woff w) (w_slice w2)"
        using w1(5) w2(4) by (simp add: w_slice_def min_def)
      also have "\<dots> = w_slice w" unfolding sl using w by simp
      finally show ?thesis unfolding wend using \<open>r = Inr p\<close> Inl m2 w1(5) w2(2,4)
        by (simp add: w_patch_def frame_def appends_Inl)
    next
      case (Inr h)
      then have h: "length h = 4" by (auto simp: i32_bytes_def split: if_splits)
      have "take (woff w2) (blit (wbuf w2) (woff w + 1) h) = blit (w_slice w2) (woff w + 1) h"
        unfolding w_slice_def using w1 w2 h by (intro take_blit_inside) (auto simp: wf_writer_def)
      also have "\<dots> = w_slice w @ b8 ty # h @ p"
        unfolding sl using h w1 w by (simp add: blit_def)
      finally show ?thesis unfolding wend using \<open>r = Inr p\<close> Inr m2 w1 w2 h
        by (simp add: w_patch_def frame_def appends_Inr wf_writer_def length_blit w_slice_def)
    qed
  qed
qed

end
