(* ===== verification/Wire_Messages.thy ===== *)
theory Wire_Messages
  imports Wire_Writer
begin

section \<open>Frontend messages (src/protocol.ts: W and the write functions)\<close>

text \<open>
  The driver has two serialisers of the same protocol: the \<open>W\<close> object, which concatenates
  fresh Buffers (used for the handshake and as the reference), and the \<open>write...\<close> functions,
  which write into the reusable \<open>Writer\<close>. The \<open>W\<close> functions are modelled as pure functions
  into \<open>js_error + bytes\<close>, the write functions as writer operations, and the lemmas show
  that each write function refines the pure message.

  \<open>writeBindWith\<close> is generic in a \<open>ParamsEncoder\<close>. What it relies on is the locale
  \<open>param_encoder\<close>: an encoder appends the length-prefixed value, reports its format code and
  does not start a message. Inside the locale the Bind it writes is shown to be the Bind of the
  formats and values the encoder produced, although the format codes are patched in afterwards.
\<close>

record eparam =
  ep_format :: int          \<comment> \<open>EncodedParam.format: 0 text, 1 binary\<close>
  ep_bytes :: "bytes option" \<comment> \<open>EncodedParam.bytes: null is SQL NULL\<close>

text \<open>\<open>resultFormat: number | number[]\<close>\<close>

datatype rfmt = RF_all int | RF_each "int list"

subsection \<open>The pure messages: W\<close>

definition i16 :: "int \<Rightarrow> js_error + bytes" where "i16 n = i16_bytes n"
definition i32 :: "int \<Rightarrow> js_error + bytes" where "i32 n = i32_bytes n"
definition cstr :: "jsstr \<Rightarrow> bytes" where "cstr s = utf8 s @ [0]"

definition guardNul :: "jsstr \<Rightarrow> string \<Rightarrow> js_error + unit" where
  "guardNul s what = (if 0 \<in> set s then Inl (NulByte what) else Inr ())"

definition msg :: "nat \<Rightarrow> bytes \<Rightarrow> js_error + bytes" where
  "msg ty payload = rbind (i32 (int (length payload) + 4)) (\<lambda>h. Inr (b8 ty # h @ payload))"

definition PROTOCOL_VERSION :: int where "PROTOCOL_VERSION = 196608"

fun startup_parts :: "(jsstr \<times> jsstr option) list \<Rightarrow> js_error + bytes" where
  "startup_parts [] = Inr []"
| "startup_parts ((k, None) # kvs) = startup_parts kvs"
| "startup_parts ((k, Some v) # kvs) =
     rbind (guardNul v ''startup parameter'') (\<lambda>_.
     rbind (startup_parts kvs) (\<lambda>rest. Inr (cstr k @ cstr v @ rest)))"

definition W_startup :: "(jsstr \<times> jsstr option) list \<Rightarrow> js_error + bytes" where
  "W_startup params =
     rbind (i32 PROTOCOL_VERSION) (\<lambda>pv.
     rbind (startup_parts params) (\<lambda>parts.
       let payload = pv @ parts @ [0]
       in rbind (i32 (int (length payload) + 4)) (\<lambda>h. Inr (h @ payload))))"

definition W_password :: "jsstr \<Rightarrow> js_error + bytes" where
  "W_password s = msg 112 (cstr s)"

definition W_saslInitial :: "jsstr \<Rightarrow> jsstr \<Rightarrow> js_error + bytes" where
  "W_saslInitial mechanism clientFirst =
     (let cf = utf8 clientFirst
      in rbind (i32 (int (length cf))) (\<lambda>n. msg 112 (cstr mechanism @ n @ cf)))"

definition W_saslResponse :: "jsstr \<Rightarrow> js_error + bytes" where
  "W_saslResponse clientFinal = msg 112 (utf8 clientFinal)"

definition W_parse :: "jsstr \<Rightarrow> jsstr \<Rightarrow> js_error + bytes" where
  "W_parse name sql =
     rbind (guardNul sql ''query text'') (\<lambda>_.
     rbind (i16 0) (\<lambda>z. msg 80 (cstr name @ cstr sql @ z)))"

definition param_bytes :: "bytes option \<Rightarrow> js_error + bytes" where
  "param_bytes p = (case p of None \<Rightarrow> i32 (- 1) | Some b \<Rightarrow> rconcat [i32 (int (length b)), Inr b])"

definition W_bind :: "jsstr \<Rightarrow> jsstr \<Rightarrow> eparam list \<Rightarrow> int \<Rightarrow> js_error + bytes" where
  "W_bind portal statement params resultFormat =
     (if length params > 65535 then Inl (TooManyParams (length params))
      else rbind (rconcat ([Inr (cstr portal), Inr (cstr statement), i16 (int (length params))]
             @ map (\<lambda>p. i16 (ep_format p)) params
             @ [i16 (int (length params))]
             @ map (\<lambda>p. param_bytes (ep_bytes p)) params
             @ [i16 1, i16 resultFormat])) (msg 66))"

definition W_describe :: "nat \<Rightarrow> jsstr \<Rightarrow> js_error + bytes" where
  "W_describe kind name = msg 68 (b8 kind # cstr name)"

definition W_execute :: "jsstr \<Rightarrow> int \<Rightarrow> js_error + bytes" where
  "W_execute portal maxRows = rbind (i32 maxRows) (\<lambda>n. msg 69 (cstr portal @ n))"

definition W_close :: "nat \<Rightarrow> jsstr \<Rightarrow> js_error + bytes" where
  "W_close kind name = msg 67 (b8 kind # cstr name)"

definition W_sync :: "js_error + bytes" where "W_sync = msg 83 []"
definition W_flush :: "js_error + bytes" where "W_flush = msg 72 []"
definition W_terminate :: "js_error + bytes" where "W_terminate = msg 88 []"

definition W_copyFail :: "jsstr \<Rightarrow> js_error + bytes" where
  "W_copyFail reason = msg 102 (cstr reason)"

definition W_sslRequest :: "js_error + bytes" where
  "W_sslRequest = rconcat [i32 8, i32 80877103]"

definition W_cancelRequest :: "int \<Rightarrow> int \<Rightarrow> js_error + bytes" where
  "W_cancelRequest pid secret = rconcat [i32 16, i32 80877102, i32 pid, i32 secret]"

subsection \<open>The writer functions\<close>

definition guarded :: "js_error + unit \<Rightarrow> unit wop \<Rightarrow> unit wop" where
  "guarded g m = (case g of Inl e \<Rightarrow> wfail e | Inr _ \<Rightarrow> m)"

text \<open>\<open>paramOids\<close> absent or empty: zero declared types, the server infers them.\<close>

definition writeParse :: "jsstr \<Rightarrow> jsstr \<Rightarrow> int list \<Rightarrow> unit wop" where
  "writeParse name sql oids = guarded (guardNul sql ''query text'')
     (wdo [w_start 80,
        wdo [w_cstr name, w_cstr sql,
             (if oids \<noteq> [] then wdo (w_int16 (int (length oids)) # map w_int32 oids) else w_int16 0)],
        w_end])"

definition writeDescribe :: "nat \<Rightarrow> jsstr \<Rightarrow> unit wop" where
  "writeDescribe kind name = wdo [w_start 68, wdo [w_byte kind, w_cstr name], w_end]"

definition write_rfmt :: "rfmt \<Rightarrow> unit wop" where
  "write_rfmt rf = (case rf of
       RF_each fs \<Rightarrow> wdo (w_int16 (int (length fs)) # map w_int16 fs)
     | RF_all f \<Rightarrow> wdo [w_int16 1, w_int16 f])"

definition write_param :: "bytes option \<Rightarrow> unit wop" where
  "write_param p = (case p of None \<Rightarrow> w_int32 (- 1) | Some b \<Rightarrow> wdo [w_int32 (int (length b)), w_bytes b])"

definition writeBind :: "jsstr \<Rightarrow> jsstr \<Rightarrow> eparam list \<Rightarrow> rfmt \<Rightarrow> unit wop" where
  "writeBind portal statement params rf =
     (if length params > 65535 then wfail (TooManyParams (length params))
      else wdo [w_start 66,
        wdo ([w_cstr portal, w_cstr statement, w_int16 (int (length params))]
          @ map (\<lambda>p. w_int16 (ep_format p)) params
          @ [w_int16 (int (length params))]
          @ map (\<lambda>p. write_param (ep_bytes p)) params
          @ [write_rfmt rf]),
        w_end])"

text \<open>\<open>ParamsEncoder\<close>: the value and its index; the format code used is returned.\<close>

type_synonym 'v encoder = "'v \<Rightarrow> nat \<Rightarrow> int wop"

fun bind_values :: "'v encoder \<Rightarrow> nat \<Rightarrow> nat \<Rightarrow> 'v list \<Rightarrow> unit wop" where
  "bind_values enc fmtPos i [] = wret ()"
| "bind_values enc fmtPos i (v # vs) =
     wbind (enc v i) (\<lambda>f.
     wbind (if f \<noteq> 0 then w_patch16 (fmtPos + i * 2) f else wret ()) (\<lambda>_.
     bind_values enc fmtPos (Suc i) vs))"

definition writeBindWith :: "jsstr \<Rightarrow> jsstr \<Rightarrow> 'v list \<Rightarrow> 'v encoder \<Rightarrow> rfmt \<Rightarrow> unit wop" where
  "writeBindWith portal statement params enc rf =
     (if length params > 65535 then wfail (TooManyParams (length params))
      else wdo [w_start 66,
        wdo [w_cstr portal, w_cstr statement, w_int16 (int (length params)),
             wbind w_mark (\<lambda>fmtPos.
               wdo [wdo (map (\<lambda>_. w_int16 0) params),
                    w_int16 (int (length params)),
                    bind_values enc fmtPos 0 params]),
             write_rfmt rf],
        w_end])"

definition writeBindRaw :: "jsstr \<Rightarrow> jsstr \<Rightarrow> int list \<Rightarrow> bytes option list \<Rightarrow> rfmt \<Rightarrow> unit wop" where
  "writeBindRaw portal statement formats vals rf =
     (if length vals > 65535 then wfail (TooManyParams (length vals))
      else wdo [w_start 66,
        wdo ([w_cstr portal, w_cstr statement, w_int16 (int (length formats))]
          @ map w_int16 formats
          @ [w_int16 (int (length vals))]
          @ map write_param vals
          @ [write_rfmt rf]),
        w_end])"

definition writeExecute :: "jsstr \<Rightarrow> int \<Rightarrow> unit wop" where
  "writeExecute portal maxRows = wdo [w_start 69, wdo [w_cstr portal, w_int32 maxRows], w_end]"

definition writeClose :: "nat \<Rightarrow> jsstr \<Rightarrow> unit wop" where
  "writeClose kind name = wdo [w_start 67, wdo [w_byte kind, w_cstr name], w_end]"

definition writeSync :: "unit wop" where
  "writeSync = wdo [w_start 83, wdo [], w_end]"

definition writeQuery :: "jsstr \<Rightarrow> unit wop" where
  "writeQuery sql = guarded (guardNul sql ''query text'') (wdo [w_start 81, w_cstr sql, w_end])"

subsection \<open>Each write function refines its pure message\<close>

definition rf_parts :: "rfmt \<Rightarrow> (js_error + bytes) list" where
  "rf_parts rf = (case rf of RF_each fs \<Rightarrow> i16 (int (length fs)) # map i16 fs | RF_all f \<Rightarrow> [i16 1, i16 f])"

text \<open>A Bind message from its format codes and its length-prefixed values.\<close>

definition bind_msg :: "jsstr \<Rightarrow> jsstr \<Rightarrow> int list \<Rightarrow> (js_error + bytes) list \<Rightarrow> rfmt \<Rightarrow> js_error + bytes" where
  "bind_msg portal statement fmts vals rf =
     (if length vals > 65535 then Inl (TooManyParams (length vals))
      else rbind (rconcat ([Inr (cstr portal), Inr (cstr statement), i16 (int (length fmts))]
             @ map i16 fmts @ [i16 (int (length vals))] @ vals @ rf_parts rf)) (msg 66))"

lemma rconcat_append: "rconcat (xs @ ys) = rbind (rconcat xs) (\<lambda>a. rbind (rconcat ys) (\<lambda>b. Inr (a @ b)))"
proof (induction xs)
  case Nil
  show ?case by (cases "rconcat ys") auto
next
  case (Cons x xs)
  then show ?case by (cases x; cases "rconcat xs"; cases "rconcat ys") auto
qed

lemma rconcat_Inr: "rconcat (map Inr bss) = Inr (concat bss)"
  by (induction bss) auto

lemma rconcat_nested: "rconcat (xs @ [rconcat ys]) = rconcat (xs @ ys)"
  by (cases "rconcat ys") (auto simp: rconcat_append)

lemma frame_msg: "frame ty r = rbind r (msg ty)"
  by (cases r) (simp_all add: frame_def msg_def i32_def)

lemma refines_guarded:
  "(g = Inr () \<Longrightarrow> refines m r) \<Longrightarrow> refines (guarded g m) (rbind g (\<lambda>_. r))"
  by (cases g) (auto simp: guarded_def refines_wfail)

lemma refines_message:
  assumes "list_all2 refines ms rs" "list_all keeps_msg ms"
  shows "refines (wdo [w_start ty, wdo ms, w_end]) (rbind (rconcat rs) (msg ty))"
  unfolding frame_msg [symmetric] using assms by (intro refines_frame refines_wdo keeps_msg_wdo)

lemma refines_rfmt [writes]: "refines (write_rfmt rf) (rconcat (rf_parts rf))"
  unfolding write_rfmt_def rf_parts_def i16_def
  by (cases rf) (auto intro!: refines_wdo simp: writes list_all2_map1 list_all2_map2 list.rel_refl
      simp del: wdo.simps rconcat.simps)

lemma keeps_msg_rfmt [msg_kept]: "keeps_msg (write_rfmt rf)"
  unfolding write_rfmt_def
  by (cases rf) (auto intro!: keeps_msg_wdo simp: msg_kept list_all_iff simp del: wdo.simps)

lemma refines_param [writes]: "refines (write_param p) (param_bytes p)"
  unfolding write_param_def param_bytes_def i32_def
  by (cases p) (auto intro!: refines_wdo simp: writes simp del: wdo.simps rconcat.simps)

lemma keeps_msg_param [msg_kept]: "keeps_msg (write_param p)"
  unfolding write_param_def by (cases p) (auto intro!: keeps_msg_wdo simp: msg_kept simp del: wdo.simps)

lemma writeBind_refines:
  "refines (writeBind portal statement params rf)
     (bind_msg portal statement (map ep_format params) (map (\<lambda>p. param_bytes (ep_bytes p)) params) rf)"
proof (cases "length params > 65535")
  case True
  then show ?thesis by (simp add: writeBind_def bind_msg_def refines_wfail)
next
  case False
  have "refines (writeBind portal statement params rf)
     (rbind (rconcat ([Inr (cstr portal), Inr (cstr statement), i16 (int (length params))]
        @ map (\<lambda>p. i16 (ep_format p)) params @ [i16 (int (length params))]
        @ map (\<lambda>p. param_bytes (ep_bytes p)) params @ [rconcat (rf_parts rf)])) (msg 66))"
    unfolding writeBind_def using False
    by (simp del: wdo.simps rconcat.simps, intro refines_message)
       (auto simp: writes msg_kept i16_def cstr_def list_all2_append list_all2_map1 list_all2_map2
          list.rel_refl list_all_iff simp del: wdo.simps rconcat.simps)
  moreover have "rconcat ([Inr (cstr portal), Inr (cstr statement), i16 (int (length params))]
        @ map (\<lambda>p. i16 (ep_format p)) params @ [i16 (int (length params))]
        @ map (\<lambda>p. param_bytes (ep_bytes p)) params @ [rconcat (rf_parts rf)])
      = rconcat ([Inr (cstr portal), Inr (cstr statement), i16 (int (length params))]
        @ map (\<lambda>p. i16 (ep_format p)) params @ [i16 (int (length params))]
        @ map (\<lambda>p. param_bytes (ep_bytes p)) params @ rf_parts rf)"
    using rconcat_nested [of "[Inr (cstr portal), Inr (cstr statement), i16 (int (length params))]
        @ map (\<lambda>p. i16 (ep_format p)) params @ [i16 (int (length params))]
        @ map (\<lambda>p. param_bytes (ep_bytes p)) params" "rf_parts rf"] by (simp only: append_assoc)
  ultimately show ?thesis using False by (simp add: bind_msg_def comp_def)
qed

lemma writeBindRaw_refines:
  "refines (writeBindRaw portal statement formats vals rf)
     (bind_msg portal statement formats (map param_bytes vals) rf)"
proof (cases "length vals > 65535")
  case True
  then show ?thesis by (simp add: writeBindRaw_def bind_msg_def refines_wfail)
next
  case False
  have "refines (writeBindRaw portal statement formats vals rf)
     (rbind (rconcat ([Inr (cstr portal), Inr (cstr statement), i16 (int (length formats))]
        @ map i16 formats @ [i16 (int (length vals))] @ map param_bytes vals @ [rconcat (rf_parts rf)])) (msg 66))"
    unfolding writeBindRaw_def using False
    by (simp del: wdo.simps rconcat.simps, intro refines_message)
       (auto simp: writes msg_kept i16_def cstr_def list_all2_append list_all2_map1 list_all2_map2
          list.rel_refl list_all_iff simp del: wdo.simps rconcat.simps)
  then show ?thesis using False
      rconcat_nested [of "[Inr (cstr portal), Inr (cstr statement), i16 (int (length formats))]
        @ map i16 formats @ [i16 (int (length vals))] @ map param_bytes vals" "rf_parts rf"]
    by (simp only: bind_msg_def append_assoc length_map if_False)
qed

lemma writeParse_refines:
  "refines (writeParse name sql oids) (rbind (guardNul sql ''query text'') (\<lambda>_.
     rbind (rconcat [Inr (cstr name), Inr (cstr sql),
        if oids = [] then i16 0 else rconcat (i16 (int (length oids)) # map i32 oids)]) (msg 80)))"
proof -
  have o: "refines (wdo (w_int16 (int (length oids)) # map w_int32 oids))
      (rconcat (i16 (int (length oids)) # map i32 oids))"
    unfolding i16_def i32_def
    by (rule refines_wdo) (simp add: writes list_all2_map1 list_all2_map2 list.rel_refl)
  have k: "keeps_msg (wdo (w_int16 (int (length oids)) # map w_int32 oids))"
    by (rule keeps_msg_wdo) (simp add: msg_kept list_all_iff)
  show ?thesis unfolding writeParse_def
    by (intro refines_guarded refines_message)
       (use o k in \<open>auto simp: writes msg_kept cstr_def i16_def simp del: wdo.simps rconcat.simps\<close>)
qed

lemma writeDescribe_refines: "refines (writeDescribe kind name) (W_describe kind name)"
  using refines_message [of "[w_byte kind, w_cstr name]" "[Inr [b8 kind], Inr (cstr name)]" 68]
  by (simp add: writeDescribe_def W_describe_def writes msg_kept cstr_def)

lemma writeClose_refines: "refines (writeClose kind name) (W_close kind name)"
  using refines_message [of "[w_byte kind, w_cstr name]" "[Inr [b8 kind], Inr (cstr name)]" 67]
  by (simp add: writeClose_def W_close_def writes msg_kept cstr_def)

lemma writeExecute_refines: "refines (writeExecute portal maxRows) (W_execute portal maxRows)"
proof -
  have "rbind (rconcat [Inr (cstr portal), i32 maxRows]) (msg 69) = W_execute portal maxRows"
    by (cases "i32 maxRows") (simp_all add: W_execute_def)
  then show ?thesis
    using refines_message [of "[w_cstr portal, w_int32 maxRows]" "[Inr (cstr portal), i32 maxRows]" 69]
    by (simp add: writeExecute_def writes msg_kept cstr_def i32_def)
qed

lemma writeSync_refines: "refines writeSync W_sync"
  using refines_message [of "[]" "[]" 83] by (simp add: writeSync_def W_sync_def)

lemma writeQuery_refines:
  "refines (writeQuery sql) (rbind (guardNul sql ''query text'') (\<lambda>_. msg 81 (cstr sql)))"
proof -
  have "refines (wdo [w_start 81, w_cstr sql, w_end]) (frame 81 (Inr (cstr sql)))"
    unfolding cstr_def by (intro refines_frame) (simp_all add: writes msg_kept)
  then show ?thesis unfolding writeQuery_def by (intro refines_guarded) (simp add: frame_msg)
qed

lemmas message_refines = writeParse_refines writeDescribe_refines writeBind_refines writeBindRaw_refines
  writeExecute_refines writeClose_refines writeSync_refines writeQuery_refines

subsection \<open>Write-through parameters: the ParamsEncoder contract\<close>

text \<open>The format codes and the length-prefixed values an encoder produces for a parameter list.\<close>

fun wires :: "('v \<Rightarrow> nat \<Rightarrow> js_error + int \<times> bytes) \<Rightarrow> nat \<Rightarrow> 'v list \<Rightarrow> js_error + (int \<times> bytes) list" where
  "wires wire i [] = Inr []"
| "wires wire i (v # vs) = rbind (wire v i) (\<lambda>x. rbind (wires wire (Suc i) vs) (\<lambda>xs. Inr (x # xs)))"

definition fmt_bytes :: "(int \<times> bytes) list \<Rightarrow> bytes" where
  "fmt_bytes ws = concat (map (\<lambda>p. be_bytes 2 (fst p)) ws)"

definition val_bytes :: "(int \<times> bytes) list \<Rightarrow> bytes" where
  "val_bytes ws = concat (map snd ws)"

lemma length_wires: "wires wire i vs = Inr ws \<Longrightarrow> length ws = length vs"
  by (induction vs arbitrary: i ws) (auto simp: rbind_Inr_iff)

text \<open>Patching a format slot inside what has been written.\<close>

lemma w_patch16_slot:
  assumes "wf_writer w" "w_slice w = A @ x # y # C" "f \<in> {0, 1}"
  obtains w' where "w_patch16 (length A) f w = (Inr (), w')" "wf_writer w'"
    "w_slice w' = A @ be_bytes 2 f @ C" "woff w' = woff w" "wmsg w' = wmsg w"
proof -
  let ?w = "w\<lparr>wbuf := blit (wbuf w) (length A) (be_bytes 2 f)\<rparr>"
  have len: "length A + 2 \<le> woff w"
    using arg_cong [OF assms(2), of length] assms(1) by simp
  have f: "i16_bytes f = Inr (be_bytes 2 f)" using assms(3) by (auto simp: i16_bytes_def)
  have "w_patch16 (length A) f w = (Inr (), ?w)"
    using len assms(1) by (simp add: w_patch16_def w_patch_def f wf_writer_def)
  moreover have "wf_writer ?w" using len assms(1) by (simp add: wf_writer_def length_blit)
  moreover have "w_slice ?w = blit (w_slice w) (length A) (be_bytes 2 f)"
    using len assms(1) by (simp add: w_slice_def wf_writer_def take_blit_inside)
  moreover have "blit (A @ x # y # C) (length A) (be_bytes 2 f) = A @ be_bytes 2 f @ C"
    by (simp add: blit_def)
  ultimately show ?thesis using assms(2) by (intro that [of ?w]) simp_all
qed

text \<open>
  Writing the values behind pre-written format slots: a slot is patched only when the encoder's
  code differs from what the slot holds. \<open>bind_values\<close> is the case of slots that are all 0; a
  compiled encoder has the expected codes in its constant prefix.
\<close>

fun baked_values :: "'v encoder \<Rightarrow> (nat \<Rightarrow> int) \<Rightarrow> nat \<Rightarrow> nat \<Rightarrow> 'v list \<Rightarrow> unit wop" where
  "baked_values enc baked fmtPos i [] = wret ()"
| "baked_values enc baked fmtPos i (v # vs) =
     wbind (enc v i) (\<lambda>f.
     wbind (if f \<noteq> baked i then w_patch16 (fmtPos + i * 2) f else wret ()) (\<lambda>_.
     baked_values enc baked fmtPos (Suc i) vs))"

lemma bind_values_baked: "bind_values enc fmtPos i vs = baked_values enc (\<lambda>_. 0) fmtPos i vs"
  by (induction vs arbitrary: i) simp_all

definition slot_bytes :: "(nat \<Rightarrow> int) \<Rightarrow> nat \<Rightarrow> nat \<Rightarrow> bytes" where
  "slot_bytes baked i n = concat (map (\<lambda>j. be_bytes 2 (baked j)) [i ..< i + n])"

lemma slot_bytes_simps [simp]:
  "slot_bytes baked i 0 = []"
  "slot_bytes baked i (Suc n) = be_bytes 2 (baked i) @ slot_bytes baked (Suc i) n"
  by (simp_all add: slot_bytes_def upt_conv_Cons del: upt_Suc)

lemma slot_bytes_zero: "slot_bytes (\<lambda>_. 0) i (length vs) = concat (map (\<lambda>_. [0, 0]) vs)"
  by (induction vs arbitrary: i) (simp_all add: numeral_2_eq_2)

locale param_encoder =
  fixes enc :: "'v \<Rightarrow> nat \<Rightarrow> int wop" and wire :: "'v \<Rightarrow> nat \<Rightarrow> js_error + int \<times> bytes"
  assumes enc_yields: "yields (enc v i) (wire v i)"
    and enc_keeps: "keeps_msg (enc v i)"
    and enc_format: "wire v i = Inr (f, bs) \<Longrightarrow> f \<in> {0, 1}"
begin

text \<open>One value: the encoder appends it and its slot receives the format code.\<close>

lemma patch_step:
  assumes w: "wf_writer w" "w_slice w = A @ be_bytes 2 (baked i) @ C" and v: "wire v i = Inr (f, bs)"
    and pos: "fmtPos + i * 2 = length A"
  obtains w' where "baked_values enc baked fmtPos i (v # vs) w = baked_values enc baked fmtPos (Suc i) vs w'"
    "wf_writer w'" "w_slice w' = A @ be_bytes 2 f @ C @ bs" "woff w \<le> woff w'"
proof -
  obtain w1 where w1: "enc v i w = (Inr f, w1)" "wf_writer w1" "w_slice w1 = w_slice w @ bs"
    "woff w1 = woff w + length bs"
    using enc_yields [of v i] w(1) unfolding v by (rule yields_InrD)
  show ?thesis
  proof (cases "f = baked i")
    case True
    with w1 w show ?thesis by (intro that [of w1]) (simp_all add: wbind_def wret_def)
  next
    case False
    have "f \<in> {0, 1}" using v by (rule enc_format)
    obtain x y where xy: "be_bytes 2 (baked i) = [x, y]" by (simp add: numeral_2_eq_2)
    then have "w_slice w1 = A @ x # y # (C @ bs)" using w1 w by simp
    then obtain w2 where "w_patch16 (length A) f w1 = (Inr (), w2)" "wf_writer w2"
      "w_slice w2 = A @ be_bytes 2 f @ (C @ bs)" "woff w2 = woff w1"
      using w1(2) \<open>f \<in> {0, 1}\<close> by (auto elim: w_patch16_slot)
    with False w1 pos show ?thesis by (intro that [of w2]) (simp_all add: wbind_def)
  qed
qed

lemma baked_values_ok:
  assumes "wf_writer w" "w_slice w = A @ slot_bytes baked i (length vs) @ C" "fmtPos + i * 2 = length A"
    "wires wire i vs = Inr ws"
  shows "\<exists>w'. baked_values enc baked fmtPos i vs w = (Inr (), w') \<and> wf_writer w' \<and>
    w_slice w' = A @ fmt_bytes ws @ C @ val_bytes ws"
  using assms
proof (induction vs arbitrary: w A C i ws)
  case Nil
  then show ?case by (simp add: wret_def fmt_bytes_def val_bytes_def)
next
  case (Cons v vs)
  from Cons.prems(4) obtain f bs ws' where v: "wire v i = Inr (f, bs)"
    and vs: "wires wire (Suc i) vs = Inr ws'" and ws: "ws = (f, bs) # ws'"
    by (auto simp: rbind_Inr_iff)
  let ?C = "slot_bytes baked (Suc i) (length vs) @ C"
  have "w_slice w = A @ be_bytes 2 (baked i) @ ?C" using Cons.prems(2) by simp
  from patch_step [where baked = baked and i = i and vs = vs, OF Cons.prems(1) this v Cons.prems(3)] obtain w' where
    w': "baked_values enc baked fmtPos i (v # vs) w = baked_values enc baked fmtPos (Suc i) vs w'" "wf_writer w'"
    "w_slice w' = A @ be_bytes 2 f @ ?C @ bs" .
  then have "w_slice w' = (A @ be_bytes 2 f) @ slot_bytes baked (Suc i) (length vs) @ (C @ bs)" by simp
  from Cons.IH [OF w'(2) this _ vs] Cons.prems(3) show ?case
    unfolding w'(1) ws by (auto simp: fmt_bytes_def val_bytes_def)
qed

lemma baked_values_error:
  assumes "wf_writer w" "w_slice w = A @ slot_bytes baked i (length vs) @ C" "fmtPos + i * 2 = length A"
    "wires wire i vs = Inl e"
  shows "\<exists>w'. baked_values enc baked fmtPos i vs w = (Inl e, w') \<and> wf_writer w' \<and> length A \<le> woff w' \<and>
    take (length A) (wbuf w') = A"
  using assms
proof (induction vs arbitrary: w A C i)
  case Nil
  then show ?case by simp
next
  case (Cons v vs)
  let ?C = "slot_bytes baked (Suc i) (length vs) @ C"
  have sl: "w_slice w = A @ be_bytes 2 (baked i) @ ?C" using Cons.prems(2) by simp
  show ?case
  proof (cases "wire v i")
    case (Inl e')
    then have "appends w (Inl e') (enc v i w)" using enc_yields [of v i] Cons.prems(1) by (metis yieldsD)
    then have r: "fst (enc v i w) = Inl e'" "wf_writer (snd (enc v i w))" "woff w \<le> woff (snd (enc v i w))"
      "take (woff w) (wbuf (snd (enc v i w))) = w_slice w" by (auto simp: appends_Inl)
    have "length A \<le> woff w" using arg_cong [OF sl, of length] Cons.prems(1) by simp
    moreover have "take (length A) (take (woff w) (wbuf (snd (enc v i w)))) = A" using r(4) sl by simp
    moreover have "e' = e" using Cons.prems(4) Inl by simp
    ultimately show ?thesis using r
      by (cases "enc v i w") (auto simp: wbind_def min_absorb1)
  next
    case (Inr p)
    obtain f bs where p: "wire v i = Inr (f, bs)" using Inr by (cases p) auto
    from patch_step [where baked = baked and i = i and vs = vs, OF Cons.prems(1) sl p Cons.prems(3)] obtain w' where
      w': "baked_values enc baked fmtPos i (v # vs) w = baked_values enc baked fmtPos (Suc i) vs w'" "wf_writer w'"
      "w_slice w' = A @ be_bytes 2 f @ ?C @ bs" .
    then have s': "w_slice w' = (A @ be_bytes 2 f) @ slot_bytes baked (Suc i) (length vs) @ (C @ bs)" by simp
    have "wires wire (Suc i) vs = Inl e"
      using Cons.prems(4) p by (cases "wires wire (Suc i) vs") auto
    from Cons.IH [OF w'(2) s' _ this] Cons.prems(3) obtain w'' where
      "baked_values enc baked fmtPos (Suc i) vs w' = (Inl e, w'')" "wf_writer w''" "length A + 2 \<le> woff w''"
      "take (length A + 2) (wbuf w'') = A @ be_bytes 2 f" by auto
    moreover have "take (length A) (wbuf w'') = take (length A) (take (length A + 2) (wbuf w''))"
      by (simp only: take_take min_absorb1 le_add1)
    ultimately show ?thesis unfolding w'(1) by simp
  qed
qed

lemma keeps_msg_baked_values: "keeps_msg (baked_values enc baked fmtPos i vs)"
proof (induction vs arbitrary: i)
  case (Cons v vs)
  have "keeps_msg (w_patch16 pos f)" for pos f
    by (simp add: keeps_msg_def w_patch16_def w_patch_def split: sum.splits)
  with Cons show ?case by (simp add: msg_kept enc_keeps)
qed (simp add: msg_kept)

text \<open>Any header that writes the slots after \<open>pre\<close> bytes of its own, followed by the values.\<close>

lemma baked_section_refines:
  assumes head: "refines h (Inr (pre @ slot_bytes baked 0 (length params) @ post))"
  shows "refines (wbind w_mark (\<lambda>base. wbind h (\<lambda>_. baked_values enc baked (base + length pre) 0 params)))
     (rbind (wires wire 0 params) (\<lambda>ws. Inr (pre @ fmt_bytes ws @ post @ val_bytes ws)))"
    (is "refines ?m ?r")
proof (rule refinesI)
  fix w assume w: "wf_writer w"
  obtain w1 where w1: "h w = (Inr (), w1)" "wf_writer w1"
    "w_slice w1 = w_slice w @ pre @ slot_bytes baked 0 (length params) @ post"
    using head w by (rule refines_InrD)
  have run: "?m w = baked_values enc baked (woff w + length pre) 0 params w1"
    using w1(1) by (simp add: w_mark_def wbind_def)
  have sl: "w_slice w1 = (w_slice w @ pre) @ slot_bytes baked 0 (length params) @ post" using w1(3) by simp
  have pos: "(woff w + length pre) + 0 * 2 = length (w_slice w @ pre)" using w by simp
  show "appends w (unit_of ?r) (?m w)"
  proof (cases "wires wire 0 params")
    case (Inl e)
    from baked_values_error [OF w1(2) sl pos Inl] obtain w' where w':
      "?m w = (Inl e, w')" "wf_writer w'" "woff w + length pre \<le> woff w'"
      "take (woff w + length pre) (wbuf w') = w_slice w @ pre" using run w by auto
    have "take (woff w) (take (woff w + length pre) (wbuf w')) = w_slice w" using w by (simp add: w'(4))
    then have "take (woff w) (wbuf w') = w_slice w" by (simp add: min_def)
    with w' Inl show ?thesis by (simp add: appends_Inl)
  next
    case (Inr ws)
    from baked_values_ok [OF w1(2) sl pos Inr] run Inr show ?thesis by (auto simp: appends_Inr)
  qed
qed

lemma slots_refines:
  assumes "length params \<le> 65535"
  shows "refines (wdo [wdo (map (\<lambda>_. w_int16 0) params), w_int16 (int (length params))])
    (Inr (slot_bytes (\<lambda>_. 0) 0 (length params) @ be_bytes 2 (int (length params))))"
proof -
  have z: "i16_bytes 0 = Inr [0, 0]" by (simp add: i16_bytes_def numeral_2_eq_2)
  have "refines (wdo (map (\<lambda>_. w_int16 0) params)) (rconcat (map (\<lambda>_. i16_bytes 0) params))"
    by (rule refines_map) (rule refines_int16)
  then have "list_all2 refines [wdo (map (\<lambda>_. w_int16 0) params), w_int16 (int (length params))]
      [Inr (concat (map (\<lambda>_. [0, 0]) params)), i16_bytes (int (length params))]"
    using rconcat_Inr [of "map (\<lambda>_. [0, 0 :: byte]) params", where 'a = js_error]
    by (simp add: writes z comp_def del: wdo.simps)
  from refines_wdo [OF this] assms show ?thesis by (simp add: i16_bytes_def slot_bytes_zero)
qed

lemma bind_section_refines:
  assumes n: "length params \<le> 65535"
  shows "refines (wbind w_mark (\<lambda>fmtPos.
       wdo [wdo (map (\<lambda>_. w_int16 0) params), w_int16 (int (length params)), bind_values enc fmtPos 0 params]))
     (rbind (wires wire 0 params) (\<lambda>ws. Inr (fmt_bytes ws @ be_bytes 2 (int (length params)) @ val_bytes ws)))"
  using baked_section_refines [of _ "[]", simplified, OF slots_refines [OF n, simplified]]
  by (simp add: bind_values_baked wbind_assoc)

lemma fmt_bytes_i16:
  "wires wire i vs = Inr ws \<Longrightarrow> rconcat (map i16 (map fst ws)) = Inr (fmt_bytes ws)"
proof (induction vs arbitrary: i ws)
  case (Cons v vs)
  then obtain f bs ws' where "wire v i = Inr (f, bs)" "wires wire (Suc i) vs = Inr ws'" "ws = (f, bs) # ws'"
    by (auto simp: rbind_Inr_iff)
  moreover from this have "i16 f = Inr (be_bytes 2 f)" using enc_format [of v i f bs] by (auto simp: i16_def i16_bytes_def)
  ultimately show ?case using Cons.IH by (simp add: fmt_bytes_def)
qed (simp add: fmt_bytes_def)

text \<open>The Bind that is written is the Bind of the encoder's formats and values.\<close>

lemma writeBindWith_refines:
  "refines (writeBindWith portal statement params enc rf)
     (if length params > 65535 then Inl (TooManyParams (length params))
      else rbind (wires wire 0 params) (\<lambda>ws.
        bind_msg portal statement (map fst ws) (map (\<lambda>p. Inr (snd p)) ws) rf))"
proof (cases "length params > 65535")
  case True
  then show ?thesis by (simp add: writeBindWith_def refines_wfail)
next
  case False
  let ?n = "int (length params)"
  let ?sec = "rbind (wires wire 0 params) (\<lambda>ws. Inr (fmt_bytes ws @ be_bytes 2 ?n @ val_bytes ws))"
  have n: "i16 ?n = Inr (be_bytes 2 ?n)" using False by (simp add: i16_def i16_bytes_def)
  have "refines (writeBindWith portal statement params enc rf)
    (rbind (rconcat [Inr (cstr portal), Inr (cstr statement), i16 ?n, ?sec, rconcat (rf_parts rf)]) (msg 66))"
    unfolding writeBindWith_def using False bind_section_refines [of params]
    by (simp only: if_False, intro refines_message)
       (simp_all add: writes msg_kept cstr_def i16_def list_all_iff bind_values_baked keeps_msg_baked_values
          keeps_msg_def [of w_mark] w_mark_def del: wdo.simps)
  moreover have "rbind (rconcat [Inr (cstr portal), Inr (cstr statement), i16 ?n, ?sec, rconcat (rf_parts rf)]) (msg 66)
     = rbind (wires wire 0 params) (\<lambda>ws. bind_msg portal statement (map fst ws) (map (\<lambda>p. Inr (snd p)) ws) rf)"
  proof (cases "wires wire 0 params")
    case (Inr ws)
    have "(rconcat (map (\<lambda>p. Inr (snd p)) ws) :: js_error + bytes) = Inr (val_bytes ws)"
      using rconcat_Inr [of "map snd ws", where 'a = js_error] by (simp add: comp_def val_bytes_def)
    with Inr False n length_wires [OF Inr] fmt_bytes_i16 [OF Inr] show ?thesis
      by (cases "rconcat (rf_parts rf)") (simp_all add: bind_msg_def rconcat_append)
  qed (simp add: n)
  ultimately show ?thesis using False by simp
qed

end

subsection \<open>Properties\<close>

text \<open>C32: the buffered message writers and the concatenating \<open>W\<close> functions produce the same bytes
  and throw the same errors, for Parse, Bind, Describe, Execute, Close and Sync, from every
  well-formed writer state; a throw leaves the bytes written before the message intact.\<close>

theorem writers_refine_W:
  "refines (writeParse name sql []) (W_parse name sql) \<and>
   refines (writeBind portal statement params (RF_all f)) (W_bind portal statement params f) \<and>
   refines (writeDescribe kind name) (W_describe kind name) \<and>
   refines (writeExecute portal n) (W_execute portal n) \<and>
   refines (writeClose kind name) (W_close kind name) \<and>
   refines writeSync W_sync"
proof (intro conjI)
  have z: "i16 0 = Inr (be_bytes 2 0)" by (simp add: i16_def i16_bytes_def)
  show "refines (writeParse name sql []) (W_parse name sql)"
    using writeParse_refines [of name sql "[]"]
    by (cases "guardNul sql ''query text''") (simp_all add: W_parse_def z)
  have "bind_msg portal statement (map ep_format params) (map (\<lambda>p. param_bytes (ep_bytes p)) params) (RF_all f)
      = W_bind portal statement params f"
    by (simp add: bind_msg_def W_bind_def rf_parts_def comp_def)
  then show "refines (writeBind portal statement params (RF_all f)) (W_bind portal statement params f)"
    using writeBind_refines [of portal statement params "RF_all f"] by simp
qed (simp_all add: message_refines)

text \<open>The allocation-free integer writers are exact: \<open>lpAsciiInt\<close> writes the length-prefixed
  text of \<open>String(v)\<close> and \<open>lpI64\<close>, working in 32-bit halves, writes the same bytes as the
  BigInt writer \<open>lpI64Big\<close>, for every safe integer, negative ones included.\<close>

theorem int_writers_exact:
  assumes "safe_int v"
  shows "refines (w_lpAsciiInt v) (rconcat [i32 (int (length (dec_int v))), Inr (utf8 (dec_int v))]) \<and>
    (\<exists>r. refines (w_lpI64 v) r \<and> refines (w_lpI64Big v) r \<and> r = Inr (be_bytes 4 8 @ be_bytes 8 v))"
proof
  show "refines (w_lpAsciiInt v) (rconcat [i32 (int (length (dec_int v))), Inr (utf8 (dec_int v))])"
    using refines_lpAsciiInt [OF assms] by (simp add: i32_def utf8_ascii)
  have "rconcat [i32_bytes 8, i64_bytes v] = Inr (be_bytes 4 8 @ be_bytes 8 v)"
    using assms by (simp add: i32_bytes_def i64_bytes_def safe_int_def abs_le_iff)
  then show "\<exists>r. refines (w_lpI64 v) r \<and> refines (w_lpI64Big v) r \<and> r = Inr (be_bytes 4 8 @ be_bytes 8 v)"
    using refines_lpI64 [OF assms] refines_lpI64Big [of v] by auto
qed

theorem int_writers_exact_witness:
  "safe_int (- 1) \<and> refines (w_lpAsciiInt (- 1)) (rconcat [i32 (int (length (dec_int (- 1)))), Inr (utf8 (dec_int (- 1)))])"
  using int_writers_exact [of "- 1"] by (simp add: safe_int_def)

end
