(* ===== verification/Wire_Parser.thy ===== *)
theory Wire_Parser
  imports Wire_Messages
begin

section \<open>Backend messages (src/protocol.ts: Parser and the body decoders)\<close>

text \<open>
  \<open>Parser.push\<close> cuts the socket's byte stream into messages; its state is the bytes of the
  incomplete last message. The lemmas show that the result does not depend on how the stream is
  split into chunks, that nothing is lost or invented (the messages and the remainder re-encode
  to the input), and that a length field below 4 is the only error.

  The body decoders of RowDescription, ParameterDescription and DataRow read with Node's
  bounds-checked accessors; a body that is too short throws. The name scan of
  \<open>parseRowDescription\<close> stops at a zero byte only: without one it does not return.
\<close>

record raw_message =
  rm_type :: byte
  rm_body :: bytes

subsection \<open>Parser\<close>

function push_loop :: "bytes \<Rightarrow> nat \<Rightarrow> js_error + raw_message list \<times> nat" where
  "push_loop buf off =
     (if length buf - off \<ge> 5 then
        (case read_int 4 buf (int off + 1) of
           Inl e \<Rightarrow> Inl e
         | Inr len \<Rightarrow>
             if len < 4 then Inl (InvalidMessageLength len)
             else let total = nat len + 1 in
               if length buf - off < total then Inr ([], off)
               else rbind (push_loop buf (off + total)) (\<lambda>(out, o').
                 Inr (\<lparr>rm_type = buf ! off, rm_body = subarray buf (int off + 5) (int off + int total)\<rparr> # out, o')))
      else Inr ([], off))"
  by pat_completeness auto
termination by (relation "measure (\<lambda>(buf, off). length buf - off)") auto

declare push_loop.simps [simp del]

text \<open>A throw leaves the concatenated buffer behind, a return the bytes after the last message.\<close>

definition push :: "bytes \<Rightarrow> bytes \<Rightarrow> (js_error + raw_message list) \<times> bytes" where
  "push st chunk =
     (let buf = (if length st \<noteq> 0 then st @ chunk else chunk) in
      case push_loop buf 0 of
        Inl e \<Rightarrow> (Inl e, buf)
      | Inr (out, off) \<Rightarrow> (Inr out, if off = length buf then [] else subarray buf (int off) (int (length buf))))"

text \<open>Feeding a sequence of chunks, as the socket's data events do; the first throw ends it.\<close>

fun push_all :: "bytes \<Rightarrow> bytes list \<Rightarrow> (js_error + raw_message list) \<times> bytes" where
  "push_all st [] = (Inr [], st)"
| "push_all st (c # cs) =
     (case push st c of
        (Inl e, st') \<Rightarrow> (Inl e, st')
      | (Inr ms, st') \<Rightarrow>
          (case push_all st' cs of
             (Inl e, st'') \<Rightarrow> (Inl e, st'')
           | (Inr ms', st'') \<Rightarrow> (Inr (ms @ ms'), st'')))"

subsection \<open>Body decoders\<close>

record field =
  f_name :: jsstr
  f_tableOid :: int
  f_columnId :: int
  f_dataTypeOid :: int
  f_dataTypeSize :: int
  f_typeModifier :: int
  f_format :: int

text \<open>\<open>while (body[end] !== 0) end += 1\<close>: past the end \<open>body[end]\<close> is undefined, which is
  not 0 either, so without a terminator the loop runs forever (None).\<close>

fun scan_nul :: "bytes \<Rightarrow> nat \<Rightarrow> nat option" where
  "scan_nul [] i = None"
| "scan_nul (b # bs) i = (if b = 0 then Some i else scan_nul bs (Suc i))"

definition name_end :: "bytes \<Rightarrow> nat \<Rightarrow> nat option" where
  "name_end body off = scan_nul (drop off body) off"

fun row_fields :: "bytes \<Rightarrow> nat \<Rightarrow> nat \<Rightarrow> js_error + field list" where
  "row_fields body off 0 = Inr []"
| "row_fields body off (Suc n) =
     (case name_end body off of
        None \<Rightarrow> Inl NoReturn
      | Some e \<Rightarrow>
          (let name = from_utf8 (subarray body (int off) (int e)); o1 = e + 1; p = int o1 in
           rbind (read_int 4 body p) (\<lambda>tableOid.
           rbind (read_int 2 body (p + 4)) (\<lambda>columnId.
           rbind (read_int 4 body (p + 6)) (\<lambda>dataTypeOid.
           rbind (read_int 2 body (p + 10)) (\<lambda>dataTypeSize.
           rbind (read_int 4 body (p + 12)) (\<lambda>typeModifier.
           rbind (read_int 2 body (p + 16)) (\<lambda>fmt.
           rbind (row_fields body (o1 + 18) n) (\<lambda>fs.
             Inr (\<lparr>f_name = name, f_tableOid = tableOid, f_columnId = columnId, f_dataTypeOid = dataTypeOid,
                   f_dataTypeSize = dataTypeSize, f_typeModifier = typeModifier, f_format = fmt\<rparr> # fs)))))))))) "

definition parseRowDescription :: "bytes \<Rightarrow> js_error + field list" where
  "parseRowDescription body = rbind (read_int 2 body 0) (\<lambda>n. row_fields body 2 (nat n))"

definition parseParameterDescription :: "bytes \<Rightarrow> js_error + int list" where
  "parseParameterDescription body = rbind (read_int 2 body 0) (\<lambda>n.
     if n < 0 then Inl (InvalidArrayLength n)
     else rmap (\<lambda>i. read_int 4 body (2 + int i * 4)) [0..<nat n])"

fun row_cells :: "bytes \<Rightarrow> int \<Rightarrow> nat \<Rightarrow> js_error + bytes option list" where
  "row_cells body off 0 = Inr []"
| "row_cells body off (Suc n) =
     rbind (read_int 4 body off) (\<lambda>len.
       if len = - 1 then rbind (row_cells body (off + 4) n) (\<lambda>cs. Inr (None # cs))
       else rbind (row_cells body (off + 4 + len) n) (\<lambda>cs.
              Inr (Some (subarray body (off + 4) (off + 4 + len)) # cs)))"

definition parseDataRow :: "bytes \<Rightarrow> js_error + bytes option list" where
  "parseDataRow body = rbind (read_int 2 body 0) (\<lambda>n.
     if n < 0 then Inl (InvalidArrayLength n) else row_cells body 2 (nat n))"

subsection \<open>The stream as a sequence of frames\<close>

text \<open>The loop started at \<open>off\<close> depends on the bytes from \<open>off\<close> on only.\<close>

definition frames :: "bytes \<Rightarrow> js_error + raw_message list \<times> bytes" where
  "frames bs = rbind (push_loop bs 0) (\<lambda>(out, off). Inr (out, drop off bs))"

definition frame_bytes :: "raw_message \<Rightarrow> bytes" where
  "frame_bytes m = rm_type m # be_bytes 4 (int (length (rm_body m)) + 4) @ rm_body m"

definition fits_frame :: "raw_message \<Rightarrow> bool" where
  "fits_frame m \<longleftrightarrow> length (rm_body m) + 4 \<le> 2147483647"

lemma read_int_shift:
  "0 \<le> k \<Longrightarrow> read_int w (pre @ bs) (int (length pre) + k) = read_int w bs k"
  by (simp add: read_int_def in_buf_def nat_add_distrib)

lemma subarray_shift:
  "subarray (pre @ bs) (int (length pre + i)) (int (length pre + j)) = subarray bs (int i) (int j)"
  by (simp add: subarray_def clamp_index_def) (simp add: min_def nat_add_distrib)

lemma push_loop_shift:
  "push_loop (pre @ bs) (length pre + off) =
     rbind (push_loop bs off) (\<lambda>(out, o'). Inr (out, length pre + o'))"
proof (induction bs off rule: push_loop.induct)
  case (1 buf off)
  have r: "read_int 4 (pre @ buf) (int (length pre + off) + 1) = read_int 4 buf (int off + 1)"
    using read_int_shift [of "int off + 1" 4 pre buf] by (simp add: algebra_simps)
  have s: "subarray (pre @ buf) (int (length pre + off) + 5) (int (length pre + off) + int t)
      = subarray buf (int off + 5) (int off + int t)" for t
    using subarray_shift [of pre buf "off + 5" "off + t"] by (simp add: algebra_simps)
  have l: "length (pre @ buf) - (length pre + off) = length buf - off" by simp
  have n: "(pre @ buf) ! (length pre + off) = buf ! off" by (simp add: nth_append)
  show ?case
    unfolding push_loop.simps [of "pre @ buf" "length pre + off"] push_loop.simps [of buf off] r s l n
    using 1 by (auto simp: Let_def rbind_def add.assoc split: sum.splits)
qed


text \<open>One round of the loop, without offsets.\<close>

definition frame_len :: "bytes \<Rightarrow> int" where
  "frame_len bs = to_signed 4 (be_val (take 4 (drop 1 bs)))"

definition head_message :: "bytes \<Rightarrow> raw_message" where
  "head_message bs = \<lparr>rm_type = hd bs, rm_body = take (nat (frame_len bs) - 4) (drop 5 bs)\<rparr>"

definition with_first :: "raw_message list \<Rightarrow> js_error + raw_message list \<times> bytes \<Rightarrow> js_error + raw_message list \<times> bytes" where
  "with_first ms r = rbind r (\<lambda>(out, rest). Inr (ms @ out, rest))"

lemma with_first_Nil [simp]: "with_first [] r = r"
  by (cases r) (auto simp: with_first_def)

lemma with_first_append: "with_first (ms @ ns) r = with_first ms (with_first ns r)"
  by (cases r) (auto simp: with_first_def)

lemma frames_rec:
  "frames bs =
     (if length bs < 5 then Inr ([], bs)
      else if frame_len bs < 4 then Inl (InvalidMessageLength (frame_len bs))
      else if length bs < nat (frame_len bs) + 1 then Inr ([], bs)
      else with_first [head_message bs] (frames (drop (nat (frame_len bs) + 1) bs)))"
proof -
  let ?t = "nat (frame_len bs) + 1"
  have r: "read_int 4 bs (int 0 + 1) = Inr (frame_len bs)" if "5 \<le> length bs"
    using that by (simp add: read_int_def in_buf_def frame_len_def)
  have shift: "push_loop bs (0 + ?t) = rbind (push_loop (drop ?t bs) 0) (\<lambda>(out, o'). Inr (out, ?t + o'))"
    if "?t \<le> length bs"
    using push_loop_shift [of "take ?t bs" "drop ?t bs" 0] that by simp
  have hd: "bs ! 0 = hd bs" if "5 \<le> length bs" using that by (cases bs) auto
  have body: "subarray bs (int 0 + 5) (int 0 + int ?t) = take (nat (frame_len bs) - 4) (drop 5 bs)"
    if "?t \<le> length bs" "4 \<le> frame_len bs"
    using subarray_nat [of 5 ?t bs] that by simp
  show ?thesis
    unfolding frames_def push_loop.simps [of bs 0] using r shift body hd
    by (auto simp: Let_def with_first_def head_message_def rbind_def drop_drop add.commute
        split: sum.splits if_splits)
qed

lemma frames_append:
  "frames (xs @ ys) = (case frames xs of Inl e \<Rightarrow> Inl e | Inr (ms, r) \<Rightarrow> with_first ms (frames (r @ ys)))"
proof (induction "length xs" arbitrary: xs rule: less_induct)
  case less
  let ?t = "nat (frame_len xs) + 1"
  consider (short) "length xs < 5" | (bad) "5 \<le> length xs" "frame_len xs < 4"
    | (part) "5 \<le> length xs" "4 \<le> frame_len xs" "length xs < ?t"
    | (full) "5 \<le> length xs" "4 \<le> frame_len xs" "?t \<le> length xs" by linarith
  then show ?case
  proof cases
    case full
    have fl: "frame_len (xs @ ys) = frame_len xs" using full by (simp add: frame_len_def)
    have hm: "head_message (xs @ ys) = head_message xs"
      using full hd_append2 [of xs ys] by (cases "xs = []") (auto simp: head_message_def fl)
    have d: "drop ?t (xs @ ys) = drop ?t xs @ ys" using full by simp
    have "frames (xs @ ys) = with_first [head_message xs] (frames (drop ?t xs @ ys))"
      using full by (subst frames_rec) (simp add: fl hm d)
    moreover have "frames xs = with_first [head_message xs] (frames (drop ?t xs))"
      using full by (subst frames_rec) simp
    moreover have "length (drop ?t xs) < length xs" using full by simp
    note less [OF this]
    ultimately show ?thesis by (cases "frames (drop ?t xs)") (auto simp: with_first_def rbind_def split: sum.splits)
  next
    case bad
    then have "frame_len (xs @ ys) = frame_len xs" by (simp add: frame_len_def)
    with bad show ?thesis by (simp add: frames_rec [of "xs @ ys"] frames_rec [of xs])
  qed (simp_all add: frames_rec [of xs])
qed

lemma frames_rest: "frames bs = Inr (ms, r) \<Longrightarrow> frames r = Inr ([], r)"
proof (induction "length bs" arbitrary: bs ms rule: less_induct)
  case less
  show ?case
  proof (cases "5 \<le> length bs \<and> 4 \<le> frame_len bs \<and> nat (frame_len bs) + 1 \<le> length bs")
    case True
    with less.prems obtain ms' where "frames (drop (nat (frame_len bs) + 1) bs) = Inr (ms', r)"
      by (subst (asm) frames_rec) (auto simp: with_first_def rbind_Inr_iff)
    moreover have "length (drop (nat (frame_len bs) + 1) bs) < length bs" using True by auto
    ultimately show ?thesis using less.hyps by blast
  next
    case False
    with less.prems have "ms = [] \<and> r = bs" by (subst (asm) frames_rec) (auto split: if_splits)
    with less.prems show ?thesis by simp
  qed
qed

lemma head_message_bytes:
  assumes "5 \<le> length bs" "4 \<le> frame_len bs" "nat (frame_len bs) + 1 \<le> length bs"
  shows "frame_bytes (head_message bs) @ drop (nat (frame_len bs) + 1) bs = bs" "fits_frame (head_message bs)"
proof -
  let ?h = "take 4 (drop 1 bs)"
  have hl: "length ?h = 4" using assms by simp
  then have hv: "be_val ?h < 4294967296" "0 \<le> be_val ?h" using be_val_bound [of ?h] be_val_nonneg by simp_all
  then have fl: "frame_len bs = be_val ?h" "frame_len bs \<le> 2147483647"
    using assms(2) by (auto simp: frame_len_def to_signed_def split: if_splits)
  have blen: "int (length (rm_body (head_message bs))) + 4 = frame_len bs"
    using assms by (simp add: head_message_def)
  have "be_bytes 4 (frame_len bs) = ?h" using hl by (simp add: fl(1) be_bytes_be_val)
  moreover have "take (nat (frame_len bs) - 4) (drop 5 bs) @ drop (nat (frame_len bs) + 1) bs = drop 5 bs"
    using assms append_take_drop_id [of "nat (frame_len bs) - 4" "drop 5 bs"] by simp
  moreover have "hd bs # ?h @ drop 5 bs = bs"
    using assms append_take_drop_id [of 4 "drop 1 bs"] by (cases bs) auto
  ultimately show "frame_bytes (head_message bs) @ drop (nat (frame_len bs) + 1) bs = bs"
    unfolding frame_bytes_def blen by (simp add: head_message_def)
  show "fits_frame (head_message bs)" using blen fl(2) by (simp add: fits_frame_def)
qed

lemma frames_sound:
  "frames bs = Inr (ms, r) \<Longrightarrow> concat (map frame_bytes ms) @ r = bs \<and> list_all fits_frame ms"
proof (induction "length bs" arbitrary: bs ms rule: less_induct)
  case less
  show ?case
  proof (cases "5 \<le> length bs \<and> 4 \<le> frame_len bs \<and> nat (frame_len bs) + 1 \<le> length bs")
    case True
    with less.prems obtain ms' where "frames (drop (nat (frame_len bs) + 1) bs) = Inr (ms', r)"
      "ms = head_message bs # ms'"
      by (subst (asm) frames_rec) (auto simp: with_first_def rbind_Inr_iff)
    moreover have "length (drop (nat (frame_len bs) + 1) bs) < length bs" using True by auto
    ultimately show ?thesis
      using less.hyps [of "drop (nat (frame_len bs) + 1) bs" ms'] True head_message_bytes [of bs] by simp
  next
    case False
    with less.prems show ?thesis by (subst (asm) frames_rec) (auto split: if_splits)
  qed
qed

lemma frames_frame:
  assumes "fits_frame m"
  shows "frames (frame_bytes m @ r) = with_first [m] (frames r)"
proof -
  let ?n = "int (length (rm_body m)) + 4"
  have fl: "frame_len (frame_bytes m @ r) = ?n"
    using assms by (simp add: frame_len_def frame_bytes_def be_val_be_bytes to_signed_def fits_frame_def)
  have "head_message (frame_bytes m @ r) = m"
    unfolding head_message_def fl by (simp add: frame_bytes_def)
  moreover have l: "nat ?n + 1 = length (frame_bytes m)" by (simp add: frame_bytes_def nat_add_distrib)
  moreover have "5 \<le> length (frame_bytes m)" by (simp add: frame_bytes_def)
  ultimately show ?thesis
    by (subst frames_rec) (simp only: fl l length_append append_eq_conv_conj, simp)
qed

lemma frames_frames:
  "list_all fits_frame ms \<Longrightarrow> frames (concat (map frame_bytes ms) @ r) = with_first ms (frames r)"
proof (induction ms)
  case (Cons m ms)
  then show ?case using with_first_append [of "[m]" ms] by (simp add: frames_frame)
qed simp


subsection \<open>Parser.push on chunks\<close>

lemma push_loop_bound: "push_loop buf off = Inr (out, o') \<Longrightarrow> off \<le> length buf \<Longrightarrow> o' \<le> length buf"
proof (induction buf off arbitrary: out o' rule: push_loop.induct)
  case (1 buf off)
  from 1(2) show ?case
    by (subst (asm) push_loop.simps)
       (use 1(3) in \<open>auto simp: Let_def rbind_Inr_iff split: sum.splits if_splits dest!: 1(1)\<close>)
qed

lemma push_frames:
  "push st c = (case frames (st @ c) of Inl e \<Rightarrow> (Inl e, st @ c) | Inr (ms, r) \<Rightarrow> (Inr ms, r))"
proof -
  have "subarray (st @ c) (int off) (int (length (st @ c))) = drop off (st @ c)"
    if "push_loop (st @ c) 0 = Inr (out, off)" for out off
    using push_loop_bound [OF that] subarray_nat [of off "length (st @ c)" "st @ c"] by simp
  then show ?thesis
    by (auto simp: push_def frames_def Let_def rbind_def split: sum.splits prod.splits)
qed

lemma push_all_frames:
  assumes "frames st = Inr ([], st)"
  shows "case frames (st @ concat cs) of
           Inl e \<Rightarrow> fst (push_all st cs) = Inl e
         | Inr (ms, r) \<Rightarrow> push_all st cs = (Inr ms, r)"
  using assms
proof (induction cs arbitrary: st)
  case (Cons c cs)
  show ?case
  proof (cases "frames (st @ c)")
    case (Inl e)
    then show ?thesis using frames_append [of "st @ c" "concat cs"] by (simp add: push_frames)
  next
    case (Inr p)
    obtain ms r where p: "frames (st @ c) = Inr (ms, r)" using Inr by (cases p) auto
    have "frames (st @ concat (c # cs)) = with_first ms (frames (r @ concat cs))"
      using frames_append [of "st @ c" "concat cs"] p by simp
    with Cons.IH [OF frames_rest [OF p]] p show ?thesis
      by (auto simp: push_frames with_first_def rbind_def split: sum.splits prod.splits)
  qed
qed simp

lemma frames_Nil [simp]: "frames [] = Inr ([], [])"
  by (subst frames_rec) simp


subsection \<open>The body decoders invert the protocol's encodings\<close>

definition in_int :: "nat \<Rightarrow> int \<Rightarrow> bool" where
  "in_int k n \<longleftrightarrow> - (256 ^ k) \<le> 2 * n \<and> 2 * n < 256 ^ k"

definition field_bytes :: "field \<Rightarrow> bytes" where
  "field_bytes f = cstr (f_name f) @ be_bytes 4 (f_tableOid f) @ be_bytes 2 (f_columnId f) @
     be_bytes 4 (f_dataTypeOid f) @ be_bytes 2 (f_dataTypeSize f) @ be_bytes 4 (f_typeModifier f) @
     be_bytes 2 (f_format f)"

definition field_ok :: "field \<Rightarrow> bool" where
  "field_ok f \<longleftrightarrow> well_formed (f_name f) \<and> 0 \<notin> set (f_name f) \<and> in_int 4 (f_tableOid f) \<and>
     in_int 2 (f_columnId f) \<and> in_int 4 (f_dataTypeOid f) \<and> in_int 2 (f_dataTypeSize f) \<and>
     in_int 4 (f_typeModifier f) \<and> in_int 2 (f_format f)"

definition row_description :: "field list \<Rightarrow> bytes" where
  "row_description fs = be_bytes 2 (int (length fs)) @ concat (map field_bytes fs)"

definition cell_bytes :: "bytes option \<Rightarrow> bytes" where
  "cell_bytes c = (case c of None \<Rightarrow> be_bytes 4 (- 1) | Some b \<Rightarrow> be_bytes 4 (int (length b)) @ b)"

definition cell_ok :: "bytes option \<Rightarrow> bool" where
  "cell_ok c \<longleftrightarrow> (case c of None \<Rightarrow> True | Some b \<Rightarrow> length b \<le> 2147483647)"

definition data_row :: "bytes option list \<Rightarrow> bytes" where
  "data_row cs = be_bytes 2 (int (length cs)) @ concat (map cell_bytes cs)"

lemma read_int_here:
  "in_int k n \<Longrightarrow> body = A @ be_bytes k n @ B \<Longrightarrow> i = int (length A) \<Longrightarrow> read_int k body i = Inr n"
  by (simp add: in_int_def read_int_at)

lemma scan_nul_append: "0 \<notin> set bs \<Longrightarrow> scan_nul (bs @ 0 # rest) i = Some (i + length bs)"
  by (induction bs arbitrary: i) auto

lemma scan_nul_None: "scan_nul bs i = None \<longleftrightarrow> 0 \<notin> set bs"
  by (induction bs arbitrary: i) auto

lemma row_fields_step:
  assumes f: "field_ok f" and b: "body = pre @ field_bytes f @ post"
  shows "row_fields body (length pre) (Suc n) =
    rbind (row_fields body (length (pre @ field_bytes f)) n) (\<lambda>fs. Inr (f # fs))"
proof -
  let ?u = "utf8 (f_name f)"
  let ?P = "int (length pre + length ?u + 1)"
  have nz: "0 \<notin> set ?u" using f by (simp add: field_ok_def utf8_nonzero)
  have e: "name_end body (length pre) = Some (length pre + length ?u)"
    unfolding name_end_def b field_bytes_def cstr_def by (simp add: scan_nul_append [OF nz])
  have name: "from_utf8 (subarray body (int (length pre)) (int (length pre + length ?u))) = f_name f"
    unfolding b field_bytes_def cstr_def using f
    by (simp add: from_utf8_utf8 field_ok_def)
  have r1: "read_int 4 body ?P = Inr (f_tableOid f)"
    by (rule read_int_here [of _ _ _ "pre @ cstr (f_name f)"]) (use f in \<open>simp_all add: b field_bytes_def cstr_def field_ok_def\<close>)
  have r2: "read_int 2 body (?P + 4) = Inr (f_columnId f)"
    by (rule read_int_here [of _ _ _ "pre @ cstr (f_name f) @ be_bytes 4 (f_tableOid f)"])
       (use f in \<open>simp_all add: b field_bytes_def cstr_def field_ok_def\<close>)
  have r3: "read_int 4 body (?P + 6) = Inr (f_dataTypeOid f)"
    by (rule read_int_here [of _ _ _ "pre @ cstr (f_name f) @ be_bytes 4 (f_tableOid f) @ be_bytes 2 (f_columnId f)"])
       (use f in \<open>simp_all add: b field_bytes_def cstr_def field_ok_def\<close>)
  have r4: "read_int 2 body (?P + 10) = Inr (f_dataTypeSize f)"
    by (rule read_int_here [of _ _ _ "pre @ cstr (f_name f) @ be_bytes 4 (f_tableOid f) @ be_bytes 2 (f_columnId f)
          @ be_bytes 4 (f_dataTypeOid f)"])
       (use f in \<open>simp_all add: b field_bytes_def cstr_def field_ok_def\<close>)
  have r5: "read_int 4 body (?P + 12) = Inr (f_typeModifier f)"
    by (rule read_int_here [of _ _ _ "pre @ cstr (f_name f) @ be_bytes 4 (f_tableOid f) @ be_bytes 2 (f_columnId f)
          @ be_bytes 4 (f_dataTypeOid f) @ be_bytes 2 (f_dataTypeSize f)"])
       (use f in \<open>simp_all add: b field_bytes_def cstr_def field_ok_def\<close>)
  have r6: "read_int 2 body (?P + 16) = Inr (f_format f)"
    by (rule read_int_here [of _ _ _ "pre @ cstr (f_name f) @ be_bytes 4 (f_tableOid f) @ be_bytes 2 (f_columnId f)
          @ be_bytes 4 (f_dataTypeOid f) @ be_bytes 2 (f_dataTypeSize f) @ be_bytes 4 (f_typeModifier f)"])
       (use f in \<open>simp_all add: b field_bytes_def cstr_def field_ok_def\<close>)
  have off: "length pre + length ?u + 1 + 18 = length (pre @ field_bytes f)"
    by (simp add: field_bytes_def cstr_def)
  show ?thesis
    unfolding row_fields.simps e option.case Let_def name r1 r2 r3 r4 r5 r6 rbind_simps off
    by (cases f) simp
qed

lemma row_fields_ok:
  "list_all field_ok fs \<Longrightarrow> row_fields (pre @ concat (map field_bytes fs) @ post) (length pre) (length fs) = Inr fs"
proof (induction fs arbitrary: pre)
  case (Cons f fs)
  have "row_fields (pre @ concat (map field_bytes (f # fs)) @ post) (length pre) (Suc (length fs)) =
    rbind (row_fields (pre @ concat (map field_bytes (f # fs)) @ post) (length (pre @ field_bytes f)) (length fs))
      (\<lambda>fs. Inr (f # fs))"
    using Cons.prems by (intro row_fields_step) simp_all
  with Cons.IH [of "pre @ field_bytes f"] Cons.prems show ?case by simp
qed simp

lemma cell_bytes_simps:
  "cell_bytes None = be_bytes 4 (- 1)" "cell_bytes (Some b) = be_bytes 4 (int (length b)) @ b"
  by (simp_all add: cell_bytes_def)

lemma row_cells_ok:
  "list_all cell_ok cs \<Longrightarrow>
   row_cells (pre @ concat (map cell_bytes cs) @ post) (int (length pre)) (length cs) = Inr cs"
proof (induction cs arbitrary: pre)
  case (Cons c cs)
  let ?body = "pre @ concat (map cell_bytes (c # cs)) @ post"
  have ih: "row_cells ?body (int (length (pre @ cell_bytes c))) (length cs) = Inr cs"
    using Cons.IH [of "pre @ cell_bytes c"] Cons.prems by simp
  show ?case
  proof (cases c)
    case None
    have "read_int 4 ?body (int (length pre)) = Inr (- 1)"
      by (rule read_int_here [of _ _ _ pre]) (simp_all add: None cell_bytes_simps in_int_def)
    with ih None show ?thesis by (simp add: cell_bytes_simps add.commute)
  next
    case (Some b)
    have "read_int 4 ?body (int (length pre)) = Inr (int (length b))"
      by (rule read_int_here [of _ _ _ pre])
         (use Cons.prems in \<open>simp_all add: Some cell_bytes_simps cell_ok_def in_int_def\<close>)
    moreover have "subarray ?body (int (length pre) + 4) (int (length pre) + 4 + int (length b)) = b"
      using subarray_at [of "pre @ be_bytes 4 (int (length b))" b "concat (map cell_bytes cs) @ post"]
      by (simp add: Some cell_bytes_simps)
    ultimately show ?thesis using ih Some by (simp add: cell_bytes_simps add.assoc)
  qed
qed simp


text \<open>C30: splitting the byte stream into chunks in any way yields the same messages, in order, the
  same unconsumed remainder, and the same error if the stream is malformed.\<close>

theorem push_chunking:
  "fst (push_all [] chunks) = fst (push [] (concat chunks)) \<and>
   (\<forall>ms. fst (push [] (concat chunks)) = Inr ms \<longrightarrow> push_all [] chunks = push [] (concat chunks))"
  using push_all_frames [of "[]" chunks]
  by (auto simp: push_frames split: sum.splits prod.splits)

theorem push_chunking_witness:
  "push_all [] [[90, 0, 0], [0, 5, 73, 90]] = (Inr [\<lparr>rm_type = 90, rm_body = [73]\<rparr>], [90])"
proof -
  have b: "be_bytes 4 5 = ([0, 0, 0, 5] :: bytes)" by (simp add: eval_nat_numeral)
  have f: "frames [90] = Inr ([], [90])" by (subst frames_rec) simp
  have "frames ([90, 0, 0, 0, 5, 73] @ [90]) = Inr ([\<lparr>rm_type = 90, rm_body = [73]\<rparr>], [90])"
    using frames_frame [of "\<lparr>rm_type = 90, rm_body = [73]\<rparr>" "[90]"] b f
    by (simp add: frame_bytes_def fits_frame_def with_first_def)
  then have "push [] (concat [[90, 0, 0], [0, 5, 73, 90]]) = (Inr [\<lparr>rm_type = 90, rm_body = [73]\<rparr>], [90])"
    by (simp add: push_frames)
  with push_chunking [of "[[90, 0, 0], [0, 5, 73, 90]]"] show ?thesis by simp
qed

text \<open>C31: what a push returns together with what it keeps re-encodes to exactly the bytes it was
  given, what it keeps holds no complete message, and a stream of well-formed messages is
  delivered completely.\<close>

theorem push_lossless:
  "(\<forall>ms r. push st c = (Inr ms, r) \<longrightarrow>
      concat (map frame_bytes ms) @ r = st @ c \<and> push r [] = (Inr [], r)) \<and>
   (\<forall>ms. list_all fits_frame ms \<and> st @ c = concat (map frame_bytes ms) \<longrightarrow> push st c = (Inr ms, []))"
proof (intro conjI allI impI)
  fix ms r assume "push st c = (Inr ms, r)"
  then have f: "frames (st @ c) = Inr (ms, r)" by (auto simp: push_frames split: sum.splits prod.splits)
  from frames_sound [OF f] show "concat (map frame_bytes ms) @ r = st @ c" by simp
  from frames_rest [OF f] show "push r [] = (Inr [], r)" by (simp add: push_frames)
next
  fix ms assume ms: "list_all fits_frame ms \<and> st @ c = concat (map frame_bytes ms)"
  from ms frames_frames [of ms "[]"] show "push st c = (Inr ms, [])"
    by (simp add: push_frames with_first_def)
qed

theorem push_lossless_witness:
  "push [] [90, 0, 0, 0, 5, 73] = (Inr [\<lparr>rm_type = 90, rm_body = [73]\<rparr>], [])"
proof -
  have b: "be_bytes 4 5 = ([0, 0, 0, 5] :: bytes)" by (simp add: eval_nat_numeral)
  have "list_all fits_frame [\<lparr>rm_type = 90, rm_body = [73]\<rparr>] \<and>
      [] @ [90, 0, 0, 0, 5, 73] = concat (map frame_bytes [\<lparr>rm_type = 90, rm_body = [73]\<rparr>])"
    using b by (simp add: frame_bytes_def fits_frame_def)
  with push_lossless [of "[]" "[90, 0, 0, 0, 5, 73]"] show ?thesis by blast
qed

text \<open>The row decoders invert the protocol's encodings: a RowDescription of fields whose numbers
  fit their wire widths and whose names are well-formed and NUL-free, and a DataRow of cells.\<close>

theorem row_decoders_invert:
  "(length fs \<le> 32767 \<and> list_all field_ok fs \<longrightarrow> parseRowDescription (row_description fs) = Inr fs) \<and>
   (length cs \<le> 32767 \<and> list_all cell_ok cs \<longrightarrow> parseDataRow (data_row cs) = Inr cs)"
proof (intro conjI impI)
  assume a: "length fs \<le> 32767 \<and> list_all field_ok fs"
  have "read_int 2 (row_description fs) 0 = Inr (int (length fs))"
    by (rule read_int_here [of _ _ _ "[]"]) (use a in \<open>simp_all add: row_description_def in_int_def\<close>)
  with a row_fields_ok [of fs "be_bytes 2 (int (length fs))" "[]"]
  show "parseRowDescription (row_description fs) = Inr fs"
    by (simp add: parseRowDescription_def row_description_def)
next
  assume a: "length cs \<le> 32767 \<and> list_all cell_ok cs"
  have "read_int 2 (data_row cs) 0 = Inr (int (length cs))"
    by (rule read_int_here [of _ _ _ "[]"]) (use a in \<open>simp_all add: data_row_def in_int_def\<close>)
  with a row_cells_ok [of cs "be_bytes 2 (int (length cs))" "[]"]
  show "parseDataRow (data_row cs) = Inr cs"
    by (simp add: parseDataRow_def data_row_def)
qed

theorem row_decoders_invert_witness:
  "parseDataRow (data_row [None, Some [1, 2]]) = Inr [None, Some [1, 2]]"
  using row_decoders_invert [of "[]" "[None, Some [1, 2]]"] by (simp add: cell_ok_def)

end
