(* ===== verification/Conn_State.thy ===== *)
theory Conn_State
  imports Wire_Parser
begin

section \<open>The state of a connection (src/connection.ts, src/errors.ts)\<close>

text \<open>
  A \<open>Connection\<close> keeps a queue of tasks that wait, a FIFO of tasks whose messages are in
  the outbound batch or on the wire (the backend answers in that order, so the head owns every
  message up to its ReadyForQuery), the outbound batch itself, the prepared-statement caches and
  the state of a pending CancelRequest. Tasks are shared mutable objects in the source; here they
  live in a store \<open>c_tasks\<close> and lists hold their numbers.

  What the connection calls outside this file is a parameter, collected in the record
  \<open>conn_env\<close>: the parameter encoders of encode.ts, the row mappers and cell decoders of
  decode.ts and mapper.ts, the authentication of auth.ts, and the answer of the socket's
  \<open>write\<close> (the n-th batch write reports whether the socket can take more).

  Every call that settles a caller (\<open>resolve\<close>, \<open>reject\<close>, \<open>streamEnd\<close>,
  \<open>streamError\<close>) is appended to \<open>c_log\<close>. Timers are the flags that they are armed;
  performance counters, plugins and the run boundaries of \<open>mode:'wire'\<close> results are left out.
\<close>

subsection \<open>Errors of the server\<close>

text \<open>The error values a caller can receive. \<open>PgErr\<close> carries the fields of an ErrorResponse and
  whether it was marked as the effect of a late cancel.\<close>

datatype cerr =
    PgErr "(jsstr \<times> jsstr) list" bool
  | JsErr js_error
  | AppErr string
  | FatalErr string
  | UserErr nat

definition FIELD :: "nat \<Rightarrow> jsstr" where
  "FIELD c =
     (if c = 83 then asc ''severityLocal'' else if c = 86 then asc ''severity''
      else if c = 67 then asc ''code'' else if c = 77 then asc ''message''
      else if c = 68 then asc ''detail'' else if c = 72 then asc ''hint''
      else if c = 80 then asc ''position'' else if c = 112 then asc ''internalPosition''
      else if c = 113 then asc ''internalQuery'' else if c = 87 then asc ''where''
      else if c = 115 then asc ''schema'' else if c = 116 then asc ''table''
      else if c = 99 then asc ''column'' else if c = 100 then asc ''dataType''
      else if c = 110 then asc ''constraint'' else if c = 70 then asc ''file''
      else if c = 76 then asc ''line'' else if c = 82 then asc ''routine''
      else [u16 c])"

text \<open>Writing a property: an existing key keeps its place, as in a JavaScript object.\<close>

fun set_prop :: "'k \<Rightarrow> 'v \<Rightarrow> ('k \<times> 'v) list \<Rightarrow> ('k \<times> 'v) list" where
  "set_prop k v [] = [(k, v)]"
| "set_prop k v ((k', v') # kvs) = (if k = k' then (k, v) # kvs else (k', v') # set_prop k v kvs)"

text \<open>The bytes up to the next NUL (or the end) and the rest after it.\<close>

definition cstr_head :: "bytes \<Rightarrow> bytes" where
  "cstr_head b = takeWhile (\<lambda>x. x \<noteq> 0) b"

definition cstr_rest :: "bytes \<Rightarrow> bytes" where
  "cstr_rest b = drop 1 (dropWhile (\<lambda>x. x \<noteq> 0) b)"

lemma length_cstr_rest: "length (cstr_rest b) \<le> length b"
  by (simp add: cstr_rest_def) (metis diff_le_self le_trans length_dropWhile_le)

function error_fields :: "bytes \<Rightarrow> (jsstr \<times> jsstr) list \<Rightarrow> (jsstr \<times> jsstr) list" where
  "error_fields [] out = out"
| "error_fields (c # bs) out =
     (if c = 0 then out
      else error_fields (cstr_rest bs) (set_prop (FIELD (unat c)) (from_utf8 (cstr_head bs)) out))"
  by pat_completeness auto
termination by (relation "measure (\<lambda>(b, out). length b)") (auto simp: length_cstr_rest le_imp_less_Suc)

definition parseErrorFields :: "bytes \<Rightarrow> (jsstr \<times> jsstr) list" where
  "parseErrorFields body = error_fields body []"

function readCstrings :: "bytes \<Rightarrow> jsstr list" where
  "readCstrings [] = []"
| "readCstrings (c # bs) =
     (if c = 0 then [] else from_utf8 (cstr_head (c # bs)) # readCstrings (cstr_rest (c # bs)))"
  by pat_completeness auto
termination
proof (relation "measure length")
  fix c :: byte and bs :: bytes
  assume "c \<noteq> 0"
  then have "cstr_rest (c # bs) = cstr_rest bs" by (simp add: cstr_rest_def)
  then show "(cstr_rest (c # bs), c # bs) \<in> measure length"
    using length_cstr_rest [of bs] by simp
qed simp

definition firstCstr :: "bytes \<Rightarrow> jsstr" where
  "firstCstr b = from_utf8 (cstr_head b)"

definition err_code :: "cerr \<Rightarrow> jsstr option" where
  "err_code e = (case e of PgErr fs _ \<Rightarrow> map_of fs (asc ''code'') | _ \<Rightarrow> None)"

definition has_code :: "cerr option \<Rightarrow> string \<Rightarrow> bool" where
  "has_code e code \<longleftrightarrow> (case e of Some x \<Rightarrow> err_code x = Some (asc code) | None \<Rightarrow> False)"

definition isFatalAuth :: "cerr \<Rightarrow> bool" where
  "isFatalAuth e \<longleftrightarrow> has_code (Some e) ''28P01'' \<or> has_code (Some e) ''28000'' \<or> has_code (Some e) ''3D000'' \<or>
     (case e of FatalErr _ \<Rightarrow> True | _ \<Rightarrow> False)"

subsection \<open>Rows and columns\<close>

datatype result_mode = MArray | MObject | MBuffer | MRaw | MWire

datatype 'j row = RowRaw bytes | RowBuffer "bytes option list" | RowObject "(jsstr \<times> 'j option) list"
  | RowArray "'j option list"

text \<open>\<open>CodegenCol\<close>; what only the mapper looks at (path, grouping, transforms, the shape of a JSON
  marker) is kept in one opaque field.\<close>

record codegen_col =
  cc_name :: jsstr
  cc_oid :: int
  cc_js :: "string option"
  cc_json :: bool
  cc_binary :: bool                      \<comment> \<open>format === 'binary'\<close>
  cc_array :: "(int \<times> string option) option"
  cc_extra :: nat

definition plain_col :: "jsstr \<Rightarrow> int \<Rightarrow> bool \<Rightarrow> codegen_col" where
  "plain_col n oid bin = \<lparr>cc_name = n, cc_oid = oid, cc_js = None, cc_json = False, cc_binary = bin,
     cc_array = None, cc_extra = 0\<rparr>"

definition INSTANT_OIDS :: "int list" where
  "INSTANT_OIDS = [1082, 1114, 1184]"

definition tagArrayCol :: "(int \<Rightarrow> int option) \<Rightarrow> codegen_col \<Rightarrow> codegen_col" where
  "tagArrayCol elem_oid c =
     (if cc_array c \<noteq> None \<or> cc_json c then c
      else case elem_oid (cc_oid c) of None \<Rightarrow> c | Some e \<Rightarrow> c\<lparr>cc_array := Some (e, None)\<rparr>)"

fun mergeUnknownCols :: "codegen_col list \<Rightarrow> field list \<Rightarrow> codegen_col list" where
  "mergeUnknownCols [] fs = []"
| "mergeUnknownCols (c # cs) fs =
     (if cc_oid c \<noteq> 0 then c else c\<lparr>cc_oid := (case fs of [] \<Rightarrow> 0 | f # _ \<Rightarrow> f_dataTypeOid f)\<rparr>)
       # mergeUnknownCols cs (drop 1 fs)"

subsection \<open>Tasks\<close>

record ('v, 'j) task =
  t_sql :: jsstr
  t_params :: "'v list"
  t_paramsIsArray :: bool
  t_raw :: "(int list \<times> bytes option list) option"
  t_name :: "jsstr option"
  t_mode :: result_mode
  t_rows :: "'j row list"
  t_reused :: bool
  t_retries :: nat
  t_reprepared :: bool
  t_paramOids :: "int list option"
  t_shapeCols :: "codegen_col list option"
  t_paramTypes :: "int list option"
  t_copySource :: bool
  t_copyOut :: bool
  t_stream :: bool
  t_fields :: "field list option"
  t_mapper :: "(bytes \<Rightarrow> js_error + 'j row) option"
  t_wire :: "bytes option"
  t_command :: "jsstr option"
  t_rowCount :: "int option"
  t_error :: "cerr option"
  t_cancelled :: bool
  t_cacheName :: "jsstr option"
  t_resultFormat :: "rfmt option"
  t_typed :: bool
  t_binary :: bool
  t_hasTimeout :: bool
  t_timer :: bool
  t_graceTimer :: bool
  t_settled :: bool
  t_pumping :: bool
  t_copied :: "bytes list"

definition blank_task :: "('v, 'j) task" where
  "blank_task = \<lparr>t_sql = [], t_params = [], t_paramsIsArray = True, t_raw = None, t_name = None, t_mode = MArray,
     t_rows = [], t_reused = False, t_retries = 0, t_reprepared = False, t_paramOids = None, t_shapeCols = None,
     t_paramTypes = None, t_copySource = False, t_copyOut = False, t_stream = False, t_fields = None,
     t_mapper = None, t_wire = None, t_command = None, t_rowCount = None, t_error = None, t_cancelled = False,
     t_cacheName = None, t_resultFormat = None, t_typed = False, t_binary = False, t_hasTimeout = False,
     t_timer = False, t_graceTimer = False, t_settled = False,
     t_pumping = False, t_copied = []\<rparr>"

definition truthy_name :: "('v, 'j) task \<Rightarrow> jsstr option" where
  "truthy_name t = (case t_name t of Some n \<Rightarrow> if n = [] then None else Some n | None \<Rightarrow> None)"

definition solo :: "('v, 'j) task \<Rightarrow> bool" where
  "solo t \<longleftrightarrow> t_stream t \<or> t_copySource t"

text \<open>\<open>parseKey\<close>: the identity of a Parse on the wire.\<close>

fun join_ints :: "int list \<Rightarrow> jsstr" where
  "join_ints [] = []"
| "join_ints [i] = dec_int i"
| "join_ints (i # is) = dec_int i @ u16 44 # join_ints is"

definition parseKey :: "('v, 'j) task \<Rightarrow> jsstr" where
  "parseKey t = (case t_paramTypes t of
       Some ts \<Rightarrow> if ts \<noteq> [] then t_sql t @ u16 0 # join_ints ts else t_sql t
     | None \<Rightarrow> t_sql t)"

subsection \<open>The connection\<close>

datatype conn_state = Idle | Connecting | Ready | Reconnecting | Closed

record prepared_entry =
  pe_sql :: jsstr
  pe_fields :: "field list"
  pe_paramOids :: "int list option"

text \<open>A CancelRequest in progress; \<open>pc_id\<close> is the identity of the source's object.\<close>

record pending_cancel =
  pc_id :: nat
  pc_head :: "nat option"
  pc_isConfirmed :: bool
  pc_hasFailed :: bool
  pc_timer :: bool

datatype 'j settlement =
    Resolved "'j row list" "jsstr list" "int option" "jsstr option"
  | ResolvedWire bytes
  | Rejected cerr
  | StreamEnded "jsstr option" "int option"

text \<open>The reconnect loop: waiting out the backoff of an attempt, or inside an attempt.\<close>

datatype reconnect_loop = NoLoop | Backoff nat cerr | Attempting nat

record ('v, 'j) conn =
  c_state :: conn_state
  c_tasks :: "nat \<Rightarrow> ('v, 'j) task"
  c_next :: nat
  c_queue :: "nat list"
  c_inflight :: "nat list"
  c_out :: writer
  c_flushScheduled :: bool
  c_writeBackedUp :: bool
  c_maxInflight :: nat
  c_flushes :: nat
  c_sent :: "bytes list"
  c_prepared :: "jsstr \<Rightarrow> prepared_entry option"
  c_stale :: "jsstr set"
  c_parseInflight :: "jsstr \<Rightarrow> jsstr option"
  c_pendingCancel :: "pending_cancel option"
  c_nextCancel :: nat
  c_isRetiring :: bool
  c_lateCancel :: "(nat \<times> nat set) option"
  c_connecting :: bool
  c_everConnected :: bool
  c_ended :: bool
  c_socket :: bool
  c_parser :: bytes
  c_txStatus :: nat
  c_serverParams :: "(jsstr \<times> jsstr) list"
  c_backendKey :: "(int \<times> int) option"
  c_attempt :: "cerr option option"   \<comment> \<open>a settled connection attempt whose continuation has not run\<close>
  c_loop :: reconnect_loop
  c_connectCalled :: bool
  c_log :: "(nat \<times> 'j settlement) list"

definition inTransaction :: "('v, 'j) conn \<Rightarrow> bool" where
  "inTransaction c \<longleftrightarrow> c_txStatus c = 84 \<or> c_txStatus c = 69"

definition current :: "('v, 'j) conn \<Rightarrow> nat option" where
  "current c = (case c_inflight c of [] \<Rightarrow> None | t # _ \<Rightarrow> Some t)"

definition upd_task :: "nat \<Rightarrow> (('v, 'j) task \<Rightarrow> ('v, 'j) task) \<Rightarrow> ('v, 'j) conn \<Rightarrow> ('v, 'j) conn" where
  "upd_task i f c = c\<lparr>c_tasks := (c_tasks c)(i := f (c_tasks c i))\<rparr>"

definition settle :: "nat \<Rightarrow> 'j settlement \<Rightarrow> ('v, 'j) conn \<Rightarrow> ('v, 'j) conn" where
  "settle i s c = c\<lparr>c_log := c_log c @ [(i, s)]\<rparr>"

text \<open>What the connection calls but does not contain.\<close>

record ('v, 'j) conn_env =
  e_encodeValueInto :: "'v encoder"
  e_compileParamPlan :: "int list \<Rightarrow> 'v encoder option"
  e_compileBindEncoder :: "jsstr \<Rightarrow> int list \<Rightarrow> rfmt \<Rightarrow> ('v list \<Rightarrow> unit wop) option"
  e_mapperFactory :: "codegen_col list \<Rightarrow> result_mode \<Rightarrow> js_error + (bytes \<Rightarrow> js_error + 'j row)"
  e_decoderFor :: "int \<Rightarrow> bytes \<Rightarrow> js_error + 'j"
  e_elemOid :: "int \<Rightarrow> int option"
  e_writable :: "nat \<Rightarrow> bool"
  e_password :: jsstr
  e_md5Password :: "bytes \<Rightarrow> jsstr"
  e_scramForChannel :: "jsstr list \<Rightarrow> string + jsstr \<times> jsstr"
  e_scramContinue :: "jsstr \<Rightarrow> js_error + jsstr"
  e_scramFinal :: "jsstr \<Rightarrow> string + unit"
  e_pipelineDepth :: nat
  e_flushMicrotask :: bool
  e_prepare :: bool
  e_binaryParams :: bool
  e_jitEncode :: bool
  e_temporalString :: bool
  e_reuseBinaryOids :: "int list"
  e_isBehindPooler :: bool
  e_hasCancel :: bool
  e_reconnect :: bool
  e_maxRetries :: "nat option"

definition FLUSH_THRESHOLD :: nat where "FLUSH_THRESHOLD = 64 * 1024"

definition new_conn :: "('v, 'j) conn" where
  "new_conn = \<lparr>c_state = Idle, c_tasks = (\<lambda>_. blank_task), c_next = 0, c_queue = [], c_inflight = [],
     c_out = new_writer 4096, c_flushScheduled = False, c_writeBackedUp = False, c_maxInflight = 0,
     c_flushes = 0, c_sent = [], c_prepared = (\<lambda>_. None), c_stale = {}, c_parseInflight = (\<lambda>_. None),
     c_pendingCancel = None, c_nextCancel = 0, c_isRetiring = False, c_lateCancel = None,
     c_connecting = False, c_everConnected = False, c_ended = False, c_socket = False, c_parser = [],
     c_txStatus = 73, c_serverParams = [], c_backendKey = None, c_attempt = None, c_loop = NoLoop, c_connectCalled = False, c_log = []\<rparr>"

end
