(* ===== verification/Conn_Dispatch.thy ===== *)
theory Conn_Dispatch
  imports Conn_State
begin

section \<open>Dispatching tasks (src/connection.ts: startTask, processQueue, flushWrites, socket loss)\<close>

text \<open>
  \<open>startTask\<close> serialises a task into the outbound batch. It is written as a sequence of
  \<open>cop\<close> steps, which carry the whole connection: a step that throws keeps what the earlier
  steps did to the prepared-statement caches, and only the batch is rewound, as in the source.
  \<open>processQueue\<close> dispatches as many tasks as the pipeline depth, the socket's backpressure, a
  pending cancel and the stream barrier allow; its loop consumes the queue, so as many rounds as
  the queue is long are enough (\<open>dispatch_done\<close> shows that the loop has ended by then).
\<close>

subsection \<open>Losing the socket\<close>

definition rejectTask :: "nat \<Rightarrow> cerr \<Rightarrow> ('v, 'j) conn \<Rightarrow> ('v, 'j) conn" where
  "rejectTask i e c = settle i (Rejected e) c"

definition rejectQueue :: "cerr \<Rightarrow> ('v, 'j) conn \<Rightarrow> ('v, 'j) conn" where
  "rejectQueue e c = (fold (\<lambda>i. rejectTask i e) (c_queue c) c)\<lparr>c_queue := []\<rparr>"

text \<open>Clearing the timers of an in-flight task and rejecting it unless its caller was settled; an error
  the server already sent for it wins over the given one.\<close>

definition clear_timers :: "nat \<Rightarrow> ('v, 'j) conn \<Rightarrow> ('v, 'j) conn" where
  "clear_timers i c = upd_task i (\<lambda>t. t\<lparr>t_timer := False, t_graceTimer := False\<rparr>) c"

definition drop_inflight :: "cerr \<Rightarrow> nat \<Rightarrow> ('v, 'j) conn \<Rightarrow> ('v, 'j) conn" where
  "drop_inflight e i c =
     (let c1 = clear_timers i c; t = c_tasks c1 i
      in if t_settled t then c1
         else rejectTask i (case t_error t of Some s \<Rightarrow> s | None \<Rightarrow> e) c1)"

definition drop_all_inflight :: "cerr \<Rightarrow> ('v, 'j) conn \<Rightarrow> ('v, 'j) conn" where
  "drop_all_inflight e c = (fold (drop_inflight e) (c_inflight c) c)\<lparr>c_inflight := []\<rparr>"

definition reject_queued :: "cerr \<Rightarrow> nat \<Rightarrow> ('v, 'j) conn \<Rightarrow> ('v, 'j) conn" where
  "reject_queued e i c = (if t_settled (c_tasks c i) then c else rejectTask i e c)"

definition settlePending :: "cerr \<Rightarrow> ('v, 'j) conn \<Rightarrow> ('v, 'j) conn" where
  "settlePending e c =
     (let c1 = c\<lparr>c_out := (c_out c)\<lparr>woff := 0\<rparr>, c_parseInflight := (\<lambda>_. None), c_lateCancel := None\<rparr>;
          c2 = drop_all_inflight e c1
      in (fold (reject_queued e) (c_queue c2) c2)\<lparr>c_queue := []\<rparr>)"

definition clearPendingCancel :: "('v, 'j) conn \<Rightarrow> ('v, 'j) conn" where
  "clearPendingCancel c = c\<lparr>c_pendingCancel := None, c_isRetiring := False\<rparr>"

definition failAttempt :: "cerr \<Rightarrow> ('v, 'j) conn \<Rightarrow> ('v, 'j) conn" where
  "failAttempt e c =
     (if \<not> c_connecting c then c
      else c\<lparr>c_connecting := False, c_socket := False, c_attempt := Some (Some e)\<rparr>)"

text \<open>The head of the reconnect loop, before the backoff of attempt \<open>n\<close>.\<close>

definition reconnect_round :: "('v, 'j) conn_env \<Rightarrow> nat \<Rightarrow> cerr \<Rightarrow> ('v, 'j) conn \<Rightarrow> ('v, 'j) conn" where
  "reconnect_round env n lastErr c =
     (if c_ended c \<or> c_state c = Closed then c\<lparr>c_loop := NoLoop\<rparr>
      else case e_maxRetries env of
        Some m \<Rightarrow> if m \<le> n then (rejectQueue (AppErr ''reconnect failed'') (c\<lparr>c_state := Closed\<rparr>))\<lparr>c_loop := NoLoop\<rparr>
                  else c\<lparr>c_loop := Backoff n lastErr\<rparr>
      | None \<Rightarrow> c\<lparr>c_loop := Backoff n lastErr\<rparr>)"

definition startReconnect :: "('v, 'j) conn_env \<Rightarrow> cerr \<Rightarrow> ('v, 'j) conn \<Rightarrow> ('v, 'j) conn" where
  "startReconnect env lastErr c = reconnect_round env 0 lastErr c"

definition onSocketDown :: "('v, 'j) conn_env \<Rightarrow> cerr \<Rightarrow> ('v, 'j) conn \<Rightarrow> ('v, 'j) conn" where
  "onSocketDown env e c =
     (if c_state c = Closed then c
      else if c_connecting c then failAttempt e c
      else
        let c1 = clearPendingCancel c;
            c2 = c1\<lparr>c_socket := False, c_out := (c_out c1)\<lparr>woff := 0\<rparr>\<rparr>;
            c3 = drop_all_inflight e c2
        in if e_reconnect env \<and> \<not> c_ended c3
           then startReconnect env e (c3\<lparr>c_state := Reconnecting, c_prepared := (\<lambda>_. None), c_stale := {},
                  c_parseInflight := (\<lambda>_. None)\<rparr>)
           else rejectQueue e (c3\<lparr>c_state := Closed\<rparr>))"

definition sock_write :: "bytes \<Rightarrow> ('v, 'j) conn \<Rightarrow> ('v, 'j) conn" where
  "sock_write b c = (if c_socket c then c\<lparr>c_sent := c_sent c @ [b]\<rparr> else c)"

text \<open>Writing a message whose serialisation can throw inside a \<open>try { } catch { }\<close>.\<close>

definition sock_try :: "js_error + bytes \<Rightarrow> ('v, 'j) conn \<Rightarrow> ('v, 'j) conn" where
  "sock_try r c = (case r of Inl _ \<Rightarrow> c | Inr b \<Rightarrow> sock_write b c)"

definition retire :: "('v, 'j) conn_env \<Rightarrow> ('v, 'j) conn \<Rightarrow> ('v, 'j) conn" where
  "retire env c = onSocketDown env (AppErr ''retired: a cancel request could still stop a later query'')
     (sock_try W_terminate c)"

subsection \<open>Flushing the batch\<close>

definition flushWrites :: "('v, 'j) conn_env \<Rightarrow> ('v, 'j) conn \<Rightarrow> ('v, 'j) conn" where
  "flushWrites env c =
     (if woff (c_out c) = 0 then c
      else
        let bytes = w_slice (c_out c);
            c1 = c\<lparr>c_out := (c_out c)\<lparr>woff := 0\<rparr>, c_flushes := c_flushes c + 1\<rparr>;
            c2 = sock_write bytes c1
        in if c_socket c \<and> \<not> e_writable env (c_flushes c) \<and> \<not> c_writeBackedUp c
           then c2\<lparr>c_writeBackedUp := True\<rparr> else c2)"

definition scheduleFlush :: "('v, 'j) conn \<Rightarrow> ('v, 'j) conn" where
  "scheduleFlush c = c\<lparr>c_flushScheduled := True\<rparr>"

subsection \<open>Row mappers\<close>

definition resolveCols :: "('v, 'j) conn_env \<Rightarrow> codegen_col list \<Rightarrow> codegen_col list" where
  "resolveCols env cols = map (\<lambda>c0.
     let c = tagArrayCol (e_elemOid env) c0 in
     if \<not> e_temporalString env then c
     else if cc_js c = None \<and> \<not> cc_json c \<and> cc_oid c \<in> set INSTANT_OIDS
       then c\<lparr>cc_js := Some ''string'', cc_binary := False\<rparr>
     else case cc_array c of
       Some (el, None) \<Rightarrow> if el \<in> set INSTANT_OIDS then c\<lparr>cc_array := Some (el, Some ''string'')\<rparr> else c
     | _ \<Rightarrow> c) cols"

definition getMapper :: "('v, 'j) conn_env \<Rightarrow> codegen_col list \<Rightarrow> result_mode \<Rightarrow>
    js_error + (bytes \<Rightarrow> js_error + 'j row) option" where
  "getMapper env cols mode =
     (if mode \<noteq> MArray \<and> mode \<noteq> MObject then Inr None
      else rbind (e_mapperFactory env (resolveCols env cols) mode) (\<lambda>m. Inr (Some m)))"

subsection \<open>Serialising a task\<close>

type_synonym ('v, 'j, 'a) cop = "('v, 'j) conn \<Rightarrow> (js_error + 'a) \<times> ('v, 'j) conn"

definition cret :: "'a \<Rightarrow> ('v, 'j, 'a) cop" where
  "cret x c = (Inr x, c)"

definition cfail :: "js_error \<Rightarrow> ('v, 'j, 'a) cop" where
  "cfail e c = (Inl e, c)"

definition cbind :: "('v, 'j, 'a) cop \<Rightarrow> ('a \<Rightarrow> ('v, 'j, 'b) cop) \<Rightarrow> ('v, 'j, 'b) cop" where
  "cbind m f c = (case m c of (Inl e, c') \<Rightarrow> (Inl e, c') | (Inr x, c') \<Rightarrow> f x c')"

definition cmod :: "(('v, 'j) conn \<Rightarrow> ('v, 'j) conn) \<Rightarrow> ('v, 'j, unit) cop" where
  "cmod f c = (Inr (), f c)"

definition cwrite :: "unit wop \<Rightarrow> ('v, 'j, unit) cop" where
  "cwrite m c = (case m (c_out c) of (r, w) \<Rightarrow> (r, c\<lparr>c_out := w\<rparr>))"

definition assignMapper :: "('v, 'j) conn_env \<Rightarrow> nat \<Rightarrow> codegen_col list \<Rightarrow> ('v, 'j, unit) cop" where
  "assignMapper env i cols c =
     (case getMapper env cols (t_mode (c_tasks c i)) of
        Inl e \<Rightarrow> (Inl e, c)
      | Inr m \<Rightarrow> (Inr (), upd_task i (\<lambda>t. t\<lparr>t_mapper := m\<rparr>) c))"

definition fields_cols :: "(field \<Rightarrow> bool) \<Rightarrow> field list \<Rightarrow> codegen_col list" where
  "fields_cols bin fs = map (\<lambda>f. plain_col (f_name f) (f_dataTypeOid f) (bin f)) fs"

text \<open>A cached statement is executed again: the mapper and the result formats come from its fields.\<close>

definition reuse_statement :: "('v, 'j) conn_env \<Rightarrow> nat \<Rightarrow> prepared_entry \<Rightarrow> ('v, 'j, unit) cop" where
  "reuse_statement env i entry =
     cbind (cmod (upd_task i (\<lambda>t. t\<lparr>t_fields := Some (pe_fields entry)\<rparr>))) (\<lambda>_ c.
       let t = c_tasks c i; fs = pe_fields entry in
       if t_typed t then
         (case (t_shapeCols t, t_mapper t) of
            (Some cols, None) \<Rightarrow> assignMapper env i (mergeUnknownCols cols fs) c
          | _ \<Rightarrow> (Inr (), c))
       else if t_binary t then assignMapper env i (fields_cols (\<lambda>_. True) fs) c
       else if t_mode t = MArray \<or> t_mode t = MObject then
         let cols = resolveCols env (fields_cols (\<lambda>f. f_dataTypeOid f \<in> set (e_reuseBinaryOids env)) fs) in
         cbind (assignMapper env i cols)
           (\<lambda>_. cmod (upd_task i (\<lambda>t. t\<lparr>t_resultFormat := Some (RF_each (map (\<lambda>c. if cc_binary c then 1 else 0) cols))\<rparr>))) c
       else assignMapper env i (fields_cols (\<lambda>_. False) fs) c)"

text \<open>The statement lookup: reuse it, or deallocate a cached statement of that name with other SQL.\<close>

definition lookup_statement :: "('v, 'j) conn_env \<Rightarrow> nat \<Rightarrow> ('v, 'j, prepared_entry option) cop" where
  "lookup_statement env i c =
     (let t = c_tasks c i in
      case truthy_name t of
        None \<Rightarrow> (Inr None, c)
      | Some n \<Rightarrow>
          (case c_prepared c n of
             None \<Rightarrow> (Inr None, c)
           | Some entry \<Rightarrow>
               if pe_sql entry = t_sql t
               then cbind (reuse_statement env i entry) (\<lambda>_. cret (Some entry)) c
               else cbind (cwrite (writeClose 83 n)) (\<lambda>_. cbind (cmod (\<lambda>c. upd_task i (\<lambda>t. t\<lparr>t_reprepared := True\<rparr>)
                      (c\<lparr>c_prepared := (c_prepared c)(n := None)\<rparr>))) (\<lambda>_. cret None)) c))"

text \<open>Parse (unless the same Parse is already in the pipeline) and Describe of a statement that is not
  cached. The result is the name to record in \<open>parseInflight\<close> once the whole task is serialised.\<close>

definition close_stale :: "jsstr \<Rightarrow> ('v, 'j, unit) cop" where
  "close_stale n c =
     (if n \<in> c_stale c
      then cbind (cwrite (writeClose 83 n)) (\<lambda>_. cmod (\<lambda>c. c\<lparr>c_stale := c_stale c - {n}\<rparr>)) c
      else (Inr (), c))"

definition parse_named :: "nat \<Rightarrow> jsstr \<Rightarrow> ('v, 'j, jsstr option) cop" where
  "parse_named i n c =
     (let t = c_tasks c i in
      if c_parseInflight c n = Some (parseKey t) then (Inr None, c)
      else cbind (if c_parseInflight c n \<noteq> None
                  then cbind (cwrite (writeClose 83 n)) (\<lambda>_. cmod (\<lambda>c. c\<lparr>c_parseInflight := (c_parseInflight c)(n := None)\<rparr>))
                  else cret ())
             (\<lambda>_. cbind (cwrite (writeParse n (t_sql t) (case t_paramTypes t of Some os \<Rightarrow> os | None \<Rightarrow> [])))
             (\<lambda>_. cret (Some n))) c)"

definition prepare_statement :: "nat \<Rightarrow> ('v, 'j, jsstr option) cop" where
  "prepare_statement i c =
     (let t = c_tasks c i in
      case truthy_name t of
        None \<Rightarrow>
          cbind (cwrite (writeParse [] (t_sql t) (case t_paramTypes t of Some os \<Rightarrow> os | None \<Rightarrow> [])))
            (\<lambda>_. cbind (cwrite (writeDescribe 83 [])) (\<lambda>_. cret None)) c
      | Some n \<Rightarrow>
          cbind (close_stale n) (\<lambda>_. cbind (parse_named i n) (\<lambda>parsed.
            cbind (cwrite (writeDescribe 83 n)) (\<lambda>_.
            cbind (cmod (upd_task i (\<lambda>t. t\<lparr>t_cacheName := Some n\<rparr>))) (\<lambda>_. cret parsed)))) c)"

text \<open>The encoder of the parameters: a binary plan from the server's or the declared types, or text.\<close>

definition choose_encoder :: "('v, 'j) conn_env \<Rightarrow> ('v, 'j) task \<Rightarrow> prepared_entry option \<Rightarrow> 'v encoder \<times> int list option" where
  "choose_encoder env t entry =
     (let plan = (\<lambda>oids. case e_compileParamPlan env oids of
            Some p \<Rightarrow> (p, Some oids) | None \<Rightarrow> (e_encodeValueInto env, None));
          text = (e_encodeValueInto env, None)
      in if \<not> e_binaryParams env \<or> t_raw t \<noteq> None then text
         else case (case entry of Some en \<Rightarrow> pe_paramOids en | None \<Rightarrow> None) of
           Some oids \<Rightarrow> plan oids
         | None \<Rightarrow> (case t_paramTypes t of Some oids \<Rightarrow> plan oids | None \<Rightarrow> text))"

definition write_execution :: "('v, 'j) conn_env \<Rightarrow> ('v, 'j) task \<Rightarrow> prepared_entry option \<Rightarrow> unit wop" where
  "write_execution env t entry =
     (let name = (case t_name t of Some n \<Rightarrow> n | None \<Rightarrow> []);
          (enc, planOids) = choose_encoder env t entry;
          rf = (case t_resultFormat t of Some r \<Rightarrow> r | None \<Rightarrow> RF_all 0)
      in case t_raw t of
           Some (formats, vals) \<Rightarrow> wdo [writeBindRaw [] name formats vals rf, writeExecute [] 0, writeSync]
         | None \<Rightarrow>
             (case (case planOids of
                      Some oids \<Rightarrow> if e_jitEncode env \<and> length (t_params t) = length oids
                                   then e_compileBindEncoder env name oids rf else None
                    | None \<Rightarrow> None) of
                Some jit \<Rightarrow> jit (t_params t)
              | None \<Rightarrow> wdo [writeBindWith [] name (t_params t) enc rf, writeExecute [] 0, writeSync]))"

definition serialize_task :: "('v, 'j) conn_env \<Rightarrow> nat \<Rightarrow> ('v, 'j, unit) cop" where
  "serialize_task env i c =
     (let t = c_tasks c i in
      if t_copySource t \<or> t_copyOut t then cwrite (writeQuery (t_sql t)) c
      else if \<not> t_paramsIsArray t then (Inl ParamsNotArray, c)
      else cbind (lookup_statement env i) (\<lambda>entry.
           cbind (if entry = None then prepare_statement i else cret None) (\<lambda>parsed.
           cbind (cmod (upd_task i (\<lambda>t. t\<lparr>t_reused := (entry \<noteq> None)\<rparr>))) (\<lambda>_.
           cbind (\<lambda>c. cwrite (write_execution env (c_tasks c i) entry) c) (\<lambda>_.
           cmod (\<lambda>c. case parsed of None \<Rightarrow> c
                     | Some n \<Rightarrow> c\<lparr>c_parseInflight := (c_parseInflight c)(n \<mapsto> parseKey (c_tasks c i))\<rparr>))))) c)"

definition startTask :: "('v, 'j) conn_env \<Rightarrow> nat \<Rightarrow> ('v, 'j) conn \<Rightarrow> ('v, 'j) conn" where
  "startTask env i c =
     (let mark = woff (c_out c) in
      case serialize_task env i c of
        (Inl e, c') \<Rightarrow> rejectTask i (JsErr e) (c'\<lparr>c_out := (c_out c')\<lparr>woff := mark\<rparr>\<rparr>)
      | (Inr _, c') \<Rightarrow>
          let infl = c_inflight c' @ [i] in
          upd_task i (\<lambda>t. t\<lparr>t_timer := t_hasTimeout t\<rparr>)
            (c'\<lparr>c_inflight := infl, c_maxInflight := max (c_maxInflight c') (length infl)\<rparr>))"

subsection \<open>The dispatch loop\<close>

definition canStartNext :: "('v, 'j) conn \<Rightarrow> bool" where
  "canStartNext c =
     (if c_pendingCancel c \<noteq> None then False
      else case c_inflight c of
        [] \<Rightarrow> True
      | h # _ \<Rightarrow> if solo (c_tasks c h) then False
                else case c_queue c of [] \<Rightarrow> True | n # _ \<Rightarrow> \<not> solo (c_tasks c n))"

definition can_dispatch :: "('v, 'j) conn_env \<Rightarrow> ('v, 'j) conn \<Rightarrow> bool" where
  "can_dispatch env c \<longleftrightarrow> c_queue c \<noteq> [] \<and> length (c_inflight c) < e_pipelineDepth env \<and>
     \<not> c_writeBackedUp c \<and> canStartNext c"

definition dispatch_one :: "('v, 'j) conn_env \<Rightarrow> ('v, 'j) conn \<Rightarrow> ('v, 'j) conn" where
  "dispatch_one env c =
     (let c1 = startTask env (hd (c_queue c)) (c\<lparr>c_queue := tl (c_queue c)\<rparr>)
      in if FLUSH_THRESHOLD \<le> woff (c_out c1) then flushWrites env c1 else c1)"

primrec dispatch :: "nat \<Rightarrow> ('v, 'j) conn_env \<Rightarrow> ('v, 'j) conn \<Rightarrow> ('v, 'j) conn" where
  "dispatch 0 env c = c"
| "dispatch (Suc n) env c = (if can_dispatch env c then dispatch n env (dispatch_one env c) else c)"

definition processQueue :: "('v, 'j) conn_env \<Rightarrow> ('v, 'j) conn \<Rightarrow> ('v, 'j) conn" where
  "processQueue env c =
     (if c_state c \<noteq> Ready then c
      else if c_isRetiring c then (if c_inflight c = [] then retire env c else c)
      else
        let c1 = dispatch (length (c_queue c)) env c
        in if e_flushMicrotask env \<and> 1 < e_pipelineDepth env \<and> woff (c_out c1) < FLUSH_THRESHOLD
           then scheduleFlush c1 else flushWrites env c1)"

end
