(* ===== verification/Conn_Handle.thy ===== *)
theory Conn_Handle
  imports Conn_Dispatch
begin

section \<open>Backend messages, completion, cancellation and lifecycle (src/connection.ts)\<close>

text \<open>
  The handlers that run when the socket delivers data, a timer fires, a caller submits or aborts
  a query, or the connection is opened and closed. Each is one atomic step: promise callbacks run
  later, as events of their own (\<open>conn_step\<close> at the end lists them).
\<close>

subsection \<open>Cancellation\<close>

definition sendCancelRequest :: "('v, 'j) conn_env \<Rightarrow> nat \<Rightarrow> ('v, 'j) conn \<Rightarrow> ('v, 'j) conn" where
  "sendCancelRequest env head c =
     (if c_backendKey c = None \<or> \<not> e_hasCancel env then c
      else c\<lparr>c_isRetiring := (c_isRetiring c \<or> c_pendingCancel c \<noteq> None),
             c_pendingCancel := Some \<lparr>pc_id = c_nextCancel c, pc_head = Some head, pc_isConfirmed = False,
                                       pc_hasFailed = False, pc_timer = False\<rparr>,
             c_nextCancel := c_nextCancel c + 1\<rparr>)"

definition resolveCanceledHead :: "('v, 'j) conn_env \<Rightarrow> pending_cancel \<Rightarrow> ('v, 'j) conn \<Rightarrow> ('v, 'j) conn" where
  "resolveCanceledHead env p c =
     (if c_isRetiring c then c
      else if pc_hasFailed p \<or> (pc_isConfirmed p \<and> e_isBehindPooler env)
        then processQueue env (c\<lparr>c_isRetiring := True\<rparr>)
      else if pc_isConfirmed p then processQueue env (clearPendingCancel c)
      else c)"

text \<open>The cancel connection ended: the flags are set on the request it belongs to, and the connection
  acts on them only when that request is still the pending one and its query has ended.\<close>

definition cancel_outcome :: "('v, 'j) conn_env \<Rightarrow> nat \<Rightarrow> bool \<Rightarrow> ('v, 'j) conn \<Rightarrow> ('v, 'j) conn" where
  "cancel_outcome env serial ok c =
     (case c_pendingCancel c of
        None \<Rightarrow> c
      | Some p \<Rightarrow>
          if pc_id p \<noteq> serial then c
          else let p' = (if ok then p\<lparr>pc_isConfirmed := True\<rparr> else p\<lparr>pc_hasFailed := True\<rparr>);
                   c1 = c\<lparr>c_pendingCancel := Some p'\<rparr>
               in if pc_head p' = None then resolveCanceledHead env p' c1 else c1)"

definition endCanceledHead :: "('v, 'j) conn_env \<Rightarrow> nat \<Rightarrow> pending_cancel \<Rightarrow> ('v, 'j) conn \<Rightarrow> ('v, 'j) conn" where
  "endCanceledHead env i p0 c =
     (let p = p0\<lparr>pc_head := None\<rparr>;
          c1 = c\<lparr>c_pendingCancel := Some p\<rparr>;
          isStopped = has_code (t_error (c_tasks c i)) ''57014'';
          c2 = (if \<not> isStopped \<and> c_inflight c1 \<noteq> [] then c1\<lparr>c_lateCancel := Some (pc_id p, set (c_inflight c1))\<rparr> else c1)
      in if c_isRetiring c2 then c2
         else if isStopped then clearPendingCancel c2
         else let c3 = resolveCanceledHead env p c2
              in case c_pendingCancel c3 of
                   Some q \<Rightarrow> if pc_id q = pc_id p \<and> \<not> c_isRetiring c3
                             then c3\<lparr>c_pendingCancel := Some (q\<lparr>pc_timer := True\<rparr>)\<rparr> else c3
                 | None \<Rightarrow> c3)"

definition mark_late :: "cerr \<Rightarrow> cerr" where
  "mark_late e = (case e of
       PgErr fs _ \<Rightarrow> PgErr (set_prop (asc ''hint'') (asc ''late cancel'') fs) True
     | _ \<Rightarrow> e)"

definition checkLateCancel :: "nat \<Rightarrow> ('v, 'j) conn \<Rightarrow> ('v, 'j) conn" where
  "checkLateCancel i c =
     (case c_lateCancel c of
        None \<Rightarrow> c
      | Some (serial, suspects) \<Rightarrow>
          let t = c_tasks c i;
              hit = (has_code (t_error t) ''57014'' \<and> \<not> t_settled t);
              s' = (if hit then {} else suspects - {i});
              c1 = (if hit then upd_task i (\<lambda>t. t\<lparr>t_error := map_option mark_late (t_error t)\<rparr>) c else c);
              c2 = (if hit \<and> (case c_pendingCancel c1 of Some p \<Rightarrow> pc_id p = serial | None \<Rightarrow> False) \<and> \<not> c_isRetiring c1
                    then clearPendingCancel c1 else c1)
          in c2\<lparr>c_lateCancel := (if s' = {} then None else Some (serial, s'))\<rparr>)"

definition cancelTask :: "('v, 'j) conn_env \<Rightarrow> nat \<Rightarrow> cerr \<Rightarrow> ('v, 'j) conn \<Rightarrow> ('v, 'j) conn" where
  "cancelTask env i reason c =
     (if t_settled (c_tasks c i) then c
      else
        let c1 = upd_task i (\<lambda>t. t\<lparr>t_settled := True, t_timer := False\<rparr>) c
        in if i \<in> set (c_inflight c1) then
             (let c2 = rejectTask i reason c1
              in if hd (c_inflight c1) = i
                 then upd_task i (\<lambda>t. t\<lparr>t_graceTimer := True\<rparr>)
                        (if t_copySource (c_tasks c2 i) then c2 else sendCancelRequest env i c2)
                 else c2)
           else rejectTask i reason (c1\<lparr>c_queue := removeAll i (c_queue c1)\<rparr>))"

subsection \<open>Completion\<close>

definition cacheStatement :: "nat \<Rightarrow> ('v, 'j) conn \<Rightarrow> ('v, 'j) conn" where
  "cacheStatement i c =
     (let t = c_tasks c i in
      case t_cacheName t of
        None \<Rightarrow> c
      | Some n \<Rightarrow> c\<lparr>c_prepared := (c_prepared c)(n \<mapsto> \<lparr>pe_sql = t_sql t,
             pe_fields = (case t_fields t of Some fs \<Rightarrow> fs | None \<Rightarrow> []), pe_paramOids = t_paramOids t\<rparr>),
           c_parseInflight := (c_parseInflight c)(n := None)\<rparr>)"

text \<open>The Parse this task wrote was not confirmed: later first uses must Parse again, after a Close.\<close>

definition forget_unconfirmed :: "nat \<Rightarrow> ('v, 'j) conn \<Rightarrow> ('v, 'j) conn" where
  "forget_unconfirmed i c =
     (let t = c_tasks c i in
      case (t_error t, t_cacheName t) of
        (Some _, Some n) \<Rightarrow>
          if c_prepared c n = None
          then c\<lparr>c_parseInflight := (if c_parseInflight c n = Some (parseKey t)
                                     then (c_parseInflight c)(n := None) else c_parseInflight c),
                 c_stale := insert n (c_stale c)\<rparr>
          else c
      | _ \<Rightarrow> c)"

definition invalidated :: "('v, 'j) task \<Rightarrow> bool" where
  "invalidated t \<longleftrightarrow> truthy_name t \<noteq> None \<and> (has_code (t_error t) ''0A000'' \<or> has_code (t_error t) ''26000'')"

definition forget_invalidated :: "nat \<Rightarrow> ('v, 'j) conn \<Rightarrow> ('v, 'j) conn" where
  "forget_invalidated i c =
     (let t = c_tasks c i in
      if invalidated t
      then case truthy_name t of
             Some n \<Rightarrow> c\<lparr>c_prepared := (c_prepared c)(n := None), c_stale := insert n (c_stale c)\<rparr>
           | None \<Rightarrow> c
      else c)"

definition can_retry :: "('v, 'j) conn \<Rightarrow> ('v, 'j) task \<Rightarrow> bool" where
  "can_retry c t \<longleftrightarrow> invalidated t \<and> \<not> t_settled t \<and> \<not> t_stream t \<and> \<not> t_typed t \<and> t_wire t = None \<and>
     \<not> inTransaction c \<and> t_retries t < 1"

definition reset_for_retry :: "('v, 'j) task \<Rightarrow> ('v, 'j) task" where
  "reset_for_retry t = t\<lparr>t_retries := t_retries t + 1, t_timer := False, t_graceTimer := False,
     t_error := None, t_rows := [], t_command := None, t_rowCount := None, t_fields := None, t_reused := False,
     t_paramOids := None, t_resultFormat := (if t_binary t then t_resultFormat t else None)\<rparr>"

definition outcome_of :: "('v, 'j) task \<Rightarrow> 'j settlement" where
  "outcome_of t =
     (case (t_wire t, t_error t) of
        (Some w, None) \<Rightarrow> ResolvedWire w
      | (Some w, Some (PgErr _ _)) \<Rightarrow> ResolvedWire w
      | (_, Some e) \<Rightarrow> Rejected e
      | (None, None) \<Rightarrow>
          if t_stream t then StreamEnded (t_command t) (t_rowCount t)
          else Resolved (t_rows t) (map f_name (case t_fields t of Some fs \<Rightarrow> fs | None \<Rightarrow> []))
                 (t_rowCount t) (t_command t))"

definition complete_task :: "('v, 'j) conn_env \<Rightarrow> nat \<Rightarrow> ('v, 'j) conn \<Rightarrow> ('v, 'j) conn" where
  "complete_task env i c =
     (let c1 = clear_timers i c; t = c_tasks c1 i
      in processQueue env (if t_settled t then c1 else settle i (outcome_of t) c1))"

text \<open>What the end of task \<open>i\<close> means for the cancels and the statement caches.\<close>

definition note_late :: "nat \<Rightarrow> ('v, 'j) conn \<Rightarrow> ('v, 'j) conn" where
  "note_late i c = (case c_lateCancel c of
       Some (_, suspects) \<Rightarrow> if i \<in> suspects then checkLateCancel i c else c
     | None \<Rightarrow> c)"

definition note_canceled :: "('v, 'j) conn_env \<Rightarrow> nat \<Rightarrow> ('v, 'j) conn \<Rightarrow> ('v, 'j) conn" where
  "note_canceled env i c = (case c_pendingCancel c of
       Some p \<Rightarrow> if pc_head p = Some i then endCanceledHead env i p c else c
     | None \<Rightarrow> c)"

definition leave_pipeline :: "('v, 'j) conn_env \<Rightarrow> nat \<Rightarrow> ('v, 'j) conn \<Rightarrow> ('v, 'j) conn" where
  "leave_pipeline env i c = forget_invalidated i (forget_unconfirmed i (note_canceled env i (note_late i c)))"

definition finishTask :: "('v, 'j) conn_env \<Rightarrow> ('v, 'j) conn \<Rightarrow> ('v, 'j) conn" where
  "finishTask env c =
     (case c_inflight c of
        [] \<Rightarrow> processQueue env c
      | i # rest \<Rightarrow>
          let c' = leave_pipeline env i (c\<lparr>c_inflight := rest\<rparr>)
          in if can_retry c' (c_tasks c' i)
             then processQueue env ((upd_task i reset_for_retry c')\<lparr>c_queue := c_queue c' @ [i]\<rparr>)
             else complete_task env i c')"

subsection \<open>Messages\<close>

definition is_digit :: "unit16 \<Rightarrow> bool" where
  "is_digit u \<longleftrightarrow> 48 \<le> unat u \<and> unat u \<le> 57"

definition is_space :: "unit16 \<Rightarrow> bool" where
  "is_space u \<longleftrightarrow> unat u \<in> {9, 10, 11, 12, 13, 32, 160, 5760, 8232, 8233, 8239, 8287, 12288, 65279} \<or>
     (8192 \<le> unat u \<and> unat u \<le> 8202)"

definition digits_value :: "jsstr \<Rightarrow> int" where
  "digits_value ds = foldl (\<lambda>a d. a * 10 + (int (unat d) - 48)) 0 ds"

text \<open>\<open>tag.match(/(\d+)\s*$/)\<close>: the last run of digits before trailing white space.\<close>

definition tag_rowCount :: "jsstr \<Rightarrow> int option" where
  "tag_rowCount tag =
     (let ds = rev (takeWhile is_digit (dropWhile is_space (rev tag)))
      in if ds = [] then None else Some (digits_value ds))"

definition tag_command :: "jsstr \<Rightarrow> jsstr" where
  "tag_command tag = takeWhile (\<lambda>u. u \<noteq> u16 32) tag"

text \<open>\<open>makeRow\<close>: used when no mapper is built (buffer and raw modes, or rows before a description).\<close>

definition decode_cell :: "('v, 'j) conn_env \<Rightarrow> field \<Rightarrow> bytes option \<Rightarrow> js_error + 'j option" where
  "decode_cell env f c = (case c of
       None \<Rightarrow> Inr None
     | Some b \<Rightarrow> rbind (e_decoderFor env (f_dataTypeOid f) b) (\<lambda>v. Inr (Some v)))"

fun make_cells :: "('v, 'j) conn_env \<Rightarrow> field list \<Rightarrow> bytes option list \<Rightarrow> js_error + 'j option list" where
  "make_cells env [] cs = Inr []"
| "make_cells env (f # fs) cs =
     rbind (decode_cell env f (case cs of [] \<Rightarrow> None | c # _ \<Rightarrow> c)) (\<lambda>v.
     rbind (make_cells env fs (drop 1 cs)) (\<lambda>vs. Inr (v # vs)))"

definition makeRow :: "('v, 'j) conn_env \<Rightarrow> bytes option list \<Rightarrow> bytes \<Rightarrow> result_mode \<Rightarrow> field list \<Rightarrow> js_error + 'j row" where
  "makeRow env cells body mode flds =
     (case mode of
        MRaw \<Rightarrow> Inr (RowRaw body)
      | MBuffer \<Rightarrow> Inr (RowBuffer cells)
      | MObject \<Rightarrow> rbind (make_cells env flds cells) (\<lambda>vs.
          Inr (RowObject (fold (\<lambda>(f, v) o'. set_prop (f_name f) v o') (zip flds vs) [])))
      | _ \<Rightarrow> rbind (make_cells env flds cells) (\<lambda>vs. Inr (RowArray vs)))"

definition decode_row :: "('v, 'j) conn_env \<Rightarrow> ('v, 'j) task \<Rightarrow> bytes \<Rightarrow> js_error + 'j row" where
  "decode_row env t body =
     (case t_mapper t of
        Some m \<Rightarrow> m body
      | None \<Rightarrow> rbind (parseDataRow body) (\<lambda>cells.
          makeRow env cells body (t_mode t) (case t_fields t of Some fs \<Rightarrow> fs | None \<Rightarrow> [])))"

definition dataRow :: "('v, 'j) conn_env \<Rightarrow> bytes \<Rightarrow> ('v, 'j) conn \<Rightarrow> ('v, 'j) conn" where
  "dataRow env body c =
     (case current c of
        None \<Rightarrow> c
      | Some i \<Rightarrow>
          let t = c_tasks c i in
          if t_cancelled t \<or> t_error t \<noteq> None \<or> t_settled t then c
          else case decode_row env t body of
            Inl e \<Rightarrow> upd_task i (\<lambda>t. t\<lparr>t_error := Some (JsErr e)\<rparr>) c
          | Inr r \<Rightarrow> upd_task i (\<lambda>t. t\<lparr>t_rows := t_rows t @ [r]\<rparr>) c)"

text \<open>RowDescription: store the fields, build the mapper (a throw becomes the task's error), cache the
  statement.\<close>

definition set_fields :: "nat \<Rightarrow> field list \<Rightarrow> ('v, 'j) conn \<Rightarrow> ('v, 'j) conn" where
  "set_fields i fs c = upd_task i (\<lambda>t. t\<lparr>t_fields := Some fs\<rparr>) c"

definition catch_mapper :: "nat \<Rightarrow> (js_error + unit) \<times> ('v, 'j) conn \<Rightarrow> ('v, 'j) conn" where
  "catch_mapper i r = (case r of
       (Inl e, c) \<Rightarrow> upd_task i (\<lambda>t. t\<lparr>t_error := Some (JsErr e)\<rparr>) c
     | (Inr _, c) \<Rightarrow> c)"

definition row_description_msg :: "('v, 'j) conn_env \<Rightarrow> nat \<Rightarrow> field list \<Rightarrow> ('v, 'j) conn \<Rightarrow> ('v, 'j) conn" where
  "row_description_msg env i fs c =
     (let c1 = set_fields i fs c; t = c_tasks c1 i;
          c2 = (if t_wire t \<noteq> None then c1
                else if t_typed t then
                  (case (t_shapeCols t, t_mapper t) of
                     (Some cols, None) \<Rightarrow> catch_mapper i (assignMapper env i (mergeUnknownCols cols fs) c1)
                   | _ \<Rightarrow> c1)
                else catch_mapper i (assignMapper env i (fields_cols (\<lambda>_. t_binary t) fs) c1))
      in cacheStatement i c2)"

definition auth :: "('v, 'j) conn_env \<Rightarrow> bytes \<Rightarrow> ('v, 'j) conn \<Rightarrow> js_error + ('v, 'j) conn" where
  "auth env body c = rbind (read_int 4 body 0) (\<lambda>code.
     if code = 0 then Inr c
     else if code = 3 then rbind (W_password (e_password env)) (\<lambda>b. Inr (sock_write b c))
     else if code = 5 then
       rbind (W_password (e_md5Password env (subarray body 4 8))) (\<lambda>b. Inr (sock_write b c))
     else if code = 10 then
       (let mechs = readCstrings (subarray body 4 (int (length body))) in
        if asc ''SCRAM-SHA-256'' \<notin> set mechs then Inr (failAttempt (FatalErr ''unsupported SASL mechanisms'') c)
        else case e_scramForChannel env mechs of
          Inl e \<Rightarrow> Inr (failAttempt (FatalErr e) c)
        | Inr (mech, clientFirst) \<Rightarrow> rbind (W_saslInitial mech clientFirst) (\<lambda>b. Inr (sock_write b c)))
     else if code = 11 then
       rbind (e_scramContinue env (from_utf8 (subarray body 4 (int (length body))))) (\<lambda>r.
       rbind (W_saslResponse r) (\<lambda>b. Inr (sock_write b c)))
     else if code = 12 then
       (case e_scramFinal env (from_utf8 (subarray body 4 (int (length body)))) of
          Inl e \<Rightarrow> Inr (failAttempt (FatalErr e) c)
        | Inr _ \<Rightarrow> Inr c)
     else Inr (failAttempt (FatalErr ''unsupported authentication request'') c))"

definition ready :: "('v, 'j) conn_env \<Rightarrow> bytes \<Rightarrow> ('v, 'j) conn \<Rightarrow> ('v, 'j) conn" where
  "ready env body c =
     (let c1 = c\<lparr>c_txStatus := (case body of [] \<Rightarrow> 73 | b # _ \<Rightarrow> unat b)\<rparr> in
      if c_connecting c1
      then processQueue env (c1\<lparr>c_connecting := False, c_everConnected := True, c_state := Ready,
             c_attempt := Some None\<rparr>)
      else finishTask env c1)"

text \<open>\<open>mode:'wire'\<close> keeps the frames of these messages (type byte, length, body).\<close>

definition wire_kept :: "byte \<Rightarrow> bool" where
  "wire_kept ty \<longleftrightarrow> ty \<in> {84, 68, 67, 69, 73}"

definition collect_wire :: "raw_message \<Rightarrow> ('v, 'j) conn \<Rightarrow> ('v, 'j) conn" where
  "collect_wire m c =
     (case current c of
        None \<Rightarrow> c
      | Some i \<Rightarrow>
          if t_wire (c_tasks c i) \<noteq> None \<and> wire_kept (rm_type m)
          then upd_task i (\<lambda>t. t\<lparr>t_wire := map_option (\<lambda>w. w @ frame_bytes m) (t_wire t)\<rparr>) c
          else c)"

definition is_wire :: "('v, 'j) conn \<Rightarrow> bool" where
  "is_wire c \<longleftrightarrow> (case current c of Some i \<Rightarrow> t_wire (c_tasks c i) \<noteq> None | None \<Rightarrow> False)"

definition on_current :: "(nat \<Rightarrow> ('v, 'j) conn \<Rightarrow> ('v, 'j) conn) \<Rightarrow> ('v, 'j) conn \<Rightarrow> ('v, 'j) conn" where
  "on_current f c = (case current c of Some i \<Rightarrow> f i c | None \<Rightarrow> c)"

text \<open>\<open>b.indexOf(0, from)\<close> and \<open>b.toString('utf8', s, e)\<close>.\<close>

definition indexOf0 :: "bytes \<Rightarrow> nat \<Rightarrow> int" where
  "indexOf0 b from = (case name_end b from of Some i \<Rightarrow> int i | None \<Rightarrow> - 1)"

definition str_range :: "bytes \<Rightarrow> int \<Rightarrow> int \<Rightarrow> jsstr" where
  "str_range b s e = from_utf8 (take (nat e - nat s) (drop (nat s) b))"

definition param_status :: "bytes \<Rightarrow> ('v, 'j) conn \<Rightarrow> ('v, 'j) conn" where
  "param_status body c =
     (let z = indexOf0 body 0
      in c\<lparr>c_serverParams := set_prop (str_range body 0 z)
             (str_range body (z + 1) (indexOf0 body (nat (z + 1)))) (c_serverParams c)\<rparr>)"

definition command_complete :: "bytes \<Rightarrow> nat \<Rightarrow> ('v, 'j) conn \<Rightarrow> ('v, 'j) conn" where
  "command_complete body i c = upd_task i (\<lambda>t. t\<lparr>t_command := Some (tag_command (firstCstr body)),
     t_rowCount := tag_rowCount (firstCstr body)\<rparr>) c"

text \<open>One message. A throw leaves through \<open>Inl\<close>; the caller tears the socket down.\<close>

definition copy_refusal :: "string \<Rightarrow> ('v, 'j) conn \<Rightarrow> ('v, 'j) conn" where
  "copy_refusal reason c = sock_try (rconcat [W_copyFail (asc reason), W_sync]) c"

text \<open>CopyData is relayed to \<open>copyTo()\<close> unless its task was cancelled, failed or settled.\<close>

definition copy_data :: "bytes \<Rightarrow> nat \<Rightarrow> ('v, 'j) conn \<Rightarrow> ('v, 'j) conn" where
  "copy_data body i c =
     (let t = c_tasks c i in
      if t_copyOut t \<and> \<not> t_cancelled t \<and> t_error t = None \<and> \<not> t_settled t
      then upd_task i (\<lambda>t. t\<lparr>t_copied := t_copied t @ [body]\<rparr>) c else c)"

definition handle :: "('v, 'j) conn_env \<Rightarrow> raw_message \<Rightarrow> ('v, 'j) conn \<Rightarrow> js_error + ('v, 'j) conn" where
  "handle env m c0 =
     (let c = collect_wire m c0; wire = is_wire c0; ty = rm_type m; body = rm_body m in
      if ty = 82 then auth env body c
      else if ty = 83 then Inr (param_status body c)
      else if ty = 75 then
        rbind (read_int 4 body 0) (\<lambda>pid. rbind (read_int 4 body 4) (\<lambda>secret.
          Inr (c\<lparr>c_backendKey := Some (pid, secret)\<rparr>)))
      else if ty = 90 then Inr (ready env body c)
      else if ty = 71 then Inr (case current c of
             Some i \<Rightarrow> if t_copySource (c_tasks c i) then upd_task i (\<lambda>t. t\<lparr>t_pumping := True\<rparr>) c
                       else copy_refusal ''use copyFrom() for COPY FROM STDIN'' c
           | None \<Rightarrow> copy_refusal ''use copyFrom() for COPY FROM STDIN'' c)
      else if ty = 87 then Inr (copy_refusal ''CopyBoth is not supported by minipg'' c)
      else if ty = 72 then Inr (on_current (\<lambda>i c.
             if \<not> t_copyOut (c_tasks c i) \<and> t_error (c_tasks c i) = None
             then upd_task i (\<lambda>t. t\<lparr>t_error := Some (AppErr ''this statement is COPY TO STDOUT'')\<rparr>) c else c) c)
      else if ty = 100 then Inr (on_current (copy_data body) c)
      else if ty = 116 then
        (case current c of
           None \<Rightarrow> Inr c
         | Some i \<Rightarrow> rbind (parseParameterDescription body) (\<lambda>os.
             Inr (upd_task i (\<lambda>t. t\<lparr>t_paramOids := Some os\<rparr>) c)))
      else if ty = 84 then
        (case current c of
           None \<Rightarrow> Inr c
         | Some i \<Rightarrow> rbind (parseRowDescription body) (\<lambda>fs. Inr (row_description_msg env i fs c)))
      else if ty = 110 then Inr (on_current (\<lambda>i c. cacheStatement i (set_fields i [] c)) c)
      else if ty = 68 then Inr (if wire then c else dataRow env body c)
      else if ty = 67 then Inr (if wire then c else on_current (command_complete body) c)
      else if ty = 69 then Inr (
        let e = PgErr (parseErrorFields body) False in
        if c_connecting c then failAttempt e c
        else on_current (\<lambda>i. upd_task i (\<lambda>t. t\<lparr>t_error := Some e\<rparr>)) c)
      else Inr c)"

text \<open>The messages of one chunk. A handler that throws tears the socket down and the rest of the chunk is
  dropped; a handler that never returns (an unterminated column name) is None.\<close>

fun handle_all :: "('v, 'j) conn_env \<Rightarrow> raw_message list \<Rightarrow> ('v, 'j) conn \<Rightarrow> ('v, 'j) conn option" where
  "handle_all env [] c = Some c"
| "handle_all env (m # ms) c =
     (case handle env m c of
        Inl NoReturn \<Rightarrow> None
      | Inl e \<Rightarrow> Some (onSocketDown env (JsErr e) (collect_wire m c))
      | Inr c' \<Rightarrow> handle_all env ms c')"

definition onData :: "('v, 'j) conn_env \<Rightarrow> bytes \<Rightarrow> ('v, 'j) conn \<Rightarrow> ('v, 'j) conn option" where
  "onData env chunk c =
     (case push (c_parser c) chunk of
        (Inl e, p) \<Rightarrow> Some (onSocketDown env (JsErr e) (c\<lparr>c_parser := p\<rparr>))
      | (Inr ms, p) \<Rightarrow> handle_all env ms (c\<lparr>c_parser := p\<rparr>))"

subsection \<open>Submitting work\<close>

record query_opts =
  q_name :: "jsstr option"
  q_mode :: "result_mode option"
  q_shape :: "codegen_col list option"
  q_binary :: bool
  q_params :: "int list option"
  q_timeout :: bool

text \<open>\<open>query()\<close> up to the point where the task joins the queue; a throw rejects the promise.\<close>

definition query_task :: "('v, 'j) conn_env \<Rightarrow> jsstr \<Rightarrow> 'v list \<Rightarrow> (int list \<times> bytes option list) option \<Rightarrow>
    query_opts \<Rightarrow> js_error + ('v, 'j) task" where
  "query_task env sql params raw opts =
     (let mode = (case q_mode opts of Some m \<Rightarrow> m | None \<Rightarrow> if q_shape opts \<noteq> None then MObject else MArray);
          nParams = (case raw of Some (_, vs) \<Rightarrow> length vs | None \<Rightarrow> length params);
          t0 = blank_task\<lparr>t_sql := sql, t_params := (if raw = None then params else []), t_raw := raw,
                 t_name := (if e_prepare env then q_name opts else None), t_mode := mode,
                 t_hasTimeout := q_timeout opts, t_paramTypes := q_params opts\<rparr>
      in if (case q_params opts of Some ts \<Rightarrow> nParams \<noteq> length ts | None \<Rightarrow> False)
         then Inl (Thrown ''param values and declared types must match one-to-one'')
         else if mode = MWire then
           (if q_shape opts \<noteq> None \<or> q_binary opts then Inl (Thrown ''shape/binary with mode wire'') else Inr (t0\<lparr>t_wire := Some []\<rparr>))
         else case q_shape opts of
           Some shape \<Rightarrow>
             (let cols = resolveCols env shape;
                  t1 = t0\<lparr>t_resultFormat := Some (RF_each (map (\<lambda>c. if cc_binary c then 1 else 0) cols)), t_typed := True\<rparr>
              in if \<exists>c \<in> set cols. cc_oid c = 0 then Inr (t1\<lparr>t_shapeCols := Some cols\<rparr>)
                 else rbind (getMapper env cols mode) (\<lambda>m. Inr (t1\<lparr>t_mapper := m\<rparr>)))
         | None \<Rightarrow> if q_binary opts then Inr (t0\<lparr>t_binary := True, t_resultFormat := Some (RF_all 1)\<rparr>) else Inr t0)"

definition stream_task :: "jsstr \<Rightarrow> 'v list \<Rightarrow> jsstr option \<Rightarrow> result_mode \<Rightarrow> bool \<Rightarrow> ('v, 'j) task" where
  "stream_task sql params name mode timeout =
     blank_task\<lparr>t_sql := sql, t_params := params, t_name := name, t_mode := mode, t_stream := True, t_hasTimeout := timeout\<rparr>"

definition copyFrom_task :: "jsstr \<Rightarrow> bool \<Rightarrow> ('v, 'j) task" where
  "copyFrom_task sql timeout = blank_task\<lparr>t_sql := sql, t_copySource := True, t_hasTimeout := timeout\<rparr>"

definition copyTo_task :: "jsstr \<Rightarrow> bool \<Rightarrow> ('v, 'j) task" where
  "copyTo_task sql timeout = blank_task\<lparr>t_sql := sql, t_stream := True, t_copyOut := True, t_hasTimeout := timeout\<rparr>"

text \<open>A new task object; \<open>aborted\<close> is the state of its AbortSignal when it is armed.\<close>

definition add_task :: "('v, 'j) task \<Rightarrow> ('v, 'j) conn \<Rightarrow> ('v, 'j) conn" where
  "add_task t c = c\<lparr>c_tasks := (c_tasks c)(c_next c := t), c_next := c_next c + 1\<rparr>"

definition submit :: "('v, 'j) conn_env \<Rightarrow> ('v, 'j) task \<Rightarrow> bool \<Rightarrow> ('v, 'j) conn \<Rightarrow> ('v, 'j) conn" where
  "submit env t aborted c =
     (let i = c_next c; c1 = add_task t c in
      if c_state c = Closed then rejectTask i (AppErr ''connection is closed'') c1
      else if aborted then rejectTask i (AppErr ''query aborted'') (upd_task i (\<lambda>t. t\<lparr>t_settled := True\<rparr>) c1)
      else processQueue env (c1\<lparr>c_queue := c_queue c1 @ [i]\<rparr>))"

definition query :: "('v, 'j) conn_env \<Rightarrow> jsstr \<Rightarrow> 'v list \<Rightarrow> (int list \<times> bytes option list) option \<Rightarrow>
    query_opts \<Rightarrow> bool \<Rightarrow> ('v, 'j) conn \<Rightarrow> ('v, 'j) conn" where
  "query env sql params raw opts aborted c =
     (case query_task env sql params raw opts of
        Inl e \<Rightarrow> rejectTask (c_next c) (if c_state c = Closed then AppErr ''connection is closed'' else JsErr e)
                  (add_task blank_task c)
      | Inr t \<Rightarrow> submit env t aborted c)"

text \<open>A stream's \<open>return()\<close>: the rest of the result is dropped; outside a transaction the query is
  cancelled, inside one a cancel would abort the transaction. \<open>finished\<close> is the iterator's own
  knowledge that it already saw the end or an error.\<close>

definition stream_return :: "('v, 'j) conn_env \<Rightarrow> nat \<Rightarrow> bool \<Rightarrow> ('v, 'j) conn \<Rightarrow> ('v, 'j) conn" where
  "stream_return env i finished c =
     (let c1 = upd_task i (\<lambda>t. t\<lparr>t_cancelled := True\<rparr>) c
      in if \<not> finished \<and> \<not> inTransaction c1 then cancelTask env i (AppErr ''stream closed early'') c1 else c1)"

subsection \<open>Opening and closing\<close>

definition establish :: "('v, 'j) conn \<Rightarrow> ('v, 'j) conn" where
  "establish c = c\<lparr>c_connecting := True, c_state := (if c_everConnected c then Reconnecting else Connecting),
     c_parser := []\<rparr>"

definition connect :: "('v, 'j) conn \<Rightarrow> ('v, 'j) conn" where
  "connect c = (if c_connectCalled c then c else establish (c\<lparr>c_connectCalled := True\<rparr>))"

text \<open>The transport delivered a socket: adopt it and send the startup packet, or destroy it when the
  attempt is over.\<close>

definition transport_ready :: "js_error + bytes \<Rightarrow> ('v, 'j) conn \<Rightarrow> ('v, 'j) conn" where
  "transport_ready startup c =
     (if c_connecting c then sock_try startup (c\<lparr>c_socket := True, c_writeBackedUp := False\<rparr>) else c)"

text \<open>The continuation of a settled connection attempt: in \<open>connect()\<close>, or in the reconnect loop.\<close>

definition attempt_settled :: "('v, 'j) conn_env \<Rightarrow> cerr option \<Rightarrow> ('v, 'j) conn \<Rightarrow> ('v, 'j) conn" where
  "attempt_settled env r c0 =
     (let c = c0\<lparr>c_attempt := None\<rparr> in
      case (c_loop c, r) of
        (Attempting n, None) \<Rightarrow> c\<lparr>c_loop := NoLoop\<rparr>
      | (Attempting n, Some e) \<Rightarrow>
          if isFatalAuth e then (rejectQueue e (c\<lparr>c_state := Closed\<rparr>))\<lparr>c_loop := NoLoop\<rparr>
          else reconnect_round env (n + 1) e c
      | (_, None) \<Rightarrow> c
      | (_, Some e) \<Rightarrow> if c_everConnected c then c else rejectQueue e (c\<lparr>c_state := Closed\<rparr>))"

definition backoff_over :: "('v, 'j) conn \<Rightarrow> ('v, 'j) conn" where
  "backoff_over c =
     (case c_loop c of
        Backoff n _ \<Rightarrow> if c_ended c \<or> c_state c = Closed then c\<lparr>c_loop := NoLoop\<rparr>
                      else (establish c)\<lparr>c_loop := Attempting n\<rparr>
      | _ \<Rightarrow> c)"

definition end_conn :: "('v, 'j) conn \<Rightarrow> ('v, 'j) conn" where
  "end_conn c =
     (if c_state c = Closed then c
      else
        let e = AppErr ''connection ended (end() called)'';
            c1 = (sock_try W_terminate (c\<lparr>c_ended := True\<rparr>))\<lparr>c_state := Closed\<rparr>;
            c2 = (if c_connecting c1 then c1\<lparr>c_connecting := False, c_attempt := Some (Some e)\<rparr> else c1)
        in clearPendingCancel (settlePending e c2))"

subsection \<open>Events\<close>

text \<open>
  Everything that can run next. An event that is not armed (a timer that was cleared, a microtask
  that was not scheduled, a close of a socket that is not the current one) has no step. The
  continuation of a settled connection attempt is a promise callback: it runs before the next
  socket or timer event of the connection's lifecycle.
\<close>

datatype ('v, 'j) event =
    EvSubmit "('v, 'j) task" bool
  | EvData bytes
  | EvMicrotaskFlush
  | EvDrain
  | EvWriteStop
  | EvTimeout nat
  | EvAbort nat cerr
  | EvStreamReturn nat bool
  | EvCancelOutcome nat bool
  | EvCancelTimer
  | EvSocketClose cerr
  | EvConnect
  | EvTransport "js_error + bytes"
  | EvConnectFail cerr
  | EvAttemptSettled
  | EvBackoffOver
  | EvEnd
  | EvDestroyed

text \<open>A task as the entry points build it: nothing received, nothing settled.\<close>

definition fresh_task :: "('v, 'j) task \<Rightarrow> bool" where
  "fresh_task t \<longleftrightarrow> \<not> t_settled t \<and> t_retries t = 0 \<and> t_error t = None \<and> \<not> t_timer t \<and> \<not> t_graceTimer t \<and>
     t_cacheName t = None"

definition conn_apply :: "('v, 'j) conn_env \<Rightarrow> ('v, 'j) event \<Rightarrow> ('v, 'j) conn \<Rightarrow> ('v, 'j) conn option" where
  "conn_apply env ev c = (case ev of
       EvSubmit t aborted \<Rightarrow> if fresh_task t then Some (submit env t aborted c) else None
     | EvData b \<Rightarrow> if c_socket c \<and> c_attempt c = None then onData env b c else None
     | EvMicrotaskFlush \<Rightarrow> if c_flushScheduled c then Some (flushWrites env (c\<lparr>c_flushScheduled := False\<rparr>)) else None
     | EvDrain \<Rightarrow> if c_writeBackedUp c then Some (processQueue env (c\<lparr>c_writeBackedUp := False\<rparr>)) else None
     | EvWriteStop \<Rightarrow> Some (c\<lparr>c_writeBackedUp := False\<rparr>)
     | EvTimeout i \<Rightarrow> if i < c_next c \<and> t_timer (c_tasks c i)
                      then Some (cancelTask env i (AppErr ''query timed out'') c) else None
     | EvAbort i e \<Rightarrow> if i < c_next c then Some (cancelTask env i e c) else None
     | EvStreamReturn i finished \<Rightarrow> if i < c_next c \<and> t_stream (c_tasks c i)
                                    then Some (stream_return env i finished c) else None
     | EvCancelOutcome n ok \<Rightarrow> Some (cancel_outcome env n ok c)
     | EvCancelTimer \<Rightarrow> (case c_pendingCancel c of
           Some p \<Rightarrow> if pc_timer p then Some (processQueue env (c\<lparr>c_isRetiring := True\<rparr>)) else None
         | None \<Rightarrow> None)
     | EvSocketClose e \<Rightarrow> if c_socket c \<and> c_attempt c = None then Some (onSocketDown env e c) else None
     | EvConnect \<Rightarrow> Some (connect c)
     | EvTransport s \<Rightarrow> if c_attempt c = None then Some (transport_ready s c) else None
     | EvConnectFail e \<Rightarrow> if c_attempt c = None then Some (failAttempt e c) else None
     | EvAttemptSettled \<Rightarrow> map_option (\<lambda>r. attempt_settled env r c) (c_attempt c)
     | EvBackoffOver \<Rightarrow> if c_attempt c = None then Some (backoff_over c) else None
     | EvEnd \<Rightarrow> Some (end_conn c)
     | EvDestroyed \<Rightarrow> if c_state c = Closed then Some (c\<lparr>c_socket := False\<rparr>) else None)"

inductive conn_step :: "('v, 'j) conn_env \<Rightarrow> ('v, 'j) conn \<Rightarrow> ('v, 'j) conn \<Rightarrow> bool" for env where
  conn_event: "conn_apply env ev c = Some c' \<Longrightarrow> conn_step env c c'"

inductive_cases conn_stepE: "conn_step env c c'"

end
