(* ===== verification/Conn_Invariant.thy ===== *)
theory Conn_Invariant
  imports Conn_Handle
begin

section \<open>Invariants of the connection\<close>

text \<open>
  The bookkeeping of tasks, proved for every reachable state: a submitted task is in the queue,
  in flight, or its caller has been settled; a task that still waits was not settled before; at
  most \<open>pipelineDepth\<close> tasks are in flight; a stream or COPY is alone in flight; a closed
  connection holds no task, so no caller is left waiting.

  \<open>core\<close> is the part of the state the invariant looks at. Most handlers leave it alone,
  which is shown once for each of them.
\<close>

definition tcore :: "('v, 'j) task \<Rightarrow> bool \<times> nat \<times> bool \<times> bool" where
  "tcore t = (t_settled t, t_retries t, t_stream t, t_copySource t)"

definition core where
  "core c = (c_queue c, c_inflight c, c_log c, c_next c, (\<lambda>i. tcore (c_tasks c i)),
     c_state c, c_connecting c, c_pendingCancel c, c_isRetiring c, c_loop c, c_socket c, c_attempt c,
     c_connectCalled c, c_ended c, c_everConnected c)"

named_theorems core_simps \<open>handlers that leave the bookkeeping alone\<close>

lemma coreD:
  assumes "core c = core c'"
  shows "c_queue c = c_queue c'" "c_inflight c = c_inflight c'" "c_log c = c_log c'" "c_next c = c_next c'"
    "c_state c = c_state c'" "c_connecting c = c_connecting c'" "c_pendingCancel c = c_pendingCancel c'"
    "c_isRetiring c = c_isRetiring c'" "c_loop c = c_loop c'" "c_socket c = c_socket c'"
    "c_attempt c = c_attempt c'" "c_connectCalled c = c_connectCalled c'" "c_ended c = c_ended c'"
    "c_everConnected c = c_everConnected c'" "tcore (c_tasks c i) = tcore (c_tasks c' i)"
  using assms by (auto simp: core_def fun_eq_iff)

lemma core_tasks: "core c = core c' \<Longrightarrow> t_settled (c_tasks c i) = t_settled (c_tasks c' i) \<and>
    t_retries (c_tasks c i) = t_retries (c_tasks c' i) \<and> solo (c_tasks c i) = solo (c_tasks c' i)"
  using coreD(15) [of c c' i] by (auto simp: tcore_def solo_def)

lemma core_upd_task [core_simps]: "(\<And>t. tcore (f t) = tcore t) \<Longrightarrow> core (upd_task i f c) = core c"
  by (auto simp: core_def upd_task_def fun_eq_iff)

subsection \<open>Serialisation leaves the bookkeeping alone\<close>

definition keeps_core :: "('v, 'j, 'a) cop \<Rightarrow> bool" where
  "keeps_core m \<longleftrightarrow> (\<forall>c. core (snd (m c)) = core c)"

lemma keeps_core_cret: "keeps_core (cret x)"
  by (simp add: keeps_core_def cret_def)

lemma keeps_core_cbind: "keeps_core m \<Longrightarrow> (\<And>x. keeps_core (f x)) \<Longrightarrow> keeps_core (cbind m f)"
  unfolding keeps_core_def by (auto simp: cbind_def split: prod.splits sum.splits) (metis snd_conv)+

lemma keeps_core_cmod: "(\<And>c. core (f c) = core c) \<Longrightarrow> keeps_core (cmod f)"
  by (simp add: keeps_core_def cmod_def)

lemma keeps_core_cwrite: "keeps_core (cwrite m)"
  by (simp add: keeps_core_def cwrite_def core_def split: prod.splits)

lemma keeps_coreI: "(\<And>c. core (snd (m c)) = core c) \<Longrightarrow> keeps_core m"
  by (simp add: keeps_core_def)

lemma keeps_coreD: "keeps_core m \<Longrightarrow> core (snd (m c)) = core c"
  by (simp add: keeps_core_def)

lemmas keeps_core_intros = keeps_core_cret keeps_core_cbind keeps_core_cmod keeps_core_cwrite

lemma keeps_core_assignMapper: "keeps_core (assignMapper env i cols)"
  by (rule keeps_coreI) (auto simp: assignMapper_def tcore_def intro!: core_simps split: sum.splits)

lemma keeps_core_reuse: "keeps_core (reuse_statement env i entry)"
proof -
  have "keeps_core (\<lambda>c. let t = c_tasks c i; fs = pe_fields entry in
       if t_typed t then
         (case (t_shapeCols t, t_mapper t) of
            (Some cols, None) \<Rightarrow> assignMapper env i (mergeUnknownCols cols fs) c
          | _ \<Rightarrow> (Inr (), c))
       else if t_binary t then assignMapper env i (fields_cols (\<lambda>_. True) fs) c
       else if t_mode t = MArray \<or> t_mode t = MObject then
         let cols = resolveCols env (fields_cols (\<lambda>f. f_dataTypeOid f \<in> set (e_reuseBinaryOids env)) fs) in
         cbind (assignMapper env i cols)
           (\<lambda>_. cmod (upd_task i (\<lambda>t. t\<lparr>t_resultFormat := Some (RF_each (map (\<lambda>c. if cc_binary c then 1 else 0) cols))\<rparr>))) c
       else assignMapper env i (fields_cols (\<lambda>_. False) fs) c)" (is "keeps_core ?m")
  proof (rule keeps_coreI)
    fix c
    have b: "keeps_core (cbind (assignMapper env i cols) (\<lambda>_. cmod (upd_task i (\<lambda>t. t\<lparr>t_resultFormat := r\<rparr>))))"
      for cols r by (intro keeps_core_intros keeps_core_assignMapper core_upd_task) (simp add: tcore_def)
    show "core (snd (?m c)) = core c"
      by (auto simp: Let_def keeps_coreD [OF keeps_core_assignMapper] keeps_coreD [OF b]
          split: option.splits)
  qed
  then show ?thesis unfolding reuse_statement_def
    by (intro keeps_core_cbind keeps_core_cmod core_upd_task) (simp_all add: tcore_def)
qed

lemma keeps_core_lookup: "keeps_core (lookup_statement env i)"
proof (rule keeps_coreI)
  fix c :: "('a, 'b) conn"
  have r: "keeps_core (cbind (reuse_statement env i entry) (\<lambda>_. cret (Some entry)))" for entry
    by (intro keeps_core_intros keeps_core_reuse)
  have d: "keeps_core (cbind (cwrite (writeClose 83 n)) (\<lambda>_. cbind (cmod (\<lambda>c. upd_task i (\<lambda>t. t\<lparr>t_reprepared := True\<rparr>)
                      (c\<lparr>c_prepared := (c_prepared c)(n := None)\<rparr>))) (\<lambda>_. cret None)))" for n
    by (intro keeps_core_intros trans [OF core_upd_task]) (simp_all add: tcore_def core_def)
  show "core (snd (lookup_statement env i c)) = core c"
    using keeps_coreD [OF r] keeps_coreD [OF d]
    by (auto simp: lookup_statement_def Let_def split: option.splits)
qed

lemma keeps_core_close_stale: "keeps_core (close_stale n)"
proof (rule keeps_coreI)
  fix c :: "('a, 'b) conn"
  have "keeps_core (cbind (cwrite (writeClose 83 n)) (\<lambda>_. cmod (\<lambda>c. c\<lparr>c_stale := c_stale c - {n}\<rparr>)) :: ('a, 'b, unit) cop)"
    by (intro keeps_core_intros) (simp add: core_def)
  then show "core (snd (close_stale n c)) = core c" by (simp add: close_stale_def keeps_core_def)
qed

lemma keeps_core_parse_named: "keeps_core (parse_named i n)"
proof (rule keeps_coreI)
  fix c :: "('a, 'b) conn"
  have "keeps_core (cbind (if c_parseInflight c n \<noteq> None
         then cbind (cwrite (writeClose 83 n)) (\<lambda>_. cmod (\<lambda>c. c\<lparr>c_parseInflight := (c_parseInflight c)(n := None)\<rparr>))
         else cret ())
       (\<lambda>_. cbind (cwrite (writeParse n (t_sql (c_tasks c i)) (case t_paramTypes (c_tasks c i) of Some os \<Rightarrow> os | None \<Rightarrow> [])))
       (\<lambda>_. cret (Some n))) :: ('a, 'b, jsstr option) cop)"
    by (auto intro!: keeps_core_intros simp: core_def)
  from keeps_coreD [OF this, of c] show "core (snd (parse_named i n c)) = core c"
    by (simp only: parse_named_def Let_def) simp
qed

lemma keeps_core_prepare: "keeps_core (prepare_statement i)"
proof (rule keeps_coreI)
  fix c :: "('a, 'b) conn"
  have a: "keeps_core (cbind (close_stale n) (\<lambda>_. cbind (parse_named i n) (\<lambda>parsed.
            cbind (cwrite (writeDescribe 83 n)) (\<lambda>_.
            cbind (cmod (upd_task i (\<lambda>t. t\<lparr>t_cacheName := Some n\<rparr>))) (\<lambda>_. cret parsed)))))" for n
    by (intro keeps_core_intros keeps_core_close_stale keeps_core_parse_named core_upd_task) (simp add: tcore_def)
  have b: "keeps_core (cbind (cwrite m) (\<lambda>_. cbind (cwrite (writeDescribe 83 [])) (\<lambda>_. cret None)))" for m
    by (intro keeps_core_intros)
  show "core (snd (prepare_statement i c)) = core c"
    using keeps_coreD [OF a] keeps_coreD [OF b]
    by (auto simp: prepare_statement_def Let_def split: option.splits)
qed

lemma keeps_core_serialize: "keeps_core (serialize_task env i)"
proof (rule keeps_coreI)
  fix c :: "('a, 'b) conn"
  have x: "keeps_core (\<lambda>c. cwrite (write_execution env (c_tasks c i) entry) c)" for entry
    by (rule keeps_coreI) (rule keeps_coreD [OF keeps_core_cwrite])
  have p: "keeps_core (cmod (\<lambda>c. case parsed of None \<Rightarrow> c
      | Some n \<Rightarrow> c\<lparr>c_parseInflight := (c_parseInflight c)(n \<mapsto> parseKey (c_tasks c i))\<rparr>))" for parsed
    by (rule keeps_core_cmod) (simp add: core_def split: option.splits)
  have "keeps_core (cbind (lookup_statement env i) (\<lambda>entry.
           cbind (if entry = None then prepare_statement i else cret None) (\<lambda>parsed.
           cbind (cmod (upd_task i (\<lambda>t. t\<lparr>t_reused := (entry \<noteq> None)\<rparr>))) (\<lambda>_.
           cbind (\<lambda>c. cwrite (write_execution env (c_tasks c i) entry) c) (\<lambda>_.
           cmod (\<lambda>c. case parsed of None \<Rightarrow> c
                     | Some n \<Rightarrow> c\<lparr>c_parseInflight := (c_parseInflight c)(n \<mapsto> parseKey (c_tasks c i))\<rparr>))))))"
    by (intro keeps_core_cbind keeps_core_lookup x p keeps_core_cmod core_upd_task)
       (auto simp: tcore_def keeps_core_prepare keeps_core_cret)
  then show "core (snd (serialize_task env i c)) = core c"
    using keeps_coreD [OF keeps_core_cwrite]
    by (auto simp: serialize_task_def Let_def keeps_core_def)
qed


lemma serialize_core: "serialize_task env i c = (r, c') \<Longrightarrow> core c' = core c"
  using keeps_coreD [OF keeps_core_serialize, of env i c] by simp

subsection \<open>The invariant\<close>

definition logged :: "('v, 'j) conn \<Rightarrow> nat set" where
  "logged c = fst ` set (c_log c)"

text \<open>The parts of the invariant, over plain values so that a handler's effect can be looked at alone:
  the queue, the in-flight FIFO, the settled callers, the number of tasks and the tasks' flags.
  \<open>X\<close> are tasks that \<open>finishTask\<close> has taken out of the pipeline and is still working on;
  between events it is empty.\<close>

definition tasks_ok :: "nat set \<Rightarrow> nat list \<Rightarrow> nat list \<Rightarrow> nat set \<Rightarrow> nat \<Rightarrow> (nat \<Rightarrow> bool) \<Rightarrow> (nat \<Rightarrow> nat) \<Rightarrow> bool" where
  "tasks_ok X q fl L n settled retries \<longleftrightarrow> distinct (q @ fl) \<and>
     (\<forall>i \<in> set q. i < n \<and> \<not> settled i \<and> i \<notin> L \<and> i \<notin> X) \<and>
     (\<forall>i \<in> set fl. i < n \<and> (settled i \<longleftrightarrow> i \<in> L) \<and> i \<notin> X) \<and>
     (\<forall>i \<in> X. i < n \<and> (settled i \<longleftrightarrow> i \<in> L)) \<and>
     (\<forall>i < n. i \<in> set q \<union> set fl \<union> L \<union> X) \<and>
     L \<subseteq> {..<n} \<and>
     (\<forall>i < n. retries i \<le> 1)"

definition pipe_ok :: "nat \<Rightarrow> nat list \<Rightarrow> (nat \<Rightarrow> bool) \<Rightarrow> bool" where
  "pipe_ok depth fl is_solo \<longleftrightarrow> length fl \<le> depth \<and> (\<forall>i \<in> set fl. is_solo i \<longrightarrow> fl = [i])"

definition life_ok :: "nat list \<Rightarrow> nat list \<Rightarrow> conn_state \<Rightarrow> bool \<Rightarrow> bool \<Rightarrow> reconnect_loop \<Rightarrow> cerr option option \<Rightarrow> bool \<Rightarrow> bool" where
  "life_ok q fl st connecting socket loop attempt called \<longleftrightarrow> (fl \<noteq> [] \<longrightarrow> st = Ready) \<and>
     (st = Ready \<longrightarrow> \<not> connecting) \<and>
     (st = Closed \<longrightarrow> q = []) \<and>
     (connecting \<or> socket \<or> st \<in> {Connecting, Ready, Reconnecting} \<or> loop \<noteq> NoLoop \<or> attempt \<noteq> None \<longrightarrow> called) \<and>
     (\<forall>n e. loop = Backoff n e \<longrightarrow> \<not> connecting \<and> st \<noteq> Ready) \<and>
     (\<forall>e. attempt = Some (Some e) \<longrightarrow> \<not> connecting \<and> st \<noteq> Ready)"

definition cancel_ok :: "nat \<Rightarrow> pending_cancel option \<Rightarrow> (nat \<Rightarrow> bool) \<Rightarrow> bool" where
  "cancel_ok n p settled \<longleftrightarrow> (case p of None \<Rightarrow> True
     | Some q \<Rightarrow> (case pc_head q of None \<Rightarrow> True | Some i \<Rightarrow> i < n \<and> settled i))"

definition conn_inv :: "('v, 'j) conn_env \<Rightarrow> nat set \<Rightarrow> ('v, 'j) conn \<Rightarrow> bool" where
  "conn_inv env X c \<longleftrightarrow>
     tasks_ok X (c_queue c) (c_inflight c) (logged c) (c_next c) (\<lambda>i. t_settled (c_tasks c i)) (\<lambda>i. t_retries (c_tasks c i)) \<and>
     pipe_ok (e_pipelineDepth env) (c_inflight c) (\<lambda>i. solo (c_tasks c i)) \<and>
     life_ok (c_queue c) (c_inflight c) (c_state c) (c_connecting c) (c_socket c) (c_loop c) (c_attempt c) (c_connectCalled c) \<and>
     cancel_ok (c_next c) (c_pendingCancel c) (\<lambda>i. t_settled (c_tasks c i))"

lemma conn_inv_core: "core c' = core c \<Longrightarrow> conn_inv env X c' = conn_inv env X c"
proof -
  assume a: "core c' = core c"
  have t: "t_settled (c_tasks c' i) = t_settled (c_tasks c i)" "t_retries (c_tasks c' i) = t_retries (c_tasks c i)"
    "solo (c_tasks c' i) = solo (c_tasks c i)" for i using core_tasks [OF a] by auto
  have "logged c' = logged c" by (simp only: logged_def coreD(3) [OF a])
  then show ?thesis by (simp only: conn_inv_def t coreD(1,2,4-12) [OF a])
qed

lemma conn_inv_coreI: "conn_inv env X c \<Longrightarrow> core c' = core c \<Longrightarrow> conn_inv env X c'"
  using conn_inv_core [of c' c env] by simp

text \<open>How the parts change.\<close>

lemma tasks_ok_drop:
  "tasks_ok X q fl L n s r \<Longrightarrow> tasks_ok X q [] (L \<union> {i \<in> set fl. \<not> s i}) n s r"
  by (auto simp: tasks_ok_def)

lemma tasks_ok_reject_queue: "tasks_ok X q fl L n s r \<Longrightarrow> tasks_ok X [] fl (L \<union> set q) n s r"
  by (auto simp: tasks_ok_def)

lemma tasks_ok_reject_head: "tasks_ok X (i # q) fl L n s r \<Longrightarrow> tasks_ok X q fl (insert i L) n s r"
  by (auto simp: tasks_ok_def)

lemma tasks_ok_start: "tasks_ok X (i # q) fl L n s r \<Longrightarrow> tasks_ok X q (fl @ [i]) L n s r"
  by (auto simp: tasks_ok_def)

lemma pipe_ok_Nil [simp]: "pipe_ok d [] s"
  by (simp add: pipe_ok_def)

lemma pipe_ok_tl: "pipe_ok d (i # fl) s \<Longrightarrow> pipe_ok d fl s"
  by (cases fl) (auto simp: pipe_ok_def)

lemma cancel_ok_None [simp]: "cancel_ok n None s"
  by (simp add: cancel_ok_def)

lemma logged_settle [simp]: "logged (settle i s c) = insert i (logged c)"
  by (auto simp: logged_def settle_def)

text \<open>Rejecting a list of queued tasks.\<close>

lemma fold_reject:
  "fold (\<lambda>i. rejectTask i e) is c = c\<lparr>c_log := c_log c @ map (\<lambda>i. (i, Rejected e)) is\<rparr>"
  by (induction "is" arbitrary: c) (auto simp: rejectTask_def settle_def)

lemma rejectQueue_eq:
  "rejectQueue e c = c\<lparr>c_log := c_log c @ map (\<lambda>i. (i, Rejected e)) (c_queue c), c_queue := []\<rparr>"
  by (simp add: rejectQueue_def fold_reject)

text \<open>Dropping the in-flight tasks: only the timers of their task objects change.\<close>

definition drop_entry :: "cerr \<Rightarrow> ('v, 'j) conn \<Rightarrow> nat \<Rightarrow> (nat \<times> 'j settlement) list" where
  "drop_entry e c i = (if t_settled (c_tasks c i) then []
     else [(i, Rejected (case t_error (c_tasks c i) of Some s \<Rightarrow> s | None \<Rightarrow> e))])"

definition calm :: "nat list \<Rightarrow> (nat \<Rightarrow> ('v, 'j) task) \<Rightarrow> nat \<Rightarrow> ('v, 'j) task" where
  "calm is ts i = (if i \<in> set is then (ts i)\<lparr>t_timer := False, t_graceTimer := False\<rparr> else ts i)"

lemma fold_drop_inflight:
  "distinct is \<Longrightarrow> fold (drop_inflight e) is c =
     c\<lparr>c_tasks := calm is (c_tasks c), c_log := c_log c @ concat (map (drop_entry e c) is)\<rparr>"
proof (induction "is" arbitrary: c)
  case Nil
  then show ?case by (simp add: calm_def)
next
  case (Cons i "is")
  let ?c = "drop_inflight e i c"
  have t: "c_tasks ?c = calm [i] (c_tasks c)"
    by (auto simp: drop_inflight_def Let_def rejectTask_def settle_def clear_timers_def upd_task_def calm_def fun_eq_iff)
  have l: "c_log ?c = c_log c @ drop_entry e c i"
    by (auto simp: drop_inflight_def Let_def rejectTask_def settle_def clear_timers_def upd_task_def drop_entry_def)
  have m: "map (drop_entry e ?c) is = map (drop_entry e c) is"
    using Cons.prems by (auto simp: drop_entry_def t calm_def)
  have k: "calm is (c_tasks ?c) = calm (i # is) (c_tasks c)"
    using Cons.prems by (auto simp: t calm_def fun_eq_iff)
  have u: "?c\<lparr>c_tasks := A, c_log := B\<rparr> = c\<lparr>c_tasks := A, c_log := B\<rparr>" for A B
    by (auto simp: drop_inflight_def Let_def rejectTask_def settle_def clear_timers_def upd_task_def)
  show ?case using Cons.prems by (simp add: Cons.IH u k m l)
qed

lemma drop_all_inflight_eq:
  "distinct (c_inflight c) \<Longrightarrow> drop_all_inflight e c =
     c\<lparr>c_tasks := calm (c_inflight c) (c_tasks c),
       c_log := c_log c @ concat (map (drop_entry e c) (c_inflight c)), c_inflight := []\<rparr>"
  by (simp add: drop_all_inflight_def fold_drop_inflight)

lemma tcore_calm [simp]: "tcore (calm is ts i) = tcore (ts i)"
  by (simp add: calm_def tcore_def)

lemma calm_simps [simp]:
  "t_settled (calm is ts i) = t_settled (ts i)" "t_retries (calm is ts i) = t_retries (ts i)"
  "solo (calm is ts i) = solo (ts i)"
  by (simp_all add: calm_def solo_def)

lemma drop_entries: "fst ` set (concat (map (drop_entry e c) is)) = {i \<in> set is. \<not> t_settled (c_tasks c i)}"
  by (auto simp: drop_entry_def image_iff split: if_splits)


subsection \<open>Preservation: losing the socket, dispatching\<close>

lemma conn_inv_distinct: "conn_inv env X c \<Longrightarrow> distinct (c_inflight c)"
  by (simp add: conn_inv_def tasks_ok_def)

lemma inv_failAttempt: "conn_inv env X c \<Longrightarrow> conn_inv env X (failAttempt e c)"
  by (auto simp: failAttempt_def conn_inv_def logged_def life_ok_def)

lemma inv_rejectQueue_closed:
  assumes "conn_inv env X c" "c_state c \<noteq> Ready"
  shows "conn_inv env X (rejectQueue e (c\<lparr>c_state := Closed\<rparr>)\<lparr>c_loop := NoLoop\<rparr>)"
    "conn_inv env X (rejectQueue e (c\<lparr>c_state := Closed\<rparr>))"
proof -
  have l: "life_ok [] (c_inflight c) Closed (c_connecting c) (c_socket c) loop (c_attempt c) (c_connectCalled c)"
    if "loop = NoLoop \<or> loop = c_loop c" for loop
    using assms that unfolding conn_inv_def by (auto simp: life_ok_def)
  show "conn_inv env X (rejectQueue e (c\<lparr>c_state := Closed\<rparr>)\<lparr>c_loop := NoLoop\<rparr>)"
    "conn_inv env X (rejectQueue e (c\<lparr>c_state := Closed\<rparr>))"
    using assms l [of NoLoop] l [of "c_loop c"]
    by (simp_all add: rejectQueue_eq conn_inv_def logged_def image_Un image_image tasks_ok_reject_queue)
qed

lemma inv_reconnect_round:
  assumes "conn_inv env X c" "c_state c \<noteq> Ready" "\<not> c_connecting c" "c_connectCalled c"
  shows "conn_inv env X (reconnect_round env n e c)"
proof -
  have "life_ok (c_queue c) (c_inflight c) (c_state c) (c_connecting c) (c_socket c) loop (c_attempt c) (c_connectCalled c)"
    for loop using assms unfolding conn_inv_def by (auto simp: life_ok_def)
  then have "conn_inv env X (c\<lparr>c_loop := loop\<rparr>)" for loop using assms(1) by (simp add: conn_inv_def logged_def)
  then show ?thesis using inv_rejectQueue_closed(1) [OF assms(1,2)]
    by (auto simp: reconnect_round_def split: option.splits)
qed

text \<open>The state right after every in-flight task has been dropped.\<close>

lemma inv_drop:
  assumes "conn_inv env X c"
  shows "conn_inv env X (drop_all_inflight e c)" "c_inflight (drop_all_inflight e c) = []"
proof -
  note eq = drop_all_inflight_eq [OF conn_inv_distinct [OF assms], of e]
  have "life_ok (c_queue c) [] (c_state c) (c_connecting c) (c_socket c) (c_loop c) (c_attempt c) (c_connectCalled c)"
    using assms unfolding conn_inv_def by (auto simp: life_ok_def)
  moreover have "logged (drop_all_inflight e c) = logged c \<union> {i \<in> set (c_inflight c). \<not> t_settled (c_tasks c i)}"
    unfolding eq logged_def using drop_entries [of e c "c_inflight c"] by (simp add: image_Un del: set_concat)
  ultimately show "conn_inv env X (drop_all_inflight e c)"
    using assms by (simp add: conn_inv_def tasks_ok_drop eq)
  show "c_inflight (drop_all_inflight e c) = []" by (simp add: eq)
qed

lemma drop_all_fields:
  assumes "conn_inv env X c"
  shows "c_state (drop_all_inflight e c) = c_state c" "c_connecting (drop_all_inflight e c) = c_connecting c"
    "c_connectCalled (drop_all_inflight e c) = c_connectCalled c" "c_queue (drop_all_inflight e c) = c_queue c"
    "c_attempt (drop_all_inflight e c) = c_attempt c"
  using drop_all_inflight_eq [OF conn_inv_distinct [OF assms], of e] by simp_all

lemma inv_state_change:
  assumes "conn_inv env X c" "c_inflight c = []" "\<not> c_connecting c" "c_connectCalled c" "st \<noteq> Ready"
    "st = Closed \<Longrightarrow> c_queue c = []"
  shows "conn_inv env X (c\<lparr>c_state := st, c_prepared := p, c_stale := s, c_parseInflight := i\<rparr>)"
proof -
  have "life_ok (c_queue c) [] st False (c_socket c) (c_loop c) (c_attempt c) True"
    using assms unfolding conn_inv_def by (auto simp: life_ok_def)
  with assms show ?thesis by (simp add: conn_inv_def logged_def)
qed

lemma inv_onSocketDown:
  assumes c: "conn_inv env X c" and called: "c_connectCalled c"
  shows "conn_inv env X (onSocketDown env e c)"
proof (cases "c_state c = Closed \<or> c_connecting c")
  case True
  then show ?thesis using c by (auto simp: onSocketDown_def inv_failAttempt)
next
  case False
  define c2 where "c2 = (clearPendingCancel c)\<lparr>c_socket := False, c_out := (c_out (clearPendingCancel c))\<lparr>woff := 0\<rparr>\<rparr>"
  define c3 where "c3 = drop_all_inflight e c2"
  have "life_ok (c_queue c) (c_inflight c) (c_state c) (c_connecting c) False (c_loop c) (c_attempt c) (c_connectCalled c)"
    using c unfolding conn_inv_def by (auto simp: life_ok_def)
  then have c2: "conn_inv env X c2" using c by (simp add: c2_def clearPendingCancel_def conn_inv_def logged_def)
  have c3: "conn_inv env X c3" "c_inflight c3 = []" using inv_drop [OF c2] by (simp_all add: c3_def)
  have f: "\<not> c_connecting c3" "c_connectCalled c3" "c_state c3 \<noteq> Closed"
    using False called drop_all_fields [OF c2, of e] by (simp_all add: c3_def c2_def clearPendingCancel_def)
  let ?r = "c3\<lparr>c_state := Reconnecting, c_prepared := (\<lambda>_. None), c_stale := {}, c_parseInflight := (\<lambda>_. None)\<rparr>"
  have r: "conn_inv env X ?r" using c3 f by (intro inv_state_change) auto
  then have "conn_inv env X (startReconnect env e ?r)"
    unfolding startReconnect_def using f by (intro inv_reconnect_round) auto
  moreover have "conn_inv env X (rejectQueue e (c3\<lparr>c_state := Closed\<rparr>))"
  proof -
    let ?i = "c3\<lparr>c_state := Idle\<rparr>"
    have "conn_inv env X (c3\<lparr>c_state := Idle, c_prepared := c_prepared c3, c_stale := c_stale c3, c_parseInflight := c_parseInflight c3\<rparr>)"
      using c3 f by (intro inv_state_change) auto
    then have "conn_inv env X ?i" by (rule conn_inv_coreI) (simp add: core_def)
    from inv_rejectQueue_closed(2) [OF this, of e] show ?thesis by simp
  qed
  moreover have "onSocketDown env e c = (if e_reconnect env \<and> \<not> c_ended c3 then startReconnect env e ?r
      else rejectQueue e (c3\<lparr>c_state := Closed\<rparr>))"
    using False by (simp add: onSocketDown_def Let_def c3_def c2_def)
  ultimately show ?thesis by simp
qed

lemma core_sock [core_simps]: "core (sock_write b c) = core c" "core (sock_try r c) = core c"
  by (simp_all add: sock_write_def sock_try_def core_def split: sum.splits)

lemma core_flush [core_simps]: "core (flushWrites env c) = core c"
  by (simp add: flushWrites_def Let_def core_def sock_write_def)

lemma core_scheduleFlush [core_simps]: "core (scheduleFlush c) = core c"
  by (simp add: scheduleFlush_def core_def)

lemma ready_called: "conn_inv env X c \<Longrightarrow> c_state c = Ready \<Longrightarrow> c_connectCalled c"
  by (simp add: conn_inv_def life_ok_def)

lemma inv_retire: "conn_inv env X c \<Longrightarrow> c_state c = Ready \<Longrightarrow> conn_inv env X (retire env c)"
  unfolding retire_def
  by (intro inv_onSocketDown conn_inv_coreI [OF _ core_sock(2)])
     (auto simp: coreD(12) [OF core_sock(2)] ready_called)

text \<open>Starting the head of the queue.\<close>

lemma solo_barrier:
  assumes "can_dispatch env c" "pipe_ok d (c_inflight c) (\<lambda>i. solo (c_tasks c i))" "c_queue c = i # q"
  shows "pipe_ok (e_pipelineDepth env) (c_inflight c @ [i]) (\<lambda>i. solo (c_tasks c i))"
proof (cases "c_inflight c")
  case Nil
  with assms show ?thesis by (auto simp: can_dispatch_def pipe_ok_def)
next
  case (Cons h tl)
  then have "\<not> solo (c_tasks c h)" "\<not> solo (c_tasks c i)" "length (c_inflight c) < e_pipelineDepth env"
    using assms by (auto simp: can_dispatch_def canStartNext_def split: if_splits)
  then show ?thesis using assms(2) Cons by (auto simp: pipe_ok_def)
qed

lemma inv_startTask:
  assumes c: "conn_inv env X c" and q: "c_queue c = i # q" and ready: "c_state c = Ready"
    and d: "can_dispatch env c"
  shows "conn_inv env X (startTask env i (c\<lparr>c_queue := q\<rparr>))" "c_state (startTask env i (c\<lparr>c_queue := q\<rparr>)) = Ready"
    "c_queue (startTask env i (c\<lparr>c_queue := q\<rparr>)) = q"
proof -
  obtain r c' where s: "serialize_task env i (c\<lparr>c_queue := q\<rparr>) = (r, c')" by fastforce
  note core = serialize_core [OF s]
  have t: "t_settled (c_tasks c' j) = t_settled (c_tasks c j)" "t_retries (c_tasks c' j) = t_retries (c_tasks c j)"
    "solo (c_tasks c' j) = solo (c_tasks c j)" for j using core_tasks [OF core, of j] by auto
  note f = coreD(1-12) [OF core, simplified]
  have l: "logged c' = logged c" using f(3) by (simp add: logged_def)
  have lq: "life_ok q fl Ready (c_connecting c) (c_socket c) (c_loop c) (c_attempt c) (c_connectCalled c)" for fl
    using c ready unfolding conn_inv_def by (auto simp: life_ok_def)
  have ok: "tasks_ok X (i # q) (c_inflight c) (logged c) (c_next c) (\<lambda>i. t_settled (c_tasks c i)) (\<lambda>i. t_retries (c_tasks c i))"
    using c q by (simp add: conn_inv_def)
  have pipe: "pipe_ok (e_pipelineDepth env) (c_inflight c @ [i]) (\<lambda>i. solo (c_tasks c i))"
    using d c q by (intro solo_barrier) (auto simp: conn_inv_def)
  have canc: "cancel_ok (c_next c) (c_pendingCancel c) (\<lambda>i. t_settled (c_tasks c i))" using c by (simp add: conn_inv_def)
  show "conn_inv env X (startTask env i (c\<lparr>c_queue := q\<rparr>))"
  proof (cases r)
    case (Inl e)
    have pn: "pipe_ok (e_pipelineDepth env) (c_inflight c) (\<lambda>i. solo (c_tasks c i))" using c by (simp add: conn_inv_def)
    show ?thesis using tasks_ok_reject_head [OF ok] lq [of "c_inflight c"] canc pn ready
      by (simp add: startTask_def s Inl Let_def rejectTask_def settle_def conn_inv_def t f logged_def)
  next
    case (Inr u)
    have [simp]: "t_settled (((c_tasks c')(i := c_tasks c' i\<lparr>t_timer := x\<rparr>)) j) = t_settled (c_tasks c j)"
      "t_retries (((c_tasks c')(i := c_tasks c' i\<lparr>t_timer := x\<rparr>)) j) = t_retries (c_tasks c j)"
      "solo (((c_tasks c')(i := c_tasks c' i\<lparr>t_timer := x\<rparr>)) j) = solo (c_tasks c j)" for j x
      using t [of j] by (auto simp: solo_def)
    show ?thesis using tasks_ok_start [OF ok] lq [of "c_inflight c @ [i]"] canc pipe ready
      by (simp add: startTask_def s Inr Let_def upd_task_def conn_inv_def f logged_def del: fun_upd_apply)
  qed
  show "c_state (startTask env i (c\<lparr>c_queue := q\<rparr>)) = Ready" "c_queue (startTask env i (c\<lparr>c_queue := q\<rparr>)) = q"
    using f ready by (cases r; simp add: startTask_def s Let_def upd_task_def rejectTask_def settle_def)+
qed


lemma inv_dispatch_one:
  assumes "conn_inv env X c" "c_state c = Ready" "can_dispatch env c"
  shows "conn_inv env X (dispatch_one env c)" "c_state (dispatch_one env c) = Ready"
    "c_queue (dispatch_one env c) = tl (c_queue c)"
proof -
  obtain i q where q: "c_queue c = i # q" using assms(3) by (cases "c_queue c") (auto simp: can_dispatch_def)
  note s = inv_startTask [OF assms(1) q assms(2,3)]
  show "conn_inv env X (dispatch_one env c)"
    using s(1) by (auto simp: dispatch_one_def Let_def q intro: conn_inv_coreI [OF _ core_flush])
  show "c_state (dispatch_one env c) = Ready" "c_queue (dispatch_one env c) = tl (c_queue c)"
    using s by (simp_all add: dispatch_one_def Let_def q coreD(1) [OF core_flush] coreD(5) [OF core_flush])
qed

lemma inv_dispatch:
  "conn_inv env X c \<Longrightarrow> c_state c = Ready \<Longrightarrow> conn_inv env X (dispatch n env c) \<and> c_state (dispatch n env c) = Ready"
  by (induction n arbitrary: c) (auto simp: inv_dispatch_one)

text \<open>The loop has ended when its rounds are used up: nothing that could be dispatched is left.\<close>

lemma dispatch_done:
  "conn_inv env X c \<Longrightarrow> c_state c = Ready \<Longrightarrow> length (c_queue c) \<le> n \<Longrightarrow> \<not> can_dispatch env (dispatch n env c)"
proof (induction n arbitrary: c)
  case 0
  then show ?case by (simp add: can_dispatch_def)
next
  case (Suc n)
  show ?case
  proof (cases "can_dispatch env c")
    case True
    from inv_dispatch_one [OF Suc.prems(1,2) True] Suc.prems(3) show ?thesis
      using True Suc.IH [of "dispatch_one env c"] by simp
  qed simp
qed

lemma inv_processQueue: "conn_inv env X c \<Longrightarrow> conn_inv env X (processQueue env c)"
  using inv_dispatch [of env X c "length (c_queue c)"] inv_retire [of env X c]
  by (auto simp: processQueue_def Let_def intro: conn_inv_coreI [OF _ core_flush] conn_inv_coreI [OF _ core_scheduleFlush])

subsection \<open>Preservation: cancellation\<close>

lemma inv_retiring [simp]: "conn_inv env X (c\<lparr>c_isRetiring := b\<rparr>) = conn_inv env X c"
  by (simp add: conn_inv_def logged_def)

lemma inv_late [simp]: "conn_inv env X (c\<lparr>c_lateCancel := b\<rparr>) = conn_inv env X c"
  by (simp add: conn_inv_def logged_def)

lemma inv_clearPendingCancel: "conn_inv env X c \<Longrightarrow> conn_inv env X (clearPendingCancel c)"
  by (simp add: clearPendingCancel_def conn_inv_def logged_def)

lemma inv_pending:
  "conn_inv env X c \<Longrightarrow> cancel_ok (c_next c) p (\<lambda>i. t_settled (c_tasks c i)) \<Longrightarrow> conn_inv env X (c\<lparr>c_pendingCancel := p\<rparr>)"
  by (simp add: conn_inv_def logged_def)

lemma inv_sendCancelRequest:
  "conn_inv env X c \<Longrightarrow> t_settled (c_tasks c i) \<Longrightarrow> i < c_next c \<Longrightarrow> conn_inv env X (sendCancelRequest env i c)"
  by (simp add: sendCancelRequest_def conn_inv_def logged_def cancel_ok_def)

lemma inv_resolveCanceledHead: "conn_inv env X c \<Longrightarrow> conn_inv env X (resolveCanceledHead env p c)"
  by (simp add: resolveCanceledHead_def inv_processQueue inv_clearPendingCancel)

lemma inv_cancel_outcome: "conn_inv env X c \<Longrightarrow> conn_inv env X (cancel_outcome env n ok c)"
  by (cases "c_pendingCancel c")
     (auto simp: cancel_outcome_def Let_def conn_inv_def [of env X c] cancel_ok_def
       intro!: inv_resolveCanceledHead inv_pending split: option.splits)

lemma inv_endCanceledHead:
  assumes "conn_inv env X c"
  shows "conn_inv env X (endCanceledHead env i p c)"
proof -
  let ?c1 = "c\<lparr>c_pendingCancel := Some (p\<lparr>pc_head := None\<rparr>)\<rparr>"
  have c1: "conn_inv env X ?c1" using assms by (rule inv_pending) (simp add: cancel_ok_def)
  define c2 where "c2 = (if \<not> has_code (t_error (c_tasks c i)) ''57014'' \<and> c_inflight ?c1 \<noteq> []
      then ?c1\<lparr>c_lateCancel := Some (pc_id (p\<lparr>pc_head := None\<rparr>), set (c_inflight ?c1))\<rparr> else ?c1)"
  have c2: "conn_inv env X c2" using c1 by (simp add: c2_def)
  define c3 where "c3 = resolveCanceledHead env (p\<lparr>pc_head := None\<rparr>) c2"
  have c3: "conn_inv env X c3" using c2 by (simp add: c3_def inv_resolveCanceledHead)
  have "conn_inv env X (c3\<lparr>c_pendingCancel := Some (q\<lparr>pc_timer := True\<rparr>)\<rparr>)" if "c_pendingCancel c3 = Some q" for q
    using c3 by (rule inv_pending) (use c3 that in \<open>simp add: conn_inv_def cancel_ok_def\<close>)
  with c3 c2 inv_clearPendingCancel [OF c2] show ?thesis
    unfolding endCanceledHead_def Let_def c2_def [symmetric] c3_def [symmetric]
    by (auto split: option.splits)
qed

lemma core_task_error [core_simps]: "core (upd_task i (\<lambda>t. t\<lparr>t_error := e t\<rparr>) c) = core c"
  by (rule core_upd_task) (simp add: tcore_def)

lemma inv_checkLateCancel: "conn_inv env X c \<Longrightarrow> conn_inv env X (checkLateCancel i c)"
  by (auto simp: checkLateCancel_def Let_def split: option.splits
      intro: inv_clearPendingCancel conn_inv_coreI [OF _ core_task_error])

text \<open>Settling a task's caller by a cancel: in flight it stays there, in the queue it is removed, and
  elsewhere it was settled before.\<close>

lemma tasks_ok_cancel_inflight:
  "tasks_ok X q fl L n s r \<Longrightarrow> i \<in> set fl \<Longrightarrow> tasks_ok X q fl (insert i L) n (\<lambda>x. x \<noteq> i \<longrightarrow> s x) r"
  by (auto simp: tasks_ok_def)

lemma tasks_ok_cancel_queued:
  "tasks_ok X q fl L n s r \<Longrightarrow> i \<notin> set fl \<Longrightarrow> i < n \<Longrightarrow> tasks_ok X (removeAll i q) fl (insert i L) n (\<lambda>x. x \<noteq> i \<longrightarrow> s x) r"
  by (auto simp: tasks_ok_def distinct_removeAll)

lemma cancel_ok_mono: "cancel_ok n p s \<Longrightarrow> cancel_ok n p (\<lambda>x. x \<noteq> i \<longrightarrow> s x)"
  by (auto simp: cancel_ok_def split: option.splits)

lemma life_ok_shrink:
  "life_ok q fl st cn so lo at ca \<Longrightarrow> life_ok (removeAll i q) fl st cn so lo at ca"
  by (auto simp: life_ok_def)

lemma upd_flags:
  assumes "\<And>t. t_settled (f t)" "\<And>t. t_retries (f t) = t_retries t" "\<And>t. solo (f t) = solo t"
  shows "(\<lambda>j. t_settled (c_tasks (upd_task i f c) j)) = (\<lambda>j. j \<noteq> i \<longrightarrow> t_settled (c_tasks c j))"
    "(\<lambda>j. t_retries (c_tasks (upd_task i f c) j)) = (\<lambda>j. t_retries (c_tasks c j))"
    "(\<lambda>j. solo (c_tasks (upd_task i f c) j)) = (\<lambda>j. solo (c_tasks c j))"
  using assms by (auto simp: upd_task_def fun_eq_iff)

lemma upd_fields [simp]:
  "c_queue (upd_task i f c) = c_queue c" "c_inflight (upd_task i f c) = c_inflight c" "c_log (upd_task i f c) = c_log c"
  "c_next (upd_task i f c) = c_next c" "c_state (upd_task i f c) = c_state c" "c_connecting (upd_task i f c) = c_connecting c"
  "c_pendingCancel (upd_task i f c) = c_pendingCancel c" "c_loop (upd_task i f c) = c_loop c"
  "c_socket (upd_task i f c) = c_socket c" "c_attempt (upd_task i f c) = c_attempt c"
  "c_connectCalled (upd_task i f c) = c_connectCalled c" "c_isRetiring (upd_task i f c) = c_isRetiring c"
  "c_lateCancel (upd_task i f c) = c_lateCancel c" "c_txStatus (upd_task i f c) = c_txStatus c"
  by (simp_all add: upd_task_def)

lemma inv_cancelTask:
  assumes c: "conn_inv env X c" and i: "i < c_next c"
  shows "conn_inv env X (cancelTask env i reason c)"
proof (cases "t_settled (c_tasks c i)")
  case True
  with c show ?thesis by (simp add: cancelTask_def)
next
  case False
  let ?f = "\<lambda>t. t\<lparr>t_settled := True, t_timer := False\<rparr>"
  let ?c1 = "upd_task i ?f c"
  have fl: "(\<lambda>j. t_settled (c_tasks ?c1 j)) = (\<lambda>j. j \<noteq> i \<longrightarrow> t_settled (c_tasks c j))"
    "(\<lambda>j. t_retries (c_tasks ?c1 j)) = (\<lambda>j. t_retries (c_tasks c j))"
    "(\<lambda>j. solo (c_tasks ?c1 j)) = (\<lambda>j. solo (c_tasks c j))" by (rule upd_flags; simp add: solo_def)+
  show ?thesis
  proof (cases "i \<in> set (c_inflight c)")
    case True
    have "logged (rejectTask i reason ?c1) = insert i (logged c)"
      by (simp add: rejectTask_def logged_def [of "upd_task i ?f c"] logged_def [of c])
    then have r: "conn_inv env X (rejectTask i reason ?c1)"
      using c True by (simp add: conn_inv_def fl rejectTask_def settle_def tasks_ok_cancel_inflight cancel_ok_mono)
    have s: "t_settled (c_tasks (rejectTask i reason ?c1) i)" by (simp add: rejectTask_def settle_def upd_task_def)
    have n: "i < c_next (rejectTask i reason ?c1)" using i by (simp add: rejectTask_def settle_def)
    have g: "core (upd_task k (\<lambda>t. t\<lparr>t_graceTimer := True\<rparr>) x) = core x" for k and x :: "('a, 'b) conn"
      by (rule core_upd_task) (simp add: tcore_def)
    show ?thesis using True \<open>\<not> t_settled (c_tasks c i)\<close> r inv_sendCancelRequest [OF r s n]
      by (auto simp: cancelTask_def Let_def intro: conn_inv_coreI [OF _ g])
  next
    case False
    let ?c2 = "rejectTask i reason (?c1\<lparr>c_queue := removeAll i (c_queue ?c1)\<rparr>)"
    have "logged ?c2 = insert i (logged c)"
      by (simp add: rejectTask_def settle_def logged_def)
    then have "conn_inv env X ?c2"
      using c False i by (simp add: conn_inv_def fl rejectTask_def settle_def tasks_ok_cancel_queued cancel_ok_mono life_ok_shrink)
    then show ?thesis using False \<open>\<not> t_settled (c_tasks c i)\<close> by (simp add: cancelTask_def Let_def)
  qed
qed

subsection \<open>Preservation: completion and messages\<close>

lemma core_cacheStatement [core_simps]: "core (cacheStatement i c) = core c"
  by (simp add: cacheStatement_def Let_def core_def split: option.splits)

lemma core_forget [core_simps]: "core (forget_unconfirmed i c) = core c" "core (forget_invalidated i c) = core c"
  by (auto simp: forget_unconfirmed_def forget_invalidated_def Let_def core_def split: option.splits)

lemma core_set_fields [core_simps]: "core (set_fields i fs c) = core c"
  unfolding set_fields_def by (rule core_upd_task) (simp add: tcore_def)

lemma core_catch_mapper [core_simps]: "core (catch_mapper i (assignMapper env j cols c)) = core c"
  using keeps_coreD [OF keeps_core_assignMapper, of env j cols c]
  by (auto simp: catch_mapper_def core_task_error split: prod.splits sum.splits)

lemma core_row_description [core_simps]: "core (row_description_msg env i fs c) = core c"
  by (auto simp: row_description_msg_def Let_def core_simps split: option.splits)

lemma core_dataRow [core_simps]: "core (dataRow env body c) = core c"
  by (auto simp: dataRow_def Let_def tcore_def intro!: core_upd_task split: option.splits sum.splits)

lemma core_on_current: "(\<And>i c. core (f i c) = core c) \<Longrightarrow> core (on_current f c) = core c"
  by (simp add: on_current_def split: option.splits)

lemma core_collect_wire [core_simps]: "core (collect_wire m c) = core c"
  by (auto simp: collect_wire_def tcore_def intro!: core_upd_task split: option.splits)

lemma core_clear_timers [core_simps]: "core (clear_timers i c) = core c"
  unfolding clear_timers_def by (rule core_upd_task) (simp add: tcore_def)

lemma inv_begin_finish:
  assumes "conn_inv env {} c" "c_inflight c = i # rest"
  shows "conn_inv env {i} (c\<lparr>c_inflight := rest\<rparr>)"
proof -
  have "tasks_ok {i} (c_queue c) rest (logged c) (c_next c) (\<lambda>i. t_settled (c_tasks c i)) (\<lambda>i. t_retries (c_tasks c i))"
    using assms unfolding conn_inv_def by (auto simp: tasks_ok_def)
  moreover have "life_ok (c_queue c) rest (c_state c) (c_connecting c) (c_socket c) (c_loop c) (c_attempt c) (c_connectCalled c)"
    using assms unfolding conn_inv_def by (auto simp: life_ok_def)
  ultimately show ?thesis using assms by (auto simp: conn_inv_def logged_def intro: pipe_ok_tl)
qed

lemma inv_end_finish:
  assumes c: "conn_inv env {i} c"
  shows "t_settled (c_tasks c i) \<Longrightarrow> conn_inv env {} c" "\<not> t_settled (c_tasks c i) \<Longrightarrow> conn_inv env {} (settle i s c)"
proof -
  note ok = c [unfolded conn_inv_def]
  show "conn_inv env {} c" if "t_settled (c_tasks c i)"
  proof -
    have "tasks_ok {} (c_queue c) (c_inflight c) (logged c) (c_next c) (\<lambda>i. t_settled (c_tasks c i)) (\<lambda>i. t_retries (c_tasks c i))"
      using ok that by (auto simp: tasks_ok_def)
    with ok show ?thesis by (simp add: conn_inv_def)
  qed
  have "tasks_ok {} (c_queue c) (c_inflight c) (insert i (logged c)) (c_next c) (\<lambda>i. t_settled (c_tasks c i)) (\<lambda>i. t_retries (c_tasks c i))"
    using ok by (auto simp: tasks_ok_def)
  then show "conn_inv env {} (settle i s c)"
    using ok by (simp add: conn_inv_def logged_settle) (simp add: settle_def)
qed

lemma inv_complete_task:
  assumes c: "conn_inv env {i} c"
  shows "conn_inv env {} (complete_task env i c)"
proof -
  have "conn_inv env {i} (clear_timers i c)" using c by (rule conn_inv_coreI) (rule core_clear_timers)
  from inv_end_finish [OF this] show ?thesis by (auto simp: complete_task_def Let_def intro: inv_processQueue)
qed

lemma inv_retry:
  assumes c: "conn_inv env {i} c" and s: "\<not> t_settled (c_tasks c i)" and st: "c_state c \<noteq> Closed"
    and r: "t_retries (c_tasks c i) < 1"
  shows "conn_inv env {} ((upd_task i reset_for_retry c)\<lparr>c_queue := c_queue c @ [i]\<rparr>)"
proof -
  let ?c = "upd_task i reset_for_retry c"
  have f: "t_settled (c_tasks ?c j) = t_settled (c_tasks c j)" "solo (c_tasks ?c j) = solo (c_tasks c j)"
    "t_retries (c_tasks ?c j) = (if j = i then t_retries (c_tasks c i) + 1 else t_retries (c_tasks c j))" for j
    by (auto simp: upd_task_def reset_for_retry_def solo_def)
  have "tasks_ok {} (c_queue c @ [i]) (c_inflight c) (logged c) (c_next c) (\<lambda>j. t_settled (c_tasks c j))
      (\<lambda>j. if j = i then t_retries (c_tasks c i) + 1 else t_retries (c_tasks c j))"
    using c s r unfolding conn_inv_def by (auto simp: tasks_ok_def)
  moreover have "life_ok (c_queue c @ [i]) (c_inflight c) (c_state c) (c_connecting c) (c_socket c) (c_loop c) (c_attempt c) (c_connectCalled c)"
    using c st unfolding conn_inv_def by (auto simp: life_ok_def)
  ultimately show ?thesis using c by (simp add: conn_inv_def f logged_def)
qed

lemma state_checkLateCancel: "c_state (checkLateCancel i c) = c_state c" "c_inflight (checkLateCancel i c) = c_inflight c"
  "t_settled (c_tasks (checkLateCancel i c) j) = t_settled (c_tasks c j)"
  by (auto simp: checkLateCancel_def Let_def clearPendingCancel_def upd_task_def split: option.splits)

text \<open>Nothing but a cancel (or an aborted signal at submission) marks a task as settled.\<close>

named_theorems settled_kept \<open>handlers that do not mark tasks as settled\<close>

lemma settled_of_core: "core c' = core c \<Longrightarrow> t_settled (c_tasks c' j) = t_settled (c_tasks c j)"
  using core_tasks [of c' c j] by simp

lemma settled_drop [settled_kept]: "t_settled (c_tasks (drop_all_inflight e c) j) = t_settled (c_tasks c j)"
proof -
  have "t_settled (c_tasks (fold (drop_inflight e) is c) j) = t_settled (c_tasks c j)" for "is"
    by (induction "is" arbitrary: c)
       (auto simp: drop_inflight_def Let_def rejectTask_def settle_def clear_timers_def upd_task_def)
  then show ?thesis by (simp add: drop_all_inflight_def)
qed

lemma settled_rejectQueue [settled_kept]: "t_settled (c_tasks (rejectQueue e c) j) = t_settled (c_tasks c j)"
  by (simp add: rejectQueue_eq)

lemma settled_onSocketDown [settled_kept]: "t_settled (c_tasks (onSocketDown env e c) j) = t_settled (c_tasks c j)"
  by (auto simp: onSocketDown_def Let_def startReconnect_def reconnect_round_def failAttempt_def
      clearPendingCancel_def settled_kept split: option.splits)

lemma settled_startTask [settled_kept]: "t_settled (c_tasks (startTask env i c) j) = t_settled (c_tasks c j)"
proof -
  obtain r c' where s: "serialize_task env i c = (r, c')" by fastforce
  from settled_of_core [OF serialize_core [OF s], of j] show ?thesis
    by (cases r) (auto simp: startTask_def s Let_def rejectTask_def settle_def upd_task_def)
qed

lemma settled_dispatch [settled_kept]: "t_settled (c_tasks (dispatch n env c) j) = t_settled (c_tasks c j)"
  by (induction n arbitrary: c)
     (auto simp: dispatch_one_def Let_def settled_of_core [OF core_flush] settled_kept)

lemma settled_processQueue [settled_kept]: "t_settled (c_tasks (processQueue env c) j) = t_settled (c_tasks c j)"
  by (auto simp: processQueue_def Let_def retire_def settled_of_core [OF core_flush]
      settled_of_core [OF core_scheduleFlush] settled_of_core [OF core_sock(2)] settled_kept)

lemma settled_resolve [settled_kept]: "t_settled (c_tasks (resolveCanceledHead env p c) j) = t_settled (c_tasks c j)"
  by (simp add: resolveCanceledHead_def clearPendingCancel_def settled_kept)

lemma settled_endCanceledHead [settled_kept]: "t_settled (c_tasks (endCanceledHead env i p c) j) = t_settled (c_tasks c j)"
  by (auto simp: endCanceledHead_def Let_def clearPendingCancel_def settled_kept split: option.splits)

lemma inv_note_late: "conn_inv env X c \<Longrightarrow> conn_inv env X (note_late i c)"
  by (auto simp: note_late_def intro: inv_checkLateCancel split: option.splits)

lemma inv_note_canceled: "conn_inv env X c \<Longrightarrow> conn_inv env X (note_canceled env i c)"
  by (auto simp: note_canceled_def intro: inv_endCanceledHead split: option.splits)

lemma core_leave: "core (leave_pipeline env i c) = core (note_canceled env i (note_late i c))"
  by (simp add: leave_pipeline_def core_simps)

lemma inv_leave_pipeline: "conn_inv env X c \<Longrightarrow> conn_inv env X (leave_pipeline env i c)"
  by (rule conn_inv_coreI [OF _ core_leave]) (simp add: inv_note_late inv_note_canceled)

text \<open>A task whose caller was not settled was not the cancelled one, so its end changes no state.\<close>

lemma leave_unsettled:
  assumes c: "conn_inv env X c" and s: "\<not> t_settled (c_tasks (leave_pipeline env i c) i)"
  shows "c_state (leave_pipeline env i c) = c_state c"
proof -
  let ?l = "note_late i c"
  have l: "conn_inv env X ?l" using c by (rule inv_note_late)
  have st: "c_state ?l = c_state c" by (auto simp: note_late_def state_checkLateCancel split: option.splits)
  have "t_settled (c_tasks (note_canceled env i ?l) i) = t_settled (c_tasks ?l i)"
    by (auto simp: note_canceled_def settled_kept split: option.splits)
  with s have "\<not> t_settled (c_tasks ?l i)" using core_tasks [OF core_leave, of env i c i] by simp
  then have "note_canceled env i ?l = ?l"
    using l by (auto simp: note_canceled_def conn_inv_def cancel_ok_def split: option.splits)
  then show ?thesis using coreD(5) [OF core_leave, of env i c] st by simp
qed

lemma inv_finishTask:
  assumes c: "conn_inv env {} c"
  shows "conn_inv env {} (finishTask env c)"
proof (cases "c_inflight c")
  case Nil
  with c show ?thesis by (simp add: finishTask_def inv_processQueue)
next
  case (Cons i rest)
  let ?c1 = "c\<lparr>c_inflight := rest\<rparr>"
  let ?c4 = "leave_pipeline env i ?c1"
  have c1: "conn_inv env {i} ?c1" using c Cons by (rule inv_begin_finish)
  have c4: "conn_inv env {i} ?c4" using c1 by (rule inv_leave_pipeline)
  have "c_state c = Ready" using c Cons by (simp add: conn_inv_def life_ok_def)
  then have "conn_inv env {} ((upd_task i reset_for_retry ?c4)\<lparr>c_queue := c_queue ?c4 @ [i]\<rparr>)"
    if "can_retry ?c4 (c_tasks ?c4 i)"
    using c4 that leave_unsettled [OF c1, of i] by (intro inv_retry) (auto simp: can_retry_def)
  then show ?thesis using Cons inv_complete_task [OF c4] by (simp add: finishTask_def Let_def inv_processQueue)
qed

subsection \<open>Preservation: every event\<close>

lemma called_of_core: "core c' = core c \<Longrightarrow> c_connectCalled c' = c_connectCalled c"
  by (rule coreD(12))

lemma inv_ready:
  assumes c: "conn_inv env {} c"
  shows "conn_inv env {} (ready env body c)"
proof -
  let ?c1 = "c\<lparr>c_txStatus := (case body of [] \<Rightarrow> 73 | b # _ \<Rightarrow> unat b)\<rparr>"
  have c1: "conn_inv env {} ?c1" using c by (rule conn_inv_coreI) (simp add: core_def)
  show ?thesis
  proof (cases "c_connecting c")
    case True
    have "life_ok (c_queue c) (c_inflight c) Ready False (c_socket c) (c_loop c) (Some None) (c_connectCalled c)"
      using c True unfolding conn_inv_def by (auto simp: life_ok_def)
    then have "conn_inv env {} (?c1\<lparr>c_connecting := False, c_everConnected := True, c_state := Ready, c_attempt := Some None\<rparr>)"
      using c by (simp add: conn_inv_def logged_def)
    then show ?thesis using True by (simp add: ready_def Let_def inv_processQueue)
  next
    case False
    then show ?thesis using inv_finishTask [OF c1] by (simp add: ready_def Let_def)
  qed
qed

lemma core_auth_or_fail:
  "auth env body c = Inr c' \<Longrightarrow> core c' = core c \<or> (\<exists>e. c' = failAttempt e c)"
  by (auto simp: auth_def rbind_Inr_iff Let_def core_simps split: if_splits sum.splits)

lemma core_messages [core_simps]:
  "core (copy_refusal r c) = core c" "core (param_status body c) = core c"
  "core (c\<lparr>c_backendKey := k\<rparr>) = core c" "core (command_complete body i c) = core c"
  "core (copy_data body i c) = core c" "core (upd_task i (\<lambda>t. t\<lparr>t_pumping := b\<rparr>) c) = core c"
  "core (upd_task i (\<lambda>t. t\<lparr>t_paramOids := os\<rparr>) c) = core c" "core (upd_task i (\<lambda>t. t\<lparr>t_error := e\<rparr>) c) = core c"
  by (simp_all add: copy_refusal_def core_sock, simp_all add: core_def param_status_def command_complete_def
      copy_data_def upd_task_def Let_def tcore_def fun_eq_iff)

lemma handle_cases:
  assumes "handle env m c0 = Inr c'"
  shows "core c' = core c0 \<or> (\<exists>e. c' = failAttempt e (collect_wire m c0)) \<or>
    (rm_type m = 90 \<and> c' = ready env (rm_body m) (collect_wire m c0))"
proof -
  let ?c = "collect_wire m c0"
  have "core c' = core ?c \<or> (\<exists>e. c' = failAttempt e ?c) \<or> (rm_type m = 90 \<and> c' = ready env (rm_body m) ?c)"
    using assms unfolding handle_def Let_def
    by (auto simp: rbind_Inr_iff core_simps core_on_current dest: core_auth_or_fail split: if_splits option.splits)
  then show ?thesis by (simp add: core_simps)
qed

lemma inv_handle:
  assumes c0: "conn_inv env {} c0" and h: "handle env m c0 = Inr c'"
  shows "conn_inv env {} c'"
proof -
  have c: "conn_inv env {} (collect_wire m c0)" using c0 by (rule conn_inv_coreI) (rule core_collect_wire)
  show ?thesis using handle_cases [OF h] c0 inv_failAttempt [OF c] inv_ready [OF c] by (auto intro: conn_inv_coreI)
qed

text \<open>\<open>connect()\<close> stays called.\<close>

named_theorems called_kept \<open>handlers that keep the connect promise\<close>

lemma called_basic [called_kept]:
  "c_connectCalled (drop_all_inflight e c) = c_connectCalled c"
  "c_connectCalled (rejectQueue e c) = c_connectCalled c"
  "c_connectCalled (failAttempt e c) = c_connectCalled c"
  "c_connectCalled (clearPendingCancel c) = c_connectCalled c"
  "c_connectCalled (checkLateCancel i c) = c_connectCalled c"
  "c_connectCalled (settle i s c) = c_connectCalled c"
proof -
  have "c_connectCalled (fold (drop_inflight e) is c) = c_connectCalled c" for "is"
    by (induction "is" arbitrary: c)
       (auto simp: drop_inflight_def Let_def rejectTask_def settle_def clear_timers_def)
  then show "c_connectCalled (drop_all_inflight e c) = c_connectCalled c" by (simp add: drop_all_inflight_def)
  show "c_connectCalled (rejectQueue e c) = c_connectCalled c" by (simp add: rejectQueue_eq)
qed (auto simp: failAttempt_def clearPendingCancel_def checkLateCancel_def settle_def Let_def split: option.splits)

lemma called_onSocketDown [called_kept]: "c_connectCalled (onSocketDown env e c) = c_connectCalled c"
  by (auto simp: onSocketDown_def Let_def startReconnect_def reconnect_round_def called_kept split: option.splits)

lemma called_startTask [called_kept]: "c_connectCalled (startTask env i c) = c_connectCalled c"
proof -
  obtain r c' where s: "serialize_task env i c = (r, c')" by fastforce
  from called_of_core [OF serialize_core [OF s]] show ?thesis
    by (cases r) (auto simp: startTask_def s Let_def rejectTask_def called_kept)
qed

lemma called_dispatch [called_kept]: "c_connectCalled (dispatch n env c) = c_connectCalled c"
  by (induction n arbitrary: c)
     (auto simp: dispatch_one_def Let_def called_of_core [OF core_flush] called_kept)

lemma called_processQueue [called_kept]: "c_connectCalled (processQueue env c) = c_connectCalled c"
  by (auto simp: processQueue_def Let_def retire_def called_of_core [OF core_flush]
      called_of_core [OF core_scheduleFlush] called_of_core [OF core_sock(2)] called_kept)

lemma called_endCanceledHead [called_kept]: "c_connectCalled (endCanceledHead env i p c) = c_connectCalled c"
  by (auto simp: endCanceledHead_def resolveCanceledHead_def Let_def called_kept split: option.splits)

lemma called_leave [called_kept]: "c_connectCalled (leave_pipeline env i c) = c_connectCalled c"
  using called_of_core [OF core_leave, of env i c]
  by (auto simp: note_canceled_def note_late_def called_kept split: option.splits)

lemma called_finishTask [called_kept]: "c_connectCalled (finishTask env c) = c_connectCalled c"
  by (auto simp: finishTask_def complete_task_def Let_def called_kept called_of_core [OF core_clear_timers]
      split: list.splits)

lemma called_handle: "handle env m c = Inr c' \<Longrightarrow> c_connectCalled c' = c_connectCalled c"
proof -
  assume "handle env m c = Inr c'"
  note h = handle_cases [OF this] and w = called_of_core [OF core_collect_wire, of m c]
  show ?thesis using h
  proof (elim disjE exE)
    assume "core c' = core c"
    then show ?thesis by (rule called_of_core)
  qed (simp_all add: called_kept ready_def Let_def w)
qed

lemma inv_handle_all:
  "conn_inv env {} c \<Longrightarrow> c_connectCalled c \<Longrightarrow> handle_all env ms c = Some c' \<Longrightarrow> conn_inv env {} c'"
proof (induction ms arbitrary: c)
  case (Cons m ms)
  show ?case
  proof (cases "handle env m c")
    case (Inl e)
    have "conn_inv env {} (onSocketDown env (JsErr e) (collect_wire m c))"
      using Cons.prems by (intro inv_onSocketDown conn_inv_coreI [OF _ core_collect_wire])
        (auto simp: called_of_core [OF core_collect_wire])
    then show ?thesis using Cons.prems Inl by (cases e) auto
  next
    case (Inr c1)
    with Cons show ?thesis using inv_handle [OF Cons.prems(1) Inr] called_handle [OF Inr] by simp
  qed
qed simp

lemma socket_called: "conn_inv env X c \<Longrightarrow> c_socket c \<Longrightarrow> c_connectCalled c"
  by (simp add: conn_inv_def life_ok_def)

lemma inv_onData:
  assumes c: "conn_inv env {} c" "c_socket c" and d: "onData env b c = Some c'"
  shows "conn_inv env {} c'"
proof -
  have p: "conn_inv env {} (c\<lparr>c_parser := x\<rparr>)" for x using c(1) by (rule conn_inv_coreI) (simp add: core_def)
  have k: "c_connectCalled (c\<lparr>c_parser := x\<rparr>)" for x using socket_called [OF c] by simp
  show ?thesis using d inv_onSocketDown [OF p k] inv_handle_all [OF p k]
    by (auto simp: onData_def split: prod.splits sum.splits)
qed

lemma fold_reject_queued:
  "(\<And>i. i \<in> set is \<Longrightarrow> \<not> t_settled (c_tasks c i)) \<Longrightarrow>
   fold (reject_queued e) is c = c\<lparr>c_log := c_log c @ map (\<lambda>i. (i, Rejected e)) is\<rparr>"
  by (induction "is" arbitrary: c) (auto simp: reject_queued_def rejectTask_def settle_def)

lemma settlePending_eq:
  assumes "distinct (c_inflight c)" "\<forall>i \<in> set (c_queue c). \<not> t_settled (c_tasks c i)"
  shows "settlePending e c = c\<lparr>c_out := (c_out c)\<lparr>woff := 0\<rparr>, c_parseInflight := (\<lambda>_. None), c_lateCancel := None,
     c_tasks := calm (c_inflight c) (c_tasks c),
     c_log := c_log c @ concat (map (drop_entry e c) (c_inflight c)) @ map (\<lambda>i. (i, Rejected e)) (c_queue c),
     c_inflight := [], c_queue := []\<rparr>"
proof -
  let ?c1 = "c\<lparr>c_out := (c_out c)\<lparr>woff := 0\<rparr>, c_parseInflight := (\<lambda>_. None), c_lateCancel := None\<rparr>"
  have d: "drop_entry e ?c1 = drop_entry e c" by (simp add: drop_entry_def fun_eq_iff)
  have "drop_all_inflight e ?c1 = ?c1\<lparr>c_tasks := calm (c_inflight c) (c_tasks c),
      c_log := c_log c @ concat (map (drop_entry e c) (c_inflight c)), c_inflight := []\<rparr>"
    using drop_all_inflight_eq [of ?c1 e] assms(1) d by simp
  then show ?thesis using assms(2) by (simp add: settlePending_def Let_def fold_reject_queued)
qed

lemma inv_end_conn:
  assumes c: "conn_inv env {} c"
  shows "conn_inv env {} (end_conn c)"
proof (cases "c_state c = Closed")
  case True
  with c show ?thesis by (simp add: end_conn_def)
next
  case False
  define e where "e = AppErr ''connection ended (end() called)''"
  define c1 where "c1 = (sock_try W_terminate (c\<lparr>c_ended := True\<rparr>))\<lparr>c_state := Closed\<rparr>"
  define c2 where "c2 = (if c_connecting c1 then c1\<lparr>c_connecting := False, c_attempt := Some (Some e)\<rparr> else c1)"
  have f: "c_queue c2 = c_queue c" "c_inflight c2 = c_inflight c" "c_log c2 = c_log c" "c_next c2 = c_next c"
    "c_state c2 = Closed" "\<not> c_connecting c2" "c_socket c2 = c_socket c" "c_loop c2 = c_loop c"
    "c_connectCalled c2 = c_connectCalled c" "c_tasks c2 = c_tasks c"
    by (auto simp: c2_def c1_def sock_try_def sock_write_def split: sum.splits)
  have ok: "tasks_ok {} (c_queue c) (c_inflight c) (logged c) (c_next c) (\<lambda>i. t_settled (c_tasks c i)) (\<lambda>i. t_retries (c_tasks c i))"
    using c by (simp add: conn_inv_def)
  have eq: "settlePending e c2 = c2\<lparr>c_out := (c_out c2)\<lparr>woff := 0\<rparr>, c_parseInflight := (\<lambda>_. None), c_lateCancel := None,
     c_tasks := calm (c_inflight c) (c_tasks c),
     c_log := c_log c @ concat (map (drop_entry e c2) (c_inflight c)) @ map (\<lambda>i. (i, Rejected e)) (c_queue c),
     c_inflight := [], c_queue := []\<rparr>"
    using settlePending_eq [of c2 e] ok by (simp add: f tasks_ok_def)
  have "fst ` set (concat (map (drop_entry e c2) (c_inflight c))) = {i \<in> set (c_inflight c). \<not> t_settled (c_tasks c i)}"
    using drop_entries [of e c2 "c_inflight c"] f by simp
  then have l: "logged (settlePending e c2) = logged c \<union> {i \<in> set (c_inflight c). \<not> t_settled (c_tasks c i)} \<union> set (c_queue c)"
    unfolding eq logged_def by (simp add: image_Un image_image Un_assoc del: set_concat)
  have "c_connecting c \<or> c_attempt c2 = c_attempt c"
    by (auto simp: c2_def c1_def sock_try_def sock_write_def split: sum.splits)
  then have life: "life_ok [] [] Closed False (c_socket c) (c_loop c) (c_attempt c2) (c_connectCalled c)"
    using c unfolding conn_inv_def by (auto simp: life_ok_def)
  have "conn_inv env {} (clearPendingCancel (settlePending e c2))"
    using tasks_ok_reject_queue [OF tasks_ok_drop [OF ok]] life l f
    by (simp add: clearPendingCancel_def conn_inv_def logged_def eq)
  then show ?thesis using False unfolding end_conn_def Let_def e_def [symmetric] c1_def [symmetric] c2_def [symmetric]
    by simp
qed

lemma inv_submit:
  assumes c: "conn_inv env {} c" and t: "fresh_task t"
  shows "conn_inv env {} (submit env t aborted c)"
proof -
  let ?i = "c_next c" and ?c1 = "add_task t c"
  have ok: "tasks_ok {} (c_queue c) (c_inflight c) (logged c) ?i (\<lambda>i. t_settled (c_tasks c i)) (\<lambda>i. t_retries (c_tasks c i))"
    and pipe: "pipe_ok (e_pipelineDepth env) (c_inflight c) (\<lambda>i. solo (c_tasks c i))"
    and life: "life_ok (c_queue c) (c_inflight c) (c_state c) (c_connecting c) (c_socket c) (c_loop c) (c_attempt c) (c_connectCalled c)"
    and canc: "cancel_ok (c_next c) (c_pendingCancel c) (\<lambda>i. t_settled (c_tasks c i))"
    using c by (auto simp: conn_inv_def)
  let ?ts = "\<lambda>u j. if j = ?i then u else c_tasks c j"
  have pipe': "pipe_ok (e_pipelineDepth env) (c_inflight c) (\<lambda>j. solo (?ts u j))" for u
    using pipe ok by (auto simp: pipe_ok_def tasks_ok_def)
  have canc': "cancel_ok (Suc ?i) (c_pendingCancel c) (\<lambda>j. t_settled (?ts u j))" for u
    using canc by (auto simp: cancel_ok_def split: option.splits)
  have fin: "tasks_ok {} (c_queue c) (c_inflight c) (insert ?i (logged c)) (Suc ?i) (\<lambda>j. t_settled (?ts u j)) (\<lambda>j. t_retries (?ts u j))"
    if "t_retries u \<le> 1" for u using ok that by (auto simp: tasks_ok_def less_Suc_eq)
  have wait: "tasks_ok {} (c_queue c @ [?i]) (c_inflight c) (logged c) (Suc ?i) (\<lambda>j. t_settled (?ts t j)) (\<lambda>j. t_retries (?ts t j))"
    using ok t by (auto simp: tasks_ok_def less_Suc_eq fresh_task_def)
  have life': "life_ok (c_queue c @ [?i]) (c_inflight c) (c_state c) (c_connecting c) (c_socket c) (c_loop c) (c_attempt c) (c_connectCalled c)"
    if "c_state c \<noteq> Closed" using life that by (auto simp: life_ok_def)
  have rej: "conn_inv env {} (rejectTask ?i x (add_task u c))" if "t_retries u \<le> 1" for x u
    using fin [OF that] pipe' canc' life
    by (simp add: conn_inv_def rejectTask_def settle_def add_task_def logged_def fun_upd_def)
  have "upd_task ?i (\<lambda>t. t\<lparr>t_settled := True\<rparr>) ?c1 = add_task (t\<lparr>t_settled := True\<rparr>) c"
    by (simp add: add_task_def upd_task_def)
  then have "conn_inv env {} (rejectTask ?i x ?c1)" "conn_inv env {} (rejectTask ?i x (upd_task ?i (\<lambda>t. t\<lparr>t_settled := True\<rparr>) ?c1))" for x
    using t rej [of t x] rej [of "t\<lparr>t_settled := True\<rparr>" x] by (simp_all add: fresh_task_def)
  moreover have "conn_inv env {} (?c1\<lparr>c_queue := c_queue ?c1 @ [?i]\<rparr>)" if "c_state c \<noteq> Closed"
    using wait pipe' canc' life' [OF that] by (simp add: conn_inv_def add_task_def logged_def fun_upd_def)
  ultimately show ?thesis by (auto simp: submit_def Let_def intro: inv_processQueue)
qed

lemma inv_establish:
  assumes "conn_inv env {} c" "c_state c \<noteq> Ready" "c_connectCalled c" "c_attempt c = None"
  shows "conn_inv env {} ((establish c)\<lparr>c_loop := Attempting n\<rparr>)"
proof -
  have "life_ok (c_queue c) (c_inflight c) st True (c_socket c) (Attempting n) (c_attempt c) True" if "st \<in> {Connecting, Reconnecting}" for st
    using assms that unfolding conn_inv_def by (auto simp: life_ok_def)
  then show ?thesis using assms(1,3) by (simp add: conn_inv_def establish_def logged_def)
qed

lemma inv_backoff_over:
  assumes c: "conn_inv env {} c" "c_attempt c = None"
  shows "conn_inv env {} (backoff_over c)"
proof (cases "c_loop c")
  case (Backoff n e)
  have "life_ok (c_queue c) (c_inflight c) (c_state c) (c_connecting c) (c_socket c) NoLoop (c_attempt c) (c_connectCalled c)"
    using c unfolding conn_inv_def by (auto simp: life_ok_def)
  then have "conn_inv env {} (c\<lparr>c_loop := NoLoop\<rparr>)" using c by (simp add: conn_inv_def logged_def)
  moreover have "conn_inv env {} ((establish c)\<lparr>c_loop := Attempting n\<rparr>)"
    using c Backoff by (intro inv_establish) (auto simp: conn_inv_def life_ok_def)
  ultimately show ?thesis by (simp add: backoff_over_def Backoff)
qed (use c in \<open>simp_all add: backoff_over_def\<close>)

lemma inv_transport: "conn_inv env {} c \<Longrightarrow> conn_inv env {} (transport_ready s c)"
proof -
  assume c: "conn_inv env {} c"
  have "conn_inv env {} (c\<lparr>c_socket := True, c_writeBackedUp := False\<rparr>)" if "c_connecting c"
  proof -
    have "life_ok (c_queue c) (c_inflight c) (c_state c) (c_connecting c) True (c_loop c) (c_attempt c) (c_connectCalled c)"
      using c that unfolding conn_inv_def by (auto simp: life_ok_def)
    then show ?thesis using c by (simp add: conn_inv_def logged_def)
  qed
  with c show ?thesis by (auto simp: transport_ready_def intro: conn_inv_coreI [OF _ core_sock(2)])
qed

lemma inv_attempt_settled:
  assumes c: "conn_inv env {} c" and a: "c_attempt c = Some r"
  shows "conn_inv env {} (attempt_settled env r c)"
proof -
  let ?c = "c\<lparr>c_attempt := None\<rparr>"
  have life: "life_ok (c_queue c) (c_inflight c) (c_state c) (c_connecting c) (c_socket c) (c_loop c) (c_attempt c) (c_connectCalled c)"
    using c by (simp add: conn_inv_def)
  have "life_ok (c_queue c) (c_inflight c) (c_state c) (c_connecting c) (c_socket c) l None (c_connectCalled c)"
    if "l = c_loop c \<or> l = NoLoop" for l using life that by (auto simp: life_ok_def)
  then have c': "conn_inv env {} ?c" "conn_inv env {} (?c\<lparr>c_loop := NoLoop\<rparr>)"
    using c by (simp_all add: conn_inv_def logged_def)
  have e: "c_state ?c \<noteq> Ready" "\<not> c_connecting ?c" "c_connectCalled ?c" if "r = Some e" for e
    using life a that by (auto simp: life_ok_def)
  show ?thesis
  proof (cases r)
    case None
    with c' show ?thesis by (auto simp: attempt_settled_def Let_def split: reconnect_loop.splits)
  next
    case (Some e)
    note e = e [OF Some]
    show ?thesis
      using c' inv_rejectQueue_closed [OF c'(1) e(1), of e] inv_reconnect_round [OF c'(1) e, of _ e] Some
      by (auto simp: attempt_settled_def Let_def split: reconnect_loop.splits)
  qed
qed

lemma inv_connect:
  assumes c: "conn_inv env {} c"
  shows "conn_inv env {} (connect c)"
proof (cases "c_connectCalled c")
  case False
  have "life_ok (c_queue c) (c_inflight c) st True (c_socket c) (c_loop c) (c_attempt c) True" if "st \<in> {Connecting, Reconnecting}" for st
    using c False that unfolding conn_inv_def by (auto simp: life_ok_def)
  then show ?thesis using c False by (simp add: connect_def conn_inv_def establish_def logged_def)
qed (use c in \<open>simp add: connect_def\<close>)

lemma inv_stream_return:
  assumes "conn_inv env {} c" "i < c_next c"
  shows "conn_inv env {} (stream_return env i finished c)"
proof -
  have "core (upd_task i (\<lambda>t. t\<lparr>t_cancelled := True\<rparr>) c) = core c" by (rule core_upd_task) (simp add: tcore_def)
  from conn_inv_coreI [OF assms(1) this] assms(2) show ?thesis
    by (simp add: stream_return_def Let_def inv_cancelTask)
qed

lemma inv_cancel_timer: "conn_inv env {} c \<Longrightarrow> conn_inv env {} (processQueue env (c\<lparr>c_isRetiring := True\<rparr>))"
  by (rule inv_processQueue) simp

lemma inv_flags:
  "conn_inv env X (c\<lparr>c_flushScheduled := b\<rparr>) = conn_inv env X c"
  "conn_inv env X (c\<lparr>c_writeBackedUp := b\<rparr>) = conn_inv env X c"
  by (simp_all add: conn_inv_def logged_def)

lemma inv_destroyed: "conn_inv env {} c \<Longrightarrow> conn_inv env {} (c\<lparr>c_socket := False\<rparr>)"
proof -
  assume c: "conn_inv env {} c"
  have "life_ok (c_queue c) (c_inflight c) (c_state c) (c_connecting c) False (c_loop c) (c_attempt c) (c_connectCalled c)"
    using c unfolding conn_inv_def by (auto simp: life_ok_def)
  with c show ?thesis by (simp add: conn_inv_def logged_def)
qed

lemmas inv_events = inv_submit inv_onData inv_processQueue inv_cancelTask inv_stream_return inv_cancel_outcome
  inv_cancel_timer inv_onSocketDown inv_connect inv_transport inv_failAttempt inv_attempt_settled inv_backoff_over
  inv_end_conn inv_destroyed

lemma conn_inv_apply:
  assumes c: "conn_inv env {} c" and a: "conn_apply env ev c = Some c'"
  shows "conn_inv env {} c'"
  using a c socket_called [OF c]
  by (cases ev) (auto simp: conn_apply_def inv_flags inv_events intro: conn_inv_coreI [OF _ core_flush]
      split: if_splits option.splits)

lemma conn_inv_new: "conn_inv env {} new_conn"
  by (simp add: conn_inv_def new_conn_def logged_def tasks_ok_def life_ok_def)

text \<open>The reachable states of a connection, and the invariant of each of them.\<close>

definition conn_init :: "('v, 'j) conn \<Rightarrow> bool" where
  "conn_init c \<longleftrightarrow> c = new_conn"

definition conn_reach :: "('v, 'j) conn_env \<Rightarrow> ('v, 'j) conn \<Rightarrow> bool" where
  "conn_reach env = reach conn_init (conn_step env)"

interpretation conn_sys: invariant_of conn_init "conn_step env" "conn_inv env {}" for env
  by unfold_locales (auto simp: conn_init_def conn_inv_new elim!: conn_stepE intro: conn_inv_apply)

lemma conn_reach_inv: "conn_reach env c \<Longrightarrow> conn_inv env {} c"
  unfolding conn_reach_def by (rule conn_sys.reach_inv)

subsection \<open>No dispatch while a cancel is outstanding\<close>

text \<open>From \<open>c\<close> to \<open>c'\<close> no cancel request appeared, and if one is still outstanding no task joined the
  pipeline.\<close>

definition quiet :: "('v, 'j) conn \<Rightarrow> ('v, 'j) conn \<Rightarrow> bool" where
  "quiet c c' \<longleftrightarrow> (c_pendingCancel c' \<noteq> None \<longrightarrow> c_pendingCancel c \<noteq> None \<and> set (c_inflight c') \<subseteq> set (c_inflight c))"

lemma quiet_refl [simp]: "quiet c c"
  by (simp add: quiet_def)

lemma quiet_trans: "quiet a b \<Longrightarrow> quiet b c \<Longrightarrow> quiet a c"
  by (auto simp: quiet_def)

lemma quiet_core: "core c' = core c \<Longrightarrow> quiet c c'"
  by (simp add: quiet_def coreD(2) [of c' c] coreD(7) [of c' c])

lemma quiet_None: "c_pendingCancel c' = None \<Longrightarrow> quiet c c'"
  by (simp add: quiet_def)

lemma quiet_from: "quiet (c\<lparr>c_state := st, c_isRetiring := b\<rparr>) c' = quiet c c'"
  by (simp add: quiet_def)

lemma pending_basic [simp]:
  "c_pendingCancel (rejectQueue e c) = c_pendingCancel c"
  "c_pendingCancel (drop_all_inflight e c) = c_pendingCancel c"
proof -
  have "c_pendingCancel (fold (drop_inflight e) is c) = c_pendingCancel c" for "is"
    by (induction "is" arbitrary: c)
       (auto simp: drop_inflight_def Let_def rejectTask_def settle_def clear_timers_def)
  then show "c_pendingCancel (drop_all_inflight e c) = c_pendingCancel c" by (simp add: drop_all_inflight_def)
qed (simp add: rejectQueue_eq)

lemma quiet_onSocketDown: "quiet c (onSocketDown env e c)"
proof (cases "c_state c = Closed \<or> c_connecting c")
  case True
  then show ?thesis by (auto simp: onSocketDown_def failAttempt_def quiet_def)
next
  case False
  then show ?thesis
    by (intro quiet_None) (auto simp: onSocketDown_def Let_def startReconnect_def reconnect_round_def
        clearPendingCancel_def split: option.splits)
qed

lemma quiet_retire: "quiet c (retire env c)"
  unfolding retire_def by (rule quiet_trans [OF quiet_core [OF core_sock(2)] quiet_onSocketDown])

lemma quiet_processQueue: "quiet c (processQueue env c)"
proof -
  have d: "dispatch n env c = c" if "c_pendingCancel c \<noteq> None" for n
    using that by (cases n) (simp_all add: can_dispatch_def canStartNext_def)
  have p: "c_pendingCancel (dispatch n env c) = c_pendingCancel c" for n
  proof (induction n arbitrary: c)
    case (Suc n)
    have "c_pendingCancel (startTask env i c) = c_pendingCancel c" for i :: nat and c :: "('a, 'b) conn"
    proof -
      obtain r c' where s: "serialize_task env i c = (r, c')" by fastforce
      from coreD(7) [OF serialize_core [OF s]] show ?thesis
        by (cases r) (auto simp: startTask_def s Let_def rejectTask_def settle_def)
    qed
    then have "c_pendingCancel (dispatch_one env c) = c_pendingCancel c"
      by (simp add: dispatch_one_def Let_def coreD(7) [OF core_flush])
    with Suc [of "dispatch_one env c"] show ?case by simp
  qed simp
  have q: "quiet c (dispatch n env c)" for n
    using d [of n] p [of n] by (cases "c_pendingCancel c = None") (simp_all add: quiet_None)
  show ?thesis using q quiet_retire [of c env] quiet_trans [OF q quiet_core [OF core_flush]]
      quiet_trans [OF q quiet_core [OF core_scheduleFlush]]
    by (auto simp: processQueue_def Let_def)
qed

lemma quiet_resolve: "quiet c (resolveCanceledHead env p c)"
proof -
  have "quiet c (processQueue env (c\<lparr>c_isRetiring := True\<rparr>))"
    by (rule quiet_trans [OF _ quiet_processQueue]) (simp add: quiet_def)
  moreover have "quiet c (processQueue env (clearPendingCancel c))"
    by (rule quiet_trans [OF quiet_None quiet_processQueue]) (simp add: clearPendingCancel_def)
  ultimately show ?thesis by (simp add: resolveCanceledHead_def)
qed

lemma quiet_pending: "c_pendingCancel c \<noteq> None \<Longrightarrow> quiet c (c\<lparr>c_pendingCancel := p\<rparr>)"
  by (simp add: quiet_def)

lemma quiet_endCanceledHead:
  assumes "c_pendingCancel c \<noteq> None"
  shows "quiet c (endCanceledHead env i p c)"
proof -
  let ?p = "p\<lparr>pc_head := None\<rparr>"
  define c2 where "c2 = (if \<not> has_code (t_error (c_tasks c i)) ''57014'' \<and> c_inflight (c\<lparr>c_pendingCancel := Some ?p\<rparr>) \<noteq> []
      then (c\<lparr>c_pendingCancel := Some ?p\<rparr>)\<lparr>c_lateCancel := Some (pc_id ?p, set (c_inflight (c\<lparr>c_pendingCancel := Some ?p\<rparr>)))\<rparr>
      else c\<lparr>c_pendingCancel := Some ?p\<rparr>)"
  have c2: "quiet c c2" using assms by (simp add: c2_def quiet_def)
  have c3: "quiet c (resolveCanceledHead env ?p c2)" using c2 quiet_resolve by (rule quiet_trans)
  have "quiet c (clearPendingCancel c2)" by (rule quiet_None) (simp add: clearPendingCancel_def)
  moreover have "quiet c ((resolveCanceledHead env ?p c2)\<lparr>c_pendingCancel := Some q\<rparr>)"
    if "c_pendingCancel (resolveCanceledHead env ?p c2) \<noteq> None" for q
    using c3 that by (simp add: quiet_def)
  ultimately show ?thesis using c2 c3 unfolding endCanceledHead_def Let_def c2_def [symmetric]
    by (auto split: option.splits)
qed

lemma quiet_finishTask: "quiet c (finishTask env c)"
proof (cases "c_inflight c")
  case Nil
  then show ?thesis by (simp add: finishTask_def quiet_processQueue)
next
  case (Cons i rest)
  let ?c1 = "c\<lparr>c_inflight := rest\<rparr>"
  have "quiet c ?c1" using Cons by (auto simp: quiet_def)
  moreover have "quiet ?c1 (note_late i ?c1)"
    by (auto simp: note_late_def checkLateCancel_def Let_def quiet_def clearPendingCancel_def split: option.splits)
  moreover have "quiet x (note_canceled env i x)" for x :: "('a, 'b) conn"
    by (auto simp: note_canceled_def quiet_endCanceledHead split: option.splits)
  ultimately have "quiet c (note_canceled env i (note_late i ?c1))" by (blast intro: quiet_trans)
  then have l: "quiet c (leave_pipeline env i ?c1)" by (rule quiet_trans [OF _ quiet_core [OF core_leave]])
  have s: "quiet x (complete_task env i x)" for x :: "('a, 'b) conn"
  proof -
    have "quiet x (if t_settled (c_tasks (clear_timers i x) i) then clear_timers i x
        else settle i (outcome_of (c_tasks (clear_timers i x) i)) (clear_timers i x))"
      by (simp add: quiet_def settle_def coreD(2,7) [OF core_clear_timers])
    then show ?thesis unfolding complete_task_def Let_def by (rule quiet_trans [OF _ quiet_processQueue])
  qed
  have r: "quiet x (processQueue env ((upd_task i reset_for_retry x)\<lparr>c_queue := q\<rparr>))" for x :: "('a, 'b) conn" and q
    by (rule quiet_trans [OF _ quiet_processQueue]) (simp add: quiet_def)
  show ?thesis using quiet_trans [OF l s] quiet_trans [OF l r] Cons by (simp add: finishTask_def Let_def)
qed

lemma quiet_handle: "handle env m c = Inr c' \<Longrightarrow> quiet c c'"
proof -
  assume "handle env m c = Inr c'"
  note h = handle_cases [OF this]
  let ?c = "collect_wire m c"
  have w: "quiet c ?c" by (rule quiet_core [OF core_collect_wire])
  have f: "quiet x (failAttempt e x)" for e and x :: "('a, 'b) conn" by (simp add: failAttempt_def quiet_def)
  have r: "quiet x (ready env b x)" for b and x :: "('a, 'b) conn"
  proof (cases "c_connecting x")
    case True
    then show ?thesis unfolding ready_def Let_def
      by (simp, intro quiet_trans [OF _ quiet_processQueue]) (simp add: quiet_def)
  next
    case False
    then show ?thesis unfolding ready_def Let_def
      by (simp, intro quiet_trans [OF _ quiet_finishTask]) (simp add: quiet_def)
  qed
  show ?thesis using h quiet_trans [OF w f] quiet_trans [OF w r] by (auto intro: quiet_core)
qed

lemma quiet_handle_all: "handle_all env ms c = Some c' \<Longrightarrow> quiet c c'"
proof (induction ms arbitrary: c)
  case (Cons m ms)
  show ?case
  proof (cases "handle env m c")
    case (Inl e)
    have "quiet c (onSocketDown env (JsErr e) (collect_wire m c))"
      by (rule quiet_trans [OF quiet_core [OF core_collect_wire] quiet_onSocketDown])
    then show ?thesis using Cons.prems Inl by (cases e) auto
  next
    case (Inr c1)
    with Cons quiet_handle [OF Inr] show ?thesis by (auto intro: quiet_trans)
  qed
qed simp

lemma quiet_onData: "onData env b c = Some c' \<Longrightarrow> quiet c c'"
proof -
  assume d: "onData env b c = Some c'"
  have p: "quiet c (c\<lparr>c_parser := x\<rparr>)" for x by (simp add: quiet_def)
  from d show ?thesis
    by (auto simp: onData_def split: prod.splits sum.splits
        intro: quiet_trans [OF p quiet_onSocketDown] quiet_trans [OF p quiet_handle_all])
qed

lemma inflight_cancelTask: "c_inflight (cancelTask env i e c) = c_inflight c"
  by (simp add: cancelTask_def Let_def rejectTask_def settle_def sendCancelRequest_def)

text \<open>The same over one event, which may itself be the one that sends the request.\<close>

lemma no_dispatch_apply:
  assumes "conn_apply env ev c = Some c'" "c_pendingCancel c \<noteq> None" "c_pendingCancel c' \<noteq> None"
  shows "set (c_inflight c') \<subseteq> set (c_inflight c)"
proof -
  have q: "quiet c d \<Longrightarrow> d = c' \<Longrightarrow> ?thesis" for d using assms(3) by (simp add: quiet_def)
  have pq: "quiet c x \<Longrightarrow> quiet c (processQueue env x)" for x by (rule quiet_trans [OF _ quiet_processQueue])
  show ?thesis
  proof (cases ev)
    case (EvSubmit t aborted)
    have "quiet c (submit env t aborted c)"
      by (auto simp: submit_def Let_def intro!: pq) (auto simp: quiet_def rejectTask_def settle_def add_task_def)
    then show ?thesis using assms(1) EvSubmit by (intro q) (auto simp: conn_apply_def split: if_splits)
  next
    case (EvCancelOutcome n ok)
    have "quiet c (cancel_outcome env n ok c)"
      using assms(2) by (auto simp: cancel_outcome_def Let_def quiet_pending
          intro!: quiet_trans [OF quiet_pending quiet_resolve] split: option.splits)
    then show ?thesis using assms(1) EvCancelOutcome by (intro q) (auto simp: conn_apply_def)
  next
    case EvEnd
    have "c_pendingCancel (end_conn c) = None" if "c_state c \<noteq> Closed"
      using that by (simp add: end_conn_def Let_def clearPendingCancel_def)
    moreover have "end_conn c = c" if "c_state c = Closed" using that by (simp add: end_conn_def)
    moreover have "c' = end_conn c" using assms(1) EvEnd by (simp add: conn_apply_def)
    ultimately show ?thesis using assms(3) by (cases "c_state c = Closed") simp_all
  next
    case EvAttemptSettled
    have "c_inflight (reconnect_round env n e x) = c_inflight x" for n e and x :: "('a, 'b) conn"
      by (simp add: reconnect_round_def rejectQueue_eq split: option.splits)
    then have "c_inflight (attempt_settled env r c) = c_inflight c" for r
      by (simp add: attempt_settled_def Let_def rejectQueue_eq split: reconnect_loop.splits option.splits)
    then show ?thesis using assms(1) EvAttemptSettled by (auto simp: conn_apply_def)
  next
    case (EvData b)
    then show ?thesis using assms(1) by (intro q [OF quiet_onData]) (auto simp: conn_apply_def split: if_splits)
  next
    case EvDrain
    have "quiet c (processQueue env (c\<lparr>c_writeBackedUp := False\<rparr>))" by (rule pq) (simp add: quiet_def)
    then show ?thesis using assms(1) EvDrain by (intro q) (auto simp: conn_apply_def split: if_splits)
  next
    case EvCancelTimer
    have "quiet c (processQueue env (c\<lparr>c_isRetiring := True\<rparr>))" by (rule pq) (simp add: quiet_def)
    then show ?thesis using assms(1) EvCancelTimer
      by (intro q) (auto simp: conn_apply_def split: if_splits option.splits)
  next
    case (EvSocketClose e)
    then show ?thesis using assms(1) by (intro q [OF quiet_onSocketDown]) (auto simp: conn_apply_def split: if_splits)
  qed (use assms(1) in
      \<open>auto simp: conn_apply_def inflight_cancelTask stream_return_def Let_def connect_def establish_def
         transport_ready_def failAttempt_def backoff_over_def coreD(2) [OF core_flush] coreD(2) [OF core_sock(2)]
         split: if_splits option.splits reconnect_loop.splits\<close>)
qed

subsection \<open>Who receives a message\<close>

lemma tasks_sock [simp]: "c_tasks (sock_write b c) = c_tasks c" "c_tasks (sock_try r c) = c_tasks c"
  by (simp_all add: sock_write_def sock_try_def split: sum.splits)

lemma tasks_failAttempt [simp]: "c_tasks (failAttempt e c) = c_tasks c"
  by (simp add: failAttempt_def)

lemma auth_tasks: "auth env body c = Inr c' \<Longrightarrow> c_tasks c' = c_tasks c"
  by (auto simp: auth_def rbind_Inr_iff Let_def split: if_splits sum.splits)

lemma upd_other: "j \<noteq> i \<Longrightarrow> c_tasks (upd_task i f c) j = c_tasks c j"
  by (simp add: upd_task_def)

lemma catch_mapper_other: "j \<noteq> i \<Longrightarrow> c_tasks (catch_mapper i (assignMapper env i cols c)) j = c_tasks c j"
  by (auto simp: catch_mapper_def assignMapper_def upd_other split: prod.splits sum.splits)

lemma cacheStatement_tasks [simp]: "c_tasks (cacheStatement i c) = c_tasks c"
  by (simp add: cacheStatement_def Let_def split: option.splits)

lemma row_description_other: "j \<noteq> i \<Longrightarrow> c_tasks (row_description_msg env i fs c) j = c_tasks c j"
  by (auto simp: row_description_msg_def Let_def set_fields_def catch_mapper_other upd_other split: option.splits)

lemma on_current_other:
  "(\<And>i c. j \<noteq> i \<Longrightarrow> c_tasks (f i c) j = c_tasks c j) \<Longrightarrow> current c \<noteq> Some j \<Longrightarrow> c_tasks (on_current f c) j = c_tasks c j"
  by (auto simp: on_current_def split: option.splits)

lemma current_collect [simp]: "current (collect_wire m c) = current c"
  by (simp add: current_def coreD(2) [OF core_collect_wire])

lemma collect_other: "current c \<noteq> Some j \<Longrightarrow> c_tasks (collect_wire m c) j = c_tasks c j"
  by (auto simp: collect_wire_def upd_other split: option.splits)

lemma dataRow_other: "current c \<noteq> Some j \<Longrightarrow> c_tasks (dataRow env b c) j = c_tasks c j"
  by (auto simp: dataRow_def Let_def upd_other split: option.splits sum.splits)

lemma handle_other:
  assumes "handle env m c = Inr c'" "rm_type m \<noteq> 90" "current c \<noteq> Some j"
  shows "c_tasks c' j = c_tasks c j"
proof -
  let ?c = "collect_wire m c"
  have cur: "current ?c \<noteq> Some j" using assms(3) by simp
  have "c_tasks c' j = c_tasks ?c j"
    using assms(1,2) cur unfolding handle_def Let_def
    by (auto simp: rbind_Inr_iff upd_other row_description_other dataRow_other param_status_def copy_refusal_def
        command_complete_def copy_data_def set_fields_def Let_def
        dest: auth_tasks intro!: on_current_other split: if_splits option.splits)
  with collect_other [OF assms(3), of m] show ?thesis by simp
qed

lemma inflight_handle:
  assumes "handle env m c = Inr c'" "rm_type m \<noteq> 90"
  shows "c_inflight c' = c_inflight c \<and> c_log c' = c_log c"
proof -
  have "core c' = core c \<or> (\<exists>e. c' = failAttempt e (collect_wire m c))"
    using handle_cases [OF assms(1)] assms(2) by blast
  then show ?thesis by (auto simp: failAttempt_def coreD(2,3) [OF core_collect_wire] dest: coreD(2,3))
qed

end
