(* ===== verification/Connection_Props.thy ===== *)
theory Connection_Props
  imports Conn_Invariant "HOL-Library.Sublist"
begin

section \<open>What a connection promises its callers\<close>

text \<open>
  The properties of the connection's bookkeeping that callers rely on, stated over reachable
  states and single steps: no caller is left waiting, the pipeline is bounded and streams run
  alone, backend messages reach the task they answer, and nothing is dispatched while a cancel
  request could still hit it.
\<close>

subsection \<open>The log only grows\<close>

definition log_extends :: "('v, 'j) conn \<Rightarrow> ('v, 'j) conn \<Rightarrow> bool" where
  "log_extends c c' \<longleftrightarrow> (\<exists>l. c_log c' = c_log c @ l)"

lemma log_refl [simp]: "log_extends c c"
  by (simp add: log_extends_def)

lemma log_trans: "log_extends a b \<Longrightarrow> log_extends b c \<Longrightarrow> log_extends a c"
  by (auto simp: log_extends_def)

lemma log_core: "core c' = core c \<Longrightarrow> log_extends c c'"
  using coreD(3) [of c' c] by (simp add: log_extends_def)

lemma log_settle: "log_extends c (settle i s c)" "log_extends c (rejectTask i e c)"
  by (simp_all add: log_extends_def settle_def rejectTask_def)


lemma log_rejectQueue: "log_extends c (rejectQueue e c)"
  by (simp add: rejectQueue_eq log_extends_def)


lemma log_startTask: "log_extends c (startTask env i c)"
proof -
  obtain r c' where s: "serialize_task env i c = (r, c')" by fastforce
  from coreD(3) [OF serialize_core [OF s]] show ?thesis
    by (cases r) (auto simp: startTask_def s Let_def rejectTask_def settle_def log_extends_def)
qed

lemma log_dispatch: "log_extends c (dispatch n env c)"
proof (induction n arbitrary: c)
  case (Suc n)
  have "log_extends c (startTask env (hd (c_queue c)) (c\<lparr>c_queue := tl (c_queue c)\<rparr>))"
    using log_startTask [of "c\<lparr>c_queue := tl (c_queue c)\<rparr>"] by (simp add: log_extends_def)
  then have "log_extends c (dispatch_one env c)"
    by (auto simp: dispatch_one_def Let_def intro: log_trans [OF _ log_core [OF core_flush]])
  with Suc [of "dispatch_one env c"] show ?case by (auto intro: log_trans)
qed simp


subsection \<open>Completion of the head\<close>

lemma outcome_clear [simp]: "outcome_of (t\<lparr>t_timer := a, t_graceTimer := b\<rparr>) = outcome_of t"
  by (simp add: outcome_of_def split: option.splits cerr.splits)

lemma forget_tasks [simp]: "c_tasks (forget_unconfirmed i c) = c_tasks c" "c_tasks (forget_invalidated i c) = c_tasks c"
  by (auto simp: forget_unconfirmed_def forget_invalidated_def Let_def split: option.splits)

subsection \<open>Order of dispatch\<close>

text \<open>The tasks of \<open>is\<close> whose serialisation succeeded join the pipeline in order; the others were rejected.\<close>

definition fifo_start :: "('v, 'j) conn \<Rightarrow> ('v, 'j) conn \<Rightarrow> bool" where
  "fifo_start c c' \<longleftrightarrow> (\<exists>k started. c_queue c' = drop k (c_queue c) \<and> c_inflight c' = c_inflight c @ started \<and>
     subseq started (take k (c_queue c)) \<and>
     set (take k (c_queue c)) \<subseteq> set started \<union> fst ` set (c_log c'))"

lemma fifo_refl: "fifo_start c c"
  by (auto simp: fifo_start_def intro: exI [of _ 0])

lemma fifo_step:
  assumes q: "c_queue c = i # q" and c1: "c_queue c1 = q" "c_inflight c1 = c_inflight c \<or> c_inflight c1 = c_inflight c @ [i]"
    "c_inflight c1 = c_inflight c \<Longrightarrow> i \<in> fst ` set (c_log c1)" and r: "fifo_start c1 c2" and l: "log_extends c1 c2"
  shows "fifo_start c c2"
proof -
  from r obtain k st where k: "c_queue c2 = drop k q" "c_inflight c2 = c_inflight c1 @ st" "subseq st (take k q)"
    "set (take k q) \<subseteq> set st \<union> fst ` set (c_log c2)" using c1(1) by (auto simp: fifo_start_def)
  have sub: "fst ` set (c_log c1) \<subseteq> fst ` set (c_log c2)" using l by (auto simp: log_extends_def)
  show ?thesis
  proof (cases "c_inflight c1 = c_inflight c")
    case True
    with k sub c1(3) show ?thesis unfolding fifo_start_def q
      by (intro exI [of _ "Suc k"] exI [of _ st]) (auto intro: subseq_order.trans)
  next
    case False
    with k c1(2) show ?thesis unfolding fifo_start_def q
      by (intro exI [of _ "Suc k"] exI [of _ "i # st"]) auto
  qed
qed

lemma startTask_cases:
  "c_queue (startTask env i c) = c_queue c \<and>
   (c_inflight (startTask env i c) = c_inflight c @ [i] \<or>
    c_inflight (startTask env i c) = c_inflight c \<and> i \<in> fst ` set (c_log (startTask env i c)))"
proof -
  obtain r c' where s: "serialize_task env i c = (r, c')" by fastforce
  from coreD(1,2) [OF serialize_core [OF s]] show ?thesis
    by (cases r) (auto simp: startTask_def s Let_def rejectTask_def settle_def)
qed

lemma dispatch_fifo: "fifo_start c (dispatch n env c)"
proof (induction n arbitrary: c)
  case (Suc n)
  show ?case
  proof (cases "can_dispatch env c")
    case True
    then obtain i q where q: "c_queue c = i # q" by (cases "c_queue c") (auto simp: can_dispatch_def)
    let ?s = "startTask env i (c\<lparr>c_queue := q\<rparr>)" and ?d = "dispatch_one env c"
    have d: "c_queue ?d = c_queue ?s" "c_inflight ?d = c_inflight ?s" "c_log ?d = c_log ?s"
      by (simp_all add: dispatch_one_def Let_def q coreD(1,2,3) [OF core_flush])
    have s: "c_queue ?s = q" "c_inflight ?s = c_inflight c @ [i] \<or> c_inflight ?s = c_inflight c \<and> i \<in> fst ` set (c_log ?s)"
      using startTask_cases [of env i "c\<lparr>c_queue := q\<rparr>"] by auto
    have "fifo_start c (dispatch n env ?d)"
    proof (rule fifo_step [OF q])
      show "c_queue ?d = q" "c_inflight ?d = c_inflight c \<or> c_inflight ?d = c_inflight c @ [i]"
        "c_inflight ?d = c_inflight c \<Longrightarrow> i \<in> fst ` set (c_log ?d)" using s d by auto
    qed (rule Suc log_dispatch)+
    with True show ?thesis by simp
  qed (simp add: fifo_refl)
qed (simp add: fifo_refl)

lemma dispatch_ends: "length (c_queue c) \<le> n \<Longrightarrow> \<not> can_dispatch env (dispatch n env c)"
proof (induction n arbitrary: c)
  case (Suc n)
  have "c_queue (dispatch_one env c) = tl (c_queue c)"
    using startTask_cases [of env "hd (c_queue c)" "c\<lparr>c_queue := tl (c_queue c)\<rparr>"]
    by (simp add: dispatch_one_def Let_def coreD(1) [OF core_flush])
  with Suc show ?case by simp
qed (simp add: can_dispatch_def)

subsection \<open>Properties\<close>

text \<open>A concrete environment for the witnesses: text parameters, pipeline of two, no cancel.\<close>

definition demo_env :: "(nat, nat) conn_env" where
  "demo_env = \<lparr>e_encodeValueInto = (\<lambda>v _. if v = 0 then wfail (NulByte ''text param'') else wbind (w_lpBytes [b8 v]) (\<lambda>_. wret 0)),
     e_compileParamPlan = (\<lambda>_. None), e_compileBindEncoder = (\<lambda>_ _ _. None),
     e_mapperFactory = (\<lambda>_ _. Inr (\<lambda>b. Inr (RowRaw b))), e_decoderFor = (\<lambda>_ b. Inr (length b)),
     e_elemOid = (\<lambda>_. None), e_writable = (\<lambda>_. True), e_password = [], e_md5Password = (\<lambda>_. []),
     e_scramForChannel = (\<lambda>_. Inl ''none''), e_scramContinue = (\<lambda>_. Inr []), e_scramFinal = (\<lambda>_. Inr ()),
     e_pipelineDepth = 2, e_flushMicrotask = False, e_prepare = True, e_binaryParams = False, e_jitEncode = False,
     e_temporalString = False, e_reuseBinaryOids = [], e_isBehindPooler = False, e_hasCancel = False,
     e_reconnect = False, e_maxRetries = None\<rparr>"

definition demo_conn :: "(nat, nat) conn" where
  "demo_conn = new_conn\<lparr>c_state := Ready, c_connectCalled := True, c_next := 1, c_inflight := [0]\<rparr>"

lemma demo_ended: "conn_reach demo_env (end_conn (submit demo_env blank_task False new_conn))"
proof -
  have s: "conn_step demo_env c (submit demo_env blank_task False c)" for c
    by (rule conn_event [of _ "EvSubmit blank_task False"]) (simp add: conn_apply_def fresh_task_def blank_task_def)
  have e: "conn_step demo_env c (end_conn c)" for c
    by (rule conn_event [of _ EvEnd]) (simp add: conn_apply_def)
  have "conn_reach demo_env new_conn" unfolding conn_reach_def by (rule reach.intros(1)) (simp add: conn_init_def)
  then have "conn_reach demo_env (submit demo_env blank_task False new_conn)"
    unfolding conn_reach_def using s [of new_conn] by (rule reach.intros(2))
  then show ?thesis unfolding conn_reach_def using e by (rule reach.intros(2))
qed

text \<open>C1: no caller is left hanging. In every reachable state of a connection that is closed (by
  \<open>end()\<close>, by an unrecoverable socket loss, by a fatal authentication error or by exhausted
  reconnect attempts) nothing is queued or in flight and every task ever submitted has been
  settled.\<close>

theorem no_hung_caller:
  assumes "conn_reach env c" "c_state c = Closed"
  shows "c_queue c = [] \<and> c_inflight c = [] \<and> (\<forall>i < c_next c. i \<in> fst ` set (c_log c))"
  using conn_reach_inv [OF assms(1)] assms(2)
  by (auto simp: conn_inv_def life_ok_def tasks_ok_def logged_def)

theorem no_hung_caller_witness:
  "(let c = end_conn (submit demo_env blank_task False new_conn)
    in conn_reach demo_env c \<and> c_state c = Closed \<and> c_next c = 1 \<and> 0 \<in> fst ` set (c_log c))"
proof -
  let ?s = "submit demo_env blank_task False new_conn"
  have s: "c_state ?s = Idle" "c_next ?s = 1"
    by (simp_all add: submit_def new_conn_def add_task_def processQueue_def)
  have e: "c_state (end_conn c) = Closed \<and> c_next (end_conn c) = c_next c" if "conn_inv demo_env {} c" "c_state c \<noteq> Closed" for c
  proof -
    have q: "distinct (c_inflight c) \<and> (\<forall>i \<in> set (c_queue c). \<not> t_settled (c_tasks c i))"
      using that(1) by (auto simp: conn_inv_def tasks_ok_def)
    have c: "c_inflight (sock_try r x) = c_inflight x" "c_queue (sock_try r x) = c_queue x" "c_next (sock_try r x) = c_next x"
      for r and x :: "(nat, nat) conn" by (simp_all add: coreD(1,2,4) [OF core_sock(2)])
    show ?thesis using that(2) q by (auto simp: end_conn_def Let_def settlePending_eq clearPendingCancel_def c)
  qed
  let ?c = "end_conn ?s"
  have "conn_inv demo_env {} ?s" by (rule inv_submit [OF conn_inv_new]) (simp add: fresh_task_def blank_task_def)
  from e [OF this] s have c: "c_state ?c = Closed" "c_next ?c = 1" by simp_all
  from no_hung_caller [OF demo_ended c(1)] c demo_ended show ?thesis by simp
qed

text \<open>C2: the pipeline is accounted for. In every reachable state each task is in exactly one place of
  the queue and the in-flight list, or it has been settled; the pipeline never exceeds its configured
  depth, a stream or a COPY runs alone, and no task is retried more than once.\<close>

theorem pipeline_accounting:
  assumes "conn_reach env c"
  shows "distinct (c_queue c @ c_inflight c) \<and> length (c_inflight c) \<le> e_pipelineDepth env \<and>
    (\<forall>i \<in> set (c_inflight c). solo (c_tasks c i) \<longrightarrow> c_inflight c = [i]) \<and>
    (\<forall>i < c_next c. i \<in> set (c_queue c) \<union> set (c_inflight c) \<union> fst ` set (c_log c)) \<and>
    (\<forall>i \<in> set (c_queue c). i \<notin> fst ` set (c_log c)) \<and>
    (\<forall>i < c_next c. t_retries (c_tasks c i) \<le> 1)"
  using conn_reach_inv [OF assms] by (auto simp: conn_inv_def pipe_ok_def tasks_ok_def logged_def)

theorem pipeline_accounting_witness:
  "conn_reach demo_env (end_conn (submit demo_env blank_task False new_conn)) \<and>
   length (c_inflight (end_conn (submit demo_env blank_task False new_conn))) \<le> 2"
  using pipeline_accounting [OF demo_ended] demo_ended by (simp add: demo_env_def)

text \<open>Dispatch is fair and in order. \<open>processQueue\<close>'s loop takes a prefix of the queue; the tasks of
  that prefix join the end of the pipeline in submission order, except those whose parameters or
  SQL cannot be serialised, which are rejected; the rest of the queue is untouched. The loop has
  ended because nothing more may be dispatched, not because the bound ran out.\<close>

theorem dispatch_in_order:
  "fifo_start c (dispatch (length (c_queue c)) env c) \<and>
   \<not> can_dispatch env (dispatch (length (c_queue c)) env c)"
  using dispatch_fifo dispatch_ends by blast





text \<open>C6: responses are attributed to the task they answer. Handling any backend message other than
  ReadyForQuery changes no task but the head of the pipeline, moves no task and settles no caller.\<close>

theorem response_attribution:
  assumes "handle env m c = Inr c'" "rm_type m \<noteq> 90"
  shows "(\<forall>j. current c \<noteq> Some j \<longrightarrow> c_tasks c' j = c_tasks c j) \<and>
    c_inflight c' = c_inflight c \<and> c_log c' = c_log c"
  using handle_other [OF assms] inflight_handle [OF assms] by blast

theorem response_attribution_witness:
  "\<exists>c'. handle demo_env \<lparr>rm_type = 67, rm_body = [83, 32, 49, 0]\<rparr> demo_conn = Inr c' \<and>
     c_tasks c' 1 = c_tasks demo_conn 1 \<and> c_inflight c' = [0] \<and> c_log c' = [] \<and> t_rowCount (c_tasks c' 0) = Some 1"
proof -
  let ?m = "\<lparr>rm_type = 67, rm_body = [83, 32, 49, 0]\<rparr> :: raw_message"
  have cur: "current demo_conn = Some 0" by (simp add: current_def demo_conn_def)
  have w: "t_wire (c_tasks demo_conn 0) = None" by (simp add: demo_conn_def new_conn_def blank_task_def)
  have "collect_wire ?m demo_conn = demo_conn" "\<not> is_wire demo_conn"
    by (simp_all add: collect_wire_def is_wire_def cur w)
  then have h: "handle demo_env ?m demo_conn = Inr (command_complete [83, 32, 49, 0] 0 demo_conn)"
    by (simp add: handle_def on_current_def cur Let_def del: split_paired_All)
  have n: "tag_rowCount (firstCstr [83, 32, 49, 0]) = Some 1"
    by (simp add: firstCstr_def cstr_head_def from_utf8_def tag_rowCount_def utf8_dec.simps Let_def cp_units_def
        u16_def is_space_def is_digit_def digits_value_def)
  have "t_rowCount (c_tasks (command_complete [83, 32, 49, 0] 0 demo_conn) 0) = Some 1"
    by (simp add: command_complete_def upd_task_def n)
  with response_attribution [OF h] cur h show ?thesis by (auto simp: demo_conn_def new_conn_def)
qed

text \<open>What a dropped connection leaves queued, statements of an open transaction included, is still queued
  while it reconnects, to be dispatched on the new session.\<close>

lemma fold_drop_keeps: "c_queue (fold (drop_inflight e) is c) = c_queue c" "c_ended (fold (drop_inflight e) is c) = c_ended c"
  by (induction "is" arbitrary: c) (simp_all add: drop_inflight_def rejectTask_def settle_def clear_timers_def upd_task_def Let_def)

lemma queue_survives_drop:
  assumes "c_state c \<noteq> Closed" "\<not> c_connecting c" "e_reconnect env" "\<not> c_ended c" "e_maxRetries env = None"
  shows "c_queue (onSocketDown env e c) = c_queue c \<and> c_state (onSocketDown env e c) = Reconnecting"
  using assms
  by (simp add: fold_drop_keeps onSocketDown_def clearPendingCancel_def drop_all_inflight_def startReconnect_def reconnect_round_def Let_def)

end
