(* ===== verification/Conn_Wire.thy ===== *)
theory Conn_Wire
  imports Connection_Props
begin

section \<open>What the dispatch of a task puts on the wire\<close>

text \<open>
  \<open>startTask\<close> serialises straight into the shared outbound batch and rewinds it when the
  parameters or the SQL throw. Here the batch is shown to receive, per task, either nothing or a
  run of complete frontend messages with exactly one message that makes the backend answer with a
  ReadyForQuery (a Sync, or a simple Query for COPY), at its end: the in-flight list and the
  answers of the backend cannot get out of step.

  \<open>env_wire_ok\<close> is what the serialisation relies on: the encoders are \<open>param_encoder\<close>s, and a
  compiled bind encoder writes the same bytes as the interpreted one.
\<close>

definition env_wire_ok :: "('v, 'j) conn_env \<Rightarrow> bool" where
  "env_wire_ok env \<longleftrightarrow> (\<exists>w. param_encoder (e_encodeValueInto env) w) \<and>
     (\<forall>oids p. e_compileParamPlan env oids = Some p \<longrightarrow> (\<exists>w. param_encoder p w)) \<and>
     (\<forall>name oids rf jit vs. e_compileBindEncoder env name oids rf = Some jit \<and> length vs = length oids \<longrightarrow>
        (\<exists>p w. param_encoder p w \<and> (\<exists>r. refines (jit vs) r \<and>
           refines (wdo [writeBindWith [] name vs p rf, writeExecute [] 0, writeSync]) r)))"

subsection \<open>Runs of messages\<close>

text \<open>\<open>run ts bs\<close>: the bytes are whole messages of the given types, in order.\<close>

definition run :: "nat list \<Rightarrow> bytes \<Rightarrow> bool" where
  "run ts bs \<longleftrightarrow> (\<exists>ms. bs = concat (map frame_bytes ms) \<and> map (\<lambda>m. unat (rm_type m)) ms = ts)"

text \<open>Types that make the backend answer with ReadyForQuery: Sync 'S' and Query 'Q'.\<close>

definition sync_type :: "nat \<Rightarrow> bool" where
  "sync_type t \<longleftrightarrow> t = 83 \<or> t = 81"

definition quiet_run :: "bytes \<Rightarrow> bool" where
  "quiet_run bs \<longleftrightarrow> (\<exists>ts. run ts bs \<and> (\<forall>t \<in> set ts. \<not> sync_type t))"

definition sync_unit :: "bytes \<Rightarrow> bool" where
  "sync_unit bs \<longleftrightarrow> (\<exists>ts t. run (ts @ [t]) bs \<and> sync_type t \<and> (\<forall>t \<in> set ts. \<not> sync_type t))"

lemma run_Nil [simp]: "run [] []"
  by (auto simp: run_def)

lemma run_append: "run ts a \<Longrightarrow> run us b \<Longrightarrow> run (ts @ us) (a @ b)"
proof -
  assume "run ts a" "run us b"
  then obtain ms ns where "a = concat (map frame_bytes ms)" "map (\<lambda>m. unat (rm_type m)) ms = ts"
    "b = concat (map frame_bytes ns)" "map (\<lambda>m. unat (rm_type m)) ns = us" by (auto simp: run_def)
  then show ?thesis unfolding run_def by (intro exI [of _ "ms @ ns"]) simp
qed

lemma quiet_run_Nil [simp]: "quiet_run []"
  unfolding quiet_run_def by (intro exI [of _ "[]"]) simp

lemma quiet_run_append: "quiet_run a \<Longrightarrow> quiet_run b \<Longrightarrow> quiet_run (a @ b)"
  unfolding quiet_run_def by (metis Un_iff run_append set_append)

lemma sync_unit_append: "quiet_run a \<Longrightarrow> sync_unit b \<Longrightarrow> sync_unit (a @ b)"
proof -
  assume "quiet_run a" "sync_unit b"
  then obtain ts us t where "run ts a" "\<forall>t \<in> set ts. \<not> sync_type t" "run (us @ [t]) b" "sync_type t"
    "\<forall>t \<in> set us. \<not> sync_type t" by (auto simp: quiet_run_def sync_unit_def)
  with run_append [of ts a "us @ [t]" b] show ?thesis unfolding sync_unit_def
    by (intro exI [of _ "ts @ us"] exI [of _ t]) auto
qed

lemma msg_run: "msg ty payload = Inr bs \<Longrightarrow> ty < 256 \<Longrightarrow> run [ty] bs"
  unfolding run_def
  by (intro exI [of _ "[\<lparr>rm_type = b8 ty, rm_body = payload\<rparr>]"])
     (auto simp: msg_def i32_def i32_bytes_def frame_bytes_def rbind_Inr_iff split: if_splits)

lemma run_quiet: "run [ty] bs \<Longrightarrow> \<not> sync_type ty \<Longrightarrow> quiet_run bs"
  unfolding quiet_run_def by (intro exI [of _ "[ty]"]) simp

lemma run_sync: "run [ty] bs \<Longrightarrow> sync_type ty \<Longrightarrow> sync_unit bs"
  unfolding sync_unit_def by (intro exI [of _ "[]"] exI [of _ ty]) simp

subsection \<open>What an operation adds to the writer\<close>

text \<open>\<open>adds m P\<close>: \<open>m\<close> refines a result whose bytes satisfy \<open>P\<close>.\<close>

definition adds :: "unit wop \<Rightarrow> (bytes \<Rightarrow> bool) \<Rightarrow> bool" where
  "adds m P \<longleftrightarrow> (\<exists>r. refines m r \<and> (\<forall>bs. r = Inr bs \<longrightarrow> P bs))"

lemma addsI: "refines m r \<Longrightarrow> (\<And>bs. r = Inr bs \<Longrightarrow> P bs) \<Longrightarrow> adds m P"
  by (auto simp: adds_def)

lemma adds_writes:
  "adds (writeParse name sql oids) quiet_run" "adds (writeDescribe kind name) quiet_run"
  "adds (writeClose kind name) quiet_run" "adds (writeExecute portal n) quiet_run"
  "adds (writeBindRaw portal name formats vals rf) quiet_run"
  "adds writeSync sync_unit" "adds (writeQuery sql) sync_unit"
proof -
  note q = run_quiet [OF msg_run] run_sync [OF msg_run]
  show "adds (writeParse name sql oids) quiet_run"
    by (rule addsI [OF writeParse_refines]) (auto simp: rbind_Inr_iff sync_type_def intro!: q)
  show "adds (writeDescribe kind name) quiet_run"
    by (rule addsI [OF writeDescribe_refines]) (auto simp: W_describe_def sync_type_def intro!: q)
  show "adds (writeClose kind name) quiet_run"
    by (rule addsI [OF writeClose_refines]) (auto simp: W_close_def sync_type_def intro!: q)
  show "adds (writeExecute portal n) quiet_run"
    by (rule addsI [OF writeExecute_refines]) (auto simp: W_execute_def rbind_Inr_iff sync_type_def intro!: q)
  show "adds (writeBindRaw portal name formats vals rf) quiet_run"
    by (rule addsI [OF writeBindRaw_refines])
       (auto simp: bind_msg_def rbind_Inr_iff sync_type_def intro!: q split: if_splits)
  show "adds writeSync sync_unit"
    by (rule addsI [OF writeSync_refines]) (auto simp: W_sync_def sync_type_def intro!: q)
  show "adds (writeQuery sql) sync_unit"
    by (rule addsI [OF writeQuery_refines]) (auto simp: rbind_Inr_iff sync_type_def intro!: q)
qed

lemma adds_bind_with: "param_encoder p w \<Longrightarrow> adds (writeBindWith portal name vs p rf) quiet_run"
  by (rule addsI [OF param_encoder.writeBindWith_refines], assumption)
     (auto simp: bind_msg_def rbind_Inr_iff sync_type_def intro!: run_quiet [OF msg_run] split: if_splits)

lemma execution_tail:
  assumes "adds m quiet_run"
  shows "\<exists>r. refines (wdo [m, writeExecute [] 0, writeSync]) r \<and> (\<forall>bs. r = Inr bs \<longrightarrow> sync_unit bs)"
proof -
  obtain r1 r2 r3 where r: "refines m r1" "\<forall>bs. r1 = Inr bs \<longrightarrow> quiet_run bs"
    "refines (writeExecute [] 0) r2" "\<forall>bs. r2 = Inr bs \<longrightarrow> quiet_run bs"
    "refines writeSync r3" "\<forall>bs. r3 = Inr bs \<longrightarrow> sync_unit bs"
    using assms adds_writes(4) [of "[]" 0] adds_writes(6) by (auto simp: adds_def)
  have "refines (wdo [m, writeExecute [] 0, writeSync]) (rconcat [r1, r2, r3])"
    by (intro refines_wdo) (simp add: r)
  moreover have "sync_unit bs" if "rconcat [r1, r2, r3] = Inr bs" for bs
    using that r(2,4,6) by (auto simp: rbind_Inr_iff intro!: sync_unit_append)
  ultimately show ?thesis by blast
qed

lemma refines_unique_ok:
  assumes "refines m r" "refines m r'" "r = Inr bs"
  shows "r' = Inr bs"
proof -
  have w: "wf_writer (new_writer 1)" by (rule wf_new_writer) simp
  from refinesD [OF assms(1) w] refinesD [OF assms(2) w] assms(3) show ?thesis
    by (cases r') (auto simp: appends_def)
qed

lemma adds_execution:
  assumes "env_wire_ok env"
  shows "adds (write_execution env t entry) sync_unit"
proof -
  obtain enc planOids where ce: "choose_encoder env t entry = (enc, planOids)" by fastforce
  have enc: "\<exists>w. param_encoder enc w"
  proof -
    have "enc = e_encodeValueInto env \<or> (\<exists>oids. e_compileParamPlan env oids = Some enc)"
      using ce by (auto simp: choose_encoder_def Let_def split: if_splits option.splits)
    with assms show ?thesis by (auto simp: env_wire_ok_def)
  qed
  then obtain w where w: "param_encoder enc w" by blast
  let ?name = "case t_name t of Some n \<Rightarrow> n | None \<Rightarrow> []"
  let ?rf = "case t_resultFormat t of Some r \<Rightarrow> r | None \<Rightarrow> RF_all 0"
  have jit: "\<exists>p w. param_encoder p w \<and> (\<exists>r. refines (jit vs) r \<and>
      refines (wdo [writeBindWith [] ?name vs p ?rf, writeExecute [] 0, writeSync]) r)"
    if "e_compileBindEncoder env ?name oids ?rf = Some jit" "length vs = length oids" for oids jit vs
    using assms that unfolding env_wire_ok_def by (metis (no_types, lifting))
  have gen: "adds (wdo [writeBindWith [] ?name (t_params t) p ?rf, writeExecute [] 0, writeSync]) sync_unit"
    if "param_encoder p w'" for p w'
    unfolding adds_def by (rule execution_tail [OF adds_bind_with [OF that]])
  show ?thesis
  proof (cases "t_raw t")
    case (Some raw)
    then show ?thesis unfolding write_execution_def Let_def ce adds_def
      by (cases raw) (simp del: wdo.simps, rule execution_tail [OF adds_writes(5)])
  next
    case None
    have j: "adds (jit (t_params t)) sync_unit"
      if jj: "e_compileBindEncoder env ?name oids ?rf = Some jit" "length (t_params t) = length oids" for oids jit
    proof -
      obtain p w' r where p: "param_encoder p w'" "refines (jit (t_params t)) r"
        "refines (wdo [writeBindWith [] ?name (t_params t) p ?rf, writeExecute [] 0, writeSync]) r"
        using jit [OF jj] by blast
      obtain r' where r': "refines (wdo [writeBindWith [] ?name (t_params t) p ?rf, writeExecute [] 0, writeSync]) r'"
        "\<forall>bs. r' = Inr bs \<longrightarrow> sync_unit bs" using gen [OF p(1)] by (auto simp: adds_def)
      show ?thesis by (rule addsI [OF p(2)]) (use refines_unique_ok [OF p(3) r'(1)] r'(2) in blast)
    qed
    from None gen [OF w] j show ?thesis unfolding write_execution_def Let_def ce
      by (auto simp del: wdo.simps split: option.splits)
  qed
qed

subsection \<open>Serialisation\<close>

text \<open>\<open>grows m P\<close>: a serialisation step appends bytes satisfying \<open>P\<close> to the batch, or throws and leaves
  what was in the batch before it.\<close>

definition grows :: "('v, 'j, 'a) cop \<Rightarrow> (bytes \<Rightarrow> bool) \<Rightarrow> bool" where
  "grows m P \<longleftrightarrow> (\<forall>c. wf_writer (c_out c) \<longrightarrow> wf_writer (c_out (snd (m c))) \<and>
     (case fst (m c) of
        Inr _ \<Rightarrow> \<exists>bs. w_slice (c_out (snd (m c))) = w_slice (c_out c) @ bs \<and> P bs
      | Inl _ \<Rightarrow> woff (c_out c) \<le> woff (c_out (snd (m c))) \<and>
          take (woff (c_out c)) (wbuf (c_out (snd (m c)))) = w_slice (c_out c)))"

lemma growsD:
  assumes "grows m P" "wf_writer (c_out c)" "m c = (r, c')"
  shows "wf_writer (c_out c')" "r = Inr x \<Longrightarrow> \<exists>bs. w_slice (c_out c') = w_slice (c_out c) @ bs \<and> P bs"
    "r = Inl e \<Longrightarrow> woff (c_out c) \<le> woff (c_out c')" "r = Inl e \<Longrightarrow> take (woff (c_out c)) (wbuf (c_out c')) = w_slice (c_out c)"
  using assms unfolding grows_def by (cases r; force)+

lemma grows_cwrite: "adds m P \<Longrightarrow> grows (cwrite m) P"
proof -
  assume "adds m P"
  then obtain r where r: "refines m r" "\<forall>bs. r = Inr bs \<longrightarrow> P bs" by (auto simp: adds_def)
  show ?thesis unfolding grows_def
  proof (intro allI impI)
    fix c :: "('a, 'b) conn"
    assume "wf_writer (c_out c)"
    with r(1) have "appends (c_out c) (unit_of r) (m (c_out c))" by (rule refinesD)
    with r(2) show "wf_writer (c_out (snd (cwrite m c))) \<and> (case fst (cwrite m c) of
        Inr _ \<Rightarrow> \<exists>bs. w_slice (c_out (snd (cwrite m c))) = w_slice (c_out c) @ bs \<and> P bs
      | Inl _ \<Rightarrow> woff (c_out c) \<le> woff (c_out (snd (cwrite m c))) \<and>
          take (woff (c_out c)) (wbuf (c_out (snd (cwrite m c)))) = w_slice (c_out c))"
      by (cases r; cases "m (c_out c)") (auto simp: appends_def cwrite_def)
  qed
qed

lemma grows_keep: "(\<And>c. c_out (snd (m c)) = c_out c) \<Longrightarrow> P [] \<Longrightarrow> grows m P"
  unfolding grows_def by (auto simp: w_slice_def split: sum.splits)

lemma grows_cbind:
  assumes m: "grows m P" and f: "\<And>x. grows (f x) Q" and PQ: "\<And>a b. P a \<Longrightarrow> Q b \<Longrightarrow> R (a @ b)"
  shows "grows (cbind m f) R"
  unfolding grows_def
proof (intro allI impI)
  fix c :: "('a, 'b) conn"
  assume w: "wf_writer (c_out c)"
  obtain r c1 where mc: "m c = (r, c1)" by fastforce
  note m' = growsD [OF m w mc]
  show "wf_writer (c_out (snd (cbind m f c))) \<and> (case fst (cbind m f c) of
        Inr _ \<Rightarrow> \<exists>bs. w_slice (c_out (snd (cbind m f c))) = w_slice (c_out c) @ bs \<and> R bs
      | Inl _ \<Rightarrow> woff (c_out c) \<le> woff (c_out (snd (cbind m f c))) \<and>
          take (woff (c_out c)) (wbuf (c_out (snd (cbind m f c)))) = w_slice (c_out c))"
  proof (cases r)
    case (Inl e)
    with m' mc show ?thesis by (simp add: cbind_def)
  next
    case (Inr x)
    then obtain bs where bs: "w_slice (c_out c1) = w_slice (c_out c) @ bs" "P bs" using m'(2) by blast
    obtain r2 c2 where fc: "f x c1 = (r2, c2)" by fastforce
    have e: "cbind m f c = (r2, c2)" by (simp add: cbind_def mc Inr fc)
    note f' = growsD [OF f m'(1) fc]
    have off: "woff (c_out c1) = woff (c_out c) + length bs"
      using arg_cong [OF bs(1), of length] w m'(1) by simp
    show ?thesis
    proof (cases r2)
      case (Inr y)
      then obtain bs' where "w_slice (c_out c2) = w_slice (c_out c1) @ bs'" "Q bs'" using f'(2) by blast
      with bs PQ f'(1) Inr show ?thesis by (auto simp: e)
    next
      case (Inl err)
      from slice_prefix_take [OF bs(1) off f'(3) [OF Inl] f'(4) [OF Inl] w] f'(1,3) Inl off show ?thesis
        by (simp add: e)
    qed
  qed
qed

lemmas grows_quiet = grows_cbind [of _ quiet_run _ quiet_run quiet_run, OF _ _ quiet_run_append]

lemma out_upd [simp]: "c_out (upd_task i f c) = c_out c"
  by (simp add: upd_task_def)

lemma grows_assignMapper: "grows (assignMapper env i cols) quiet_run"
  by (rule grows_keep) (auto simp: assignMapper_def split: sum.splits)

lemma grows_cmod: "(\<And>c. c_out (f c) = c_out c) \<Longrightarrow> grows (cmod f) quiet_run"
  by (rule grows_keep) (simp_all add: cmod_def)

lemma grows_cret: "grows (cret x) quiet_run"
  by (rule grows_keep) (simp_all add: cret_def)

text \<open>A step that looks at the connection first.\<close>

lemma grows_cases:
  assumes "\<And>c0. \<exists>m'. grows m' P \<and> m c0 = m' c0"
  shows "grows m P"
  unfolding grows_def
proof (intro allI impI)
  fix c :: "('a, 'b) conn"
  assume w: "wf_writer (c_out c)"
  from assms [of c] obtain m' where m: "grows m' P" and e: "m c = m' c" by blast
  from m [unfolded grows_def, rule_format, OF w] show "wf_writer (c_out (snd (m c))) \<and> (case fst (m c) of
        Inr _ \<Rightarrow> \<exists>bs. w_slice (c_out (snd (m c))) = w_slice (c_out c) @ bs \<and> P bs
      | Inl _ \<Rightarrow> woff (c_out c) \<le> woff (c_out (snd (m c))) \<and>
          take (woff (c_out c)) (wbuf (c_out (snd (m c)))) = w_slice (c_out c))"
    unfolding e .
qed

lemma grows_at: "grows m P \<Longrightarrow> \<exists>m'. grows m' P \<and> m c = m' c"
  by blast

lemma grows_reuse: "grows (reuse_statement env i entry) quiet_run"
  unfolding reuse_statement_def
proof (rule grows_quiet [OF grows_cmod], simp, rule grows_cases)
  fix c :: "('a, 'b) conn"
  define P where "P x \<longleftrightarrow> (\<exists>m' :: ('a, 'b, unit) cop. grows m' quiet_run \<and> x = m' c)" for x
  have a: "P (assignMapper env i cols c)" for cols
    using grows_assignMapper unfolding P_def by blast
  have b: "P (cbind (assignMapper env i cols) (\<lambda>_. cmod (upd_task i (\<lambda>t. t\<lparr>t_resultFormat := rf\<rparr>))) c)" for cols and rf
    unfolding P_def by (rule grows_at [OF grows_quiet [OF grows_assignMapper grows_cmod]]) simp
  have k: "P (Inr (), c)"
    unfolding P_def by (rule exI [of _ "cret ()"]) (simp add: grows_cret cret_def)
  have "P (let t = c_tasks c i; fs = pe_fields entry in
       if t_typed t then
         (case (t_shapeCols t, t_mapper t) of
            (Some cols, None) \<Rightarrow> assignMapper env i (mergeUnknownCols cols fs) c
          | _ \<Rightarrow> (Inr (), c))
       else if t_binary t then assignMapper env i (fields_cols (\<lambda>_. True) fs) c
       else if t_mode t = MArray \<or> t_mode t = MObject then
         let cols = resolveCols env (fields_cols (\<lambda>f. f_dataTypeOid f \<in> set (e_reuseBinaryOids env)) fs) in
         cbind (assignMapper env i cols)
           (\<lambda>_. cmod (upd_task i (\<lambda>t. t\<lparr>t_resultFormat := Some (RF_each (map (\<lambda>c. if cc_binary c then 1 else 0) cols))\<rparr>))) c
       else assignMapper env i (fields_cols (\<lambda>_. False) fs) c)"
    unfolding Let_def using a b k by (simp split: option.split)
  then show "\<exists>m' :: ('a, 'b, unit) cop. grows m' quiet_run \<and> (let t = c_tasks c i; fs = pe_fields entry in
       if t_typed t then
         (case (t_shapeCols t, t_mapper t) of
            (Some cols, None) \<Rightarrow> assignMapper env i (mergeUnknownCols cols fs) c
          | _ \<Rightarrow> (Inr (), c))
       else if t_binary t then assignMapper env i (fields_cols (\<lambda>_. True) fs) c
       else if t_mode t = MArray \<or> t_mode t = MObject then
         let cols = resolveCols env (fields_cols (\<lambda>f. f_dataTypeOid f \<in> set (e_reuseBinaryOids env)) fs) in
         cbind (assignMapper env i cols)
           (\<lambda>_. cmod (upd_task i (\<lambda>t. t\<lparr>t_resultFormat := Some (RF_each (map (\<lambda>c. if cc_binary c then 1 else 0) cols))\<rparr>))) c
       else assignMapper env i (fields_cols (\<lambda>_. False) fs) c) = m' c"
    unfolding P_def .
qed

lemma grows_lookup: "grows (lookup_statement env i) quiet_run"
proof (rule grows_cases)
  fix c :: "('a, 'b) conn"
  have a: "\<exists>m'. grows m' quiet_run \<and> cbind (reuse_statement env i entry) (\<lambda>_. cret (Some entry)) c = m' c" for entry
    by (rule grows_at [OF grows_quiet [OF grows_reuse grows_cret]])
  have b: "\<exists>m'. grows m' quiet_run \<and> cbind (cwrite (writeClose 83 n)) (\<lambda>_. cbind (cmod (\<lambda>c. upd_task i (\<lambda>t. t\<lparr>t_reprepared := True\<rparr>)
                      (c\<lparr>c_prepared := (c_prepared c)(n := None)\<rparr>))) (\<lambda>_. cret None)) c = m' c" for n
    by (rule grows_at [OF grows_quiet [OF grows_cwrite [OF adds_writes(3)] grows_quiet [OF grows_cmod grows_cret]]]) simp
  have k: "\<exists>m'. grows m' quiet_run \<and> (Inr None, c) = m' c"
    by (rule exI [of _ "cret None"]) (simp add: grows_cret cret_def)
  show "\<exists>m'. grows m' quiet_run \<and> lookup_statement env i c = m' c"
  proof (cases "truthy_name (c_tasks c i)")
    case None
    with k show ?thesis by (simp add: lookup_statement_def)
  next
    case n: (Some n)
    show ?thesis
    proof (cases "c_prepared c n")
      case None
      with n k show ?thesis by (simp add: lookup_statement_def)
    next
      case (Some entry)
      with n a [of entry] b [of n] show ?thesis
        by (cases "pe_sql entry = t_sql (c_tasks c i)") (simp_all add: lookup_statement_def)
    qed
  qed
qed

lemma grows_close_stale: "grows (close_stale n) quiet_run"
proof (rule grows_cases)
  fix c :: "('a, 'b) conn"
  have "grows (cbind (cwrite (writeClose 83 n)) (\<lambda>_. cmod (\<lambda>c. c\<lparr>c_stale := c_stale c - {n}\<rparr>)) :: ('a, 'b, unit) cop) quiet_run"
    by (rule grows_quiet [OF grows_cwrite [OF adds_writes(3)] grows_cmod]) simp
  then show "\<exists>m' :: ('a, 'b, unit) cop. grows m' quiet_run \<and> close_stale n c = m' c"
    using grows_cret [of "()", where 'a = 'a and 'b = 'b] by (cases "n \<in> c_stale c") (auto simp: close_stale_def cret_def)
qed

lemma grows_parse_named: "grows (parse_named i n) quiet_run"
proof (rule grows_cases)
  fix c :: "('a, 'b) conn"
  let ?close = "if c_parseInflight c n \<noteq> None
      then cbind (cwrite (writeClose 83 n)) (\<lambda>_. cmod (\<lambda>c. c\<lparr>c_parseInflight := (c_parseInflight c)(n := None)\<rparr>))
      else cret () :: ('a, 'b, unit) cop"
  have cl: "grows ?close quiet_run"
    by (simp add: grows_cret) (intro impI grows_quiet [OF grows_cwrite [OF adds_writes(3)] grows_cmod], simp)
  have "grows (cbind ?close (\<lambda>_. cbind (cwrite (writeParse n sql oids)) (\<lambda>_. cret (Some n)))) quiet_run" for sql oids
    by (rule grows_quiet [OF cl grows_quiet [OF grows_cwrite [OF adds_writes(1)] grows_cret]])
  note g = grows_at [OF this] grows_at [OF grows_cret [of "None :: jsstr option", where 'a = 'a and 'b = 'b], of c]
  show "\<exists>m' :: ('a, 'b, jsstr option) cop. grows m' quiet_run \<and> parse_named i n c = m' c"
  proof (cases "c_parseInflight c n = Some (parseKey (c_tasks c i))")
    case True
    with g(2) show ?thesis by (simp add: parse_named_def cret_def)
  next
    case False
    then have "parse_named i n c = cbind ?close (\<lambda>_. cbind (cwrite (writeParse n (t_sql (c_tasks c i))
        (case t_paramTypes (c_tasks c i) of Some os \<Rightarrow> os | None \<Rightarrow> []))) (\<lambda>_. cret (Some n))) c"
      unfolding parse_named_def Let_def by (simp only: if_False)
    then show ?thesis using g(1) by (simp only:)
  qed
qed

lemma grows_prepare: "grows (prepare_statement i) quiet_run"
proof (rule grows_cases)
  fix c :: "('a, 'b) conn"
  have a: "grows (cbind (cwrite (writeParse [] sql oids)) (\<lambda>_. cbind (cwrite (writeDescribe 83 [])) (\<lambda>_. cret None))
      :: ('a, 'b, jsstr option) cop) quiet_run" for sql oids
    by (rule grows_quiet [OF grows_cwrite [OF adds_writes(1)] grows_quiet [OF grows_cwrite [OF adds_writes(2)] grows_cret]])
  have b: "grows (cbind (close_stale n) (\<lambda>_. cbind (parse_named i n) (\<lambda>parsed.
            cbind (cwrite (writeDescribe 83 n)) (\<lambda>_.
            cbind (cmod (upd_task i (\<lambda>t. t\<lparr>t_cacheName := Some n\<rparr>))) (\<lambda>_. cret parsed))))
      :: ('a, 'b, jsstr option) cop) quiet_run" for n
    by (intro grows_quiet [OF grows_close_stale] grows_quiet [OF grows_parse_named]
        grows_quiet [OF grows_cwrite [OF adds_writes(2)]] grows_quiet [OF grows_cmod grows_cret]) simp
  show "\<exists>m' :: ('a, 'b, jsstr option) cop. grows m' quiet_run \<and> prepare_statement i c = m' c"
    using a b unfolding prepare_statement_def Let_def by (cases "truthy_name (c_tasks c i)") auto
qed

lemma grows_serialize:
  assumes "env_wire_ok env"
  shows "grows (serialize_task env i) sync_unit"
proof (rule grows_cases)
  fix c :: "('a, 'b) conn"
  have q: "grows (cwrite (writeQuery sql)) sync_unit" for sql
    by (rule grows_cwrite [OF adds_writes(7)])
  have x: "grows (\<lambda>c. cwrite (write_execution env (c_tasks c i) entry) c) sync_unit" for entry
    by (rule grows_cases) (use grows_cwrite [OF adds_execution [OF assms]] in blast)
  have last: "grows (cmod (\<lambda>c. case parsed of None \<Rightarrow> c
      | Some n \<Rightarrow> c\<lparr>c_parseInflight := (c_parseInflight c)(n \<mapsto> parseKey (c_tasks c i))\<rparr>)) (\<lambda>bs. bs = [])" for parsed
    by (rule grows_keep) (simp_all add: cmod_def split: option.split)
  have p: "grows (if entry = None then prepare_statement i else cret None) quiet_run" for entry :: "prepared_entry option"
    by (simp add: grows_prepare grows_cret)
  have r: "grows (cmod (upd_task i (\<lambda>t. t\<lparr>t_reused := b\<rparr>))) quiet_run" for b by (rule grows_cmod) simp
  note s = grows_cbind [of _ quiet_run _ sync_unit sync_unit, OF _ _ sync_unit_append]
  note e = grows_cbind [of _ sync_unit _ "\<lambda>bs. bs = []" sync_unit]
  have m: "grows (cbind (lookup_statement env i) (\<lambda>entry.
           cbind (if entry = None then prepare_statement i else cret None) (\<lambda>parsed.
           cbind (cmod (upd_task i (\<lambda>t. t\<lparr>t_reused := (entry \<noteq> None)\<rparr>))) (\<lambda>_.
           cbind (\<lambda>c. cwrite (write_execution env (c_tasks c i) entry) c) (\<lambda>_.
           cmod (\<lambda>c. case parsed of None \<Rightarrow> c
                     | Some n \<Rightarrow> c\<lparr>c_parseInflight := (c_parseInflight c)(n \<mapsto> parseKey (c_tasks c i))\<rparr>)))))) sync_unit"
    by (rule s [OF grows_lookup], rule s [OF p], rule s [OF r], rule e [OF x last]) simp
  have f: "grows (cfail ParamsNotArray) sync_unit"
    unfolding grows_def cfail_def by (simp add: w_slice_def)
  show "\<exists>m'. grows m' sync_unit \<and> serialize_task env i c = m' c"
    using q m f unfolding serialize_task_def Let_def
    by (cases "t_copySource (c_tasks c i) \<or> t_copyOut (c_tasks c i)"; cases "t_paramsIsArray (c_tasks c i)")
       (auto simp: cfail_def)
qed

subsection \<open>A failed re-preparation\<close>

text \<open>\<open>forgotten n c\<close>: the client has no record of the statement \<open>n\<close>, neither as prepared nor as one
  that must be closed before it is parsed again.\<close>

definition forgotten :: "jsstr \<Rightarrow> ('v, 'j) conn \<Rightarrow> bool" where
  "forgotten n c \<longleftrightarrow> c_prepared c n = None \<and> n \<notin> c_stale c"

definition stays :: "(('v, 'j) conn \<Rightarrow> bool) \<Rightarrow> ('v, 'j, 'a) cop \<Rightarrow> bool" where
  "stays I m \<longleftrightarrow> (\<forall>c. I c \<longrightarrow> I (snd (m c)))"

lemma stays_cbind:
  assumes m: "stays I m" and f: "\<And>x. stays I (f x)"
  shows "stays I (cbind m f)"
  unfolding stays_def
proof (intro allI impI)
  fix c
  assume "I c"
  obtain r c' where mc: "m c = (r, c')" by fastforce
  with m \<open>I c\<close> have "I c'" by (auto simp: stays_def)
  with f mc show "I (snd (cbind m f c))" by (cases r) (auto simp: cbind_def stays_def)
qed

lemma stays_basic:
  "stays I (cret x)" "(\<And>c. I c \<Longrightarrow> I (f c)) \<Longrightarrow> stays I (cmod f)" "stays (forgotten n) (cwrite m)"
  by (auto simp: stays_def cret_def cmod_def cwrite_def forgotten_def split: prod.splits)

lemma stays_prepare: "stays (forgotten n) (prepare_statement i :: ('a, 'b, jsstr option) cop)"
proof -
  have cl: "stays (forgotten n) (close_stale k :: ('a, 'b, unit) cop)" for k
  proof -
    have "stays (forgotten n) (cbind (cwrite (writeClose 83 k)) (\<lambda>_. cmod (\<lambda>c. c\<lparr>c_stale := c_stale c - {k}\<rparr>)) :: ('a, 'b, unit) cop)"
      by (intro stays_cbind stays_basic) (simp add: forgotten_def)
    then show ?thesis by (simp add: stays_def close_stale_def)
  qed
  have pn: "stays (forgotten n) (parse_named i k :: ('a, 'b, jsstr option) cop)" for k
  proof -
    have "stays (forgotten n) (cbind (if b then cbind (cwrite (writeClose 83 k)) (\<lambda>_. cmod (\<lambda>c. c\<lparr>c_parseInflight := (c_parseInflight c)(k := None)\<rparr>)) else cret ())
      (\<lambda>_. cbind (cwrite (writeParse k sql os)) (\<lambda>_. cret (Some k))) :: ('a, 'b, jsstr option) cop)" for b sql os
      by (cases b; simp only: if_True if_False; intro stays_cbind stays_basic; simp add: forgotten_def)
    then show ?thesis unfolding stays_def parse_named_def Let_def by auto
  qed
  have u: "forgotten n c \<Longrightarrow> forgotten n (upd_task i f c)" for c :: "('a, 'b) conn" and f
    by (simp add: forgotten_def upd_task_def)
  have a: "stays (forgotten n) (cbind (cwrite (writeParse [] sql os)) (\<lambda>_. cbind (cwrite (writeDescribe 83 [])) (\<lambda>_. cret x))
      :: ('a, 'b, jsstr option) cop)" for sql os x
    by (intro stays_cbind stays_basic)
  have b: "stays (forgotten n) (cbind (close_stale k) (\<lambda>_. cbind (parse_named i k) (\<lambda>parsed.
            cbind (cwrite (writeDescribe 83 k)) (\<lambda>_.
            cbind (cmod (upd_task i f)) (\<lambda>_. cret parsed)))) :: ('a, 'b, jsstr option) cop)" for k f
    by (intro stays_cbind cl pn stays_basic u)
  show ?thesis using a b unfolding stays_def prepare_statement_def Let_def by (auto split: option.splits)
qed

lemma lookup_changed:
  assumes "truthy_name (c_tasks c i) = Some n" "c_prepared c n = Some entry" "pe_sql entry \<noteq> t_sql (c_tasks c i)"
    "fst (writeClose 83 n (c_out c)) = Inr ()" "n \<notin> c_stale c"
  obtains c' where "lookup_statement env i c = (Inr None, c')" "forgotten n c'"
proof -
  obtain w where "writeClose 83 n (c_out c) = (Inr (), w)" using assms(4) by (metis prod.collapse)
  then show ?thesis using assms that
    by (simp add: lookup_statement_def Let_def cbind_def cwrite_def cmod_def cret_def upd_task_def forgotten_def)
qed

lemma serialize_forgets:
  assumes "truthy_name (c_tasks c i) = Some n" "c_prepared c n = Some entry" "pe_sql entry \<noteq> t_sql (c_tasks c i)"
    "fst (writeClose 83 n (c_out c)) = Inr ()" "n \<notin> c_stale c" "\<not> t_copySource (c_tasks c i)" "\<not> t_copyOut (c_tasks c i)"
    "t_paramsIsArray (c_tasks c i)"
  shows "forgotten n (snd (serialize_task env i c))"
proof -
  obtain c' where c': "lookup_statement env i c = (Inr None, c')" "forgotten n c'" by (rule lookup_changed [OF assms(1-5)])
  have u: "forgotten n c \<Longrightarrow> forgotten n (upd_task i f c)" for c :: "('a, 'b) conn" and f
    by (simp add: forgotten_def upd_task_def)
  have x: "stays (forgotten n) (\<lambda>c. cwrite (write_execution env (c_tasks c i) entry) c)" for entry
    using stays_basic(3) by (auto simp: stays_def)
  have "stays (forgotten n) (cbind (prepare_statement i) (\<lambda>parsed.
           cbind (cmod (upd_task i (\<lambda>t. t\<lparr>t_reused := (None \<noteq> (None :: prepared_entry option))\<rparr>))) (\<lambda>_.
           cbind (\<lambda>c. cwrite (write_execution env (c_tasks c i) None) c) (\<lambda>_.
           cmod (\<lambda>c. case parsed of None \<Rightarrow> c
                     | Some n \<Rightarrow> c\<lparr>c_parseInflight := (c_parseInflight c)(n \<mapsto> parseKey (c_tasks c i))\<rparr>)))))"
    by (intro stays_cbind stays_prepare stays_basic u x) (auto simp: forgotten_def split: option.splits)
  with c'(2) have "forgotten n (snd (cbind (prepare_statement i) (\<lambda>parsed.
           cbind (cmod (upd_task i (\<lambda>t. t\<lparr>t_reused := (None \<noteq> (None :: prepared_entry option))\<rparr>))) (\<lambda>_.
           cbind (\<lambda>c. cwrite (write_execution env (c_tasks c i) None) c) (\<lambda>_.
           cmod (\<lambda>c. case parsed of None \<Rightarrow> c
                     | Some n \<Rightarrow> c\<lparr>c_parseInflight := (c_parseInflight c)(n \<mapsto> parseKey (c_tasks c i))\<rparr>)))) c'))"
    unfolding stays_def by blast
  then show ?thesis using assms(6-8) unfolding serialize_task_def Let_def
    by (simp add: cbind_def [of "lookup_statement env i"] c'(1))
qed

subsection \<open>Properties\<close>

text \<open>C4: dispatching a task is atomic on the wire. When it is serialised, the batch grows by complete
  messages of which exactly the last is a Sync (or the simple Query of a COPY), and the task joins
  the pipeline; when its SQL or a parameter throws, the batch is byte for byte what it was, the
  pipeline is unchanged and only this task's caller is rejected.\<close>

theorem startTask_atomic:
  assumes "env_wire_ok env" "wf_writer (c_out c)"
  shows "wf_writer (c_out (startTask env i c)) \<and>
    (c_inflight (startTask env i c) = c_inflight c @ [i] \<and> c_log (startTask env i c) = c_log c \<and>
       (\<exists>u. sync_unit u \<and> w_slice (c_out (startTask env i c)) = w_slice (c_out c) @ u) \<or>
     c_inflight (startTask env i c) = c_inflight c \<and> w_slice (c_out (startTask env i c)) = w_slice (c_out c) \<and>
       (\<exists>e. c_log (startTask env i c) = c_log c @ [(i, Rejected (JsErr e))]))"
proof -
  obtain r c' where s: "serialize_task env i c = (r, c')" by fastforce
  note g = growsD [OF grows_serialize [OF assms(1)] assms(2) s]
  note k = coreD(2,3) [OF serialize_core [OF s]]
  show ?thesis
  proof (cases r)
    case (Inl e)
    with g k s show ?thesis
      by (simp add: startTask_def Let_def rejectTask_def settle_def wf_writer_def w_slice_def)
  next
    case (Inr x)
    with g(1) g(2) [OF Inr] k s show ?thesis by (auto simp: startTask_def)
  qed
qed

lemma demo_wire_ok: "env_wire_ok demo_env"
proof -
  let ?w = "\<lambda>v (_ :: nat). if v = 0 then Inl (NulByte ''text param'')
     else ybind (unit_of (rconcat [i32_bytes 1, Inr [b8 v]])) (\<lambda>_. Inr (0 :: int, []))"
  have "param_encoder (e_encodeValueInto demo_env) ?w"
  proof
    fix v i :: nat
    show "yields (e_encodeValueInto demo_env v i) (?w v i)"
      using yields_bind [of "w_lpBytes [b8 v]" "unit_of (rconcat [i32_bytes 1, Inr [b8 v]])" "\<lambda>_. wret (0 :: int)" "\<lambda>_. Inr (0, [])"]
        refines_lpBytes [of "[b8 v]"]
      by (simp add: demo_env_def yields_wfail yields_wret refines_def del: unit_of_simps)
    show "keeps_msg (e_encodeValueInto demo_env v i)"
      by (simp add: demo_env_def msg_kept)
  next
    fix v i :: nat and f bs
    assume "?w v i = Inr (f, bs)"
    then show "f \<in> {0, 1}" by (auto simp: ybind_def rbind_Inr_iff split: if_splits)
  qed
  then show ?thesis unfolding env_wire_ok_def by (auto simp: demo_env_def)
qed

theorem startTask_atomic_witness:
  "env_wire_ok demo_env \<and> wf_writer (c_out (new_conn :: (nat, nat) conn)) \<and>
   wf_writer (c_out (startTask demo_env 0 (new_conn :: (nat, nat) conn)))"
proof -
  have e: "env_wire_ok demo_env" by (rule demo_wire_ok)
  have w: "wf_writer (c_out (new_conn :: (nat, nat) conn))" by (simp add: new_conn_def wf_new_writer)
  from startTask_atomic [OF e w] e w show ?thesis by blast
qed

text \<open>Re-preparing a name with other SQL is not atomic in the cache, although it is on the wire. When
  the Close was serialised and a parameter then throws, the batch is rewound and the Close never
  reaches the backend, yet the connection has already dropped the statement from its cache and did
  not mark it as stale: the backend still has the statement, and the next use of the name is parsed
  without a Close, which PostgreSQL answers with 42P05.\<close>

theorem failed_reprepare_forgets:
  assumes "env_wire_ok env" "wf_writer (c_out c)" "truthy_name (c_tasks c i) = Some n" "c_prepared c n = Some entry"
    "pe_sql entry \<noteq> t_sql (c_tasks c i)" "fst (writeClose 83 n (c_out c)) = Inr ()" "n \<notin> c_stale c"
    "\<not> t_copySource (c_tasks c i)" "\<not> t_copyOut (c_tasks c i)" "t_paramsIsArray (c_tasks c i)"
    "c_inflight (startTask env i c) = c_inflight c"
  shows "c_prepared (startTask env i c) n = None \<and> n \<notin> c_stale (startTask env i c) \<and>
    w_slice (c_out (startTask env i c)) = w_slice (c_out c)"
proof -
  obtain r c' where s: "serialize_task env i c = (r, c')" by fastforce
  have f: "forgotten n c'" using serialize_forgets [OF assms(3-10), of env] s by simp
  note g = growsD [OF grows_serialize [OF assms(1)] assms(2) s]
  show ?thesis
  proof (cases r)
    case (Inl e)
    with f s g show ?thesis by (simp add: startTask_def Let_def forgotten_def rejectTask_def settle_def w_slice_def)
  next
    case (Inr x)
    with assms(11) coreD(2) [OF serialize_core [OF s]] s show ?thesis by (simp add: startTask_def)
  qed
qed

text \<open>The name \<open>s\<close> is prepared; the new task has other SQL, which cannot be serialised.\<close>

definition demo_reprepare :: "(nat, nat) conn" where
  "demo_reprepare = new_conn\<lparr>c_out := new_writer 64, c_tasks := (\<lambda>_. blank_task\<lparr>t_name := Some (asc ''s''), t_sql := [0]\<rparr>),
     c_prepared := [asc ''s'' \<mapsto> \<lparr>pe_sql = asc ''a'', pe_fields = [], pe_paramOids = None\<rparr>]\<rparr>"

lemma asc_length: "length (asc s) = length s"
  by (simp add: asc_def)

lemma demo_close: "fst (writeClose 83 (asc ''s'') (c_out demo_reprepare)) = Inr ()"
proof -
  have "wf_writer (c_out demo_reprepare)" by (simp add: demo_reprepare_def wf_new_writer)
  from refinesD [OF writeClose_refines this, of 83 "asc ''s''"] show ?thesis
    by (simp add: W_close_def msg_def cstr_def i32_def i32_bytes_def utf8_ascii ascii_asc appends_def asc_length)
qed

lemma demo_reprepare_fails: "c_inflight (startTask demo_env 0 demo_reprepare) = c_inflight demo_reprepare"
proof -
  obtain w where w: "writeClose 83 (asc ''s'') (c_out demo_reprepare) = (Inr (), w)"
    using demo_close by (metis prod.collapse)
  have ne: "asc ''a'' \<noteq> [0]" "asc ''s'' \<noteq> []" by (simp_all add: asc_def u16_def)
  obtain e c' where s: "serialize_task demo_env 0 demo_reprepare = (Inl e, c')"
  proof -
    let ?c = "upd_task 0 (\<lambda>t. t\<lparr>t_reprepared := True\<rparr>) (demo_reprepare\<lparr>c_out := w, c_prepared := (c_prepared demo_reprepare)(asc ''s'' := None)\<rparr>)"
    have l: "lookup_statement demo_env 0 demo_reprepare = (Inr None, ?c)"
      using w ne by (simp add: lookup_statement_def Let_def cbind_def cwrite_def cmod_def cret_def
          demo_reprepare_def truthy_name_def blank_task_def)
    have t: "truthy_name (c_tasks ?c 0) = Some (asc ''s'')" "t_sql (c_tasks ?c 0) = [0]" "c_stale ?c = {}"
      "c_parseInflight ?c = (\<lambda>_. None)"
      using ne by (simp_all add: demo_reprepare_def truthy_name_def blank_task_def upd_task_def new_conn_def)
    have p: "prepare_statement 0 ?c = (Inl (NulByte ''query text''), ?c)"
      unfolding prepare_statement_def Let_def t(1)
      by (simp add: cbind_def close_stale_def parse_named_def t cwrite_def cret_def writeParse_def guardNul_def guarded_def wfail_def)
    have k: "\<not> t_copySource (c_tasks demo_reprepare 0)" "\<not> t_copyOut (c_tasks demo_reprepare 0)"
      "t_paramsIsArray (c_tasks demo_reprepare 0)" by (simp_all add: demo_reprepare_def blank_task_def)
    show ?thesis using that
      unfolding serialize_task_def Let_def by (simp add: k cbind_def [of "lookup_statement demo_env 0"] l cbind_def [of "prepare_statement 0"] p)
  qed
  from coreD(2) [OF serialize_core [OF s]] s show ?thesis
    by (simp add: startTask_def Let_def rejectTask_def settle_def)
qed

theorem failed_reprepare_forgets_witness:
  "c_prepared demo_reprepare (asc ''s'') \<noteq> None \<and> c_prepared (startTask demo_env 0 demo_reprepare) (asc ''s'') = None \<and>
   w_slice (c_out (startTask demo_env 0 demo_reprepare)) = []"
proof -
  have w: "wf_writer (c_out demo_reprepare)" by (simp add: demo_reprepare_def new_conn_def wf_new_writer)
  have n: "truthy_name (c_tasks demo_reprepare 0) = Some (asc ''s'')"
    by (simp add: demo_reprepare_def truthy_name_def asc_def blank_task_def)
  have p: "c_prepared demo_reprepare (asc ''s'') = Some \<lparr>pe_sql = asc ''a'', pe_fields = [], pe_paramOids = None\<rparr>"
    by (simp add: demo_reprepare_def)
  have i: "c_inflight (startTask demo_env 0 demo_reprepare) = c_inflight demo_reprepare"
    by (rule demo_reprepare_fails)
  have o: "asc ''a'' \<noteq> [0]" "asc ''s'' \<notin> c_stale demo_reprepare" "\<not> t_copySource (c_tasks demo_reprepare 0)"
    "\<not> t_copyOut (c_tasks demo_reprepare 0)" "t_paramsIsArray (c_tasks demo_reprepare 0)" "t_sql (c_tasks demo_reprepare 0) = [0]"
    by (simp_all add: demo_reprepare_def new_conn_def blank_task_def asc_def u16_def)
  from failed_reprepare_forgets [OF demo_wire_ok w n p _ demo_close o(2-5) i] o(1,6) p show ?thesis
    by (simp add: demo_reprepare_def new_conn_def)
qed

end
