(* ===== verification/Js_Values.thy ===== *)
theory Js_Values
  imports Wire_Messages
begin

section \<open>JavaScript values: numbers, dates, String() and JSON.stringify\<close>

text \<open>
  The parameter values the driver encodes, and the parts of the JavaScript library the encoders
  use. A number that is a safe integer is \<open>JInt\<close>; minus zero is \<open>JNegZero\<close>; any other
  number is \<open>JNum\<close> with its IEEE-754 bits and its \<open>String()\<close> form. A Date is its time value,
  None when invalid. \<open>JOther\<close> is a symbol or a function with its \<open>String()\<close> form. An object is
  the list of its properties in enumeration order. Objects with a \<open>toJSON\<close> method other than Date
  and Buffer, and cyclic objects, are not represented.
\<close>

text \<open>The \<open>String()\<close> form of a number: digits, signs, the point, and the letters of \<open>e\<close>, \<open>NaN\<close> and
  \<open>Infinity\<close>.\<close>

definition num_unit :: "unit16 \<Rightarrow> bool" where
  "num_unit c \<longleftrightarrow> unat c \<in> {43, 45, 46, 73, 78, 97, 101, 102, 105, 110, 116, 121} \<or> 48 \<le> unat c \<and> unat c \<le> 57"

typedef num_text = "{s. s \<noteq> [] \<and> list_all num_unit s}" morphisms nt_str Num_text
  by (rule exI [of _ "[u16 48]"]) (simp add: num_unit_def)

lemma nt_str_nonempty [simp]: "nt_str t \<noteq> []"
  using nt_str [of t] by simp

lemma nt_str_units: "list_all num_unit (nt_str t)"
  using nt_str [of t] by simp

lemma nt_str_ascii [simp]: "ascii (nt_str t)"
  using nt_str_units [of t] by (auto simp: ascii_def list_all_iff num_unit_def)

lemma nt_str_nul [simp]: "0 \<notin> set (nt_str t)"
  using nt_str_units [of t] by (auto simp: list_all_iff num_unit_def)

datatype jsval =
    JUndef
  | JNull
  | JBool bool
  | JInt int
  | JNegZero
  | JNum "64 word" num_text
  | JBig int
  | JStr jsstr
  | JOther jsstr
  | JDate "int option"
  | JBuf bytes
  | JU8 bytes
  | JArr "jsval list"
  | JObj "(jsstr \<times> jsval) list"

definition nullish :: "jsval \<Rightarrow> bool" where
  "nullish v \<longleftrightarrow> v = JUndef \<or> v = JNull"

subsection \<open>Numbers\<close>

text \<open>\<open>Number.isSafeInteger\<close>, with the value.\<close>

definition safe_integer :: "jsval \<Rightarrow> int option" where
  "safe_integer v = (case v of JInt n \<Rightarrow> if safe_int n then Some n else None | JNegZero \<Rightarrow> Some 0 | _ \<Rightarrow> None)"

text \<open>The IEEE-754 double of an integer of at most 53 bits.\<close>

fun bit_length :: "nat \<Rightarrow> nat" where
  "bit_length n = (if n = 0 then 0 else Suc (bit_length (n div 2)))"

declare bit_length.simps [simp del]

definition double_bits :: "int \<Rightarrow> 64 word" where
  "double_bits n =
     (if n = 0 then 0
      else let m = nat \<bar>n\<bar>; k = bit_length m
           in word_of_int ((if n < 0 then 2 ^ 63 else 0) + int (k + 1022) * 2 ^ 52
                + (int m * 2 ^ (53 - k) - 2 ^ 52)))"

definition number_bits :: "jsval \<Rightarrow> 64 word option" where
  "number_bits v = (case v of JInt n \<Rightarrow> Some (double_bits n) | JNegZero \<Rightarrow> Some (word_of_int (2 ^ 63))
     | JNum b _ \<Rightarrow> Some b | _ \<Rightarrow> None)"

text \<open>\<open>String(v)\<close> of a primitive.\<close>

definition js_string :: "jsval \<Rightarrow> jsstr" where
  "js_string v = (case v of
       JInt n \<Rightarrow> dec_int n
     | JNegZero \<Rightarrow> asc ''0''
     | JNum _ t \<Rightarrow> nt_str t
     | JBig n \<Rightarrow> dec_int n
     | JStr s \<Rightarrow> s
     | JOther s \<Rightarrow> s
     | JBool b \<Rightarrow> asc (if b then ''true'' else ''false'')
     | _ \<Rightarrow> [])"

subsection \<open>Dates\<close>

text \<open>The proleptic Gregorian calendar: day number (1970-01-01 is 0) to year, month 1-12, day. Years
  start in March here, so that the leap day ends the year: \<open>split_era\<close> takes a day of a 400-year
  era apart into the year of the era and the day of that year.\<close>

definition split_era :: "int \<Rightarrow> int \<times> int" where
  "split_era doe =
     (let c = min 3 (doe div 36524); r = doe - 36524 * c; k = r div 1461; r2 = r mod 1461; j = min 3 (r2 div 365)
      in (100 * c + 4 * k + j, r2 - 365 * j))"

definition civil_from_days :: "int \<Rightarrow> int \<times> int \<times> int" where
  "civil_from_days days =
     (let z = days + 719468; era = z div 146097; (yoe, doy) = split_era (z mod 146097);
          mp = (5 * doy + 2) div 153;
          d = doy - (153 * mp + 2) div 5 + 1;
          m = (if mp < 10 then mp + 3 else mp - 9)
      in (yoe + era * 400 + (if m \<le> 2 then 1 else 0), m, d))"

definition days_from_civil :: "int \<Rightarrow> int \<Rightarrow> int \<Rightarrow> int" where
  "days_from_civil y m d =
     (let y' = (if m \<le> 2 then y - 1 else y); era = y' div 400; yoe = y' mod 400;
          mp = (if m \<le> 2 then m + 9 else m - 3);
          doy = (153 * mp + 2) div 5 + d - 1;
          doe = yoe * 365 + yoe div 4 - yoe div 100 + doy
      in era * 146097 + doe - 719468)"

definition MAX_TIME :: int where "MAX_TIME = 8640000000000000"

text \<open>\<open>Date.UTC(y, mon, d, h, mi, s, ms)\<close>: years 0-99 mean 1900-1999; None is NaN.\<close>

definition date_utc :: "int \<Rightarrow> int \<Rightarrow> int \<Rightarrow> int \<Rightarrow> int \<Rightarrow> int \<Rightarrow> int \<Rightarrow> int option" where
  "date_utc y mon d h mi s ms =
     (let y' = (if 0 \<le> y \<and> y \<le> 99 then 1900 + y else y);
          day = days_from_civil (y' + mon div 12) (mon mod 12 + 1) 1 + d - 1;
          t = day * 86400000 + h * 3600000 + mi * 60000 + s * 1000 + ms
      in if \<bar>t\<bar> \<le> MAX_TIME then Some t else None)"

definition utc_year :: "int \<Rightarrow> int" where
  "utc_year t = fst (civil_from_days (t div 86400000))"

definition utc_month :: "int \<Rightarrow> int" where
  "utc_month t = fst (snd (civil_from_days (t div 86400000)))"

definition utc_date :: "int \<Rightarrow> int" where
  "utc_date t = snd (snd (civil_from_days (t div 86400000)))"

definition utc_hours :: "int \<Rightarrow> int" where "utc_hours t = t mod 86400000 div 3600000"
definition utc_minutes :: "int \<Rightarrow> int" where "utc_minutes t = t mod 3600000 div 60000"
definition utc_seconds :: "int \<Rightarrow> int" where "utc_seconds t = t mod 60000 div 1000"
definition utc_ms :: "int \<Rightarrow> int" where "utc_ms t = t mod 1000"

text \<open>Fixed-width decimal fields.\<close>

definition pad_dec :: "nat \<Rightarrow> nat \<Rightarrow> jsstr" where
  "pad_dec k n = (let s = dec_nat n in replicate (k - length s) (u16 48) @ s)"

definition toISOString :: "int option \<Rightarrow> js_error + jsstr" where
  "toISOString d = (case d of
       None \<Rightarrow> Inl InvalidDate
     | Some t \<Rightarrow>
         (let y = utc_year t;
              ys = (if 0 \<le> y \<and> y \<le> 9999 then pad_dec 4 (nat y)
                    else u16 (if y < 0 then 45 else 43) # pad_dec 6 (nat \<bar>y\<bar>))
          in Inr (ys @ [u16 45] @ pad_dec 2 (nat (utc_month t)) @ [u16 45] @ pad_dec 2 (nat (utc_date t)) @ [u16 84]
               @ pad_dec 2 (nat (utc_hours t)) @ [u16 58] @ pad_dec 2 (nat (utc_minutes t)) @ [u16 58]
               @ pad_dec 2 (nat (utc_seconds t)) @ [u16 46] @ pad_dec 3 (nat (utc_ms t)) @ [u16 90])))"

subsection \<open>JSON.stringify\<close>

definition hex4 :: "nat \<Rightarrow> jsstr" where
  "hex4 n = [hex_unit (n div 4096 mod 16), hex_unit (n div 256 mod 16), hex_unit (n div 16 mod 16), hex_unit (n mod 16)]"

definition esc_unit :: "nat \<Rightarrow> jsstr" where
  "esc_unit n = [u16 92, u16 117] @ hex4 n"

definition json_unit :: "unit16 \<Rightarrow> jsstr" where
  "json_unit c =
     (let n = unat c in
      if n = 34 \<or> n = 92 then [u16 92, c]
      else if n = 8 then [u16 92, u16 98] else if n = 9 then [u16 92, u16 116]
      else if n = 10 then [u16 92, u16 110] else if n = 12 then [u16 92, u16 102]
      else if n = 13 then [u16 92, u16 114]
      else if n < 32 then esc_unit n
      else [c])"

text \<open>Lone surrogates are escaped, so the result is always a well-formed string.\<close>

definition json_lone :: "unit16 \<Rightarrow> jsstr" where
  "json_lone c = (if is_hi c \<or> is_lo c then esc_unit (unat c) else json_unit c)"

fun json_units :: "jsstr \<Rightarrow> jsstr" where
  "json_units [] = []"
| "json_units [c] = json_lone c"
| "json_units (c # d # cs) =
     (if is_hi c \<and> is_lo d then c # d # json_units cs else json_lone c @ json_units (d # cs))"

definition json_quote :: "jsstr \<Rightarrow> jsstr" where
  "json_quote s = u16 34 # json_units s @ [u16 34]"

fun js_join :: "jsstr \<Rightarrow> jsstr list \<Rightarrow> jsstr" where
  "js_join sep [] = []"
| "js_join sep [s] = s"
| "js_join sep (s # t # ss) = s @ sep @ js_join sep (t # ss)"

definition braces :: "nat \<Rightarrow> nat \<Rightarrow> jsstr list \<Rightarrow> jsstr" where
  "braces l r parts = u16 l # js_join [u16 44] parts @ [u16 r]"

definition json_entry :: "jsstr \<Rightarrow> jsstr \<Rightarrow> jsstr" where
  "json_entry k v = json_quote k @ u16 58 # v"

definition byte_texts :: "bytes \<Rightarrow> jsstr list" where
  "byte_texts b = map (\<lambda>x. dec_nat (unat x)) b"

text \<open>\<open>JSON.stringify(v)\<close>; None is undefined.\<close>

fun json_val :: "jsval \<Rightarrow> js_error + jsstr option"
  and json_elems :: "jsval list \<Rightarrow> js_error + jsstr list"
  and json_members :: "(jsstr \<times> jsval) list \<Rightarrow> js_error + jsstr list" where
  "json_val JUndef = Inr None"
| "json_val (JOther s) = Inr None"
| "json_val JNull = Inr (Some (asc ''null''))"
| "json_val (JBool b) = Inr (Some (asc (if b then ''true'' else ''false'')))"
| "json_val (JInt n) = Inr (Some (dec_int n))"
| "json_val JNegZero = Inr (Some (asc ''0''))"
| "json_val (JNum bits t) =
     Inr (Some (if nt_str t \<in> {asc ''NaN'', asc ''Infinity'', asc ''-Infinity''} then asc ''null'' else nt_str t))"
| "json_val (JBig n) = Inl BigIntInJson"
| "json_val (JStr s) = Inr (Some (json_quote s))"
| "json_val (JDate d) = Inr (Some (case toISOString d of Inl e \<Rightarrow> asc ''null'' | Inr s \<Rightarrow> json_quote s))"
| "json_val (JBuf b) = Inr (Some (braces 123 125
     [json_entry (asc ''type'') (json_quote (asc ''Buffer'')), json_entry (asc ''data'') (braces 91 93 (byte_texts b))]))"
| "json_val (JU8 b) = Inr (Some (braces 123 125
     (map (\<lambda>(i, s). json_entry (dec_nat i) s) (enumerate 0 (byte_texts b)))))"
| "json_val (JArr vs) = rbind (json_elems vs) (\<lambda>ss. Inr (Some (braces 91 93 ss)))"
| "json_val (JObj kvs) = rbind (json_members kvs) (\<lambda>ss. Inr (Some (braces 123 125 ss)))"
| "json_elems [] = Inr []"
| "json_elems (v # vs) = rbind (json_val v) (\<lambda>s. rbind (json_elems vs) (\<lambda>ss.
     Inr ((case s of None \<Rightarrow> asc ''null'' | Some x \<Rightarrow> x) # ss)))"
| "json_members [] = Inr []"
| "json_members ((k, v) # kvs) = rbind (json_val v) (\<lambda>s. rbind (json_members kvs) (\<lambda>ss.
     Inr (case s of None \<Rightarrow> ss | Some x \<Rightarrow> json_entry k x # ss)))"

text \<open>\<open>JSON.stringify\<close> of an object, array, Date or Buffer is never undefined.\<close>

definition json_text :: "jsval \<Rightarrow> js_error + jsstr" where
  "json_text v = rbind (json_val v) (\<lambda>s. case s of Some x \<Rightarrow> Inr x | None \<Rightarrow> Inl (Thrown ''text of undefined''))"

subsection \<open>The calendar functions are inverse\<close>

lemma split_era:
  assumes "0 \<le> doe" "doe < 146097"
  obtains yoe doy where "split_era doe = (yoe, doy)" "0 \<le> yoe" "yoe < 400" "0 \<le> doy" "doy \<le> 365"
    "doe = 365 * yoe + yoe div 4 - yoe div 100 + doy"
proof -
  define c where "c = min 3 (doe div 36524)"
  define r where "r = doe - 36524 * c"
  define k where "k = r div 1461"
  define r2 where "r2 = r mod 1461"
  define j where "j = min 3 (r2 div 365)"
  have c: "0 \<le> c" "c \<le> 3" using assms by (auto simp: c_def)
  have r: "0 \<le> r" "r \<le> 36524"
    using assms unfolding r_def c_def by (auto simp: min_def)
  have k: "0 \<le> k" "k \<le> 24" using r by (auto simp: k_def)
  have r2: "0 \<le> r2" "r2 \<le> 1460" "r = 1461 * k + r2" by (auto simp: r2_def k_def)
  have j: "0 \<le> j" "j \<le> 3" "0 \<le> r2 - 365 * j" "r2 - 365 * j \<le> 365"
    using r2(1,2) unfolding j_def by (auto simp: min_def)
  let ?y = "100 * c + 4 * k + j"
  have "?y = j + (25 * c + k) * 4" "?y = (4 * k + j) + c * 100" by simp_all
  then have "?y div 4 = 25 * c + k" "?y div 100 = c"
    using k j by (simp_all only:)
  then have e: "doe = 365 * ?y + ?y div 4 - ?y div 100 + (r2 - 365 * j)" using r2(3) by (simp add: r_def)
  have s: "split_era doe = (?y, r2 - 365 * j)"
    by (simp add: split_era_def Let_def c_def r_def k_def r2_def j_def)
  show ?thesis by (rule that [OF s _ _ j(3,4) e]) (use c k j in simp_all)
qed

lemma civil_fields:
  assumes "civil_from_days n = (y, m, d)"
  shows "1 \<le> m" "m \<le> 12" "1 \<le> d" "d \<le> 31" "days_from_civil y m d = n"
proof -
  let ?z = "n + 719468"
  let ?era = "?z div 146097"
  have "0 \<le> ?z mod 146097" "?z mod 146097 < 146097" by auto
  then obtain yoe doy where s: "split_era (?z mod 146097) = (yoe, doy)" "0 \<le> yoe" "yoe < 400" "0 \<le> doy" "doy \<le> 365"
    "?z mod 146097 = 365 * yoe + yoe div 4 - yoe div 100 + doy" by (rule split_era)
  define mp where "mp = (5 * doy + 2) div 153"
  have mp: "0 \<le> mp" "mp \<le> 11" using s(4,5) by (auto simp: mp_def)
  have dd: "1 \<le> doy - (153 * mp + 2) div 5 + 1" "doy - (153 * mp + 2) div 5 + 1 \<le> 31"
  proof -
    have "153 * mp \<le> 5 * doy + 2" "5 * doy + 2 < 153 * mp + 153"
      "5 * ((153 * mp + 2) div 5) \<le> 153 * mp + 2" "153 * mp + 2 < 5 * ((153 * mp + 2) div 5) + 5"
      unfolding mp_def by presburger+
    then show "1 \<le> doy - (153 * mp + 2) div 5 + 1" "doy - (153 * mp + 2) div 5 + 1 \<le> 31" by linarith+
  qed
  have y: "y = yoe + ?era * 400 + (if m \<le> 2 then 1 else 0)" and m: "m = (if mp < 10 then mp + 3 else mp - 9)"
    and d: "d = doy - (153 * mp + 2) div 5 + 1"
    using assms s(1) by (auto simp: civil_from_days_def Let_def mp_def)
  show "1 \<le> m" "m \<le> 12" using mp by (auto simp: m)
  show "1 \<le> d" "d \<le> 31" using dd by (simp_all add: d)
  have yy: "(if m \<le> 2 then y - 1 else y) = yoe + ?era * 400" by (simp add: y)
  have mm: "(if m \<le> 2 then m + 9 else m - 3) = mp" using mp by (auto simp: m)
  have q: "(yoe + ?era * 400) div 400 = ?era" "(yoe + ?era * 400) mod 400 = yoe" using s(2,3) by auto
  have "?z = ?era * 146097 + ?z mod 146097" by simp
  then show "days_from_civil y m d = n" using s(6)
    unfolding days_from_civil_def yy mm Let_def q by (simp add: d)
qed

end
