(* ===== verification/Encode.thy ===== *)
theory Encode
  imports Js_Values
begin

section \<open>Parameter encoding in text format (src/encode.ts)\<close>

text \<open>
  A parameter is encoded in two ways: \<open>encodeParam\<close> builds the bytes of one value, and
  \<open>encodeValueInto\<close>, the path every query takes, writes the length-prefixed value straight into
  the Bind message without intermediate strings. The write-through encoder is shown to append
  exactly the bytes of the other one, for every value, or to throw the same error. The array
  literals, ISO dates and escapes have a write-through version each, related the same way.
\<close>

subsection \<open>Reference encoder: encodeParam and arrayLiteral\<close>

definition nul_checked :: "jsstr \<Rightarrow> js_error + jsstr" where
  "nul_checked s = (if 0 \<in> set s then Inl (NulByte ''parameter'') else Inr s)"

text \<open>\<open>str.replace(/\\/g, ...).replace(/"/g, ...)\<close>: a backslash before every backslash and quote.\<close>

definition quote_special :: "unit16 \<Rightarrow> bool" where
  "quote_special c \<longleftrightarrow> unat c = 34 \<or> unat c = 92"

definition esc_quoted :: "jsstr \<Rightarrow> jsstr" where
  "esc_quoted s = concat (map (\<lambda>c. if quote_special c then [u16 92, c] else [c]) s)"

definition hex_literal :: "bytes \<Rightarrow> jsstr" where
  "hex_literal b = [u16 92, u16 120] @ hex_bytes b"

definition bool_text :: "bool \<Rightarrow> jsstr" where
  "bool_text b = [u16 (if b then 116 else 102)]"

definition element_text :: "jsval \<Rightarrow> js_error + jsstr" where
  "element_text v = (case v of
       JDate d \<Rightarrow> toISOString d
     | JBuf b \<Rightarrow> Inr (hex_literal b)
     | JU8 b \<Rightarrow> json_text v
     | JObj kvs \<Rightarrow> json_text v
     | _ \<Rightarrow> Inr (js_string v))"

definition is_number :: "jsval \<Rightarrow> bool" where
  "is_number v \<longleftrightarrow> (case v of JInt _ \<Rightarrow> True | JNegZero \<Rightarrow> True | JNum _ _ \<Rightarrow> True | _ \<Rightarrow> False)"

definition is_bigint :: "jsval \<Rightarrow> bool" where
  "is_bigint v \<longleftrightarrow> (case v of JBig _ \<Rightarrow> True | _ \<Rightarrow> False)"

text \<open>An element that is neither null, an array, a number nor a boolean is quoted.\<close>

definition scalar_literal :: "jsval \<Rightarrow> js_error + jsstr" where
  "scalar_literal v =
     (if nullish v then Inr (asc ''NULL'')
      else if is_number v \<or> is_bigint v then Inr (js_string v)
      else case v of
        JBool b \<Rightarrow> Inr (bool_text b)
      | _ \<Rightarrow> rbind (element_text v) (\<lambda>s. Inr (u16 34 # esc_quoted s @ [u16 34])))"

fun elem_literal :: "jsval \<Rightarrow> js_error + jsstr"
  and array_items :: "bool \<Rightarrow> jsval list \<Rightarrow> js_error + jsstr" where
  "elem_literal (JArr vs) = rbind (array_items True vs) (\<lambda>s. Inr (u16 123 # s @ [u16 125]))"
| "elem_literal v = scalar_literal v"
| "array_items first [] = Inr []"
| "array_items first (v # vs) =
     rbind (elem_literal v) (\<lambda>s. rbind (array_items False vs) (\<lambda>rest.
       Inr ((if first then [] else [u16 44]) @ s @ rest)))"

definition arrayLiteral :: "jsval list \<Rightarrow> js_error + jsstr" where
  "arrayLiteral vs = elem_literal (JArr vs)"

definition text_param :: "js_error + jsstr \<Rightarrow> js_error + eparam" where
  "text_param r = rbind r (\<lambda>s. Inr \<lparr>ep_format = 0, ep_bytes = Some (utf8 s)\<rparr>)"

definition encodeParam :: "jsval \<Rightarrow> js_error + eparam" where
  "encodeParam v = (case v of
       JUndef \<Rightarrow> Inr \<lparr>ep_format = 0, ep_bytes = None\<rparr>
     | JNull \<Rightarrow> Inr \<lparr>ep_format = 0, ep_bytes = None\<rparr>
     | JBuf b \<Rightarrow> Inr \<lparr>ep_format = 1, ep_bytes = Some b\<rparr>
     | JDate d \<Rightarrow> text_param (toISOString d)
     | JBool b \<Rightarrow> text_param (Inr (bool_text b))
     | JArr vs \<Rightarrow> text_param (arrayLiteral vs)
     | JU8 b \<Rightarrow> text_param (json_text v)
     | JObj kvs \<Rightarrow> text_param (json_text v)
     | _ \<Rightarrow> text_param (nul_checked (js_string v)))"

subsection \<open>Write-through text\<close>

definition p2 :: "int \<Rightarrow> unit wop" where
  "p2 n = wdo [w_byte (nat (48 + n div 10)), w_byte (nat (48 + n mod 10))]"

definition writeIso :: "int option \<Rightarrow> unit wop" where
  "writeIso d = (case d of
       None \<Rightarrow> wfail InvalidDate
     | Some t \<Rightarrow>
         (let y = utc_year t; ms = utc_ms t in
          if \<not> (0 \<le> y \<and> y \<le> 9999)
          then (case toISOString d of Inl e \<Rightarrow> wfail e | Inr s \<Rightarrow> w_asc s)
          else wdo [w_byte (nat (48 + y div 1000 mod 10)), w_byte (nat (48 + y div 100 mod 10)),
                    w_byte (nat (48 + y div 10 mod 10)), w_byte (nat (48 + y mod 10)),
                    w_byte 45, p2 (utc_month t), w_byte 45, p2 (utc_date t),
                    w_byte 84, p2 (utc_hours t), w_byte 58, p2 (utc_minutes t), w_byte 58, p2 (utc_seconds t),
                    w_byte 46, w_byte (nat (48 + ms div 100)), w_byte (nat (48 + ms div 10 mod 10)),
                    w_byte (nat (48 + ms mod 10)), w_byte 90]))"

text \<open>\<open>run\<close> is the slice since \<open>start\<close>; the special unit begins the next slice.\<close>

definition w_slice_of :: "jsstr \<Rightarrow> unit wop" where
  "w_slice_of run = (if run \<noteq> [] then w_str run else wret ())"

fun esc_quoted_loop :: "jsstr \<Rightarrow> jsstr \<Rightarrow> unit wop" where
  "esc_quoted_loop run [] = w_slice_of run"
| "esc_quoted_loop run (c # cs) =
     (if quote_special c then wdo [w_slice_of run, w_byte 92, esc_quoted_loop [c] cs]
      else esc_quoted_loop (run @ [c]) cs)"

definition writeEscQuoted :: "jsstr \<Rightarrow> unit wop" where
  "writeEscQuoted s = esc_quoted_loop [] s"

definition w_result :: "js_error + jsstr \<Rightarrow> (jsstr \<Rightarrow> unit wop) \<Rightarrow> unit wop" where
  "w_result r f = (case r of Inl e \<Rightarrow> wfail e | Inr s \<Rightarrow> f s)"

definition write_scalar :: "jsval \<Rightarrow> unit wop" where
  "write_scalar v =
     (if nullish v then w_asc (asc ''NULL'')
      else if is_number v \<or> is_bigint v then w_asc (js_string v)
      else case v of
        JBool b \<Rightarrow> w_byte (if b then 116 else 102)
      | JDate d \<Rightarrow> wdo [w_byte 34, writeIso d, w_byte 34]
      | _ \<Rightarrow> wdo [w_byte 34, w_result (element_text v) writeEscQuoted, w_byte 34])"

fun write_elem :: "jsval \<Rightarrow> unit wop"
  and write_items :: "bool \<Rightarrow> jsval list \<Rightarrow> unit wop" where
  "write_elem (JArr vs) = wdo [w_byte 123, write_items True vs, w_byte 125]"
| "write_elem v = write_scalar v"
| "write_items first [] = wret ()"
| "write_items first (v # vs) =
     wdo [if first then wret () else w_byte 44, write_elem v, write_items False vs]"

definition writeArrayBody :: "jsval list \<Rightarrow> unit wop" where
  "writeArrayBody vs = write_elem (JArr vs)"

text \<open>An int32 length, reserved before the payload and patched after it.\<close>

definition w_len_patched :: "unit wop \<Rightarrow> unit wop" where
  "w_len_patched body =
     wbind w_mark (\<lambda>lp. wbind (w_int32 0) (\<lambda>_. wbind w_mark (\<lambda>s. wbind body (\<lambda>_.
     wbind w_mark (\<lambda>e. w_patch32 lp (int e - int s))))))"

definition arrayLiteralInto :: "jsval list \<Rightarrow> unit wop" where
  "arrayLiteralInto vs = w_len_patched (writeArrayBody vs)"

definition wcode :: "int \<Rightarrow> unit wop \<Rightarrow> int wop" where
  "wcode f m = wbind m (\<lambda>_. wret f)"

definition encodeValueInto :: "jsval \<Rightarrow> int wop" where
  "encodeValueInto v =
     (if nullish v then wcode 0 (w_int32 (- 1))
      else if is_number v then
        wcode 0 (case safe_integer v of Some n \<Rightarrow> w_lpAsciiInt n | None \<Rightarrow> w_lpAsc (js_string v))
      else case v of
        JBuf b \<Rightarrow> wcode 1 (w_lpBytes b)
      | JStr s \<Rightarrow> wcode 0 (w_result (nul_checked s) w_lpStr)
      | JBool b \<Rightarrow> wcode 0 (wdo [w_int32 1, w_byte (if b then 116 else 102)])
      | JDate d \<Rightarrow> wcode 0 (w_len_patched (writeIso d))
      | JArr vs \<Rightarrow> wcode 0 (arrayLiteralInto vs)
      | JU8 b \<Rightarrow> wcode 0 (w_result (json_text v) w_lpStr)
      | JObj kvs \<Rightarrow> wcode 0 (w_result (json_text v) w_lpStr)
      | JBig n \<Rightarrow> wcode 0 (w_result (nul_checked (js_string v)) w_lpAsc)
      | _ \<Rightarrow> wcode 0 (w_result (nul_checked (js_string v)) w_lpStr))"

subsection \<open>Fixed-width decimals\<close>

fun fix_digits :: "nat \<Rightarrow> nat \<Rightarrow> nat list" where
  "fix_digits 0 n = []"
| "fix_digits (Suc k) n = fix_digits k (n div 10) @ [n mod 10]"

lemma fix_digits_zero: "fix_digits k 0 = replicate k 0"
  by (induction k) (simp_all flip: replicate_append_same)

lemma pad_dec_fix: "n < 10 ^ k \<Longrightarrow> 0 < k \<Longrightarrow> pad_dec k n = map digit_unit (fix_digits k n)"
proof (induction k arbitrary: n)
  case (Suc k)
  have z: "digit_unit 0 = u16 48" by (simp add: digit_unit_def)
  show ?case
  proof (cases "n < 10")
    case True
    then show ?thesis
      by (simp add: pad_dec_def dec_nat_def dec_digits.simps [of n] fix_digits_zero z)
  next
    case False
    with Suc.prems have k: "n div 10 < 10 ^ k" "0 < k" by (auto simp: div_less_iff_less_mult intro: Nat.gr0I)
    from False have d: "dec_nat n = dec_nat (n div 10) @ [digit_unit (n mod 10)]"
      by (simp add: dec_nat_def dec_digits.simps [of n])
    have "pad_dec (Suc k) n = pad_dec k (n div 10) @ [digit_unit (n mod 10)]"
      unfolding pad_dec_def Let_def d by simp
    with Suc.IH [OF k] show ?thesis by simp
  qed
qed simp

lemma pad_dec_small:
  "n < 100 \<Longrightarrow> pad_dec 2 n = [digit_unit (n div 10), digit_unit (n mod 10)]"
  "n < 1000 \<Longrightarrow> pad_dec 3 n = [digit_unit (n div 100), digit_unit (n div 10 mod 10), digit_unit (n mod 10)]"
  "n < 10000 \<Longrightarrow> pad_dec 4 n = [digit_unit (n div 1000), digit_unit (n div 100 mod 10), digit_unit (n div 10 mod 10), digit_unit (n mod 10)]"
proof -
  have f2: "fix_digits 2 m = [m div 10 mod 10, m mod 10]" for m by (simp add: numeral_2_eq_2)
  have f3: "fix_digits 3 m = [m div 100 mod 10, m div 10 mod 10, m mod 10]" for m
    using fix_digits.simps(2) [of 2 m] by (simp add: f2 div_mult2_eq [symmetric])
  have f4: "fix_digits 4 m = [m div 1000 mod 10, m div 100 mod 10, m div 10 mod 10, m mod 10]" for m
    using fix_digits.simps(2) [of 3 m] by (simp add: f3 div_mult2_eq [symmetric])
  show "n < 100 \<Longrightarrow> pad_dec 2 n = [digit_unit (n div 10), digit_unit (n mod 10)]"
    using pad_dec_fix [of n 2] by (simp add: f2 div_less_iff_less_mult)
  show "n < 1000 \<Longrightarrow> pad_dec 3 n = [digit_unit (n div 100), digit_unit (n div 10 mod 10), digit_unit (n mod 10)]"
    using pad_dec_fix [of n 3] by (simp add: f3 div_less_iff_less_mult)
  show "n < 10000 \<Longrightarrow> pad_dec 4 n = [digit_unit (n div 1000), digit_unit (n div 100 mod 10), digit_unit (n div 10 mod 10), digit_unit (n mod 10)]"
    using pad_dec_fix [of n 4] by (simp add: f4 div_less_iff_less_mult)
qed

lemma digit_byte: "0 \<le> d \<Longrightarrow> d < 10 \<Longrightarrow> b8 (unat (digit_unit (nat d))) = b8 (nat (48 + d))"
  by (simp add: unat_digit_unit nat_add_distrib)

lemma digit_unit_ascii: "d < 10 \<Longrightarrow> unat (digit_unit d) < 128"
  by (simp add: unat_digit_unit)

subsection \<open>ISO dates\<close>

lemma utc_bounds:
  "1 \<le> utc_month t" "utc_month t \<le> 12" "1 \<le> utc_date t" "utc_date t \<le> 31"
  "0 \<le> utc_hours t" "utc_hours t \<le> 23" "0 \<le> utc_minutes t" "utc_minutes t \<le> 59"
  "0 \<le> utc_seconds t" "utc_seconds t \<le> 59" "0 \<le> utc_ms t" "utc_ms t \<le> 999"
proof -
  obtain y m d where c: "civil_from_days (t div 86400000) = (y, m, d)" by (metis prod_cases3)
  from civil_fields [OF c] show "1 \<le> utc_month t" "utc_month t \<le> 12" "1 \<le> utc_date t" "utc_date t \<le> 31"
    by (simp_all add: utc_month_def utc_date_def c)
  have h: "0 \<le> t mod 86400000" "t mod 86400000 < 86400000" "0 \<le> t mod 3600000" "t mod 3600000 < 3600000"
    "0 \<le> t mod 60000" "t mod 60000 < 60000" "0 \<le> t mod 1000" "t mod 1000 < 1000" by simp_all
  then show "0 \<le> utc_hours t" "utc_hours t \<le> 23" "0 \<le> utc_minutes t" "utc_minutes t \<le> 59"
    "0 \<le> utc_seconds t" "utc_seconds t \<le> 59" "0 \<le> utc_ms t" "utc_ms t \<le> 999"
    unfolding utc_hours_def utc_minutes_def utc_seconds_def utc_ms_def by auto
qed

lemma p2_refines [writes]:
  assumes "0 \<le> n" "n \<le> 99"
  shows "refines (p2 n) (Inr (utf8 (pad_dec 2 (nat n))))"
proof -
  have d: "nat n div 10 = nat (n div 10)" "nat n mod 10 = nat (n mod 10)" using assms by (simp_all add: nat_div_distrib nat_mod_distrib)
  have b: "0 \<le> n div 10" "n div 10 < 10" "0 \<le> n mod 10" "n mod 10 < 10" using assms by auto
  have "refines (p2 n) (rconcat [Inr [b8 (nat (48 + n div 10))], Inr [b8 (nat (48 + n mod 10))]])"
    unfolding p2_def by (rule refines_wdo) (simp add: writes)
  moreover have "utf8 (pad_dec 2 (nat n)) = [b8 (nat (48 + n div 10)), b8 (nat (48 + n mod 10))]"
    using assms b unfolding pad_dec_small(1) [of "nat n", simplified nat_less_iff] d
    by (simp add: pad_dec_small d utf8_ascii digit_unit_ascii digit_byte nat_less_iff)
  ultimately show ?thesis by simp
qed

lemma digit_bytes:
  "list_all (\<lambda>d. d < 10) ds \<Longrightarrow> utf8 (map digit_unit ds) = map (\<lambda>d. b8 (48 + d)) ds"
proof (induction ds)
  case (Cons d ds)
  then show ?case by (simp add: utf8_ascii_Cons digit_unit_ascii unat_digit_unit)
qed simp

lemma year_refines:
  assumes "0 \<le> y" "y \<le> 9999"
  shows "[b8 (nat (48 + y div 1000 mod 10)), b8 (nat (48 + y div 100 mod 10)), b8 (nat (48 + y div 10 mod 10)),
    b8 (nat (48 + y mod 10))] = utf8 (pad_dec 4 (nat y))"
proof -
  obtain n where y: "y = int n" using assms(1) nonneg_int_cases by blast
  then have n: "n < 10000" using assms by simp
  have q: "n div 1000 mod 10 = n div 1000" using n by (simp add: div_less_iff_less_mult)
  have e: "nat (48 + y div 1000 mod 10) = 48 + n div 1000 mod 10" "nat (48 + y div 100 mod 10) = 48 + n div 100 mod 10"
    "nat (48 + y div 10 mod 10) = 48 + n div 10 mod 10" "nat (48 + y mod 10) = 48 + n mod 10"
    unfolding y by (simp_all add: nat_add_distrib nat_div_distrib nat_mod_distrib)
  have "list_all (\<lambda>d. d < 10) [n div 1000, n div 100 mod 10, n div 10 mod 10, n mod 10]" using n by auto
  from digit_bytes [OF this] show ?thesis unfolding e q using pad_dec_small(3) [OF n] by (simp add: y)
qed

lemma millis_refines:
  assumes "0 \<le> m" "m \<le> 999"
  shows "[b8 (nat (48 + m div 100)), b8 (nat (48 + m div 10 mod 10)), b8 (nat (48 + m mod 10))] = utf8 (pad_dec 3 (nat m))"
proof -
  obtain n where m: "m = int n" using assms(1) nonneg_int_cases by blast
  then have n: "n < 1000" using assms by simp
  have e: "nat (48 + m div 100) = 48 + n div 100" "nat (48 + m div 10 mod 10) = 48 + n div 10 mod 10"
    "nat (48 + m mod 10) = 48 + n mod 10"
    unfolding m by (simp_all add: nat_add_distrib nat_div_distrib nat_mod_distrib)
  have "list_all (\<lambda>d. d < 10) [n div 100, n div 10 mod 10, n mod 10]" using n by auto
  from digit_bytes [OF this] show ?thesis unfolding e using pad_dec_small(2) [OF n] by (simp add: m)
qed

lemma ascii_pad [simp]: "ascii (pad_dec k n)"
  by (simp add: pad_dec_def Let_def ascii_def [of "replicate _ _"] list_all_iff)

lemma ascii_iso: "toISOString d = Inr s \<Longrightarrow> ascii s"
  by (auto simp: toISOString_def Let_def split: option.splits)

lemma writeIso_refines [writes]: "refines (writeIso d) (rbind (toISOString d) (\<lambda>s. Inr (utf8 s)))"
proof (cases d)
  case None
  then show ?thesis by (simp add: writeIso_def toISOString_def refines_wfail)
next
  case (Some t)
  obtain s where s: "toISOString d = Inr s" using Some by (simp add: toISOString_def Let_def)
  show ?thesis
  proof (cases "0 \<le> utc_year t \<and> utc_year t \<le> 9999")
    case False
    with Some s ascii_iso [OF s] refines_asc [of s] show ?thesis
      by (auto simp: writeIso_def Let_def utf8_ascii)
  next
    case True
    let ?y = "utc_year t" and ?m = "utc_ms t"
    have "refines (writeIso d) (rconcat [Inr [b8 (nat (48 + ?y div 1000 mod 10))], Inr [b8 (nat (48 + ?y div 100 mod 10))],
        Inr [b8 (nat (48 + ?y div 10 mod 10))], Inr [b8 (nat (48 + ?y mod 10))],
        Inr [b8 45], Inr (utf8 (pad_dec 2 (nat (utc_month t)))), Inr [b8 45], Inr (utf8 (pad_dec 2 (nat (utc_date t)))),
        Inr [b8 84], Inr (utf8 (pad_dec 2 (nat (utc_hours t)))), Inr [b8 58], Inr (utf8 (pad_dec 2 (nat (utc_minutes t)))),
        Inr [b8 58], Inr (utf8 (pad_dec 2 (nat (utc_seconds t)))), Inr [b8 46], Inr [b8 (nat (48 + ?m div 100))],
        Inr [b8 (nat (48 + ?m div 10 mod 10))], Inr [b8 (nat (48 + ?m mod 10))], Inr [b8 90]])"
      unfolding writeIso_def Some option.case Let_def using True utc_bounds [of t]
      by (simp only: simp_thms if_False, intro refines_wdo) (simp add: writes)
    moreover have "utf8 s = utf8 (pad_dec 4 (nat ?y)) @ [b8 45] @ utf8 (pad_dec 2 (nat (utc_month t))) @ [b8 45]
        @ utf8 (pad_dec 2 (nat (utc_date t))) @ [b8 84] @ utf8 (pad_dec 2 (nat (utc_hours t))) @ [b8 58]
        @ utf8 (pad_dec 2 (nat (utc_minutes t))) @ [b8 58] @ utf8 (pad_dec 2 (nat (utc_seconds t))) @ [b8 46]
        @ utf8 (pad_dec 3 (nat ?m)) @ [b8 90]"
      using s True ascii_iso [OF s] Some by (auto simp: toISOString_def Let_def utf8_ascii)
    ultimately show ?thesis
      using s year_refines [of ?y, symmetric] millis_refines [of ?m, symmetric] True utc_bounds [of t] by simp
  qed
qed

subsection \<open>Escapes and array literals\<close>

text \<open>Cutting a string before a unit that is not a low surrogate.\<close>

lemma utf8_cut: "\<not> is_lo c \<Longrightarrow> utf8 (s @ c # t) = utf8 s @ utf8 (c # t)"
  by (rule utf8_append_at) simp

lemma low_units [simp]: "\<not> is_lo (u16 34)" "\<not> is_lo (u16 44)" "\<not> is_lo (u16 92)" "\<not> is_lo (u16 125)" "\<not> is_lo (u16 123)"
  by (simp_all add: is_lo_def)

lemma special_unit: "quote_special c \<Longrightarrow> \<not> is_lo c \<and> unat c < 128"
  by (auto simp: quote_special_def is_lo_def)

lemma slice_refines [writes]: "refines (w_slice_of run) (Inr (utf8 run))"
  using refines_str [of run] by (simp add: w_slice_of_def refines_wret)

lemma wdo_Inr: "list_all2 refines ms (map Inr bss) \<Longrightarrow> refines (wdo ms) (Inr (concat bss))"
  using refines_wdo [of ms "map Inr bss"] by (simp add: rconcat_Inr)

lemma esc_quoted_loop_refines: "refines (esc_quoted_loop run cs) (Inr (utf8 (run @ esc_quoted cs)))"
proof (induction cs arbitrary: run)
  case Nil
  then show ?case by (simp add: esc_quoted_def slice_refines)
next
  case (Cons c cs)
  show ?case
  proof (cases "quote_special c")
    case True
    have "refines (wdo [w_slice_of run, w_byte 92, esc_quoted_loop [c] cs])
        (Inr (concat [utf8 run, [b8 92], utf8 ([c] @ esc_quoted cs)]))"
      using Cons.IH [of "[c]"] by (intro wdo_Inr) (simp add: writes)
    moreover have "utf8 (run @ u16 92 # c # esc_quoted cs) = utf8 run @ [b8 92] @ utf8 (c # esc_quoted cs)"
      by (simp add: utf8_cut utf8_ascii_Cons)
    ultimately show ?thesis using True by (simp add: esc_quoted_def)
  next
    case False
    with Cons.IH [of "run @ [c]"] show ?thesis by (simp add: esc_quoted_def)
  qed
qed

lemma writeEscQuoted_refines [writes]: "refines (writeEscQuoted s) (Inr (utf8 (esc_quoted s)))"
  using esc_quoted_loop_refines [of "[]" s] by (simp add: writeEscQuoted_def)

text \<open>Text pieces: an operation that writes the UTF-8 form of a fallible string.\<close>

definition writes_text :: "unit wop \<Rightarrow> js_error + jsstr \<Rightarrow> bool" where
  "writes_text m r \<longleftrightarrow> refines m (rbind r (\<lambda>s. Inr (utf8 s)))"

lemma writes_result: "(\<And>s. refines (f s) (Inr (utf8 (g s)))) \<Longrightarrow> writes_text (w_result r f) (rbind r (\<lambda>s. Inr (g s)))"
  by (cases r) (auto simp: writes_text_def w_result_def refines_wfail)

lemma ascii_js_string: "is_number v \<or> is_bigint v \<Longrightarrow> ascii (js_string v)"
  by (cases v) (auto simp: is_number_def is_bigint_def js_string_def asc_def)

lemma writes_asc: "ascii s \<Longrightarrow> writes_text (w_asc s) (Inr s)"
  using refines_asc [of s] by (simp add: writes_text_def utf8_ascii)

lemma utf8_quoted: "utf8 (u16 34 # s @ [u16 34]) = b8 34 # utf8 s @ [b8 34]"
  by (simp add: utf8_ascii_Cons utf8_cut)

lemma writes_quoted:
  assumes "writes_text m r"
  shows "writes_text (wdo [w_byte 34, m, w_byte 34]) (rbind r (\<lambda>s. Inr (u16 34 # s @ [u16 34])))"
proof -
  have "refines (wdo [w_byte 34, m, w_byte 34]) (rconcat [Inr [b8 34], rbind r (\<lambda>s. Inr (utf8 s)), Inr [b8 34]])"
    by (rule refines_wdo) (use assms in \<open>simp add: writes writes_text_def\<close>)
  then show ?thesis by (cases r) (auto simp: writes_text_def utf8_quoted)
qed

lemma esc_iso: "toISOString d = Inr s \<Longrightarrow> esc_quoted s = s"
proof -
  assume s: "toISOString d = Inr s"
  have d: "\<not> quote_special (digit_unit k)" if "k < 10" for k
    using that by (simp add: quote_special_def unat_digit_unit)
  have n: "\<forall>c \<in> set (dec_nat m). \<not> quote_special c" for m
    using d dec_digits_less by (auto simp: dec_nat_def)
  then have p: "\<forall>c \<in> set (pad_dec k m). \<not> quote_special c" for k m
    by (auto simp: pad_dec_def Let_def quote_special_def)
  have "\<forall>c \<in> set s. \<not> quote_special c" using s p
    by (auto simp: toISOString_def Let_def quote_special_def split: option.splits if_splits)
  moreover have "\<forall>c \<in> set x. \<not> quote_special c \<Longrightarrow> esc_quoted x = x" for x
    by (induction x) (auto simp: esc_quoted_def)
  ultimately show ?thesis by blast
qed

lemma write_scalar_text: "writes_text (write_scalar v) (scalar_literal v)"
proof -
  have q: "writes_text (wdo [w_byte 34, w_result r writeEscQuoted, w_byte 34]) (rbind r (\<lambda>s. Inr (u16 34 # esc_quoted s @ [u16 34])))" for r
  proof -
    have "writes_text (w_result r writeEscQuoted) (rbind r (\<lambda>s. Inr (esc_quoted s)))"
      by (rule writes_result) (rule writeEscQuoted_refines)
    from writes_quoted [OF this] show ?thesis by (cases r) simp_all
  qed
  have d: "writes_text (wdo [w_byte 34, writeIso d, w_byte 34]) (rbind (toISOString d) (\<lambda>s. Inr (u16 34 # esc_quoted s @ [u16 34])))" for d
  proof -
    have "writes_text (writeIso d) (toISOString d)" unfolding writes_text_def by (rule writeIso_refines)
    from writes_quoted [OF this] esc_iso [of d] show ?thesis by (cases "toISOString d") auto
  qed
  have b: "writes_text (w_byte (if b then 116 else 102)) (Inr (bool_text b))" for b
    using refines_byte [of "if b then 116 else 102"] by (cases b) (simp_all add: writes_text_def bool_text_def utf8_ascii_Cons)
  have n: "writes_text (w_asc (asc ''NULL'')) (Inr (asc ''NULL''))" by (rule writes_asc) (simp add: asc_def)
  show ?thesis
    using q [of "element_text v"] d b n writes_asc [OF ascii_js_string, of v]
    by (cases v) (auto simp: write_scalar_def scalar_literal_def nullish_def is_number_def is_bigint_def element_text_def
        simp del: wdo.simps)
qed

definition items_text :: "bool \<Rightarrow> jsstr \<Rightarrow> bool" where
  "items_text first s \<longleftrightarrow> (s \<noteq> [] \<and> \<not> first \<longrightarrow> hd s = u16 44)"

lemma array_items_text: "array_items first vs = Inr s \<Longrightarrow> items_text first s"
  by (cases vs) (auto simp: rbind_Inr_iff items_text_def)

lemma utf8_items: "items_text False r \<Longrightarrow> utf8 (s @ r) = utf8 s @ utf8 r"
  by (cases r) (auto simp: items_text_def utf8_cut)

lemma write_elem_text:
  "writes_text (write_elem v) (elem_literal v)"
  "writes_text (write_items first vs) (array_items first vs)"
proof (induction v and first vs rule: write_elem_write_items.induct)
  case (1 vs)
  have "refines (wdo [w_byte 123, write_items True vs, w_byte 125])
     (rconcat [Inr [b8 123], rbind (array_items True vs) (\<lambda>s. Inr (utf8 s)), Inr [b8 125]])"
    by (rule refines_wdo) (use 1 in \<open>simp add: writes writes_text_def\<close>)
  then show ?case
    by (cases "array_items True vs") (auto simp: writes_text_def utf8_ascii_Cons utf8_cut)
next
  case (4 first v vs)
  let ?sep = "if first then wret () else w_byte 44" and ?b = "if first then [] else [u16 44]"
  have sep: "refines ?sep (Inr (utf8 ?b))"
    by (cases first) (simp_all add: refines_wret refines_byte utf8_ascii_Cons)
  have "refines (wdo [?sep, write_elem v, write_items False vs])
     (rconcat [Inr (utf8 ?b), rbind (elem_literal v) (\<lambda>s. Inr (utf8 s)), rbind (array_items False vs) (\<lambda>s. Inr (utf8 s))])"
    by (rule refines_wdo) (use 4 sep in \<open>simp add: writes_text_def del: if_split\<close>)
  moreover have "utf8 (?b @ s @ r) = utf8 ?b @ utf8 s @ utf8 r" if "array_items False vs = Inr r" for s r
    using utf8_items [OF array_items_text [OF that]] by (cases first) (auto simp: utf8_ascii_Cons)
  ultimately show ?case
    by (cases "elem_literal v"; cases "array_items False vs") (auto simp: writes_text_def simp del: wdo.simps)
qed (simp_all add: write_scalar_text, simp_all add: writes_text_def refines_wret)

lemma writeArrayBody_refines: "writes_text (writeArrayBody vs) (arrayLiteral vs)"
  unfolding writeArrayBody_def arrayLiteral_def by (rule write_elem_text)


subsection \<open>Back-patched lengths\<close>

lemma i32_zero: "i32_bytes 0 = Inr [0, 0, 0, 0]"
  by (simp add: i32_bytes_def eval_nat_numeral)

definition lp_wire :: "js_error + bytes \<Rightarrow> js_error + bytes" where
  "lp_wire r = rbind r (\<lambda>bs. rconcat [i32_bytes (int (length bs)), Inr bs])"

lemma w_patch32_slot:
  assumes "wf_writer w" "w_slice w = A @ gap @ C" "length gap = 4"
  shows "case i32_bytes n of Inl e \<Rightarrow> w_patch32 (length A) n w = (Inl e, w)
    | Inr h \<Rightarrow> \<exists>w'. w_patch32 (length A) n w = (Inr (), w') \<and> wf_writer w' \<and> w_slice w' = A @ h @ C"
proof (cases "i32_bytes n")
  case (Inl e)
  then show ?thesis by (simp add: w_patch32_def w_patch_def)
next
  case (Inr h)
  then have h: "length h = 4" by (auto simp: i32_bytes_def split: if_splits)
  have len: "length A + 4 \<le> woff w" using arg_cong [OF assms(2), of length] assms(1,3) by simp
  have "take (woff w) (blit (wbuf w) (length A) h) = blit (w_slice w) (length A) h"
    using len h assms(1) by (simp add: w_slice_def wf_writer_def take_blit_inside)
  also have "\<dots> = A @ h @ C" using h assms(2,3) by (simp add: blit_def)
  moreover have "length (blit (wbuf w) (length A) h) = length (wbuf w)"
    using len h assms(1) by (simp add: length_blit wf_writer_def)
  ultimately show ?thesis using Inr len h assms(1)
    by (auto simp: w_patch32_def w_patch_def wf_writer_def w_slice_def)
qed

lemma len_patched_refines:
  assumes body: "refines body r"
  shows "refines (w_len_patched body) (lp_wire r)"
proof (rule refinesI)
  fix w assume w: "wf_writer w"
  obtain w1 where w1: "w_int32 0 w = (Inr (), w1)" "wf_writer w1" "w_slice w1 = w_slice w @ [0, 0, 0, 0]"
    "woff w1 = woff w + length [0 :: byte, 0, 0, 0]" using refines_InrD [OF refines_int32 [of 0, unfolded i32_zero] w] .
  have run: "w_len_patched body w
      = wbind body (\<lambda>_. wbind w_mark (\<lambda>e. w_patch32 (woff w) (int e - int (woff w1)))) w1"
    using w1(1) by (simp add: w_len_patched_def w_mark_def wbind_def)
  have bd: "appends w1 (unit_of r) (body w1)" by (rule refinesD [OF body w1(2)])
  show "appends w (unit_of (lp_wire r)) (w_len_patched body w)"
  proof (cases r)
    case (Inl e)
    with bd have b: "fst (body w1) = Inl e" "wf_writer (snd (body w1))" "woff w1 \<le> woff (snd (body w1))"
      "take (woff w1) (wbuf (snd (body w1))) = w_slice w1" by (auto simp: appends_Inl)
    have "take (woff w) (wbuf (snd (body w1))) = w_slice w" by (rule slice_prefix_take [OF w1(3,4) b(3,4) w])
    with Inl b w1(4) show ?thesis unfolding run
      by (cases "body w1") (simp add: wbind_def appends_Inl lp_wire_def)
  next
    case (Inr bs)
    obtain w2 where w2: "body w1 = (Inr (), w2)" "wf_writer w2" "w_slice w2 = w_slice w1 @ bs"
      "woff w2 = woff w1 + length bs" using refines_InrD [OF body [unfolded Inr] w1(2)] .
    then have run2: "w_len_patched body w = w_patch32 (length (w_slice w)) (int (length bs)) w2"
      using w by (simp add: run wbind_def w_mark_def)
    have sl: "w_slice w2 = w_slice w @ [0, 0, 0, 0] @ bs" using w1 w2 by simp
    have g: "length [0 :: byte, 0, 0, 0] = 4" by simp
    note slot = w_patch32_slot [OF w2(2) sl g, of "int (length bs)"]
    show ?thesis
    proof (cases "i32_bytes (int (length bs))")
      case (Inl e)
      have "take (woff w) (wbuf w2) = w_slice w"
        by (rule slice_prefix_take [of w2 w "[0, 0, 0, 0] @ bs"]) (use sl w w1 w2 in \<open>simp_all add: w_slice_def\<close>)
      with Inl Inr slot w2 w1 show ?thesis by (simp add: run2 appends_Inl lp_wire_def)
    next
      case (Inr h)
      with \<open>r = Inr bs\<close> slot show ?thesis by (auto simp: run2 appends_Inr lp_wire_def)
    qed
  qed
qed

subsection \<open>The write-through encoder appends the bytes of encodeParam\<close>

text \<open>The format code and the length-prefixed bytes of a parameter.\<close>

definition eparam_wire :: "js_error + eparam \<Rightarrow> js_error + int \<times> bytes" where
  "eparam_wire r = rbind r (\<lambda>p. rbind (param_bytes (ep_bytes p)) (\<lambda>bs. Inr (ep_format p, bs)))"

lemma yields_wcode:
  "refines m r \<Longrightarrow> yields (wcode f m) (rbind r (\<lambda>bs. Inr (f, bs)))"
proof -
  assume "refines m r"
  then have "yields (wcode f m) (ybind (unit_of r) (\<lambda>_. Inr (f, [])))"
    unfolding wcode_def refines_def by (rule yields_bind) (rule yields_wret)
  then show ?thesis by (cases r) (simp_all add: ybind_def)
qed

lemma yields_lp:
  "refines m (lp_wire (Inr bs)) \<Longrightarrow> yields (wcode f m) (eparam_wire (Inr \<lparr>ep_format = f, ep_bytes = Some bs\<rparr>))"
  by (drule yields_wcode [where f = f]) (simp add: eparam_wire_def param_bytes_def lp_wire_def i32_def)

lemma yields_text:
  "refines m (lp_wire (rbind r (\<lambda>s. Inr (utf8 s)))) \<Longrightarrow> yields (wcode 0 m) (eparam_wire (text_param r))"
proof (cases r)
  case (Inl e)
  assume "refines m (lp_wire (rbind r (\<lambda>s. Inr (utf8 s))))"
  with Inl have "refines m (Inl e)" by (simp add: lp_wire_def)
  from yields_wcode [OF this, of 0] Inl show ?thesis by (simp add: eparam_wire_def text_param_def)
next
  case (Inr s)
  assume "refines m (lp_wire (rbind r (\<lambda>s. Inr (utf8 s))))"
  with Inr yields_lp [of m "utf8 s" 0] show ?thesis by (simp add: text_param_def)
qed

lemma refines_result:
  "(\<And>s. r = Inr s \<Longrightarrow> refines (f s) (lp_wire (Inr (utf8 s)))) \<Longrightarrow>
   refines (w_result r f) (lp_wire (rbind r (\<lambda>s. Inr (utf8 s))))"
  by (cases r) (auto simp: w_result_def lp_wire_def refines_wfail)

lemma lpStr_lp: "refines (w_lpStr s) (lp_wire (Inr (utf8 s)))"
  using refines_lpStr [of s] by (simp add: lp_wire_def)

lemma lpAsc_lp: "ascii s \<Longrightarrow> refines (w_lpAsc s) (lp_wire (Inr (utf8 s)))"
  using refines_lpAsc [of s] by (simp add: lp_wire_def utf8_ascii latin1_def)

lemma lpInt_lp: "safe_int n \<Longrightarrow> refines (w_lpAsciiInt n) (lp_wire (Inr (utf8 (dec_int n))))"
  using refines_lpAsciiInt [of n] by (simp add: lp_wire_def utf8_ascii latin1_def)

lemma nul_free_number: "is_number v \<or> is_bigint v \<Longrightarrow> nul_checked (js_string v) = Inr (js_string v)"
proof -
  have z: "0 \<notin> set (dec_nat n)" for n
    using digit_unit_nonzero dec_digits_less by (fastforce simp: dec_nat_def)
  assume "is_number v \<or> is_bigint v"
  then show ?thesis using z
    by (cases v) (auto simp: nul_checked_def is_number_def is_bigint_def js_string_def dec_int_def asc_def u16_def)
qed

lemma dec_int_zero: "dec_int 0 = asc ''0''"
  by (simp add: dec_int_def dec_nat_def dec_digits.simps [of 0] digit_unit_def asc_def)

lemma safe_integer_text:
  assumes "safe_integer v = Some n"
  shows "safe_int n" "js_string v = dec_int n"
proof -
  have "(v = JInt n \<and> safe_int n) \<or> (v = JNegZero \<and> n = 0)"
    using assms by (cases v) (auto simp: safe_integer_def split: if_splits)
  then show "safe_int n" "js_string v = dec_int n"
    by (auto simp: js_string_def dec_int_zero) (simp add: safe_int_def)
qed

lemma encode_number:
  assumes "is_number v"
  shows "yields (encodeValueInto v) (eparam_wire (encodeParam v))"
proof -
  have p: "encodeParam v = text_param (nul_checked (js_string v))"
    using assms by (cases v) (simp_all add: encodeParam_def is_number_def)
  have s: "encodeValueInto v
      = wcode 0 (case safe_integer v of Some n \<Rightarrow> w_lpAsciiInt n | None \<Rightarrow> w_lpAsc (js_string v))"
    using assms by (auto simp: encodeValueInto_def nullish_def is_number_def)
  have "refines (case safe_integer v of Some n \<Rightarrow> w_lpAsciiInt n | None \<Rightarrow> w_lpAsc (js_string v))
      (lp_wire (Inr (utf8 (js_string v))))"
  proof (cases "safe_integer v")
    case None
    then show ?thesis using lpAsc_lp [OF ascii_js_string] assms by simp
  next
    case (Some n)
    from safe_integer_text [OF Some] Some lpInt_lp show ?thesis by simp
  qed
  with assms show ?thesis unfolding p s by (intro yields_text) (simp add: nul_free_number)
qed

lemma encode_object:
  "yields (wcode 0 (w_result r w_lpStr)) (eparam_wire (text_param r))"
  by (intro yields_text refines_result lpStr_lp)

lemma encode_eqs:
  "encodeValueInto JUndef = wcode 0 (w_int32 (- 1))" "encodeValueInto JNull = wcode 0 (w_int32 (- 1))"
  "encodeValueInto (JBool b) = wcode 0 (wdo [w_int32 1, w_byte (if b then 116 else 102)])"
  "encodeValueInto (JBig n) = wcode 0 (w_result (nul_checked (js_string (JBig n))) w_lpAsc)"
  "encodeValueInto (JStr s) = wcode 0 (w_result (nul_checked s) w_lpStr)"
  "encodeValueInto (JOther s) = wcode 0 (w_result (nul_checked s) w_lpStr)"
  "encodeValueInto (JDate d) = wcode 0 (w_len_patched (writeIso d))"
  "encodeValueInto (JBuf bs) = wcode 1 (w_lpBytes bs)"
  "encodeValueInto (JU8 bs) = wcode 0 (w_result (json_text (JU8 bs)) w_lpStr)"
  "encodeValueInto (JArr vs) = wcode 0 (arrayLiteralInto vs)"
  "encodeValueInto (JObj kvs) = wcode 0 (w_result (json_text (JObj kvs)) w_lpStr)"
  by (simp_all add: encodeValueInto_def nullish_def is_number_def js_string_def del: wdo.simps)

lemma param_eqs:
  "encodeParam JUndef = Inr \<lparr>ep_format = 0, ep_bytes = None\<rparr>" "encodeParam JNull = Inr \<lparr>ep_format = 0, ep_bytes = None\<rparr>"
  "encodeParam (JBool b) = text_param (Inr (bool_text b))"
  "encodeParam (JBig n) = text_param (nul_checked (js_string (JBig n)))"
  "encodeParam (JStr s) = text_param (nul_checked s)" "encodeParam (JOther s) = text_param (nul_checked s)"
  "encodeParam (JDate d) = text_param (toISOString d)"
  "encodeParam (JBuf bs) = Inr \<lparr>ep_format = 1, ep_bytes = Some bs\<rparr>"
  "encodeParam (JU8 bs) = text_param (json_text (JU8 bs))" "encodeParam (JArr vs) = text_param (arrayLiteral vs)"
  "encodeParam (JObj kvs) = text_param (json_text (JObj kvs))"
  by (simp_all add: encodeParam_def js_string_def)

lemma encode_yields: "yields (encodeValueInto v) (eparam_wire (encodeParam v))"
proof (cases v)
  case (JBool b)
  have "refines (wdo [w_int32 1, w_byte (if b then 116 else 102)]) (rconcat [i32_bytes 1, Inr [b8 (if b then 116 else 102)]])"
    by (rule refines_wdo) (simp add: writes)
  also have "rconcat [i32_bytes 1, Inr [b8 (if b then 116 else 102)]] = lp_wire (rbind (Inr (bool_text b)) (\<lambda>s. Inr (utf8 s)))"
    by (cases b) (simp_all add: lp_wire_def bool_text_def utf8_ascii_Cons)
  finally show ?thesis unfolding JBool encode_eqs param_eqs by (rule yields_text)
next
  case (JBig n)
  have "ascii (js_string v)" "nul_checked (js_string v) = Inr (js_string v)"
    using ascii_js_string [of v] nul_free_number [of v] JBig by (simp_all add: is_bigint_def)
  then have "refines (w_result (nul_checked (js_string v)) w_lpAsc) (lp_wire (rbind (nul_checked (js_string v)) (\<lambda>s. Inr (utf8 s))))"
    using lpAsc_lp [of "js_string v"] by (simp add: w_result_def)
  then show ?thesis unfolding JBig encode_eqs param_eqs by (rule yields_text)
next
  case (JDate d)
  show ?thesis unfolding JDate encode_eqs param_eqs
    by (intro yields_text len_patched_refines writeIso_refines)
next
  case (JArr vs)
  have "refines (arrayLiteralInto vs) (lp_wire (rbind (arrayLiteral vs) (\<lambda>s. Inr (utf8 s))))"
    unfolding arrayLiteralInto_def
    by (rule len_patched_refines) (use writeArrayBody_refines [of vs] in \<open>simp add: writes_text_def\<close>)
  then show ?thesis unfolding JArr encode_eqs param_eqs by (rule yields_text)
next
  case (JBuf b)
  have "refines (w_lpBytes b) (lp_wire (Inr b))" using refines_lpBytes [of b] by (simp add: lp_wire_def)
  then show ?thesis unfolding JBuf encode_eqs param_eqs by (rule yields_lp)
qed (simp_all add: encode_number is_number_def encode_eqs param_eqs encode_object,
     (use yields_wcode [OF refines_int32, of 0 "- 1"] in \<open>simp add: eparam_wire_def param_bytes_def i32_def\<close>)+)

subsection \<open>The encoder satisfies the ParamsEncoder contract\<close>

lemma keeps_msg_mark_patch [msg_kept]: "keeps_msg w_mark" "keeps_msg (w_patch16 p n)" "keeps_msg (w_patch32 p n)" "keeps_msg (w_rewind off)"
  by (simp_all add: keeps_msg_def w_mark_def w_patch16_def w_patch32_def w_patch_def w_rewind_def split: sum.splits)

lemma keeps_msg_slice [msg_kept]: "keeps_msg (w_slice_of run)"
  by (simp add: w_slice_of_def msg_kept)

lemma keeps_msg_escaped [msg_kept]: "keeps_msg (esc_quoted_loop run cs)" "keeps_msg (writeEscQuoted s)"
proof -
  show l: "keeps_msg (esc_quoted_loop run cs)" for run cs
    by (induction run cs rule: esc_quoted_loop.induct) (simp_all add: msg_kept)
  show "keeps_msg (writeEscQuoted s)" by (simp add: writeEscQuoted_def l)
qed

lemma keeps_msg_result [msg_kept]: "(\<And>s. keeps_msg (f s)) \<Longrightarrow> keeps_msg (w_result r f)"
  by (cases r) (simp_all add: w_result_def msg_kept)

lemma keeps_msg_iso [msg_kept]: "keeps_msg (writeIso d)"
  by (auto simp: writeIso_def p2_def Let_def msg_kept list_all_iff simp del: wdo.simps split: option.splits sum.splits)

lemma keeps_msg_scalar [msg_kept]: "keeps_msg (write_scalar v)"
  by (cases v) (auto simp: write_scalar_def msg_kept simp del: wdo.simps)

lemma keeps_msg_elems [msg_kept]: "keeps_msg (write_elem v)" "keeps_msg (write_items first vs)"
  by (induction v and first vs rule: write_elem_write_items.induct) (simp_all add: msg_kept)

lemma keeps_msg_len_patched [msg_kept]: "keeps_msg m \<Longrightarrow> keeps_msg (w_len_patched m)"
  by (simp add: w_len_patched_def msg_kept)

lemma keeps_msg_array [msg_kept]: "keeps_msg (arrayLiteralInto vs)"
  by (simp add: arrayLiteralInto_def writeArrayBody_def msg_kept)

lemma keeps_msg_code [msg_kept]: "keeps_msg m \<Longrightarrow> keeps_msg (wcode f m)"
  by (simp add: wcode_def msg_kept)

lemma keeps_msg_encode [msg_kept]: "keeps_msg (encodeValueInto v)"
  by (cases v) (auto simp: encodeValueInto_def msg_kept simp del: wdo.simps split: option.splits)

lemma text_param_format: "text_param r = Inr p \<Longrightarrow> ep_format p = 0"
  by (auto simp: text_param_def rbind_Inr_iff)

lemma encode_format: "eparam_wire (encodeParam v) = Inr (f, bs) \<Longrightarrow> f \<in> {0, 1}"
  by (cases v) (auto simp: eparam_wire_def rbind_Inr_iff encodeParam_def dest: text_param_format)

interpretation text_encoder: param_encoder "\<lambda>v i. encodeValueInto v" "\<lambda>v i. eparam_wire (encodeParam v)"
  by unfold_locales (auto intro: encode_yields msg_kept dest: encode_format)

text \<open>C33: the write-through encoder is the reference encoder: for every JavaScript value it appends
  exactly the length-prefixed bytes that \<open>encodeParam\<close> builds and returns its format code, or throws
  the same error with everything written before intact (NUL bytes, invalid dates, values that have
  no JSON text).\<close>

theorem encodeValueInto_exact:
  "yields (encodeValueInto v) (rbind (encodeParam v) (\<lambda>p.
     rbind (param_bytes (ep_bytes p)) (\<lambda>bs. Inr (ep_format p, bs))))"
  using encode_yields [of v] unfolding eparam_wire_def .

end
