(* ===== verification/Encode_Binary.thy ===== *)
theory Encode_Binary
  imports Encode
begin

section \<open>Binary parameters (src/encode.ts)\<close>

text \<open>
  Once the parameter types of a statement are known, values that fit a fast type are sent in
  binary; every other value falls back to text. \<open>binEncoderFor\<close> chooses the encoder of an OID,
  \<open>elemEncoderFor\<close> the encoder of an array element or a COPY field (which throws
  \<open>ElemMismatch\<close> instead of falling back), \<open>arrayEnc\<close> writes a binary array and rewinds to a
  text literal on a mismatch, \<open>compileParamPlan\<close> combines them into the plan of a statement.

  The specification is \<open>bin_payload\<close>: the value in the binary format of the type, None when it
  does not fit. The lemmas show that each encoder writes that payload behind its length or falls
  back to the text of \<open>encodeParam\<close>, that the array encoder leaves no trace of a partial binary
  array, and that the plan is an encoder of the kind \<open>writeBindWith\<close> relies on.
\<close>

subsection \<open>Encoders\<close>

definition PG_EPOCH_MS :: int where "PG_EPOCH_MS = 946684800000"
definition MS_SAFE :: int where "MS_SAFE = 9007199254740"
definition I64_MIN :: int where "I64_MIN = - 9223372036854775808"
definition I64_MAX :: int where "I64_MAX = 9223372036854775807"

text \<open>\<open>typeof v = 'number'\<close>, an integer, within bounds: its value.\<close>

definition int_in :: "int \<Rightarrow> int \<Rightarrow> jsval \<Rightarrow> int option" where
  "int_in lo hi v = (case v of JInt n \<Rightarrow> if lo \<le> n \<and> n \<le> hi then Some n else None
     | JNegZero \<Rightarrow> if lo \<le> 0 \<and> 0 \<le> hi then Some 0 else None | _ \<Rightarrow> None)"

definition write_bool :: "bool \<Rightarrow> unit wop" where
  "write_bool b = wdo [w_int32 1, w_byte (if b then 1 else 0)]"

definition write_int2 :: "int \<Rightarrow> unit wop" where
  "write_int2 n = wdo [w_int32 2, w_int16 (n mod 65536)]"

definition write_int4 :: "int \<Rightarrow> unit wop" where
  "write_int4 n = wdo [w_int32 4, w_int32 n]"

text \<open>int8: a safe integer, or a BigInt in range.\<close>

definition write_int8 :: "jsval \<Rightarrow> unit wop option" where
  "write_int8 v = (case safe_integer v of
       Some n \<Rightarrow> Some (w_lpI64 n)
     | None \<Rightarrow> (case v of JBig n \<Rightarrow> if I64_MIN \<le> n \<and> n \<le> I64_MAX then Some (w_lpI64Big n) else None | _ \<Rightarrow> None))"

text \<open>Microseconds since 2000-01-01; an invalid Date has no value.\<close>

definition write_stamp :: "jsval \<Rightarrow> unit wop option" where
  "write_stamp v = (case v of
       JDate (Some t) \<Rightarrow>
         (let ms = t - PG_EPOCH_MS
          in Some (if - MS_SAFE \<le> ms \<and> ms \<le> MS_SAFE then w_lpI64 (ms * 1000) else w_lpI64Big (ms * 1000)))
     | _ \<Rightarrow> None)"

text \<open>The value's own binary encoder, None when the value does not fit the type.\<close>

definition fast_enc :: "int \<Rightarrow> jsval \<Rightarrow> unit wop option" where
  "fast_enc oid v =
     (if oid = 16 then (case v of JBool b \<Rightarrow> Some (write_bool b) | _ \<Rightarrow> None)
      else if oid = 21 then map_option write_int2 (int_in (- 32768) 32767 v)
      else if oid = 23 then map_option write_int4 (int_in (- 2147483648) 2147483647 v)
      else if oid = 20 then write_int8 v
      else if oid = 701 then map_option w_lpF8 (number_bits v)
      else if oid = 1114 \<or> oid = 1184 then write_stamp v
      else None)"

definition JIT_FAST :: "int set" where
  "JIT_FAST = {16, 21, 23, 20, 701, 1114, 1184}"

definition elemEncoderFor :: "int \<Rightarrow> jsval \<Rightarrow> unit wop" where
  "elemEncoderFor oid v =
     (if oid = 25 \<or> oid = 1043 then
        (case v of JStr s \<Rightarrow> if 0 \<in> set s then wfail ElemMismatch else w_lpStr s | _ \<Rightarrow> wfail ElemMismatch)
      else case fast_enc oid v of Some m \<Rightarrow> m | None \<Rightarrow> wfail ElemMismatch)"

definition w_try :: "'a wop \<Rightarrow> (js_error \<Rightarrow> 'a wop) \<Rightarrow> 'a wop" where
  "w_try m h w = (case m w of (Inl e, w') \<Rightarrow> h e w' | (Inr x, w') \<Rightarrow> (Inr x, w'))"

definition array_elem :: "int \<Rightarrow> jsval \<Rightarrow> unit wop" where
  "array_elem elemOid e = (if nullish e then w_int32 (- 1) else elemEncoderFor elemOid e)"

definition has_null :: "jsval list \<Rightarrow> int" where
  "has_null vs = (if list_ex nullish vs then 1 else 0)"

definition array_body :: "int \<Rightarrow> jsval list \<Rightarrow> unit wop" where
  "array_body elemOid vs =
     (if vs = [] then wdo [w_int32 0, w_int32 0, w_int32 elemOid]
      else wdo [w_int32 1, w_int32 (has_null vs), w_int32 elemOid, w_int32 (int (length vs)), w_int32 1,
                wdo (map (array_elem elemOid) vs)])"

definition binary_array :: "int \<Rightarrow> jsval list \<Rightarrow> unit wop" where
  "binary_array elemOid vs =
     wbind w_mark (\<lambda>lenPos. wbind (w_int32 0) (\<lambda>_. wbind (array_body elemOid vs) (\<lambda>_.
     wbind w_mark (\<lambda>e. w_patch32 lenPos (int e - int lenPos - 4)))))"

definition arrayEnc :: "int \<Rightarrow> jsval \<Rightarrow> int wop" where
  "arrayEnc elemOid v = (case v of
       JArr vs \<Rightarrow> wbind w_mark (\<lambda>mark.
         w_try (wcode 1 (binary_array elemOid vs))
           (\<lambda>e. if e \<noteq> ElemMismatch then wfail e
                 else wbind (w_rewind mark) (\<lambda>_. wcode 0 (arrayLiteralInto vs))))
     | _ \<Rightarrow> encodeValueInto v)"

text \<open>\<open>ELEM_OID\<close> of decode.ts: array OID to element OID.\<close>

definition ELEM_OID :: "int \<Rightarrow> int option" where
  "ELEM_OID = map_of [(1000, 16), (1005, 21), (1007, 23), (1028, 26), (1016, 20), (1021, 700), (1022, 701),
     (1231, 1700), (791, 790), (1009, 25), (1015, 1043), (1014, 1042), (1002, 18), (1003, 19), (199, 114),
     (3807, 3802), (1001, 17), (2951, 2950), (1182, 1082), (1183, 1083), (1115, 1114), (1185, 1184),
     (1187, 1186), (629, 628), (1017, 600)]"

definition json_param :: "jsval \<Rightarrow> int wop" where
  "json_param v = wcode 0 (w_result (case v of JStr s \<Rightarrow> Inr s | _ \<Rightarrow> json_text v) w_lpStr)"

definition binEncoderFor :: "int \<Rightarrow> (jsval \<Rightarrow> int wop) option" where
  "binEncoderFor oid =
     (if oid \<in> JIT_FAST then
        Some (\<lambda>v. case fast_enc oid v of Some m \<Rightarrow> wcode 1 m | None \<Rightarrow> encodeValueInto v)
      else if oid = 114 \<or> oid = 3802 then Some json_param
      else map_option arrayEnc (ELEM_OID oid))"

definition compileParamPlan :: "int list \<Rightarrow> jsval encoder option" where
  "compileParamPlan oids =
     (let encs = map binEncoderFor oids
      in if list_all (\<lambda>e. e = None) encs then None
         else Some (\<lambda>v i. case (if i < length encs then encs ! i else None) of
                            Some e \<Rightarrow> e v | None \<Rightarrow> encodeValueInto v))"

subsection \<open>The binary format of a value\<close>

text \<open>The payload the type's receive function reads, None when the value does not fit. A Date's
  time value is at most 8.64e15 in magnitude, so its microseconds always fit int64.\<close>

definition bin_payload :: "int \<Rightarrow> jsval \<Rightarrow> (js_error + bytes) option" where
  "bin_payload oid v =
     (if oid = 16 then (case v of JBool b \<Rightarrow> Some (Inr [if b then 1 else 0]) | _ \<Rightarrow> None)
      else if oid = 21 then map_option (\<lambda>n. Inr (be_bytes 2 n)) (int_in (- 32768) 32767 v)
      else if oid = 23 then map_option (\<lambda>n. Inr (be_bytes 4 n)) (int_in (- 2147483648) 2147483647 v)
      else if oid = 20 then
        (case v of JBig n \<Rightarrow> if I64_MIN \<le> n \<and> n \<le> I64_MAX then Some (Inr (be_bytes 8 n)) else None
           | _ \<Rightarrow> map_option (\<lambda>n. Inr (be_bytes 8 n)) (safe_integer v))
      else if oid = 701 then map_option (\<lambda>b. Inr (be_bytes 8 (uint b))) (number_bits v)
      else if oid = 1114 \<or> oid = 1184 then
        (case v of JDate (Some t) \<Rightarrow> Some (i64_bytes ((t - PG_EPOCH_MS) * 1000)) | _ \<Rightarrow> None)
      else if oid = 25 \<or> oid = 1043 then
        (case v of JStr s \<Rightarrow> if 0 \<in> set s then None else Some (Inr (utf8 s)) | _ \<Rightarrow> None)
      else None)"

lemma write_bool_refines: "refines (write_bool b) (lp_wire (Inr [if b then 1 else 0]))"
proof -
  have "refines (write_bool b) (rconcat [i32_bytes 1, Inr [b8 (if b then 1 else 0)]])"
    unfolding write_bool_def by (rule refines_wdo) (simp add: writes)
  then show ?thesis by (cases b) (simp_all add: lp_wire_def b8_def)
qed

lemma be_bytes_mod2: "be_bytes 2 (n mod 65536) = be_bytes 2 n"
  using be_bytes_mod [of 2 n] by simp

lemma write_int2_refines: "refines (write_int2 n) (lp_wire (Inr (be_bytes 2 n)))"
proof -
  have "refines (write_int2 n) (rconcat [i32_bytes 2, i16_bytes (n mod 65536)])"
    unfolding write_int2_def by (rule refines_wdo) (simp add: writes)
  moreover have "i16_bytes (n mod 65536) = Inr (be_bytes 2 n)"
    using pos_mod_bound [of 65536 n] by (simp add: i16_bytes_def be_bytes_mod2)
  ultimately show ?thesis by (simp add: lp_wire_def)
qed

lemma write_int4_refines:
  "- 2147483648 \<le> n \<Longrightarrow> n \<le> 2147483647 \<Longrightarrow> refines (write_int4 n) (lp_wire (Inr (be_bytes 4 n)))"
proof -
  assume n: "- 2147483648 \<le> n" "n \<le> 2147483647"
  have "refines (write_int4 n) (rconcat [i32_bytes 4, i32_bytes n])"
    unfolding write_int4_def by (rule refines_wdo) (simp add: writes)
  then show ?thesis using n by (simp add: lp_wire_def i32_bytes_def)
qed

lemma i64_lp: "rconcat [i32_bytes 8, i64_bytes n] = lp_wire (i64_bytes n)"
  by (simp add: lp_wire_def i64_bytes_def i32_bytes_def)

lemma i64_bytes_in: "I64_MIN \<le> n \<Longrightarrow> n \<le> I64_MAX \<Longrightarrow> i64_bytes n = Inr (be_bytes 8 n)"
  by (simp add: i64_bytes_def I64_MIN_def I64_MAX_def)

lemma safe_i64: "safe_int n \<Longrightarrow> i64_bytes n = Inr (be_bytes 8 n)"
  by (auto simp: safe_int_def i64_bytes_def)

lemmas lpI64_lp = refines_lpI64 [unfolded i64_lp]
lemmas lpI64Big_lp = refines_lpI64Big [unfolded i64_lp]

lemma write_int8_refines:
  assumes "write_int8 v = Some m"
  shows "\<exists>r. bin_payload 20 v = Some r \<and> refines m (lp_wire r)"
proof (cases "safe_integer v")
  case (Some n)
  then have m: "m = w_lpI64 n" using assms by (simp add: write_int8_def)
  have "bin_payload 20 v = Some (i64_bytes n)" using Some safe_i64 [OF safe_integer_text(1) [OF Some]]
    by (cases v) (auto simp: bin_payload_def safe_integer_def)
  with lpI64_lp [OF safe_integer_text(1) [OF Some]] show ?thesis by (simp add: m)
next
  case None
  with assms obtain n where n: "v = JBig n" "I64_MIN \<le> n" "n \<le> I64_MAX" "m = w_lpI64Big n"
    by (auto simp: write_int8_def split: jsval.splits if_splits)
  with lpI64Big_lp [of n] show ?thesis by (simp add: i64_bytes_in bin_payload_def)
qed

lemma write_int8_None: "write_int8 v = None \<Longrightarrow> bin_payload 20 v = None"
  by (cases v) (auto simp: write_int8_def bin_payload_def split: option.splits if_splits)

lemma write_stamp_refines:
  assumes "write_stamp v = Some m"
  shows "\<exists>t. v = JDate (Some t) \<and> refines m (lp_wire (i64_bytes ((t - PG_EPOCH_MS) * 1000)))"
proof -
  from assms obtain t where v: "v = JDate (Some t)"
    and m: "m = (if - MS_SAFE \<le> t - PG_EPOCH_MS \<and> t - PG_EPOCH_MS \<le> MS_SAFE
             then w_lpI64 ((t - PG_EPOCH_MS) * 1000) else w_lpI64Big ((t - PG_EPOCH_MS) * 1000))"
    by (auto simp: write_stamp_def Let_def split: jsval.splits option.splits)
  have "safe_int ((t - PG_EPOCH_MS) * 1000)" if "- MS_SAFE \<le> t - PG_EPOCH_MS" "t - PG_EPOCH_MS \<le> MS_SAFE"
    using that by (auto simp: MS_SAFE_def safe_int_def)
  with v m lpI64_lp lpI64Big_lp show ?thesis by auto
qed

lemma fast_enc_refines:
  assumes "fast_enc oid v = Some m"
  shows "\<exists>r. bin_payload oid v = Some r \<and> refines m (lp_wire r)"
proof -
  consider b where "oid = 16" "v = JBool b" "m = write_bool b"
    | n where "oid = 21" "int_in (- 32768) 32767 v = Some n" "m = write_int2 n"
    | n where "oid = 23" "int_in (- 2147483648) 2147483647 v = Some n" "m = write_int4 n"
    | "oid = 20" "write_int8 v = Some m"
    | b where "oid = 701" "number_bits v = Some b" "m = w_lpF8 b"
    | "oid = 1114 \<or> oid = 1184" "write_stamp v = Some m"
    using assms by (auto simp: fast_enc_def split: if_splits jsval.splits)
  then show ?thesis
  proof cases
    case 3
    then have "- 2147483648 \<le> n" "n \<le> 2147483647" by (auto simp: int_in_def split: jsval.splits if_splits)
    with 3 write_int4_refines show ?thesis by (simp add: bin_payload_def)
  next
    case 4
    with write_int8_refines show ?thesis by simp
  next
    case (5 b)
    with refines_lpF8 [of b] show ?thesis by (simp add: bin_payload_def lp_wire_def)
  next
    case 6
    from write_stamp_refines [OF 6(2)] 6(1) show ?thesis by (auto simp: bin_payload_def)
  qed (simp_all add: bin_payload_def write_bool_refines write_int2_refines)
qed

lemma fast_enc_None:
  assumes "fast_enc oid v = None" "oid \<noteq> 25" "oid \<noteq> 1043"
  shows "bin_payload oid v = None"
  using assms write_int8_None [of v]
  by (auto simp: fast_enc_def bin_payload_def write_stamp_def Let_def split: if_splits jsval.splits option.splits)

subsection \<open>Elements and arrays\<close>

definition elem_wire :: "int \<Rightarrow> jsval \<Rightarrow> js_error + bytes" where
  "elem_wire oid v = (case bin_payload oid v of Some r \<Rightarrow> lp_wire r | None \<Rightarrow> Inl ElemMismatch)"

lemma elem_refines: "refines (elemEncoderFor oid v) (elem_wire oid v)"
proof (cases "oid = 25 \<or> oid = 1043")
  case True
  then have p: "bin_payload oid v = (case v of JStr s \<Rightarrow> if 0 \<in> set s then None else Some (Inr (utf8 s)) | _ \<Rightarrow> None)"
    by (auto simp: bin_payload_def)
  from True show ?thesis unfolding elem_wire_def p
    by (cases v) (auto simp: elemEncoderFor_def refines_wfail intro: lpStr_lp)
next
  case False
  then show ?thesis using fast_enc_None [of oid v] fast_enc_refines [of oid v]
    by (cases "fast_enc oid v") (auto simp: elemEncoderFor_def elem_wire_def refines_wfail)
qed

definition array_elem_wire :: "int \<Rightarrow> jsval \<Rightarrow> js_error + bytes" where
  "array_elem_wire elemOid e = (if nullish e then i32_bytes (- 1) else elem_wire elemOid e)"

definition array_image :: "int \<Rightarrow> jsval list \<Rightarrow> js_error + bytes" where
  "array_image elemOid vs =
     (if vs = [] then rconcat [i32_bytes 0, i32_bytes 0, i32_bytes elemOid]
      else rconcat [i32_bytes 1, i32_bytes (has_null vs), i32_bytes elemOid, i32_bytes (int (length vs)), i32_bytes 1,
                    rconcat (map (array_elem_wire elemOid) vs)])"

lemma array_body_refines: "refines (array_body elemOid vs) (array_image elemOid vs)"
proof -
  have "refines (wdo (map (array_elem elemOid) vs)) (rconcat (map (array_elem_wire elemOid) vs))"
    by (rule refines_map) (simp add: array_elem_def array_elem_wire_def refines_int32 elem_refines)
  then show ?thesis unfolding array_body_def array_image_def
    by (auto intro!: refines_wdo simp: writes simp del: wdo.simps rconcat.simps)
qed

lemma w_int32_off: "w_int32 n w = (Inr (), w') \<Longrightarrow> woff w' = woff w + 4"
  by (auto simp: w_int32_def w_ensure_def w_put_checked_def w_put_def i32_bytes_def wbind_def wret_def wfail_def Let_def
      split: if_splits prod.splits sum.splits)

lemma binary_array_patched: "binary_array elemOid vs = w_len_patched (array_body elemOid vs)"
proof
  fix w
  show "binary_array elemOid vs w = w_len_patched (array_body elemOid vs) w"
    using w_int32_off [of 0 w]
    by (cases "w_int32 0 w"; cases "fst (w_int32 0 w)")
       (auto simp: binary_array_def w_len_patched_def wbind_def w_mark_def diff_diff_eq split: prod.splits sum.splits)
qed

lemma binary_array_refines: "refines (binary_array elemOid vs) (lp_wire (array_image elemOid vs))"
  unfolding binary_array_patched by (intro len_patched_refines array_body_refines)

text \<open>Trying an operation and rewinding over what it wrote leaves no trace of it.\<close>

lemma yields_rewind:
  assumes m: "yields m r" and k: "yields k rk"
  shows "yields (wbind w_mark (\<lambda>mark. w_try m (\<lambda>e. if e \<noteq> E then wfail e else wbind (w_rewind mark) (\<lambda>_. k))))
    (case r of Inl e \<Rightarrow> if e \<noteq> E then Inl e else rk | Inr p \<Rightarrow> Inr p)"
  unfolding yields_def
proof (intro allI impI)
  fix w assume w: "wf_writer w"
  let ?op = "wbind w_mark (\<lambda>mark. w_try m (\<lambda>e. if e \<noteq> E then wfail e else wbind (w_rewind mark) (\<lambda>_. k)))"
  have a: "appends w r (m w)" using m w by (rule yieldsD)
  have run: "?op w = w_try m (\<lambda>e. if e \<noteq> E then wfail e else wbind (w_rewind (woff w)) (\<lambda>_. k)) w"
    by (simp add: wbind_def w_mark_def)
  show "appends w (case r of Inl e \<Rightarrow> if e \<noteq> E then Inl e else rk | Inr p \<Rightarrow> Inr p) (?op w)"
  proof (cases r)
    case (Inr p)
    with a show ?thesis unfolding run by (cases p; cases "m w") (auto simp: appends_Inr w_try_def)
  next
    case (Inl e)
    with a obtain w1 where w1: "m w = (Inl e, w1)" "wf_writer w1" "woff w \<le> woff w1" "take (woff w) (wbuf w1) = w_slice w"
      by (cases "m w") (auto simp: appends_Inl)
    show ?thesis
    proof (cases "e = E")
      case False
      with Inl w1 show ?thesis unfolding run by (simp add: w_try_def wfail_def appends_Inl)
    next
      case True
      let ?w2 = "w1\<lparr>woff := woff w\<rparr>"
      have w2: "wf_writer ?w2" "w_slice ?w2 = w_slice w" using w1 w by (auto simp: wf_writer_def w_slice_def)
      have "appends ?w2 rk (k ?w2)" using k w2(1) by (rule yieldsD)
      then have "appends w rk (k ?w2)" using w2 by (auto simp: appends_def w_slice_def split: sum.splits)
      with True Inl w1 show ?thesis unfolding run by (simp add: w_try_def wbind_def w_rewind_def)
    qed
  qed
qed

definition array_wire :: "int \<Rightarrow> jsval list \<Rightarrow> js_error + int \<times> bytes" where
  "array_wire elemOid vs = (case lp_wire (array_image elemOid vs) of
       Inr bs \<Rightarrow> Inr (1, bs)
     | Inl e \<Rightarrow> if e \<noteq> ElemMismatch then Inl e else eparam_wire (encodeParam (JArr vs)))"

lemma arrayEnc_yields:
  "yields (arrayEnc elemOid v) (case v of JArr vs \<Rightarrow> array_wire elemOid vs | _ \<Rightarrow> eparam_wire (encodeParam v))"
proof (cases "\<exists>vs. v = JArr vs")
  case False
  then show ?thesis using encode_yields [of v] by (cases v) (auto simp: arrayEnc_def)
next
  case True
  then obtain vs where v: "v = JArr vs" ..
  have "yields (wcode 0 (arrayLiteralInto vs)) (eparam_wire (encodeParam (JArr vs)))"
    using encode_yields [of "JArr vs"] by (simp only: encode_eqs)
  from yields_rewind [OF yields_wcode [OF binary_array_refines] this, of 1 elemOid vs ElemMismatch]
  show ?thesis by (simp add: v arrayEnc_def array_wire_def) (cases "lp_wire (array_image elemOid vs)"; simp)
qed

subsection \<open>Plans\<close>

definition json_wire :: "jsval \<Rightarrow> js_error + int \<times> bytes" where
  "json_wire v = eparam_wire (text_param (case v of JStr s \<Rightarrow> Inr s | _ \<Rightarrow> json_text v))"

text \<open>The wire form of a value for a parameter of the given type.\<close>

definition oid_wire :: "int \<Rightarrow> jsval \<Rightarrow> js_error + int \<times> bytes" where
  "oid_wire oid v =
     (if oid \<in> JIT_FAST then
        (case bin_payload oid v of Some r \<Rightarrow> rbind (lp_wire r) (\<lambda>bs. Inr (1, bs)) | None \<Rightarrow> eparam_wire (encodeParam v))
      else if oid = 114 \<or> oid = 3802 then json_wire v
      else case (ELEM_OID oid, v) of
          (Some elem, JArr vs) \<Rightarrow> array_wire elem vs
        | _ \<Rightarrow> eparam_wire (encodeParam v))"

definition plan_wire :: "int list \<Rightarrow> jsval \<Rightarrow> nat \<Rightarrow> js_error + int \<times> bytes" where
  "plan_wire oids v i =
     (if i < length oids then oid_wire (oids ! i) v else eparam_wire (encodeParam v))"


lemma json_param_yields: "yields (json_param v) (json_wire v)"
  unfolding json_param_def json_wire_def by (intro yields_text refines_result lpStr_lp)

lemma binEncoder_yields:
  assumes "binEncoderFor oid = Some e"
  shows "yields (e v) (oid_wire oid v)"
proof -
  consider "oid \<in> JIT_FAST" "e v = (case fast_enc oid v of Some m \<Rightarrow> wcode 1 m | None \<Rightarrow> encodeValueInto v)"
    | "oid \<notin> JIT_FAST" "oid = 114 \<or> oid = 3802" "e = json_param"
    | el where "oid \<notin> JIT_FAST" "oid \<noteq> 114" "oid \<noteq> 3802" "ELEM_OID oid = Some el" "e = arrayEnc el"
    using assms by (auto simp: binEncoderFor_def split: if_splits)
  then show ?thesis
  proof cases
    case 1
    show ?thesis
    proof (cases "fast_enc oid v")
      case None
      then have "bin_payload oid v = None" using 1(1) by (intro fast_enc_None) (auto simp: JIT_FAST_def)
      with None 1 encode_yields [of v] show ?thesis by (simp add: oid_wire_def)
    next
      case (Some m)
      from fast_enc_refines [OF this] obtain r where "bin_payload oid v = Some r" "refines m (lp_wire r)" by auto
      with Some 1 yields_wcode [of m "lp_wire r" 1] show ?thesis by (simp add: oid_wire_def)
    qed
  next
    case 2
    with json_param_yields [of v] show ?thesis by (simp add: oid_wire_def)
  next
    case 3
    with arrayEnc_yields [of el v] show ?thesis by (cases v) (simp_all add: oid_wire_def)
  qed
qed

lemma no_encoder_wire: "binEncoderFor oid = None \<Longrightarrow> oid_wire oid v = eparam_wire (encodeParam v)"
  by (auto simp: binEncoderFor_def oid_wire_def split: if_splits)

lemma oid_wire_format: "oid_wire oid v = Inr (f, bs) \<Longrightarrow> f \<in> {0, 1}"
proof -
  have j: "json_wire v = Inr (f, bs) \<Longrightarrow> f \<in> {0, 1}"
    by (auto simp: json_wire_def eparam_wire_def rbind_Inr_iff dest: text_param_format)
  have a: "array_wire el vs = Inr (f, bs) \<Longrightarrow> f \<in> {0, 1}" for el vs
    using encode_format [of "JArr vs" f bs] by (auto simp: array_wire_def split: sum.splits if_splits)
  assume "oid_wire oid v = Inr (f, bs)"
  then show ?thesis using encode_format [of v f bs] j a
    by (auto simp: oid_wire_def rbind_Inr_iff split: if_splits option.splits jsval.splits)
qed

lemma keeps_msg_try [msg_kept]: "keeps_msg m \<Longrightarrow> (\<And>e. keeps_msg (h e)) \<Longrightarrow> keeps_msg (w_try m h)"
  unfolding keeps_msg_def by (auto simp: w_try_def split: prod.splits sum.splits) (metis snd_conv)+

lemma keeps_msg_writers: "keeps_msg (write_bool b)" "keeps_msg (write_int2 n)" "keeps_msg (write_int4 n)" "keeps_msg (w_lpF8 d)"
  by (simp_all add: write_bool_def write_int2_def write_int4_def msg_kept del: wdo.simps)

lemma keeps_msg_int8: "write_int8 v = Some m \<Longrightarrow> keeps_msg m"
  by (auto simp: write_int8_def msg_kept simp del: wdo.simps split: if_splits jsval.splits option.splits)

lemma keeps_msg_stamp: "write_stamp v = Some m \<Longrightarrow> keeps_msg m"
  by (auto simp: write_stamp_def msg_kept Let_def simp del: wdo.simps split: if_splits jsval.splits option.splits)

lemma keeps_msg_fast: "fast_enc oid v = Some m \<Longrightarrow> keeps_msg m"
  unfolding fast_enc_def using keeps_msg_writers keeps_msg_int8 [of v m] keeps_msg_stamp [of v m]
  by (cases v) (auto split: if_split_asm)

lemma keeps_msg_elem [msg_kept]: "keeps_msg (elemEncoderFor oid v)"
  using keeps_msg_fast [of oid v]
  by (auto simp: elemEncoderFor_def msg_kept split: jsval.splits option.splits)

lemma keeps_msg_arrayEnc [msg_kept]: "keeps_msg (arrayEnc elemOid v)"
proof -
  have e: "list_all keeps_msg (map (array_elem elemOid) vs)" for vs
    by (auto simp: list_all_iff array_elem_def msg_kept)
  have b: "keeps_msg (binary_array elemOid vs)" for vs
    unfolding binary_array_patched array_body_def using keeps_msg_wdo [OF e [of vs]]
    by (auto intro!: keeps_msg_len_patched keeps_msg_wdo simp: msg_kept simp del: wdo.simps)
  then show ?thesis by (cases v) (auto simp: arrayEnc_def msg_kept)
qed

lemma keeps_msg_binEncoder: "binEncoderFor oid = Some e \<Longrightarrow> keeps_msg (e v)"
  using keeps_msg_fast [of oid v]
  by (auto simp: binEncoderFor_def json_param_def msg_kept split: if_splits option.splits)

text \<open>The plan's encoder: total, so that it can stand for every plan in the contract's interpretation.\<close>

definition plan_encoder :: "int list \<Rightarrow> jsval encoder" where
  "plan_encoder oids v i =
     (case (if i < length oids then binEncoderFor (oids ! i) else None) of Some e \<Rightarrow> e v | None \<Rightarrow> encodeValueInto v)"

lemma compileParamPlan_encoder: "compileParamPlan oids = Some enc \<Longrightarrow> enc = plan_encoder oids"
  by (intro ext) (auto simp: compileParamPlan_def plan_encoder_def Let_def split: if_splits)

interpretation plan: param_encoder "plan_encoder oids" "plan_wire oids" for oids
proof
  fix v i f bs
  show "yields (plan_encoder oids v i) (plan_wire oids v i)"
    using binEncoder_yields [of "oids ! i" _ v] no_encoder_wire [of "oids ! i" v] encode_yields [of v]
    by (auto simp: plan_encoder_def plan_wire_def split: option.splits)
  show "keeps_msg (plan_encoder oids v i)"
    using keeps_msg_binEncoder [of "oids ! i" _ v]
    by (auto simp: plan_encoder_def msg_kept split: option.splits)
  show "plan_wire oids v i = Inr (f, bs) \<Longrightarrow> f \<in> {0, 1}"
    using oid_wire_format [of "oids ! i" v f bs] encode_format [of v f bs]
    by (auto simp: plan_wire_def split: if_splits)
qed

subsection \<open>Properties\<close>

lemma rconcat_error: "rconcat rs = Inl e \<Longrightarrow> \<exists>r \<in> set rs. r = Inl e"
proof (induction rs)
  case (Cons r rs)
  then show ?case by (cases r; cases "rconcat rs") auto
qed simp

lemma rconcat_Inl: "r \<in> set rs \<Longrightarrow> r = Inl e \<Longrightarrow> \<exists>e'. rconcat rs = Inl e'"
proof (induction rs)
  case (Cons r' rs)
  then show ?case by (cases r'; cases "rconcat rs") auto
qed simp

definition misfit :: "int \<Rightarrow> jsval \<Rightarrow> bool" where
  "misfit elemOid v \<longleftrightarrow> \<not> nullish v \<and> bin_payload elemOid v = None"

definition lp_ok :: "jsval \<Rightarrow> bool" where
  "lp_ok v = (case v of JStr s \<Rightarrow> length s < 700000000 | JDate (Some t) \<Rightarrow> \<bar>t\<bar> \<le> MAX_TIME | _ \<Rightarrow> True)"

lemma payload_short:
  assumes "bin_payload oid v = Some r" "lp_ok v"
  shows "\<exists>bs. lp_wire r = Inr bs"
proof -
  have "r = Inl e \<Longrightarrow> False" for e
    using assms by (auto simp: bin_payload_def lp_ok_def i64_bytes_def MAX_TIME_def PG_EPOCH_MS_def split: if_splits jsval.splits option.splits)
  then obtain b where r: "r = Inr b" by (cases r) auto
  have "length b \<le> 2147483647"
  proof (cases "\<exists>s. v = JStr s")
    case True
    then obtain s where "v = JStr s" by blast
    with assms r have "b = utf8 s" "length s < 700000000"
      by (auto simp: bin_payload_def lp_ok_def int_in_def safe_integer_def number_bits_def split: if_splits)
    with length_utf8_le [of s] show ?thesis by simp
  next
    case False
    then show ?thesis using assms(1) r
      by (auto simp: bin_payload_def i64_bytes_def split: if_splits jsval.splits option.splits)
  qed
  with r show ?thesis by (simp add: lp_wire_def i32_bytes_def)
qed

lemma elem_oid_small: "ELEM_OID oid = Some el \<Longrightarrow> 0 \<le> el \<and> el < 10000"
  unfolding ELEM_OID_def by (drule map_of_SomeD) auto

lemma image_mismatch:
  assumes el: "ELEM_OID oid = Some el" and n: "length vs \<le> 2147483647" and ok: "list_all lp_ok vs"
  shows "(\<exists>v \<in> set vs. misfit el v) \<longleftrightarrow> array_image el vs = Inl ElemMismatch"
proof -
  have e: "array_elem_wire el v = Inl ElemMismatch \<or> (\<exists>bs. array_elem_wire el v = Inr bs \<and> \<not> misfit el v)"
    "array_elem_wire el v = Inl ElemMismatch \<longleftrightarrow> misfit el v" if "v \<in> set vs" for v
    using payload_short [of el v] ok that
    by (auto simp: array_elem_wire_def misfit_def elem_wire_def i32_bytes_def list_all_iff split: option.splits)
  let ?es = "map (array_elem_wire el) vs"
  have h: "\<exists>bs. i32_bytes el = Inr bs" "\<exists>bs. i32_bytes (int (length vs)) = Inr bs" "\<exists>bs. i32_bytes (has_null vs) = Inr bs"
    using elem_oid_small [OF el] n by (simp_all add: i32_bytes_def has_null_def)
  then have "array_image el vs = Inl ElemMismatch \<longleftrightarrow> rconcat ?es = Inl ElemMismatch"
    by (cases "rconcat ?es") (auto simp: array_image_def i32_bytes_def)
  also have "\<dots> \<longleftrightarrow> (\<exists>v \<in> set vs. misfit el v)"
  proof
    assume "rconcat ?es = Inl ElemMismatch"
    from rconcat_error [OF this] e show "\<exists>v \<in> set vs. misfit el v" by force
  next
    assume "\<exists>v \<in> set vs. misfit el v"
    then obtain v where v: "v \<in> set vs" "misfit el v" by blast
    then have "array_elem_wire el v = Inl ElemMismatch" using e(2) by simp
    with v(1) have "Inl ElemMismatch \<in> set ?es" by (metis image_eqI set_map)
    from rconcat_Inl [OF this refl] obtain e' where e': "rconcat ?es = Inl e'" ..
    from rconcat_error [OF this] e(1) e' show "rconcat ?es = Inl ElemMismatch" by force
  qed
  finally show ?thesis by simp
qed

text \<open>A JavaScript array for a parameter of an array type is sent whole in one of two forms: when
  every element is null or fits the element type, as the binary array of the elements (format 1),
  otherwise as the text literal of \<open>encodeParam\<close> (format 0) with no trace of the binary attempt; so a
  single misfit never yields a mixed or truncated value.\<close>

theorem array_all_or_text:
  assumes "ELEM_OID oid = Some el" "length vs \<le> 2147483647" "list_all lp_ok vs"
  shows "yields (arrayEnc el (JArr vs))
    (if list_ex (misfit el) vs then eparam_wire (encodeParam (JArr vs))
     else rbind (lp_wire (array_image el vs)) (\<lambda>bs. Inr (1, bs)))"
proof (cases "list_ex (misfit el) vs")
  case True
  then have "array_image el vs = Inl ElemMismatch" using image_mismatch [OF assms] by (simp add: list_ex_iff)
  then show ?thesis using True arrayEnc_yields [of el "JArr vs"] by (simp add: array_wire_def lp_wire_def)
next
  case False
  then have "array_image el vs \<noteq> Inl ElemMismatch" using image_mismatch [OF assms] by (simp add: list_ex_iff)
  then have "lp_wire (array_image el vs) \<noteq> Inl ElemMismatch"
    by (cases "array_image el vs") (auto simp: lp_wire_def i32_bytes_def)
  then have "array_wire el vs = rbind (lp_wire (array_image el vs)) (\<lambda>bs. Inr (1, bs))"
    by (cases "lp_wire (array_image el vs)") (auto simp: array_wire_def)
  then show ?thesis using False arrayEnc_yields [of el "JArr vs"] by simp
qed

theorem array_all_or_text_witness:
  "yields (arrayEnc 23 (JArr [JInt 7, JStr [u16 120]])) (eparam_wire (encodeParam (JArr [JInt 7, JStr [u16 120]])))"
proof -
  have m: "list_ex (misfit 23) [JInt 7, JStr [u16 120]]"
    by (simp add: misfit_def nullish_def bin_payload_def int_in_def)
  have "ELEM_OID 1007 = Some 23" "list_all lp_ok [JInt 7, JStr [u16 120]]" by (simp_all add: ELEM_OID_def lp_ok_def)
  from array_all_or_text [OF this(1) _ this(2)] m show ?thesis by simp
qed

text \<open>A null parameter of a json or jsonb statement changes its meaning once the parameter types are
  known: the plan sends \<open>null\<close> as JSON, the first execution (without a plan) SQL NULL.\<close>

theorem json_null_differs:
  assumes o: "oid = 114 \<or> oid = 3802" and enc: "compileParamPlan [oid] = Some enc"
  shows "yields (enc JNull 0) (Inr (0, be_bytes 4 4 @ latin1 (asc ''null''))) \<and>
    yields (encodeValueInto JNull) (Inr (0, be_bytes 4 (- 1)))"
proof
  show "yields (encodeValueInto JNull) (Inr (0, be_bytes 4 (- 1)))"
    using encode_yields [of JNull] by (simp add: param_eqs eparam_wire_def param_bytes_def i32_def i32_bytes_def)
  have "yields (enc JNull 0) (oid_wire oid JNull)"
    using plan.enc_yields [of "[oid]" JNull 0] by (simp add: plan_wire_def compileParamPlan_encoder [OF enc])
  moreover have "oid_wire oid JNull = Inr (0, be_bytes 4 4 @ latin1 (asc ''null''))"
  proof -
    have u: "utf8 (asc ''null'') = latin1 (asc ''null'')" by (rule utf8_ascii) (simp add: asc_def)
    have "length (latin1 (asc ''null'')) = 4" by (simp add: asc_def latin1_def)
    with o u show ?thesis
      by (auto simp: oid_wire_def JIT_FAST_def json_wire_def eparam_wire_def text_param_def json_text_def param_bytes_def i32_def
          i32_bytes_def)
  qed
  ultimately show "yields (enc JNull 0) (Inr (0, be_bytes 4 4 @ latin1 (asc ''null'')))" by simp
qed

theorem json_null_differs_witness:
  "\<exists>enc. compileParamPlan [3802] = Some enc \<and> yields (enc JNull 0) (Inr (0, be_bytes 4 4 @ latin1 (asc ''null'')))"
proof -
  obtain enc where enc: "compileParamPlan [3802] = Some enc"
    by (cases "compileParamPlan [3802]") (auto simp: compileParamPlan_def binEncoderFor_def JIT_FAST_def)
  with json_null_differs [of 3802, OF _ enc] show ?thesis by simp
qed

end
