(* ===== verification/Encode_Jit.thy ===== *)
theory Encode_Jit
  imports Encode_Binary
begin

section \<open>The compiled Bind encoder (src/encode.ts, compileBindEncoder)\<close>

text \<open>
  For a statement whose parameter types are known, \<open>compileBindEncoder\<close> generates a function
  that writes Bind, Execute and Sync: the constant parts of the messages are baked into byte
  strings, the format codes of the fast types included, and the body of one row is generated
  from the repeating pattern of the types and run once per row. The model gives the meaning of
  the generated body: \<open>jit_col\<close> is the code emitted for a column. The theorem is that the
  compiled function and the generic path through the parameter plan have the same effect.
\<close>

definition JIT_MAX_PERIOD :: nat where "JIT_MAX_PERIOD = 64"

text \<open>The smallest period of the types that divides their number.\<close>

definition repeats :: "int list \<Rightarrow> nat \<Rightarrow> bool" where
  "repeats oids p = list_all (\<lambda>i. oids ! i = oids ! (i - p)) [p ..< length oids]"

definition paramPeriod :: "int list \<Rightarrow> nat" where
  "paramPeriod oids =
     (case find (\<lambda>p. length oids mod p = 0 \<and> repeats oids p) [1 ..< length oids] of
        Some p \<Rightarrow> p | None \<Rightarrow> length oids)"

text \<open>Reading past the end of an array is undefined.\<close>

definition js_nth :: "jsval list \<Rightarrow> nat \<Rightarrow> jsval" where
  "js_nth v i = (if i < length v then v ! i else JUndef)"

definition patched :: "int \<Rightarrow> nat \<Rightarrow> int wop \<Rightarrow> unit wop" where
  "patched baked off m = wbind m (\<lambda>f. if f \<noteq> baked then w_patch16 off f else wret ())"

definition jit_col :: "int \<Rightarrow> nat \<Rightarrow> jsval \<Rightarrow> unit wop" where
  "jit_col oid off x =
     (if oid \<in> JIT_FAST then
        (case fast_enc oid x of Some m \<Rightarrow> m | None \<Rightarrow> patched 1 off (encodeValueInto x))
      else if oid = 25 \<or> oid = 1043 then
        (case x of JStr s \<Rightarrow> w_result (nul_checked s) w_lpStr | _ \<Rightarrow> patched 0 off (encodeValueInto x))
      else patched 0 off ((case binEncoderFor oid of Some e \<Rightarrow> e | None \<Rightarrow> encodeValueInto) x))"

definition jit_row :: "int list \<Rightarrow> nat \<Rightarrow> jsval list \<Rightarrow> nat \<Rightarrow> nat \<Rightarrow> unit wop" where
  "jit_row oids p v vb fb = wdo (map (\<lambda>c. jit_col (oids ! c) (fb + c * 2) (js_nth v (vb + c))) [0 ..< p])"

definition jit_rows :: "int list \<Rightarrow> nat \<Rightarrow> nat \<Rightarrow> nat \<Rightarrow> jsval list \<Rightarrow> nat \<Rightarrow> unit wop" where
  "jit_rows oids p rowCount FMT0 v base =
     (if rowCount > 1 then wdo (map (\<lambda>r. jit_row oids p v (r * p) (base + FMT0 + r * (p * 2))) [0 ..< rowCount])
      else jit_row oids p v 0 (base + FMT0))"

definition baked_format :: "int \<Rightarrow> int" where
  "baked_format oid = (if oid \<in> JIT_FAST then 1 else 0)"

definition jit_formats :: "int list \<Rightarrow> nat \<Rightarrow> js_error + bytes" where
  "jit_formats oids p = rconcat (map (\<lambda>i. i16 (baked_format (oids ! (i mod p)))) [0 ..< length oids])"

definition jit_prefix :: "jsstr \<Rightarrow> int list \<Rightarrow> nat \<Rightarrow> js_error + bytes" where
  "jit_prefix name oids p =
     rconcat [Inr [0], Inr (utf8 name), Inr [0], i16 (int (length oids)), jit_formats oids p, i16 (int (length oids))]"

definition jit_result_format :: "rfmt \<Rightarrow> js_error + bytes" where
  "jit_result_format rf = (case rf of
       RF_each fs \<Rightarrow> rconcat (i16 (int (length fs)) # map i16 fs)
     | RF_all f \<Rightarrow> rconcat [i16 1, i16 f])"

definition compileBindEncoder :: "jsstr \<Rightarrow> int list \<Rightarrow> rfmt \<Rightarrow> js_error + (jsval list \<Rightarrow> unit wop) option" where
  "compileBindEncoder name oids rf =
     (let n = length oids; p = (if n = 0 then 0 else paramPeriod oids)
      in if p > JIT_MAX_PERIOD then Inr None
         else let rowCount = (if p = 0 then 0 else n div p); FMT0 = 1 + length (utf8 name) + 1 + 2
              in rbind (jit_prefix name oids p) (\<lambda>PREFIX.
                 rbind (jit_result_format rf) (\<lambda>RESULTFMT.
                 rbind (rconcat [W_execute [] 0, W_sync]) (\<lambda>EXECSYNC.
                 Inr (Some (\<lambda>v. wdo [
                   wdo [w_start 66,
                        wdo [wbind w_mark (\<lambda>base. wdo [w_bytes PREFIX, jit_rows oids p rowCount FMT0 v base]),
                             w_bytes RESULTFMT],
                        w_end],
                   w_bytes EXECSYNC]))))))"

subsection \<open>The period\<close>

lemma paramPeriod_props:
  assumes "oids \<noteq> []"
  shows "0 < paramPeriod oids" "length oids mod paramPeriod oids = 0" "repeats oids (paramPeriod oids)"
proof -
  let ?P = "\<lambda>p. length oids mod p = 0 \<and> repeats oids p"
  have "0 < paramPeriod oids \<and> ?P (paramPeriod oids)"
  proof (cases "find ?P [1 ..< length oids]")
    case None
    then have "paramPeriod oids = length oids" unfolding paramPeriod_def by (simp only: option.case)
    with assms show ?thesis by (simp add: repeats_def)
  next
    case (Some p)
    obtain i where i: "i < length [1 ..< length oids]" "?P ([1 ..< length oids] ! i)" "p = [1 ..< length oids] ! i"
      using iffD1 [OF find_Some_iff Some] by (elim exE conjE) (rule that, assumption, rule conjI)
    have "0 < p" using i(1) unfolding i(3) by simp
    moreover have "?P p" using i(2) unfolding i(3) .
    moreover have "paramPeriod oids = p" unfolding paramPeriod_def Some by (simp only: option.case)
    ultimately show ?thesis by simp
  qed
  then show "0 < paramPeriod oids" "length oids mod paramPeriod oids = 0" "repeats oids (paramPeriod oids)" by auto
qed

lemma repeats_mod: "repeats oids p \<Longrightarrow> 0 < p \<Longrightarrow> i < length oids \<Longrightarrow> oids ! i = oids ! (i mod p)"
proof (induction i rule: less_induct)
  case (less i)
  show ?case
  proof (cases "i < p")
    case False
    then have "oids ! i = oids ! (i - p)" using less.prems by (auto simp: repeats_def list_all_iff)
    also have "\<dots> = oids ! ((i - p) mod p)" using less False by simp
    finally show ?thesis using False by (simp add: le_mod_geq)
  qed simp
qed

subsection \<open>The compiled columns are the plan's encoders\<close>

lemma patched_code: "patched f off (wcode f m) = m"
  by (simp add: patched_def wcode_def wbind_assoc)

lemma jit_col_plan:
  assumes "i < length oids"
  shows "jit_col (oids ! i) off x = patched (baked_format (oids ! i)) off (plan_encoder oids x i)"
proof -
  let ?o = "oids ! i"
  consider "?o \<in> JIT_FAST" | "?o \<notin> JIT_FAST" "?o = 25 \<or> ?o = 1043" | "?o \<notin> JIT_FAST" "?o \<noteq> 25" "?o \<noteq> 1043" by blast
  then show ?thesis
  proof cases
    case 1
    then show ?thesis using assms
      by (simp add: jit_col_def plan_encoder_def binEncoderFor_def baked_format_def patched_code split: option.splits)
  next
    case 2
    then have "binEncoderFor ?o = None" by (auto simp: binEncoderFor_def ELEM_OID_def)
    with 2 assms show ?thesis
      by (cases x) (simp_all add: jit_col_def plan_encoder_def baked_format_def encode_eqs patched_code)
  next
    case 3
    then show ?thesis using assms
      by (simp add: jit_col_def plan_encoder_def baked_format_def split: option.splits)
  qed
qed

lemma wdo_concat: "wdo (concat (map f xs)) = wdo (map (\<lambda>x. wdo (f x)) xs)"
  by (induction xs) (simp_all add: wdo_append)

lemma concat_rows: "concat (map (\<lambda>r. map (\<lambda>c. g (r * p + c)) [0 ..< p]) [0 ..< k]) = map g [0 ..< k * p]"
proof (induction k)
  case (Suc k)
  have "[0 ..< Suc k * p] = [0 ..< k * p] @ map (\<lambda>c. k * p + c) [0 ..< p]"
    using upt_add_eq_append [of 0 "k * p" p] by (simp add: map_add_upt add.commute)
  with Suc show ?case by (simp add: comp_def)
qed simp

lemma baked_values_map:
  "baked_values enc baked fmtPos i vs
     = wdo (map (\<lambda>j. patched (baked (i + j)) (fmtPos + (i + j) * 2) (enc (vs ! j) (i + j))) [0 ..< length vs])"
proof (induction vs arbitrary: i)
  case (Cons v vs)
  have "[0 ..< length (v # vs)] = 0 # map Suc [0 ..< length vs]" by (simp add: upt_conv_Cons map_Suc_upt del: upt_Suc)
  with Cons show ?case by (simp add: patched_def wbind_assoc comp_def del: distrib_right_numeral upt_Suc cong: if_cong)
qed simp

lemma jit_rows_plan:
  assumes n: "length v = length oids" and p: "p = (if oids = [] then 0 else paramPeriod oids)"
  shows "jit_rows oids p (if p = 0 then 0 else length oids div p) FMT0 v base
     = baked_values (plan_encoder oids) (\<lambda>i. baked_format (oids ! i)) (base + FMT0) 0 v"
proof (cases "oids = []")
  case True
  with n p show ?thesis by (simp add: jit_rows_def jit_row_def)
next
  case False
  note P = paramPeriod_props [OF False]
  let ?g = "\<lambda>i. jit_col (oids ! i) (base + FMT0 + i * 2) (js_nth v i)"
  let ?k = "length oids div p"
  have pp: "0 < p" "?k * p = length oids" "p = paramPeriod oids" using False p P by auto
  then have k: "0 < ?k" using False by (metis gr0I length_0_conv mult_0)
  have o: "oids ! c = oids ! (r * p + c)" if "c < p" "r < ?k" for r c
  proof -
    have "r * p + c < Suc r * p" using that by simp
    also have "\<dots> \<le> ?k * p" using that by (intro mult_le_mono1) simp
    finally have "r * p + c < ?k * p" .
    then have "oids ! (r * p + c) = oids ! ((r * p + c) mod p)" using repeats_mod [of oids p "r * p + c"] P pp by simp
    then show ?thesis using that by simp
  qed
  have row: "jit_row oids p v (r * p) (base + FMT0 + r * (p * 2)) = wdo (map (\<lambda>c. ?g (r * p + c)) [0 ..< p])" if "r < ?k" for r
    unfolding jit_row_def using o that by (intro arg_cong [of _ _ wdo] map_cong refl) (auto simp: algebra_simps)
  have "jit_rows oids p ?k FMT0 v base = wdo (map (\<lambda>r. wdo (map (\<lambda>c. ?g (r * p + c)) [0 ..< p])) [0 ..< ?k])"
  proof (cases "1 < ?k")
    case True
    then show ?thesis using row by (auto simp: jit_rows_def intro!: arg_cong [of _ _ wdo] map_cong)
  next
    case False
    with k have "?k = 1" by simp
    with row [of 0] show ?thesis by (simp add: jit_rows_def)
  qed
  also have "\<dots> = wdo (concat (map (\<lambda>r. map (\<lambda>c. ?g (r * p + c)) [0 ..< p]) [0 ..< ?k]))" by (simp add: wdo_concat)
  also have "\<dots> = wdo (map ?g [0 ..< length oids])"
    using concat_rows [of ?g p ?k] pp(2) by simp
  also have "\<dots> = baked_values (plan_encoder oids) (\<lambda>i. baked_format (oids ! i)) (base + FMT0) 0 v"
    unfolding baked_values_map using n by (auto simp: js_nth_def jit_col_plan intro!: arg_cong [of _ _ wdo] map_cong)
  finally show ?thesis using pp by simp
qed

subsection \<open>Same bytes as the generic path\<close>

lemma jit_prefix_bytes:
  assumes p: "p = (if oids = [] then 0 else paramPeriod oids)" and r: "jit_prefix name oids p = Inr PREFIX"
  shows "PREFIX = (0 # utf8 name @ 0 # be_bytes 2 (int (length oids)))
    @ slot_bytes (\<lambda>i. baked_format (oids ! i)) 0 (length oids) @ be_bytes 2 (int (length oids))"
    "length oids \<le> 65535"
proof -
  have m: "oids ! (i mod p) = oids ! i" if "i < length oids" for i
  proof -
    have "oids \<noteq> []" using that by auto
    with paramPeriod_props [OF this] repeats_mod [of oids p i] p that show ?thesis by simp
  qed
  have "jit_formats oids p = rconcat (map Inr (map (\<lambda>i. be_bytes 2 (baked_format (oids ! i))) [0 ..< length oids]))"
    unfolding jit_formats_def map_map
    by (intro arg_cong [of _ _ rconcat] map_cong refl) (simp add: m baked_format_def i16_def i16_bytes_def)
  then have f: "jit_formats oids p = Inr (slot_bytes (\<lambda>i. baked_format (oids ! i)) 0 (length oids))"
    by (simp only: rconcat_Inr) (simp add: slot_bytes_def)
  from r show n: "length oids \<le> 65535"
    by (auto simp: jit_prefix_def f i16_def i16_bytes_def split: if_splits)
  from r n show "PREFIX = (0 # utf8 name @ 0 # be_bytes 2 (int (length oids)))
    @ slot_bytes (\<lambda>i. baked_format (oids ! i)) 0 (length oids) @ be_bytes 2 (int (length oids))"
    by (simp add: jit_prefix_def f i16_def i16_bytes_def)
qed

definition exec_sync :: "js_error + bytes \<Rightarrow> js_error + bytes" where
  "exec_sync r = rconcat [r, W_execute [] 0, W_sync]"

lemma generic_refines:
  "refines (wdo [writeBindWith [] name params (plan_encoder oids) rf, writeExecute [] 0, writeSync])
     (exec_sync (if length params > 65535 then Inl (TooManyParams (length params))
      else rbind (wires (plan_wire oids) 0 params) (\<lambda>ws.
        bind_msg [] name (map fst ws) (map (\<lambda>p. Inr (snd p)) ws) rf)))"
  unfolding exec_sync_def
  by (rule refines_wdo) (simp add: plan.writeBindWith_refines writeExecute_refines writeSync_refines)

lemma jit_refines:
  assumes c: "compileBindEncoder name oids rf = Inr (Some enc)" and n: "length params = length oids"
  shows "refines (enc params) (exec_sync (rbind (wires (plan_wire oids) 0 params) (\<lambda>ws.
      bind_msg [] name (map fst ws) (map (\<lambda>p. Inr (snd p)) ws) rf)))"
proof -
  let ?n = "int (length oids)" and ?b = "\<lambda>i. baked_format (oids ! i)"
  define p where "p = (if oids = [] then 0 else paramPeriod oids)"
  define k where "k = (if p = 0 then 0 else length oids div p)"
  define FMT0 where "FMT0 = 1 + length (utf8 name) + 1 + 2"
  let ?pre = "0 # utf8 name @ 0 # be_bytes 2 ?n"
  from c obtain PREFIX RF ES where P: "jit_prefix name oids p = Inr PREFIX" and R: "jit_result_format rf = Inr RF"
    and E: "rconcat [W_execute [] 0, W_sync] = Inr ES"
    and enc: "enc = (\<lambda>v. wdo [wdo [w_start 66, wdo [wbind w_mark (\<lambda>base. wdo [w_bytes PREFIX, jit_rows oids p k FMT0 v base]),
          w_bytes RF], w_end], w_bytes ES])"
    by (auto simp: compileBindEncoder_def Let_def rbind_Inr_iff p_def k_def FMT0_def simp del: wdo.simps rconcat.simps
        split: if_splits)
  note PX = jit_prefix_bytes [OF p_def P]
  have lp: "length ?pre = FMT0" by (simp add: FMT0_def)
  have rows: "jit_rows oids p k FMT0 params base = baked_values (plan_encoder oids) ?b (base + length ?pre) 0 params" for base
    unfolding lp k_def by (rule jit_rows_plan [OF n p_def])
  have "refines (w_bytes PREFIX) (Inr (?pre @ slot_bytes ?b 0 (length params) @ be_bytes 2 ?n))"
    using refines_bytes [of PREFIX] PX(1) n by simp
  from plan.baked_section_refines [OF this, of oids]
  have sec: "refines (wbind w_mark (\<lambda>base. wdo [w_bytes PREFIX, jit_rows oids p k FMT0 params base]))
      (rbind (wires (plan_wire oids) 0 params) (\<lambda>ws. Inr (?pre @ fmt_bytes ws @ be_bytes 2 ?n @ val_bytes ws)))"
    by (simp add: rows)
  have kept: "keeps_msg (wdo [wbind w_mark (\<lambda>base. wdo [w_bytes PREFIX, jit_rows oids p k FMT0 params base]), w_bytes RF])"
    unfolding rows by (simp add: msg_kept plan.keeps_msg_baked_values)
  have "refines (enc params) (rconcat [frame 66 (rconcat [rbind (wires (plan_wire oids) 0 params)
      (\<lambda>ws. Inr (?pre @ fmt_bytes ws @ be_bytes 2 ?n @ val_bytes ws)), Inr RF]), Inr ES])"
    unfolding enc by (rule refines_wdo, simp del: wdo.simps rconcat.simps, intro conjI refines_frame refines_wdo kept)
       (use sec in \<open>simp_all add: writes del: wdo.simps\<close>)
  moreover have "frame 66 (rconcat [rbind (wires (plan_wire oids) 0 params)
      (\<lambda>ws. Inr (?pre @ fmt_bytes ws @ be_bytes 2 ?n @ val_bytes ws)), Inr RF])
    = rbind (wires (plan_wire oids) 0 params) (\<lambda>ws. bind_msg [] name (map fst ws) (map (\<lambda>p. Inr (snd p)) ws) rf)"
  proof (cases "wires (plan_wire oids) 0 params")
    case (Inr ws)
    have v: "(rconcat (map (\<lambda>p. Inr (snd p)) ws) :: js_error + bytes) = Inr (val_bytes ws)"
      using rconcat_Inr [of "map snd ws", where 'a = js_error] by (simp add: comp_def val_bytes_def)
    have RFp: "rconcat (rf_parts rf) = Inr RF" using R by (cases rf) (simp_all add: jit_result_format_def rf_parts_def)
    have i: "i16 ?n = Inr (be_bytes 2 ?n)" using PX(2) by (simp add: i16_def i16_bytes_def)
    show ?thesis using Inr v RFp i length_wires [OF Inr] plan.fmt_bytes_i16 [OF Inr] PX(2) n
      by (simp add: bind_msg_def rconcat_append frame_msg cstr_def)
  qed (simp add: frame_def)
  moreover have "rconcat [r, Inr ES] = exec_sync r" for r
    using E by (cases r) (simp_all add: exec_sync_def)
  ultimately show ?thesis by (simp del: rconcat.simps)
qed

lemma refines_same:
  assumes "refines m r" "refines m' r" "wf_writer w"
  shows "fst (m w) = fst (m' w) \<and> (fst (m w) = Inr () \<longrightarrow> w_slice (snd (m w)) = w_slice (snd (m' w)))"
  using refinesD [OF assms(1,3)] refinesD [OF assms(2,3)]
  by (cases r) (auto simp: appends_Inl appends_Inr)

text \<open>C34: the compiled encoder of a statement is byte-identical to the generic path: for every
  parameter list of the statement's length it writes the same Bind, Execute and Sync as
  \<open>writeBindWith\<close> with the parameter plan, \<open>writeExecute\<close> and \<open>writeSync\<close>, patched format codes of the
  values that fall back to text included, or throws the same error.\<close>

theorem jit_exact:
  assumes "compileBindEncoder name oids rf = Inr (Some jit)" and "compileParamPlan oids = Some plan"
    and "length params = length oids" and "wf_writer w"
  shows "let generic = wdo [writeBindWith [] name params plan rf, writeExecute [] 0, writeSync]
    in fst (jit params w) = fst (generic w) \<and>
       (fst (jit params w) = Inr () \<longrightarrow> w_slice (snd (jit params w)) = w_slice (snd (generic w)))"
proof -
  have "oids \<noteq> []" using assms(2) by (auto simp: compileParamPlan_def)
  define p where "p = (if oids = [] then 0 else paramPeriod oids)"
  from assms(1) obtain PREFIX where "jit_prefix name oids p = Inr PREFIX"
    by (auto simp: compileBindEncoder_def Let_def rbind_Inr_iff p_def split: if_splits)
  then have "length oids \<le> 65535" by (rule jit_prefix_bytes(2) [OF p_def])
  then have "\<not> length params > 65535" using assms(3) by simp
  then show ?thesis
    using refines_same [OF jit_refines [OF assms(1,3)] _ assms(4)] generic_refines [of name params oids rf]
    unfolding compileParamPlan_encoder [OF assms(2)] Let_def by simp
qed

theorem jit_exact_witness:
  "\<exists>jit plan. compileBindEncoder [u16 115] [23, 23] (RF_all 0) = Inr (Some jit) \<and> compileParamPlan [23, 23] = Some plan \<and>
     fst (jit [JInt 1, JStr [u16 120]] (new_writer 64))
       = fst (wdo [writeBindWith [] [u16 115] [JInt 1, JStr [u16 120]] plan (RF_all 0), writeExecute [] 0, writeSync] (new_writer 64))"
proof -
  obtain plan where p: "compileParamPlan [23, 23] = Some plan"
    by (cases "compileParamPlan [23, 23]") (auto simp: compileParamPlan_def binEncoderFor_def JIT_FAST_def)
  have "paramPeriod [23, 23] = 1" by (simp add: paramPeriod_def repeats_def upt_rec)
  then have "\<exists>P. jit_prefix [u16 115] [23, 23] (paramPeriod [23, 23]) = Inr P"
    by (simp add: jit_prefix_def jit_formats_def baked_format_def JIT_FAST_def i16_def i16_bytes_def upt_rec)
  moreover have "\<exists>R. jit_result_format (RF_all 0) = Inr R" by (simp add: jit_result_format_def i16_def i16_bytes_def)
  moreover have "\<exists>E. rconcat [W_execute [] 0, W_sync] = Inr E"
    by (simp add: W_execute_def W_sync_def msg_def i32_def i32_bytes_def cstr_def)
  ultimately obtain jit where j: "compileBindEncoder [u16 115] [23, 23] (RF_all 0) = Inr (Some jit)"
    using \<open>paramPeriod [23, 23] = 1\<close> by (auto simp: compileBindEncoder_def JIT_MAX_PERIOD_def simp del: rconcat.simps)
  have "wf_writer (new_writer 64)" by (rule wf_new_writer) simp
  with jit_exact [OF j p, of "[JInt 1, JStr [u16 120]]"] j p show ?thesis
    by (auto simp: Let_def simp del: wdo.simps)
qed

end
