(* ===== verification/Copy_Rows.thy ===== *)
theory Copy_Rows
  imports Encode_Binary
begin

section \<open>COPY FROM rows and pre-encoded parameters (src/encode.ts)\<close>

text \<open>
  \<open>copyRowsBinary\<close> and \<open>copyRowsText\<close> are generators: they write rows into one reused writer and
  yield its contents whenever it holds at least \<open>chunkBytes\<close> bytes. A run is the list of chunks
  it yields and how it ends. The lemmas relate both to the pure image of the rows, for every
  chunk size, and the text format to the reader of PostgreSQL's COPY text format. The last
  section has the HTTP transports' parameter encoding and \<open>rawParams\<close>.
\<close>

subsection \<open>Rows\<close>

datatype copyrow = Row_arr "jsval list" | Row_obj "(jsstr \<times> jsval) list"

definition cell_name :: "jsstr list \<Rightarrow> nat \<Rightarrow> jsstr" where
  "cell_name names c = (if c < length names then names ! c else asc ''undefined'')"

definition cell :: "copyrow \<Rightarrow> jsstr list \<Rightarrow> nat \<Rightarrow> jsval" where
  "cell row names c = (case row of
       Row_arr vs \<Rightarrow> if c < length vs then vs ! c else JUndef
     | Row_obj kvs \<Rightarrow> (case map_of kvs (cell_name names c) of Some v \<Rightarrow> v | None \<Rightarrow> JUndef))"

definition copyBinarySupported :: "int list \<Rightarrow> bool" where
  "copyBinarySupported oids = list_all (\<lambda>oid. oid \<in> {16, 21, 23, 20, 701, 25, 1043, 1114, 1184}) oids"

definition COPY_SIG :: bytes where
  "COPY_SIG = map b8 [80, 71, 67, 79, 80, 89, 10, 255, 13, 10, 0]"

text \<open>A run of a generator: the chunks yielded, then the error thrown or the final writer.\<close>

type_synonym chunk_run = "bytes list \<times> (js_error + writer)"

fun row_loop :: "nat \<Rightarrow> unit wop list \<Rightarrow> writer \<Rightarrow> chunk_run" where
  "row_loop chunkBytes [] w = ([], Inr w)"
| "row_loop chunkBytes (m # ms) w =
     (case m w of
        (Inl e, w') \<Rightarrow> ([], Inl e)
      | (Inr _, w') \<Rightarrow>
          if woff w' \<ge> chunkBytes
          then (let (cs, r) = row_loop chunkBytes ms (snd (w_reset w')) in (w_slice w' # cs, r))
          else row_loop chunkBytes ms w')"

subsection \<open>Binary rows\<close>

definition binary_cell :: "int list \<Rightarrow> jsstr list \<Rightarrow> nat \<Rightarrow> copyrow \<Rightarrow> nat \<Rightarrow> unit wop" where
  "binary_cell oids names r row c =
     (let v = cell row names c
      in if nullish v then w_int32 (- 1)
         else w_try (elemEncoderFor (oids ! c) v)
                (\<lambda>e. if e \<noteq> ElemMismatch then wfail e else wfail (CopyMismatch r c)))"

definition binary_row :: "int list \<Rightarrow> jsstr list \<Rightarrow> nat \<Rightarrow> copyrow \<Rightarrow> unit wop" where
  "binary_row oids names r row =
     wdo [w_int16 (int (length oids)), wdo (map (binary_cell oids names r row) [0 ..< length oids])]"

definition finish_run :: "chunk_run \<Rightarrow> (writer \<Rightarrow> js_error option \<times> bytes list) \<Rightarrow> js_error option \<times> bytes list" where
  "finish_run run k = (case run of
       (cs, Inl e) \<Rightarrow> (Some e, cs)
     | (cs, Inr w) \<Rightarrow> (let (e, cs') = k w in (e, cs @ cs')))"

definition run_wop :: "unit wop \<Rightarrow> writer \<Rightarrow> (writer \<Rightarrow> js_error option \<times> bytes list) \<Rightarrow> js_error option \<times> bytes list" where
  "run_wop m w k = (case m w of (Inl e, w') \<Rightarrow> (Some e, []) | (Inr _, w') \<Rightarrow> k w')"

text \<open>The result: the error, if one is thrown, and the chunks yielded before.\<close>

definition copyRowsBinary :: "int list \<Rightarrow> jsstr list \<Rightarrow> copyrow list \<Rightarrow> nat \<Rightarrow> js_error option \<times> bytes list" where
  "copyRowsBinary oids names rows chunkBytes =
     run_wop (wdo [w_bytes COPY_SIG, w_int32 0, w_int32 0]) (new_writer (chunkBytes + 4096)) (\<lambda>w.
       finish_run (row_loop chunkBytes (map (\<lambda>(r, row). binary_row oids names r row) (enumerate 0 rows)) w) (\<lambda>w1.
         run_wop (w_int16 65535) w1 (\<lambda>w2. (None, [w_slice w2]))))"

subsection \<open>Text rows\<close>

text \<open>The second unit of the escape of a special unit.\<close>

definition copy_escape :: "unit16 \<Rightarrow> nat option" where
  "copy_escape c = (let n = unat c in
     if n = 92 then Some 92 else if n = 9 then Some 116 else if n = 10 then Some 110 else if n = 13 then Some 114 else None)"

fun esc_copy_loop :: "jsstr \<Rightarrow> jsstr \<Rightarrow> unit wop" where
  "esc_copy_loop run [] = w_slice_of run"
| "esc_copy_loop run (c # cs) =
     (case copy_escape c of
        Some e \<Rightarrow> wdo [w_slice_of run, w_byte 92, w_byte e, esc_copy_loop [] cs]
      | None \<Rightarrow> esc_copy_loop (run @ [c]) cs)"

definition writeEscCopy :: "jsstr \<Rightarrow> unit wop" where
  "writeEscCopy s = esc_copy_loop [] s"

definition copyTextCellInto :: "jsval \<Rightarrow> unit wop" where
  "copyTextCellInto v =
     (if is_number v \<or> is_bigint v then w_asc (js_string v)
      else case v of
        JStr s \<Rightarrow> writeEscCopy s
      | JBool b \<Rightarrow> w_byte (if b then 116 else 102)
      | JDate d \<Rightarrow> writeIso d
      | JBuf b \<Rightarrow> wdo [w_asc [u16 92, u16 92, u16 120], w_asc (hex_bytes b)]
      | JOther s \<Rightarrow> writeEscCopy s
      | _ \<Rightarrow> w_result (json_text v) writeEscCopy)"

definition text_cell :: "jsstr list \<Rightarrow> copyrow \<Rightarrow> nat \<Rightarrow> unit wop" where
  "text_cell names row c =
     (let v = cell row names c
      in wdo [if c > 0 then w_byte 9 else wret (),
              if nullish v then w_asc [u16 92, u16 78] else copyTextCellInto v])"

definition text_row :: "jsstr list \<Rightarrow> copyrow \<Rightarrow> unit wop" where
  "text_row names row = wdo [wdo (map (text_cell names row) [0 ..< length names]), w_byte 10]"

definition copyRowsText :: "jsstr list \<Rightarrow> copyrow list \<Rightarrow> nat \<Rightarrow> js_error option \<times> bytes list" where
  "copyRowsText names rows chunkBytes =
     finish_run (row_loop chunkBytes (map (text_row names) rows) (new_writer (chunkBytes + 1024)))
       (\<lambda>w. (None, if woff w > 0 then [w_slice w] else []))"

subsection \<open>Chunks are a cut of the image\<close>

text \<open>What a finished run yielded together with what is left in the writer.\<close>

lemma row_loop_refines:
  assumes "list_all2 refines ms rs" "wf_writer w"
  shows "case rconcat rs of
      Inr bs \<Rightarrow> \<exists>cs w'. row_loop k ms w = (cs, Inr w') \<and> wf_writer w' \<and> concat cs @ w_slice w' = w_slice w @ bs
    | Inl e \<Rightarrow> \<exists>cs. row_loop k ms w = (cs, Inl e)"
  using assms
proof (induction ms rs arbitrary: w rule: list_all2_induct)
  case Nil
  then show ?case by simp
next
  case (Cons m ms r rs)
  show ?case
  proof (cases r)
    case (Inl e)
    then have "fst (m w) = Inl e" using refinesD [OF Cons.hyps(1) Cons.prems] by (simp add: appends_Inl)
    then show ?thesis using Inl by (cases "m w") simp
  next
    case (Inr bs)
    obtain w1 where w1: "m w = (Inr (), w1)" "wf_writer w1" "w_slice w1 = w_slice w @ bs"
      using refines_InrD [OF Cons.hyps(1) [unfolded Inr] Cons.prems] by auto
    let ?w2 = "if woff w1 \<ge> k then snd (w_reset w1) else w1"
    have w2: "wf_writer ?w2" using w1(2) by (simp add: w_reset_def wf_writer_def)
    have sl: "w_slice (snd (w_reset w1)) = []" by (simp add: w_reset_def w_slice_def)
    have run: "row_loop k (m # ms) w = (let (cs, r) = row_loop k ms ?w2 in ((if woff w1 \<ge> k then w_slice w1 # cs else cs), r))"
      using w1(1) by (auto simp: Let_def split: prod.splits)
    show ?thesis
    proof (cases "rconcat rs")
      case Inl': (Inl e)
      with Cons.IH [OF w2] Inr show ?thesis unfolding run by (auto simp: Let_def)
    next
      case Inr': (Inr bs')
      with Cons.IH [OF w2] obtain cs w' where "row_loop k ms ?w2 = (cs, Inr w')" "wf_writer w'"
        "concat cs @ w_slice w' = w_slice ?w2 @ bs'" by auto
      with Inr Inr' w1(3) sl show ?thesis unfolding run by (auto simp: Let_def)
    qed
  qed
qed

lemma new_writer_wf: "wf_writer (new_writer (Suc n))" "w_slice (new_writer (Suc n)) = []"
  by (simp_all add: wf_new_writer)

subsection \<open>The image of binary rows\<close>

definition binary_cell_wire :: "int list \<Rightarrow> jsstr list \<Rightarrow> nat \<Rightarrow> copyrow \<Rightarrow> nat \<Rightarrow> js_error + bytes" where
  "binary_cell_wire oids names r row c =
     (let v = cell row names c
      in if nullish v then i32_bytes (- 1)
         else case bin_payload (oids ! c) v of Some x \<Rightarrow> lp_wire x | None \<Rightarrow> Inl (CopyMismatch r c))"

definition binary_row_wire :: "int list \<Rightarrow> jsstr list \<Rightarrow> nat \<Rightarrow> copyrow \<Rightarrow> js_error + bytes" where
  "binary_row_wire oids names r row =
     rconcat [i16_bytes (int (length oids)), rconcat (map (binary_cell_wire oids names r row) [0 ..< length oids])]"

definition binary_image :: "int list \<Rightarrow> jsstr list \<Rightarrow> copyrow list \<Rightarrow> js_error + bytes" where
  "binary_image oids names rows =
     rconcat [Inr (COPY_SIG @ be_bytes 4 0 @ be_bytes 4 0),
              rconcat (map (\<lambda>(r, row). binary_row_wire oids names r row) (enumerate 0 rows)),
              Inr (be_bytes 2 65535)]"

lemma yields_try_map:
  "refines m r \<Longrightarrow> refines (w_try m (\<lambda>e. wfail (f e))) (case r of Inl e \<Rightarrow> Inl (f e) | Inr bs \<Rightarrow> Inr bs)"
  unfolding refines_def yields_def
  by (cases r) (fastforce simp: w_try_def wfail_def appends_Inl appends_Inr split: prod.splits sum.splits)+

lemma lp_payload_error: "bin_payload oid v = Some x \<Longrightarrow> lp_wire x = Inl e \<Longrightarrow> e \<noteq> ElemMismatch"
  by (auto simp: bin_payload_def lp_wire_def i64_bytes_def i32_bytes_def rbind_def
      split: if_splits jsval.splits option.splits sum.splits)

lemma binary_cell_refines: "refines (binary_cell oids names r row c) (binary_cell_wire oids names r row c)"
proof -
  let ?v = "cell row names c" and ?f = "\<lambda>e. if e \<noteq> ElemMismatch then e else CopyMismatch r c"
  have f: "(\<lambda>e. if e \<noteq> ElemMismatch then wfail e else wfail (CopyMismatch r c)) = (\<lambda>e. wfail (?f e))" by auto
  show ?thesis
    using yields_try_map [OF elem_refines [of "oids ! c" ?v], of ?f] refines_int32 [of "- 1"]
      lp_payload_error [of "oids ! c" ?v]
    unfolding binary_cell_def binary_cell_wire_def f Let_def
    by (auto simp: elem_wire_def split: option.splits sum.splits if_splits)
qed

lemma binary_row_refines: "refines (binary_row oids names r row) (binary_row_wire oids names r row)"
  unfolding binary_row_def binary_row_wire_def
  by (rule refines_wdo) (simp add: writes refines_map binary_cell_refines del: wdo.simps)

lemma copy_header_refines:
  "refines (wdo [w_bytes COPY_SIG, w_int32 0, w_int32 0]) (Inr (COPY_SIG @ be_bytes 4 0 @ be_bytes 4 0))"
proof -
  have "refines (wdo [w_bytes COPY_SIG, w_int32 0, w_int32 0]) (rconcat [Inr COPY_SIG, i32_bytes 0, i32_bytes 0])"
    by (rule refines_wdo) (simp add: writes)
  then show ?thesis by (simp add: i32_bytes_def)
qed

text \<open>Every chunk yielded inside the loop has at least the requested size.\<close>

lemma row_loop_sizes:
  "list_all2 refines ms rs \<Longrightarrow> wf_writer w \<Longrightarrow> c \<in> set (fst (row_loop k ms w)) \<Longrightarrow> k \<le> length c"
proof (induction ms rs arbitrary: w rule: list_all2_induct)
  case (Cons m ms r rs)
  have wf: "wf_writer (snd (m w))" using refinesD [OF Cons.hyps(1) Cons.prems(1)] by (simp add: appends_def)
  then have r: "wf_writer (snd (w_reset (snd (m w))))" by (simp add: w_reset_def wf_writer_def)
  show ?case using Cons.prems(2) Cons.IH [OF wf] Cons.IH [OF r] wf
    by (cases "m w"; cases "fst (m w)") (auto simp: Let_def split: if_splits prod.splits)
qed simp

lemma copyRowsBinary_image:
  "case binary_image oids names rows of
     Inr bs \<Rightarrow> \<exists>cs. copyRowsBinary oids names rows k = (None, cs) \<and> concat cs = bs \<and> (\<forall>c \<in> set (butlast cs). k \<le> length c)
   | Inl e \<Rightarrow> \<exists>cs. copyRowsBinary oids names rows k = (Some e, cs)"
proof -
  let ?ms = "map (\<lambda>(r, row). binary_row oids names r row) (enumerate 0 rows)"
  let ?rs = "map (\<lambda>(r, row). binary_row_wire oids names r row) (enumerate 0 rows)"
  have new: "wf_writer (new_writer (k + 4096))" using wf_new_writer [of "k + 4096"] by simp
  obtain w where w: "wdo [w_bytes COPY_SIG, w_int32 0, w_int32 0] (new_writer (k + 4096)) = (Inr (), w)" "wf_writer w"
    "w_slice w = COPY_SIG @ be_bytes 4 0 @ be_bytes 4 0"
    using refines_InrD [OF copy_header_refines new] by auto
  have run: "copyRowsBinary oids names rows k = finish_run (row_loop k ?ms w) (\<lambda>w1.
         run_wop (w_int16 65535) w1 (\<lambda>w2. (None, [w_slice w2])))"
    unfolding copyRowsBinary_def run_wop_def w(1) by simp
  have ref: "list_all2 refines ?ms ?rs"
    by (auto simp: list_all2_conv_all_nth binary_row_refines split: prod.splits)
  note loop = row_loop_refines [OF ref w(2), of k]
  show ?thesis
  proof (cases "rconcat ?rs")
    case (Inl e)
    with loop obtain cs where "row_loop k ?ms w = (cs, Inl e)" by auto
    with Inl show ?thesis unfolding run by (simp add: finish_run_def binary_image_def)
  next
    case (Inr bs)
    with loop obtain cs w1 where L: "row_loop k ?ms w = (cs, Inr w1)" "wf_writer w1" "concat cs @ w_slice w1 = w_slice w @ bs"
      by auto
    have t: "i16_bytes 65535 = Inr (be_bytes 2 65535)" by (simp add: i16_bytes_def)
    obtain w2 where w2: "w_int16 65535 w1 = (Inr (), w2)" "w_slice w2 = w_slice w1 @ be_bytes 2 65535"
      using refines_InrD [OF refines_int16 [of 65535, unfolded t] L(2)] by auto
    have out: "copyRowsBinary oids names rows k = (None, cs @ [w_slice w2])"
      unfolding run by (simp add: finish_run_def run_wop_def L(1) w2(1))
    have "concat (cs @ [w_slice w2]) = COPY_SIG @ be_bytes 4 0 @ be_bytes 4 0 @ bs @ be_bytes 2 65535"
      using L(3) w2(2) w(3) by (metis append.assoc concat.simps concat_append append_Nil2)
    moreover have "\<forall>c \<in> set cs. k \<le> length c" using row_loop_sizes [OF ref w(2), of _ k] L(1) by simp
    ultimately show ?thesis using Inr out by (simp add: binary_image_def)
  qed
qed

subsection \<open>The image of text rows\<close>

definition esc_copy :: "jsstr \<Rightarrow> jsstr" where
  "esc_copy s = concat (map (\<lambda>c. case copy_escape c of Some e \<Rightarrow> [u16 92, u16 e] | None \<Rightarrow> [c]) s)"

lemma esc_copy_simps [simp]:
  "esc_copy [] = []"
  "esc_copy (c # s) = (case copy_escape c of Some e \<Rightarrow> [u16 92, u16 e] | None \<Rightarrow> [c]) @ esc_copy s"
  by (simp_all add: esc_copy_def)

lemma copy_escape_ascii: "copy_escape c = Some e \<Longrightarrow> e < 128"
  by (auto simp: copy_escape_def Let_def split: if_splits)

lemma esc_copy_loop_refines: "refines (esc_copy_loop run cs) (Inr (utf8 (run @ esc_copy cs)))"
proof (induction cs arbitrary: run)
  case Nil
  then show ?case by (simp add: slice_refines)
next
  case (Cons c cs)
  show ?case
  proof (cases "copy_escape c")
    case None
    with Cons [of "run @ [c]"] show ?thesis by simp
  next
    case (Some e)
    note e = copy_escape_ascii [OF Some]
    have "refines (wdo [w_slice_of run, w_byte 92, w_byte e, esc_copy_loop [] cs])
        (Inr (concat [utf8 run, [b8 92], [b8 e], utf8 (esc_copy cs)]))"
      using Cons [of "[]"] by (intro wdo_Inr) (simp add: writes)
    moreover have "utf8 (run @ u16 92 # u16 e # esc_copy cs) = utf8 run @ b8 92 # b8 e # utf8 (esc_copy cs)"
      using e by (simp add: utf8_cut utf8_ascii_Cons)
    ultimately show ?thesis using Some by simp
  qed
qed

lemma writeEscCopy_refines: "refines (writeEscCopy s) (Inr (utf8 (esc_copy s)))"
  using esc_copy_loop_refines [of "[]" s] by (simp add: writeEscCopy_def)

text \<open>The text of a cell before it is escaped.\<close>

definition copy_value :: "jsval \<Rightarrow> js_error + jsstr" where
  "copy_value v =
     (if is_number v \<or> is_bigint v then Inr (js_string v)
      else case v of
        JStr s \<Rightarrow> Inr s
      | JBool b \<Rightarrow> Inr (bool_text b)
      | JDate d \<Rightarrow> toISOString d
      | JBuf b \<Rightarrow> Inr (hex_literal b)
      | JOther s \<Rightarrow> Inr s
      | _ \<Rightarrow> json_text v)"

lemma esc_copy_id: "\<forall>c \<in> set s. copy_escape c = None \<Longrightarrow> esc_copy s = s"
  by (induction s) simp_all

lemma digits_unescaped: "c \<in> set (dec_nat n) \<Longrightarrow> 48 \<le> unat c \<and> unat c \<le> 57"
  using dec_digits_less [of _ n] by (auto simp: dec_nat_def unat_digit_unit) fastforce+

lemma number_units: "is_number v \<or> is_bigint v \<Longrightarrow> \<forall>c \<in> set (js_string v). num_unit c"
proof -
  have d: "\<forall>c \<in> set (dec_int n). num_unit c" for n
    using digits_unescaped by (auto simp: dec_int_def num_unit_def split: if_splits)
  have t: "\<forall>c \<in> set (nt_str x). num_unit c" for x using nt_str_units [of x] by (simp add: list_all_iff)
  assume "is_number v \<or> is_bigint v"
  then show ?thesis using d t
    by (cases v) (simp_all add: is_number_def is_bigint_def js_string_def flip: dec_int_zero)
qed

lemma num_unit_unescaped: "num_unit c \<Longrightarrow> copy_escape c = None"
  by (auto simp: num_unit_def copy_escape_def Let_def)

lemma iso_units: "toISOString d = Inr s \<Longrightarrow> \<forall>c \<in> set s. copy_escape c = None"
proof -
  have p: "\<forall>c \<in> set (pad_dec k n). 48 \<le> unat c \<and> unat c \<le> 57" for k n
    using digits_unescaped by (auto simp: pad_dec_def Let_def)
  have q: "copy_escape c = None" if "48 \<le> unat c \<and> unat c \<le> 57" for c
    using that by (auto simp: copy_escape_def Let_def)
  have z: "copy_escape (u16 n) = None" if "n \<in> {43, 45, 58, 46, 84, 90}" for n
    using that by (auto simp: copy_escape_def Let_def)
  assume "toISOString d = Inr s"
  then show ?thesis using p q z
    by (auto simp: toISOString_def Let_def split: option.splits if_splits)
qed

lemma hex_unescaped: "c \<in> set (hex_bytes b) \<Longrightarrow> copy_escape c = None"
proof -
  have h: "copy_escape (hex_unit d) = None" if "d < 16" for d
    using that by (auto simp: hex_unit_def copy_escape_def Let_def)
  assume "c \<in> set (hex_bytes b)"
  then show ?thesis using h unat_byte_less by (auto simp: hex_bytes_def div_less_iff_less_mult)
qed

lemma cell_writes: "writes_text (copyTextCellInto v) (rbind (copy_value v) (\<lambda>s. Inr (esc_copy s)))"
proof -
  have num: ?thesis if v: "is_number v \<or> is_bigint v"
  proof -
    have "esc_copy (js_string v) = js_string v"
      using number_units [OF v] num_unit_unescaped by (intro esc_copy_id) blast
    with v writes_asc [OF ascii_js_string [OF v]] show ?thesis by (simp add: copyTextCellInto_def copy_value_def)
  qed
  have obj: "writes_text (w_result r writeEscCopy) (rbind r (\<lambda>s. Inr (esc_copy s)))" for r
    by (rule writes_result) (rule writeEscCopy_refines)
  have str: "writes_text (writeEscCopy s) (Inr (esc_copy s))" for s
    using writeEscCopy_refines [of s] by (simp add: writes_text_def)
  have dat: "writes_text (writeIso d) (rbind (toISOString d) (\<lambda>s. Inr (esc_copy s)))" for d
    using writeIso_refines [of d] esc_copy_id [OF iso_units [of d]] by (cases "toISOString d") (auto simp: writes_text_def)
  have boo: "writes_text (w_byte (if b then 116 else 102)) (Inr (esc_copy (bool_text b)))" for b
    using refines_byte [of "if b then 116 else 102"]
    by (cases b) (simp_all add: writes_text_def bool_text_def utf8_ascii_Cons copy_escape_def Let_def)
  have buf: "writes_text (wdo [w_asc [u16 92, u16 92, u16 120], w_asc (hex_bytes b)]) (Inr (esc_copy (hex_literal b)))" for b
  proof -
    have "refines (wdo [w_asc [u16 92, u16 92, u16 120], w_asc (hex_bytes b)])
        (Inr (concat [latin1 [u16 92, u16 92, u16 120], latin1 (hex_bytes b)]))"
      by (rule wdo_Inr) (simp only: list_all2_Cons list_all2_Nil list.map simp_thms refines_asc)
    moreover have "esc_copy (hex_literal b) = [u16 92, u16 92, u16 120] @ hex_bytes b"
      using esc_copy_id [of "hex_bytes b"] hex_unescaped by (auto simp: hex_literal_def copy_escape_def Let_def)
    moreover have "utf8 ([u16 92, u16 92, u16 120] @ hex_bytes b) = latin1 [u16 92, u16 92, u16 120] @ latin1 (hex_bytes b)"
      by (simp add: utf8_ascii_Cons utf8_ascii)
    ultimately show ?thesis by (simp add: writes_text_def)
  qed
  show ?thesis
  proof (cases "is_number v \<or> is_bigint v")
    case False
    with obj str dat boo buf show ?thesis
      by (cases v) (simp_all add: copyTextCellInto_def copy_value_def is_number_def is_bigint_def del: wdo.simps)
  qed (rule num)
qed

definition copy_field :: "jsval \<Rightarrow> js_error + jsstr" where
  "copy_field v = (if nullish v then Inr [u16 92, u16 78] else rbind (copy_value v) (\<lambda>s. Inr (esc_copy s)))"

definition copy_line :: "jsstr list \<Rightarrow> copyrow \<Rightarrow> js_error + jsstr" where
  "copy_line names row = rbind (rmap (\<lambda>c. copy_field (cell row names c)) [0 ..< length names])
     (\<lambda>fs. Inr (js_join [u16 9] fs @ [u16 10]))"

definition copy_text :: "jsstr list \<Rightarrow> copyrow list \<Rightarrow> js_error + jsstr" where
  "copy_text names rows = rbind (rmap (copy_line names) rows) (\<lambda>ls. Inr (concat ls))"

lemma tab_unit [simp]: "\<not> is_lo (u16 9)" "\<not> is_lo (u16 10)"
  by (simp_all add: is_lo_def)

lemma text_cell_refines:
  "refines (text_cell names row c) (rbind (copy_field (cell row names c)) (\<lambda>s. Inr ((if c > 0 then [b8 9] else []) @ utf8 s)))"
proof -
  let ?v = "cell row names c"
  have f: "refines (if nullish ?v then w_asc [u16 92, u16 78] else copyTextCellInto ?v) (rbind (copy_field ?v) (\<lambda>s. Inr (utf8 s)))"
    using cell_writes [of ?v] refines_asc [of "[u16 92, u16 78]"]
    by (auto simp: copy_field_def writes_text_def utf8_ascii)
  have s: "refines (if c > 0 then w_byte 9 else wret ()) (Inr (if c > 0 then [b8 9] else []))"
    using refines_byte [of 9] by (auto simp: refines_wret)
  have "refines (text_cell names row c) (rconcat [Inr (if c > 0 then [b8 9] else []), rbind (copy_field ?v) (\<lambda>s. Inr (utf8 s))])"
    unfolding text_cell_def Let_def by (rule refines_wdo) (simp add: f s)
  then show ?thesis by (cases "copy_field ?v") simp_all
qed

lemma js_join_snoc: "js_join sep (fs @ [f]) = (if fs = [] then f else js_join sep fs @ sep @ f)"
proof (induction fs)
  case (Cons a fs)
  then show ?case by (cases fs) auto
qed simp

lemma rmap_snoc: "rmap f (xs @ [x]) = rbind (rmap f xs) (\<lambda>ys. rbind (f x) (\<lambda>y. Inr (ys @ [y])))"
proof (induction xs)
  case (Cons a xs)
  then show ?case by (cases "f a"; cases "rmap f xs"; cases "f x") simp_all
next
  case Nil
  then show ?case by (cases "f x") simp_all
qed

lemma text_cells_join:
  "rconcat (map (\<lambda>c. rbind (g c) (\<lambda>s. Inr ((if c > 0 then [b8 9] else []) @ utf8 s))) [0 ..< n])
     = rbind (rmap g [0 ..< n]) (\<lambda>fs. Inr (utf8 (js_join [u16 9] fs)))"
proof (induction n)
  case (Suc n)
  have l: "rmap g [0 ..< n] = Inr fs \<Longrightarrow> (fs = []) = (n = 0)" for fs using length_rmap by fastforce
  show ?case
    using Suc l by (cases "rmap g [0 ..< n]"; cases "g n")
      (auto simp: rconcat_append rmap_snoc js_join_snoc utf8_cut utf8_ascii_Cons)
qed simp

lemma text_row_refines: "refines (text_row names row) (rbind (copy_line names row) (\<lambda>s. Inr (utf8 s)))"
proof -
  let ?g = "\<lambda>c. copy_field (cell row names c)"
  have "refines (text_row names row) (rconcat [rconcat (map (\<lambda>c. rbind (?g c) (\<lambda>s. Inr ((if c > 0 then [b8 9] else []) @ utf8 s)))
      [0 ..< length names]), Inr [b8 10]])"
    unfolding text_row_def by (rule refines_wdo) (simp add: refines_map text_cell_refines refines_byte)
  then show ?thesis unfolding text_cells_join copy_line_def
    by (cases "rmap ?g [0 ..< length names]") (simp_all add: utf8_cut utf8_ascii_Cons)
qed

lemma line_ends: "copy_line names row = Inr l \<Longrightarrow> \<exists>x. l = x @ [u16 10]"
  by (auto simp: copy_line_def rbind_Inr_iff)

lemma text_rows_join:
  "rconcat (map (\<lambda>row. rbind (copy_line names row) (\<lambda>s. Inr (utf8 s))) rows) = rbind (copy_text names rows) (\<lambda>t. Inr (utf8 t))"
proof (induction rows)
  case (Cons row rows)
  have c: "utf8 (l @ t) = utf8 l @ utf8 t" if "copy_line names row = Inr l" for l t
    using line_ends [OF that] by (auto simp: utf8_cut utf8_ascii_Cons)
  with Cons show ?case
    by (cases "copy_line names row"; cases "rmap (copy_line names) rows") (simp_all add: copy_text_def)
qed (simp add: copy_text_def)

lemma copyRowsText_image:
  "case copy_text names rows of
     Inr t \<Rightarrow> \<exists>cs. copyRowsText names rows k = (None, cs) \<and> concat cs = utf8 t \<and> (\<forall>c \<in> set (butlast cs). k \<le> length c)
   | Inl e \<Rightarrow> \<exists>cs. copyRowsText names rows k = (Some e, cs)"
proof -
  have new: "wf_writer (new_writer (k + 1024))" using wf_new_writer [of "k + 1024"] by simp
  let ?ms = "map (text_row names) rows" and ?rs = "map (\<lambda>row. rbind (copy_line names row) (\<lambda>s. Inr (utf8 s))) rows"
  have ref: "list_all2 refines ?ms ?rs" by (simp add: list_all2_conv_all_nth text_row_refines)
  note loop = row_loop_refines [OF ref new, of k, unfolded text_rows_join]
  show ?thesis
  proof (cases "copy_text names rows")
    case (Inl e)
    with loop show ?thesis by (auto simp: copyRowsText_def finish_run_def)
  next
    case (Inr t)
    with loop obtain cs w1 where L: "row_loop k ?ms (new_writer (k + 1024)) = (cs, Inr w1)" "wf_writer w1"
      "concat cs @ w_slice w1 = utf8 t" by auto
    let ?cs = "cs @ (if woff w1 > 0 then [w_slice w1] else [])"
    have "copyRowsText names rows k = (None, ?cs)" by (simp add: copyRowsText_def finish_run_def L(1))
    moreover have "concat ?cs = utf8 t" using L(2,3) by (auto simp: w_slice_def)
    moreover have "\<forall>c \<in> set cs. k \<le> length c" using row_loop_sizes [OF ref new, of _ k] L(1) by simp
    then have "\<forall>c \<in> set (butlast ?cs). k \<le> length c" by (auto dest: in_set_butlastD)
    ultimately show ?thesis using Inr by auto
  qed
qed

text \<open>C35: chunking never changes the data of a COPY: for every chunk size the chunks a row generator
  yields concatenate to the same image of the rows, binary or text, each chunk but the last holding
  at least the requested size; a row that cannot be encoded ends the run with the same error for
  every chunk size.\<close>

theorem copy_chunks_exact:
  "(let (e, cs) = copyRowsBinary oids names rows k in case binary_image oids names rows of
      Inr bs \<Rightarrow> e = None \<and> concat cs = bs \<and> list_all (\<lambda>c. k \<le> length c) (butlast cs) | Inl err \<Rightarrow> e = Some err) \<and>
   (let (e, cs) = copyRowsText names rows k in case copy_text names rows of
      Inr t \<Rightarrow> e = None \<and> concat cs = utf8 t \<and> list_all (\<lambda>c. k \<le> length c) (butlast cs) | Inl err \<Rightarrow> e = Some err)"
  using copyRowsBinary_image [of oids names rows k] copyRowsText_image [of names rows k]
  by (cases "binary_image oids names rows"; cases "copy_text names rows") (auto simp: list_all_iff)

subsection \<open>The text format can be read back\<close>

text \<open>
  PostgreSQL's reader of the text format: a newline ends a row, a tab separates fields, the field
  \<open>\N\<close> is null, and a backslash introduces an escape sequence.
\<close>

fun split_units :: "nat \<Rightarrow> jsstr \<Rightarrow> jsstr list" where
  "split_units d [] = [[]]"
| "split_units d (c # cs) =
     (if unat c = d then [] # split_units d cs
      else case split_units d cs of [] \<Rightarrow> [[c]] | f # fs \<Rightarrow> (c # f) # fs)"

definition copy_unescaped :: "unit16 \<Rightarrow> unit16" where
  "copy_unescaped c = (let n = unat c in
     u16 (if n = 98 then 8 else if n = 102 then 12 else if n = 110 then 10 else if n = 114 then 13
          else if n = 116 then 9 else if n = 118 then 11 else n))"

fun copy_unescape :: "jsstr \<Rightarrow> jsstr" where
  "copy_unescape (c # d # cs) = (if unat c = 92 then copy_unescaped d # copy_unescape cs else c # copy_unescape (d # cs))"
| "copy_unescape cs = cs"

definition copy_read_field :: "jsstr \<Rightarrow> jsstr option" where
  "copy_read_field f = (if f = [u16 92, u16 78] then None else Some (copy_unescape f))"

definition copy_read :: "jsstr \<Rightarrow> jsstr option list list" where
  "copy_read t = map (\<lambda>l. map copy_read_field (split_units 9 l)) (butlast (split_units 10 t))"

lemma split_units_ne [simp]: "split_units d s \<noteq> []"
  by (induction s) (auto split: list.splits)

lemma split_units_free: "\<forall>c \<in> set f. unat c \<noteq> d \<Longrightarrow> d < 65536 \<Longrightarrow> split_units d (f @ u16 d # s) = f # split_units d s"
  by (induction f) simp_all

lemma split_units_end: "\<forall>c \<in> set f. unat c \<noteq> d \<Longrightarrow> split_units d f = [f]"
  by (induction f) simp_all

lemma split_fields:
  "fs \<noteq> [] \<Longrightarrow> \<forall>f \<in> set fs. \<forall>c \<in> set f. unat c \<noteq> 9 \<Longrightarrow> split_units 9 (js_join [u16 9] fs) = fs"
  by (induction "[u16 9]" fs rule: js_join.induct) (simp_all add: split_units_end split_units_free [where d = 9, simplified])

lemma split_lines:
  "\<forall>l \<in> set ls. \<forall>c \<in> set l. unat c \<noteq> 10 \<Longrightarrow>
   butlast (split_units 10 (concat (map (\<lambda>l. l @ [u16 10]) ls))) = ls"
  by (induction ls) (simp_all add: split_units_free [where d = 10, simplified])

lemma esc_copy_free: "c \<in> set (esc_copy s) \<Longrightarrow> unat c \<noteq> 9 \<and> unat c \<noteq> 10"
proof (induction s)
  case (Cons a s)
  then show ?case by (auto simp: copy_escape_def Let_def split: if_splits)
qed simp

lemma copy_unescape_esc: "copy_unescape (esc_copy s) = s"
proof (induction s)
  case (Cons a s)
  show ?case
  proof (cases "copy_escape a")
    case None
    then have "unat a \<noteq> 92" by (auto simp: copy_escape_def Let_def split: if_splits)
    with None Cons show ?thesis by (cases "esc_copy s") auto
  next
    case (Some e)
    then have "copy_unescaped (u16 e) = a"
      by (auto simp: copy_escape_def copy_unescaped_def Let_def split: if_splits) (metis u16_unat)+
    with Some Cons show ?thesis by simp
  qed
qed simp

lemma esc_copy_not_null: "esc_copy s \<noteq> [u16 92, u16 78]"
proof (cases s)
  case (Cons a r)
  have "u16 n \<noteq> u16 78" if "n \<in> {92, 116, 110, 114}" for n
    using that by (auto simp: u16_def)
  with Cons show ?thesis by (auto simp: copy_escape_def Let_def split: if_splits option.splits)
qed simp

text \<open>The values of a row: null, or the text of the cell.\<close>

definition cell_value :: "jsval \<Rightarrow> js_error + jsstr option" where
  "cell_value v = (if nullish v then Inr None else rbind (copy_value v) (\<lambda>s. Inr (Some s)))"

definition row_values :: "jsstr list \<Rightarrow> copyrow \<Rightarrow> js_error + jsstr option list" where
  "row_values names row = rmap (\<lambda>c. cell_value (cell row names c)) [0 ..< length names]"

lemma field_read:
  assumes "copy_field v = Inr f"
  shows "cell_value v = Inr (copy_read_field f)" "\<forall>c \<in> set f. unat c \<noteq> 9 \<and> unat c \<noteq> 10"
  using assms esc_copy_free esc_copy_not_null
  by (auto simp: copy_field_def cell_value_def copy_read_field_def rbind_Inr_iff copy_unescape_esc split: if_splits)

lemma rmap_read:
  "rmap f xs = Inr ys \<Longrightarrow> (\<And>x y. f x = Inr y \<Longrightarrow> g x = Inr (h y)) \<Longrightarrow> rmap g xs = Inr (map h ys)"
proof (induction xs arbitrary: ys)
  case (Cons x xs)
  then show ?case by (auto simp: rbind_Inr_iff)
qed simp

lemma rmap_all: "rmap f xs = Inr ys \<Longrightarrow> (\<And>x y. f x = Inr y \<Longrightarrow> P y) \<Longrightarrow> \<forall>y \<in> set ys. P y"
proof (induction xs arbitrary: ys)
  case (Cons x xs)
  then show ?case by (auto simp: rbind_Inr_iff)
qed simp

lemma line_read:
  assumes "copy_line names row = Inr l" "names \<noteq> []"
  shows "\<exists>x. l = x @ [u16 10] \<and> (\<forall>c \<in> set x. unat c \<noteq> 10) \<and> row_values names row = Inr (map copy_read_field (split_units 9 x))"
proof -
  from assms(1) obtain fs where fs: "rmap (\<lambda>c. copy_field (cell row names c)) [0 ..< length names] = Inr fs"
    and l: "l = js_join [u16 9] fs @ [u16 10]" by (auto simp: copy_line_def rbind_Inr_iff)
  have u: "\<forall>f \<in> set fs. \<forall>c \<in> set f. unat c \<noteq> 9 \<and> unat c \<noteq> 10"
    by (rule rmap_all [OF fs]) (rule field_read(2))
  have "fs \<noteq> []" using length_rmap [OF fs] assms(2) by auto
  then have s: "split_units 9 (js_join [u16 9] fs) = fs" using u by (intro split_fields) auto
  have j: "\<forall>f \<in> set gs. \<forall>c \<in> set f. unat c \<noteq> 10 \<Longrightarrow> \<forall>c \<in> set (js_join [u16 9] gs). unat c \<noteq> 10" for gs
    by (induction "[u16 9]" gs rule: js_join.induct) auto
  have "row_values names row = Inr (map copy_read_field fs)"
    unfolding row_values_def by (rule rmap_read [OF fs]) (rule field_read(1))
  with l s j [of fs] u show ?thesis by auto
qed

text \<open>COPY text is read back as the values that were written: the rows of a finished text COPY,
  read by the format's reader, are exactly the texts of the cells, null where the value is null or
  undefined, whatever backslashes, tabs and line breaks they contain.\<close>

theorem copy_text_readable:
  assumes "names \<noteq> []" and "copyRowsText names rows k = (None, cs)"
  shows "\<exists>t. concat cs = utf8 t \<and> rmap (row_values names) rows = Inr (copy_read t)"
proof -
  obtain t where t: "copy_text names rows = Inr t" "concat cs = utf8 t"
    using copyRowsText_image [of names rows k] assms(2) by (cases "copy_text names rows") auto
  then obtain ls where ls: "rmap (copy_line names) rows = Inr ls" "t = concat ls"
    by (auto simp: copy_text_def rbind_Inr_iff)
  let ?b = "\<lambda>l. butlast l"
  have line: "l = ?b l @ [u16 10] \<and> (\<forall>c \<in> set (?b l). unat c \<noteq> 10)" if "copy_line names row = Inr l" for row l
    using line_read [OF that assms(1)] by (elim exE conjE) simp
  have "\<forall>l \<in> set ls. l = ?b l @ [u16 10] \<and> (\<forall>c \<in> set (?b l). unat c \<noteq> 10)"
    by (rule rmap_all [OF ls(1)]) (rule line)
  then have each: "l = ?b l @ [u16 10]" "\<forall>c \<in> set (?b l). unat c \<noteq> 10" if "l \<in> set ls" for l
    using that by blast+
  have "t = concat (map (\<lambda>l. l @ [u16 10]) (map ?b ls))"
    unfolding ls(2) map_map comp_def using each(1) by (intro arg_cong [of _ _ concat] map_idI [symmetric]) (rule sym)
  then have "butlast (split_units 10 t) = map ?b ls" using split_lines [of "map ?b ls"] each by simp
  then have "copy_read t = map (\<lambda>l. map copy_read_field (split_units 9 (?b l))) ls" by (simp add: copy_read_def)
  moreover have "rmap (row_values names) rows = Inr (map (\<lambda>l. map copy_read_field (split_units 9 (?b l))) ls)"
    by (rule rmap_read [OF ls(1)]) (use line_read [OF _ assms(1)] in fastforce)
  ultimately show ?thesis using t(2) by auto
qed

text \<open>A row with a tab and a backslash and a null, sent in chunks of one byte.\<close>

theorem copy_text_readable_witness:
  "\<exists>cs t. copyRowsText [[u16 97], [u16 98]] [Row_arr [JStr [u16 9, u16 92], JNull]] 1 = (None, cs) \<and> concat cs = utf8 t
     \<and> copy_read t = [[Some [u16 9, u16 92], None]]"
proof -
  let ?n = "[[u16 97], [u16 98]]" and ?rows = "[Row_arr [JStr [u16 9, u16 92], JNull]]"
  have v: "rmap (row_values ?n) ?rows = Inr [[Some [u16 9, u16 92], None]]"
    by (simp add: row_values_def cell_value_def cell_def nullish_def copy_value_def is_number_def is_bigint_def upt_rec)
  have "\<exists>t. copy_text ?n ?rows = Inr t"
    by (simp add: copy_text_def copy_line_def copy_field_def cell_def nullish_def copy_value_def is_number_def is_bigint_def upt_rec)
  then obtain t where t: "copy_text ?n ?rows = Inr t" ..
  from copyRowsText_image [of ?n ?rows 1, unfolded t sum.case] obtain cs where cs: "copyRowsText ?n ?rows 1 = (None, cs)" by blast
  have "?n \<noteq> []" by simp
  from copy_text_readable [OF this cs] obtain u where u: "concat cs = utf8 u" "rmap (row_values ?n) ?rows = Inr (copy_read u)"
    by blast
  then have "copy_read u = [[Some [u16 9, u16 92], None]]" using v by (simp only: sum.inject(2))
  with cs u(1) show ?thesis by blast
qed

subsection \<open>Pre-encoded parameters and the HTTP transports' parameters\<close>

record raw_params =
  rp_formats :: "int list"
  rp_values :: "bytes option list"

definition rawParams :: "int list option \<Rightarrow> bytes option list \<Rightarrow> js_error + raw_params" where
  "rawParams formats vals =
     (let f = (case formats of None \<Rightarrow> [] | Some f \<Rightarrow> f)
      in if length f \<noteq> 0 \<and> length f \<noteq> 1 \<and> length f \<noteq> length vals then Inl (RawParamsLength (length vals) (length f))
         else Inr \<lparr>rp_formats = f, rp_values = vals\<rparr>)"

definition js_text :: "js_error + jsstr \<Rightarrow> js_error + jsval" where
  "js_text r = rbind r (\<lambda>s. Inr (JStr s))"

definition encodeJsonParam :: "jsval \<Rightarrow> int option \<Rightarrow> js_error + jsval" where
  "encodeJsonParam v declaredOid =
     (if nullish v then Inr JNull
      else if declaredOid = Some 114 \<or> declaredOid = Some 3802 then
        (case v of JStr s \<Rightarrow> Inr v
           | _ \<Rightarrow> rbind (json_val v) (\<lambda>x. case x of Some s \<Rightarrow> Inr (JStr s) | None \<Rightarrow> Inr JUndef))
      else case v of
          JU8 b \<Rightarrow> Inr (JStr (hex_literal b))
        | JBuf b \<Rightarrow> Inr (JStr (hex_literal b))
        | JDate d \<Rightarrow> js_text (toISOString d)
        | JBig n \<Rightarrow> Inr (JStr (dec_int n))
        | JArr vs \<Rightarrow> js_text (arrayLiteral vs)
        | JObj kvs \<Rightarrow> js_text (json_text v)
        | JStr s \<Rightarrow> js_text (nul_checked s)
        | _ \<Rightarrow> Inr v)"

definition encodeJsonParams :: "jsval list \<Rightarrow> int list option \<Rightarrow> js_error + jsval list" where
  "encodeJsonParams params oids =
     rmap (\<lambda>(i, v). encodeJsonParam v (case oids of None \<Rightarrow> None | Some os \<Rightarrow> if i < length os then Some (os ! i) else None))
       (enumerate 0 params)"

lemma rawParams_lengths:
  "rawParams formats vals = Inr r \<Longrightarrow> rp_values r = vals \<and> (length (rp_formats r) \<in> {0, 1, length vals})"
  by (auto simp: rawParams_def Let_def split: if_splits)

definition is_octets :: "jsval \<Rightarrow> bool" where
  "is_octets v = (case v of JBuf _ \<Rightarrow> True | JU8 _ \<Rightarrow> True | _ \<Rightarrow> False)"

definition passes_json :: "jsval \<Rightarrow> bool" where
  "passes_json v \<longleftrightarrow> is_number v \<or> (case v of JBool _ \<Rightarrow> True | JOther _ \<Rightarrow> True | _ \<Rightarrow> False)"

text \<open>The HTTP parameter encoding mirrors the wire driver's text parameters: apart from byte
  arrays, and from the numbers and booleans JSON carries itself, a parameter crosses HTTP as the
  string whose UTF-8 bytes the wire encoder sends, null as null, and fails with the same error.\<close>

theorem http_params_mirror:
  assumes "\<not> is_octets v" "\<not> passes_json v"
  shows "encodeParam v = rbind (encodeJsonParam v None) (\<lambda>j. Inr \<lparr>ep_format = 0,
           ep_bytes = (case j of JStr s \<Rightarrow> Some (utf8 s) | _ \<Rightarrow> None)\<rparr>)"
proof -
  have n: "nul_checked (dec_int i) = Inr (dec_int i)" for i
    using nul_free_number [of "JBig i"] by (simp add: is_bigint_def js_string_def)
  have t: "rbind (js_text r) (\<lambda>j. Inr \<lparr>ep_format = 0, ep_bytes = (case j of JStr s \<Rightarrow> Some (utf8 s) | _ \<Rightarrow> None)\<rparr>) = text_param r" for r
    by (cases r) (simp_all add: js_text_def text_param_def)
  show ?thesis using assms
    by (cases v) (simp_all add: encodeJsonParam_def param_eqs is_octets_def passes_json_def is_number_def nullish_def js_string_def n t,
        simp_all add: text_param_def)
qed

theorem http_params_mirror_witness:
  "encodeParam (JArr [JInt 1, JNull]) = rbind (encodeJsonParam (JArr [JInt 1, JNull]) None) (\<lambda>j. Inr \<lparr>ep_format = 0,
           ep_bytes = (case j of JStr s \<Rightarrow> Some (utf8 s) | _ \<Rightarrow> None)\<rparr>)"
  by (rule http_params_mirror) (simp_all add: is_octets_def passes_json_def is_number_def)

text \<open>A plain \<open>Uint8Array\<close> is the exception in the other direction: bytea over HTTP, JSON on the wire.\<close>

lemma octets_differ:
  "encodeJsonParam (JU8 b) None = Inr (JStr (hex_literal b)) \<and> encodeParam (JU8 b) = text_param (json_text (JU8 b))"
  by (simp add: encodeJsonParam_def nullish_def param_eqs)

end
