(* ===== verification/Temporal.thy ===== *)
theory Temporal
  imports Encode
begin

section \<open>Temporal text and binary timestamps (src/temporal.ts)\<close>

text \<open>
  PostgreSQL's ISO text of a date or timestamp is parsed three times in the source: from bytes
  (\<open>instantFromBytes\<close>), from a string (\<open>instantFromString\<close>) and by generated code
  (\<open>instantSnippet\<close>, which computes everything and keeps an \<open>ok\<close> flag instead of returning
  early). The model has the shared scanning steps once, over an accessor that returns the code at a
  position or None for undefined, and the three functions on top. A field that reads undefined is
  NaN, also None. The lemmas show that the three agree, that they invert \<open>toISOString\<close>, and
  that the integer arithmetic of \<open>binTimestampMs\<close> is exact.
\<close>

subsection \<open>Scanning\<close>

type_synonym accessor = "nat \<Rightarrow> int option"

definition at_bytes :: "bytes \<Rightarrow> accessor" where
  "at_bytes b p = (if p < length b then Some (uint (b ! p)) else None)"

definition at_str :: "jsstr \<Rightarrow> accessor" where
  "at_str s p = (if p < length s then Some (uint (s ! p)) else None)"

definition digit_at :: "accessor \<Rightarrow> nat \<Rightarrow> int option" where
  "digit_at a p = (case a p of Some c \<Rightarrow> if 48 \<le> c \<and> c \<le> 57 then Some (c - 48) else None | None \<Rightarrow> None)"

text \<open>The digit loops: the year, at most three digits of the fraction, the rest of the fraction.\<close>

function scan_digits :: "accessor \<Rightarrow> nat \<Rightarrow> nat \<Rightarrow> int \<Rightarrow> nat \<Rightarrow> int \<times> nat \<times> nat" where
  "scan_digits a p e Y n =
     (case (if p < e then digit_at a p else None) of
        Some d \<Rightarrow> scan_digits a (Suc p) e (Y * 10 + d) (Suc n)
      | None \<Rightarrow> (Y, n, p))"
  by pat_completeness auto
termination by (relation "measure (\<lambda>(a, p, e, Y, n). e - p)") (auto split: if_splits)

function scan_millis :: "accessor \<Rightarrow> nat \<Rightarrow> nat \<Rightarrow> int \<Rightarrow> nat \<Rightarrow> int \<times> nat \<times> nat" where
  "scan_millis a p e f k =
     (case (if p < e \<and> k < 3 then digit_at a p else None) of
        Some d \<Rightarrow> scan_millis a (Suc p) e (f * 10 + d) (Suc k)
      | None \<Rightarrow> (f, k, p))"
  by pat_completeness auto
termination by (relation "measure (\<lambda>(a, p, e, f, k). e - p)") (auto split: if_splits)

function skip_digits :: "accessor \<Rightarrow> nat \<Rightarrow> nat \<Rightarrow> nat" where
  "skip_digits a p e = (case (if p < e then digit_at a p else None) of Some d \<Rightarrow> skip_digits a (Suc p) e | None \<Rightarrow> p)"
  by pat_completeness auto
termination by (relation "measure (\<lambda>(a, p, e). e - p)") (auto split: if_splits)

declare scan_digits.simps [simp del] scan_millis.simps [simp del] skip_digits.simps [simp del]

text \<open>A two-digit field; None is NaN.\<close>

definition two :: "accessor \<Rightarrow> nat \<Rightarrow> int option" where
  "two a p = (case (a p, a (p + 1)) of (Some x, Some y) \<Rightarrow> Some ((x - 48) * 10 + (y - 48)) | _ \<Rightarrow> None)"

definition frac_part :: "accessor \<Rightarrow> nat \<Rightarrow> nat \<Rightarrow> int \<times> nat" where
  "frac_part a p e =
     (if p < e \<and> a p = Some 46
      then (let (f, k, p') = scan_millis a (p + 1) e 0 0 in (f * 10 ^ (3 - k), skip_digits a p' e))
      else (0, p))"

definition zone_off :: "int \<Rightarrow> int option \<Rightarrow> int option \<Rightarrow> int option \<Rightarrow> int option" where
  "zone_off sg th tm tsc = (case (th, tm, tsc) of (Some h, Some m, Some s) \<Rightarrow> Some (sg * ((h * 60 + m) * 60 + s)) | _ \<Rightarrow> None)"

definition zone_part :: "accessor \<Rightarrow> nat \<Rightarrow> nat \<Rightarrow> int option \<times> nat" where
  "zone_part a p e =
     (if p < e \<and> (a p = Some 43 \<or> a p = Some 45)
      then (let sg = (if a p = Some 45 then - 1 else 1); th = two a (p + 1)
            in if p + 3 < e \<and> a (p + 3) = Some 58
               then (let tm = two a (p + 4)
                     in if p + 6 < e \<and> a (p + 6) = Some 58
                        then (zone_off sg th tm (two a (p + 7)), p + 9)
                        else (zone_off sg th tm (Some 0), p + 6))
               else (zone_off sg th (Some 0) (Some 0), p + 3))
      else if p < e \<and> a p = Some 90 then (Some 0, p + 1) else (Some 0, p))"

record time_fields =
  tf_hour :: "int option"
  tf_min :: "int option"
  tf_sec :: "int option"
  tf_ms :: int
  tf_off :: "int option"
  tf_end :: nat

definition has_time :: "accessor \<Rightarrow> nat \<Rightarrow> nat \<Rightarrow> bool" where
  "has_time a p e \<longleftrightarrow> p < e \<and> (a p = Some 32 \<or> a p = Some 84)"

definition time_ok :: "accessor \<Rightarrow> nat \<Rightarrow> nat \<Rightarrow> bool" where
  "time_ok a p e \<longleftrightarrow> \<not> (int e - int (p + 1) < 8 \<or> a (p + 3) \<noteq> Some 58 \<or> a (p + 6) \<noteq> Some 58)"

definition time_part :: "accessor \<Rightarrow> nat \<Rightarrow> nat \<Rightarrow> time_fields" where
  "time_part a p e =
     (if has_time a p e
      then (let (ms, p1) = frac_part a (p + 9) e; (off, p2) = zone_part a p1 e
            in \<lparr>tf_hour = two a (p + 1), tf_min = two a (p + 4), tf_sec = two a (p + 7), tf_ms = ms, tf_off = off, tf_end = p2\<rparr>)
      else \<lparr>tf_hour = Some 0, tf_min = Some 0, tf_sec = Some 0, tf_ms = 0, tf_off = Some 0, tf_end = p\<rparr>)"

definition bc_suffix :: "accessor \<Rightarrow> nat \<Rightarrow> nat \<Rightarrow> bool" where
  "bc_suffix a p e \<longleftrightarrow> 3 \<le> e - p \<and> a (e - 1) = Some 67 \<and> a (e - 2) = Some 66 \<and> a (e - 3) = Some 32"

definition date_ok :: "accessor \<Rightarrow> nat \<Rightarrow> nat \<Rightarrow> nat \<Rightarrow> bool" where
  "date_ok a n p e \<longleftrightarrow> \<not> (n < 4 \<or> a p \<noteq> Some 45 \<or> a (p + 3) \<noteq> Some 45 \<or> e - p < 6)"

definition is_infinity :: "accessor \<Rightarrow> nat \<Rightarrow> bool" where
  "is_infinity a p \<longleftrightarrow> a p = Some 105 \<or> a p = Some 45 \<and> a (p + 1) = Some 105"

definition Y400_MS :: int where "Y400_MS = 12622780800000"

text \<open>\<open>Date.UTC(yy + sh, Mo - 1, D, H, Mi, S - off, ms)\<close> minus the 400 years; None is NaN.\<close>

definition instant_ms :: "int \<Rightarrow> bool \<Rightarrow> int option \<Rightarrow> int option \<Rightarrow> int option \<Rightarrow> int option \<Rightarrow> int option \<Rightarrow> int \<Rightarrow>
    int option \<Rightarrow> int option" where
  "instant_ms Y bc Mo D H Mi S ms off =
     (let yy = (if bc then 1 - Y else Y); sh = (if 0 \<le> yy \<and> yy \<le> 99 then 400 else 0)
      in case (Mo, D, H, Mi, S, off) of
           (Some mo, Some d, Some h, Some mi, Some s, Some z) \<Rightarrow>
             map_option (\<lambda>t. if sh \<noteq> 0 then t - Y400_MS else t) (date_utc (yy + sh) (mo - 1) d h mi (s - z) ms)
         | _ \<Rightarrow> None)"

subsection \<open>The three parsers\<close>

text \<open>undefined, NaN, or the epoch milliseconds.\<close>

datatype instant = NotInstant | NaNms | Ms int

definition instant_of :: "int option \<Rightarrow> instant" where
  "instant_of r = (case r of None \<Rightarrow> NaNms | Some t \<Rightarrow> Ms t)"

definition scan_fields :: "accessor \<Rightarrow> nat \<Rightarrow> bool \<Rightarrow> nat \<Rightarrow> instant" where
  "scan_fields a start bc e =
     (let (Y, n, p) = scan_digits a start e 0 0
      in if \<not> date_ok a n p e then NotInstant
         else let Mo = two a (p + 1); D = two a (p + 4); p1 = p + 6
              in if has_time a p1 e \<and> \<not> time_ok a p1 e then NotInstant
                 else let tf = time_part a p1 e
                      in if tf_end tf \<noteq> e then NotInstant else instant_of (instant_ms Y bc Mo D (tf_hour tf) (tf_min tf) (tf_sec tf) (tf_ms tf) (tf_off tf)))"

definition scan_instant :: "accessor \<Rightarrow> nat \<Rightarrow> nat \<Rightarrow> bool \<Rightarrow> instant" where
  "scan_instant a start e0 infinityOk =
     (if is_infinity a start then (if infinityOk then NaNms else NotInstant)
      else let bc = bc_suffix a start e0 in scan_fields a start bc (if bc then e0 - 3 else e0))"

definition instantFromBytes :: "bytes \<Rightarrow> nat \<Rightarrow> nat \<Rightarrow> instant" where
  "instantFromBytes b off l =
     scan_instant (at_bytes b) off (off + l) (l = (if at_bytes b off = Some 45 then 9 else 8))"

definition instantFromString :: "jsstr \<Rightarrow> instant" where
  "instantFromString s =
     scan_instant (at_str s) 0 (length s) (s = asc ''infinity'' \<or> s = asc ''-infinity'')"

text \<open>The generated code: the value computed and the \<open>ok\<close> flag.\<close>

definition instantTemplate :: "accessor \<Rightarrow> nat \<Rightarrow> nat \<Rightarrow> int option \<times> bool" where
  "instantTemplate a start e0 =
     (if is_infinity a start then (None, int e0 - int start = (if a start = Some 45 then 9 else 8))
      else let bc = bc_suffix a start e0; e = (if bc then e0 - 3 else e0);
               (Y, n, p) = scan_digits a start e 0 0;
               ok1 = date_ok a n p e;
               Mo = two a (p + 1); D = two a (p + 4); p1 = p + 6;
               ok2 = (ok1 \<and> (has_time a p1 e \<longrightarrow> time_ok a p1 e));
               tf = time_part a p1 e;
               ok3 = (ok2 \<and> tf_end tf = e)
           in (instant_ms Y bc Mo D (tf_hour tf) (tf_min tf) (tf_sec tf) (tf_ms tf) (tf_off tf), ok3))"

text \<open>\<open>binTimestampMs\<close>: the signed high word and the unsigned low word of the microseconds.\<close>

definition bin_hi :: "bytes \<Rightarrow> nat \<Rightarrow> int" where
  "bin_hi b off = to_signed 4 (be_val (take 4 (drop off b)))"

definition bin_lo :: "bytes \<Rightarrow> nat \<Rightarrow> int" where
  "bin_lo b off = be_val (take 4 (drop (off + 4) b))"

definition binTimestampMs :: "bytes \<Rightarrow> nat \<Rightarrow> int" where
  "binTimestampMs b off =
     (let hi = bin_hi b off; lo = bin_lo b off
      in hi * 4294967 + (hi * 296 + lo) div 1000 + 946684800000)"

subsection \<open>The parsers agree\<close>

text \<open>Two accessors that show the same text of \<open>L\<close> codes, the first at an offset. What the scanning
  steps read outside the text cannot change a result that is accepted.\<close>

definition same_text :: "accessor \<Rightarrow> accessor \<Rightarrow> nat \<Rightarrow> nat \<Rightarrow> bool" where
  "same_text a1 a2 off L \<longleftrightarrow> (\<forall>i < L. a1 (off + i) = a2 i)"

lemma same_at: "same_text a1 a2 off L \<Longrightarrow> i < L \<Longrightarrow> a1 (off + i) = a2 i"
  by (simp add: same_text_def)

lemma same_digit: "same_text a1 a2 off L \<Longrightarrow> i < L \<Longrightarrow> digit_at a1 (off + i) = digit_at a2 i"
  by (simp add: digit_at_def same_at)

lemma scan_digits_shift:
  "same_text a1 a2 off L \<Longrightarrow> e \<le> L \<Longrightarrow>
   scan_digits a1 (off + p) (off + e) Y n = (let (Y', n', p') = scan_digits a2 p e Y n in (Y', n', off + p'))"
proof (induction a2 p e Y n rule: scan_digits.induct)
  case (1 a p e Y n)
  show ?case
  proof (cases "if p < e then digit_at a p else None")
    case None
    then show ?thesis using 1 by (simp add: scan_digits.simps [of a] scan_digits.simps [of a1] same_digit split: if_splits)
  next
    case (Some d)
    then have "p < e" "digit_at a p = Some d" by (auto split: if_splits)
    with 1 Some show ?thesis
      by (simp add: scan_digits.simps [of a p] scan_digits.simps [of a1 "off + p"] same_digit add_Suc_right [symmetric] del: add_Suc_right)
  qed
qed

lemma scan_millis_shift:
  "same_text a1 a2 off L \<Longrightarrow> e \<le> L \<Longrightarrow>
   scan_millis a1 (off + p) (off + e) f k = (let (f', k', p') = scan_millis a2 p e f k in (f', k', off + p'))"
proof (induction a2 p e f k rule: scan_millis.induct)
  case (1 a p e f k)
  show ?case
  proof (cases "if p < e \<and> k < 3 then digit_at a p else None")
    case None
    then show ?thesis using 1
      by (auto simp: scan_millis.simps [of a] scan_millis.simps [of a1] same_digit split: if_splits)
  next
    case (Some d)
    then have "p < e" "k < 3" "digit_at a p = Some d" by (auto split: if_splits)
    with 1 Some show ?thesis
      by (simp add: scan_millis.simps [of a p] scan_millis.simps [of a1 "off + p"] same_digit add_Suc_right [symmetric] del: add_Suc_right)
  qed
qed

lemma skip_digits_shift:
  "same_text a1 a2 off L \<Longrightarrow> e \<le> L \<Longrightarrow> skip_digits a1 (off + p) (off + e) = off + skip_digits a2 p e"
proof (induction a2 p e rule: skip_digits.induct)
  case (1 a p e)
  show ?case
  proof (cases "if p < e then digit_at a p else None")
    case None
    then show ?thesis using 1 by (simp add: skip_digits.simps [of a] skip_digits.simps [of a1] same_digit split: if_splits)
  next
    case (Some d)
    then have "p < e" "digit_at a p = Some d" by (auto split: if_splits)
    with 1 Some show ?thesis
      by (simp add: skip_digits.simps [of a p] skip_digits.simps [of a1 "off + p"] same_digit add_Suc_right [symmetric] del: add_Suc_right)
  qed
qed

lemma scan_digits_end: "scan_digits a p e Y n = (Y', n', p') \<Longrightarrow> p \<le> e \<Longrightarrow> p \<le> p' \<and> p' \<le> e"
proof (induction a p e Y n rule: scan_digits.induct)
  case (1 a p e Y n)
  then show ?case
    by (cases "if p < e then digit_at a p else None")
       (auto simp: scan_digits.simps [of a p] split: if_splits)
qed

lemma scan_millis_end: "scan_millis a p e f k = (f', k', p') \<Longrightarrow> p \<le> e \<Longrightarrow> p \<le> p' \<and> p' \<le> e"
proof (induction a p e f k rule: scan_millis.induct)
  case (1 a p e f k)
  then show ?case
    by (cases "if p < e \<and> k < 3 then digit_at a p else None")
       (auto simp: scan_millis.simps [of a p] split: if_splits)
qed

lemma skip_digits_end: "p \<le> e \<Longrightarrow> p \<le> skip_digits a p e \<and> skip_digits a p e \<le> e"
proof (induction a p e rule: skip_digits.induct)
  case (1 a p e)
  then show ?case
    by (cases "if p < e then digit_at a p else None")
       (auto simp: skip_digits.simps [of a p] split: if_splits)
qed

lemma two_shift: "same_text a1 a2 off L \<Longrightarrow> p + 1 < L \<Longrightarrow> two a1 (off + p) = two a2 p"
  using same_at [of a1 a2 off L p] same_at [of a1 a2 off L "p + 1"] by (simp add: two_def add.assoc)

lemma frac_shift:
  assumes s: "same_text a1 a2 off L" and e: "e \<le> L"
  shows "frac_part a1 (off + p) (off + e) = (let (ms, p') = frac_part a2 p e in (ms, off + p'))"
proof (cases "p < e \<and> a2 p = Some 46")
  case True
  then have "off + p < off + e \<and> a1 (off + p) = Some 46" using same_at [OF s, of p] e by simp
  with True show ?thesis
    using scan_millis_shift [OF s e, of "p + 1"] skip_digits_shift [OF s e]
    by (auto simp: frac_part_def Let_def add.assoc split: prod.splits)
next
  case False
  then have "\<not> (off + p < off + e \<and> a1 (off + p) = Some 46)" using same_at [OF s, of p] e by auto
  with False show ?thesis by (auto simp: frac_part_def)
qed

lemma frac_end: "frac_part a p e = (ms, p') \<Longrightarrow> p \<le> e \<Longrightarrow> p' \<le> e"
  using scan_millis_end [of a "p + 1" e 0 0] skip_digits_end [of _ e a]
  by (auto simp: frac_part_def Let_def split: if_splits prod.splits)

lemma two_reindex: "two a (off + p) = two (\<lambda>i. a (off + i)) p"
  by (simp add: two_def add.assoc)

lemma zone_reindex: "zone_part a (off + p) (off + e) = (let (z, p') = zone_part (\<lambda>i. a (off + i)) p e in (z, off + p'))"
proof -
  have c: "off + p + k = off + (p + k)" for k by simp
  show ?thesis by (simp add: zone_part_def Let_def c two_reindex add.assoc del: add_Suc_right)
qed

lemma zone_cong:
  assumes at: "\<And>i. i < e \<Longrightarrow> a1 i = a2 i"
  obtains z1 z2 p' where "zone_part a1 p e = (z1, p')" "zone_part a2 p e = (z2, p')" "p' \<le> e \<longrightarrow> z1 = z2"
proof -
  have tw: "two a1 i = two a2 i" if "i + 1 < e" for i using at that by (simp add: two_def)
  have "\<exists>z1 z2 p'. zone_part a1 p e = (z1, p') \<and> zone_part a2 p e = (z2, p') \<and> (p' \<le> e \<longrightarrow> z1 = z2)"
  proof (cases "p < e \<and> (a2 p = Some 43 \<or> a2 p = Some 45)")
    case False
    with at [of p] show ?thesis by (auto simp: zone_part_def)
  next
    case True
    then have p: "a1 p = a2 p" using at by simp
    show ?thesis
    proof (cases "p + 3 < e \<and> a2 (p + 3) = Some 58")
      case False
      with at [of "p + 3"] have "\<not> (p + 3 < e \<and> a1 (p + 3) = Some 58)" by auto
      with True False p tw [of "p + 1"] show ?thesis by (auto simp: zone_part_def Let_def)
    next
      case T3: True
      with at [of "p + 3"] have q: "a1 (p + 3) = Some 58" by simp
      show ?thesis
      proof (cases "p + 6 < e \<and> a2 (p + 6) = Some 58")
        case False
        with at [of "p + 6"] have "\<not> (p + 6 < e \<and> a1 (p + 6) = Some 58)" by auto
        with True T3 False p q tw [of "p + 1"] tw [of "p + 4"] show ?thesis by (simp add: zone_part_def Let_def)
      next
        case True
        with at [of "p + 6"] have "a1 (p + 6) = Some 58" by simp
        with \<open>p < e \<and> _\<close> T3 True p q tw [of "p + 1"] tw [of "p + 4"] tw [of "p + 7"] show ?thesis
          by (simp add: zone_part_def Let_def)
      qed
    qed
  qed
  with that show ?thesis by blast
qed

lemma zone_shift:
  assumes s: "same_text a1 a2 off L" and e: "e \<le> L"
  obtains z1 z2 p' where "zone_part a1 (off + p) (off + e) = (z1, off + p')" "zone_part a2 p e = (z2, p')" "p' \<le> e \<longrightarrow> z1 = z2"
proof -
  have "a1 (off + i) = a2 i" if "i < e" for i using same_at [OF s] that e by simp
  then obtain z1 z2 p' where "zone_part (\<lambda>i. a1 (off + i)) p e = (z1, p')" "zone_part a2 p e = (z2, p')" "p' \<le> e \<longrightarrow> z1 = z2"
    by (rule zone_cong [where p = p]) blast+
  with that show ?thesis by (simp add: zone_reindex)
qed

lemma time_shift:
  assumes s: "same_text a1 a2 off L" and e: "e \<le> L"
  shows "has_time a1 (off + p) (off + e) = has_time a2 p e"
    and "has_time a2 p e \<Longrightarrow> time_ok a1 (off + p) (off + e) = time_ok a2 p e"
    and "tf_end (time_part a1 (off + p) (off + e)) = off + tf_end (time_part a2 p e)"
    and "(has_time a2 p e \<longrightarrow> time_ok a2 p e) \<Longrightarrow> tf_end (time_part a2 p e) = e \<Longrightarrow>
      time_part a1 (off + p) (off + e) = (time_part a2 p e)\<lparr>tf_end := off + e\<rparr>"
proof -
  have at: "a1 (off + i) = a2 i" if "i < e" for i using same_at [OF s] that e by simp
  show h: "has_time a1 (off + p) (off + e) = has_time a2 p e" using at [of p] by (auto simp: has_time_def)
  show "time_ok a1 (off + p) (off + e) = time_ok a2 p e"
    using at [of "p + 3"] at [of "p + 6"] by (auto simp: time_ok_def add.assoc)
  obtain ms p1 where f: "frac_part a2 (p + 9) e = (ms, p1)" by (cases "frac_part a2 (p + 9) e")
  have f1: "frac_part a1 (off + p + 9) (off + e) = (ms, off + p1)"
    using frac_shift [OF s e, of "p + 9"] f by (simp add: add.assoc)
  obtain z1 z2 p2 where z: "zone_part a1 (off + p1) (off + e) = (z1, off + p2)" "zone_part a2 p1 e = (z2, p2)" "p2 \<le> e \<longrightarrow> z1 = z2"
    by (rule zone_shift [OF s e, of p1]) blast
  show "tf_end (time_part a1 (off + p) (off + e)) = off + tf_end (time_part a2 p e)"
    using f f1 z h by (auto simp: time_part_def)
  assume ok: "has_time a2 p e \<longrightarrow> time_ok a2 p e" and en: "tf_end (time_part a2 p e) = e"
  show "time_part a1 (off + p) (off + e) = (time_part a2 p e)\<lparr>tf_end := off + e\<rparr>"
  proof (cases "has_time a2 p e")
    case False
    then have "\<not> has_time a1 (off + p) (off + e)" by (simp only: h not_False_eq_True)
    with False en show ?thesis by (simp add: time_part_def)
  next
    case True
    with ok have r: "p + 9 \<le> e" by (auto simp: time_ok_def)
    have tw: "two a1 (off + p + k) = two a2 (p + k)" if "k + 1 < 9" for k
      using two_shift [OF s, of "p + k"] that r e by (simp add: add.assoc)
    from True en f z have "p2 = e" by (simp add: time_part_def)
    with True f f1 z h tw [of 1] tw [of 4] tw [of 7] show ?thesis by (simp add: time_part_def)
  qed
qed

lemma scan_instant_shift:
  assumes s: "same_text a1 a2 off L" and i: "\<not> is_infinity a1 off" "\<not> is_infinity a2 0"
  shows "scan_instant a1 off (off + L) k = scan_instant a2 0 L k'"
proof -
  have bc: "bc_suffix a1 off (off + L) = bc_suffix a2 0 L"
  proof (cases "3 \<le> L")
    case True
    then have "off + L - j = off + (L - j)" "L - j < L" if "j \<in> {1, 2, 3}" for j using that by auto
    with same_at [OF s] show ?thesis by (simp add: bc_suffix_def)
  qed (simp add: bc_suffix_def)
  define e where "e = (if bc_suffix a2 0 L then L - 3 else L)"
  have e: "e \<le> L" and e1: "(if bc_suffix a1 off (off + L) then off + L - 3 else off + L) = off + e"
    using bc by (auto simp: e_def bc_suffix_def)
  obtain Y n p where d: "scan_digits a2 0 e 0 0 = (Y, n, p)" by (cases "scan_digits a2 0 e 0 0")
  have d1: "scan_digits a1 off (off + e) 0 0 = (Y, n, off + p)" using scan_digits_shift [OF s e, of 0 0 0] d by simp
  have pe: "p \<le> e" using scan_digits_end [OF d] by simp
  have at: "a1 (off + j) = a2 j" if "j < e" for j using same_at [OF s] that e by simp
  have dok: "date_ok a1 n (off + p) (off + e) = date_ok a2 n p e"
    using at [of p] at [of "p + 3"] pe by (cases "e - p < 6") (auto simp: date_ok_def add.assoc)
  have "scan_fields a1 off bc (off + e) = scan_fields a2 0 bc e" for bc
  proof (cases "date_ok a2 n p e")
    case False
    with dok show ?thesis by (simp add: scan_fields_def d d1)
  next
    case True
    then have r: "p + 6 \<le> e" by (auto simp: date_ok_def)
    have m: "two a1 (off + p + 1) = two a2 (p + 1)" "two a1 (off + p + 4) = two a2 (p + 4)"
      using two_shift [OF s, of "p + 1"] two_shift [OF s, of "p + 4"] r e by (simp_all add: add.assoc)
    note T = time_shift [OF s e, of "p + 6", folded add.assoc]
    show ?thesis using True dok T m by (auto simp: scan_fields_def Let_def d d1)
  qed
  moreover have "scan_instant a1 off (off + L) k = scan_fields a1 off (bc_suffix a1 off (off + L)) (off + e)"
    by (simp only: scan_instant_def i if_False Let_def e1)
  moreover have "scan_instant a2 0 L k' = scan_fields a2 0 (bc_suffix a2 0 L) e"
    by (simp only: scan_instant_def i if_False Let_def e_def)
  ultimately show ?thesis by (simp only: bc)
qed

lemma uint_u16 [simp]: "uint (u16 n) = int (n mod 65536)"
  using unat_u16 [of n] by (simp add: uint_nat del: unat_u16)

lemma uint_b8 [simp]: "uint (b8 n) = int (n mod 256)"
  using unat_b8 [of n] by (simp add: uint_nat del: unat_b8)

lemma same_bytes: "list_all (\<lambda>c. unat c < 256) s \<Longrightarrow> same_text (at_bytes (pre @ latin1 s @ post)) (at_str s) (length pre) (length s)"
  by (auto simp: same_text_def at_bytes_def at_str_def latin1_def nth_append list_all_length)

lemma template_refines:
  "instantFromBytes b off l = (let (r, ok) = instantTemplate (at_bytes b) off (off + l) in if ok then instant_of r else NotInstant)"
proof (cases "is_infinity (at_bytes b) off")
  case True
  have l: "int (off + l) - int off = int l" by simp
  show ?thesis using True
    by (simp only: instantFromBytes_def scan_instant_def instantTemplate_def if_True Let_def prod.case l instant_of_def option.case)
       auto
next
  case False
  define bc where "bc = bc_suffix (at_bytes b) off (off + l)"
  define e where "e = (if bc then off + l - 3 else off + l)"
  obtain Y n p where d: "scan_digits (at_bytes b) off e 0 0 = (Y, n, p)" by (cases "scan_digits (at_bytes b) off e 0 0")
  have "instantFromBytes b off l = scan_fields (at_bytes b) off bc e"
    by (simp only: instantFromBytes_def scan_instant_def False if_False Let_def bc_def e_def)
  moreover have "instantTemplate (at_bytes b) off (off + l) =
     (let tf = time_part (at_bytes b) (p + 6) e
      in (instant_ms Y bc (two (at_bytes b) (p + 1)) (two (at_bytes b) (p + 4)) (tf_hour tf) (tf_min tf) (tf_sec tf) (tf_ms tf) (tf_off tf),
          (date_ok (at_bytes b) n p e \<and> (has_time (at_bytes b) (p + 6) e \<longrightarrow> time_ok (at_bytes b) (p + 6) e)) \<and> tf_end tf = e))"
    by (simp only: instantTemplate_def False if_False Let_def flip: bc_def e_def) (simp only: d prod.case)
  ultimately show ?thesis by (simp add: scan_fields_def d Let_def)
qed

lemma infinity_bytes:
  assumes s: "list_all (\<lambda>c. unat c < 256) s" and i: "is_infinity (at_str s) 0 \<longrightarrow> s = asc ''infinity'' \<or> s = asc ''-infinity''"
    and inf: "is_infinity (at_bytes (pre @ latin1 s @ post)) (length pre) \<or> is_infinity (at_str s) 0"
  shows "instantFromBytes (pre @ latin1 s @ post) (length pre) (length s) = instantFromString s"
proof -
  let ?b = "pre @ latin1 s @ post" and ?o = "length pre"
  note same = same_at [OF same_bytes [OF s, of pre post]]
  show ?thesis
  proof (cases "is_infinity (at_str s) 0")
    case True
    with i have v: "s = asc ''infinity'' \<or> s = asc ''-infinity''" by simp
    then have "length s = (if at_str s 0 = Some 45 then 9 else 8)" "0 < length s" "1 < length s"
      by (auto simp: asc_def at_str_def)
    moreover have "is_infinity (at_bytes ?b) ?o" using True same [of 0] same [of 1] calculation by (simp add: is_infinity_def)
    ultimately show ?thesis using True v same [of 0]
      by (simp add: instantFromBytes_def instantFromString_def scan_instant_def)
  next
    case False
    with inf have b: "is_infinity (at_bytes ?b) ?o" by simp
    have len: "length s \<le> 1"
    proof (rule ccontr)
      assume l: "\<not> length s \<le> 1"
      have "at_bytes ?b ?o = at_str s 0" "at_bytes ?b (?o + 1) = at_str s 1"
        using same [of 0] same [of 1] l by (cases s; simp)+
      then have "is_infinity (at_str s) 0" using b by (simp add: is_infinity_def)
      with False show False ..
    qed
    have "scan_digits (at_str s) 0 (length s) 0 0 = (Y, n, p) \<Longrightarrow> n < 4" for Y n p
      using len by (auto simp: scan_digits.simps [of "at_str s" 0] scan_digits.simps [of "at_str s" "Suc 0"] split: option.splits if_splits)
    then have "instantFromString s = NotInstant" using False len
      by (auto simp: instantFromString_def scan_instant_def bc_suffix_def scan_fields_def date_ok_def split: prod.splits)
    moreover have "instantFromBytes ?b ?o (length s) = NotInstant"
      using b len by (simp add: instantFromBytes_def scan_instant_def)
    ultimately show ?thesis by simp
  qed
qed

text \<open>The three text parsers are in lockstep: wherever the text lies in a buffer, the byte parser
  gives what the string parser gives, and the generated code accepts exactly when the byte parser
  does, with the same value; for every text of single-byte codes that is not a misspelt infinity.\<close>

theorem instant_parsers_agree:
  assumes "list_all (\<lambda>c. unat c < 256) s" "is_infinity (at_str s) 0 \<longrightarrow> s = asc ''infinity'' \<or> s = asc ''-infinity''"
  shows "instantFromBytes (pre @ latin1 s @ post) (length pre) (length s) = instantFromString s \<and>
    (let (r, ok) = instantTemplate (at_bytes (pre @ latin1 s @ post)) (length pre) (length pre + length s)
     in (if ok then instant_of r else NotInstant) = instantFromString s)"
proof -
  have "instantFromBytes (pre @ latin1 s @ post) (length pre) (length s) = instantFromString s"
  proof (cases "is_infinity (at_bytes (pre @ latin1 s @ post)) (length pre) \<or> is_infinity (at_str s) 0")
    case True
    with infinity_bytes [OF assms] show ?thesis by simp
  next
    case False
    with scan_instant_shift [OF same_bytes [OF assms(1)]] show ?thesis
      by (simp add: instantFromBytes_def instantFromString_def)
  qed
  with template_refines [of "pre @ latin1 s @ post" "length pre" "length s"] show ?thesis
    by (auto simp: Let_def split: prod.splits)
qed

text \<open>A BC date inside a row: the bytes after the cell look like a continuation.\<close>

theorem instant_parsers_agree_witness:
  "instantFromBytes ([0, 1] @ latin1 (asc ''0044-03-15 BC'') @ latin1 (asc ''12:00'')) 2 13
     = instantFromString (asc ''0044-03-15 BC'')"
proof -
  let ?s = "asc ''0044-03-15 BC''"
  have "list_all (\<lambda>c. unat c < 256) ?s" "\<not> is_infinity (at_str ?s) 0" "length ?s = 13"
    by (simp_all add: asc_def is_infinity_def at_str_def)
  moreover have "length [0 :: byte, 1] = 2" by simp
  ultimately show ?thesis using instant_parsers_agree [of ?s "[0, 1]" "latin1 (asc ''12:00'')"] by (simp only: simp_thms)
qed

subsection \<open>The parser inverts the ISO text\<close>

lemma days_400: "days_from_civil (y + 400) m d = days_from_civil y m d + 146097"
proof -
  have c: "(x + 400) div 400 = x div 400 + 1" "(x + 400) mod 400 = x mod 400" for x :: int by simp_all
  have y: "(if m \<le> 2 then y + 400 - 1 else y + 400) = (if m \<le> 2 then y - 1 else y) + 400" by simp
  show ?thesis unfolding days_from_civil_def Let_def y c by (simp only: distrib_right)
qed

lemma days_day: "days_from_civil y m 1 + d - 1 = days_from_civil y m d"
  by (simp add: days_from_civil_def Let_def)

lemma date_utc_civil:
  assumes "1 \<le> m" "m \<le> 12" "\<not> (0 \<le> y \<and> y \<le> 99)"
  shows "date_utc y (m - 1) d h mi s ms =
    (let t = days_from_civil y m d * 86400000 + h * 3600000 + mi * 60000 + s * 1000 + ms in if \<bar>t\<bar> \<le> MAX_TIME then Some t else None)"
proof -
  have m: "(m - 1) div 12 = 0" "(m - 1) mod 12 + 1 = m" using assms by simp_all
  have y: "(if 0 \<le> y \<and> y \<le> 99 then 1900 + y else y) = y" using assms(3) by (simp only: if_False)
  show ?thesis unfolding date_utc_def Let_def y m add_0_right days_day ..
qed

lemma utc_fields:
  "t = days_from_civil (utc_year t) (utc_month t) (utc_date t) * 86400000
     + utc_hours t * 3600000 + utc_minutes t * 60000 + utc_seconds t * 1000 + utc_ms t"
proof -
  obtain y m d where c: "civil_from_days (t div 86400000) = (y, m, d)" by (metis prod_cases3)
  have "days_from_civil (utc_year t) (utc_month t) (utc_date t) = t div 86400000"
    using civil_fields(5) [OF c] by (simp add: utc_year_def utc_month_def utc_date_def c)
  moreover have "t mod 86400000 = utc_hours t * 3600000 + utc_minutes t * 60000 + utc_seconds t * 1000 + utc_ms t"
  proof -
    have "t mod 86400000 mod 3600000 = t mod 3600000" "t mod 3600000 mod 60000 = t mod 60000" "t mod 60000 mod 1000 = t mod 1000"
      by (rule mod_mod_cancel, simp)+
    then show ?thesis
      using div_mult_mod_eq [of "t mod 86400000" 3600000] div_mult_mod_eq [of "t mod 3600000" 60000]
        div_mult_mod_eq [of "t mod 60000" 1000]
      unfolding utc_hours_def utc_minutes_def utc_seconds_def utc_ms_def by linarith
  qed
  moreover have "t = t div 86400000 * 86400000 + t mod 86400000" by simp
  ultimately show ?thesis by simp
qed

lemma days_before_100:
  assumes "0 \<le> y" "y \<le> 99" "1 \<le> m" "m \<le> 12" "d \<le> 31"
  shows "days_from_civil y m d \<le> 0"
proof -
  define v where "v = (if m \<le> 2 then y - 1 else y)"
  define k where "k = (if m \<le> 2 then m + 9 else m - 3)"
  have v: "v div 400 \<le> 0" "0 \<le> v mod 400" "v mod 400 \<le> 399" using assms by (auto simp: v_def)
  have k: "k \<le> 11" using assms by (simp add: k_def)
  have "(153 * k + 2) div 5 \<le> 337" using zdiv_mono1 [of "153 * k + 2" 1685 5] k by simp
  moreover have "v mod 400 div 4 \<le> 99" using zdiv_mono1 [of "v mod 400" 399 4] v by simp
  moreover have "0 \<le> v mod 400 div 100" using v by (intro pos_imp_zdiv_nonneg_iff [THEN iffD2]) simp_all
  ultimately show ?thesis using v assms(5)
    unfolding days_from_civil_def Let_def v_def [symmetric] k_def [symmetric] by linarith
qed

lemma instant_ms_utc:
  assumes t: "\<bar>t\<bar> \<le> MAX_TIME" and y: "0 \<le> utc_year t" "utc_year t \<le> 9999"
  shows "instant_ms (utc_year t) False (Some (utc_month t)) (Some (utc_date t)) (Some (utc_hours t)) (Some (utc_minutes t))
    (Some (utc_seconds t)) (utc_ms t) (Some 0) = Some t"
proof -
  let ?d = "days_from_civil (utc_year t) (utc_month t) (utc_date t)"
  let ?r = "utc_hours t * 3600000 + utc_minutes t * 60000 + utc_seconds t * 1000 + utc_ms t"
  have e: "t = ?d * 86400000 + ?r" using utc_fields [of t] by simp
  define sh :: int where "sh = (if utc_year t \<le> 99 then 400 else 0)"
  have s: "utc_year t + sh < 0 \<or> 99 < utc_year t + sh" using y by (simp add: sh_def)
  have b: "\<bar>t + Y400_MS\<bar> \<le> MAX_TIME" if "utc_year t \<le> 99"
  proof -
    have "?d \<le> 0" using utc_bounds [of t] y(1) that by (intro days_before_100) simp_all
    moreover have "?r < 86400000" using utc_bounds [of t] by simp
    ultimately show ?thesis using t e unfolding Y400_MS_def MAX_TIME_def by linarith
  qed
  have "instant_ms (utc_year t) False (Some (utc_month t)) (Some (utc_date t)) (Some (utc_hours t)) (Some (utc_minutes t))
      (Some (utc_seconds t)) (utc_ms t) (Some 0)
    = map_option (\<lambda>t. if sh \<noteq> 0 then t - Y400_MS else t)
        (date_utc (utc_year t + sh) (utc_month t - 1) (utc_date t) (utc_hours t) (utc_minutes t) (utc_seconds t) (utc_ms t))"
    using y by (simp add: instant_ms_def sh_def)
  also have "date_utc (utc_year t + sh) (utc_month t - 1) (utc_date t) (utc_hours t) (utc_minutes t) (utc_seconds t) (utc_ms t)
      = Some (if sh \<noteq> 0 then t + Y400_MS else t)"
    using s utc_bounds [of t] t b e days_400 [of "utc_year t" "utc_month t" "utc_date t"]
    by (subst date_utc_civil) (auto simp: sh_def Let_def Y400_MS_def)
  finally show ?thesis by simp
qed

text \<open>The fields of a text of the fixed layout, by position.\<close>

definition iso_units :: "nat \<Rightarrow> nat list \<Rightarrow> jsstr \<Rightarrow> jsstr" where
  "iso_units sep ds tail = (let g = (\<lambda>i. digit_unit (ds ! i)) in
     [g 0, g 1, g 2, g 3, u16 45, g 4, g 5, u16 45, g 6, g 7, u16 sep, g 8, g 9, u16 58, g 10, g 11, u16 58, g 12, g 13,
      u16 46, g 14, g 15, g 16] @ tail)"

definition digits_int :: "nat list \<Rightarrow> nat \<Rightarrow> nat \<Rightarrow> int" where
  "digits_int ds i j = int (ds ! i) * 10 + int (ds ! j)"

lemma code_digit: "d < 10 \<Longrightarrow> uint (digit_unit d) = 48 + int d"
  by (simp add: unat_digit_unit uint_nat del: of_nat_unat)

lemma iso_scan:
  assumes d: "\<And>i. i < 17 \<Longrightarrow> ds ! i < 10" and sep: "sep = 32 \<or> sep = 84" and tail: "tail = [u16 90] \<or> tail = [u16 43, u16 48, u16 48]"
  shows "instantFromString (iso_units sep ds tail) = instant_of (instant_ms
      (((int (ds ! 0) * 10 + int (ds ! 1)) * 10 + int (ds ! 2)) * 10 + int (ds ! 3)) False
      (Some (digits_int ds 4 5)) (Some (digits_int ds 6 7)) (Some (digits_int ds 8 9)) (Some (digits_int ds 10 11))
      (Some (digits_int ds 12 13)) ((int (ds ! 14) * 10 + int (ds ! 15)) * 10 + int (ds ! 16)) (Some 0))"
proof -
  define s where "s = iso_units sep ds tail"
  let ?a = "at_str s"
  have len: "length s = 23 + length tail" by (simp add: s_def iso_units_def)
  have l: "length s = 24 \<or> length s = 26" using tail len by auto
  have dg: "?a 0 = Some (48 + int (ds ! 0))" "?a 1 = Some (48 + int (ds ! 1))" "?a 2 = Some (48 + int (ds ! 2))"
    "?a 3 = Some (48 + int (ds ! 3))" "?a 5 = Some (48 + int (ds ! 4))" "?a 6 = Some (48 + int (ds ! 5))"
    "?a 8 = Some (48 + int (ds ! 6))" "?a 9 = Some (48 + int (ds ! 7))" "?a 11 = Some (48 + int (ds ! 8))"
    "?a 12 = Some (48 + int (ds ! 9))" "?a 14 = Some (48 + int (ds ! 10))" "?a 15 = Some (48 + int (ds ! 11))"
    "?a 17 = Some (48 + int (ds ! 12))" "?a 18 = Some (48 + int (ds ! 13))" "?a 20 = Some (48 + int (ds ! 14))"
    "?a 21 = Some (48 + int (ds ! 15))" "?a 22 = Some (48 + int (ds ! 16))"
    using l d by (simp_all add: at_str_def) (simp_all add: s_def iso_units_def code_digit)
  have pt: "?a 4 = Some 45" "?a 7 = Some 45" "?a 10 = Some (int sep)" "?a 13 = Some 58" "?a 16 = Some 58" "?a 19 = Some 46"
    using l sep by (simp_all add: at_str_def) (auto simp: s_def iso_units_def)
  have dig: "digit_at ?a i = Some (int (ds ! j))" if "?a i = Some (48 + int (ds ! j))" "j < 17" for i j
    using that d [of j] by (simp add: digit_at_def)
  have nod: "digit_at ?a 4 = None" using pt by (simp add: digit_at_def)
  have big: "4 < length s" "3 < length s" "2 < length s" "1 < length s" "0 < length s" using l by auto
  have y: "scan_digits ?a 0 (length s) 0 0 = (((int (ds ! 0) * 10 + int (ds ! 1)) * 10 + int (ds ! 2)) * 10 + int (ds ! 3), 4, 4)"
    using dig [OF dg(1)] dig [OF dg(2)] dig [OF dg(3)] dig [OF dg(4)] nod big
    by (simp add: scan_digits.simps [of ?a 0] scan_digits.simps [of ?a "Suc 0"] scan_digits.simps [of ?a "Suc (Suc 0)"]
        scan_digits.simps [of ?a "Suc (Suc (Suc 0))"] scan_digits.simps [of ?a "Suc (Suc (Suc (Suc 0)))"]
        numeral_2_eq_2 numeral_3_eq_3 eval_nat_numeral)
  have tl: "?a 23 = Some 90 \<and> length s = 24 \<or> ?a 23 = Some 43 \<and> ?a 24 = Some 48 \<and> ?a 25 = Some 48 \<and> length s = 26"
    using tail len by (auto simp: at_str_def s_def iso_units_def)
  have bc: "\<not> bc_suffix ?a 0 (length s)" using tl by (auto simp: bc_suffix_def)
  have inf: "\<not> is_infinity ?a 0" using dg(1) d [of 0] dg(2) by (auto simp: is_infinity_def)
  have tw: "two ?a 5 = Some (digits_int ds 4 5)" "two ?a 8 = Some (digits_int ds 6 7)" "two ?a 11 = Some (digits_int ds 8 9)"
    "two ?a 14 = Some (digits_int ds 10 11)" "two ?a 17 = Some (digits_int ds 12 13)"
    using dg by (simp_all add: two_def digits_int_def)
  have millis: "scan_millis ?a 20 (length s) 0 0 = ((int (ds ! 14) * 10 + int (ds ! 15)) * 10 + int (ds ! 16), 3, 23)"
  proof -
    have "22 < length s" "21 < length s" "20 < length s" using l by auto
    then show ?thesis using dig [OF dg(15)] dig [OF dg(16)] dig [OF dg(17)]
      by (simp add: scan_millis.simps [of ?a 20] scan_millis.simps [of ?a 21] scan_millis.simps [of ?a 22] scan_millis.simps [of ?a 23])
  qed
  have skip: "skip_digits ?a 23 (length s) = 23"
    using tl by (auto simp: skip_digits.simps [of ?a 23] digit_at_def)
  have fr: "frac_part ?a 19 (length s) = ((int (ds ! 14) * 10 + int (ds ! 15)) * 10 + int (ds ! 16), 23)"
    using pt l millis skip by (auto simp: frac_part_def)
  have zo: "zone_part ?a 23 (length s) = (Some 0, length s)"
    using tl by (auto simp: zone_part_def two_def zone_off_def Let_def)
  have tp: "has_time ?a 10 (length s)" "time_ok ?a 10 (length s)" using pt l sep by (auto simp: has_time_def time_ok_def)
  have dk: "date_ok ?a 4 4 (length s)" using pt l by (auto simp: date_ok_def)
  show ?thesis unfolding s_def [symmetric]
    using tp dk fr zo tw by (simp add: instantFromString_def scan_instant_def inf bc scan_fields_def y time_part_def)
qed

lemma iso_text:
  assumes "0 \<le> utc_year t" "utc_year t \<le> 9999"
  shows "\<exists>ds. (\<forall>i < 17. ds ! i < 10) \<and>
    pad_dec 4 (nat (utc_year t)) @ [u16 45] @ pad_dec 2 (nat (utc_month t)) @ [u16 45] @ pad_dec 2 (nat (utc_date t)) @ [u16 sep]
      @ pad_dec 2 (nat (utc_hours t)) @ [u16 58] @ pad_dec 2 (nat (utc_minutes t)) @ [u16 58]
      @ pad_dec 2 (nat (utc_seconds t)) @ [u16 46] @ pad_dec 3 (nat (utc_ms t)) @ tail = iso_units sep ds tail \<and>
    ((int (ds ! 0) * 10 + int (ds ! 1)) * 10 + int (ds ! 2)) * 10 + int (ds ! 3) = utc_year t \<and>
    digits_int ds 4 5 = utc_month t \<and> digits_int ds 6 7 = utc_date t \<and> digits_int ds 8 9 = utc_hours t \<and>
    digits_int ds 10 11 = utc_minutes t \<and> digits_int ds 12 13 = utc_seconds t \<and>
    (int (ds ! 14) * 10 + int (ds ! 15)) * 10 + int (ds ! 16) = utc_ms t"
proof -
  obtain y where y: "utc_year t = int y" "y < 10000" using assms nonneg_int_cases [of "utc_year t"] by auto
  obtain mo where mo: "utc_month t = int mo" "mo < 100" using utc_bounds [of t] nonneg_int_cases [of "utc_month t"] by auto
  obtain d where d: "utc_date t = int d" "d < 100" using utc_bounds [of t] nonneg_int_cases [of "utc_date t"] by auto
  obtain h where h: "utc_hours t = int h" "h < 100" using utc_bounds [of t] nonneg_int_cases [of "utc_hours t"] by auto
  obtain mi where mi: "utc_minutes t = int mi" "mi < 100" using utc_bounds [of t] nonneg_int_cases [of "utc_minutes t"] by auto
  obtain s where s: "utc_seconds t = int s" "s < 100" using utc_bounds [of t] nonneg_int_cases [of "utc_seconds t"] by auto
  obtain ms where ms: "utc_ms t = int ms" "ms < 1000" using utc_bounds [of t] nonneg_int_cases [of "utc_ms t"] by auto
  let ?ds = "[y div 1000, y div 100 mod 10, y div 10 mod 10, y mod 10, mo div 10, mo mod 10, d div 10, d mod 10,
     h div 10, h mod 10, mi div 10, mi mod 10, s div 10, s mod 10, ms div 100, ms div 10 mod 10, ms mod 10]"
  have two: "int (n div 10) * 10 + int (n mod 10) = int n" for n
    using div_mult_mod_eq [of n 10] by (metis of_nat_add of_nat_mult of_nat_numeral)
  have three: "(int (n div 100) * 10 + int (n div 10 mod 10)) * 10 + int (n mod 10) = int n" for n
    using two [of n] two [of "n div 10"] by (simp add: div_mult2_eq [symmetric])
  have four: "((int (n div 1000) * 10 + int (n div 100 mod 10)) * 10 + int (n div 10 mod 10)) * 10 + int (n mod 10) = int n" for n
    using two [of n] three [of "n div 10"] by (simp add: div_mult2_eq [symmetric])
  have "\<forall>x \<in> set ?ds. x < 10" using y mo d h mi s ms by (auto simp: div_less_iff_less_mult)
  then have "\<forall>i < length ?ds. ?ds ! i < 10" using nth_mem by blast
  moreover have "length ?ds = 17" by simp
  ultimately have "\<forall>i < 17. ?ds ! i < 10" by (simp only:)
  moreover have "pad_dec 4 (nat (utc_year t)) @ [u16 45] @ pad_dec 2 (nat (utc_month t)) @ [u16 45] @ pad_dec 2 (nat (utc_date t)) @ [u16 sep]
      @ pad_dec 2 (nat (utc_hours t)) @ [u16 58] @ pad_dec 2 (nat (utc_minutes t)) @ [u16 58]
      @ pad_dec 2 (nat (utc_seconds t)) @ [u16 46] @ pad_dec 3 (nat (utc_ms t)) @ tail = iso_units sep ?ds tail"
    using y mo d h mi s ms by (simp add: pad_dec_small iso_units_def Let_def)
  moreover have "((int (?ds ! 0) * 10 + int (?ds ! 1)) * 10 + int (?ds ! 2)) * 10 + int (?ds ! 3) = utc_year t"
    using four [of y] y(1) by simp
  moreover have "digits_int ?ds 4 5 = utc_month t" using two [of mo] mo(1) by (simp add: digits_int_def)
  moreover have "digits_int ?ds 6 7 = utc_date t" using two [of d] d(1) by (simp add: digits_int_def)
  moreover have "digits_int ?ds 8 9 = utc_hours t" using two [of h] h(1) by (simp add: digits_int_def)
  moreover have "digits_int ?ds 10 11 = utc_minutes t" using two [of mi] mi(1) by (simp add: digits_int_def)
  moreover have "digits_int ?ds 12 13 = utc_seconds t" using two [of s] s(1) by (simp add: digits_int_def)
  moreover have "(int (?ds ! 14) * 10 + int (?ds ! 15)) * 10 + int (?ds ! 16) = utc_ms t" using three [of ms] ms(1) by simp
  ultimately show ?thesis by blast
qed

text \<open>PostgreSQL's text of a timestamptz in the UTC zone, to the millisecond.\<close>

definition pg_stamp :: "int \<Rightarrow> jsstr" where
  "pg_stamp t =
     pad_dec 4 (nat (utc_year t)) @ [u16 45] @ pad_dec 2 (nat (utc_month t)) @ [u16 45] @ pad_dec 2 (nat (utc_date t)) @ [u16 32]
      @ pad_dec 2 (nat (utc_hours t)) @ [u16 58] @ pad_dec 2 (nat (utc_minutes t)) @ [u16 58]
      @ pad_dec 2 (nat (utc_seconds t)) @ [u16 46] @ pad_dec 3 (nat (utc_ms t)) @ [u16 43, u16 48, u16 48]"

text \<open>Text dates survive the round trip: for every instant of the years 0 to 9999 the parser returns
  exactly the instant, both from the ISO text the driver sends (\<open>toISOString\<close>) and from the text
  PostgreSQL prints; years 0 to 99, which \<open>Date.UTC\<close> misreads, included.\<close>

theorem instant_roundtrip:
  assumes "\<bar>t\<bar> \<le> MAX_TIME" "0 \<le> utc_year t" "utc_year t \<le> 9999" and "toISOString (Some t) = Inr s"
  shows "instantFromString s = Ms t \<and> instantFromString (pg_stamp t) = Ms t"
proof -
  have i: "instantFromString (iso_units sep ds tail) = Ms t"
    if "(\<forall>i < 17. ds ! i < 10) \<and> x = iso_units sep ds tail \<and>
    ((int (ds ! 0) * 10 + int (ds ! 1)) * 10 + int (ds ! 2)) * 10 + int (ds ! 3) = utc_year t \<and>
    digits_int ds 4 5 = utc_month t \<and> digits_int ds 6 7 = utc_date t \<and> digits_int ds 8 9 = utc_hours t \<and>
    digits_int ds 10 11 = utc_minutes t \<and> digits_int ds 12 13 = utc_seconds t \<and>
    (int (ds ! 14) * 10 + int (ds ! 15)) * 10 + int (ds ! 16) = utc_ms t"
     "sep = 32 \<or> sep = 84" "tail = [u16 90] \<or> tail = [u16 43, u16 48, u16 48]" for ds x sep tail
    using that instant_ms_utc [OF assms(1-3)] by (subst iso_scan) (auto simp: instant_of_def)
  from iso_text [OF assms(2,3), of 84 "[u16 90]"] obtain ds where a: "instantFromString (iso_units 84 ds [u16 90]) = Ms t"
    "s = iso_units 84 ds [u16 90]"
    using i assms by (auto simp: toISOString_def Let_def)
  from iso_text [OF assms(2,3), of 32 "[u16 43, u16 48, u16 48]"] obtain ds' where
    "instantFromString (iso_units 32 ds' [u16 43, u16 48, u16 48]) = Ms t" "pg_stamp t = iso_units 32 ds' [u16 43, u16 48, u16 48]"
    using i by (auto simp: pg_stamp_def)
  with a show ?thesis by simp
qed

theorem instant_roundtrip_witness:
  "instantFromString (pg_stamp (- 62162200000000)) = Ms (- 62162200000000)"
proof -
  have y: "utc_year (- 62162200000000) = 0"
    by code_simp
  obtain s where "toISOString (Some (- 62162200000000)) = Inr s" by (simp add: toISOString_def Let_def)
  from instant_roundtrip [OF _ _ _ this] y show ?thesis by (simp add: MAX_TIME_def)
qed

subsection \<open>Binary timestamps are exact\<close>

lemma be_val_append: "be_val (xs @ ys) = be_val xs * 256 ^ length ys + be_val ys"
proof (induction ys rule: rev_induct)
  case (snoc y ys)
  then show ?case by (simp add: append_assoc [symmetric] algebra_simps del: append_assoc)
qed simp

lemma be_words:
  assumes b: "b = pre @ be_bytes 8 us @ post" and o8: "off = length pre"
    and r: "- 9223372036854775808 \<le> us" "us \<le> 9223372036854775807"
  shows "bin_hi b off = us div 4294967296" "bin_lo b off = us mod 4294967296"
proof -
  have h: "be_bytes 8 us = be_bytes 4 (us div 4294967296) @ be_bytes 4 (us mod 4294967296)" by (rule be_bytes_halves)
  have hi: "take 4 (drop off b) = be_bytes 4 (us div 4294967296)" by (simp add: b o8 h)
  have lo: "take 4 (drop (off + 4) b) = be_bytes 4 (us mod 4294967296)" by (simp add: b o8 h)
  have "- 2147483648 \<le> us div 4294967296" "us div 4294967296 \<le> 2147483647"
    using zdiv_mono1 [OF r(1), of 4294967296] zdiv_mono1 [OF r(2), of 4294967296] by simp_all
  then show "bin_hi b off = us div 4294967296"
    using to_signed_mod [of 4 "us div 4294967296"] by (simp add: bin_hi_def hi be_val_be_bytes)
  show "bin_lo b off = us mod 4294967296" by (simp add: bin_lo_def lo be_val_be_bytes)
qed

lemma stamp_floor: "hi * 4294967 + (hi * 296 + lo) div 1000 = (hi * 4294967296 + lo) div (1000 :: int)"
proof -
  have "hi * 4294967296 + lo = (hi * 296 + lo) + hi * 4294967 * 1000" by simp
  then show ?thesis by (simp only: div_mult_self2 [of 1000 "hi * 296 + lo" "hi * 4294967", simplified mult.commute [of 1000]])
qed

text \<open>\<open>binTimestampMs\<close> returns the microseconds floored to epoch milliseconds, and for every
  instant a JavaScript Date can hold each intermediate number is a safe integer, so that the
  arithmetic in doubles is exact.\<close>

theorem bin_timestamp_exact:
  assumes "- 9223372036854775808 \<le> us" "us \<le> 9223372036854775807"
  shows "binTimestampMs (pre @ be_bytes 8 us @ post) (length pre) = us div 1000 + 946684800000 \<and>
    (\<bar>us div 1000 + 946684800000\<bar> \<le> MAX_TIME \<longrightarrow>
      (let hi = bin_hi (pre @ be_bytes 8 us @ post) (length pre); lo = bin_lo (pre @ be_bytes 8 us @ post) (length pre)
       in safe_int (hi * 4294967) \<and> safe_int (hi * 296) \<and> safe_int (hi * 296 + lo)
          \<and> safe_int (hi * 4294967 + (hi * 296 + lo) div 1000)))"
proof -
  let ?b = "pre @ be_bytes 8 us @ post"
  define hi lo where "hi = us div 4294967296" and "lo = us mod 4294967296"
  have w: "bin_hi ?b (length pre) = hi" "bin_lo ?b (length pre) = lo"
    unfolding hi_def lo_def by (rule be_words [OF refl refl assms])+
  have us: "us = hi * 4294967296 + lo" and lo: "0 \<le> lo" "lo < 4294967296" by (simp_all add: hi_def lo_def)
  have f: "hi * 4294967 + (hi * 296 + lo) div 1000 = us div 1000" using stamp_floor [of hi lo] us by simp
  have "binTimestampMs ?b (length pre) = us div 1000 + 946684800000"
    by (simp only: binTimestampMs_def w Let_def f)
  moreover have "safe_int (hi * 4294967) \<and> safe_int (hi * 296) \<and> safe_int (hi * 296 + lo)
          \<and> safe_int (hi * 4294967 + (hi * 296 + lo) div 1000)"
    if "\<bar>us div 1000 + 946684800000\<bar> \<le> MAX_TIME"
  proof -
    have "- 8640946684801000 * 1000 \<le> us" "us \<le> 8640000000001000 * 1000"
      using that div_mult_mod_eq [of us 1000] pos_mod_bound [of 1000 us] pos_mod_sign [of 1000 us] unfolding MAX_TIME_def by linarith+
    then have "- 2012000000 \<le> hi" "hi \<le> 2012000000" using us lo by linarith+
    then show ?thesis using lo f that unfolding safe_int_def MAX_TIME_def by auto
  qed
  ultimately show ?thesis by (auto simp: w Let_def)
qed

theorem bin_timestamp_exact_witness:
  "binTimestampMs ([7] @ be_bytes 8 (- 1) @ []) 1 = 946684799999"
  using bin_timestamp_exact [of "- 1" "[7]" "[]"] by simp

end
