(* ===== verification/Decode_Array.thy ===== *)
theory Decode_Array
  imports Encode
begin

section \<open>PostgreSQL array literals (src/decode.ts, parseArrayLiteral)\<close>

text \<open>
  The parser of the text form of an array, the inverse of \<open>arrayLiteral\<close>. The source walks an
  index over the text and calls itself for a nested array; the model passes the rest of the text.
  The recursion takes fuel and returns None when it runs out; \<open>parse_total\<close> shows that the
  length of the text is always enough, so the parser returns for every input. A decoded element
  is whatever the leaf function returns, or its error.
\<close>

datatype 'a arrval = AV_null | AV_leaf 'a | AV_arr "'a arrval list"

type_synonym 'a leaf = "jsstr \<Rightarrow> js_error + 'a"

text \<open>A quoted element: the backslash takes the next unit; at the end of the text \<open>text[i + 1]\<close> is
  undefined, which string concatenation spells out.\<close>

fun quoted_elem :: "jsstr \<Rightarrow> jsstr \<times> jsstr" where
  "quoted_elem [] = ([], [])"
| "quoted_elem (c # cs) =
     (if unat c = 92 then
        (case cs of
           [] \<Rightarrow> (asc ''undefined'', [])
         | d # ds \<Rightarrow> (let (s, r) = quoted_elem ds in (d # s, r)))
      else if unat c = 34 then ([], cs)
      else (let (s, r) = quoted_elem cs in (c # s, r)))"

text \<open>An unquoted element: up to the delimiter or the closing brace.\<close>

fun raw_elem :: "nat \<Rightarrow> jsstr \<Rightarrow> jsstr \<times> jsstr" where
  "raw_elem delim [] = ([], [])"
| "raw_elem delim (c # cs) =
     (if unat c = delim \<or> unat c = 125 then ([], c # cs)
      else (let (s, r) = raw_elem delim cs in (c # s, r)))"

definition leaf_value :: "'a leaf \<Rightarrow> jsstr \<Rightarrow> js_error + 'a arrval" where
  "leaf_value leaf s = rbind (leaf s) (\<lambda>v. Inr (AV_leaf v))"

definition raw_value :: "'a leaf \<Rightarrow> jsstr \<Rightarrow> js_error + 'a arrval" where
  "raw_value leaf s = (if s = asc ''NULL'' then Inr AV_null else leaf_value leaf s)"

text \<open>The elements up to the closing brace or the end, and the rest of the text.\<close>

definition push_elem :: "js_error + 'a arrval \<Rightarrow> (js_error + 'a arrval list \<times> jsstr) option
    \<Rightarrow> (js_error + 'a arrval list \<times> jsstr) option" where
  "push_elem v r = (case v of
       Inl e \<Rightarrow> Some (Inl e)
     | Inr x \<Rightarrow> map_option (\<lambda>q. rbind q (\<lambda>(vs, t). Inr (x # vs, t))) r)"

fun arr_items :: "nat \<Rightarrow> 'a leaf \<Rightarrow> nat \<Rightarrow> jsstr \<Rightarrow> (js_error + 'a arrval list \<times> jsstr) option" where
  "arr_items 0 leaf delim t = None"
| "arr_items (Suc n) leaf delim [] = Some (Inr ([], []))"
| "arr_items (Suc n) leaf delim (c # cs) =
     (if unat c = 125 then Some (Inr ([], cs))
      else if unat c = delim then arr_items n leaf delim cs
      else if unat c = 123 then
        (case arr_items n leaf delim cs of
           None \<Rightarrow> None
         | Some (Inl e) \<Rightarrow> Some (Inl e)
         | Some (Inr (vs, t)) \<Rightarrow> push_elem (Inr (AV_arr vs)) (arr_items n leaf delim t))
      else if unat c = 34 then
        (let (s, t) = quoted_elem cs in push_elem (leaf_value leaf s) (arr_items n leaf delim t))
      else
        (let (s, t) = raw_elem delim (c # cs) in push_elem (raw_value leaf s) (arr_items n leaf delim t)))"

text \<open>\<open>[lb:ub]=\<close>: the text after the first equals sign, when the text starts with a bracket.\<close>

fun after_eq :: "jsstr \<Rightarrow> jsstr option" where
  "after_eq [] = None"
| "after_eq (c # cs) = (if unat c = 61 then Some cs else after_eq cs)"

definition skip_dims :: "jsstr \<Rightarrow> jsstr" where
  "skip_dims t = (case t of
       c # _ \<Rightarrow> if unat c = 91 then (case after_eq t of Some r \<Rightarrow> r | None \<Rightarrow> t) else t
     | [] \<Rightarrow> t)"

text \<open>\<open>arr()\<close> skips the opening brace, whatever is there, and returns the elements.\<close>

definition parseArrayLiteral :: "'a leaf \<Rightarrow> nat \<Rightarrow> jsstr \<Rightarrow> (js_error + 'a arrval list) option" where
  "parseArrayLiteral leaf delim text =
     map_option (\<lambda>q. rbind q (\<lambda>(vs, t). Inr vs)) (arr_items (Suc (length text)) leaf delim (drop 1 (skip_dims text)))"

subsection \<open>The parser always returns\<close>

lemma quoted_elem_shorter: "length (snd (quoted_elem t)) \<le> length t"
proof (induction t rule: length_induct)
  case (1 t)
  then have IH: "length s < length t \<Longrightarrow> length (snd (quoted_elem s)) \<le> length s" for s by blast
  show ?case
  proof (cases t)
    case (Cons c cs)
    have step: "length (snd (quoted_elem cs)) \<le> length cs" using IH [of cs] Cons by simp
    show ?thesis
    proof (cases cs)
      case Nil
      then show ?thesis unfolding Cons by (simp add: Let_def)
    next
      case (Cons d ds)
      have "length (snd (quoted_elem ds)) \<le> length ds" using IH [of ds] \<open>t = c # cs\<close> Cons by simp
      with step Cons show ?thesis unfolding \<open>t = c # cs\<close>
        by (simp add: Let_def split_def del: quoted_elem.simps) (simp add: quoted_elem.simps(2) [of c] Let_def split_def)
    qed
  qed simp
qed

lemma raw_elem_shorter: "length (snd (raw_elem d t)) \<le> length t"
  by (induction t) (auto simp: Let_def split_def)

lemma raw_elem_progress: "unat c \<noteq> d \<Longrightarrow> unat c \<noteq> 125 \<Longrightarrow> length (snd (raw_elem d (c # cs))) \<le> length cs"
  using raw_elem_shorter [of d cs] by (simp add: Let_def split_def)

lemma push_elem_some: "r \<noteq> None \<Longrightarrow> push_elem v r \<noteq> None"
  by (auto simp: push_elem_def split: sum.splits)

lemma push_elem_total [simp]: "\<exists>q. push_elem v (Some y) = Some q"
  by (cases v) (simp_all add: push_elem_def)

lemma push_elem_rest: "push_elem v r = Some (Inr (vs, t)) \<Longrightarrow> \<exists>us. r = Some (Inr (us, t))"
  by (auto simp: push_elem_def rbind_Inr_iff split: sum.splits)

text \<open>One step of the loop, by the unit it looks at.\<close>

definition scalar_item :: "'a leaf \<Rightarrow> nat \<Rightarrow> unit16 \<Rightarrow> jsstr \<Rightarrow> (js_error + 'a arrval) \<times> jsstr" where
  "scalar_item leaf delim c cs =
     (if unat c = 34 then (let (s, t) = quoted_elem cs in (leaf_value leaf s, t))
      else (let (s, t) = raw_elem delim (c # cs) in (raw_value leaf s, t)))"

lemma arr_items_Cons:
  "arr_items (Suc n) leaf delim (c # cs) =
     (if unat c = 125 then Some (Inr ([], cs))
      else if unat c = delim then arr_items n leaf delim cs
      else if unat c = 123 then
        (case arr_items n leaf delim cs of
           None \<Rightarrow> None
         | Some (Inl e) \<Rightarrow> Some (Inl e)
         | Some (Inr (vs, t)) \<Rightarrow> push_elem (Inr (AV_arr vs)) (arr_items n leaf delim t))
      else push_elem (fst (scalar_item leaf delim c cs)) (arr_items n leaf delim (snd (scalar_item leaf delim c cs))))"
  by (simp add: scalar_item_def Let_def split_def)

declare arr_items.simps(3) [simp del]

lemma scalar_item_shorter:
  "unat c \<noteq> delim \<Longrightarrow> unat c \<noteq> 125 \<Longrightarrow> length (snd (scalar_item leaf delim c cs)) \<le> length cs"
  using quoted_elem_shorter [of cs] raw_elem_progress [of c delim cs]
  by (simp add: scalar_item_def Let_def split_def)

lemma arr_items_rest: "arr_items n leaf d t = Some (Inr (vs, r)) \<Longrightarrow> length r \<le> length t"
proof (induction n arbitrary: t vs r)
  case (Suc n)
  show ?case
  proof (cases t)
    case (Cons c cs)
    consider "unat c = 125" | "unat c \<noteq> 125" "unat c = d" | "unat c \<noteq> 125" "unat c \<noteq> d" "unat c = 123"
      | "unat c \<noteq> 125" "unat c \<noteq> d" "unat c \<noteq> 123" by blast
    then show ?thesis
    proof cases
      case 1
      with Suc.prems Cons show ?thesis by (simp add: arr_items_Cons)
    next
      case 2
      with Suc.prems Cons Suc.IH [of cs vs r] show ?thesis by (simp add: arr_items_Cons)
    next
      case 3
      with Suc.prems Cons obtain us u where a: "arr_items n leaf d cs = Some (Inr (us, u))"
        and p: "push_elem (Inr (AV_arr us)) (arr_items n leaf d u) = Some (Inr (vs, r))"
        by (auto simp: arr_items_Cons split: option.splits sum.splits)
      from push_elem_rest [OF p] obtain ws where "arr_items n leaf d u = Some (Inr (ws, r))" by blast
      with Suc.IH [of u ws r] Suc.IH [OF a] Cons show ?thesis by simp
    next
      case 4
      let ?u = "snd (scalar_item leaf d c cs)"
      from 4 Suc.prems Cons have "push_elem (fst (scalar_item leaf d c cs)) (arr_items n leaf d ?u) = Some (Inr (vs, r))"
        by (simp add: arr_items_Cons)
      from push_elem_rest [OF this] obtain ws where "arr_items n leaf d ?u = Some (Inr (ws, r))" by blast
      with Suc.IH [of ?u ws r] scalar_item_shorter [of c d leaf cs] 4 Cons show ?thesis by simp
    qed
  qed (use Suc.prems in simp)
qed simp

lemma arr_items_fuel: "length t < n \<Longrightarrow> arr_items n leaf d t \<noteq> None"
proof (induction n arbitrary: t)
  case (Suc n)
  show ?case
  proof (cases t)
    case (Cons c cs)
    have c: "arr_items n leaf d cs \<noteq> None" using Suc Cons by simp
    have s: "arr_items n leaf d (snd (scalar_item leaf d c cs)) \<noteq> None" if "unat c \<noteq> 125" "unat c \<noteq> d"
      using scalar_item_shorter [of c d leaf cs] that Suc.prems Cons by (intro Suc.IH) simp
    have r: "arr_items n leaf d u \<noteq> None" if "arr_items n leaf d cs = Some (Inr (us, u))" for us u
      using arr_items_rest [OF that] Suc.prems Cons by (intro Suc.IH) simp
    show ?thesis unfolding Cons using c s r push_elem_some
      by (cases "arr_items n leaf d cs") (auto simp: arr_items_Cons split: sum.splits)
  qed simp
qed simp

lemma push_elem_mono: "push_elem v r = Some q \<Longrightarrow> (\<And>q. r = Some q \<Longrightarrow> r' = Some q) \<Longrightarrow> push_elem v r' = Some q"
  by (cases v; cases r) (auto simp: push_elem_def)

lemma arr_items_more: "arr_items n leaf d t = Some q \<Longrightarrow> arr_items (n + k) leaf d t = Some q"
proof (induction n arbitrary: t q)
  case (Suc n)
  show ?case
  proof (cases t)
    case Nil
    with Suc.prems show ?thesis by simp
  next
    case (Cons c cs)
    let ?u = "snd (scalar_item leaf d c cs)"
    have s: "push_elem v (arr_items n leaf d u) = Some q' \<Longrightarrow> push_elem v (arr_items (n + k) leaf d u) = Some q'" for v u q'
      using push_elem_mono Suc.IH by blast
    show ?thesis using Suc.prems s Suc.IH [of cs] unfolding Cons
      by (cases "arr_items n leaf d cs") (auto simp: arr_items_Cons split: if_splits sum.splits)
  qed
qed simp

subsection \<open>The parser inverts the literal writer\<close>

text \<open>What an element is read as: null, a nested array, or the leaf of its text.\<close>

definition scalar_value :: "'a leaf \<Rightarrow> jsval \<Rightarrow> js_error + 'a arrval" where
  "scalar_value leaf v =
     (if nullish v then Inr AV_null
      else if is_number v \<or> is_bigint v then leaf_value leaf (js_string v)
      else case v of
        JBool b \<Rightarrow> leaf_value leaf (bool_text b)
      | _ \<Rightarrow> rbind (element_text v) (leaf_value leaf))"

fun elem_value :: "'a leaf \<Rightarrow> jsval \<Rightarrow> js_error + 'a arrval"
  and items_value :: "'a leaf \<Rightarrow> jsval list \<Rightarrow> js_error + 'a arrval list" where
  "elem_value leaf (JArr vs) = rbind (items_value leaf vs) (\<lambda>xs. Inr (AV_arr xs))"
| "elem_value leaf v = scalar_value leaf v"
| "items_value leaf [] = Inr []"
| "items_value leaf (v # vs) =
     rbind (elem_value leaf v) (\<lambda>x. rbind (items_value leaf vs) (\<lambda>xs. Inr (x # xs)))"

lemma quoted_elem_esc: "quoted_elem (esc_quoted s @ u16 34 # u) = (s, u)"
proof (induction s)
  case (Cons c s)
  show ?case
  proof (cases "quote_special c")
    case True
    with Cons show ?thesis by (simp add: esc_quoted_def)
  next
    case False
    with Cons show ?thesis by (simp add: esc_quoted_def quote_special_def)
  qed
qed (simp add: esc_quoted_def)

lemma raw_elem_text:
  "\<forall>c \<in> set s. unat c \<noteq> 44 \<and> unat c \<noteq> 125 \<Longrightarrow> unat x = 44 \<or> unat x = 125 \<Longrightarrow> raw_elem 44 (s @ x # u) = (s, x # u)"
  by (induction s) auto

lemma raw_scalar:
  assumes "s = c # cs" "\<forall>c \<in> set s. unat c \<notin> {34, 44, 123, 125}" "s \<noteq> asc ''NULL''" "unat x = 44 \<or> unat x = 125"
  shows "arr_items (Suc n) leaf 44 (s @ x # u) = push_elem (leaf_value leaf s) (arr_items n leaf 44 (x # u))"
proof -
  have "raw_elem 44 (s @ x # u) = (s, x # u)" using assms(2,4) by (intro raw_elem_text) auto
  then show ?thesis using assms by (simp add: arr_items_Cons scalar_item_def raw_value_def)
qed

lemma number_text:
  assumes "is_number v \<or> is_bigint v"
  shows "js_string v \<noteq> []" "\<forall>c \<in> set (js_string v). num_unit c"
proof -
  have z: "dec_nat n \<noteq> []" for n by (simp add: dec_nat_def)
  have dg: "num_unit (digit_unit d)" if "d < 10" for d using that by (auto simp: num_unit_def unat_digit_unit)
  have d: "dec_int n \<noteq> []" "\<forall>c \<in> set (dec_int n). num_unit c" for n
    using z dg dec_digits_less by (auto simp: dec_int_def dec_nat_def num_unit_def)
  have t: "\<forall>c \<in> set (nt_str x). num_unit c" for x using nt_str_units [of x] by (simp add: list_all_iff)
  show "js_string v \<noteq> []" "\<forall>c \<in> set (js_string v). num_unit c" using assms d t
    by (cases v; simp add: is_number_def is_bigint_def js_string_def flip: dec_int_zero)+
qed

lemma scalar_parsed:
  assumes s: "scalar_literal v = Inr s" and x: "unat x = 44 \<or> unat x = 125"
  shows "arr_items (Suc n) leaf 44 (s @ x # u) = push_elem (scalar_value leaf v) (arr_items n leaf 44 (x # u))"
proof -
  have quoted: ?thesis if "s = u16 34 # esc_quoted q @ [u16 34]" "scalar_value leaf v = leaf_value leaf q" for q
    using that quoted_elem_esc [of q "x # u"] by (simp add: arr_items_Cons scalar_item_def)
  consider "nullish v" "s = asc ''NULL''" | "\<not> nullish v" "is_number v \<or> is_bigint v" "s = js_string v"
    | b where "v = JBool b" "s = bool_text b"
    | q where "\<not> nullish v" "\<not> (is_number v \<or> is_bigint v)" "\<forall>b. v \<noteq> JBool b" "element_text v = Inr q" "s = u16 34 # esc_quoted q @ [u16 34]"
    using s by (cases v) (auto simp: scalar_literal_def rbind_Inr_iff nullish_def is_number_def is_bigint_def)
  then show ?thesis
  proof cases
    case 1
    have "raw_elem 44 (asc ''NULL'' @ x # u) = (asc ''NULL'', x # u)" using x by (intro raw_elem_text) (auto simp: asc_def)
    moreover obtain c cs where "asc ''NULL'' = c # cs" "unat c = 78" by (simp add: asc_def)
    ultimately show ?thesis using 1 by (simp add: arr_items_Cons scalar_item_def raw_value_def scalar_value_def)
  next
    case 2
    from number_text [OF 2(2)] have n: "js_string v \<noteq> []" "\<forall>c \<in> set (js_string v). num_unit c" .
    obtain c cs where cc: "s = c # cs" using n(1) unfolding 2(3) by (cases "js_string v") simp_all
    have "js_string v \<noteq> asc ''NULL''" using n(2) by (auto simp: asc_def num_unit_def)
    moreover have "\<forall>c \<in> set s. unat c \<notin> {34, 44, 123, 125}" using n(2) 2(3) by (auto simp: num_unit_def)
    ultimately show ?thesis using raw_scalar [OF cc _ _ x] 2 by (simp add: scalar_value_def)
  next
    case 3
    obtain c where c: "s = [c]" "unat c = 116 \<or> unat c = 102" using 3 by (cases b) (auto simp: bool_text_def)
    then have "s \<noteq> asc ''NULL''" by (simp add: asc_def)
    with c raw_scalar [of s c "[]" x n leaf u, OF c(1) _ _ x] 3 show ?thesis
      by (auto simp: scalar_value_def nullish_def is_number_def is_bigint_def)
  next
    case 4
    then have "scalar_value leaf v = leaf_value leaf q"
      by (cases v) (auto simp: scalar_value_def nullish_def is_number_def is_bigint_def)
    with quoted 4 show ?thesis by blast
  qed
qed

lemma scalar_parsed_ex:
  "scalar_literal v = Inr s \<Longrightarrow> unat x = 44 \<or> unat x = 125 \<Longrightarrow>
     \<exists>k. \<forall>n \<ge> k. \<forall>u. arr_items (Suc n) leaf 44 (s @ x # u) = push_elem (scalar_value leaf v) (arr_items n leaf 44 (x # u))"
  using scalar_parsed by blast

lemma push_elem_Some: "push_elem v (Some q) = Some (rbind v (\<lambda>x. rbind q (\<lambda>(vs, t). Inr (x # vs, t))))"
  by (cases v) (simp_all add: push_elem_def)

lemma elem_parsed:
  "elem_literal v = Inr s \<Longrightarrow> unat x = 44 \<or> unat x = 125 \<Longrightarrow>
     \<exists>k. \<forall>n \<ge> k. \<forall>u. arr_items (Suc n) leaf 44 (s @ x # u) = push_elem (elem_value leaf v) (arr_items n leaf 44 (x # u))"
  "array_items first vs = Inr s \<Longrightarrow>
     \<exists>k. \<forall>n \<ge> k. \<forall>u. arr_items n leaf 44 (s @ u16 125 # u) = Some (rbind (items_value leaf vs) (\<lambda>xs. Inr (xs, u)))"
proof (induction v and first vs arbitrary: s x and s rule: elem_literal_array_items.induct)
  case (1 vs)
  then obtain b where b: "array_items True vs = Inr b" and s: "s = u16 123 # b @ [u16 125]" by (auto simp: rbind_Inr_iff)
  from 1(1) [OF b] obtain k where k: "\<And>n u. k \<le> n \<Longrightarrow>
      arr_items n leaf 44 (b @ u16 125 # u) = Some (rbind (items_value leaf vs) (\<lambda>xs. Inr (xs, u)))" by blast
  have "arr_items (Suc n) leaf 44 (s @ x # u) = push_elem (elem_value leaf (JArr vs)) (arr_items n leaf 44 (x # u))" if "k \<le> n" for n u
    using k [OF that, of "x # u"] by (cases "items_value leaf vs") (simp_all add: s arr_items_Cons push_elem_def)
  then show ?case by blast
next
  case (3 first)
  then have "arr_items n leaf 44 (s @ u16 125 # u) = Some (rbind (items_value leaf []) (\<lambda>xs. Inr (xs, u)))" if "1 \<le> n" for n u
    using that by (cases n) (simp_all add: arr_items_Cons)
  then show ?case by blast
next
  case (4 first v vs)
  then obtain a r where a: "elem_literal v = Inr a" and r: "array_items False vs = Inr r"
    and s: "s = (if first then [] else [u16 44]) @ a @ r" by (auto simp: rbind_Inr_iff)
  define x where "x = hd (r @ [u16 125])"
  define y where "y = tl (r @ [u16 125])"
  have xy: "r @ u16 125 # u = x # y @ u" for u by (cases r) (simp_all add: x_def y_def)
  have x: "unat x = 44 \<or> unat x = 125"
    using array_items_text [OF r] by (cases r) (auto simp: x_def items_text_def)
  from 4(1) [OF a x] obtain k1 where k1: "\<And>n u. k1 \<le> n \<Longrightarrow>
    arr_items (Suc n) leaf 44 (a @ x # u) = push_elem (elem_value leaf v) (arr_items n leaf 44 (x # u))" by blast
  from 4(2) [OF r] obtain k2 where k2: "\<And>n u. k2 \<le> n \<Longrightarrow>
      arr_items n leaf 44 (r @ u16 125 # u) = Some (rbind (items_value leaf vs) (\<lambda>xs. Inr (xs, u)))" by blast
  have one: "arr_items (Suc n) leaf 44 (a @ r @ u16 125 # u) = Some (rbind (items_value leaf (v # vs)) (\<lambda>xs. Inr (xs, u)))"
    if "k1 \<le> n" "k2 \<le> n" for n u
    using k1 [OF that(1), of "y @ u"] k2 [OF that(2), of u] unfolding xy
    by (cases "elem_value leaf v"; cases "items_value leaf vs") (simp_all add: push_elem_Some)
  have "arr_items n leaf 44 (s @ u16 125 # u) = Some (rbind (items_value leaf (v # vs)) (\<lambda>xs. Inr (xs, u)))"
    if n: "k1 + k2 + 2 \<le> n" for n u
  proof -
    obtain m where m: "n = Suc (Suc m)" "k1 \<le> m" "k2 \<le> m" using n by (cases n; cases "n - 1") auto
    show ?thesis using one [of "Suc m" u] one [of m u] m
      by (cases first) (simp_all add: s arr_items_Cons [of _ _ _ "u16 44"])
  qed
  then show ?case by blast
qed (simp_all add: scalar_parsed_ex)

text \<open>The array parser returns for every text, delimiter and leaf: there is no input on which its
  loop, or the recursion for nested arrays, does not end; and more steps never change the result.\<close>

theorem parse_total:
  "(\<exists>r. parseArrayLiteral leaf delim t = Some r) \<and>
   arr_items (Suc (length u) + k) leaf delim u = arr_items (Suc (length u)) leaf delim u"
proof
  have "after_eq s = Some r \<Longrightarrow> length r \<le> length s" for s r by (induction s) (auto split: if_splits)
  then have "length (skip_dims t) \<le> length t" by (fastforce simp: skip_dims_def split: list.splits option.splits)
  then have "length (drop 1 (skip_dims t)) < Suc (length t)" by simp
  from arr_items_fuel [OF this, of leaf delim] obtain q where "arr_items (Suc (length t)) leaf delim (drop 1 (skip_dims t)) = Some q"
    by blast
  then show "\<exists>r. parseArrayLiteral leaf delim t = Some r" unfolding parseArrayLiteral_def by (simp only: option.map) blast
  obtain q where q: "arr_items (Suc (length u)) leaf delim u = Some q"
    using arr_items_fuel [of u "Suc (length u)" leaf delim] by blast
  from arr_items_more [OF this, of k] q show "arr_items (Suc (length u) + k) leaf delim u = arr_items (Suc (length u)) leaf delim u"
    by (simp only:)
qed

text \<open>C38: the array parser inverts the array writer: the literal of any JavaScript array, nested to any
  depth, parses to the tree of its elements, null for null and undefined and otherwise the leaf of
  the element's own text, whatever quotes, backslashes, braces and commas it contains.\<close>

theorem array_literal_roundtrip:
  assumes "arrayLiteral vs = Inr s"
  shows "parseArrayLiteral leaf 44 s = Some (items_value leaf vs)"
proof -
  obtain b where b: "array_items True vs = Inr b" and s: "s = u16 123 # b @ [u16 125]"
    using assms by (auto simp: arrayLiteral_def rbind_Inr_iff)
  from elem_parsed(2) [OF b, of leaf] obtain k where k: "\<And>n u. k \<le> n \<Longrightarrow>
      arr_items n leaf 44 (b @ u16 125 # u) = Some (rbind (items_value leaf vs) (\<lambda>xs. Inr (xs, u)))" by blast
  have sk: "drop 1 (skip_dims s) = b @ [u16 125]" by (simp add: skip_dims_def s)
  obtain q where q: "arr_items (Suc (length s)) leaf 44 (b @ [u16 125]) = Some q"
    using arr_items_fuel [of "b @ [u16 125]" "Suc (length s)" leaf 44] by (auto simp: s)
  from arr_items_more [OF q, of k] k [of "Suc (length s) + k" "[]"] have "q = rbind (items_value leaf vs) (\<lambda>xs. Inr (xs, []))" by simp
  then show ?thesis unfolding parseArrayLiteral_def sk q by (cases "items_value leaf vs") simp_all
qed

theorem array_literal_roundtrip_witness:
  "\<exists>s. arrayLiteral [JArr [JStr (asc ''NULL''), JNull], JStr [u16 34, u16 92]] = Inr s \<and>
     parseArrayLiteral (\<lambda>s. Inr s) 44 s = Some (Inr [AV_arr [AV_leaf (asc ''NULL''), AV_null], AV_leaf [u16 34, u16 92]])"
proof -
  let ?vs = "[JArr [JStr (asc ''NULL''), JNull], JStr [u16 34, u16 92]]"
  obtain s where s: "arrayLiteral ?vs = Inr s"
    by (simp add: arrayLiteral_def scalar_literal_def nullish_def is_number_def is_bigint_def element_text_def)
  have "items_value (\<lambda>s. Inr s) ?vs = Inr [AV_arr [AV_leaf (asc ''NULL''), AV_null], AV_leaf [u16 34, u16 92]]"
    by (simp add: scalar_value_def nullish_def is_number_def is_bigint_def element_text_def leaf_value_def js_string_def)
  with array_literal_roundtrip [OF s, of "\<lambda>s. Inr s"] s show ?thesis by auto
qed

end
