(* ===== verification/Decode_Numbers.thy ===== *)
theory Decode_Numbers
  imports Decode_Array Complex_Main
begin

section \<open>Numbers from cell bytes (src/decode.ts, txtInt and txtF64)\<close>

text \<open>
  IEEE-754 numbers as exact rationals, with rounding to nearest, ties to even, written out; the
  JavaScript operators and \<open>Number(text)\<close> are defined through it. On top of it the two parsers that read
  a number straight from the ASCII bytes of a cell, in the form of the interpreted engine and in
  the form of the code the JIT emits. They take a fast path without \<open>Number\<close>; it is shown to
  give exactly \<open>Number\<close> of the cell's text, for integers of any length and for every decimal
  text PostgreSQL prints.
\<close>

subsection \<open>IEEE-754 rounding\<close>

datatype jnum = Fin rat | NegZ | NaN | Inf bool

definition rnd_even :: "rat \<Rightarrow> int" where
  "rnd_even x =
     (let f = \<lfloor>x\<rfloor>; d = x - of_int f in
      if d < 1 / 2 then f else if 1 / 2 < d then f + 1 else if even f then f else f + 1)"

text \<open>The integer part of the binary logarithm of a positive rational.\<close>

definition ilog2 :: "rat \<Rightarrow> int" where
  "ilog2 x =
     (let (n, d) = quotient_of x; k = int (bit_length (nat n)) - int (bit_length (nat d)) in
      if 2 powi k \<le> x then k else k - 1)"

text \<open>The nearest number with \<open>p\<close> bits, exponent at least \<open>emin\<close> and magnitude below
  \<open>2 powi emax\<close>.\<close>

definition round_num :: "int \<Rightarrow> int \<Rightarrow> int \<Rightarrow> rat \<Rightarrow> jnum" where
  "round_num p emin emax x =
     (if x = 0 then Fin 0
      else let e = max (ilog2 \<bar>x\<bar> - (p - 1)) emin; m = rnd_even (\<bar>x\<bar> / 2 powi e); r = of_int m * 2 powi e in
        if 2 powi emax \<le> r then Inf (x < 0)
        else if m = 0 then (if x < 0 then NegZ else Fin 0)
        else Fin (if x < 0 then - r else r))"

definition double :: "rat \<Rightarrow> jnum" where
  "double = round_num 53 (- 1074) 1024"

definition single :: "rat \<Rightarrow> jnum" where
  "single = round_num 24 (- 149) 128"

subsection \<open>The operators\<close>

fun fin_val :: "jnum \<Rightarrow> rat" where
  "fin_val (Fin x) = x"
| "fin_val _ = 0"

fun neg_sign :: "jnum \<Rightarrow> bool" where
  "neg_sign (Fin x) = (x < 0)"
| "neg_sign NegZ = True"
| "neg_sign (Inf s) = s"
| "neg_sign NaN = False"

fun num_neg :: "jnum \<Rightarrow> jnum" where
  "num_neg (Fin x) = (if x = 0 then NegZ else Fin (- x))"
| "num_neg NegZ = Fin 0"
| "num_neg (Inf s) = Inf (\<not> s)"
| "num_neg NaN = NaN"

definition signed_zero :: "bool \<Rightarrow> jnum" where
  "signed_zero s = (if s then NegZ else Fin 0)"

definition fin_mul :: "jnum \<Rightarrow> jnum \<Rightarrow> jnum" where
  "fin_mul a b = (if fin_val a = 0 \<or> fin_val b = 0 then signed_zero (neg_sign a \<noteq> neg_sign b)
     else double (fin_val a * fin_val b))"

fun num_mul :: "jnum \<Rightarrow> jnum \<Rightarrow> jnum" where
  "num_mul NaN b = NaN"
| "num_mul a NaN = NaN"
| "num_mul (Inf s) (Inf t) = Inf (s \<noteq> t)"
| "num_mul (Inf s) b = (if fin_val b = 0 then NaN else Inf (s \<noteq> neg_sign b))"
| "num_mul a (Inf t) = (if fin_val a = 0 then NaN else Inf (neg_sign a \<noteq> t))"
| "num_mul a b = fin_mul a b"

fun num_add :: "jnum \<Rightarrow> jnum \<Rightarrow> jnum" where
  "num_add NaN b = NaN"
| "num_add a NaN = NaN"
| "num_add (Inf s) (Inf t) = (if s = t then Inf s else NaN)"
| "num_add (Inf s) b = Inf s"
| "num_add a (Inf t) = Inf t"
| "num_add NegZ NegZ = NegZ"
| "num_add a b = (let r = fin_val a + fin_val b in if r = 0 then Fin 0 else double r)"

fun num_div :: "jnum \<Rightarrow> jnum \<Rightarrow> jnum" where
  "num_div NaN b = NaN"
| "num_div a NaN = NaN"
| "num_div (Inf s) (Inf t) = NaN"
| "num_div (Inf s) b = Inf (s \<noteq> neg_sign b)"
| "num_div a (Inf t) = signed_zero (neg_sign a \<noteq> t)"
| "num_div a b =
     (if fin_val b = 0 then (if fin_val a = 0 then NaN else Inf (neg_sign a \<noteq> neg_sign b))
      else if fin_val a = 0 then signed_zero (neg_sign a \<noteq> neg_sign b)
      else double (fin_val a / fin_val b))"

text \<open>\<open>Math.fround\<close>.\<close>

fun fround :: "jnum \<Rightarrow> jnum" where
  "fround (Fin x) = single x"
| "fround n = n"

subsection \<open>Number(text)\<close>

text \<open>White space and line terminators, which \<open>Number\<close> and \<open>BigInt\<close> trim.\<close>

definition js_space :: "unit16 \<Rightarrow> bool" where
  "js_space c = (let n = unat c in n \<in> {9, 10, 11, 12, 13, 32, 160, 5760, 8232, 8233, 8239, 8287, 12288, 65279}
     \<or> 8192 \<le> n \<and> n \<le> 8202)"

definition js_trim :: "jsstr \<Rightarrow> jsstr" where
  "js_trim s = rev (dropWhile js_space (rev (dropWhile js_space s)))"

definition is_digit :: "unit16 \<Rightarrow> bool" where
  "is_digit c \<longleftrightarrow> 48 \<le> unat c \<and> unat c \<le> 57"

definition digits_of :: "jsstr \<Rightarrow> nat list" where
  "digits_of s = map (\<lambda>c. unat c - 48) (takeWhile is_digit s)"

definition after_digits :: "jsstr \<Rightarrow> jsstr" where
  "after_digits s = dropWhile is_digit s"

text \<open>The optional sign of a number or of an exponent.\<close>

definition sign_of :: "jsstr \<Rightarrow> bool \<times> jsstr" where
  "sign_of s = (case s of
       [] \<Rightarrow> (False, [])
     | c # cs \<Rightarrow> if unat c = 45 then (True, cs) else if unat c = 43 then (False, cs) else (False, s))"

text \<open>The exponent part, nothing or \<open>e\<close> with a signed integer up to the end.\<close>

definition exp_part :: "jsstr \<Rightarrow> int option" where
  "exp_part s = (case s of
       [] \<Rightarrow> Some 0
     | c # cs \<Rightarrow>
         (let (neg, r) = sign_of cs; e = int (digits_val (digits_of r)) in
          if unat c \<in> {69, 101} \<and> digits_of r \<noteq> [] \<and> after_digits r = [] then Some (if neg then - e else e)
          else None))"

definition frac_digits :: "jsstr \<Rightarrow> nat list \<times> jsstr" where
  "frac_digits s = (case s of
       [] \<Rightarrow> ([], [])
     | c # cs \<Rightarrow> if unat c = 46 then (digits_of cs, after_digits cs) else ([], s))"

definition decimal_value :: "jsstr \<Rightarrow> rat option" where
  "decimal_value s =
     (let i = digits_of s; (f, r) = frac_digits (after_digits s) in
      if i = [] \<and> f = [] then None
      else map_option (\<lambda>e. of_nat (digits_val (i @ f)) * 10 powi (e - int (length f))) (exp_part r))"

definition unsigned_number :: "jsstr \<Rightarrow> jnum" where
  "unsigned_number s =
     (if s = asc ''Infinity'' then Inf False
      else case decimal_value s of None \<Rightarrow> NaN | Some q \<Rightarrow> double q)"

text \<open>A literal with radix prefix: \<open>0x\<close>, \<open>0o\<close> or \<open>0b\<close> and at least one digit.\<close>

definition radix_digit :: "unit16 \<Rightarrow> nat" where
  "radix_digit c = (let n = unat c in
     if 48 \<le> n \<and> n \<le> 57 then n - 48 else if 97 \<le> n \<and> n \<le> 102 then n - 87 else if 65 \<le> n \<and> n \<le> 70 then n - 55 else 16)"

definition radix_of :: "unit16 \<Rightarrow> nat option" where
  "radix_of c = (let n = unat c in
     if n \<in> {88, 120} then Some 16 else if n \<in> {79, 111} then Some 8 else if n \<in> {66, 98} then Some 2 else None)"

definition radix_value :: "jsstr \<Rightarrow> nat option" where
  "radix_value s = (case s of
       z # c # cs \<Rightarrow> (case radix_of c of
           Some k \<Rightarrow> if unat z = 48 \<and> cs \<noteq> [] \<and> list_all (\<lambda>d. radix_digit d < k) cs
             then Some (foldl (\<lambda>a d. a * k + radix_digit d) 0 cs) else None
         | None \<Rightarrow> None)
     | _ \<Rightarrow> None)"

definition js_number :: "jsstr \<Rightarrow> jnum" where
  "js_number s =
     (let t = js_trim s in
      if t = [] then Fin 0
      else case radix_value t of
        Some n \<Rightarrow> double (of_nat n)
      | None \<Rightarrow> (let (neg, u) = sign_of t; x = unsigned_number u in if neg then num_neg x else x))"

subsection \<open>Slices of the row body\<close>

text \<open>\<open>b.latin1Slice(s, e)\<close> and \<open>b.utf8Slice(s, e)\<close> of the bytes: an index outside the buffer throws.\<close>

definition slice_bytes :: "bytes \<Rightarrow> int \<Rightarrow> int \<Rightarrow> js_error + bytes" where
  "slice_bytes b s e =
     (if s < 0 \<or> e < 0 \<or> int (length b) < max s e then Inl (OutOfRange (max s e))
      else Inr (take (nat (max s e) - nat s) (drop (nat s) b)))"

definition from_latin1 :: "bytes \<Rightarrow> jsstr" where
  "from_latin1 bs = map ucast bs"

definition lat1 :: "bytes \<Rightarrow> int \<Rightarrow> int \<Rightarrow> js_error + jsstr" where
  "lat1 b o1 l = rbind (slice_bytes b o1 (o1 + l)) (\<lambda>s. Inr (from_latin1 s))"

definition utf8_slice :: "bytes \<Rightarrow> int \<Rightarrow> int \<Rightarrow> js_error + jsstr" where
  "utf8_slice b o1 l = rbind (slice_bytes b o1 (o1 + l)) (\<lambda>s. Inr (from_utf8 s))"

definition byte_is :: "bytes \<Rightarrow> int \<Rightarrow> nat set \<Rightarrow> bool" where
  "byte_is b p ns = (case byte_at b p of Some c \<Rightarrow> unat c \<in> ns | None \<Rightarrow> False)"

text \<open>\<open>b[p] - 48\<close>; out of range it is NaN.\<close>

definition digit_num :: "bytes \<Rightarrow> int \<Rightarrow> jnum" where
  "digit_num b p = (case byte_at b p of Some c \<Rightarrow> Fin (of_int (uint c - 48)) | None \<Rightarrow> NaN)"

subsection \<open>txtInt\<close>

fun int_digits :: "bytes \<Rightarrow> int \<Rightarrow> nat \<Rightarrow> jnum \<Rightarrow> jnum" where
  "int_digits b p 0 x = x"
| "int_digits b p (Suc k) x = int_digits b (p + 1) k (num_add (num_mul x (Fin 10)) (digit_num b p))"

definition txtInt :: "bytes \<Rightarrow> int \<Rightarrow> int \<Rightarrow> js_error + jnum" where
  "txtInt b o1 l =
     (if 16 < l then rbind (lat1 b o1 l) (\<lambda>s. Inr (js_number s))
      else let s = byte_is b o1 {45}; p = (if s then o1 + 1 else o1); x = int_digits b p (nat (o1 + l - p)) (Fin 0)
        in Inr (if s then num_neg x else x))"

subsection \<open>txtF64\<close>

record f64_scan =
  f_sig :: jnum
  f_nd :: nat
  f_fd :: nat
  f_dot :: bool
  f_hard :: bool

definition sig_step :: "nat \<Rightarrow> f64_scan \<Rightarrow> f64_scan" where
  "sig_step c st =
     (if c = 46 then st\<lparr>f_dot := True\<rparr>
      else if f_sig st \<in> {Fin 0, NegZ} \<and> c = 48 then (if f_dot st then st\<lparr>f_fd := f_fd st + 1\<rparr> else st)
      else if f_nd st < 15 then
        st\<lparr>f_sig := num_add (num_mul (f_sig st) (Fin 10)) (Fin (of_int (int c - 48))), f_nd := f_nd st + 1,
           f_fd := (if f_dot st then f_fd st + 1 else f_fd st)\<rparr>
      else st\<lparr>f_hard := True\<rparr>)"

text \<open>The loop over the significand; it stops at the first byte that is neither a digit nor a point. A byte
  outside the buffer compares false with everything, so it is taken as a digit with value NaN.\<close>

fun sig_loop :: "bytes \<Rightarrow> int \<Rightarrow> nat \<Rightarrow> f64_scan \<Rightarrow> f64_scan \<times> int" where
  "sig_loop b p 0 st = (st, p)"
| "sig_loop b p (Suc k) st = (case byte_at b p of
       None \<Rightarrow> sig_loop b (p + 1) k
         (if f_nd st < 15 then st\<lparr>f_sig := NaN, f_nd := f_nd st + 1, f_fd := (if f_dot st then f_fd st + 1 else f_fd st)\<rparr> else st\<lparr>f_hard := True\<rparr>)
     | Some c \<Rightarrow>
         if unat c \<noteq> 46 \<and> (unat c < 48 \<or> 57 < unat c) then (st, p)
         else sig_loop b (p + 1) k (sig_step (unat c) st))"

text \<open>The exponent; None is NaN.\<close>

fun exp_loop :: "bytes \<Rightarrow> int \<Rightarrow> nat \<Rightarrow> int \<Rightarrow> int option" where
  "exp_loop b p 0 x = Some x"
| "exp_loop b p (Suc k) x = (case byte_at b p of
       None \<Rightarrow> None
     | Some c \<Rightarrow> if unat c < 48 \<or> 57 < unat c then Some x else exp_loop b (p + 1) k (x * 10 + (int (unat c) - 48)))"

definition exp_scan :: "bytes \<Rightarrow> int \<Rightarrow> int \<Rightarrow> int option" where
  "exp_scan b p e =
     (if byte_is b p {101, 69} then
        (if byte_is b (p + 1) {45} then map_option uminus (exp_loop b (p + 2) (nat (e - (p + 2))) 0)
         else let q = (if byte_is b (p + 1) {43} then p + 2 else p + 1) in exp_loop b q (nat (e - q)) 0)
      else Some 0)"

definition POW10 :: "nat \<Rightarrow> jnum" where
  "POW10 n = double (10 ^ n)"

definition f64_finish :: "bytes \<Rightarrow> int \<Rightarrow> int \<Rightarrow> bool \<Rightarrow> f64_scan \<Rightarrow> int option \<Rightarrow> js_error + jnum" where
  "f64_finish b o1 l neg st ex =
     (let eff = (case ex of Some x \<Rightarrow> x | None \<Rightarrow> 0) - int (f_fd st) in
      if f_hard st \<or> ex \<noteq> None \<and> (22 < eff \<or> eff < - 22) then rbind (lat1 b o1 l) (\<lambda>s. Inr (js_number s))
      else if ex = None then Inr NaN
      else let r = (if 0 \<le> eff then num_mul (f_sig st) (POW10 (nat eff)) else num_div (f_sig st) (POW10 (nat (- eff))))
        in Inr (if neg then num_neg r else r))"

definition scan0 :: f64_scan where
  "scan0 = \<lparr>f_sig = Fin 0, f_nd = 0, f_fd = 0, f_dot = False, f_hard = False\<rparr>"

definition txtF64 :: "bytes \<Rightarrow> int \<Rightarrow> int \<Rightarrow> js_error + jnum" where
  "txtF64 b o1 l =
     (let e = o1 + l; neg = byte_is b o1 {45}; p = (if byte_is b o1 {45, 43} then o1 + 1 else o1) in
      if byte_is b p {78, 110} then Inr NaN
      else if byte_is b p {73, 105} then Inr (Inf neg)
      else let (st, q) = sig_loop b p (nat (e - p)) scan0 in f64_finish b o1 l neg st (exp_scan b q e))"

text \<open>\<open>float4:precise\<close>.\<close>

definition txtF4Precise :: "bytes \<Rightarrow> int \<Rightarrow> int \<Rightarrow> js_error + jnum" where
  "txtF4Precise b o1 l = rbind (txtF64 b o1 l) (\<lambda>x. Inr (fround x))"

subsection \<open>The same parsers as the compiled mapper contains them\<close>

definition intFromBytes :: "bytes \<Rightarrow> int \<Rightarrow> int \<Rightarrow> js_error + jnum" where
  "intFromBytes b o1 l =
     (if 16 < l then rbind (lat1 b o1 l) (\<lambda>s. Inr (js_number s))
      else let e = o1 + l; (s, p) = (if byte_is b o1 {45} then (True, o1 + 1) else (False, o1));
               x = int_digits b p (nat (e - p)) (Fin 0)
        in Inr (if s then num_neg x else x))"

definition f64FromBytes :: "bytes \<Rightarrow> int \<Rightarrow> int \<Rightarrow> js_error + jnum" where
  "f64FromBytes b o1 l =
     (let e = o1 + l;
          (neg, p) = (if byte_is b o1 {45} then (True, o1 + 1) else if byte_is b o1 {43} then (False, o1 + 1) else (False, o1)) in
      if byte_is b p {78, 110} then Inr NaN
      else if byte_is b p {73, 105} then Inr (if neg then Inf True else Inf False)
      else let (st, q) = sig_loop b p (nat (e - p)) \<lparr>f_sig = Fin 0, f_nd = 0, f_fd = 0, f_dot = False, f_hard = False\<rparr>
        in f64_finish b o1 l neg st (exp_scan b q e))"

lemma intFromBytes_txtInt: "intFromBytes = txtInt"
  by (intro ext) (auto simp: intFromBytes_def txtInt_def Let_def)

lemma byte_is_insert: "byte_is b p (insert n ns) \<longleftrightarrow> byte_is b p {n} \<or> byte_is b p ns"
  by (auto simp: byte_is_def split: option.splits)

lemma f64FromBytes_txtF64: "f64FromBytes = txtF64"
  by (intro ext) (auto simp: f64FromBytes_def txtF64_def Let_def scan0_def byte_is_insert [of _ _ 45 "{43}"]
      split: prod.splits)

subsection \<open>Rounding is exact on the representable numbers\<close>

lemma bit_length_bounds: "0 < n \<Longrightarrow> 2 ^ (bit_length n - 1) \<le> n \<and> n < 2 ^ bit_length n \<and> 0 < bit_length n"
proof (induction n rule: bit_length.induct)
  case (1 n)
  show ?case
  proof (cases "n div 2 = 0")
    case True
    with 1(2) have "n = 1" by auto
    then show ?thesis by (simp add: bit_length.simps)
  next
    case False
    with 1 have IH: "2 ^ (bit_length (n div 2) - 1) \<le> n div 2" "n div 2 < 2 ^ bit_length (n div 2)" "0 < bit_length (n div 2)"
      by auto
    then obtain k where k: "bit_length (n div 2) = Suc k" by (cases "bit_length (n div 2)") auto
    have l: "bit_length n = Suc (Suc k)" using 1(2) k by (subst bit_length.simps) simp
    have "2 ^ k \<le> n div 2" "n div 2 < 2 ^ Suc k" using IH unfolding k by simp_all
    then have "2 * 2 ^ k \<le> n" "n < 2 * 2 ^ Suc k" by linarith+
    then show ?thesis unfolding l by simp
  qed
qed

lemma ilog2_bounds:
  assumes "0 < x"
  shows "2 powi ilog2 x \<le> x" "x < 2 powi (ilog2 x + 1)"
proof -
  obtain n d where q: "quotient_of x = (n, d)" by (cases "quotient_of x")
  then have d: "0 < d" by (rule quotient_of_denom_pos)
  have x: "x = of_int n / of_int d" using q by (rule quotient_of_div)
  with assms d have n: "0 < n" by (simp add: zero_less_divide_iff)
  define a where "a = bit_length (nat n)"
  define c where "c = bit_length (nat d)"
  define k where "k = int a - int c"
  have A: "2 ^ (a - 1) \<le> nat n" "nat n < 2 ^ a" "0 < a" using bit_length_bounds [of "nat n"] n unfolding a_def by auto
  have C: "2 ^ (c - 1) \<le> nat d" "nat d < 2 ^ c" "0 < c" using bit_length_bounds [of "nat d"] d unfolding c_def by auto
  have r: "of_int m = (of_nat (nat m) :: rat)" if "0 < m" for m using that by simp
  have "(2 :: rat) ^ (a - 1) \<le> of_int n" "of_int n < (2 :: rat) ^ a" "(2 :: rat) ^ (c - 1) \<le> of_int d" "of_int d < (2 :: rat) ^ c"
    unfolding r [OF n] r [OF d] using A(1,2) C(1,2) by (metis of_nat_le_iff of_nat_less_iff of_nat_numeral of_nat_power)+
  moreover have "(2 :: rat) ^ (a - 1) = 2 powi int a / 2" "(2 :: rat) ^ (c - 1) = 2 powi int c / 2"
    using A(3) C(3) by (simp_all add: power_int_def power_diff)
  ultimately have B: "2 powi int a / 2 \<le> (of_int n :: rat)" "of_int n < (2 powi int a :: rat)"
    "2 powi int c / 2 \<le> (of_int d :: rat)" "of_int d < (2 powi int c :: rat)"
    by (simp_all only: power_int_of_nat)
  have p: "(2 :: rat) powi k = 2 powi int a / 2 powi int c" by (simp add: k_def power_int_diff)
  have p1: "(2 :: rat) powi (k + 1) = 2 * 2 powi int a / 2 powi int c" "(2 :: rat) powi (k - 1) = 2 powi int a / 2 powi int c / 2"
    using p by (simp_all add: power_int_add power_int_diff)
  have pos: "(0 :: rat) < of_int d" "(0 :: rat) < 2 powi int a" "(0 :: rat) < 2 powi int c" "(0 :: rat) < of_int n" using d n by simp_all
  have up: "x < 2 powi (k + 1)"
  proof -
    have "of_int n * 2 powi int c < 2 powi int a * (2 powi int c :: rat)" using B(2) pos(3) by simp
    also have "\<dots> \<le> 2 powi int a * (2 * of_int d)" using B(3) pos(2) by (intro mult_left_mono) linarith+
    finally show ?thesis using pos unfolding x p1 by (simp add: field_simps)
  qed
  have lo: "2 powi (k - 1) \<le> x"
  proof -
    have "2 powi int a / 2 * of_int d \<le> 2 powi int a / 2 * (2 powi int c :: rat)" using B(4) pos(2) by (intro mult_left_mono) linarith+
    also have "\<dots> \<le> of_int n * 2 powi int c" using B(1) pos(3) by (intro mult_right_mono) linarith+
    finally show ?thesis using pos unfolding x p1 by (simp add: field_simps)
  qed
  have i: "ilog2 x = (if 2 powi k \<le> x then k else k - 1)"
    by (simp add: ilog2_def q Let_def k_def a_def c_def)
  show "2 powi ilog2 x \<le> x" "x < 2 powi (ilog2 x + 1)" using up lo by (auto simp: i)
qed

lemma rnd_even_int [simp]: "rnd_even (of_int n) = n"
  by (simp add: rnd_even_def)

lemma power_int_less_iff2: "(2 :: rat) powi a < 2 powi b \<longleftrightarrow> a < b"
  by (metis linorder_neq_iff not_less_iff_gr_or_eq one_less_numeral_iff power_int_strict_increasing semiring_norm(76))

text \<open>A number of at most \<open>p\<close> bits, scaled by a power of two in range, is not changed by rounding.\<close>

lemma round_exact_pos:
  assumes "0 < m" "m < 2 ^ nat p" "0 \<le> p" "emin \<le> e" "of_int m * (2 :: rat) powi e < 2 powi emax"
  shows "round_num p emin emax (of_int m * 2 powi e) = Fin (of_int m * 2 powi e)"
proof -
  let ?x = "of_int m * (2 :: rat) powi e"
  let ?E = "max (ilog2 ?x - (p - 1)) emin"
  have x: "0 < ?x" using assms(1) by simp
  have "of_int m < (2 :: rat) powi p" using assms(2,3) by (simp add: power_int_def)
  then have "?x < 2 powi p * 2 powi e" by simp
  also have "\<dots> = 2 powi (p + e)" by (simp add: power_int_add)
  finally have "2 powi ilog2 ?x < (2 :: rat) powi (p + e)" using ilog2_bounds(1) [OF x] by linarith
  then have "ilog2 ?x < p + e" by (simp only: power_int_less_iff2)
  with assms(4) have E: "?E \<le> e" by simp
  have "?x / 2 powi ?E = of_int m * 2 powi (e - ?E)" by (simp add: power_int_diff)
  also have "\<dots> = of_int (m * 2 ^ nat (e - ?E))" using E by (simp add: power_int_def)
  finally have q: "?x / 2 powi ?E = of_int (m * 2 ^ nat (e - ?E))" .
  then have R: "rnd_even (?x / 2 powi ?E) = m * 2 ^ nat (e - ?E)" by (simp only: rnd_even_int)
  have b: "of_int (m * 2 ^ nat (e - ?E)) * 2 powi ?E = ?x" by (subst q [symmetric]) simp
  have nz: "m * 2 ^ nat (e - ?E) \<noteq> 0" using assms(1) by simp
  have a: "\<bar>?x\<bar> = ?x" "?x \<noteq> 0" "\<not> ?x < 0" using x abs_of_pos [OF x] by (linarith | auto)+
  show ?thesis unfolding round_num_def a(1) Let_def R b using a(2,3) nz assms(1,5) by auto
qed

lemma round_num_neg: "0 < x \<Longrightarrow> round_num p emin emax x = Fin y \<Longrightarrow> 0 < y \<Longrightarrow> round_num p emin emax (- x) = Fin (- y)"
  by (auto simp: round_num_def Let_def split: if_splits)

lemma double_exact:
  assumes "\<bar>m\<bar> \<le> 2 ^ 53" "- 1074 \<le> e" "\<bar>of_int m\<bar> * (2 :: rat) powi e < 2 powi 1024"
  shows "double (of_int m * 2 powi e) = Fin (of_int m * 2 powi e)"
proof -
  have pos: "double (of_int k * 2 powi e) = Fin (of_int k * 2 powi e)"
    if k: "0 < k" "k \<le> 2 ^ 53" "of_int k * (2 :: rat) powi e < 2 powi 1024" for k
  proof (cases "k = 2 ^ 53")
    case True
    have "of_int k * (2 :: rat) powi e = of_int (2 ^ 52) * 2 powi (e + 1)" using True by (simp add: power_int_add)
    then show ?thesis unfolding double_def
      using round_exact_pos [of "2 ^ 52" 53 "- 1074" "e + 1" 1024] assms(2) k(3) by simp
  next
    case False
    with k show ?thesis unfolding double_def using assms(2) by (intro round_exact_pos) auto
  qed
  show ?thesis
  proof (cases "0 < m")
    case True
    with assms show ?thesis by (intro pos) auto
  next
    case False
    show ?thesis
    proof (cases "m = 0")
      case True
      then show ?thesis by (simp add: double_def round_num_def)
    next
      case nz: False
      with False assms have m: "0 < - m" "- m \<le> 2 ^ 53" "of_int (- m) * (2 :: rat) powi e < 2 powi 1024" by auto
      have "of_int m * (2 :: rat) powi e = - (of_int (- m) * 2 powi e)" by simp
      with pos [OF m] m(1) show ?thesis unfolding double_def
        using round_num_neg [of "of_int (- m) * 2 powi e"] by (metis mult_pos_pos of_int_0_less_iff zero_less_numeral zero_less_power_int)
    qed
  qed
qed

lemma double_int: "\<bar>n\<bar> \<le> 2 ^ 53 \<Longrightarrow> double (of_int n) = Fin (of_int n)"
proof -
  assume n: "\<bar>n\<bar> \<le> 2 ^ 53"
  then have "\<bar>of_int n\<bar> \<le> (2 :: rat) ^ 53" by (metis of_int_abs of_int_le_iff of_int_numeral of_int_power)
  also have "\<dots> < 2 powi 1024" by (simp add: power_int_def)
  finally show ?thesis using double_exact [of n 0] n by simp
qed

lemma double_nat: "n \<le> 2 ^ 53 \<Longrightarrow> double (of_nat n) = Fin (of_nat n)"
  using double_int [of "int n"] by simp

text \<open>The powers of ten of the table are exact: \<open>5 ^ 22\<close> has less than 53 bits.\<close>

lemma POW10_exact: "n \<le> 22 \<Longrightarrow> POW10 n = Fin (10 ^ n)"
proof -
  assume n: "n \<le> 22"
  have "(5 :: int) ^ n \<le> 5 ^ 22" using n by (intro power_increasing) auto
  also have "\<dots> \<le> 2 ^ 53" by simp
  finally have b: "\<bar>5 ^ n\<bar> \<le> (2 :: int) ^ 53" by simp
  have e: "of_int (5 ^ n) * (2 :: rat) powi int n = 10 ^ n" by (simp add: power_int_def flip: power_mult_distrib)
  have "(10 :: rat) ^ n \<le> 10 ^ 22" using n by (intro power_increasing) auto
  also have "\<dots> < 2 powi 1024" by (simp add: power_int_def)
  finally have "\<bar>of_int (5 ^ n)\<bar> * (2 :: rat) powi int n < 2 powi 1024" using e by simp
  from double_exact [OF b _ this] show ?thesis unfolding POW10_def e by simp
qed

lemma double_0 [simp]: "double 0 = Fin 0"
  by (simp add: double_def round_num_def)

lemma num_neg_double: "0 < x \<Longrightarrow> num_neg (double x) = double (- x)"
  by (auto simp: double_def round_num_def Let_def)

lemma num_add_Fin [simp]: "num_add (Fin a) (Fin b) = double (a + b)"
  by (auto simp: Let_def)

lemma num_mul_Fin: "0 \<le> a \<Longrightarrow> 0 \<le> b \<Longrightarrow> num_mul (Fin a) (Fin b) = double (a * b)"
  by (auto simp: fin_mul_def signed_zero_def)

lemma num_div_Fin: "0 \<le> a \<Longrightarrow> 0 < b \<Longrightarrow> num_div (Fin a) (Fin b) = double (a / b)"
  by (auto simp: signed_zero_def)

declare num_add.simps [simp del] num_mul.simps [simp del] num_div.simps [simp del]

text \<open>One decimal digit appended: exact while the old value stays below \<open>10 ^ 15\<close>, and a single
  rounding when it has 15 digits.\<close>

lemma mul_ten:
  assumes "n \<le> 10 ^ 15"
  shows "num_mul (Fin (of_nat n)) (Fin 10) = Fin (of_nat (n * 10))"
proof -
  have "\<bar>int (n * 5)\<bar> \<le> 2 ^ 53" using assms by simp
  moreover have "\<bar>of_int (int (n * 5))\<bar> * (2 :: rat) powi 1 < 2 powi 1024"
  proof -
    have "of_nat n \<le> (10 ^ 15 :: rat)" using assms by (metis of_nat_le_iff of_nat_numeral of_nat_power)
    moreover have "(10 ^ 16 :: rat) < 2 powi 1024" by (simp add: power_int_def)
    ultimately show ?thesis by simp
  qed
  ultimately have "double (of_int (int (n * 5)) * 2 powi 1) = Fin (of_int (int (n * 5)) * 2 powi 1)"
    by (intro double_exact) auto
  moreover have "of_int (int (n * 5)) * 2 powi 1 = (of_nat n * 10 :: rat)" by simp
  ultimately show ?thesis by (simp add: num_mul_Fin mult.commute)
qed

lemma append_digit:
  "n \<le> 10 ^ 15 \<Longrightarrow> num_add (num_mul (Fin (of_nat n)) (Fin 10)) (Fin (of_nat d)) = double (of_nat (n * 10 + d))"
  by (simp add: mul_ten del: of_nat_mult)

lemma append_digit_exact:
  "n < 10 ^ 14 \<Longrightarrow> d < 10 \<Longrightarrow> num_add (num_mul (Fin (of_nat n)) (Fin 10)) (Fin (of_nat d)) = Fin (of_nat (n * 10 + d))"
  by (subst append_digit) (simp_all add: double_nat del: of_nat_add of_nat_mult)

subsection \<open>Digits as bytes and as text\<close>

definition dunits :: "nat list \<Rightarrow> jsstr" where
  "dunits ds = map digit_unit ds"

definition dbytes :: "nat list \<Rightarrow> bytes" where
  "dbytes ds = map (\<lambda>d. b8 (48 + d)) ds"

definition decs :: "nat list \<Rightarrow> bool" where
  "decs ds \<longleftrightarrow> list_all (\<lambda>d. d < 10) ds"

lemma decs_simps [simp]: "decs []" "decs (d # ds) \<longleftrightarrow> d < 10 \<and> decs ds" "decs (xs @ ys) \<longleftrightarrow> decs xs \<and> decs ys"
  by (auto simp: decs_def)

lemma length_dunits [simp]: "length (dunits ds) = length ds" "length (dbytes ds) = length ds"
  by (simp_all add: dunits_def dbytes_def)

lemma dbytes_Cons: "dbytes (d # ds) = b8 (48 + d) # dbytes ds" by (simp add: dbytes_def)

lemma dunits_latin1: "decs ds \<Longrightarrow> latin1 (dunits ds) = dbytes ds"
  by (induction ds) (auto simp: latin1_def dunits_def dbytes_def digit_unit_def)

lemma byte_at_mid: "byte_at (xs @ c # ys) (int (length xs)) = Some c"
  by (simp add: byte_at_def)

lemma byte_at_mid': "p = int (length xs) \<Longrightarrow> byte_at (xs @ c # ys) p = Some c"
  by (simp add: byte_at_mid)

lemma unat_b8_digit: "d < 10 \<Longrightarrow> unat (b8 (48 + d)) = 48 + d"
  by simp

lemma unat_b8_digit_uint: "d < 10 \<Longrightarrow> uint (b8 (48 + d)) = 48 + int d"
  using unat_b8_digit [of d] by (metis of_nat_add of_nat_numeral uint_nat)

lemma foldl_digits_mono: "n \<le> foldl (\<lambda>a d. a * 10 + d) n (ds :: nat list)"
proof (induction ds arbitrary: n)
  case (Cons d ds)
  have "n \<le> n * 10 + d" by simp
  also have "\<dots> \<le> foldl (\<lambda>a d. a * 10 + d) (n * 10 + d) ds" by (rule Cons.IH)
  finally show ?case by simp
qed simp

lemma foldl_digits_less: "decs ds \<Longrightarrow> foldl (\<lambda>a d. a * 10 + d) n ds < (n + 1) * 10 ^ length ds"
proof (induction ds arbitrary: n)
  case (Cons d ds)
  then have "foldl (\<lambda>a d. a * 10 + d) (n * 10 + d) ds < (n * 10 + d + 1) * 10 ^ length ds" by simp
  also have "\<dots> \<le> ((n + 1) * 10) * 10 ^ length ds" using Cons.prems by (intro mult_right_mono) auto
  finally show ?case by (simp add: algebra_simps)
qed simp

lemma digits_val_less: "decs ds \<Longrightarrow> digits_val ds < 10 ^ length ds"
  using foldl_digits_less [of ds 0] by simp

lemma digits_val_snoc: "digits_val (ds @ [d]) = digits_val ds * 10 + d" by simp

declare digits_val.simps [simp del]

lemma digits_val_Nil [simp]: "digits_val [] = 0" by (simp add: digits_val.simps)

subsection \<open>The integer parser is Number of the text\<close>

lemma int_digits_exact:
  assumes "decs ds" "foldl (\<lambda>a d. a * 10 + d) n ds < 10 ^ 15"
  shows "int_digits (pre @ dbytes ds @ post) (int (length pre)) (length ds) (Fin (of_nat n))
    = Fin (of_nat (foldl (\<lambda>a d. a * 10 + d) n ds))"
  using assms
proof (induction ds arbitrary: pre n)
  case (Cons d ds)
  have "n * 10 + d < 10 ^ 15" using Cons.prems(2) foldl_digits_mono [of "n * 10 + d" ds] by simp
  then have n: "n < 10 ^ 14" by simp
  have d: "d < 10" using Cons.prems(1) by simp
  have b: "digit_num (pre @ b8 (48 + d) # dbytes ds @ post) (int (length pre)) = Fin (of_nat d)"
    using d by (simp add: digit_num_def byte_at_mid unat_b8_digit_uint)
  have "int_digits (pre @ b8 (48 + d) # dbytes ds @ post) (int (length pre) + 1) (length ds) (Fin (of_nat (n * 10 + d)))
      = Fin (of_nat (foldl (\<lambda>a d. a * 10 + d) (n * 10 + d) ds))"
    using Cons.IH [where pre = "pre @ [b8 (48 + d)]" and n = "n * 10 + d"] Cons.prems
    by (simp add: add.commute [of "int (length pre)"] del: of_nat_add of_nat_mult)
  then show ?case
    by (simp add: dbytes_Cons b append_digit_exact [OF n d] del: of_nat_add of_nat_mult)
qed (simp add: dbytes_def)

lemma int_digits_snoc:
  "int_digits b p (Suc k) x = num_add (num_mul (int_digits b p k x) (Fin 10)) (digit_num b (p + int k))"
proof (induction k arbitrary: p x)
  case (Suc k)
  show ?case by (subst int_digits.simps(2), subst Suc.IH) (simp add: add.assoc)
qed simp

lemma int_digits_double:
  assumes "decs ds" "length ds \<le> 16"
  shows "int_digits (pre @ dbytes ds @ post) (int (length pre)) (length ds) (Fin 0) = double (of_nat (digits_val ds))"
proof (cases ds rule: rev_cases)
  case Nil
  then show ?thesis by simp
next
  case (snoc es d)
  have len: "digits_val es < 10 ^ length es" using assms(1) snoc by (simp add: digits_val_less)
  have l: "length es \<le> 15" using assms(2) snoc by simp
  then have "(10 :: nat) ^ length es \<le> 10 ^ 15" by (intro power_increasing) auto
  with len have v: "digits_val es < 10 ^ 15" by linarith
  have i: "int_digits (pre @ dbytes es @ (b8 (48 + d) # post)) (int (length pre)) (length es) (Fin 0) = Fin (of_nat (digits_val es))"
    using int_digits_exact [of es 0 pre "b8 (48 + d) # post"] assms(1) snoc v by (simp add: digits_val.simps)
  have b: "digit_num (pre @ dbytes es @ b8 (48 + d) # post) (int (length pre) + int (length es)) = Fin (of_nat d)"
    using assms(1) snoc byte_at_mid' [of _ "pre @ dbytes es" "b8 (48 + d)" post]
    by (simp add: digit_num_def unat_b8_digit_uint)
  have e: "dbytes ds = dbytes es @ [b8 (48 + d)]" by (simp add: snoc dbytes_def)
  show ?thesis unfolding e using i b v
    by (simp add: snoc int_digits_snoc append_digit digits_val_snoc del: int_digits.simps of_nat_add of_nat_mult)
qed

subsection \<open>Number of a decimal text\<close>

lemma dunits_units: "decs ds \<Longrightarrow> list_all is_digit (dunits ds)"
  by (induction ds) (auto simp: dunits_def is_digit_def unat_digit_unit)

lemma dunits_small: "c \<in> set (dunits ds) \<Longrightarrow> decs ds \<Longrightarrow> unat c < 256"
  using dunits_units [of ds] by (fastforce simp: list_all_iff is_digit_def)

lemma dunits_vals: "decs ds \<Longrightarrow> map (\<lambda>c. unat c - 48) (dunits ds) = ds"
  by (induction ds) (auto simp: dunits_def unat_digit_unit)

definition no_digit :: "jsstr \<Rightarrow> bool" where
  "no_digit s \<longleftrightarrow> (case s of [] \<Rightarrow> True | c # _ \<Rightarrow> \<not> is_digit c)"

lemma digits_of_app: "decs ds \<Longrightarrow> no_digit s \<Longrightarrow> digits_of (dunits ds @ s) = ds \<and> after_digits (dunits ds @ s) = s"
proof -
  assume ds: "decs ds" and s: "no_digit s"
  have a: "\<forall>c \<in> set (dunits ds). is_digit c" using dunits_units [OF ds] by (simp add: list_all_iff)
  then have "takeWhile is_digit (dunits ds @ s) = dunits ds" "dropWhile is_digit (dunits ds @ s) = s"
    using s by (cases s; simp add: no_digit_def takeWhile_append2 dropWhile_append2 takeWhile_eq_all_conv dropWhile_eq_Nil_conv)+
  with dunits_vals [OF ds] show ?thesis by (simp add: digits_of_def after_digits_def)
qed

text \<open>The decimal texts: an optional minus, digits, an optional fraction, an optional exponent with its sign.
  They are what PostgreSQL prints for integers, numeric and floating-point values.\<close>

definition exp_text :: "(bool \<times> nat list) option \<Rightarrow> jsstr" where
  "exp_text x = (case x of None \<Rightarrow> [] | Some (neg, es) \<Rightarrow> u16 101 # u16 (if neg then 45 else 43) # dunits es)"

definition frac_text :: "nat list \<Rightarrow> jsstr" where
  "frac_text f = (if f = [] then [] else u16 46 # dunits f)"

definition dec_text :: "bool \<Rightarrow> nat list \<Rightarrow> nat list \<Rightarrow> (bool \<times> nat list) option \<Rightarrow> jsstr" where
  "dec_text neg i f x = (if neg then [u16 45] else []) @ dunits i @ frac_text f @ exp_text x"

definition dec_text_ok :: "nat list \<Rightarrow> nat list \<Rightarrow> (bool \<times> nat list) option \<Rightarrow> bool" where
  "dec_text_ok i f x \<longleftrightarrow> i \<noteq> [] \<and> decs i \<and> decs f \<and> (case x of None \<Rightarrow> True | Some (_, es) \<Rightarrow> es \<noteq> [] \<and> decs es)"

definition exp_value :: "(bool \<times> nat list) option \<Rightarrow> int" where
  "exp_value x = (case x of None \<Rightarrow> 0 | Some (neg, es) \<Rightarrow> if neg then - int (digits_val es) else int (digits_val es))"

text \<open>The number the text denotes.\<close>

definition dec_value :: "nat list \<Rightarrow> nat list \<Rightarrow> (bool \<times> nat list) option \<Rightarrow> rat" where
  "dec_value i f x = of_nat (digits_val (i @ f)) * 10 powi (exp_value x - int (length f))"

lemma dec_value_nonneg: "0 \<le> dec_value i f x"
  by (simp add: dec_value_def)

lemma exp_part_text: "dec_text_ok i f x \<Longrightarrow> exp_part (exp_text x) = Some (exp_value x)"
  using digits_of_app [of _ "[]"]
  by (auto simp: dec_text_ok_def exp_part_def exp_text_def exp_value_def sign_of_def no_digit_def Let_def split: option.splits)

lemma decimal_value_text:
  assumes ok: "dec_text_ok i f x"
  shows "decimal_value (dunits i @ frac_text f @ exp_text x) = Some (dec_value i f x)"
proof -
  have nd: "no_digit (frac_text f @ exp_text x)" "no_digit (exp_text x)"
    by (auto simp: no_digit_def frac_text_def exp_text_def is_digit_def split: option.splits)
  have i: "digits_of (dunits i @ frac_text f @ exp_text x) = i" "after_digits (dunits i @ frac_text f @ exp_text x) = frac_text f @ exp_text x"
    using digits_of_app [OF _ nd(1), of i] ok by (auto simp: dec_text_ok_def)
  have f: "frac_digits (frac_text f @ exp_text x) = (f, exp_text x)"
  proof (cases "f = []")
    case True
    then show ?thesis by (auto simp: frac_digits_def frac_text_def exp_text_def split: option.splits)
  next
    case False
    then show ?thesis using digits_of_app [OF _ nd(2), of f] ok by (auto simp: frac_digits_def frac_text_def dec_text_ok_def)
  qed
  show ?thesis using ok
    by (simp add: decimal_value_def i f exp_part_text [OF ok] dec_value_def) (simp add: dec_text_ok_def)
qed

lemma js_space_digit: "is_digit c \<Longrightarrow> \<not> js_space c"
  by (auto simp: is_digit_def js_space_def Let_def)

lemma dec_text_last:
  assumes "dec_text_ok i f x"
  shows "is_digit (last (dunits i @ frac_text f @ exp_text x))" "dunits i @ frac_text f @ exp_text x \<noteq> []"
proof -
  have l: "is_digit (last (dunits ds))" "dunits ds \<noteq> []" if "decs ds" "ds \<noteq> []" for ds
    using dunits_units [OF that(1)] that(2) last_in_set [of "dunits ds"] by (auto simp: list_all_iff dunits_def simp del: last_map)
  show "is_digit (last (dunits i @ frac_text f @ exp_text x))" using assms l
    by (auto simp: dec_text_ok_def frac_text_def exp_text_def last_append split: option.splits)
  show "dunits i @ frac_text f @ exp_text x \<noteq> []" using assms l by (auto simp: dec_text_ok_def)
qed

lemma dec_text_first:
  assumes "dec_text_ok i f x"
  obtains c cs where "dunits i @ frac_text f @ exp_text x = c # cs" "is_digit c"
    "case cs of [] \<Rightarrow> True | d # _ \<Rightarrow> radix_of d = None"
proof -
  obtain d ds where i: "i = d # ds" using assms by (cases i) (auto simp: dec_text_ok_def)
  have d: "is_digit (digit_unit d)" using assms i by (simp add: dec_text_ok_def is_digit_def unat_digit_unit)
  have "radix_of (digit_unit e) = None" if "e < 10" for e using that by (simp add: radix_of_def unat_digit_unit)
  then have "case dunits ds @ frac_text f @ exp_text x of [] \<Rightarrow> True | e # _ \<Rightarrow> radix_of e = None"
    using assms i by (cases ds) (auto simp: dec_text_ok_def dunits_def frac_text_def exp_text_def radix_of_def split: option.splits)
  with d show ?thesis by (intro that [of "digit_unit d" "dunits ds @ frac_text f @ exp_text x"]) (simp_all add: i dunits_def)
qed

lemma js_trim_id: "s \<noteq> [] \<Longrightarrow> \<not> js_space (hd s) \<Longrightarrow> \<not> js_space (last s) \<Longrightarrow> js_trim s = s"
proof -
  assume s: "s \<noteq> []" "\<not> js_space (hd s)" "\<not> js_space (last s)"
  then have "dropWhile js_space s = s" by (cases s) auto
  moreover have "dropWhile js_space (rev s) = rev s" using s(1,3) by (cases s rule: rev_cases) auto
  ultimately show ?thesis by (simp add: js_trim_def)
qed

lemma dec_text_scan:
  assumes ok: "dec_text_ok i f x"
  shows "js_trim (dec_text neg i f x) = dec_text neg i f x" "radix_value (dec_text neg i f x) = None"
    "sign_of (dec_text neg i f x) = (neg, dunits i @ frac_text f @ exp_text x)" "dec_text neg i f x \<noteq> []"
    "dunits i @ frac_text f @ exp_text x \<noteq> asc ''Infinity''"
proof -
  let ?u = "dunits i @ frac_text f @ exp_text x"
  obtain c cs where u: "?u = c # cs" "is_digit c" and cs: "case cs of [] \<Rightarrow> True | d # _ \<Rightarrow> radix_of d = None"
    using ok by (rule dec_text_first)
  have c: "48 \<le> unat c" "unat c \<le> 57" using u(2) by (simp_all add: is_digit_def)
  have lst: "\<not> js_space (last ?u)" using dec_text_last(1) [OF ok] by (rule js_space_digit)
  show "js_trim (dec_text neg i f x) = dec_text neg i f x"
  proof (rule js_trim_id)
    show "\<not> js_space (hd (dec_text neg i f x))" using js_space_digit [OF u(2)] u(1)
      by (simp add: dec_text_def js_space_def)
    show "\<not> js_space (last (dec_text neg i f x))" using lst u(1) by (simp add: dec_text_def)
  qed (use u(1) in \<open>simp add: dec_text_def\<close>)
  show "radix_value (dec_text neg i f x) = None"
    using cs c by (auto simp: radix_value_def dec_text_def u(1) split: list.splits option.splits)
  show "sign_of (dec_text neg i f x) = (neg, ?u)" using c by (auto simp: sign_of_def dec_text_def u(1))
  show "dec_text neg i f x \<noteq> []" using u(1) by (simp add: dec_text_def)
  show "?u \<noteq> asc ''Infinity''" using c unfolding u(1) by (auto simp: asc_def)
qed

lemma js_number_text:
  assumes ok: "dec_text_ok i f x"
  shows "js_number (dec_text neg i f x) = (if neg then num_neg (double (dec_value i f x)) else double (dec_value i f x))"
  unfolding js_number_def dec_text_scan(1-3) [OF ok] Let_def
  using dec_text_scan(4,5) [OF ok] by (simp add: unsigned_number_def decimal_value_text [OF ok])

lemma dec_int_text: "dec_int n = dec_text (n < 0) (dec_digits (nat \<bar>n\<bar>)) [] None"
  by (simp add: dec_int_def dec_text_def frac_text_def exp_text_def dec_nat_def dunits_def)

lemma decs_dec_digits: "decs (dec_digits n)"
  by (auto simp: decs_def list_all_iff dest: dec_digits_less)

lemma dec_int_ok: "dec_text_ok (dec_digits n) [] None"
  by (simp add: dec_text_ok_def decs_dec_digits)

lemma dec_int_value: "dec_value (dec_digits n) [] None = of_nat n"
  by (simp add: dec_value_def exp_value_def digits_val.simps digits_val_dec_digits)

lemma js_number_int: "js_number (dec_int n) = double (of_int n)"
proof -
  have "num_neg (double (of_nat (nat \<bar>n\<bar>))) = double (of_int n)" if "n < 0"
    using that num_neg_double [of "of_nat (nat \<bar>n\<bar>)"] by simp
  then show ?thesis by (simp add: dec_int_text js_number_text [OF dec_int_ok] dec_int_value del: of_nat_nat)
      (simp add: of_nat_nat)
qed

lemma from_latin1_latin1: "list_all (\<lambda>c. unat c < 256) s \<Longrightarrow> from_latin1 (latin1 s) = s"
proof (induction s)
  case (Cons c s)
  have "unat (ucast (b8 (unat c)) :: unit16) = unat c" using Cons.prems by (simp add: unsigned_ucast_eq take_bit_eq_mod)
  then have "ucast (b8 (unat c)) = c" by (simp only: word_unat_eq_iff)
  with Cons show ?case by (simp add: from_latin1_def)
qed (simp add: from_latin1_def)

lemma slice_cell: "n = length t \<Longrightarrow> slice_bytes (pre @ t @ post) (int (length pre)) (int (length pre) + int n) = Inr t"
  by (simp add: slice_bytes_def nat_add_distrib)

lemma lat1_cell:
  "list_all (\<lambda>c. unat c < 256) s \<Longrightarrow> lat1 (pre @ latin1 s @ post) (int (length pre)) (int (length s)) = Inr s"
  unfolding lat1_def by (subst slice_cell) (simp_all add: from_latin1_latin1)

lemma ascii_units: "ascii s \<Longrightarrow> list_all (\<lambda>c. unat c < 256) s"
  by (auto simp: ascii_def list_all_iff)

lemma length_dec_nat_digits [simp]: "length (dec_nat n) = length (dec_digits n)"
  by (simp add: dec_nat_def)

lemma latin1_dec_nat: "latin1 (dec_nat n) = dbytes (dec_digits n)"
  using dunits_latin1 [OF decs_dec_digits] by (simp add: dec_nat_def dunits_def)

text \<open>Every integer text, whatever its length: \<open>txtInt\<close> is \<open>Number\<close> of the text, the double nearest to the
  integer, and the integer itself up to \<open>2 ^ 53\<close>.\<close>

lemma txtInt_exact:
  "txtInt (pre @ latin1 (dec_int n) @ post) (int (length pre)) (int (length (dec_int n))) = Inr (js_number (dec_int n))"
proof (cases "16 < length (dec_int n)")
  case True
  then show ?thesis by (simp add: txtInt_def lat1_cell ascii_units)
next
  case short: False
  show ?thesis
  proof (cases "n < 0")
    case True
    let ?ds = "dec_digits (nat (- n))"
    have t: "dec_int n = u16 45 # dec_nat (nat (- n))" using True by (simp add: dec_int_def)
    have l: "length ?ds \<le> 16" using short by (simp add: t)
    have b: "byte_is (pre @ b8 45 # dbytes ?ds @ post) (int (length pre)) {45}" by (simp add: byte_is_def byte_at_mid)
    have "int_digits (pre @ b8 45 # dbytes ?ds @ post) (int (length pre) + 1) (length ?ds) (Fin 0) = double (of_nat (nat (- n)))"
      using int_digits_double [OF decs_dec_digits l, of "pre @ [b8 45]" post]
      by (simp add: digits_val.simps digits_val_dec_digits add.commute [of "int (length pre)"] del: of_nat_nat)
    moreover have "num_neg (double (of_nat (nat (- n)))) = double (of_int n)"
      using True num_neg_double [of "of_nat (nat (- n))"] by simp
    ultimately show ?thesis using short b
      by (simp add: js_number_int) (simp add: t txtInt_def latin1_dec_nat Let_def)
  next
    case False
    let ?ds = "dec_digits (nat n)"
    have t: "dec_int n = dec_nat (nat n)" using False by (simp add: dec_int_def)
    have l: "length ?ds \<le> 16" using short by (simp add: t)
    obtain d ds where ds: "?ds = d # ds" "d < 10" using decs_dec_digits [of "nat n"] by (cases ?ds) auto
    have b: "\<not> byte_is (pre @ dbytes ?ds @ post) (int (length pre)) {45}"
      using ds by (simp add: byte_is_def byte_at_mid dbytes_Cons unat_b8_digit)
    show ?thesis using short b False int_digits_double [OF decs_dec_digits l, of pre post]
      by (simp add: js_number_int)
        (simp add: t txtInt_def latin1_dec_nat Let_def digits_val.simps digits_val_dec_digits)
  qed
qed

subsection \<open>The floating-point parser is Number of the text\<close>

text \<open>What the significand loop knows after the digits \<open>ds\<close>, of which \<open>nf\<close> followed the point: more than 15
  significant digits, or their exact value.\<close>

definition sig_digits :: "nat list \<Rightarrow> nat list" where
  "sig_digits ds = dropWhile (\<lambda>d. d = 0) ds"

definition scanned :: "f64_scan \<Rightarrow> nat list \<Rightarrow> nat \<Rightarrow> bool" where
  "scanned st ds nf \<longleftrightarrow>
     f_hard st \<or> (length (sig_digits ds) \<le> 15 \<and> f_sig st = Fin (of_nat (digits_val ds)) \<and> f_nd st = length (sig_digits ds) \<and> f_fd st = nf)"

lemma sig_digits_val: "digits_val (sig_digits ds) = digits_val ds"
  by (induction ds) (simp_all add: sig_digits_def digits_val.simps)

lemma sig_digits_Nil: "sig_digits ds = [] \<Longrightarrow> digits_val ds = 0"
  using sig_digits_val [of ds] by simp

lemma sig_digits_decs: "decs ds \<Longrightarrow> decs (sig_digits ds)"
  by (auto simp: decs_def sig_digits_def list_all_iff dest: set_dropWhileD)

lemma digits_val_pos: "sig_digits ds \<noteq> [] \<Longrightarrow> 0 < digits_val ds"
proof -
  assume s: "sig_digits ds \<noteq> []"
  then obtain d es where e: "sig_digits ds = d # es" by (cases "sig_digits ds") auto
  then have "d \<noteq> 0" unfolding sig_digits_def by (metis (full_types) dropWhile_eq_Cons_conv)
  then have "0 < digits_val (sig_digits ds)" using foldl_digits_mono [of d es] by (simp add: e digits_val.simps)
  then show ?thesis by (simp only: sig_digits_val)
qed

lemma sig_digits_snoc: "sig_digits (ds @ [d]) = (if sig_digits ds = [] \<and> d = 0 then [] else sig_digits ds @ [d])"
  by (induction ds) (auto simp: sig_digits_def)

lemma sig_step_digit:
  assumes "scanned st ds nf" "decs ds" "d < 10"
  shows "scanned (sig_step (48 + d) st) (ds @ [d]) (nf + (if f_dot st then 1 else 0)) \<and> f_dot (sig_step (48 + d) st) = f_dot st"
proof (cases "f_hard st")
  case True
  then show ?thesis using assms(3) by (auto simp: scanned_def sig_step_def)
next
  case False
  with assms(1) have st: "length (sig_digits ds) \<le> 15" "f_sig st = Fin (of_nat (digits_val ds))" "f_nd st = length (sig_digits ds)" "f_fd st = nf"
    by (auto simp: scanned_def)
  show ?thesis
  proof (cases "sig_digits ds = [] \<and> d = 0")
    case True
    then have "digits_val ds = 0" by (simp add: sig_digits_Nil)
    with True st False show ?thesis by (simp add: scanned_def sig_step_def sig_digits_snoc digits_val_snoc)
  next
    case nz: False
    have z: "\<not> (f_sig st \<in> {Fin 0, NegZ} \<and> 48 + d = 48)" using nz digits_val_pos [of ds] by (auto simp: st(2))
    show ?thesis
    proof (cases "f_nd st < 15")
      case True
      have "digits_val (sig_digits ds) < 10 ^ length (sig_digits ds)" using sig_digits_decs [OF assms(2)] by (rule digits_val_less)
      also have "\<dots> \<le> 10 ^ 14" using True st(3) by (intro power_increasing) auto
      finally have v: "digits_val ds < 10 ^ 14" by (simp only: sig_digits_val)
      have a: "num_add (num_mul (f_sig st) (Fin 10)) (Fin (of_int (int (48 + d) - 48))) = Fin (of_nat (digits_val (ds @ [d])))"
      proof -
        have "of_int (int (48 + d) - 48) = (of_nat d :: rat)" by simp
        then show ?thesis using append_digit_exact [OF v assms(3)] by (simp only: st(2) digits_val_snoc)
      qed
      have s: "sig_step (48 + d) st = st\<lparr>f_sig := Fin (of_nat (digits_val (ds @ [d]))), f_nd := f_nd st + 1, f_fd := (if f_dot st then f_fd st + 1 else f_fd st)\<rparr>"
        using z True assms(3) unfolding sig_step_def a by (simp only: if_False if_True) simp
      have "sig_digits (ds @ [d]) = sig_digits ds @ [d]" using nz by (auto simp: sig_digits_snoc)
      then show ?thesis unfolding s using True st by (simp add: scanned_def)
    next
      case no: False
      then have "sig_step (48 + d) st = st\<lparr>f_hard := True\<rparr>" using z assms(3) unfolding sig_step_def by (simp only: if_False) simp
      then show ?thesis by (simp add: scanned_def)
    qed
  qed
qed

lemma sig_loop_digits:
  assumes "decs ds" "decs es" "scanned st es nf"
  shows "\<exists>st'. sig_loop (pre @ dbytes ds @ post) (int (length pre)) (length ds + k) st
      = sig_loop (pre @ dbytes ds @ post) (int (length pre) + int (length ds)) k st' \<and>
    scanned st' (es @ ds) (nf + (if f_dot st then length ds else 0)) \<and> f_dot st' = f_dot st"
  using assms
proof (induction ds arbitrary: pre es st nf)
  case (Cons d ds)
  have d: "d < 10" "decs ds" using Cons.prems(1) by simp_all
  let ?st = "sig_step (48 + d) st"
  have s: "scanned ?st (es @ [d]) (nf + (if f_dot st then 1 else 0))" "f_dot ?st = f_dot st"
    using sig_step_digit [OF Cons.prems(3,2) d(1)] by blast+
  from Cons.IH [OF d(2) _ s(1), where pre = "pre @ [b8 (48 + d)]"] Cons.prems(2) d(1)
  obtain st' where st': "sig_loop (pre @ b8 (48 + d) # dbytes ds @ post) (int (length pre) + 1) (length ds + k) ?st
      = sig_loop (pre @ b8 (48 + d) # dbytes ds @ post) (int (length pre) + 1 + int (length ds)) k st'"
    "scanned st' (es @ d # ds) (nf + (if f_dot st then 1 else 0) + (if f_dot st then length ds else 0))" "f_dot st' = f_dot st"
    unfolding s(2) by (auto simp: add.commute [of 1])
  have "sig_loop (pre @ b8 (48 + d) # dbytes ds @ post) (int (length pre)) (Suc (length ds + k)) st
      = sig_loop (pre @ b8 (48 + d) # dbytes ds @ post) (int (length pre) + 1) (length ds + k) ?st"
    using d(1) by (simp add: byte_at_mid unat_b8_digit)
  with st' show ?case by (intro exI [of _ st']) (simp add: dbytes_Cons algebra_simps split: if_splits)
qed (auto simp: dbytes_def)

lemma exp_loop_digits:
  assumes "decs ds"
  shows "exp_loop (pre @ dbytes ds @ post) (int (length pre)) (length ds) (int n) = Some (int (foldl (\<lambda>a d. a * 10 + d) n ds))"
  using assms
proof (induction ds arbitrary: pre n)
  case (Cons d ds)
  then show ?case using Cons.IH [where pre = "pre @ [b8 (48 + d)]" and n = "n * 10 + d"]
    by (simp add: dbytes_Cons byte_at_mid unat_b8_digit add.commute [of "int (length pre)"] algebra_simps)
qed simp

lemma sig_loop_end: "sig_loop b p 0 st = (st, p)" by simp

lemma sig_loop_stop:
  "byte_at b p = Some c \<Longrightarrow> unat c \<noteq> 46 \<Longrightarrow> unat c < 48 \<or> 57 < unat c \<Longrightarrow> sig_loop b p k st = (st, p)"
  by (cases k) auto

text \<open>The tail of the text: nothing or an exponent; \<open>exp_scan\<close> reads it, and the loop stops there.\<close>

lemma latin1_exp_text:
  "dec_text_ok i f x \<Longrightarrow> latin1 (exp_text x) = (case x of None \<Rightarrow> [] | Some (neg, es) \<Rightarrow> b8 101 # b8 (if neg then 45 else 43) # dbytes es)"
  by (auto simp: exp_text_def dec_text_ok_def dunits_latin1 split: option.splits)

lemma exp_scan_text:
  assumes ok: "dec_text_ok i f x" and b: "b = pre @ latin1 (exp_text x) @ post"
  shows "exp_scan b (int (length pre)) (int (length pre) + int (length (exp_text x))) = Some (exp_value x)"
proof (cases x)
  case None
  have "exp_loop b q (nat (int (length pre) - q)) 0 = Some 0" if "int (length pre) \<le> q" for q using that by simp
  then show ?thesis using None by (simp add: exp_scan_def exp_text_def exp_value_def Let_def)
next
  case (Some y)
  obtain neg es where y: "y = (neg, es)" by (cases y)
  have es: "decs es" using ok Some y by (simp add: dec_text_ok_def)
  have B: "b = pre @ b8 101 # b8 (if neg then 45 else 43) # dbytes es @ post"
    using latin1_exp_text [OF ok] by (simp add: b Some y)
  have at: "byte_is b (int (length pre)) {101, 69}" by (simp add: B byte_is_def byte_at_mid)
  have sg: "byte_at b (int (length pre) + 1) = Some (b8 (if neg then 45 else 43))"
  proof -
    have "byte_at ((pre @ [b8 101]) @ b8 (if neg then 45 else 43) # dbytes es @ post) (int (length pre) + 1) = Some (b8 (if neg then 45 else 43))"
      by (rule byte_at_mid') simp
    then show ?thesis by (simp only: B append_assoc append_Cons append_Nil)
  qed
  have l: "exp_loop b (int (length pre) + 2) (length es) 0 = Some (int (digits_val es))"
    using exp_loop_digits [OF es, of "pre @ [b8 101, b8 (if neg then 45 else 43)]" post 0]
    by (simp add: B digits_val.simps add.commute [of "int (length pre)"])
  have n: "int (length (exp_text x)) = int (length es) + 2" by (simp add: Some y exp_text_def)
  show ?thesis unfolding n using at sg l by (simp add: exp_scan_def byte_is_def [of b "_ + 1"] Some y exp_value_def Let_def)
qed

lemma sig_loop_tail:
  assumes ok: "dec_text_ok i f x" and b: "b = pre @ latin1 (exp_text x) @ post"
  shows "sig_loop b (int (length pre)) (length (exp_text x)) st = (st, int (length pre))"
proof (cases x)
  case (Some y)
  then show ?thesis using latin1_exp_text [OF ok]
    by (intro sig_loop_stop [of _ _ "b8 101"]) (auto simp: b byte_at_mid split: prod.splits)
qed (simp add: exp_text_def)

lemma scan0_scanned: "scanned scan0 [] 0"
  by (simp add: scanned_def scan0_def sig_digits_def)

lemma sig_loop_text:
  assumes ok: "dec_text_ok i f x" and b: "b = pre @ latin1 (dunits i @ frac_text f @ exp_text x) @ post"
  shows "\<exists>st. sig_loop b (int (length pre)) (length (dunits i @ frac_text f @ exp_text x)) scan0
      = (st, int (length pre) + int (length (dunits i @ frac_text f))) \<and> scanned st (i @ f) (length f)"
proof -
  have d: "decs i" "decs f" using ok by (simp_all add: dec_text_ok_def)
  have B: "b = pre @ dbytes i @ latin1 (frac_text f) @ latin1 (exp_text x) @ post" using d by (simp add: b dunits_latin1)
  let ?k = "length (frac_text f) + length (exp_text x)"
  from sig_loop_digits [OF d(1) _ scan0_scanned, of pre "latin1 (frac_text f) @ latin1 (exp_text x) @ post" ?k]
  obtain s1 where s1: "sig_loop b (int (length pre)) (length i + ?k) scan0 = sig_loop b (int (length pre) + int (length i)) ?k s1"
    "scanned s1 i 0" "\<not> f_dot s1"
    by (auto simp: B scan0_def)
  show ?thesis
  proof (cases "f = []")
    case True
    have "sig_loop b (int (length (pre @ dbytes i))) (length (exp_text x)) s1 = (s1, int (length (pre @ dbytes i)))"
      by (rule sig_loop_tail [OF ok]) (simp add: B True frac_text_def)
    with s1 True show ?thesis by (intro exI [of _ s1]) (simp add: frac_text_def)
  next
    case False
    have bf: "b = (pre @ dbytes i @ [b8 46]) @ dbytes f @ latin1 (exp_text x) @ post"
      using False d by (simp add: B frac_text_def dunits_latin1)
    have pt: "byte_at b (int (length pre) + int (length i)) = Some (b8 46)"
      using byte_at_mid' [of _ "pre @ dbytes i" "b8 46"] by (simp add: bf)
    let ?s = "s1\<lparr>f_dot := True\<rparr>"
    have "scanned ?s i 0" using s1(2) by (simp add: scanned_def)
    from sig_loop_digits [OF d(2,1) this, of "pre @ dbytes i @ [b8 46]" "latin1 (exp_text x) @ post" "length (exp_text x)"]
    obtain s2 where s2: "sig_loop b (int (length pre) + int (length i) + 1) (length f + length (exp_text x)) ?s
        = sig_loop b (int (length pre) + int (length i) + 1 + int (length f)) (length (exp_text x)) s2"
      "scanned s2 (i @ f) (length f)"
      unfolding bf [symmetric] by (auto simp: add.assoc add.commute [of 1])
    have "sig_loop b (int (length (pre @ dbytes i @ [b8 46] @ dbytes f))) (length (exp_text x)) s2
        = (s2, int (length (pre @ dbytes i @ [b8 46] @ dbytes f)))"
      by (rule sig_loop_tail [OF ok]) (simp add: bf)
    then have e: "sig_loop b (int (length pre) + int (length i) + 1 + int (length f)) (length (exp_text x)) s2
        = (s2, int (length pre) + int (length i) + 1 + int (length f))"
      by (simp add: algebra_simps)
    have "?k = Suc (length f + length (exp_text x))" using False by (simp add: frac_text_def)
    then have "sig_loop b (int (length pre) + int (length i)) ?k s1
        = sig_loop b (int (length pre) + int (length i) + 1) (length f + length (exp_text x)) ?s"
      using pt by (simp add: sig_step_def)
    with s1(1) s2 e False show ?thesis by (intro exI [of _ s2]) (simp add: frac_text_def algebra_simps)
  qed
qed

lemma finish_exact:
  assumes sc: "scanned st (i @ f) (length f)" and s: "lat1 b o1 l = Inr (dec_text neg i f x)" and ok: "dec_text_ok i f x"
  shows "f64_finish b o1 l neg st (Some (exp_value x)) = Inr (js_number (dec_text neg i f x))"
proof -
  let ?eff = "exp_value x - int (length f)"
  show ?thesis
  proof (cases "f_hard st \<or> 22 < exp_value x - int (f_fd st) \<or> exp_value x - int (f_fd st) < - 22")
    case True
    then show ?thesis by (auto simp: f64_finish_def s Let_def)
  next
    case False
    with sc have st: "f_sig st = Fin (of_nat (digits_val (i @ f)))" "f_fd st = length f" by (auto simp: scanned_def)
    have "(if 0 \<le> ?eff then num_mul (f_sig st) (POW10 (nat ?eff)) else num_div (f_sig st) (POW10 (nat (- ?eff)))) = double (dec_value i f x)"
    proof (cases "0 \<le> ?eff")
      case True
      then have "POW10 (nat ?eff) = Fin (10 ^ nat ?eff)" using False st(2) by (intro POW10_exact) auto
      with True show ?thesis by (simp add: st num_mul_Fin dec_value_def power_int_def)
    next
      case neg: False
      then have "POW10 (nat (- ?eff)) = Fin (10 ^ nat (- ?eff))" using False st(2) by (intro POW10_exact) auto
      moreover have "10 powi ?eff = (1 / 10 ^ nat (- ?eff) :: rat)"
        using neg by (simp only: power_int_def if_False inverse_eq_divide power_one_over)
      ultimately show ?thesis using neg num_div_Fin [of "of_nat (digits_val (i @ f))" "10 ^ nat (- ?eff)"]
        by (simp only: st dec_value_def if_False) simp
    qed
    then show ?thesis using False by (simp add: f64_finish_def st Let_def js_number_text [OF ok])
  qed
qed

lemma txtF64_exact:
  assumes ok: "dec_text_ok i f x"
  shows "txtF64 (pre @ latin1 (dec_text neg i f x) @ post) (int (length pre)) (int (length (dec_text neg i f x)))
    = Inr (js_number (dec_text neg i f x))"
proof -
  let ?t = "dec_text neg i f x" and ?u = "dunits i @ frac_text f @ exp_text x"
  define b where "b = pre @ latin1 ?t @ post"
  define pre' where "pre' = pre @ (if neg then [b8 45] else [])"
  have B: "b = pre' @ latin1 ?u @ post" by (simp add: b_def pre'_def dec_text_def)
  have len: "int (length pre) + int (length ?t) = int (length pre') + int (length ?u)" by (simp add: pre'_def dec_text_def)
  have asc: "list_all (\<lambda>c. unat c < 256) ?t"
    using ok dunits_small
    by (auto simp: dec_text_def frac_text_def exp_text_def dec_text_ok_def list_all_iff split: option.splits)
  obtain d ds where i: "i = d # ds" "d < 10" using ok by (cases i) (auto simp: dec_text_ok_def)
  have h: "byte_at b (int (length pre')) = Some (b8 (48 + d))"
    using i ok by (simp add: B dunits_latin1 dec_text_ok_def dbytes_Cons byte_at_mid)
  have n: "byte_is b (int (length pre)) {45} = neg" "byte_is b (int (length pre)) {45, 43} = neg"
    using h i(2) by (auto simp: byte_is_def pre'_def b_def dec_text_def byte_at_mid)
  have p: "(if byte_is b (int (length pre)) {45, 43} then int (length pre) + 1 else int (length pre)) = int (length pre')"
    by (simp add: n pre'_def)
  have c: "\<not> byte_is b (int (length pre')) {78, 110}" "\<not> byte_is b (int (length pre')) {73, 105}"
    using h i(2) by (auto simp: byte_is_def)
  obtain st where st: "sig_loop b (int (length pre')) (length ?u) scan0 = (st, int (length pre') + int (length (dunits i @ frac_text f)))"
    "scanned st (i @ f) (length f)"
    using sig_loop_text [OF ok B] by blast
  have ex: "exp_scan b (int (length pre') + int (length (dunits i @ frac_text f))) (int (length pre') + int (length ?u)) = Some (exp_value x)"
    using exp_scan_text [OF ok, of b "pre' @ latin1 (dunits i @ frac_text f)" post] by (simp add: B algebra_simps)
  have "lat1 b (int (length pre)) (int (length ?t)) = Inr ?t" unfolding b_def by (rule lat1_cell [OF asc])
  from finish_exact [OF st(2) this ok] show ?thesis unfolding b_def [symmetric] txtF64_def len Let_def p
    using c by (simp only: n if_False) (simp add: st(1) ex del: length_append)
qed

text \<open>C39: reading a number straight from the bytes of a cell gives exactly \<open>Number\<close> of its text, that is
  the double nearest to the decimal value, in both engines and wherever the cell lies in the row: for every decimal
  text PostgreSQL prints, with fraction and exponent, and for every integer.\<close>

theorem text_numbers_exact:
  assumes "dec_text_ok i f x" and "t = dec_text neg i f x" and "s = dec_int n"
  shows "txtF64 (pre @ latin1 t @ post) (int (length pre)) (int (length t)) = Inr (js_number t) \<and>
    f64FromBytes (pre @ latin1 t @ post) (int (length pre)) (int (length t)) = Inr (js_number t) \<and>
    js_number t = (if neg then num_neg (double (dec_value i f x)) else double (dec_value i f x)) \<and>
    txtInt (pre @ latin1 s @ post) (int (length pre)) (int (length s)) = Inr (double (of_int n)) \<and>
    intFromBytes (pre @ latin1 s @ post) (int (length pre)) (int (length s)) = Inr (double (of_int n))"
  using assms by (simp add: txtF64_exact f64FromBytes_txtF64 intFromBytes_txtInt txtInt_exact js_number_int js_number_text)

theorem text_numbers_exact_witness:
  "txtF64 (latin1 (dec_text True [1, 2] [5] (Some (True, [0, 3])))) 0 9 =
     Inr (num_neg (double (125 * 10 powi - 4)))"
  using text_numbers_exact [OF _ refl refl, of "[1, 2]" "[5]" "Some (True, [0, 3])" "[]" True "[]" 0]
  by (simp add: dec_text_ok_def dec_text_def exp_text_def frac_text_def dec_value_def exp_value_def digits_val.simps)

end
