(* ===== verification/Json_Text.thy ===== *)
theory Json_Text
  imports Decode_Numbers "HOL-Library.Sublist"
begin

section \<open>JSON text: JSON.parse, exact integers (src/decode.ts, src/jsonparse.ts)\<close>

text \<open>
  The values the decoders return, \<open>JSON.parse\<close> with the source text of numbers passed to a
  function (the reviver's \<open>ctx.source\<close>), and on top of it the json decoders that keep integers
  beyond \<open>2 ^ 53\<close> exact: the reviver, the regular expression that decides whether it is needed,
  and the byte parser used where \<open>ctx.source\<close> does not exist. The parser of the
  library takes fuel; the length of the text is enough. An object is the list of its properties
  in insertion order.
\<close>

datatype dval =
    DNull
  | DBool bool
  | DNum jnum
  | DBig int
  | DStr jsstr
  | DDate "int option"
  | DBuf bytes
  | DF32 "jnum list"
  | DArr "dval list"
  | DObj "(jsstr \<times> dval) list"
  | DUser nat

type_synonym dres = "js_error + dval"

definition syntax_error :: "js_error + 'a" where
  "syntax_error = Inl (Thrown ''SyntaxError'')"

text \<open>\<open>o[k] = v\<close> of an own property, \<open>__proto__\<close> included.\<close>

fun obj_set :: "(jsstr \<times> dval) list \<Rightarrow> jsstr \<Rightarrow> dval \<Rightarrow> (jsstr \<times> dval) list" where
  "obj_set [] k v = [(k, v)]"
| "obj_set ((k', v') # o1) k v = (if k' = k then (k, v) # o1 else (k', v') # obj_set o1 k v)"

subsection \<open>BigInt(text)\<close>

definition js_bigint :: "jsstr \<Rightarrow> js_error + int" where
  "js_bigint s =
     (let t = js_trim s; (neg, r) = sign_of t in
      if t = [] then Inr 0
      else case radix_value t of
        Some n \<Rightarrow> Inr (int n)
      | None \<Rightarrow>
          if digits_of r \<noteq> [] \<and> after_digits r = []
          then Inr (if neg then - int (digits_val (digits_of r)) else int (digits_val (digits_of r)))
          else syntax_error)"

subsection \<open>JSON.parse\<close>

definition json_space :: "unit16 \<Rightarrow> bool" where
  "json_space c \<longleftrightarrow> unat c \<in> {9, 10, 13, 32}"

definition skip_ws :: "jsstr \<Rightarrow> jsstr" where
  "skip_ws s = dropWhile json_space s"

definition hex_val :: "jsstr \<Rightarrow> nat option" where
  "hex_val s = (if length s = 4 \<and> list_all (\<lambda>c. radix_digit c < 16) s
     then Some (foldl (\<lambda>a c. a * 16 + radix_digit c) 0 s) else None)"

definition simple_escape :: "nat \<Rightarrow> nat option" where
  "simple_escape n = map_of [(34, 34), (92, 92), (47, 47), (98, 8), (102, 12), (110, 10), (114, 13), (116, 9)] n"

text \<open>The characters of a string up to its closing quote, and the rest.\<close>

function json_string :: "jsstr \<Rightarrow> (jsstr \<times> jsstr) option" where
  "json_string s = (case s of
       [] \<Rightarrow> None
     | c # cs \<Rightarrow>
         if unat c = 34 then Some ([], cs)
         else if unat c < 32 then None
         else if unat c \<noteq> 92 then map_option (\<lambda>(t, r). (c # t, r)) (json_string cs)
         else case cs of
           [] \<Rightarrow> None
         | d # ds \<Rightarrow>
             if unat d = 117 then
               (case hex_val (take 4 ds) of
                  Some n \<Rightarrow> map_option (\<lambda>(t, r). (u16 n # t, r)) (json_string (drop 4 ds))
                | None \<Rightarrow> None)
             else (case simple_escape (unat d) of
                  Some n \<Rightarrow> map_option (\<lambda>(t, r). (u16 n # t, r)) (json_string ds)
                | None \<Rightarrow> None))"
  by pat_completeness auto
termination by (relation "measure length") auto

declare json_string.simps [simp del]

text \<open>A number: its token and the rest.\<close>

definition int_token :: "jsstr \<Rightarrow> (jsstr \<times> jsstr) option" where
  "int_token s = (case s of
       [] \<Rightarrow> None
     | c # cs \<Rightarrow> if unat c = 48 then Some ([c], cs)
         else if is_digit c then Some (takeWhile is_digit s, dropWhile is_digit s) else None)"

definition frac_token :: "jsstr \<Rightarrow> (jsstr \<times> jsstr) option" where
  "frac_token s = (case s of
       c # cs \<Rightarrow> if unat c = 46 then
           (if takeWhile is_digit cs = [] then None else Some (c # takeWhile is_digit cs, dropWhile is_digit cs))
         else Some ([], s)
     | [] \<Rightarrow> Some ([], s))"

definition exp_sign :: "jsstr \<Rightarrow> jsstr \<times> jsstr" where
  "exp_sign s = (case s of c # cs \<Rightarrow> if unat c \<in> {43, 45} then ([c], cs) else ([], s) | [] \<Rightarrow> ([], s))"

definition exp_token :: "jsstr \<Rightarrow> (jsstr \<times> jsstr) option" where
  "exp_token s = (case s of
       c # cs \<Rightarrow> if unat c \<in> {69, 101} then
           (let (sg, r) = exp_sign cs in
            if takeWhile is_digit r = [] then None else Some (c # sg @ takeWhile is_digit r, dropWhile is_digit r))
         else Some ([], s)
     | [] \<Rightarrow> Some ([], s))"

definition minus_token :: "jsstr \<Rightarrow> jsstr \<times> jsstr" where
  "minus_token s = (case s of c # cs \<Rightarrow> if unat c = 45 then ([c], cs) else ([], s) | [] \<Rightarrow> ([], s))"

definition number_token :: "jsstr \<Rightarrow> (jsstr \<times> jsstr) option" where
  "number_token s =
     (let (m, r) = minus_token s in
      case int_token r of None \<Rightarrow> None
      | Some (i, r1) \<Rightarrow> (case frac_token r1 of None \<Rightarrow> None
          | Some (f, r2) \<Rightarrow> map_option (\<lambda>(e, r3). (m @ i @ f @ e, r3)) (exp_token r2)))"

definition literal :: "string \<Rightarrow> dval \<Rightarrow> jsstr \<Rightarrow> js_error + dval \<times> jsstr" where
  "literal w v s = (if take (length w) s = asc w then Inr (v, drop (length w) s) else syntax_error)"

text \<open>The string at the start of the text, quotes included.\<close>

definition json_key :: "jsstr \<Rightarrow> js_error + jsstr \<times> jsstr" where
  "json_key s = (case s of
       c # cs \<Rightarrow> if unat c = 34 then (case json_string cs of Some q \<Rightarrow> Inr q | None \<Rightarrow> syntax_error) else syntax_error
     | [] \<Rightarrow> syntax_error)"

definition expect :: "nat \<Rightarrow> jsstr \<Rightarrow> js_error + jsstr" where
  "expect n s = (case s of c # cs \<Rightarrow> if unat c = n then Inr cs else syntax_error | [] \<Rightarrow> syntax_error)"

text \<open>After an opening bracket: the closing one, or what \<open>f\<close> reads; after an item: a comma and more, or the
  closing bracket.\<close>

definition opened :: "nat \<Rightarrow> (jsstr \<Rightarrow> js_error + 'a list \<times> jsstr) \<Rightarrow> jsstr \<Rightarrow> js_error + 'a list \<times> jsstr" where
  "opened close f s = (case skip_ws s of
       [] \<Rightarrow> syntax_error
     | d # ds \<Rightarrow> if unat d = close then Inr ([], ds) else f (d # ds))"

definition item_end :: "nat \<Rightarrow> (jsstr \<Rightarrow> js_error + 'a \<times> jsstr) \<Rightarrow> 'a \<Rightarrow> jsstr \<Rightarrow> js_error + 'a \<times> jsstr" where
  "item_end close cont v s = (case skip_ws s of
       [] \<Rightarrow> syntax_error
     | c # cs \<Rightarrow> if unat c = 44 then cont (skip_ws cs) else if unat c = close then Inr (v, cs) else syntax_error)"

text \<open>A value without leading white space; \<open>num\<close> gives the value of a number token.\<close>

fun json_value :: "(jsstr \<Rightarrow> dval) \<Rightarrow> nat \<Rightarrow> jsstr \<Rightarrow> js_error + dval \<times> jsstr"
  and json_elements :: "(jsstr \<Rightarrow> dval) \<Rightarrow> nat \<Rightarrow> jsstr \<Rightarrow> js_error + dval list \<times> jsstr"
  and json_fields :: "(jsstr \<Rightarrow> dval) \<Rightarrow> nat \<Rightarrow> (jsstr \<times> dval) list \<Rightarrow> jsstr \<Rightarrow> js_error + (jsstr \<times> dval) list \<times> jsstr" where
  "json_value num 0 s = Inl NoReturn"
| "json_value num (Suc n) [] = syntax_error"
| "json_value num (Suc n) (c # cs) =
     (if unat c = 123 then rbind (opened 125 (\<lambda>s. json_fields num n [] s) cs) (\<lambda>(o1, r). Inr (DObj o1, r))
      else if unat c = 91 then rbind (opened 93 (\<lambda>s. json_elements num n s) cs) (\<lambda>(vs, r). Inr (DArr vs, r))
      else if unat c = 34 then rbind (json_key (c # cs)) (\<lambda>(t, r). Inr (DStr t, r))
      else if unat c = 116 then literal ''true'' (DBool True) (c # cs)
      else if unat c = 102 then literal ''false'' (DBool False) (c # cs)
      else if unat c = 110 then literal ''null'' DNull (c # cs)
      else (case number_token (c # cs) of Some (t, r) \<Rightarrow> Inr (num t, r) | None \<Rightarrow> syntax_error))"
| "json_elements num 0 s = Inl NoReturn"
| "json_elements num (Suc n) s =
     rbind (json_value num n s) (\<lambda>(v, r).
       item_end 93 (\<lambda>t. rbind (json_elements num n t) (\<lambda>(vs, r1). Inr (v # vs, r1))) [v] r)"
| "json_fields num 0 o1 s = Inl NoReturn"
| "json_fields num (Suc n) o1 s =
     rbind (json_key s) (\<lambda>(k, r). rbind (expect 58 (skip_ws r)) (\<lambda>r1.
     rbind (json_value num n (skip_ws r1)) (\<lambda>(v, r2).
       item_end 125 (\<lambda>t. json_fields num n (obj_set o1 k v) t) (obj_set o1 k v) r2)))"

definition json_parse_with :: "(jsstr \<Rightarrow> dval) \<Rightarrow> jsstr \<Rightarrow> dres" where
  "json_parse_with num s =
     rbind (json_value num (2 * length s + 2) (skip_ws s)) (\<lambda>(v, r). if skip_ws r = [] then Inr v else syntax_error)"

definition json_parse :: "jsstr \<Rightarrow> dres" where
  "json_parse = json_parse_with (\<lambda>t. DNum (js_number t))"

subsection \<open>Integers beyond the safe range\<close>

datatype json_bigints = JB_number | JB_string | JB_bigint

definition is_safe_num :: "jnum \<Rightarrow> bool" where
  "is_safe_num x = (case x of Fin q \<Rightarrow> q = of_int \<lfloor>q\<rfloor> \<and> \<bar>q\<bar> \<le> 9007199254740991 | NegZ \<Rightarrow> True | _ \<Rightarrow> False)"

definition is_integer_num :: "jnum \<Rightarrow> bool" where
  "is_integer_num x = (case x of Fin q \<Rightarrow> q = of_int \<lfloor>q\<rfloor> | NegZ \<Rightarrow> True | _ \<Rightarrow> False)"

text \<open>\<open>/^-?\d+$/\<close>.\<close>

definition int_source :: "jsstr \<Rightarrow> bool" where
  "int_source s = (let r = snd (minus_token s) in r \<noteq> [] \<and> list_all is_digit r)"

definition big_value :: "json_bigints \<Rightarrow> jsstr \<Rightarrow> dval" where
  "big_value m s = (if m = JB_bigint then (case js_bigint s of Inr n \<Rightarrow> DBig n | Inl e \<Rightarrow> DNull) else DStr s)"

text \<open>\<open>bigintReviver\<close> on a number: its value and its source text.\<close>

definition bigintReviver :: "json_bigints \<Rightarrow> jsstr \<Rightarrow> dval" where
  "bigintReviver m s =
     (let v = js_number s in
      if is_integer_num v \<and> \<not> is_safe_num v \<and> int_source s then big_value m s else DNum v)"

text \<open>The regular expression \<open>BIG_INT\<close>: a match at the text \<open>s\<close> that follows the character \<open>p\<close>.\<close>

definition big_lead :: "unit16 \<Rightarrow> bool" where
  "big_lead c \<longleftrightarrow> is_digit c \<or> unat c \<in> {43, 45, 46, 69, 101}"

definition frac_or_exp :: "jsstr \<Rightarrow> bool" where
  "frac_or_exp s = (case dropWhile is_digit s of c # _ \<Rightarrow> unat c \<in> {46, 69, 101} | [] \<Rightarrow> False)"

definition big_at :: "jsstr \<Rightarrow> bool" where
  "big_at s = (let r = snd (minus_token s) in
     16 \<le> length r \<and> list_all is_digit (take 16 r) \<and> \<not> frac_or_exp (drop 16 r))"

fun big_search :: "unit16 option \<Rightarrow> jsstr \<Rightarrow> bool" where
  "big_search p [] = False"
| "big_search p (c # cs) = ((case p of None \<Rightarrow> True | Some q \<Rightarrow> \<not> big_lead q) \<and> big_at (c # cs) \<or> big_search (Some c) cs)"

definition BIG_INT :: "jsstr \<Rightarrow> bool" where
  "BIG_INT s = big_search None s"

subsection \<open>The byte parser\<close>

definition mayHaveBigInt_step :: "nat \<Rightarrow> byte \<Rightarrow> nat" where
  "mayHaveBigInt_step run c = (if 48 \<le> unat c \<and> unat c \<le> 57 then run + 1 else 0)"

fun mayHaveBigInt_loop :: "nat \<Rightarrow> bytes \<Rightarrow> bool" where
  "mayHaveBigInt_loop run [] = False"
| "mayHaveBigInt_loop run (c # cs) =
     (let r = mayHaveBigInt_step run c in if 16 \<le> r then True else mayHaveBigInt_loop r cs)"

definition mayHaveBigInt :: "bytes \<Rightarrow> nat \<Rightarrow> nat \<Rightarrow> bool" where
  "mayHaveBigInt b s e = mayHaveBigInt_loop 0 (take (e - s) (drop s b))"

definition to_string :: "bytes \<Rightarrow> nat \<Rightarrow> nat \<Rightarrow> jsstr" where
  "to_string b s e = from_utf8 (take (e - s) (drop s b))"

definition byte_eq :: "bytes \<Rightarrow> nat \<Rightarrow> nat \<Rightarrow> bool" where
  "byte_eq b p n \<longleftrightarrow> p < length b \<and> unat (b ! p) = n"

function pj_ws :: "bytes \<Rightarrow> nat \<Rightarrow> nat \<Rightarrow> nat" where
  "pj_ws b e p = (if p < e \<and> p < length b \<and> unat (b ! p) \<in> {32, 9, 10, 13} then pj_ws b e (p + 1) else p)"
  by pat_completeness auto
termination by (relation "measure (\<lambda>(b, e, p). e - p)") auto

function pj_quote :: "bytes \<Rightarrow> nat \<Rightarrow> bool \<Rightarrow> nat \<Rightarrow> bool \<times> nat" where
  "pj_quote b e esc p =
     (if p < e then
        (if byte_eq b p 92 then pj_quote b e True (p + 2)
         else if byte_eq b p 34 then (esc, p)
         else pj_quote b e esc (p + 1))
      else (esc, p))"
  by pat_completeness auto
termination by (relation "measure (\<lambda>(b, e, esc, p). e - p)") auto

definition pj_string :: "bytes \<Rightarrow> nat \<Rightarrow> nat \<Rightarrow> js_error + jsstr \<times> nat" where
  "pj_string b e p =
     (let s = p + 1; (esc, q) = pj_quote b e False s in
      if esc then (case json_parse (to_string b (s - 1) (q + 1)) of
          Inl x \<Rightarrow> Inl x | Inr (DStr t) \<Rightarrow> Inr (t, q + 1) | Inr v \<Rightarrow> Inl (Thrown ''not a string''))
      else Inr (to_string b s q, q + 1))"

text \<open>The end of the number token and whether it is more than an integer.\<close>

function pj_token :: "bytes \<Rightarrow> nat \<Rightarrow> bool \<Rightarrow> nat \<Rightarrow> bool \<times> nat" where
  "pj_token b e fl p =
     (if p < e \<and> p < length b then
        (if 48 \<le> unat (b ! p) \<and> unat (b ! p) \<le> 57 then pj_token b e fl (p + 1)
         else if unat (b ! p) \<in> {46, 101, 69, 43, 45} then pj_token b e True (p + 1)
         else (fl, p))
      else (fl, p))"
  by pat_completeness auto
termination by (relation "measure (\<lambda>(b, e, fl, p). e - p)") auto

declare pj_ws.simps [simp del] pj_quote.simps [simp del] pj_token.simps [simp del]

definition pj_number :: "json_bigints \<Rightarrow> bytes \<Rightarrow> nat \<Rightarrow> nat \<Rightarrow> js_error + dval \<times> nat" where
  "pj_number m b e s =
     (let neg = byte_eq b s 45; (isFloat, p) = pj_token b e False (if neg then s + 1 else s) in
      if isFloat \<or> m = JB_number then Inr (DNum (js_number (to_string b s p)), p)
      else let q = (if neg then s + 1 else s); x = int_digits b (int q) (p - q) (Fin 0); y = (if neg then num_neg x else x) in
        if is_safe_num y then Inr (DNum y, p)
        else let raw = to_string b s p in
          if m = JB_bigint then rbind (js_bigint raw) (\<lambda>n. Inr (DBig n, p)) else Inr (DStr raw, p))"

fun pj_value :: "json_bigints \<Rightarrow> bytes \<Rightarrow> nat \<Rightarrow> nat \<Rightarrow> nat \<Rightarrow> js_error + dval \<times> nat"
  and pj_array :: "json_bigints \<Rightarrow> bytes \<Rightarrow> nat \<Rightarrow> nat \<Rightarrow> nat \<Rightarrow> js_error + dval list \<times> nat"
  and pj_object :: "json_bigints \<Rightarrow> bytes \<Rightarrow> nat \<Rightarrow> nat \<Rightarrow> (jsstr \<times> dval) list \<Rightarrow> nat \<Rightarrow> js_error + (jsstr \<times> dval) list \<times> nat" where
  "pj_value m b e 0 p = Inl NoReturn"
| "pj_value m b e (Suc n) p =
     (let p = pj_ws b e p in
      if byte_eq b p 123 then
        (let q = pj_ws b e (p + 1) in
         if byte_eq b q 125 then Inr (DObj [], q + 1)
         else rbind (pj_object m b e n [] q) (\<lambda>(o1, r). Inr (DObj o1, r)))
      else if byte_eq b p 91 then
        (let q = pj_ws b e (p + 1) in
         if byte_eq b q 93 then Inr (DArr [], q + 1)
         else rbind (pj_array m b e n q) (\<lambda>(vs, r). Inr (DArr vs, r)))
      else if byte_eq b p 34 then rbind (pj_string b e p) (\<lambda>(t, r). Inr (DStr t, r))
      else if byte_eq b p 116 then Inr (DBool True, p + 4)
      else if byte_eq b p 102 then Inr (DBool False, p + 5)
      else if byte_eq b p 110 then Inr (DNull, p + 4)
      else pj_number m b e p)"
| "pj_array m b e 0 p = Inl NoReturn"
| "pj_array m b e (Suc n) p =
     rbind (pj_value m b e n p) (\<lambda>(v, q). let q = pj_ws b e q in
       if byte_eq b q 44 then rbind (pj_array m b e n (q + 1)) (\<lambda>(vs, r). Inr (v # vs, r))
       else Inr ([v], q + 1))"
| "pj_object m b e 0 o1 p = Inl NoReturn"
| "pj_object m b e (Suc n) o1 p =
     rbind (pj_string b e (pj_ws b e p)) (\<lambda>(k, q).
     rbind (pj_value m b e n (pj_ws b e q + 1)) (\<lambda>(v, q). let q = pj_ws b e q in
       if byte_eq b q 44 then pj_object m b e n (obj_set o1 k v) (q + 1)
       else Inr (obj_set o1 k v, q + 1)))"

definition parseJsonBuffer :: "bytes \<Rightarrow> nat \<Rightarrow> nat \<Rightarrow> json_bigints \<Rightarrow> dres" where
  "parseJsonBuffer b s e m = rbind (pj_value m b e (2 * (length b - s) + 2) s) (\<lambda>(v, p). Inr v)"

subsection \<open>The json decoders\<close>

definition bigintJsonParser :: "bool \<Rightarrow> json_bigints \<Rightarrow> jsstr \<Rightarrow> bytes option \<Rightarrow> dres" where
  "bigintJsonParser jsonSourceSupported m s b =
     (if jsonSourceSupported then (if BIG_INT s then json_parse_with (bigintReviver m) s else json_parse s)
      else if \<not> BIG_INT s then json_parse s
      else let buf = (case b of Some x \<Rightarrow> x | None \<Rightarrow> utf8 s) in parseJsonBuffer buf 0 (length buf) m)"

definition asJson :: "bytes \<Rightarrow> dres" where
  "asJson b = json_parse (from_utf8 b)"

definition jsonDecoder :: "bool \<Rightarrow> json_bigints \<Rightarrow> bytes \<Rightarrow> dres" where
  "jsonDecoder supported m b = (if m = JB_number then asJson b else bigintJsonParser supported m (from_utf8 b) (Some b))"

subsection \<open>The parsers return for every input\<close>

lemma skip_ws_suffix: "suffix (skip_ws s) s"
  by (simp add: skip_ws_def suffix_dropWhile)

lemmas skip_ws_le = suffix_length_le [OF skip_ws_suffix]

lemma tl_strict: "strict_suffix r (c # r)"
  by (simp add: strict_suffix_def suffix_def)

lemma strict_Cons: "suffix r s \<Longrightarrow> strict_suffix r (c # s)"
  by (metis suffix_order.le_less_trans tl_strict)

lemma strict_Cons': "strict_suffix r s \<Longrightarrow> strict_suffix r (c # s)"
  by (simp add: strict_Cons)

lemma json_string_suffix: "json_string s = Some (t, r) \<Longrightarrow> strict_suffix r s"
proof (induction s arbitrary: t r rule: json_string.induct)
  case (1 s)
  show ?case
  proof (cases s)
    case (Cons c cs)
    note IH = 1(1) [OF Cons]
    show ?thesis
    proof (cases "unat c = 34 \<or> unat c < 32 \<or> unat c \<noteq> 92")
      case True
      then show ?thesis using "1.prems" IH unfolding Cons
        by (subst (asm) json_string.simps) (fastforce split: if_splits simp: tl_strict intro: strict_Cons')
    next
      case False
      show ?thesis
      proof (cases cs)
        case Nil
        then show ?thesis using "1.prems" False unfolding Cons by (subst (asm) json_string.simps) simp
      next
        case (Cons d ds)
        have "strict_suffix r ds" if "json_string (drop 4 ds) = Some (t', r)" "unat d = 117" "hex_val (take 4 ds) = Some n" for t' n
          using 1(2) [OF \<open>s = c # cs\<close> _ _ _ Cons that(2,3,1)] False suffix_drop [of 4 ds]
          by (meson suffix_order.less_le_trans)
        moreover have "strict_suffix r ds" if "json_string ds = Some (t', r)" "unat d \<noteq> 117" "simple_escape (unat d) = Some n" for t' n
          using 1(3) [OF \<open>s = c # cs\<close> _ _ _ Cons that(2,3,1)] False by simp
        ultimately show ?thesis using "1.prems" False Cons unfolding \<open>s = c # cs\<close>
          by (subst (asm) json_string.simps) (auto split: if_splits option.splits intro!: strict_Cons')
      qed
    qed
  qed (use "1.prems" in \<open>subst (asm) json_string.simps, simp\<close>)
qed

lemma json_key_suffix: "json_key s = Inr (k, r) \<Longrightarrow> strict_suffix r s"
  by (auto simp: json_key_def syntax_error_def split: list.splits if_splits option.splits intro: strict_Cons' dest: json_string_suffix)

lemma expect_suffix: "expect n s = Inr r \<Longrightarrow> strict_suffix r s"
  by (auto simp: expect_def syntax_error_def tl_strict split: list.splits if_splits)

lemma number_token_split:
  assumes "number_token s = Some (t, r)"
  shows "s = t @ r \<and> t \<noteq> []"
proof -
  obtain m r0 where m: "minus_token s = (m, r0)" by (cases "minus_token s")
  obtain i r1 where i: "int_token r0 = Some (i, r1)" using assms m by (auto simp: number_token_def split: option.splits)
  obtain f r2 where f: "frac_token r1 = Some (f, r2)" using assms m i by (auto simp: number_token_def split: option.splits)
  obtain e r3 where e: "exp_token r2 = Some (e, r3)" using assms m i f by (auto simp: number_token_def)
  have "s = m @ r0" using m by (auto simp: minus_token_def split: list.splits if_splits)
  moreover have "r0 = i @ r1" "i \<noteq> []" using i by (auto simp: int_token_def split: list.splits if_splits)
  moreover have "r1 = f @ r2" using f by (auto simp: frac_token_def split: list.splits if_splits)
  moreover have "r2 = e @ r3" using e by (auto simp: exp_token_def exp_sign_def Let_def split: list.splits if_splits)
  ultimately show ?thesis using assms m i f e by (auto simp: number_token_def)
qed

lemma number_token_suffix: "number_token s = Some (t, r) \<Longrightarrow> strict_suffix r s"
  using number_token_split [of s t r] by (auto simp: strict_suffix_def suffix_def)

text \<open>A parser consumes a non-empty prefix.\<close>

definition eats :: "(jsstr \<Rightarrow> js_error + 'a \<times> jsstr) \<Rightarrow> bool" where
  "eats f \<longleftrightarrow> (\<forall>s x r. f s = Inr (x, r) \<longrightarrow> strict_suffix r s)"

lemma eatsD: "eats f \<Longrightarrow> f s = Inr (x, r) \<Longrightarrow> strict_suffix r s"
  by (auto simp: eats_def)

lemma after_ws: "skip_ws s = c # cs \<Longrightarrow> strict_suffix cs s"
  using skip_ws_suffix [of s] tl_strict [of cs c] by (metis suffix_order.less_le_trans)

lemma opened_suffix: "eats f \<Longrightarrow> opened close f s = Inr (x, r) \<Longrightarrow> strict_suffix r s"
  using skip_ws_suffix [of s] after_ws [of s]
  by (auto simp: opened_def syntax_error_def split: list.splits if_splits dest: eatsD suffix_order.less_le_trans)

lemma item_end_suffix:
  assumes "eats f" "item_end close f x s = Inr (y, r)"
  shows "strict_suffix r s"
proof (cases "skip_ws s")
  case (Cons c cs)
  then have "strict_suffix cs s" by (rule after_ws)
  moreover have "strict_suffix r cs \<or> r = cs" using assms Cons skip_ws_suffix [of cs]
    by (auto simp: item_end_def syntax_error_def split: if_splits dest!: eatsD dest: suffix_order.less_le_trans)
  ultimately show ?thesis using suffix_order.less_trans by blast
qed (use assms in \<open>simp add: item_end_def syntax_error_def\<close>)

lemma literal_suffix: "literal w v s = Inr (x, r) \<Longrightarrow> w \<noteq> [] \<Longrightarrow> s \<noteq> [] \<Longrightarrow> strict_suffix r s"
  by (cases w; cases s) (auto simp: literal_def syntax_error_def asc_def intro!: strict_Cons suffix_drop split: if_splits)

lemma json_eats: "eats (json_value num n) \<and> eats (json_elements num n) \<and> (\<forall>o1. eats (json_fields num n o1))"
proof (induction n)
  case 0
  show ?case by (simp add: eats_def)
next
  case (Suc n)
  then have IH: "eats (json_value num n)" "eats (json_elements num n)" "\<And>o1. eats (json_fields num n o1)" by auto
  have "strict_suffix r s" if v: "json_value num (Suc n) s = Inr (v, r)" for s v r
  proof (cases s)
    case (Cons c cs)
    show ?thesis using v opened_suffix [OF IH(2)] opened_suffix [OF IH(3)] unfolding Cons
      by (auto simp: rbind_Inr_iff syntax_error_def split: if_splits option.splits
          dest: json_key_suffix literal_suffix number_token_suffix intro: strict_Cons')
  qed (use v in \<open>simp add: syntax_error_def\<close>)
  moreover have "strict_suffix r s" if e: "json_elements num (Suc n) s = Inr (vs, r)" for s vs r
  proof -
    obtain v q where v: "json_value num n s = Inr (v, q)"
      "item_end 93 (\<lambda>t. rbind (json_elements num n t) (\<lambda>(vs, r1). Inr (v # vs, r1))) [v] q = Inr (vs, r)"
      using e by (auto simp: rbind_Inr_iff)
    have "eats (\<lambda>t. rbind (json_elements num n t) (\<lambda>(vs, r1). Inr (v # vs, r1)))"
      using IH(2) by (auto simp: eats_def rbind_Inr_iff)
    from item_end_suffix [OF this v(2)] eatsD [OF IH(1) v(1)] show ?thesis using suffix_order.less_trans by blast
  qed
  moreover have "strict_suffix r s" if f: "json_fields num (Suc n) o1 s = Inr (o2, r)" for s o1 o2 r
  proof -
    obtain k q q1 v q2 where k: "json_key s = Inr (k, q)" "expect 58 (skip_ws q) = Inr q1" "json_value num n (skip_ws q1) = Inr (v, q2)"
      "item_end 125 (\<lambda>t. json_fields num n (obj_set o1 k v) t) (obj_set o1 k v) q2 = Inr (o2, r)"
      using f by (auto simp: rbind_Inr_iff)
    have "strict_suffix q s" using json_key_suffix [OF k(1)] .
    moreover have "strict_suffix q1 q" using expect_suffix [OF k(2)] skip_ws_suffix [of q] by (rule suffix_order.less_le_trans)
    moreover have "strict_suffix q2 q1" using eatsD [OF IH(1) k(3)] skip_ws_suffix [of q1] by (rule suffix_order.less_le_trans)
    moreover have "strict_suffix r q2" using item_end_suffix [OF _ k(4)] IH(3) by blast
    ultimately show ?thesis by (meson suffix_order.less_trans)
  qed
  ultimately show ?case unfolding eats_def by blast
qed

lemmas json_value_suffix = json_eats [THEN conjunct1, THEN eatsD]

text \<open>Fuel: two units for each character of the text.\<close>

lemma opened_total:
  "(\<And>t. length t \<le> length s \<Longrightarrow> f t \<noteq> Inl NoReturn) \<Longrightarrow> opened close f s \<noteq> Inl NoReturn"
  using skip_ws_le [of s] by (auto simp: opened_def syntax_error_def split: list.splits)

lemma item_end_total:
  "(\<And>t. length t < length s \<Longrightarrow> f t \<noteq> Inl NoReturn) \<Longrightarrow> item_end close f x s \<noteq> Inl NoReturn"
  using skip_ws_le [of s] skip_ws_le [of "tl (skip_ws s)"]
  by (auto simp: item_end_def syntax_error_def split: list.splits)

lemma rbind_total: "m \<noteq> Inl NoReturn \<Longrightarrow> (\<And>x. m = Inr x \<Longrightarrow> f x \<noteq> Inl NoReturn) \<Longrightarrow> rbind m f \<noteq> Inl NoReturn"
  by (cases m) auto

lemma rbind_Inl_iff: "rbind m f = Inl e \<longleftrightarrow> m = Inl e \<or> (\<exists>x. m = Inr x \<and> f x = Inl e)"
  by (cases m) auto

lemma scan_total [simp]:
  "json_key s \<noteq> Inl NoReturn" "expect n s \<noteq> Inl NoReturn" "literal w v s \<noteq> Inl NoReturn"
  by (auto simp: json_key_def expect_def literal_def syntax_error_def split: list.splits option.splits)

lemma json_total:
  "(2 * length s + 1 \<le> n \<longrightarrow> json_value num n s \<noteq> Inl NoReturn) \<and>
   (2 * length s + 2 \<le> n \<longrightarrow> json_elements num n s \<noteq> Inl NoReturn \<and> json_fields num n o1 s \<noteq> Inl NoReturn)"
proof (induction n arbitrary: s o1)
  case (Suc n)
  have V: "json_value num (Suc n) s \<noteq> Inl NoReturn" if n: "2 * length s + 1 \<le> Suc n"
  proof (cases s)
    case (Cons c cs)
    have "json_fields num n [] t \<noteq> Inl NoReturn" "json_elements num n t \<noteq> Inl NoReturn" if "length t \<le> length cs" for t
      using Suc.IH [of t "[]"] that n Cons by auto
    then have "opened 125 (\<lambda>s. json_fields num n [] s) cs \<noteq> Inl NoReturn" "opened 93 (\<lambda>s. json_elements num n s) cs \<noteq> Inl NoReturn"
      by (auto intro!: opened_total)
    then show ?thesis unfolding Cons by (auto simp: syntax_error_def rbind_Inl_iff split: option.splits)
  qed (simp add: syntax_error_def)
  have E: "json_elements num (Suc n) s \<noteq> Inl NoReturn" if n: "2 * length s + 2 \<le> Suc n"
    unfolding json_elements.simps
  proof (rule rbind_total, goal_cases)
    case 1
    show ?case using Suc.IH n by simp
  next
    case (2 x)
    obtain v r where x: "x = (v, r)" by (cases x)
    have "length r < length s" using 2 json_value_suffix unfolding x by (blast dest: suffix_length_less)
    moreover have "json_elements num n t \<noteq> Inl NoReturn" if "length t < length r" for t
      using Suc.IH [of t] n that \<open>length r < length s\<close> by simp
    ultimately show ?case unfolding x by (auto simp: rbind_Inl_iff intro!: item_end_total)
  qed
  have F: "json_fields num (Suc n) o1 s \<noteq> Inl NoReturn" if n: "2 * length s + 2 \<le> Suc n"
    unfolding json_fields.simps
  proof (intro rbind_total scan_total, goal_cases)
    case (1 x)
    obtain k r where x: "x = (k, r)" by (cases x)
    have r: "length r < length s" using suffix_length_less [OF json_key_suffix] 1 unfolding x by blast
    show ?case unfolding x prod.case
    proof (intro rbind_total scan_total, goal_cases)
      case (1 r1)
      have r1: "length r1 < length r" using suffix_length_less [OF expect_suffix [OF 1]] skip_ws_le [of r] by simp
      then show ?case using Suc.IH n r skip_ws_le [of r1] by simp
    next
      case (2 r1 y)
      obtain v r2 where y: "y = (v, r2)" by (cases y)
      have r1: "length r1 < length r" using suffix_length_less [OF expect_suffix [OF 2(1)]] skip_ws_le [of r] by simp
      have "length r2 < length (skip_ws r1)" using 2(2) json_value_suffix unfolding y by (blast dest: suffix_length_less)
      with r1 r show ?case using Suc.IH n skip_ws_le [of r1] unfolding y prod.case by (intro item_end_total) (fastforce)
    qed
  qed
  show ?case using V E F by blast
qed simp

lemma json_parse_total: "json_parse_with num s \<noteq> Inl NoReturn"
  unfolding json_parse_with_def
  using json_total [of "skip_ws s" "2 * length s + 2" num "[]"] skip_ws_le [of s]
  by (intro rbind_total) (auto simp del: json_value.simps json_elements.simps json_fields.simps simp: syntax_error_def split: if_splits)

subsection \<open>Skipping the reviver is sound\<close>

lemma big_search_lead: "\<not> big_lead c \<Longrightarrow> big_search (Some c) s = BIG_INT s"
  by (cases s) (simp_all add: BIG_INT_def)

lemma big_search_app: "big_search (Some c) s \<Longrightarrow> big_search p (u @ c # s)"
  by (induction u arbitrary: p) auto

lemma BIG_INT_tail: "\<not> BIG_INT (u @ c # s) \<Longrightarrow> \<not> big_lead c \<Longrightarrow> \<not> BIG_INT s"
  using big_search_app [of c s None u] by (auto simp: big_search_lead BIG_INT_def)

lemma BIG_INT_ws: "\<not> BIG_INT s \<Longrightarrow> \<not> BIG_INT (skip_ws s)"
proof (induction s)
  case (Cons c s)
  have "\<not> big_lead c" if "json_space c" using that by (auto simp: json_space_def big_lead_def is_digit_def)
  with Cons BIG_INT_tail [of "[]" c s] show ?case by (auto simp: skip_ws_def)
qed (simp add: skip_ws_def)

lemma BIG_INT_after:
  assumes "\<not> BIG_INT s" "suffix r s" "skip_ws r = c # cs" "\<not> big_lead c"
  shows "\<not> BIG_INT (skip_ws cs)"
proof -
  obtain u where u: "s = u @ r" using assms(2) by (auto simp: suffix_def)
  have "r = takeWhile json_space r @ c # cs" using assms(3) by (metis skip_ws_def takeWhile_dropWhile_id)
  with u have "s = (u @ takeWhile json_space r) @ c # cs" by simp
  with assms(1,4) have "\<not> BIG_INT cs" using BIG_INT_tail by metis
  then show ?thesis by (rule BIG_INT_ws)
qed

lemma int_source_text:
  assumes "int_source s"
  obtains neg ds where "s = dec_text neg ds [] None" "dec_text_ok ds [] None" "snd (minus_token s) = dunits ds"
proof -
  let ?r = "snd (minus_token s)"
  let ?ds = "map (\<lambda>c. unat c - 48) ?r"
  have r: "?r \<noteq> []" "list_all is_digit ?r" using assms by (auto simp: int_source_def Let_def)
  have d: "dunits (map (\<lambda>c. unat c - 48) q) = q" if "list_all is_digit q" for q
    using that by (induction q) (auto simp: dunits_def digit_unit_def is_digit_def u16_def)
  have ok: "dec_text_ok ?ds [] None" using r by (auto simp: dec_text_ok_def decs_def list_all_iff is_digit_def)
  have "s = (if fst (minus_token s) \<noteq> [] then [u16 45] else []) @ ?r"
    by (cases s) (auto simp: minus_token_def u16_def word_unat_eq_iff)
  then have "s = dec_text (fst (minus_token s) \<noteq> []) ?ds [] None"
    using d [OF r(2)] by (simp add: dec_text_def frac_text_def exp_text_def)
  with ok d [OF r(2)] show ?thesis by (intro that [of _ ?ds]) simp_all
qed

lemma short_int_safe:
  assumes "dec_text_ok ds [] None" "length ds \<le> 15"
  shows "is_safe_num (js_number (dec_text neg ds [] None))"
proof -
  have "digits_val ds < 10 ^ length ds" using assms(1) by (intro digits_val_less) (simp add: dec_text_ok_def)
  also have "\<dots> \<le> 10 ^ 15" using assms(2) by (intro power_increasing) auto
  finally have v: "digits_val ds < 10 ^ 15" .
  then have "double (of_nat (digits_val ds)) = Fin (of_nat (digits_val ds))" by (intro double_nat) simp
  moreover have "of_nat (digits_val ds) \<le> (9007199254740991 :: rat)"
  proof -
    have "digits_val ds \<le> 9007199254740991" using v by simp
    then show ?thesis by (metis of_nat_le_iff of_nat_numeral)
  qed
  ultimately show ?thesis
    by (simp add: js_number_text [OF assms(1)] dec_value_def exp_value_def is_safe_num_def)
qed

lemma token_end:
  assumes "number_token s = Some (t, r)" "list_all is_digit (snd (minus_token t))" "1 < length (snd (minus_token t))"
  shows "case r of [] \<Rightarrow> True | c # _ \<Rightarrow> \<not> is_digit c \<and> unat c \<notin> {46, 69, 101}"
proof -
  obtain m r0 where m: "minus_token s = (m, r0)" by (cases "minus_token s")
  obtain i r1 where i: "int_token r0 = Some (i, r1)" using assms m by (auto simp: number_token_def split: option.splits)
  obtain f r2 where f: "frac_token r1 = Some (f, r2)" using assms m i by (auto simp: number_token_def split: option.splits)
  obtain e r3 where e: "exp_token r2 = Some (e, r3)" using assms m i f by (auto simp: number_token_def)
  have t: "t = m @ i @ f @ e" "r = r3" using assms m i f e by (auto simp: number_token_def)
  have "m = [] \<or> (\<exists>c. m = [c] \<and> unat c = 45)" using m by (auto simp: minus_token_def split: list.splits if_splits)
  moreover have i': "i \<noteq> []" "is_digit (hd i)" using i by (auto simp: int_token_def is_digit_def split: list.splits if_splits)
  ultimately have tail: "snd (minus_token t) = i @ f @ e" unfolding t
    by (cases i) (auto simp: minus_token_def is_digit_def)
  then have ds: "list_all is_digit f" "list_all is_digit e" "1 < length (i @ f @ e)" using assms(2,3) by auto
  have f0: "f = []" using f ds(1) by (auto simp: frac_token_def is_digit_def split: list.splits if_splits)
  have e0: "e = []" using e ds(2) by (auto simp: exp_token_def exp_sign_def Let_def is_digit_def split: list.splits if_splits)
  have "\<not> (\<exists>c. i = [c] \<and> unat c = 48)" using ds(3) f0 e0 by auto
  then have "r1 = dropWhile is_digit r0" using i by (auto simp: int_token_def split: list.splits if_splits)
  then have "case r1 of [] \<Rightarrow> True | c # _ \<Rightarrow> \<not> is_digit c" by (metis dropWhile_eq_Cons_conv list.case_eq_if list.collapse)
  moreover have "case r1 of [] \<Rightarrow> True | c # _ \<Rightarrow> unat c \<noteq> 46" "r2 = r1"
    using f f0 by (auto simp: frac_token_def split: list.splits if_splits)
  moreover have "case r2 of [] \<Rightarrow> True | c # _ \<Rightarrow> unat c \<notin> {69, 101}" "r3 = r2"
    using e e0 by (auto simp: exp_token_def Let_def exp_sign_def split: list.splits if_splits)
  ultimately show ?thesis unfolding t by (auto split: list.splits)
qed

lemma reviver_not_needed:
  assumes "number_token s = Some (t, r)" "\<not> BIG_INT s"
  shows "bigintReviver m t = DNum (js_number t)"
proof (rule ccontr)
  assume "bigintReviver m t \<noteq> DNum (js_number t)"
  then have u: "\<not> is_safe_num (js_number t)" "int_source t" by (auto simp: bigintReviver_def Let_def split: if_splits)
  obtain neg ds where ds: "t = dec_text neg ds [] None" "dec_text_ok ds [] None" "snd (minus_token t) = dunits ds"
    using u(2) by (rule int_source_text)
  have l: "16 \<le> length ds" using u(1) short_int_safe [OF ds(2), of neg] ds(1) by (cases "length ds \<le> 15") auto
  have st: "s = t @ r" using number_token_split [OF assms(1)] by simp
  have dd: "list_all is_digit (dunits ds)" using ds(2) by (intro dunits_units) (simp add: dec_text_ok_def)
  have e: "case r of [] \<Rightarrow> True | c # _ \<Rightarrow> \<not> is_digit c \<and> unat c \<notin> {46, 69, 101}"
    using token_end [OF assms(1)] dd l by (simp add: ds(3))
  have tail: "snd (minus_token s) = dunits ds @ r"
    using ds(3) l unfolding st ds(1) by (cases ds) (auto simp: dec_text_def minus_token_def frac_text_def exp_text_def dunits_def split: if_splits)
  have "dropWhile is_digit (drop 16 (dunits ds) @ r) = r"
    using dd e by (cases r) (auto simp: list_all_iff dest: in_set_dropD intro!: dropWhile_append2 [THEN trans])
  then have "\<not> frac_or_exp (drop 16 (dunits ds @ r))" using e l by (auto simp: frac_or_exp_def split: list.splits)
  then have "big_at s" using l dd by (auto simp: big_at_def tail Let_def list_all_iff dest: in_set_takeD)
  moreover have "s \<noteq> []" using st number_token_split [OF assms(1)] by simp
  ultimately show False using assms(2) by (cases s) (auto simp: BIG_INT_def)
qed

text \<open>Two readings of numbers that agree on every token of texts without a match give the same value.\<close>

definition hooks_agree :: "(jsstr \<Rightarrow> dval) \<Rightarrow> (jsstr \<Rightarrow> dval) \<Rightarrow> bool" where
  "hooks_agree num1 num2 \<longleftrightarrow> (\<forall>s t r. \<not> BIG_INT s \<longrightarrow> number_token s = Some (t, r) \<longrightarrow> num1 t = num2 t)"

lemma opened_cong:
  "\<not> BIG_INT s \<Longrightarrow> (\<And>t. \<not> BIG_INT t \<Longrightarrow> f t = g t) \<Longrightarrow> opened close f s = opened close g s"
  using BIG_INT_ws [of s] by (auto simp: opened_def split: list.splits)

lemma item_end_cong:
  "\<not> BIG_INT s \<Longrightarrow> suffix r s \<Longrightarrow> (\<And>t. \<not> BIG_INT t \<Longrightarrow> f t = g t) \<Longrightarrow> item_end close f x r = item_end close g x r"
  using BIG_INT_after [of s r] by (auto simp: item_end_def big_lead_def is_digit_def split: list.splits)

lemma rbind_cong: "m = m' \<Longrightarrow> (\<And>x. m' = Inr x \<Longrightarrow> f x = g x) \<Longrightarrow> rbind m f = rbind m' g"
  by (cases m') auto

lemma json_hooks:
  assumes "hooks_agree num1 num2"
  shows "\<not> BIG_INT s \<Longrightarrow> json_value num1 n s = json_value num2 n s \<and> json_elements num1 n s = json_elements num2 n s \<and>
    json_fields num1 n o1 s = json_fields num2 n o1 s"
proof (induction n arbitrary: s o1)
  case (Suc n)
  have V: "json_value num1 (Suc n) s = json_value num2 (Suc n) s"
  proof (cases s)
    case (Cons c cs)
    have o: "opened k f cs = opened k g cs"
      if "unat c \<in> {91, 123}" "\<And>t. \<not> BIG_INT t \<Longrightarrow> f t = g t" for k and f g :: "jsstr \<Rightarrow> js_error + 'x list \<times> jsstr"
    proof (rule opened_cong [OF _ that(2)])
      show "\<not> BIG_INT cs" using BIG_INT_tail [of "[]" c cs] Suc.prems Cons that(1) by (auto simp: big_lead_def is_digit_def)
    qed
    have "num1 t = num2 t" if "number_token (c # cs) = Some (t, r)" for t r
      using assms that Suc.prems Cons by (auto simp: hooks_agree_def)
    then show ?thesis unfolding Cons using Suc.IH
      by (auto simp: split: option.splits intro!: arg_cong [where f = "\<lambda>m. rbind m _"] o)
  qed simp
  have E: "json_elements num1 (Suc n) s = json_elements num2 (Suc n) s"
    unfolding json_elements.simps
  proof (rule rbind_cong, goal_cases)
    case 1
    show ?case using Suc by blast
  next
    case (2 x)
    obtain v r where x: "x = (v, r)" by (cases x)
    have "suffix r s" using 2 json_value_suffix unfolding x by (blast intro: suffix_order.less_imp_le)
    then show ?case unfolding x prod.case using Suc by (intro item_end_cong [of s]) auto
  qed
  have F: "json_fields num1 (Suc n) o1 s = json_fields num2 (Suc n) o1 s"
    unfolding json_fields.simps
  proof (rule rbind_cong [OF refl], goal_cases)
    case (1 x)
    obtain k r where x: "x = (k, r)" by (cases x)
    have r: "suffix r s" using json_key_suffix 1 unfolding x by (blast intro: suffix_order.less_imp_le)
    show ?case unfolding x prod.case
    proof (rule rbind_cong [OF refl], goal_cases)
      case (1 r1)
      then obtain c where c: "skip_ws r = c # r1" "unat c = 58"
        by (auto simp: expect_def syntax_error_def split: list.splits if_splits)
      have q: "\<not> BIG_INT (skip_ws r1)" using BIG_INT_after [OF Suc.prems r c(1)] c(2) by (simp add: big_lead_def is_digit_def)
      show ?case
      proof (rule rbind_cong, goal_cases)
        case 1
        show ?case using Suc.IH q by blast
      next
        case (2 y)
        obtain v r2 where y: "y = (v, r2)" by (cases y)
        have "suffix r2 (skip_ws r1)" using 2 json_value_suffix unfolding y by (blast intro: suffix_order.less_imp_le)
        then show ?case unfolding y prod.case using Suc.IH q by (intro item_end_cong [of "skip_ws r1"]) auto
      qed
    qed
  qed
  show ?case using V E F by blast
qed simp

lemma json_parse_hooks: "hooks_agree num1 num2 \<Longrightarrow> \<not> BIG_INT s \<Longrightarrow> json_parse_with num1 s = json_parse_with num2 s"
  using json_hooks [OF _ BIG_INT_ws [of s]] by (simp add: json_parse_with_def del: json_value.simps)

text \<open>Skipping the exact path when the regular expression \<open>BIG_INT\<close> finds nothing never loses an
  integer: the json decoder with \<open>jsonBigints\<close> returns, for every text, what parsing with the source-text
  reviver returns, and it returns for every text.\<close>

theorem json_shortcut_sound:
  "bigintJsonParser True m s b = json_parse_with (bigintReviver m) s \<and> bigintJsonParser True m s b \<noteq> Inl NoReturn"
proof -
  have "hooks_agree (bigintReviver m) (\<lambda>t. DNum (js_number t))"
    by (auto simp: hooks_agree_def reviver_not_needed)
  then show ?thesis using json_parse_hooks json_parse_total by (simp add: bigintJsonParser_def json_parse_def)
qed

lemma js_bigint_int: "js_bigint (dec_int n) = Inr n"
proof -
  define k where "k = nat \<bar>n\<bar>"
  have n: "(if n < 0 then - int k else int k) = n" by (simp add: k_def)
  note s = dec_text_scan(1-4) [OF dec_int_ok [of k], of "n < 0"]
  have d: "digits_of (dunits (dec_digits k)) = dec_digits k" "after_digits (dunits (dec_digits k)) = []"
    using digits_of_app [OF decs_dec_digits, of "[]" k] by (simp_all add: no_digit_def)
  have u: "dunits (dec_digits k) @ frac_text [] @ exp_text None = dunits (dec_digits k)" by (simp add: frac_text_def exp_text_def)
  show ?thesis unfolding dec_int_text k_def [symmetric] js_bigint_def s(1-3) Let_def u prod.case d
    using s(4) by (simp add: digits_val.simps digits_val_dec_digits) (use n in presburger)
qed

subsection \<open>The byte parser returns for every input\<close>

lemma pj_ws_le: "p \<le> pj_ws b e p"
  by (induction b e p rule: pj_ws.induct) (subst pj_ws.simps, auto)

lemma pj_quote_le: "p \<le> snd (pj_quote b e esc p)"
  by (induction b e esc p rule: pj_quote.induct) (subst pj_quote.simps, auto)

lemma pj_token_le: "p \<le> snd (pj_token b e fl p)"
  by (induction b e fl p rule: pj_token.induct) (subst pj_token.simps, auto)

lemma pj_string_le: "pj_string b e p = Inr (t, q) \<Longrightarrow> p < q"
  using pj_quote_le [of "p + 1" b e False]
  by (auto simp: pj_string_def Let_def split: prod.splits sum.splits dval.splits if_splits)

lemma pj_number_le: "pj_number m b e p = Inr (v, q) \<Longrightarrow> p \<le> q"
  using pj_token_le [of "p + 1" b e False] pj_token_le [of p b e False]
  by (auto simp: pj_number_def Let_def rbind_Inr_iff split: prod.splits if_splits)

lemma js_bigint_total [simp]: "js_bigint s \<noteq> Inl NoReturn"
  by (simp add: js_bigint_def Let_def syntax_error_def split_def split: option.split)

lemma pj_string_total [simp]: "pj_string b e p \<noteq> Inl NoReturn"
proof -
  have "json_parse s \<noteq> Inl NoReturn" for s using json_parse_total by (simp add: json_parse_def)
  then show ?thesis by (auto simp: pj_string_def Let_def split_def split: sum.split dval.split)
qed

lemma pj_number_total [simp]: "pj_number m b e p \<noteq> Inl NoReturn"
  by (simp add: pj_number_def Let_def split_def rbind_Inl_iff)

lemma pj_le:
  "(\<forall>v q. pj_value m b e n p = Inr (v, q) \<longrightarrow> p \<le> q) \<and> (\<forall>v q. pj_array m b e n p = Inr (v, q) \<longrightarrow> p \<le> q) \<and>
   (\<forall>v q. pj_object m b e n o1 p = Inr (v, q) \<longrightarrow> p \<le> q)"
proof (induction n arbitrary: p o1)
  case (Suc n)
  have w: "p \<le> pj_ws b e p" "x \<le> y \<Longrightarrow> x \<le> pj_ws b e y" for p x y using pj_ws_le le_trans by blast+
  have V: "p \<le> q" if "pj_value m b e (Suc n) p = Inr (v, q)" for v q
    using that w(1) [of p] w(1) [of "pj_ws b e p + 1"] Suc.IH
    by (auto simp: Let_def rbind_Inr_iff split: if_splits dest: pj_string_le pj_number_le) (meson Suc_leD le_trans less_imp_le)+
  have A: "p \<le> q" if "pj_array m b e (Suc n) p = Inr (v, q)" for v q
    using that w(2) Suc.IH by (auto simp: Let_def rbind_Inr_iff split: if_splits) (meson Suc_leD le_SucI le_trans w(1))+
  have O: "p \<le> q" if "pj_object m b e (Suc n) o1 p = Inr (v, q)" for v q
    using that w Suc.IH by (auto simp: Let_def rbind_Inr_iff split: if_splits dest!: pj_string_le) (meson Suc_leD le_SucI le_trans less_imp_le w(1))+
  show ?case using V A O by blast
qed simp

lemma byte_eq_lt: "byte_eq b p k \<Longrightarrow> p < length b"
  by (simp add: byte_eq_def)

lemma pj_total:
  "(2 * (length b - p) + 1 \<le> n \<longrightarrow> pj_value m b e n p \<noteq> Inl NoReturn) \<and>
   (2 * (length b - p) + 2 \<le> n \<longrightarrow> pj_array m b e n p \<noteq> Inl NoReturn \<and> pj_object m b e n o1 p \<noteq> Inl NoReturn)"
proof (induction n arbitrary: p o1)
  case (Suc n)
  have V: "pj_value m b e (Suc n) p \<noteq> Inl NoReturn" if n: "2 * (length b - p) + 1 \<le> Suc n"
  proof -
    let ?p = "pj_ws b e p"
    have "pj_object m b e n [] (pj_ws b e (?p + 1)) \<noteq> Inl NoReturn \<and> pj_array m b e n (pj_ws b e (?p + 1)) \<noteq> Inl NoReturn" if "?p < length b"
      using Suc.IH [of "pj_ws b e (?p + 1)" "[]"] n that pj_ws_le [of p b e] pj_ws_le [of "?p + 1" b e] by simp
    then show ?thesis by (auto simp: Let_def rbind_Inl_iff dest: byte_eq_lt)
  qed
  have A: "pj_array m b e (Suc n) p \<noteq> Inl NoReturn" if n: "2 * (length b - p) + 2 \<le> Suc n"
    unfolding pj_array.simps
  proof (rule rbind_total, goal_cases)
    case 1
    show ?case using Suc.IH n by simp
  next
    case (2 x)
    obtain v q where x: "x = (v, q)" by (cases x)
    have "p \<le> q" using 2 pj_le unfolding x by blast
    then have "pj_array m b e n (pj_ws b e q + 1) \<noteq> Inl NoReturn" if "pj_ws b e q < length b"
      using Suc.IH [of "pj_ws b e q + 1"] n that pj_ws_le [of q b e] by simp
    then show ?case unfolding x by (auto simp: Let_def rbind_Inl_iff dest: byte_eq_lt)
  qed
  have O: "pj_object m b e (Suc n) o1 p \<noteq> Inl NoReturn" if n: "2 * (length b - p) + 2 \<le> Suc n"
    unfolding pj_object.simps
  proof (rule rbind_total [OF pj_string_total], goal_cases)
    case (1 x)
    obtain k q where x: "x = (k, q)" by (cases x)
    have q: "p < q" using pj_string_le 1 pj_ws_le [of p b e] unfolding x by (meson order.strict_trans1)
    show ?case unfolding x prod.case
    proof (rule rbind_total, goal_cases)
      case 1
      show ?case using Suc.IH [of "pj_ws b e q + 1"] n q pj_ws_le [of q b e] by simp
    next
      case (2 y)
      obtain v r where y: "y = (v, r)" by (cases y)
      have "pj_ws b e q + 1 \<le> r" using 2 pj_le unfolding y by blast
      then have "pj_object m b e n o2 (pj_ws b e r + 1) \<noteq> Inl NoReturn" if "pj_ws b e r < length b" for o2
        using Suc.IH [of "pj_ws b e r + 1" o2] n that q pj_ws_le [of q b e] pj_ws_le [of r b e] by simp
      then show ?case unfolding y by (auto simp: Let_def dest: byte_eq_lt)
    qed
  qed
  show ?case using V A O by blast
qed simp

lemma parseJsonBuffer_total: "parseJsonBuffer b s e m \<noteq> Inl NoReturn"
  unfolding parseJsonBuffer_def using pj_total [of b s "2 * (length b - s) + 2" m e "[]"]
  by (intro rbind_total) (auto simp del: pj_value.simps pj_array.simps pj_object.simps)

text \<open>C40: every json decoder returns, with or without source-text support in the runtime: no json text and no
  other byte string makes the byte parser or the reviver path loop.\<close>

theorem json_decoders_return:
  "jsonDecoder supported m b \<noteq> Inl NoReturn \<and> parseJsonBuffer b s e m \<noteq> Inl NoReturn"
  using parseJsonBuffer_total json_parse_total by (simp add: jsonDecoder_def bigintJsonParser_def asJson_def json_parse_def Let_def)

end
