(* ===== verification/Json_Spec.thy ===== *)
theory Json_Spec
  imports Json_Text Temporal
begin

section \<open>Declared JSON shapes (src/json.ts): types, predicates and the post-parse walk\<close>

text \<open>
  The shape of a json column as the user declares it, the parsing of a type declaration with its
  target, the predicates that choose the decode path, the order of the fields on the wire, and the two
  walks over a decoded value: the fix-ups of the interpreted engine and the application of the
  transform functions. A type declaration is an ASCII string. The functions after
  \<open>validateJsonSpec\<close> only meet declarations it accepted.
\<close>

subsection \<open>Type declarations\<close>

definition lower_char :: "char \<Rightarrow> char" where
  "lower_char c = (let n = of_char c :: nat in if 65 \<le> n \<and> n \<le> 90 then char_of (n + 32) else c)"

definition to_lower :: "string \<Rightarrow> string" where
  "to_lower s = map lower_char s"

definition space_char :: "char \<Rightarrow> bool" where
  "space_char c \<longleftrightarrow> (of_char c :: nat) \<in> {9, 10, 11, 12, 13, 32, 160}"

definition trim :: "string \<Rightarrow> string" where
  "trim s = rev (dropWhile space_char (rev (dropWhile space_char s)))"

definition ends_array :: "string \<Rightarrow> bool" where
  "ends_array s \<longleftrightarrow> 2 \<le> length s \<and> drop (length s - 2) s = ''[]''"

definition drop_array :: "string \<Rightarrow> string" where
  "drop_array s = take (length s - 2) s"

definition JS_TARGETS :: "string list" where
  "JS_TARGETS = [''number'', ''string'', ''latin1'', ''date'', ''ms'', ''bigint'', ''precise'', ''pretty'',
     ''tuple'', ''xy'', ''abc'', ''array'', ''f32'', ''sparse'', ''hex'', ''wkb'', ''geojson'']"

definition colon :: char where "colon = CHR '':''"

definition splitType :: "string \<Rightarrow> js_error + string \<times> string option" where
  "splitType s =
     (if colon \<notin> set s then Inr (trim s, None)
      else let js = to_lower (trim (tl (dropWhile (\<lambda>c. c \<noteq> colon) s))) in
        if js \<notin> set JS_TARGETS then Inl (Thrown ''unknown JS target'')
        else Inr (trim (takeWhile (\<lambda>c. c \<noteq> colon) s), Some js))"

text \<open>The parts of a declaration that is known to be valid.\<close>

definition split_valid :: "string \<Rightarrow> string \<times> string option" where
  "split_valid s = (case splitType s of Inr p \<Rightarrow> p | Inl _ \<Rightarrow> (trim s, None))"

definition NUMBER :: "string list" where
  "NUMBER = [''int2'', ''smallint'', ''int4'', ''int'', ''integer'', ''serial'', ''oid'', ''float4'', ''real'', ''float8'',
     ''double precision'']"

definition PRECISION :: "string list" where
  "PRECISION = [''int8'', ''bigint'', ''numeric'', ''decimal'', ''money'']"

definition BOOL :: "string list" where "BOOL = [''bool'', ''boolean'']"
definition RAWJSON :: "string list" where "RAWJSON = [''json'', ''jsonb'', ''unknown'']"
definition TEMPORAL :: "string list" where "TEMPORAL = [''date'', ''timestamp'', ''timestamptz'']"
definition BIGINT_PG :: "string list" where "BIGINT_PG = [''int8'', ''bigint'']"
definition FLOAT4_PG :: "string list" where "FLOAT4_PG = [''float4'', ''real'']"

definition canon :: "string \<Rightarrow> string" where
  "canon s = trim (to_lower s)"

datatype json_category = Cat_number | Cat_precision | Cat_bool | Cat_json | Cat_string

definition category :: "string \<Rightarrow> json_category" where
  "category alias = (let t = canon alias in
     if t \<in> set NUMBER then Cat_number else if t \<in> set PRECISION then Cat_precision
     else if t \<in> set BOOL then Cat_bool else if t \<in> set RAWJSON then Cat_json else Cat_string)"

definition effJs :: "json_category \<Rightarrow> string option \<Rightarrow> json_category" where
  "effJs cat js = (case js of
       Some j \<Rightarrow> if j = ''number'' then Cat_number else Cat_string
     | None \<Rightarrow> if cat \<in> {Cat_number, Cat_bool, Cat_json} then cat else Cat_string)"

datatype temporal_target = TT_date | TT_ms

definition temporalTarget :: "string \<Rightarrow> string option \<Rightarrow> temporal_target option" where
  "temporalTarget pg js =
     (if js = Some ''date'' then Some TT_date else if js = Some ''ms'' then Some TT_ms
      else if js = None \<and> canon pg \<in> set TEMPORAL then Some TT_date else None)"

definition bigintField :: "string \<Rightarrow> string option \<Rightarrow> bool" where
  "bigintField pg js \<longleftrightarrow> js = Some ''bigint'' \<or> (js = None \<and> canon pg \<in> set BIGINT_PG)"

datatype float4_target = F4_precise | F4_pretty

definition float4Target :: "string \<Rightarrow> string option \<Rightarrow> float4_target option" where
  "float4Target pg js =
     (if js = Some ''string'' then None
      else if canon pg \<notin> set FLOAT4_PG then None
      else if js = Some ''precise'' then Some F4_precise else Some F4_pretty)"

function arrayCore :: "string \<Rightarrow> string" where
  "arrayCore pg = (if ends_array pg then arrayCore (drop_array pg) else pg)"
  by pat_completeness auto
termination by (relation "measure length") (auto simp: ends_array_def drop_array_def)

declare arrayCore.simps [simp del]

subsection \<open>Shapes\<close>

text \<open>A marker: array or object, jsonb or json, given as an object literal or as entries, and its fields.
  A transform has its declared type, its id and the user's function.\<close>

datatype json_marker = JsonMarker (jm_array: bool) (jm_jsonb: bool) (jm_literal: bool) (jm_spec: "(jsstr \<times> json_field) list")
and json_field =
    JF_type string
  | JF_json json_marker
  | JF_transform string nat "dval \<Rightarrow> dres"
  | JF_custom int

text \<open>The type under a transform.\<close>

definition jsonBase :: "json_field \<Rightarrow> json_field" where
  "jsonBase f = (case f of JF_transform t _ _ \<Rightarrow> JF_type t | _ \<Rightarrow> f)"

text \<open>\<open>INDEX_KEY\<close> with the bound \<open>2 ^ 32 - 1\<close>.\<close>

definition index_key :: "jsstr \<Rightarrow> bool" where
  "index_key k \<longleftrightarrow> k \<noteq> [] \<and> list_all is_digit k \<and> (hd k = u16 48 \<longrightarrow> length k = 1) \<and> digits_val (digits_of k) < 4294967295"

definition specEntries :: "bool \<Rightarrow> (jsstr \<times> 'v) list \<Rightarrow> js_error + (jsstr \<times> 'v) list" where
  "specEntries literal_form es =
     (if \<not> literal_form then (if distinct (map fst es) then Inr es else Inl (Thrown ''duplicate shape key''))
      else if list_ex (\<lambda>(k, v). index_key k) es then Inl (Thrown ''integer shape key'') else Inr es)"

fun specHasPrecision :: "(jsstr \<times> json_field) list \<Rightarrow> bool" where
  "specHasPrecision [] = False"
| "specHasPrecision ((k, JF_json (JsonMarker a b c spec)) # fs) = (specHasPrecision spec \<or> specHasPrecision fs)"
| "specHasPrecision ((k, f) # fs) =
     ((case jsonBase f of
         JF_type t \<Rightarrow> (let (pg, js) = split_valid t; core = arrayCore pg in
             temporalTarget core js \<noteq> None \<or> (canon core \<in> set PRECISION \<and> js \<noteq> Some ''number''))
       | _ \<Rightarrow> False) \<or> specHasPrecision fs)"

fun specHasTransform :: "(jsstr \<times> json_field) list \<Rightarrow> bool" where
  "specHasTransform [] = False"
| "specHasTransform ((k, JF_json (JsonMarker a b c spec)) # fs) = (specHasTransform spec \<or> specHasTransform fs)"
| "specHasTransform ((k, JF_transform t i f) # fs) = True"
| "specHasTransform (f # fs) = specHasTransform fs"

text \<open>The fields the interpreted engine must fix up after \<open>JSON.parse\<close>.\<close>

definition stringified :: "string \<Rightarrow> string option \<Rightarrow> bool" where
  "stringified pg js \<longleftrightarrow> canon pg \<in> set PRECISION \<and> (js = Some ''string'' \<or> (js = None \<and> canon pg \<notin> set BIGINT_PG))"

definition type_needs_walk :: "string \<Rightarrow> bool" where
  "type_needs_walk t = (let (pg, js) = split_valid t; core = arrayCore pg in
     temporalTarget core js \<noteq> None \<or> bigintField core js \<or> float4Target core js = Some F4_precise \<or> stringified core js)"

fun specNeedsWalk :: "(jsstr \<times> json_field) list \<Rightarrow> bool" where
  "specNeedsWalk [] = False"
| "specNeedsWalk ((k, JF_transform t i f) # fs) = True"
| "specNeedsWalk ((k, JF_json (JsonMarker a b c spec)) # fs) = (specNeedsWalk spec \<or> specNeedsWalk fs)"
| "specNeedsWalk ((k, JF_type t) # fs) = (type_needs_walk t \<or> specNeedsWalk fs)"
| "specNeedsWalk ((k, JF_custom d) # fs) = specNeedsWalk fs"

definition validateField :: "json_field \<Rightarrow> js_error + unit" where
  "validateField f = (case f of
       JF_custom d \<Rightarrow> Inl (Thrown ''defineType in json shape'')
     | JF_type t \<Rightarrow> rbind (splitType t) (\<lambda>(pg, js).
         if ends_array pg \<and> canon (arrayCore pg) \<in> set RAWJSON then Inl (Thrown ''json array field'') else Inr ())
     | _ \<Rightarrow> Inr ())"

fun validateFields :: "(jsstr \<times> json_field) list \<Rightarrow> js_error + unit" where
  "validateFields [] = Inr ()"
| "validateFields ((k, JF_json (JsonMarker a b lit spec)) # fs) =
     rbind (specEntries lit spec) (\<lambda>_. rbind (validateFields spec) (\<lambda>_. validateFields fs))"
| "validateFields ((k, f) # fs) = rbind (validateField (jsonBase f)) (\<lambda>_. validateFields fs)"

definition validateJsonSpec :: "json_marker \<Rightarrow> js_error + unit" where
  "validateJsonSpec m = rbind (specEntries (jm_literal m) (jm_spec m)) (\<lambda>es. validateFields es)"

subsection \<open>Order of the fields on the wire\<close>

text \<open>jsonb sorts keys by length, then bytewise, in UTF-8.\<close>

fun bytes_less :: "bytes \<Rightarrow> bytes \<Rightarrow> bool" where
  "bytes_less _ [] = False"
| "bytes_less [] (y # ys) = True"
| "bytes_less (x # xs) (y # ys) = (x < y \<or> (x = y \<and> bytes_less xs ys))"

definition key_less :: "jsstr \<Rightarrow> jsstr \<Rightarrow> bool" where
  "key_less a b = (let ka = utf8 a; kb = utf8 b in length ka < length kb \<or> (length ka = length kb \<and> bytes_less ka kb))"

text \<open>The stable sort: an index goes after the ones not greater than it.\<close>

fun insert_idx :: "(nat \<Rightarrow> jsstr) \<Rightarrow> nat \<Rightarrow> nat list \<Rightarrow> nat list" where
  "insert_idx key i [] = [i]"
| "insert_idx key i (j # js) = (if key_less (key j) (key i) then j # insert_idx key i js else i # j # js)"

fun wire_sort :: "(nat \<Rightarrow> jsstr) \<Rightarrow> nat list \<Rightarrow> nat list" where
  "wire_sort key [] = []"
| "wire_sort key (i # is) = insert_idx key i (wire_sort key is)"

definition wireOrder :: "(jsstr \<times> 'v) list \<Rightarrow> bool \<Rightarrow> nat list" where
  "wireOrder es jsonb = (let idx = [0..<length es] in if \<not> jsonb then idx else wire_sort (\<lambda>i. fst (es ! i)) idx)"

end
