(* ===== verification/Json_Walk.thy ===== *)
theory Json_Walk
  imports Json_Spec
begin

section \<open>The walks over a decoded JSON value (src/json.ts)\<close>

text \<open>
  The interpreted engine decodes a shaped json column with \<open>JSON.parse\<close> and then fixes the
  declared fields up in place; the compiled engine only applies the transform functions. Both walk
  the object by key. \<open>Date.parse\<close> of a text that is not PostgreSQL's ISO form is left to the
  runtime and is a parameter; so are the user's functions. The source changes the object in place;
  the model returns the changed value.
\<close>

subsection \<open>String(number)\<close>

text \<open>The shortest decimal that rounds to the number: \<open>k\<close> significant digits of \<open>x\<close>, where
  \<open>10 powi (n - 1) \<le> x < 10 powi n\<close>.\<close>

function dec_exp :: "rat \<Rightarrow> nat \<Rightarrow> int \<Rightarrow> int" where
  "dec_exp x 0 n = n"
| "dec_exp x (Suc f) n = (if 10 powi n \<le> x then dec_exp x f (n + 1) else if x < 10 powi (n - 1) then dec_exp x f (n - 1) else n)"
  by pat_completeness auto
termination by (relation "measure (\<lambda>(x, f, n). f)") auto

definition candidate :: "rat \<Rightarrow> int \<Rightarrow> nat \<Rightarrow> nat" where
  "candidate x n k = nat (rnd_even (x / 10 powi (n - int k)))"

fun shortest :: "rat \<Rightarrow> int \<Rightarrow> nat \<Rightarrow> nat \<Rightarrow> nat \<times> nat" where
  "shortest x n k 0 = (candidate x n k, k)"
| "shortest x n k (Suc f) =
     (if double (of_nat (candidate x n k) * 10 powi (n - int k)) = Fin x then (candidate x n k, k)
      else shortest x n (k + 1) f)"

definition pos_string :: "rat \<Rightarrow> jsstr" where
  "pos_string x =
     (let n = dec_exp x 700 0; (s, k) = shortest x n 1 16; ds = dec_nat s;
          e = n - 1; es = (if 0 \<le> e then u16 43 # dec_nat (nat e) else u16 45 # dec_nat (nat (- e))) in
      if int k \<le> n \<and> n \<le> 21 then ds @ replicate (nat n - k) (u16 48)
      else if 0 < n \<and> n \<le> 21 then take (nat n) ds @ [u16 46] @ drop (nat n) ds
      else if - 6 < n \<and> n \<le> 0 then asc ''0.'' @ replicate (nat (- n)) (u16 48) @ ds
      else if k = 1 then ds @ [u16 101] @ es
      else take 1 ds @ [u16 46] @ drop 1 ds @ [u16 101] @ es)"

definition num_string :: "jnum \<Rightarrow> jsstr" where
  "num_string x = (case x of
       NaN \<Rightarrow> asc ''NaN''
     | Inf s \<Rightarrow> asc (if s then ''-Infinity'' else ''Infinity'')
     | NegZ \<Rightarrow> asc ''0''
     | Fin q \<Rightarrow> if q = 0 then asc ''0'' else if q < 0 then u16 45 # pos_string (- q) else pos_string q)"

subsection \<open>Fix-ups\<close>

text \<open>\<open>new Date(ms)\<close>.\<close>

definition js_date :: "jnum \<Rightarrow> dval" where
  "js_date x = DDate (case x of
       Fin q \<Rightarrow> if \<bar>q\<bar> \<le> of_int MAX_TIME then Some (if 0 \<le> q then \<lfloor>q\<rfloor> else \<lceil>q\<rceil>) else None
     | NegZ \<Rightarrow> Some 0 | _ \<Rightarrow> None)"

definition instant_num :: "instant \<Rightarrow> jnum" where
  "instant_num i = (case i of Ms t \<Rightarrow> double (of_int t) | _ \<Rightarrow> NaN)"

definition isoEpoch :: "(jsstr \<Rightarrow> jnum) \<Rightarrow> jsstr \<Rightarrow> jnum" where
  "isoEpoch dateParse s = (case instantFromString s of
       NotInstant \<Rightarrow>
         (if 10 < length s \<and> unat (last s) \<noteq> 90 \<and> \<not> list_ex (\<lambda>c. unat c \<in> {43, 45}) (drop 10 s)
          then dateParse (s @ [u16 90]) else dateParse s)
     | i \<Rightarrow> instant_num i)"

text \<open>\<open>BigInt(x)\<close> of a value that is not a bigint.\<close>

definition to_bigint :: "dval \<Rightarrow> dres" where
  "to_bigint v = (case v of
       DBig n \<Rightarrow> Inr (DBig n)
     | DStr s \<Rightarrow> rbind (js_bigint s) (\<lambda>n. Inr (DBig n))
     | DNum (Fin q) \<Rightarrow> if q = of_int \<lfloor>q\<rfloor> then Inr (DBig \<lfloor>q\<rfloor>) else Inl (Thrown ''RangeError'')
     | DNum NegZ \<Rightarrow> Inr (DBig 0)
     | DNum _ \<Rightarrow> Inl (Thrown ''RangeError'')
     | DBool b \<Rightarrow> Inr (DBig (if b then 1 else 0))
     | _ \<Rightarrow> Inl (Thrown ''SyntaxError''))"

definition scalar_fix :: "(jsstr \<Rightarrow> jnum) \<Rightarrow> string \<Rightarrow> string option \<Rightarrow> (dval \<Rightarrow> dres) option" where
  "scalar_fix dateParse pg js = (case temporalTarget pg js of
       Some TT_ms \<Rightarrow> Some (\<lambda>x. case x of DStr s \<Rightarrow> Inr (DNum (isoEpoch dateParse s)) | _ \<Rightarrow> Inr x)
     | Some TT_date \<Rightarrow> Some (\<lambda>x. case x of DStr s \<Rightarrow> Inr (js_date (isoEpoch dateParse s)) | _ \<Rightarrow> Inr x)
     | None \<Rightarrow>
         if bigintField pg js then Some to_bigint
         else if float4Target pg js = Some F4_precise then
           Some (\<lambda>x. case x of DNum n \<Rightarrow> Inr (DNum (fround n)) | _ \<Rightarrow> Inr x)
         else if stringified pg js then Some (\<lambda>x. case x of DNum n \<Rightarrow> Inr (DStr (num_string n)) | _ \<Rightarrow> Inr x)
         else None)"

text \<open>One declaration \<open>t[]\<close> covers every depth: an element that is an array is descended into.\<close>

fun fix_array :: "(dval \<Rightarrow> dres) \<Rightarrow> dval \<Rightarrow> dres"
  and fix_elems :: "(dval \<Rightarrow> dres) \<Rightarrow> dval list \<Rightarrow> js_error + dval list" where
  "fix_array el (DArr vs) = rbind (fix_elems el vs) (\<lambda>ws. Inr (DArr ws))"
| "fix_array el x = Inr x"
| "fix_elems el [] = Inr []"
| "fix_elems el (v # vs) =
     rbind (case v of DNull \<Rightarrow> Inr DNull | DArr ws \<Rightarrow> fix_array el (DArr ws) | _ \<Rightarrow> el v)
       (\<lambda>w. rbind (fix_elems el vs) (\<lambda>ws. Inr (w # ws)))"

function fixFor :: "(jsstr \<Rightarrow> jnum) \<Rightarrow> string \<Rightarrow> string option \<Rightarrow> (dval \<Rightarrow> dres) option" where
  "fixFor dateParse pg js =
     (if ends_array pg then map_option fix_array (fixFor dateParse (drop_array pg) js)
      else scalar_fix dateParse pg js)"
  by pat_completeness auto
termination by (relation "measure (\<lambda>(d, pg, js). length pg)") (auto simp: ends_array_def drop_array_def)

declare fixFor.simps [simp del]

subsection \<open>The walks\<close>

definition o_get :: "(jsstr \<times> dval) list \<Rightarrow> jsstr \<Rightarrow> dval option" where
  "o_get o1 k = map_of o1 k"

text \<open>\<open>for (const [k, f] of fns) { const val = o[k]; if (val != null) o[k] = f(val) }\<close>.\<close>

fun walkObj :: "(jsstr \<times> (dval \<Rightarrow> dres)) list \<Rightarrow> (jsstr \<times> dval) list \<Rightarrow> js_error + (jsstr \<times> dval) list" where
  "walkObj [] o1 = Inr o1"
| "walkObj ((k, f) # fns) o1 = (case o_get o1 k of
       None \<Rightarrow> walkObj fns o1
     | Some DNull \<Rightarrow> walkObj fns o1
     | Some v \<Rightarrow> rbind (f v) (\<lambda>w. walkObj fns (obj_set o1 k w)))"

definition walk_value :: "(jsstr \<times> (dval \<Rightarrow> dres)) list \<Rightarrow> dval \<Rightarrow> dres" where
  "walk_value fns v = (case v of DObj o1 \<Rightarrow> rbind (walkObj fns o1) (\<lambda>o2. Inr (DObj o2)) | _ \<Rightarrow> Inr v)"

definition walk_marker :: "bool \<Rightarrow> (jsstr \<times> (dval \<Rightarrow> dres)) list \<Rightarrow> dval \<Rightarrow> dres" where
  "walk_marker arr fns v =
     (if arr then (case v of DArr vs \<Rightarrow> rbind (rmap (walk_value fns) vs) (\<lambda>ws. Inr (DArr ws)) | _ \<Rightarrow> Inr v)
      else walk_value fns v)"

definition then_fn :: "(dval \<Rightarrow> dres) option \<Rightarrow> (dval \<Rightarrow> dres) option \<Rightarrow> (dval \<Rightarrow> dres) option" where
  "then_fn base xf = (case (base, xf) of
       (Some f, Some g) \<Rightarrow> Some (\<lambda>x. rbind (f x) g) | (None, Some g) \<Rightarrow> Some g | (b, None) \<Rightarrow> b)"

definition with_key :: "jsstr \<Rightarrow> (dval \<Rightarrow> dres) option \<Rightarrow> (jsstr \<times> (dval \<Rightarrow> dres)) list \<Rightarrow> (jsstr \<times> (dval \<Rightarrow> dres)) list" where
  "with_key k f fns = (case f of Some g \<Rightarrow> (k, g) # fns | None \<Rightarrow> fns)"

definition type_fix :: "(jsstr \<Rightarrow> jnum) \<Rightarrow> string \<Rightarrow> (dval \<Rightarrow> dres) option" where
  "type_fix dateParse t = (let (pg, js) = split_valid t in fixFor dateParse pg js)"

text \<open>The fix-ups of the interpreted engine, by field.\<close>

fun json_fixes :: "(jsstr \<Rightarrow> jnum) \<Rightarrow> (jsstr \<times> json_field) list \<Rightarrow> (jsstr \<times> (dval \<Rightarrow> dres)) list" where
  "json_fixes dateParse [] = []"
| "json_fixes dateParse ((k, JF_json (JsonMarker arr jb lit spec)) # fs) =
     with_key k (if specNeedsWalk spec then Some (walk_marker arr (json_fixes dateParse spec)) else None) (json_fixes dateParse fs)"
| "json_fixes dateParse ((k, JF_transform t i g) # fs) =
     with_key k (then_fn (type_fix dateParse t) (Some g)) (json_fixes dateParse fs)"
| "json_fixes dateParse ((k, JF_type t) # fs) = with_key k (type_fix dateParse t) (json_fixes dateParse fs)"
| "json_fixes dateParse ((k, JF_custom d) # fs) = json_fixes dateParse fs"

definition buildJsonWalk :: "(jsstr \<Rightarrow> jnum) \<Rightarrow> json_marker \<Rightarrow> dval \<Rightarrow> dres" where
  "buildJsonWalk dateParse m = walk_marker (jm_array m) (json_fixes dateParse (jm_spec m))"

text \<open>The transform functions alone.\<close>

fun transform_fns :: "(jsstr \<times> json_field) list \<Rightarrow> (jsstr \<times> (dval \<Rightarrow> dres)) list" where
  "transform_fns [] = []"
| "transform_fns ((k, JF_transform t i g) # fs) = (k, g) # transform_fns fs"
| "transform_fns ((k, JF_json (JsonMarker arr jb lit spec)) # fs) =
     with_key k (if specHasTransform spec then Some (walk_marker arr (transform_fns spec)) else None) (transform_fns fs)"
| "transform_fns (f # fs) = transform_fns fs"

definition buildJsonTransformWalk :: "json_marker \<Rightarrow> dval \<Rightarrow> dres" where
  "buildJsonTransformWalk m = walk_marker (jm_array m) (transform_fns (jm_spec m))"

subsection \<open>The walk is the identity when it is not needed\<close>

lemma canon_core: "\<not> ends_array pg \<Longrightarrow> arrayCore pg = pg"
  by (subst arrayCore.simps) simp

lemma fix_none:
  assumes "temporalTarget (arrayCore pg) js = None" "\<not> bigintField (arrayCore pg) js"
    "float4Target (arrayCore pg) js \<noteq> Some F4_precise" "\<not> stringified (arrayCore pg) js"
  shows "fixFor dateParse pg js = None"
  using assms
proof (induction dateParse pg js rule: fixFor.induct)
  case (1 d pg js)
  show ?case
  proof (cases "ends_array pg")
    case True
    then have "arrayCore pg = arrayCore (drop_array pg)" by (subst arrayCore.simps) simp
    with 1 True show ?thesis by (subst fixFor.simps) simp
  next
    case False
    with 1(2-5) show ?thesis by (subst fixFor.simps) (simp add: canon_core scalar_fix_def)
  qed
qed

lemma no_walk_no_fixes: "\<not> specNeedsWalk fs \<Longrightarrow> json_fixes dateParse fs = []"
proof (induction dateParse fs rule: json_fixes.induct)
  case (4 d k t fs)
  then show ?case
    using fix_none [of "fst (split_valid t)" "snd (split_valid t)" d]
    by (auto simp: type_needs_walk_def type_fix_def Let_def with_key_def split: prod.splits)
qed (auto simp: with_key_def)

lemma walk_nothing: "walk_marker arr [] v = Inr v"
proof -
  have "walk_value [] w = Inr w" for w by (cases w) (simp_all add: walk_value_def)
  then have "walk_value [] = Inr" by auto
  moreover have "rmap Inr vs = (Inr vs :: js_error + dval list)" for vs by (induction vs) auto
  ultimately show ?thesis by (cases v) (simp_all add: walk_marker_def)
qed

lemma no_transform_fns: "\<not> specHasTransform fs \<Longrightarrow> transform_fns fs = []"
  by (induction fs rule: specHasTransform.induct) (auto simp: with_key_def jsonBase_def)

text \<open>The two engines skip the walk over a decoded json value only when it would change nothing: a shape
  for which \<open>specNeedsWalk\<close> is false has no fix-up at all, and one for which
  \<open>specHasTransform\<close> is false no transform, at any depth.\<close>

theorem skipped_walk_identity:
  "(\<not> specNeedsWalk (jm_spec m) \<longrightarrow> buildJsonWalk dateParse m v = Inr v) \<and>
   (\<not> specHasTransform (jm_spec m) \<longrightarrow> buildJsonTransformWalk m v = Inr v)"
  by (simp add: buildJsonWalk_def buildJsonTransformWalk_def no_walk_no_fixes no_transform_fns walk_nothing)

theorem skipped_walk_identity_witness:
  "buildJsonWalk (\<lambda>s. NaN) (JsonMarker True False True [(asc ''id'', JF_type ''int4''), (asc ''n'', JF_type ''numeric:number'')])
     (DArr [DObj [(asc ''id'', DNum (Fin 7))]]) = Inr (DArr [DObj [(asc ''id'', DNum (Fin 7))]])"
proof -
  have "\<not> specNeedsWalk (jm_spec (JsonMarker True False True [(asc ''id'', JF_type ''int4''), (asc ''n'', JF_type ''numeric:number'')]))"
    by code_simp
  then show ?thesis using skipped_walk_identity by blast
qed

end
