(* ===== verification/Json_Scan.thy ===== *)
theory Json_Scan
  imports Json_Walk
begin

section \<open>The compiled JSON scanner (src/json.ts, inlineMarker)\<close>

text \<open>
  A shaped json column that holds a type \<open>JSON.parse\<close> cannot represent exactly is decoded by code
  generated for its shape: it reads the values by position straight from the bytes of the cell,
  never looking at a key. The definitions are the meaning of that code, snippet by snippet: a
  reader takes the buffer, the end of the cell and the cursor, and returns the value and the
  cursor after it. The array loops take fuel, twice the length of the cell and a little more.
\<close>

type_synonym reader = "bytes \<Rightarrow> nat \<Rightarrow> nat \<Rightarrow> js_error + dval \<times> nat"

subsection \<open>Cursor primitives\<close>

function sk_quote :: "bytes \<Rightarrow> nat \<Rightarrow> nat \<Rightarrow> nat" where
  "sk_quote b e p =
     (if p < e then (if byte_eq b p 92 then sk_quote b e (p + 2) else if byte_eq b p 34 then p + 1 else sk_quote b e (p + 1))
      else p)"
  by pat_completeness auto
termination by (relation "measure (\<lambda>(b, e, p). e - p)") auto

definition SKIPSTR :: "bytes \<Rightarrow> nat \<Rightarrow> nat \<Rightarrow> nat" where
  "SKIPSTR b e p = sk_quote b e (p + 1)"

function find_quote :: "bytes \<Rightarrow> nat \<Rightarrow> nat \<Rightarrow> nat" where
  "find_quote b e p = (if p < e \<and> \<not> byte_eq b p 34 then find_quote b e (p + 1) else p)"
  by pat_completeness auto
termination by (relation "measure (\<lambda>(b, e, p). e - p)") auto

function num_end :: "nat set \<Rightarrow> bytes \<Rightarrow> nat \<Rightarrow> nat \<Rightarrow> nat" where
  "num_end ex b e p =
     (if p < e \<and> p < length b \<and> (48 \<le> unat (b ! p) \<and> unat (b ! p) \<le> 57 \<or> unat (b ! p) \<in> ex) then num_end ex b e (p + 1) else p)"
  by pat_completeness auto
termination by (relation "measure (\<lambda>(ex, b, e, p). e - p)") auto

declare sk_quote.simps [simp del] find_quote.simps [simp del] num_end.simps [simp del]

definition token_end_at :: "nat set \<Rightarrow> bytes \<Rightarrow> nat \<Rightarrow> nat \<Rightarrow> nat" where
  "token_end_at ex b e p = num_end ex b e (if byte_eq b p 45 then p + 1 else p)"

definition NUM_CHARS :: "nat set" where "NUM_CHARS = {46, 43, 45, 101, 69}"

definition U8 :: "bytes \<Rightarrow> nat \<Rightarrow> nat \<Rightarrow> js_error + jsstr" where
  "U8 b s e = utf8_slice b (int s) (int e - int s)"

definition L1 :: "bytes \<Rightarrow> nat \<Rightarrow> nat \<Rightarrow> js_error + jsstr" where
  "L1 b s e = lat1 b (int s) (int e - int s)"

definition rdStr :: reader where
  "rdStr b e p =
     (let s = p + 1; (esc, q) = pj_quote b e False s in
      if esc then rbind (json_parse (to_string b (s - 1) (q + 1))) (\<lambda>v. Inr (v, q + 1))
      else rbind (U8 b s q) (\<lambda>t. Inr (DStr t, q + 1)))"

definition rdStrNum :: reader where
  "rdStrNum b e p = (let s = p + 1; q = find_quote b e s in rbind (L1 b s q) (\<lambda>t. Inr (DNum (js_number t), q + 1)))"

definition rdNum :: reader where
  "rdNum b e p = (let q = token_end_at NUM_CHARS b e p in rbind (L1 b p q) (\<lambda>t. Inr (DNum (js_number t), q)))"

definition rdRaw :: reader where
  "rdRaw b e p = (let q = token_end_at NUM_CHARS b e p in rbind (L1 b p q) (\<lambda>t. Inr (DStr t, q)))"

definition rdBigInt :: reader where
  "rdBigInt b e p =
     (if byte_eq b p 34 then
        (let s = p + 1; q = find_quote b e s in
         rbind (U8 b s q) (\<lambda>t. rbind (js_bigint t) (\<lambda>n. Inr (DBig n, q + 1))))
      else
        (let q = token_end_at {} b e p in rbind (L1 b p q) (\<lambda>t. rbind (js_bigint t) (\<lambda>n. Inr (DBig n, q)))))"

subsection \<open>Skipping a value\<close>

lemma sk_quote_le: "p \<le> sk_quote b e p"
  by (induction b e p rule: sk_quote.induct) (subst sk_quote.simps, auto)

function sk_nested :: "nat \<Rightarrow> nat \<Rightarrow> bytes \<Rightarrow> nat \<Rightarrow> nat \<Rightarrow> nat \<Rightarrow> nat" where
  "sk_nested op cl b e d p =
     (if p < e then
        (if byte_eq b p 34 then sk_nested op cl b e d (SKIPSTR b e p)
         else if byte_eq b p op then sk_nested op cl b e (d + 1) (p + 1)
         else if byte_eq b p cl then (if d \<le> 1 then p + 1 else sk_nested op cl b e (d - 1) (p + 1))
         else sk_nested op cl b e d (p + 1))
      else p)"
  by pat_completeness auto
termination
  by (relation "measure (\<lambda>(op, cl, b, e, d, p). e - p)") (auto simp: SKIPSTR_def intro!: diff_less_mono2 le_less_trans [OF _ less_le_trans [OF lessI sk_quote_le]])

function sk_scalar :: "bytes \<Rightarrow> nat \<Rightarrow> nat \<Rightarrow> nat" where
  "sk_scalar b e p = (if p < e \<and> \<not> (byte_eq b p 44 \<or> byte_eq b p 125 \<or> byte_eq b p 93) then sk_scalar b e (p + 1) else p)"
  by pat_completeness auto
termination by (relation "measure (\<lambda>(b, e, p). e - p)") auto

declare sk_nested.simps [simp del] sk_scalar.simps [simp del]

definition SKIPVALUE :: "bytes \<Rightarrow> nat \<Rightarrow> nat \<Rightarrow> nat" where
  "SKIPVALUE b e p0 =
     (let p = pj_ws b e p0 in
      if byte_eq b p 34 then SKIPSTR b e p
      else if byte_eq b p 123 then sk_nested 123 125 b e 0 p
      else if byte_eq b p 91 then sk_nested 91 93 b e 0 p
      else sk_scalar b e p)"

text \<open>\<open>SKIPOBJEND\<close>: to the end of the current object.\<close>

function sk_obj_end :: "bytes \<Rightarrow> nat \<Rightarrow> nat \<Rightarrow> nat \<Rightarrow> nat" where
  "sk_obj_end b e d p =
     (if p < e then
        (if byte_eq b p 34 then sk_obj_end b e d (SKIPSTR b e p)
         else if byte_eq b p 123 then sk_obj_end b e (d + 1) (p + 1)
         else if byte_eq b p 125 then (if d \<le> 1 then p + 1 else sk_obj_end b e (d - 1) (p + 1))
         else sk_obj_end b e d (p + 1))
      else p)"
  by pat_completeness auto
termination
  by (relation "measure (\<lambda>(b, e, d, p). e - p)") (auto simp: SKIPSTR_def intro!: diff_less_mono2 le_less_trans [OF _ less_le_trans [OF lessI sk_quote_le]])

declare sk_obj_end.simps [simp del]

subsection \<open>Scalar fields\<close>

definition or_null :: "reader \<Rightarrow> reader" where
  "or_null rd b e p = (if byte_eq b p 110 then Inr (DNull, p + 4) else rd b e p)"

definition inlineEpoch :: "(jsstr \<Rightarrow> jnum) \<Rightarrow> temporal_target \<Rightarrow> reader" where
  "inlineEpoch dateParse tt = or_null (\<lambda>b e p.
     let s = p + 1; q = find_quote b e s; (r, ok) = instantTemplate (at_bytes b) s q;
         ms = (if ok then (case r of Some t \<Rightarrow> double (of_int t) | None \<Rightarrow> NaN) else dateParse (to_string b s q)) in
     Inr (if tt = TT_date then js_date ms else DNum ms, q + 1))"

definition parse_slice :: reader where
  "parse_slice b e p = (let q = SKIPVALUE b e p in rbind (json_parse (to_string b p q)) (\<lambda>v. Inr (v, q)))"

definition rd_number :: reader where
  "rd_number b e p = (if byte_eq b p 34 then rdStrNum b e p else rdNum b e p)"

definition fround_value :: "dval \<Rightarrow> dval" where
  "fround_value v = (case v of DNum n \<Rightarrow> DNum (fround n) | _ \<Rightarrow> v)"

definition rd_scalar :: "(jsstr \<Rightarrow> jnum) \<Rightarrow> string \<Rightarrow> string option \<Rightarrow> reader" where
  "rd_scalar dateParse pg js =
     (case temporalTarget pg js of
        Some tt \<Rightarrow> inlineEpoch dateParse tt
      | None \<Rightarrow>
          if bigintField pg js then or_null rdBigInt
          else case float4Target pg js of
            Some F4_precise \<Rightarrow> (\<lambda>b e p. rbind (or_null rd_number b e p) (\<lambda>(v, q). Inr (fround_value v, q)))
          | Some F4_pretty \<Rightarrow> or_null rd_number
          | None \<Rightarrow> (case effJs (category pg) js of
                Cat_number \<Rightarrow> or_null rd_number
              | Cat_bool \<Rightarrow> or_null (\<lambda>b e p. Inr (DBool (byte_eq b p 116), if byte_eq b p 116 then p + 4 else p + 5))
              | Cat_json \<Rightarrow> or_null parse_slice
              | _ \<Rightarrow> or_null (\<lambda>b e p. if byte_eq b p 34 then rdStr b e p else rdRaw b e p)))"

subsection \<open>Arrays of scalars\<close>

fun rd_array :: "reader \<Rightarrow> bytes \<Rightarrow> nat \<Rightarrow> nat \<Rightarrow> nat \<Rightarrow> js_error + dval list \<times> nat"
  and rd_items :: "reader \<Rightarrow> bytes \<Rightarrow> nat \<Rightarrow> nat \<Rightarrow> nat \<Rightarrow> js_error + dval list \<times> nat" where
  "rd_array el b e 0 p = Inl NoReturn"
| "rd_array el b e (Suc n) p =
     (let q = pj_ws b e (p + 1) in if byte_eq b q 93 then Inr ([], q + 1) else rd_items el b e n q)"
| "rd_items el b e 0 p = Inl NoReturn"
| "rd_items el b e (Suc n) p =
     (if p < e then
        (let p1 = pj_ws b e p in
         rbind (if byte_eq b p1 91 then rbind (rd_array el b e n p1) (\<lambda>(vs, q). Inr (DArr vs, q)) else el b e p1)
           (\<lambda>(v, q0). let q = pj_ws b e q0 in
             if byte_eq b q 44 then rbind (rd_items el b e n (q + 1)) (\<lambda>(vs, r). Inr (v # vs, r))
             else if byte_eq b q 93 then Inr ([v], q + 1) else Inr ([v], q)))
      else Inr ([], p))"

definition array_reader :: "reader \<Rightarrow> reader" where
  "array_reader el b e p0 =
     (let p = pj_ws b e p0 in
      or_null (\<lambda>b e p. rbind (rd_array el b e (2 * (e - p) + 4) p) (\<lambda>(vs, q). Inr (DArr vs, q))) b e p)"

function rd_type :: "(jsstr \<Rightarrow> jnum) \<Rightarrow> string \<Rightarrow> string option \<Rightarrow> reader" where
  "rd_type dateParse pg js =
     (if ends_array pg then array_reader (rd_type dateParse (drop_array pg) js) else rd_scalar dateParse pg js)"
  by pat_completeness auto
termination by (relation "measure (\<lambda>(d, pg, js). length pg)") (auto simp: ends_array_def drop_array_def)

declare rd_type.simps [simp del]

subsection \<open>Objects and arrays of objects\<close>

text \<open>The key of a field and the colon, by position.\<close>

definition sk_key :: "bytes \<Rightarrow> nat \<Rightarrow> bool \<Rightarrow> nat \<Rightarrow> nat" where
  "sk_key b e first p =
     (let q = (if first then p else pj_ws b e (pj_ws b e p + 1)) in pj_ws b e (pj_ws b e (SKIPSTR b e q) + 1))"

text \<open>The values in wire order, each with its declared index.\<close>

fun rd_fields :: "(nat \<Rightarrow> reader) \<Rightarrow> nat list \<Rightarrow> bool \<Rightarrow> bytes \<Rightarrow> nat \<Rightarrow> nat \<Rightarrow> js_error + (nat \<times> dval) list \<times> nat" where
  "rd_fields rd [] first b e p = Inr ([], p)"
| "rd_fields rd (i # is) first b e p =
     rbind (rd i b e (sk_key b e first p)) (\<lambda>(v, q).
     rbind (rd_fields rd is False b e q) (\<lambda>(vs, r). Inr ((i, v) # vs, r)))"

definition at_index :: "(nat \<times> dval) list \<Rightarrow> nat \<Rightarrow> dval" where
  "at_index vs i = (case map_of vs i of Some v \<Rightarrow> v | None \<Rightarrow> DNull)"

text \<open>The object literal, in declared order.\<close>

definition declared_object :: "jsstr list \<Rightarrow> (nat \<times> dval) list \<Rightarrow> dval" where
  "declared_object ks vs = DObj (fold (\<lambda>(i, k) o1. obj_set o1 k (at_index vs i)) (enumerate 0 ks) [])"

definition inlineObject :: "bool \<Rightarrow> (jsstr \<times> reader) list \<Rightarrow> reader" where
  "inlineObject jsonb fs b e p0 =
     (let p = pj_ws b e p0 in
      or_null (\<lambda>b e p.
        let q = pj_ws b e (p + 1) in
        if byte_eq b q 125 then Inr (declared_object (map fst fs) [], q + 1)
        else rbind (rd_fields (\<lambda>i. snd (fs ! i)) (wireOrder fs jsonb) True b e q) (\<lambda>(vs, r).
          Inr (declared_object (map fst fs) vs, sk_obj_end b e 1 r))) b e p)"

fun rd_objects :: "reader \<Rightarrow> bytes \<Rightarrow> nat \<Rightarrow> nat \<Rightarrow> nat \<Rightarrow> js_error + dval list \<times> nat" where
  "rd_objects rd b e 0 p = Inl NoReturn"
| "rd_objects rd b e (Suc n) p =
     (if p < e then
        rbind (rd b e p) (\<lambda>(v, q0). let q = pj_ws b e q0 in
          if byte_eq b q 44 then rbind (rd_objects rd b e n (pj_ws b e (q + 1))) (\<lambda>(vs, r). Inr (v # vs, r))
          else if byte_eq b q 93 then Inr ([v], q + 1) else Inr ([v], q))
      else Inr ([], p))"

definition inlineArray :: "bool \<Rightarrow> (jsstr \<times> reader) list \<Rightarrow> reader" where
  "inlineArray jsonb fs b e p0 =
     (let p = pj_ws b e p0 in
      or_null (\<lambda>b e p.
        let q = pj_ws b e (p + 1) in
        if byte_eq b q 93 then Inr (DArr [], q + 1)
        else rbind (rd_objects (inlineObject jsonb fs) b e (e - p + 2) q) (\<lambda>(vs, r). Inr (DArr vs, r))) b e p)"

definition inlineMarker :: "bool \<Rightarrow> bool \<Rightarrow> (jsstr \<times> reader) list \<Rightarrow> reader" where
  "inlineMarker arr jsonb fs = (if arr then inlineArray jsonb fs else inlineObject jsonb fs)"

definition rd_declared :: "(jsstr \<Rightarrow> jnum) \<Rightarrow> string \<Rightarrow> reader" where
  "rd_declared dateParse t = (let (pg, js) = split_valid t in rd_type dateParse pg js)"

fun inlineFields :: "(jsstr \<Rightarrow> jnum) \<Rightarrow> (jsstr \<times> json_field) list \<Rightarrow> (jsstr \<times> reader) list" where
  "inlineFields dateParse [] = []"
| "inlineFields dateParse ((k, JF_json (JsonMarker arr jsonb lit spec)) # fs) =
     (k, if specHasPrecision spec then inlineMarker arr jsonb (inlineFields dateParse spec) else or_null parse_slice)
       # inlineFields dateParse fs"
| "inlineFields dateParse ((k, JF_transform t i f) # fs) = (k, rd_declared dateParse t) # inlineFields dateParse fs"
| "inlineFields dateParse ((k, JF_type t) # fs) = (k, rd_declared dateParse t) # inlineFields dateParse fs"
| "inlineFields dateParse ((k, JF_custom d) # fs) = inlineFields dateParse fs"

definition scan_marker :: "(jsstr \<Rightarrow> jnum) \<Rightarrow> json_marker \<Rightarrow> reader" where
  "scan_marker dateParse m = inlineMarker (jm_array m) (jm_jsonb m) (inlineFields dateParse (jm_spec m))"

subsection \<open>The plan of a column\<close>

datatype json_plan = Plan_fast | Plan_scan

definition genJsonParsers :: "json_marker \<Rightarrow> json_plan \<times> (dval \<Rightarrow> dres) option" where
  "genJsonParsers m =
     (if specHasPrecision (jm_spec m) then Plan_scan else Plan_fast,
      if specHasTransform (jm_spec m) then Some (buildJsonTransformWalk m) else None)"

text \<open>What the compiled mapper does with the bytes \<open>[o1, o1 + l)\<close> of the cell.\<close>

definition jit_json :: "(jsstr \<Rightarrow> jnum) \<Rightarrow> json_marker \<Rightarrow> bytes \<Rightarrow> nat \<Rightarrow> nat \<Rightarrow> dres" where
  "jit_json dateParse m b o1 l =
     (let (plan, walk) = genJsonParsers m in
      rbind (if plan = Plan_fast then rbind (utf8_slice b (int o1) (int l)) json_parse
             else rbind (scan_marker dateParse m b (o1 + l) o1) (\<lambda>(v, q). Inr v))
        (\<lambda>v. case walk of Some w \<Rightarrow> w v | None \<Rightarrow> Inr v))"

end
