(* ===== verification/Pool_State.thy ===== *)
theory Pool_State
  imports Prelude
begin

section \<open>The connection pool: state and operations (src/pool.ts)\<close>

text \<open>
  \<open>Pool\<close> as a record and one function per method. An \<open>async\<close> method is cut where it awaits: the part
  up to the await stores who is waiting for what, and the part after it is a function of its own
  that an event runs later, so other operations interleave exactly where the event loop lets them.
  A pooled \<open>Connection\<close> is a \<open>member\<close>: the observations the pool makes of it, which the environment
  changes at any time. Callers of \<open>acquire\<close> are numbered; the log holds how each promise settled
  (a promise settles once, later settlements are ignored), and \<open>p_held\<close> is the ghost record of who
  was handed which member and has not released it.
\<close>

subsection \<open>Errors and their classification\<close>

text \<open>What \<open>classify\<close> and \<open>isUntrustedCertificate\<close> read of a thrown value.\<close>

record err_obj =
  eo_code :: "string option"
  eo_name :: "string option"
  eo_message :: "string option"
  eo_fatal :: bool

datatype perr =
    ConnectErr err_obj          \<comment> \<open>what \<open>new Connection\<close> or \<open>connect()\<close> threw\<close>
  | PoolClosed
  | PoolEnded
  | TxGuard
  | AcquireTimeout bool         \<comment> \<open>with the hint that every holder sits idle in a transaction\<close>
  | RecoveryTimeout "perr option" \<comment> \<open>with the cause of the outage\<close>

definition FATAL_CODES :: "string list" where
  "FATAL_CODES = [''28P01'', ''28000'', ''3D000'', ''08004'']"

definition UNTRUSTED_CERTIFICATE_CODES :: "string list" where
  "UNTRUSTED_CERTIFICATE_CODES =
     [''DEPTH_ZERO_SELF_SIGNED_CERT'', ''SELF_SIGNED_CERT_IN_CHAIN'', ''UNABLE_TO_VERIFY_LEAF_SIGNATURE'',
      ''UNABLE_TO_GET_ISSUER_CERT'', ''UNABLE_TO_GET_ISSUER_CERT_LOCALLY'', ''CERT_UNTRUSTED'', ''CERT_REVOKED'',
      ''ERR_TLS_CERT_ALTNAME_INVALID'']"

text \<open>\<open>String.includes\<close>, and the case folding of a regular expression with the \<open>i\<close> flag on ASCII.\<close>

fun starts_with :: "string \<Rightarrow> string \<Rightarrow> bool" where
  "starts_with [] s = True"
| "starts_with (p # ps) [] = False"
| "starts_with (p # ps) (c # s) \<longleftrightarrow> p = c \<and> starts_with ps s"

fun str_includes :: "string \<Rightarrow> string \<Rightarrow> bool" where
  "str_includes [] p \<longleftrightarrow> p = []"
| "str_includes (c # s) p \<longleftrightarrow> starts_with p (c # s) \<or> str_includes s p"

definition fold_case :: "string \<Rightarrow> string" where
  "fold_case = map (\<lambda>c. if 65 \<le> (of_char c :: nat) \<and> (of_char c :: nat) \<le> 90 then char_of ((of_char c :: nat) + 32) else c)"

definition isUntrustedCertificate :: "err_obj \<Rightarrow> bool" where
  "isUntrustedCertificate e \<longleftrightarrow>
     (case eo_code e of Some c \<Rightarrow> c \<in> set UNTRUSTED_CERTIFICATE_CODES | None \<Rightarrow> False) \<or>
     (let m = (case eo_message e of Some m \<Rightarrow> m | None \<Rightarrow> '''') in
      eo_name e = Some ''InvalidData'' \<and> str_includes m ''invalid peer certificate'' \<and>
      \<not> (str_includes m ''Expired'' \<or> str_includes m ''NotValidYet''))"

text \<open>\<open>/exceeded .*quota/i\<close>: the two words on one line.\<close>

fun line_head :: "string \<Rightarrow> string" where
  "line_head [] = []"
| "line_head (c # s) = (if (of_char c :: nat) = 10 \<or> (of_char c :: nat) = 13 then [] else c # line_head s)"

fun exceeded_quota :: "string \<Rightarrow> bool" where
  "exceeded_quota [] = False"
| "exceeded_quota (c # s) \<longleftrightarrow>
     (starts_with ''exceeded '' (c # s) \<and> str_includes (line_head (drop 9 (c # s))) ''quota'') \<or> exceeded_quota s"

definition DISABLED_ENDPOINT :: "string \<Rightarrow> bool" where
  "DISABLED_ENDPOINT msg = (let m = fold_case msg in
     str_includes m ''endpoint is disabled'' \<or> str_includes m ''endpoint has been disabled'' \<or> str_includes m ''disabled endpoint'' \<or>
     str_includes m ''quota exceeded'' \<or> str_includes m ''quota exhausted'' \<or> exceeded_quota m)"

definition fatal_obj :: "err_obj \<Rightarrow> bool" where
  "fatal_obj e \<longleftrightarrow>
     (case eo_code e of Some c \<Rightarrow> c \<in> set FATAL_CODES | None \<Rightarrow> False) \<or>
     eo_fatal e \<or> isUntrustedCertificate e \<or>
     (case eo_message e of Some m \<Rightarrow> DISABLED_ENDPOINT m | None \<Rightarrow> False)"

text \<open>\<open>classify(err) === 'fatal'\<close>; the pool's own errors carry none of the markers.\<close>

definition classify_fatal :: "perr \<Rightarrow> bool" where
  "classify_fatal e = (case e of ConnectErr o_err \<Rightarrow> fatal_obj o_err | _ \<Rightarrow> False)"

subsection \<open>State\<close>

record member =
  pm_closed :: bool          \<comment> \<open>\<open>state === 'closed'\<close>\<close>
  pm_inTransaction :: bool
  pm_cancelSettled :: bool   \<comment> \<open>\<open>cancelSettled\<close> is a promise: a cancelled query is draining\<close>
  pm_busy :: bool            \<comment> \<open>\<open>stats.inflight || stats.queued\<close>\<close>

text \<open>Who awaits an \<open>open()\<close>: an \<open>acquire\<close>, \<open>refill\<close> on behalf of a parked waiter, or a probe loop
  in its \<open>n\<close>-th attempt.\<close>

datatype opener = For_acquire nat | For_refill nat | For_probe nat nat

record pool_cfg =
  k_max :: nat
  k_reconnect :: bool            \<comment> \<open>\<open>rcEnabled\<close>\<close>
  k_baseMs :: nat
  k_maxMs :: nat
  k_acquireMs :: nat             \<comment> \<open>\<open>acquireTimeoutMillis\<close>, 0 = wait forever\<close>
  k_idleMs :: nat                \<comment> \<open>\<open>idleTimeoutMillis\<close>, 0 = never evict\<close>
  k_txGuard :: bool
  k_invalid :: "err_obj option"  \<comment> \<open>what \<open>new Connection(cfg)\<close> throws for this configuration\<close>

record pool =
  p_idle :: "nat list"
  p_all :: "nat list"            \<comment> \<open>a JavaScript \<open>Set\<close>, in insertion order\<close>
  p_out :: "nat list"
  p_waiters :: "nat list"
  p_waitTimers :: "nat list"     \<comment> \<open>waiters whose acquire timer is armed\<close>
  p_closed :: bool
  p_idleTimers :: "nat list"
  p_down :: bool
  p_broken :: "perr option"
  p_recovered :: "nat list"      \<comment> \<open>acquirers waiting on recovery, their timers armed\<close>
  p_woken :: "nat list"          \<comment> \<open>\<open>waitForRecovery\<close> resolved, the rest of \<open>acquire\<close> still to run\<close>
  p_lastDownError :: "perr option"
  p_lastProbeError :: "perr option"
  p_probeWake :: "nat option"    \<comment> \<open>the loop whose nap \<open>probeTimer\<close> and \<open>probeWake\<close> refer to\<close>
  p_naps :: "(nat \<times> nat \<times> nat) list" \<comment> \<open>loop, attempt, backoff: armed nap timers\<close>
  p_rested :: "(nat \<times> nat) list" \<comment> \<open>nap over, the loop's next turn still to run\<close>
  p_opening :: "(nat \<times> opener) list" \<comment> \<open>\<open>connect()\<close> in progress\<close>
  p_opened :: "(opener \<times> (perr + nat)) list" \<comment> \<open>\<open>open()\<close> settled, its awaiter still to run\<close>
  p_draining :: "nat list"       \<comment> \<open>released, \<open>cancelSettled\<close> pending\<close>
  p_rollbacks :: "nat list"      \<comment> \<open>released inside a transaction, ROLLBACK pending\<close>
  p_marks :: "nat \<Rightarrow> bool"       \<comment> \<open>\<open>TxMark.active\<close>\<close>
  p_context :: "nat \<Rightarrow> nat option" \<comment> \<open>the mark of the async context an acquire runs in\<close>
  p_mem :: "nat \<Rightarrow> member"
  p_next :: nat
  p_nextCaller :: nat
  p_nextLoop :: nat
  p_probes :: nat                \<comment> \<open>ghost: how many opens the probe has started\<close>
  p_log :: "(nat \<times> (perr + nat)) list"
  p_held :: "(nat \<times> nat) list"   \<comment> \<open>ghost: caller and member\<close>

definition new_member :: member where
  "new_member = \<lparr>pm_closed = False, pm_inTransaction = False, pm_cancelSettled = False, pm_busy = False\<rparr>"

definition new_pool :: pool where
  "new_pool = \<lparr>p_idle = [], p_all = [], p_out = [], p_waiters = [], p_waitTimers = [], p_closed = False,
     p_idleTimers = [], p_down = False, p_broken = None, p_recovered = [], p_woken = [],
     p_lastDownError = None, p_lastProbeError = None, p_probeWake = None, p_naps = [], p_rested = [],
     p_opening = [], p_opened = [], p_draining = [], p_rollbacks = [], p_marks = (\<lambda>_. False),
     p_context = (\<lambda>_. None), p_mem = (\<lambda>_. new_member), p_next = 0, p_nextCaller = 0, p_nextLoop = 0,
     p_probes = 0, p_log = [], p_held = []\<rparr>"

text \<open>The constructor's defaults. A field that is \<open>undefined\<close> is \<open>None\<close>; \<open>c_rc\<close> is \<open>None\<close> for
  \<open>reconnect: false\<close>.\<close>

record reconnect_opts =
  ro_baseMs :: "nat option"
  ro_maxMs :: "nat option"
  ro_acquireTimeoutMs :: "nat option"
  ro_probeConnectTimeoutMs :: "nat option"

definition or_else :: "'a option \<Rightarrow> 'a \<Rightarrow> 'a" where
  "or_else x d = (case x of Some v \<Rightarrow> v | None \<Rightarrow> d)"

definition no_rc_opts :: reconnect_opts where
  "no_rc_opts = \<lparr>ro_baseMs = None, ro_maxMs = None, ro_acquireTimeoutMs = None, ro_probeConnectTimeoutMs = None\<rparr>"

definition pool_config ::
  "nat option \<Rightarrow> reconnect_opts option \<Rightarrow> nat option \<Rightarrow> nat option \<Rightarrow> bool option \<Rightarrow> err_obj option \<Rightarrow> pool_cfg" where
  "pool_config mx rc acq idl guard inval =
     (let ro = or_else rc no_rc_opts in
      \<lparr>k_max = or_else mx 10, k_reconnect = (rc \<noteq> None), k_baseMs = or_else (ro_baseMs ro) 50,
       k_maxMs = or_else (ro_maxMs ro) 2000, k_acquireMs = or_else acq 30000, k_idleMs = or_else idl 0,
       k_txGuard = (guard \<noteq> Some False), k_invalid = inval\<rparr>)"

definition probeConnectMs :: "reconnect_opts \<Rightarrow> nat option \<Rightarrow> nat" where
  "probeConnectMs ro connectTimeout =
     (let window = or_else (ro_acquireTimeoutMs ro) 30000;
          halfWindow = (if window > 0 then window div 2 else 5000)
      in max 1 (min (or_else connectTimeout 30000) (or_else (ro_probeConnectTimeoutMs ro) (min 5000 halfWindow))))"

subsection \<open>Sets, promises and timers\<close>

definition set_add :: "nat \<Rightarrow> nat list \<Rightarrow> nat list" where
  "set_add x xs = (if x \<in> set xs then xs else xs @ [x])"

definition set_delete :: "nat \<Rightarrow> nat list \<Rightarrow> nat list" where
  "set_delete x xs = filter (\<lambda>y. y \<noteq> x) xs"

definition is_settled :: "nat \<Rightarrow> pool \<Rightarrow> bool" where
  "is_settled w s \<longleftrightarrow> w \<in> fst ` set (p_log s)"

definition hand_over :: "nat \<Rightarrow> nat \<Rightarrow> pool \<Rightarrow> pool" where
  "hand_over w c s =
     (if is_settled w s then s else s\<lparr>p_log := p_log s @ [(w, Inr c)], p_held := p_held s @ [(w, c)]\<rparr>)"

definition reject_caller :: "nat \<Rightarrow> perr \<Rightarrow> pool \<Rightarrow> pool" where
  "reject_caller w e s = (if is_settled w s then s else s\<lparr>p_log := p_log s @ [(w, Inl e)]\<rparr>)"

text \<open>The two closures of a parked \<open>Waiter\<close>: clear its timer, settle its promise.\<close>

definition waiter_resolve :: "nat \<Rightarrow> nat \<Rightarrow> pool \<Rightarrow> pool" where
  "waiter_resolve w c s = hand_over w c (s\<lparr>p_waitTimers := set_delete w (p_waitTimers s)\<rparr>)"

definition waiter_reject :: "nat \<Rightarrow> perr \<Rightarrow> pool \<Rightarrow> pool" where
  "waiter_reject w e s = reject_caller w e (s\<lparr>p_waitTimers := set_delete w (p_waitTimers s)\<rparr>)"

definition end_member :: "nat \<Rightarrow> pool \<Rightarrow> pool" where
  "end_member c s = s\<lparr>p_mem := (p_mem s)(c := (p_mem s c)\<lparr>pm_closed := True\<rparr>)\<rparr>"

definition armIdleTimer :: "pool_cfg \<Rightarrow> nat \<Rightarrow> pool \<Rightarrow> pool" where
  "armIdleTimer k c s = (if k_idleMs k = 0 then s else s\<lparr>p_idleTimers := set_add c (p_idleTimers s)\<rparr>)"

definition idle_timer_fires :: "nat \<Rightarrow> pool \<Rightarrow> pool" where
  "idle_timer_fires c s =
     (let s1 = s\<lparr>p_idleTimers := set_delete c (p_idleTimers s)\<rparr> in
      if c \<in> set (p_idle s1)
      then end_member c (s1\<lparr>p_idle := remove1 c (p_idle s1), p_all := set_delete c (p_all s1)\<rparr>)
      else s1)"

definition clearIdleTimer :: "nat \<Rightarrow> pool \<Rightarrow> pool" where
  "clearIdleTimer c s = s\<lparr>p_idleTimers := set_delete c (p_idleTimers s)\<rparr>"

subsection \<open>Opening a connection\<close>

text \<open>\<open>open()\<close> up to its await: a configuration the constructor rejects fails at once, marked fatal.\<close>

definition start_open :: "pool_cfg \<Rightarrow> opener \<Rightarrow> pool \<Rightarrow> pool" where
  "start_open k by s =
     (case k_invalid k of
        Some e \<Rightarrow> s\<lparr>p_opened := p_opened s @ [(by, Inl (ConnectErr (e\<lparr>eo_fatal := True\<rparr>)))]\<rparr>
      | None \<Rightarrow> s\<lparr>p_all := set_add (p_next s) (p_all s), p_opening := p_opening s @ [(p_next s, by)],
                  p_mem := (p_mem s)(p_next s := new_member), p_next := Suc (p_next s)\<rparr>)"

definition connect_settles :: "nat \<Rightarrow> opener \<Rightarrow> err_obj option \<Rightarrow> pool \<Rightarrow> pool" where
  "connect_settles c by res s =
     (let s1 = s\<lparr>p_opening := remove1 (c, by) (p_opening s)\<rparr> in
      case res of
        None \<Rightarrow> s1\<lparr>p_opened := p_opened s1 @ [(by, Inr c)]\<rparr>
      | Some e \<Rightarrow> s1\<lparr>p_all := set_delete c (p_all s1), p_opened := p_opened s1 @ [(by, Inl (ConnectErr e))]\<rparr>)"

subsection \<open>The circuit breaker\<close>

definition backoff :: "pool_cfg \<Rightarrow> nat \<Rightarrow> nat" where
  "backoff k attempt = min (k_maxMs k) (k_baseMs k * 2 ^ attempt)"

text \<open>The head of the probe loop: sleep, or leave when the breaker closed or the pool ended.\<close>

definition probe_loop :: "pool_cfg \<Rightarrow> nat \<Rightarrow> nat \<Rightarrow> pool \<Rightarrow> pool" where
  "probe_loop k lp attempt s =
     (if p_down s \<and> \<not> p_closed s
      then s\<lparr>p_naps := p_naps s @ [(lp, attempt, backoff k attempt)], p_probeWake := Some lp\<rparr>
      else s)"

definition probe_wake :: "nat \<Rightarrow> pool \<Rightarrow> pool" where
  "probe_wake lp s =
     s\<lparr>p_probeWake := None, p_naps := filter (\<lambda>n. fst n \<noteq> lp) (p_naps s),
       p_rested := p_rested s @ map (\<lambda>n. (fst n, fst (snd n))) (filter (\<lambda>n. fst n = lp) (p_naps s))\<rparr>"

definition cancelProbeNap :: "pool \<Rightarrow> pool" where
  "cancelProbeNap s = (case p_probeWake s of None \<Rightarrow> s | Some lp \<Rightarrow> probe_wake lp s)"

definition onRecover :: "nat \<Rightarrow> pool \<Rightarrow> pool" where
  "onRecover w s =
     (if p_closed s then reject_caller w PoolClosed s
      else case p_broken s of Some e \<Rightarrow> reject_caller w e s | None \<Rightarrow> s\<lparr>p_woken := p_woken s @ [w]\<rparr>)"

definition wake_recovered :: "pool \<Rightarrow> pool" where
  "wake_recovered s = fold onRecover (p_recovered s) (s\<lparr>p_recovered := []\<rparr>)"

definition settleBreaker :: "pool \<Rightarrow> pool" where
  "settleBreaker s = wake_recovered (cancelProbeNap (s\<lparr>p_down := False\<rparr>))"

definition startProbe :: "pool_cfg \<Rightarrow> pool \<Rightarrow> pool" where
  "startProbe k s = probe_loop k (p_nextLoop s) 0 (s\<lparr>p_nextLoop := Suc (p_nextLoop s)\<rparr>)"

definition trip :: "pool_cfg \<Rightarrow> perr \<Rightarrow> pool \<Rightarrow> pool" where
  "trip k e s =
     (if classify_fatal e then settleBreaker (s\<lparr>p_broken := Some e\<rparr>)
      else if p_down s \<or> p_closed s then s
      else startProbe k (s\<lparr>p_lastDownError := Some e, p_lastProbeError := None, p_down := True\<rparr>))"

text \<open>The loop's turn after its nap.\<close>

definition probe_rested :: "pool_cfg \<Rightarrow> nat \<Rightarrow> nat \<Rightarrow> pool \<Rightarrow> pool" where
  "probe_rested k lp attempt s =
     (let s1 = s\<lparr>p_rested := remove1 (lp, attempt) (p_rested s)\<rparr> in
      if \<not> p_down s1 \<or> p_closed s1 then s1
      else start_open k (For_probe lp attempt) (s1\<lparr>p_probes := Suc (p_probes s1)\<rparr>))"

definition recovery_timeout :: "nat \<Rightarrow> pool \<Rightarrow> pool" where
  "recovery_timeout w s =
     reject_caller w (RecoveryTimeout (case p_lastProbeError s of Some e \<Rightarrow> Some e | None \<Rightarrow> p_lastDownError s))
       (s\<lparr>p_recovered := remove1 w (p_recovered s)\<rparr>)"

definition lastError :: "pool \<Rightarrow> perr option" where
  "lastError s = (case p_broken s of Some e \<Rightarrow> Some e | None \<Rightarrow>
     (case p_lastProbeError s of Some e \<Rightarrow> Some e | None \<Rightarrow> p_lastDownError s))"

subsection \<open>Checkout\<close>

definition waitForFree :: "pool_cfg \<Rightarrow> nat \<Rightarrow> pool \<Rightarrow> pool" where
  "waitForFree k w s =
     s\<lparr>p_waiters := p_waiters s @ [w],
       p_waitTimers := (if k_acquireMs k = 0 then p_waitTimers s else set_add w (p_waitTimers s))\<rparr>"

definition stuckHint :: "pool \<Rightarrow> bool" where
  "stuckHint s \<longleftrightarrow> p_out s \<noteq> [] \<and> list_all (\<lambda>c. pm_inTransaction (p_mem s c) \<and> \<not> pm_busy (p_mem s c)) (p_out s)"

definition acquire_timeout :: "nat \<Rightarrow> pool \<Rightarrow> pool" where
  "acquire_timeout w s =
     reject_caller w (AcquireTimeout (stuckHint s))
       (s\<lparr>p_waiters := remove1 w (p_waiters s), p_waitTimers := set_delete w (p_waitTimers s)\<rparr>)"

text \<open>The loop over \<open>idle\<close>: reuse the last live connection, evict the dead ones.\<close>

function take_idle :: "pool \<Rightarrow> nat option \<times> pool" where
  "take_idle s =
     (if p_idle s = [] then (None, s)
      else let c = last (p_idle s); s1 = clearIdleTimer c (s\<lparr>p_idle := butlast (p_idle s)\<rparr>) in
        if pm_closed (p_mem s1 c) then take_idle (s1\<lparr>p_all := set_delete c (p_all s1)\<rparr>)
        else (Some c, s1\<lparr>p_out := set_add c (p_out s1)\<rparr>))"
  by pat_completeness auto
termination by (relation "measure (\<lambda>s. length (p_idle s))") (auto simp: clearIdleTimer_def)

declare take_idle.simps [simp del]

text \<open>\<open>acquire\<close> after the recovery wait.\<close>

definition acquire_rest :: "pool_cfg \<Rightarrow> nat \<Rightarrow> pool \<Rightarrow> pool" where
  "acquire_rest k w s =
     (case take_idle s of
        (Some c, s1) \<Rightarrow> hand_over w c s1
      | (None, s1) \<Rightarrow> if length (p_all s1) < k_max k then start_open k (For_acquire w) s1 else waitForFree k w s1)"

definition in_guarded_tx :: "nat \<Rightarrow> pool \<Rightarrow> bool" where
  "in_guarded_tx w s = (case p_context s w of Some m \<Rightarrow> p_marks s m | None \<Rightarrow> False)"

definition acquire :: "pool_cfg \<Rightarrow> nat \<Rightarrow> pool \<Rightarrow> pool" where
  "acquire k w s =
     (if p_closed s then reject_caller w PoolClosed s
      else if in_guarded_tx w s then reject_caller w TxGuard s
      else case p_broken s of
        Some e \<Rightarrow> reject_caller w e s
      | None \<Rightarrow> if p_down s \<and> k_reconnect k then s\<lparr>p_recovered := p_recovered s @ [w]\<rparr> else acquire_rest k w s)"

definition acquire_recovered :: "pool_cfg \<Rightarrow> nat \<Rightarrow> pool \<Rightarrow> pool" where
  "acquire_recovered k w s = acquire_rest k w (s\<lparr>p_woken := remove1 w (p_woken s)\<rparr>)"

subsection \<open>Checkin\<close>

definition failWaiters :: "perr \<Rightarrow> pool \<Rightarrow> pool" where
  "failWaiters e s = fold (\<lambda>w. waiter_reject w e) (p_waiters s) (s\<lparr>p_waiters := []\<rparr>)"

definition checkin :: "pool_cfg \<Rightarrow> nat \<Rightarrow> pool \<Rightarrow> pool" where
  "checkin k c s =
     (if p_down s then settleBreaker (armIdleTimer k c (s\<lparr>p_idle := p_idle s @ [c]\<rparr>))
      else case p_waiters s of
        w # ws \<Rightarrow> waiter_resolve w c (s\<lparr>p_waiters := ws, p_out := set_add c (p_out s)\<rparr>)
      | [] \<Rightarrow> armIdleTimer k c (s\<lparr>p_idle := p_idle s @ [c]\<rparr>))"

function refill_loop :: "pool_cfg \<Rightarrow> pool \<Rightarrow> pool" where
  "refill_loop k s =
     (case p_waiters s of
        [] \<Rightarrow> s
      | w # ws \<Rightarrow> if length (p_all s) < k_max k then refill_loop k (start_open k (For_refill w) (s\<lparr>p_waiters := ws\<rparr>)) else s)"
  by pat_completeness auto
termination
  by (relation "measure (\<lambda>(k, s). length (p_waiters s))") (auto simp: start_open_def split: option.splits)

declare refill_loop.simps [simp del]

definition refill :: "pool_cfg \<Rightarrow> pool \<Rightarrow> pool" where
  "refill k s = (if p_down s \<or> p_closed s then s else refill_loop k s)"

definition reclaim :: "pool_cfg \<Rightarrow> nat \<Rightarrow> pool \<Rightarrow> pool" where
  "reclaim k c s =
     (if pm_closed (p_mem s c) then refill k (s\<lparr>p_all := set_delete c (p_all s)\<rparr>)
      else if p_closed s then end_member c (s\<lparr>p_all := set_delete c (p_all s)\<rparr>)
      else if pm_inTransaction (p_mem s c) then s\<lparr>p_rollbacks := p_rollbacks s @ [c]\<rparr>
      else checkin k c s)"

definition release :: "pool_cfg \<Rightarrow> nat \<Rightarrow> pool \<Rightarrow> pool" where
  "release k c s =
     (if c \<notin> set (p_out s) then s
      else let s1 = s\<lparr>p_out := set_delete c (p_out s)\<rparr> in
        if pm_cancelSettled (p_mem s1 c) then s1\<lparr>p_draining := p_draining s1 @ [c]\<rparr> else reclaim k c s1)"

definition cancel_settled :: "pool_cfg \<Rightarrow> nat \<Rightarrow> pool \<Rightarrow> pool" where
  "cancel_settled k c s = reclaim k c (s\<lparr>p_draining := remove1 c (p_draining s)\<rparr>)"

definition rollback_done :: "pool_cfg \<Rightarrow> nat \<Rightarrow> bool \<Rightarrow> pool \<Rightarrow> pool" where
  "rollback_done k c ok s =
     (let s1 = s\<lparr>p_rollbacks := remove1 c (p_rollbacks s)\<rparr> in
      if ok then checkin k c s1 else refill k (end_member c (s1\<lparr>p_all := set_delete c (p_all s1)\<rparr>)))"

subsection \<open>What awaited \<open>open()\<close>\<close>

definition acquire_opened :: "pool_cfg \<Rightarrow> nat \<Rightarrow> perr + nat \<Rightarrow> pool \<Rightarrow> pool" where
  "acquire_opened k w res s =
     (case res of
        Inr c \<Rightarrow> hand_over w c (s\<lparr>p_out := set_add c (p_out s)\<rparr>)
      | Inl e \<Rightarrow> if \<not> k_reconnect k then reject_caller w e s
                 else let s1 = trip k e s in
                   (case p_broken s1 of Some b \<Rightarrow> reject_caller w b s1 | None \<Rightarrow> acquire k w s1))"

definition refill_opened :: "pool_cfg \<Rightarrow> nat \<Rightarrow> perr + nat \<Rightarrow> pool \<Rightarrow> pool" where
  "refill_opened k w res s =
     (case res of
        Inr c \<Rightarrow> waiter_resolve w c (s\<lparr>p_out := set_add c (p_out s)\<rparr>)
      | Inl e \<Rightarrow> if \<not> k_reconnect k then waiter_reject w e s
                 else let s1 = trip k e (s\<lparr>p_waiters := w # p_waiters s\<rparr>) in
                   (case p_broken s1 of Some b \<Rightarrow> failWaiters b s1 | None \<Rightarrow> s1))"

definition probe_opened :: "pool_cfg \<Rightarrow> nat \<Rightarrow> nat \<Rightarrow> perr + nat \<Rightarrow> pool \<Rightarrow> pool" where
  "probe_opened k lp attempt res s =
     (case res of
        Inr c \<Rightarrow> settleBreaker ((armIdleTimer k c (s\<lparr>p_idle := p_idle s @ [c]\<rparr>))\<lparr>p_lastProbeError := None\<rparr>)
      | Inl e \<Rightarrow> let s1 = s\<lparr>p_lastProbeError := Some e\<rparr> in
                 if classify_fatal e then settleBreaker (s1\<lparr>p_broken := Some e\<rparr>)
                 else probe_loop k lp (Suc attempt) s1)"

definition open_continues :: "pool_cfg \<Rightarrow> opener \<Rightarrow> perr + nat \<Rightarrow> pool \<Rightarrow> pool" where
  "open_continues k by res s =
     (let s1 = s\<lparr>p_opened := remove1 (by, res) (p_opened s)\<rparr> in
      case by of For_acquire w \<Rightarrow> acquire_opened k w res s1
        | For_refill w \<Rightarrow> refill_opened k w res s1
        | For_probe lp n \<Rightarrow> probe_opened k lp n res s1)"

subsection \<open>Ending, transactions\<close>

definition end_pool :: "pool \<Rightarrow> pool" where
  "end_pool s =
     (let s1 = wake_recovered (failWaiters PoolEnded (cancelProbeNap (s\<lparr>p_closed := True\<rparr>))) in
      fold end_member (p_all s1) (s1\<lparr>p_idleTimers := [], p_all := [], p_idle := [], p_out := []\<rparr>))"

text \<open>\<open>withTx\<close>: its own checkout runs in the outer context, the callback under a fresh mark, and the
  mark is cleared before the connection is released.\<close>

definition tx_enter :: "pool_cfg \<Rightarrow> nat \<Rightarrow> pool \<Rightarrow> pool" where
  "tx_enter k m s = (if k_txGuard k then s\<lparr>p_marks := (p_marks s)(m := True)\<rparr> else s)"

definition tx_leave :: "pool_cfg \<Rightarrow> nat \<Rightarrow> nat \<Rightarrow> pool \<Rightarrow> pool" where
  "tx_leave k m c s = release k c (if k_txGuard k then s\<lparr>p_marks := (p_marks s)(m := False)\<rparr> else s)"

subsection \<open>Events\<close>

datatype pevent =
    Acquire "nat option"              \<comment> \<open>a new caller, in the context of a transaction mark or in none\<close>
  | Connect_settles nat opener "err_obj option"
  | Open_continues opener "perr + nat"
  | Recovered nat
  | Recovery_timeout nat
  | Acquire_timeout nat
  | Nap_over nat
  | Probe_turn nat nat
  | Idle_timer nat
  | Release nat nat                   \<comment> \<open>the caller who releases, and the member\<close>
  | Cancel_settled nat
  | Rollback_done nat bool
  | Member_changes nat member
  | Tx_enter nat
  | Tx_leave nat nat nat              \<comment> \<open>mark, caller, member\<close>
  | End_pool

fun pool_apply :: "pool_cfg \<Rightarrow> pevent \<Rightarrow> pool \<Rightarrow> pool" where
  "pool_apply k (Acquire m) s =
     acquire k (p_nextCaller s) (s\<lparr>p_nextCaller := Suc (p_nextCaller s), p_context := (p_context s)(p_nextCaller s := m)\<rparr>)"
| "pool_apply k (Connect_settles c by res) s = (if (c, by) \<in> set (p_opening s) then connect_settles c by res s else s)"
| "pool_apply k (Open_continues by res) s = (if (by, res) \<in> set (p_opened s) then open_continues k by res s else s)"
| "pool_apply k (Recovered w) s = (if w \<in> set (p_woken s) then acquire_recovered k w s else s)"
| "pool_apply k (Recovery_timeout w) s = (if w \<in> set (p_recovered s) then recovery_timeout w s else s)"
| "pool_apply k (Acquire_timeout w) s = (if w \<in> set (p_waitTimers s) then acquire_timeout w s else s)"
| "pool_apply k (Nap_over lp) s = (if lp \<in> fst ` set (p_naps s) then probe_wake lp s else s)"
| "pool_apply k (Probe_turn lp n) s = (if (lp, n) \<in> set (p_rested s) then probe_rested k lp n s else s)"
| "pool_apply k (Idle_timer c) s = (if c \<in> set (p_idleTimers s) then idle_timer_fires c s else s)"
| "pool_apply k (Release w c) s = release k c (s\<lparr>p_held := remove1 (w, c) (p_held s)\<rparr>)"
| "pool_apply k (Cancel_settled c) s = (if c \<in> set (p_draining s) then cancel_settled k c s else s)"
| "pool_apply k (Rollback_done c ok) s = (if c \<in> set (p_rollbacks s) then rollback_done k c ok s else s)"
| "pool_apply k (Member_changes c m) s = s\<lparr>p_mem := (p_mem s)(c := m)\<rparr>"
| "pool_apply k (Tx_enter m) s = tx_enter k m s"
| "pool_apply k (Tx_leave m w c) s = tx_leave k m c (s\<lparr>p_held := remove1 (w, c) (p_held s)\<rparr>)"
| "pool_apply k End_pool s = end_pool s"

text \<open>A caller releases what it holds, once.\<close>

definition well_behaved :: "pevent \<Rightarrow> pool \<Rightarrow> bool" where
  "well_behaved ev s = (case ev of
       Release w c \<Rightarrow> (w, c) \<in> set (p_held s)
     | Tx_leave m w c \<Rightarrow> (w, c) \<in> set (p_held s)
     | _ \<Rightarrow> True)"

definition pool_run :: "pool_cfg \<Rightarrow> pevent list \<Rightarrow> pool" where
  "pool_run k evs = fold (pool_apply k) evs new_pool"

definition pool_init :: "pool \<Rightarrow> bool" where
  "pool_init s \<longleftrightarrow> s = new_pool"

inductive pool_step :: "pool_cfg \<Rightarrow> pool \<Rightarrow> pool \<Rightarrow> bool" for k where
  pool_step: "well_behaved ev s \<Longrightarrow> pool_step k s (pool_apply k ev s)"

end
