(* ===== verification/Pool_Props.thy ===== *)
theory Pool_Props
  imports Pool_State "HOL-Library.Multiset"
begin

section \<open>The connection pool: invariants and properties\<close>

text \<open>
  Three invariants of every reachable pool, each proved operation by operation and lifted by the
  locale \<open>invariant_of\<close>: where the members are (a multiset that operations only move around),
  where the callers of \<open>acquire\<close> are (each unsettled one is parked somewhere that will settle it),
  and the circuit breaker (nobody waits for a recovery that no probe is working on).
\<close>

named_theorems member_kept \<open>what an operation does to the members' places\<close>
named_theorems caller_kept \<open>operations that keep every caller accounted for\<close>
named_theorems breaker_kept \<open>operations that keep the breaker's invariant\<close>

subsection \<open>Where the members are\<close>

text \<open>The members somewhere in the pool's machinery, and those in a caller's hands.\<close>

definition opened_members :: "(opener \<times> (perr + nat)) list \<Rightarrow> nat multiset" where
  "opened_members xs = mset (concat (map (\<lambda>x. case snd x of Inr c \<Rightarrow> [c] | Inl e \<Rightarrow> []) xs))"

definition places :: "pool \<Rightarrow> nat multiset" where
  "places s = mset (p_idle s) + mset (p_draining s) + mset (p_rollbacks s) + mset (map fst (p_opening s))
     + opened_members (p_opened s) + mset (map snd (p_held s))"

definition members_ok :: "pool \<Rightarrow> bool" where
  "members_ok s \<longleftrightarrow> (\<forall>c. count (places s) c \<le> 1) \<and> (\<forall>c. c \<in># places s \<longrightarrow> c < p_next s) \<and>
     (\<not> p_closed s \<longrightarrow> snd ` set (p_held s) \<subseteq> set (p_out s))"

lemma opened_members_simps [simp]:
  "opened_members [] = {#}"
  "opened_members (xs @ ys) = opened_members xs + opened_members ys"
  "opened_members [(by, Inr c)] = {#c#}"
  "opened_members [(by, Inl e)] = {#}"
  by (simp_all add: opened_members_def)

lemma opened_members_Cons: "opened_members (x # xs) = (case snd x of Inr c \<Rightarrow> add_mset c (opened_members xs) | Inl e \<Rightarrow> opened_members xs)"
  by (simp add: opened_members_def split: sum.splits)

lemma opened_members_remove1:
  "(by, res) \<in> set xs \<Longrightarrow> opened_members xs =
     (case res of Inr c \<Rightarrow> add_mset c (opened_members (remove1 (by, res) xs)) | Inl e \<Rightarrow> opened_members (remove1 (by, res) xs))"
  by (induction xs) (auto simp: opened_members_Cons split: sum.splits)

lemma mset_remove1_add: "c \<in> set xs \<Longrightarrow> mset xs = add_mset c (mset (remove1 c xs))"
  by simp

lemma mset_map_remove1: "x \<in> set xs \<Longrightarrow> mset (map f xs) = add_mset (f x) (mset (map f (remove1 x xs)))"
  by (induction xs) auto

lemma set_delete_set [simp]: "set (set_delete x xs) = set xs - {x}"
  by (auto simp: set_delete_def)

lemma set_add_set [simp]: "set (set_add x xs) = insert x (set xs)"
  by (auto simp: set_add_def)

text \<open>What an operation may do: create at most \<open>n\<close> new members, only move or drop the others, keep
  everything out that was out unless it is in \<open>back\<close>.\<close>

definition moves :: "nat multiset \<Rightarrow> pool \<Rightarrow> pool \<Rightarrow> bool" where
  "moves given s t \<longleftrightarrow> p_next s \<le> p_next t \<and>
     places t \<subseteq># given + places s + mset [p_next s..<p_next t] \<and>
     set (p_out s) \<subseteq> set (p_out t) \<and> snd ` set (p_held t) \<subseteq> snd ` set (p_held s) \<union> set (p_out t) \<and> p_closed t = p_closed s"

lemma movesI:
  "p_next t = p_next s \<Longrightarrow> places t \<subseteq># given + places s \<Longrightarrow> set (p_out s) \<subseteq> set (p_out t) \<Longrightarrow>
   snd ` set (p_held t) \<subseteq> snd ` set (p_held s) \<union> set (p_out t) \<Longrightarrow> p_closed t = p_closed s \<Longrightarrow> moves given s t"
  by (simp add: moves_def)

lemma moves_trans:
  assumes "moves a s t" "moves b t u"
  shows "moves (a + b) s u"
proof -
  obtain d where d: "p_next u = p_next t + d" using assms(2) by (auto simp: moves_def le_iff_add)
  have n: "mset [p_next s..<p_next u] = mset [p_next s..<p_next t] + mset [p_next t..<p_next u]"
    using assms(1) upt_add_eq_append [of "p_next s" "p_next t" d] by (simp add: moves_def d)
  have "places u \<subseteq># b + places t + mset [p_next t..<p_next u]" using assms(2) by (simp add: moves_def)
  also have "\<dots> \<subseteq># b + (a + places s + mset [p_next s..<p_next t]) + mset [p_next t..<p_next u]"
    using assms(1) by (simp add: moves_def)
  finally have "places u \<subseteq># a + b + places s + mset [p_next s..<p_next u]" using n by (simp add: ac_simps)
  moreover have "snd ` set (p_held u) \<subseteq> snd ` set (p_held s) \<union> set (p_out u)"
    using assms unfolding moves_def by blast
  ultimately show ?thesis using assms by (simp add: moves_def) (meson dual_order.trans)
qed

lemma moves_refl: "moves {#} s s"
  by (simp add: moves_def)

lemma moves_step: "moves a s t \<Longrightarrow> moves {#} t u \<Longrightarrow> moves a s u"
  using moves_trans [of a s t "{#}" u] by simp

lemma moves_first: "moves {#} s t \<Longrightarrow> moves a t u \<Longrightarrow> moves a s u"
  using moves_trans [of "{#}" s t a u] by simp

text \<open>Operations that touch none of the places.\<close>

lemma moves_same:
  assumes "p_next t = p_next s" "p_idle t = p_idle s" "p_draining t = p_draining s" "p_rollbacks t = p_rollbacks s"
    "p_opening t = p_opening s" "p_opened t = p_opened s" "p_held t = p_held s" "p_out t = p_out s" "p_closed t = p_closed s"
  shows "moves {#} s t"
  using assms by (simp add: moves_def places_def)

lemma moves_reject [member_kept]: "moves {#} s (reject_caller w e s)"
  by (simp add: reject_caller_def moves_same)

lemma moves_waiter_reject [member_kept]: "moves {#} s (waiter_reject w e s)"
  by (auto simp: waiter_reject_def intro!: moves_first [OF _ moves_reject] moves_same)

lemma moves_end_member [member_kept]: "moves {#} s (end_member c s)"
  by (simp add: end_member_def moves_same)

lemma moves_armIdleTimer [member_kept]: "moves {#} s (armIdleTimer k c s)"
  by (simp add: armIdleTimer_def moves_same)

lemma moves_probe_loop [member_kept]: "moves {#} s (probe_loop k lp n s)"
  by (simp add: probe_loop_def moves_same)

lemma moves_cancelProbeNap [member_kept]: "moves {#} s (cancelProbeNap s)"
  by (simp add: cancelProbeNap_def probe_wake_def moves_same split: option.splits)

lemma moves_onRecover [member_kept]: "moves {#} s (onRecover w s)"
  by (auto simp: onRecover_def moves_reject intro: moves_same split: option.splits)

lemma moves_fold: "(\<And>x s. moves {#} s (f x s)) \<Longrightarrow> moves {#} s (fold f xs s)"
  by (induction xs arbitrary: s) (auto intro: moves_refl moves_step)

lemma moves_wake [member_kept]: "moves {#} s (wake_recovered s)"
  unfolding wake_recovered_def by (rule moves_first [OF _ moves_fold]) (auto intro: moves_onRecover moves_same)

lemma moves_settleBreaker [member_kept]: "moves {#} s (settleBreaker s)"
  unfolding settleBreaker_def
  by (rule moves_first [OF _ moves_wake], rule moves_first [OF _ moves_cancelProbeNap]) (simp add: moves_same)

lemma moves_trip [member_kept]: "moves {#} s (trip k e s)"
  unfolding trip_def startProbe_def
  by (auto intro!: moves_refl moves_first [OF _ moves_settleBreaker] moves_first [OF _ moves_probe_loop] moves_same)

lemma moves_failWaiters [member_kept]: "moves {#} s (failWaiters e s)"
  unfolding failWaiters_def by (rule moves_first [OF _ moves_fold]) (auto intro: moves_waiter_reject moves_same)

lemma moves_waitForFree [member_kept]: "moves {#} s (waitForFree k w s)"
  by (simp add: waitForFree_def moves_same)

lemma moves_start_open [member_kept]: "moves {#} s (start_open k by s)"
  by (simp add: start_open_def moves_def places_def split: option.splits)

text \<open>Operations that are given a member.\<close>

lemma moves_hand_over: "c \<in> set (p_out s) \<Longrightarrow> moves {#c#} s (hand_over w c s)"
  by (auto simp: hand_over_def moves_def places_def)

lemma moves_waiter_resolve: "c \<in> set (p_out s) \<Longrightarrow> moves {#c#} s (waiter_resolve w c s)"
  unfolding waiter_resolve_def by (rule moves_first [OF _ moves_hand_over]) (auto intro: moves_same)

lemma moves_to_idle: "moves {#c#} s (s\<lparr>p_idle := p_idle s @ [c]\<rparr>)"
  by (auto simp: moves_def places_def)

lemma moves_to_out: "moves {#} s (s\<lparr>p_waiters := ws, p_out := set_add c (p_out s)\<rparr>)"
  by (auto simp: moves_def places_def)

lemma moves_out: "moves {#} s (s\<lparr>p_out := set_add c (p_out s)\<rparr>)"
  by (auto simp: moves_def places_def)

lemma moves_checkin: "moves {#c#} s (checkin k c s)"
  unfolding checkin_def
  by (auto intro!: moves_step [OF moves_to_idle] moves_step [OF _ moves_settleBreaker] moves_armIdleTimer
      moves_first [OF moves_to_out moves_waiter_resolve] split: list.splits)

lemma moves_refill_loop: "moves {#} s (refill_loop k s)"
proof (induction k s rule: refill_loop.induct)
  case (1 k s)
  show ?case
  proof (cases "p_waiters s")
    case (Cons w ws)
    have "moves {#} s (start_open k (For_refill w) (s\<lparr>p_waiters := ws\<rparr>))"
      by (rule moves_first [OF _ moves_start_open]) (simp add: moves_same)
    with 1 Cons show ?thesis by (subst refill_loop.simps) (auto intro: moves_first moves_refl)
  qed (subst refill_loop.simps, simp add: moves_refl)
qed

lemma moves_refill [member_kept]: "moves {#} s (refill k s)"
  by (simp add: refill_def moves_refl moves_refill_loop)

lemma moves_all: "moves {#} s (s\<lparr>p_all := xs\<rparr>)"
  by (simp add: moves_same)

lemma moves_given: "moves {#} s t \<Longrightarrow> moves a s t"
  by (auto simp: moves_def intro: subset_mset.order_trans mset_subset_eq_add_right)

lemma moves_reclaim: "moves {#c#} s (reclaim k c s)"
proof -
  have "moves {#c#} s (refill k (s\<lparr>p_all := xs\<rparr>))" "moves {#c#} s (end_member c (s\<lparr>p_all := xs\<rparr>))" for xs
    by (rule moves_given, rule moves_first [OF moves_all], rule member_kept)+
  moreover have "moves {#c#} s (s\<lparr>p_rollbacks := p_rollbacks s @ [c]\<rparr>)"
    by (simp add: moves_def places_def)
  ultimately show ?thesis by (simp add: reclaim_def moves_checkin)
qed

lemma sub_add_mset: "A \<subseteq># B \<Longrightarrow> A \<subseteq># add_mset x B"
  by (auto simp: subseteq_mset_def intro: le_SucI)

text \<open>\<open>take_idle\<close> takes the member it returns out of \<open>idle\<close> and drops the dead ones.\<close>

lemma take_idle_moves:
  "take_idle s = (r, t) \<Longrightarrow> mset (case r of Some c \<Rightarrow> [c] | None \<Rightarrow> []) + places t \<subseteq># places s \<and>
     p_next t = p_next s \<and> set (p_out s) \<subseteq> set (p_out t) \<and> p_held t = p_held s \<and> p_closed t = p_closed s \<and>
     (\<forall>c. r = Some c \<longrightarrow> c \<in> set (p_out t))"
proof (induction s rule: take_idle.induct)
  case (1 s)
  let ?c = "last (p_idle s)" and ?s1 = "clearIdleTimer (last (p_idle s)) (s\<lparr>p_idle := butlast (p_idle s)\<rparr>)"
  show ?case
  proof (cases "p_idle s = []")
    case False
    then have "p_idle s = butlast (p_idle s) @ [?c]" by simp
    then have "mset (p_idle s) = add_mset ?c (mset (butlast (p_idle s)))" by (metis mset_append mset.simps union_mset_add_mset_right add.right_neutral)
    then have pl: "places s = add_mset ?c (places ?s1)" by (simp add: places_def clearIdleTimer_def)
    have sub: "places (?s1\<lparr>p_all := xs\<rparr>) = places ?s1" "places (?s1\<lparr>p_out := ys\<rparr>) = places ?s1" for xs ys
      by (simp_all add: places_def)
    show ?thesis
    proof (cases "pm_closed (p_mem ?s1 ?c)")
      case True
      with 1 False pl sub(1) [of "set_delete ?c (p_all ?s1)"] show ?thesis
        by (subst (asm) (2) take_idle.simps) (auto simp: Let_def clearIdleTimer_def intro: sub_add_mset)
    next
      case no: False
      with 1(2) False pl sub show ?thesis
        by (subst (asm) take_idle.simps) (auto simp: Let_def clearIdleTimer_def)
    qed
  qed (use 1(2) in \<open>subst (asm) take_idle.simps, auto\<close>)
qed

lemma moves_take:
  assumes "add_mset c (places s0) \<subseteq># places s" "p_next s0 = p_next s" "set (p_out s) \<subseteq> set (p_out s0)"
    "snd ` set (p_held s0) \<subseteq> snd ` set (p_held s)" "p_closed s0 = p_closed s" "moves {#c#} s0 t"
  shows "moves {#} s t"
proof -
  have "places t \<subseteq># add_mset c (places s0) + mset [p_next s..<p_next t]"
    using assms(2,6) by (simp add: moves_def)
  also have "\<dots> \<subseteq># places s + mset [p_next s..<p_next t]" using assms(1) by (simp add: subset_mset.add_right_mono)
  finally have "places t \<subseteq># places s + mset [p_next s..<p_next t]" .
  moreover have "snd ` set (p_held t) \<subseteq> snd ` set (p_held s) \<union> set (p_out t)"
    using assms(4,6) unfolding moves_def by blast
  ultimately show ?thesis using assms by (auto simp: moves_def)
qed

lemma moves_acquire_rest [member_kept]: "moves {#} s (acquire_rest k w s)"
proof (cases "take_idle s")
  case (Pair r t)
  note f = take_idle_moves [OF Pair]
  show ?thesis
  proof (cases r)
    case None
    with f have "moves {#} s t" by (simp add: moves_def)
    then show ?thesis
      using Pair None by (auto simp: acquire_rest_def intro: moves_first moves_start_open moves_waitForFree)
  next
    case (Some c)
    with f Pair show ?thesis
      by (auto simp: acquire_rest_def intro!: moves_take [OF _ _ _ _ _ moves_hand_over [of c t w]])
  qed
qed

lemma moves_acquire [member_kept]: "moves {#} s (acquire k w s)"
  by (auto simp: acquire_def moves_reject moves_acquire_rest moves_same split: option.splits)

lemma moves_acquire_opened: "moves (case res of Inr c \<Rightarrow> {#c#} | Inl e \<Rightarrow> {#}) s (acquire_opened k w res s)"
proof (cases res)
  case (Inl e)
  show ?thesis
    by (simp add: Inl acquire_opened_def Let_def moves_reject moves_first [OF moves_trip moves_reject]
        moves_first [OF moves_trip moves_acquire] split: option.split)
qed (simp add: acquire_opened_def moves_first [OF moves_out moves_hand_over])

lemma moves_refill_opened: "moves (case res of Inr c \<Rightarrow> {#c#} | Inl e \<Rightarrow> {#}) s (refill_opened k w res s)"
proof (cases res)
  case (Inl e)
  have t: "moves {#} s (trip k e (s\<lparr>p_waiters := ws\<rparr>))" for ws
    by (rule moves_first [OF _ moves_trip]) (simp add: moves_same)
  show ?thesis
    by (simp add: Inl refill_opened_def Let_def moves_waiter_reject t moves_step [OF t moves_failWaiters] split: option.split)
qed (simp add: refill_opened_def moves_first [OF moves_out moves_waiter_resolve])

lemma moves_probe_opened: "moves (case res of Inr c \<Rightarrow> {#c#} | Inl e \<Rightarrow> {#}) s (probe_opened k lp n res s)"
proof -
  have 1: "moves {#c#} s (settleBreaker ((armIdleTimer k c (s\<lparr>p_idle := p_idle s @ [c]\<rparr>))\<lparr>p_lastProbeError := x\<rparr>))" for c x
    by (rule moves_step [OF moves_to_idle], rule moves_first [OF moves_armIdleTimer [of _ k c]], rule moves_first [OF _ moves_settleBreaker])
      (simp add: moves_same)
  have 2: "moves {#} s (settleBreaker (s\<lparr>p_lastProbeError := x, p_broken := y\<rparr>))" for x y
    by (rule moves_first [OF _ moves_settleBreaker]) (simp add: moves_same)
  have 3: "moves {#} s (probe_loop k lp m (s\<lparr>p_lastProbeError := x\<rparr>))" for m x
    by (rule moves_first [OF _ moves_probe_loop]) (simp add: moves_same)
  show ?thesis using 1 2 3 by (simp add: probe_opened_def Let_def split: sum.splits)
qed

lemma moves_open_continues:
  assumes "(by, res) \<in> set (p_opened s)"
  shows "moves {#} s (open_continues k by res s)"
proof -
  let ?s1 = "s\<lparr>p_opened := remove1 (by, res) (p_opened s)\<rparr>"
  let ?given = "case res of Inr c \<Rightarrow> {#c#} | Inl e \<Rightarrow> {#}"
  have t: "moves ?given ?s1 (open_continues k by res s)"
    by (simp add: open_continues_def Let_def moves_acquire_opened moves_refill_opened moves_probe_opened split: opener.splits)
  have p: "places s = ?given + places ?s1"
    using opened_members_remove1 [OF assms] by (auto simp: places_def split: sum.splits)
  show ?thesis
  proof (cases res)
    case (Inl e)
    then have "moves {#} s ?s1" using p by (simp add: moves_def)
    with t Inl show ?thesis by (auto intro: moves_first)
  next
    case (Inr c)
    with p t show ?thesis by (auto intro!: moves_take [of c ?s1])
  qed
qed

lemma moves_probe_rested: "moves {#} s (probe_rested k lp n s)"
proof -
  have "moves {#} s (start_open k b (s\<lparr>p_rested := xs, p_probes := m\<rparr>))" for b xs m
    by (rule moves_first [OF _ moves_start_open]) (simp add: moves_same)
  then show ?thesis by (simp add: probe_rested_def Let_def moves_same)
qed

lemma moves_cancel_settled: "c \<in> set (p_draining s) \<Longrightarrow> moves {#} s (cancel_settled k c s)"
  unfolding cancel_settled_def by (rule moves_take [OF _ _ _ _ _ moves_reclaim]) (simp_all add: places_def)

lemma moves_rollback_done:
  assumes "c \<in> set (p_rollbacks s)"
  shows "moves {#} s (rollback_done k c ok s)"
proof -
  let ?s1 = "s\<lparr>p_rollbacks := remove1 c (p_rollbacks s)\<rparr>"
  have "moves {#c#} ?s1 (refill k (end_member c (?s1\<lparr>p_all := xs\<rparr>)))" for xs
    by (rule moves_given, rule moves_first [OF moves_all], rule moves_first [OF moves_end_member moves_refill])
  then have "moves {#c#} ?s1 (rollback_done k c ok s)" by (simp add: rollback_done_def Let_def moves_checkin)
  then show ?thesis by (rule moves_take [rotated -1]) (use assms in \<open>simp_all add: places_def\<close>)
qed

lemma moves_connect_settles: "(c, by) \<in> set (p_opening s) \<Longrightarrow> moves {#} s (connect_settles c by res s)"
  using mset_map_remove1 [of "(c, by)" "p_opening s" fst]
  by (auto simp: connect_settles_def Let_def moves_def places_def split: option.splits)

lemma moves_idle_timer: "moves {#} s (idle_timer_fires c s)"
proof -
  have "moves {#} s (s\<lparr>p_idleTimers := xs, p_idle := remove1 c (p_idle s), p_all := ys\<rparr>)" for xs ys
    by (simp add: moves_def places_def)
  then show ?thesis by (simp add: idle_timer_fires_def Let_def moves_same moves_step [OF _ moves_end_member])
qed

text \<open>Every step keeps the members in place.\<close>

lemma members_ok_moves:
  assumes "members_ok s" "moves {#} s t"
  shows "members_ok t"
proof -
  have le: "count (places t) c \<le> count (places s) c + count (mset [p_next s..<p_next t]) c" for c
    using assms(2) by (simp add: moves_def subseteq_mset_def)
  have one: "count (mset [p_next s..<p_next t]) c \<le> 1" "c < p_next s \<Longrightarrow> count (mset [p_next s..<p_next t]) c = 0"
    "p_next t \<le> c \<Longrightarrow> count (mset [p_next s..<p_next t]) c = 0" for c
    by (auto simp: count_eq_zero_iff count_mset_set')
  have old: "count (places s) c \<le> 1" "\<not> c < p_next s \<Longrightarrow> count (places s) c = 0" for c
    using assms(1) by (auto simp: members_ok_def not_in_iff)
  have "count (places t) c \<le> 1" for c
  proof (cases "c < p_next s")
    case True
    with le [of c] one(2) [of c] old(1) [of c] show ?thesis by linarith
  next
    case False
    with le [of c] one(1) [of c] old(2) [of c] show ?thesis by linarith
  qed
  moreover have "c < p_next t" if "c \<in># places t" for c
  proof (rule ccontr)
    assume n: "\<not> c < p_next t"
    then have "\<not> c < p_next s" using assms(2) by (simp add: moves_def)
    then have "count (places s) c = 0" using assms(1) by (auto simp: members_ok_def not_in_iff)
    with le [of c] one(3) [of c] n that show False by (simp add: count_eq_zero_iff del: mset_upt)
  qed
  moreover have "snd ` set (p_held t) \<subseteq> set (p_out t)" if "\<not> p_closed t"
    using assms that unfolding members_ok_def moves_def by blast
  ultimately show ?thesis by (simp add: members_ok_def)
qed

lemma members_ok_sub:
  assumes "members_ok s" "places t \<subseteq># places s" "p_next t = p_next s" "\<not> p_closed t \<Longrightarrow> snd ` set (p_held t) \<subseteq> set (p_out t)"
  shows "members_ok t"
proof -
  have "count (places t) c \<le> 1" for c
    using mset_subset_eq_count [OF assms(2), of c] assms(1) unfolding members_ok_def by (meson le_trans)
  moreover have "c < p_next t" if "c \<in># places t" for c
    using mset_subset_eqD [OF assms(2) that] assms(1,3) unfolding members_ok_def by auto
  ultimately show ?thesis using assms(4) unfolding members_ok_def by blast
qed

lemma members_ok_release:
  assumes ok: "members_ok s" and h: "(w, c) \<in> set (p_held s)"
  shows "members_ok (release k c (s\<lparr>p_held := remove1 (w, c) (p_held s), p_marks := m\<rparr>))"
proof -
  let ?s0 = "s\<lparr>p_held := remove1 (w, c) (p_held s), p_marks := m\<rparr>"
  let ?s1 = "?s0\<lparr>p_out := set_delete c (p_out ?s0)\<rparr>"
  have pl: "places s = add_mset c (places ?s1)" "places ?s0 = places ?s1"
    using mset_map_remove1 [OF h, of snd] by (simp_all add: places_def)
  have sub: "snd ` set (p_held ?s0) \<subseteq> snd ` set (p_held s)"
    using set_remove1_subset [of "(w, c)" "p_held s"] by (simp add: image_mono)
  have "count (places s) c \<le> 1" using ok by (simp add: members_ok_def)
  then have "count (places ?s1) c = 0" using pl(1) by simp
  then have "c \<notin># places ?s1" by (simp add: not_in_iff)
  then have gone: "c \<notin> snd ` set (p_held ?s1)" by (simp add: places_def del: mset_map mset_remove1)
  have out: "snd ` set (p_held ?s0) \<subseteq> set (p_out s)" if "\<not> p_closed s"
    using ok that sub unfolding members_ok_def by (meson subset_trans)
  have ok0: "members_ok ?s0"
    by (rule members_ok_sub [OF ok]) (use out pl in simp_all)
  have ok1: "members_ok ?s1"
    by (rule members_ok_sub [OF ok]) (use out pl gone in auto)
  show ?thesis
  proof (cases "c \<in> set (p_out ?s0)")
    case False
    then show ?thesis using ok0 by (simp add: release_def)
  next
    case True
    let ?t = "release k c ?s0"
    have "moves {#c#} ?s1 (?s1\<lparr>p_draining := p_draining ?s1 @ [c]\<rparr>)" by (simp add: moves_def places_def)
    with True moves_reclaim [of c ?s1 k] have m: "moves {#c#} ?s1 ?t" by (simp add: release_def Let_def)
    let ?s2 = "?s1\<lparr>p_idle := p_idle ?s1 @ [c]\<rparr>"
    have p2: "places ?s2 = add_mset c (places ?s1)" by (simp add: places_def)
    have "members_ok ?s2" using ok ok1 pl p2 by (simp add: members_ok_def)
    moreover have "moves {#} ?s2 ?t"
      by (rule moves_take [OF _ _ _ _ _ m]) (simp_all add: p2 [simplified])
    ultimately show ?thesis by (rule members_ok_moves)
  qed
qed

lemma members_ok_end:
  assumes "members_ok s"
  shows "members_ok (end_pool s)"
proof -
  let ?s0 = "s\<lparr>p_closed := True\<rparr>"
  let ?s1 = "wake_recovered (failWaiters PoolEnded (cancelProbeNap ?s0))"
  have "members_ok ?s0" using assms by (simp add: members_ok_def places_def)
  moreover have "moves {#} ?s0 ?s1"
    by (rule moves_first [OF moves_cancelProbeNap], rule moves_first [OF moves_failWaiters moves_wake])
  ultimately have ok: "members_ok ?s1" and cl: "p_closed ?s1" by (auto intro: members_ok_moves simp: moves_def)
  let ?s2 = "?s1\<lparr>p_idleTimers := [], p_all := [], p_idle := [], p_out := []\<rparr>"
  have sub: "places ?s2 \<subseteq># places ?s1" by (simp add: places_def)
  have "members_ok ?s2"
    by (rule members_ok_sub [OF ok sub]) (use cl in simp_all)
  moreover have "moves {#} ?s2 (fold end_member (p_all ?s1) ?s2)" by (rule moves_fold [OF moves_end_member])
  ultimately show ?thesis by (auto simp: end_pool_def Let_def intro: members_ok_moves)
qed

lemma members_ok_apply:
  assumes ok: "members_ok s" and w: "well_behaved ev s"
  shows "members_ok (pool_apply k ev s)"
proof -
  have held: "s\<lparr>p_held := xs\<rparr> = s\<lparr>p_held := xs, p_marks := p_marks s\<rparr>" for xs by simp
  have acq: "moves {#} s (acquire k v (s\<lparr>p_nextCaller := n, p_context := x\<rparr>))" for v n x
    by (rule moves_first [OF _ moves_acquire]) (simp add: moves_same)
  have rec: "moves {#} s (acquire_recovered k v s)" for v
    unfolding acquire_recovered_def by (rule moves_first [OF _ moves_acquire_rest]) (simp add: moves_same)
  have tout: "moves {#} s (recovery_timeout v s)" "moves {#} s (acquire_timeout v s)" for v
    unfolding recovery_timeout_def acquire_timeout_def
    by (rule moves_first [OF _ moves_reject], simp add: moves_same)+
  show ?thesis
  proof (cases ev)
    case (Release v c)
    then show ?thesis using members_ok_release [OF ok, of v c k "p_marks s"] w by (simp add: well_behaved_def)
  next
    case (Tx_leave m v c)
    then show ?thesis
      using members_ok_release [OF ok, of v c k] w
      by (auto simp: well_behaved_def tx_leave_def) (metis held)+
  next
    case End_pool
    then show ?thesis using members_ok_end [OF ok] by simp
  qed (auto intro!: members_ok_moves [OF ok] moves_refl acq rec tout moves_connect_settles moves_open_continues
      moves_probe_rested moves_idle_timer moves_cancel_settled moves_rollback_done
      simp: probe_wake_def tx_enter_def moves_same)
qed

lemma members_ok_new: "members_ok new_pool"
  by (simp add: members_ok_def places_def new_pool_def)

interpretation pool_members: invariant_of pool_init "pool_step k" members_ok for k
  by unfold_locales (auto simp: pool_init_def members_ok_new members_ok_apply elim: pool_step.cases)

subsection \<open>Where the callers are\<close>

definition openers :: "pool \<Rightarrow> opener set" where
  "openers s = snd ` set (p_opening s) \<union> fst ` set (p_opened s)"

text \<open>An acquire that has not settled: woken by the recovery, waiting for it (with its timer armed),
  opening a connection, or parked at the limit with its timer armed unless timeouts are off.\<close>

definition accounted :: "pool_cfg \<Rightarrow> nat \<Rightarrow> pool \<Rightarrow> bool" where
  "accounted k w s \<longleftrightarrow> is_settled w s \<or> w \<in> set (p_recovered s) \<or> w \<in> set (p_woken s) \<or> For_acquire w \<in> openers s \<or>
     (w \<in> set (p_waiters s) \<or> For_refill w \<in> openers s) \<and> (k_acquireMs k = 0 \<or> w \<in> set (p_waitTimers s))"

definition keeps_callers :: "pool_cfg \<Rightarrow> pool \<Rightarrow> pool \<Rightarrow> bool" where
  "keeps_callers k s t \<longleftrightarrow> p_nextCaller t = p_nextCaller s \<and> (\<forall>w. accounted k w s \<longrightarrow> accounted k w t)"

lemma keeps_refl: "keeps_callers k s s"
  by (simp add: keeps_callers_def)

lemma keeps_trans: "keeps_callers k s t \<Longrightarrow> keeps_callers k t u \<Longrightarrow> keeps_callers k s u"
  by (simp add: keeps_callers_def)

lemma keepsI:
  assumes "p_nextCaller t = p_nextCaller s" "set (p_log s) \<subseteq> set (p_log t)" "set (p_recovered s) \<subseteq> set (p_recovered t)" "set (p_woken s) \<subseteq> set (p_woken t)"
    "openers s \<subseteq> openers t" "set (p_waiters s) \<subseteq> set (p_waiters t)" "set (p_waitTimers s) \<subseteq> set (p_waitTimers t)"
  shows "keeps_callers k s t"
  using assms unfolding keeps_callers_def accounted_def is_settled_def by blast

lemma settled_reject [simp]: "is_settled v (reject_caller w e s) \<longleftrightarrow> v = w \<or> is_settled v s"
  by (auto simp: reject_caller_def is_settled_def)

lemma settled_hand_over [simp]: "is_settled v (hand_over w c s) \<longleftrightarrow> v = w \<or> is_settled v s"
  by (auto simp: hand_over_def is_settled_def)

lemma settled_waiter [simp]:
  "is_settled v (waiter_resolve w c s) \<longleftrightarrow> v = w \<or> is_settled v s"
  "is_settled v (waiter_reject w e s) \<longleftrightarrow> v = w \<or> is_settled v s"
  by (auto simp: waiter_resolve_def waiter_reject_def) (auto simp: is_settled_def)

lemma settled_accounted: "is_settled w s \<Longrightarrow> accounted k w s"
  by (simp add: accounted_def)

text \<open>What the operations leave alone.\<close>

lemma callers_upd [simp]:
  "openers (s\<lparr>p_waiters := x\<rparr>) = openers s" "openers (s\<lparr>p_out := y\<rparr>) = openers s" "openers (s\<lparr>p_idle := y\<rparr>) = openers s"
  "openers (s\<lparr>p_recovered := x\<rparr>) = openers s" "openers (s\<lparr>p_woken := x\<rparr>) = openers s" "openers (s\<lparr>p_waitTimers := x\<rparr>) = openers s"
  "is_settled w (s\<lparr>p_waiters := x\<rparr>) = is_settled w s" "is_settled w (s\<lparr>p_out := y\<rparr>) = is_settled w s"
  "is_settled w (s\<lparr>p_recovered := x\<rparr>) = is_settled w s" "is_settled w (s\<lparr>p_woken := x\<rparr>) = is_settled w s"
  "is_settled w (s\<lparr>p_waitTimers := x\<rparr>) = is_settled w s" "is_settled w (s\<lparr>p_idle := y\<rparr>) = is_settled w s"
  by (simp_all add: openers_def is_settled_def)

lemma start_open_fields [simp]:
  "p_nextCaller (start_open k b s) = p_nextCaller s" "p_waiters (start_open k b s) = p_waiters s"
  "p_recovered (start_open k b s) = p_recovered s" "p_woken (start_open k b s) = p_woken s"
  "p_waitTimers (start_open k b s) = p_waitTimers s" "is_settled w (start_open k b s) = is_settled w s"
  "openers (start_open k b s) = insert b (openers s)"
  by (auto simp: start_open_def openers_def is_settled_def split: option.splits)

lemma reject_fields [simp]:
  "p_nextCaller (reject_caller w e s) = p_nextCaller s" "p_recovered (reject_caller w e s) = p_recovered s" "p_woken (reject_caller w e s) = p_woken s"
  "openers (reject_caller w e s) = openers s" "p_waiters (reject_caller w e s) = p_waiters s"
  "p_waitTimers (reject_caller w e s) = p_waitTimers s" "p_closed (reject_caller w e s) = p_closed s"
  "p_broken (reject_caller w e s) = p_broken s"
  by (auto simp: reject_caller_def openers_def)

lemma hand_over_fields [simp]:
  "p_nextCaller (hand_over w e s) = p_nextCaller s" "p_recovered (hand_over w e s) = p_recovered s" "p_woken (hand_over w e s) = p_woken s"
  "openers (hand_over w e s) = openers s" "p_waiters (hand_over w e s) = p_waiters s"
  "p_waitTimers (hand_over w e s) = p_waitTimers s"
  by (auto simp: hand_over_def openers_def)

lemma waiter_fields [simp]:
  "p_nextCaller (waiter_resolve w c s) = p_nextCaller s" "p_nextCaller (waiter_reject w e s) = p_nextCaller s"
  "p_recovered (waiter_resolve w c s) = p_recovered s" "p_woken (waiter_resolve w c s) = p_woken s"
  "openers (waiter_resolve w c s) = openers s" "p_waiters (waiter_resolve w c s) = p_waiters s"
  "p_waitTimers (waiter_resolve w c s) = set_delete w (p_waitTimers s)"
  "p_recovered (waiter_reject w e s) = p_recovered s" "p_woken (waiter_reject w e s) = p_woken s"
  "openers (waiter_reject w e s) = openers s" "p_waiters (waiter_reject w e s) = p_waiters s"
  "p_waitTimers (waiter_reject w e s) = set_delete w (p_waitTimers s)"
  by (auto simp: waiter_resolve_def waiter_reject_def)

lemma keeps_reject [caller_kept]: "keeps_callers k s (reject_caller w e s)"
  by (auto simp: keeps_callers_def accounted_def)

lemma keeps_hand_over [caller_kept]: "keeps_callers k s (hand_over w c s)"
  by (auto simp: keeps_callers_def accounted_def)

lemma keeps_waiter [caller_kept]:
  "keeps_callers k s (waiter_resolve w c s)" "keeps_callers k s (waiter_reject w e s)"
  by (auto simp: keeps_callers_def accounted_def)

lemma keeps_same:
  assumes "p_nextCaller t = p_nextCaller s" "p_log t = p_log s" "p_recovered t = p_recovered s" "p_woken t = p_woken s"
    "p_opening t = p_opening s" "p_opened t = p_opened s" "p_waiters t = p_waiters s" "p_waitTimers t = p_waitTimers s"
  shows "keeps_callers k s t"
  by (rule keepsI) (simp_all add: assms openers_def)

lemma keeps_start_open [caller_kept]: "keeps_callers k s (start_open k b s)"
  by (rule keepsI) (auto simp: start_open_def openers_def split: option.splits)

lemma opener_start_open: "b \<in> openers (start_open k b s)"
  by (simp add: start_open_def openers_def split: option.splits)

text \<open>A fold that settles or wakes each element of a list.\<close>

lemma fold_accounts:
  assumes "\<And>x s. keeps_callers k s (f x s)" "\<And>x s. accounted k x (f x s)"
  shows "keeps_callers k s (fold f xs s) \<and> (\<forall>x\<in>set xs. accounted k x (fold f xs s))"
proof (induction xs arbitrary: s)
  case (Cons x xs)
  then have "keeps_callers k (f x s) (fold f xs (f x s))" by blast
  with Cons assms(2) [of x s] assms(1) [of s x] show ?case unfolding keeps_callers_def by auto
qed (simp add: keeps_refl)

lemma onRecover_accounts: "keeps_callers k s (onRecover w s)" "accounted k w (onRecover w s)"
proof -
  have "keeps_callers k s (s\<lparr>p_woken := p_woken s @ [w]\<rparr>)" by (rule keepsI) (auto simp: openers_def)
  then show "keeps_callers k s (onRecover w s)" by (simp add: onRecover_def keeps_reject split: option.splits)
qed (auto simp: onRecover_def accounted_def split: option.splits)

lemma keeps_emptied:
  assumes f: "keeps_callers k s0 t" "\<forall>w\<in>set ws. accounted k w t"
    and s: "p_nextCaller s0 = p_nextCaller s" "\<And>w. accounted k w s \<Longrightarrow> w \<notin> set ws \<Longrightarrow> accounted k w s0"
  shows "keeps_callers k s t"
  using assms unfolding keeps_callers_def by auto

lemma keeps_wake [caller_kept]: "keeps_callers k s (wake_recovered s)"
proof -
  have f: "keeps_callers k (s\<lparr>p_recovered := []\<rparr>) (wake_recovered s)" "\<forall>w\<in>set (p_recovered s). accounted k w (wake_recovered s)"
    using fold_accounts [where f = onRecover and k = k, OF onRecover_accounts] by (auto simp: wake_recovered_def)
  show ?thesis by (rule keeps_emptied [OF f]) (auto simp: accounted_def is_settled_def openers_def)
qed

lemma keeps_failWaiters [caller_kept]: "keeps_callers k s (failWaiters e s)"
proof -
  have "accounted k w (waiter_reject w e t)" for w t by (simp add: accounted_def)
  from fold_accounts [where f = "\<lambda>w. waiter_reject w e" and k = k, OF keeps_waiter(2) this]
  have f: "keeps_callers k (s\<lparr>p_waiters := []\<rparr>) (failWaiters e s)" "\<forall>w\<in>set (p_waiters s). accounted k w (failWaiters e s)"
    by (auto simp: failWaiters_def)
  show ?thesis by (rule keeps_emptied [OF f]) (auto simp: accounted_def is_settled_def openers_def)
qed

lemma keeps_probes [caller_kept]:
  "keeps_callers k s (cancelProbeNap s)" "keeps_callers k s (probe_loop k lp n s)" "keeps_callers k s (armIdleTimer k c s)"
  "keeps_callers k s (end_member c s)" "keeps_callers k s (probe_wake lp s)"
  by (auto simp: cancelProbeNap_def probe_wake_def probe_loop_def armIdleTimer_def end_member_def
      intro: keeps_same keeps_refl split: option.splits)

lemma keeps_settleBreaker [caller_kept]: "keeps_callers k s (settleBreaker s)"
  unfolding settleBreaker_def
  by (rule keeps_trans [OF keeps_trans [OF keeps_same keeps_probes(1)] keeps_wake]) simp_all

lemma keeps_trip [caller_kept]: "keeps_callers k s (trip k e s)"
proof -
  have "keeps_callers k s (settleBreaker (s\<lparr>p_broken := x\<rparr>))" for x
    by (rule keeps_trans [OF keeps_same keeps_settleBreaker]) simp_all
  moreover have "keeps_callers k s (probe_loop k lp 0 (s\<lparr>p_lastDownError := x, p_lastProbeError := y, p_down := True, p_nextLoop := n\<rparr>))"
    for lp x y n by (rule keeps_trans [OF keeps_same keeps_probes(2)]) simp_all
  ultimately show ?thesis by (simp add: trip_def startProbe_def keeps_refl)
qed

lemma waitForFree_accounts: "keeps_callers k s (waitForFree k w s)" "accounted k w (waitForFree k w s)"
  by (rule keepsI, auto simp: waitForFree_def openers_def accounted_def)

lemma take_idle_callers: "take_idle s = (r, t) \<Longrightarrow> keeps_callers k s t"
proof (induction s rule: take_idle.induct)
  case (1 s)
  let ?c = "last (p_idle s)" and ?s1 = "clearIdleTimer (last (p_idle s)) (s\<lparr>p_idle := butlast (p_idle s)\<rparr>)"
  have s1: "keeps_callers k s (?s1\<lparr>p_all := xs\<rparr>)" "keeps_callers k s (?s1\<lparr>p_out := xs\<rparr>)" for xs
    by (rule keeps_same; simp add: clearIdleTimer_def)+
  show ?case
  proof (cases "p_idle s = []")
    case True
    with 1(2) show ?thesis by (subst (asm) take_idle.simps) (auto simp: keeps_refl)
  next
    case False
    show ?thesis
    proof (cases "pm_closed (p_mem ?s1 ?c)")
      case True
      with 1 False s1(1) show ?thesis by (subst (asm) (2) take_idle.simps) (auto simp: Let_def intro: keeps_trans)
    next
      case no: False
      with 1(2) False s1(2) show ?thesis by (subst (asm) take_idle.simps) (auto simp: Let_def)
    qed
  qed
qed

lemma acquire_rest_accounts: "keeps_callers k s (acquire_rest k w s)" "accounted k w (acquire_rest k w s)"
proof -
  obtain r t where rt: "take_idle s = (r, t)" by (cases "take_idle s")
  note t = take_idle_callers [OF rt, of k]
  show "keeps_callers k s (acquire_rest k w s)"
    using rt by (auto simp: acquire_rest_def intro!: keeps_trans [OF t] caller_kept waitForFree_accounts split: option.splits)
  show "accounted k w (acquire_rest k w s)"
    using rt opener_start_open [of "For_acquire w" k t] waitForFree_accounts(2) [of k w t]
    by (auto simp: acquire_rest_def accounted_def split: option.splits)
qed

lemma acquire_accounts: "keeps_callers k s (acquire k w s)" "accounted k w (acquire k w s)"
proof -
  have "keeps_callers k s (s\<lparr>p_recovered := p_recovered s @ [w]\<rparr>)" by (rule keepsI) (auto simp: openers_def)
  then show "keeps_callers k s (acquire k w s)"
    by (simp add: acquire_def keeps_reject acquire_rest_accounts split: option.splits)
  show "accounted k w (acquire k w s)"
    by (auto simp: acquire_def acquire_rest_accounts settled_accounted accounted_def [of k w "s\<lparr>p_recovered := x\<rparr>" for x] split: option.splits)
qed

lemma keeps_checkin [caller_kept]: "keeps_callers k s (checkin k c s)"
proof -
  have idle: "keeps_callers k s (armIdleTimer k c (s\<lparr>p_idle := xs\<rparr>))" for xs
    by (rule keeps_trans [OF keeps_same keeps_probes(3)]) simp_all
  have "keeps_callers k s (waiter_resolve w c (s\<lparr>p_waiters := ws, p_out := x\<rparr>))" if "p_waiters s = w # ws" for w ws x
    using that by (auto simp: keeps_callers_def accounted_def)
  with idle show ?thesis by (auto simp: checkin_def intro: keeps_trans [OF _ keeps_settleBreaker] split: list.splits)
qed

lemma keeps_refill_loop: "keeps_callers k s (refill_loop k s)"
proof (induction k s rule: refill_loop.induct)
  case (1 k s)
  show ?case
  proof (cases "p_waiters s")
    case Nil
    then show ?thesis by (subst refill_loop.simps) (simp add: keeps_refl)
  next
    case (Cons w ws)
    let ?t = "start_open k (For_refill w) (s\<lparr>p_waiters := ws\<rparr>)"
    have "keeps_callers k s ?t" using Cons by (auto simp: keeps_callers_def accounted_def)
    with 1 Cons show ?thesis by (subst refill_loop.simps) (auto intro: keeps_trans keeps_refl)
  qed
qed

lemma keeps_refill [caller_kept]: "keeps_callers k s (refill k s)"
  by (simp add: refill_def keeps_refl keeps_refill_loop)

lemma keeps_set_all: "keeps_callers k s (s\<lparr>p_all := x\<rparr>)"
  by (simp add: keeps_same)

lemma keeps_reclaim [caller_kept]: "keeps_callers k s (reclaim k c s)"
proof -
  have "keeps_callers k s (refill k (s\<lparr>p_all := xs\<rparr>))" "keeps_callers k s (end_member c (s\<lparr>p_all := xs\<rparr>))" for xs
    by (rule keeps_trans [OF keeps_set_all], rule caller_kept)+
  then show ?thesis by (simp add: reclaim_def keeps_checkin keeps_same)
qed

lemma keeps_release: "keeps_callers k s (release k c (s\<lparr>p_held := x, p_marks := m\<rparr>))"
proof -
  let ?s1 = "\<lambda>y. s\<lparr>p_held := x, p_marks := m, p_out := y\<rparr>"
  have "keeps_callers k s (reclaim k c (?s1 y))" for y by (rule keeps_trans [OF keeps_same keeps_reclaim]) simp_all
  then show ?thesis by (simp add: release_def Let_def keeps_same)
qed

lemma keeps_end: "keeps_callers k s (end_pool s)"
proof -
  let ?s1 = "wake_recovered (failWaiters PoolEnded (cancelProbeNap (s\<lparr>p_closed := True\<rparr>)))"
  have 1: "keeps_callers k s ?s1"
    by (rule keeps_trans [OF keeps_same keeps_trans [OF keeps_probes(1) keeps_trans [OF keeps_failWaiters keeps_wake]]]) simp_all
  have 2: "keeps_callers k t (fold end_member cs t)" for cs t
    by (induction cs arbitrary: t) (auto intro: keeps_refl keeps_trans [OF keeps_probes(4)])
  show ?thesis
    unfolding end_pool_def Let_def by (rule keeps_trans [OF 1], rule keeps_trans [OF _ 2], rule keeps_same) simp_all
qed

text \<open>An awaiter that resumes accounts for its own caller, whoever else was accounted for stays.\<close>

lemma acquire_opened_accounts: "keeps_callers k s (acquire_opened k w res s)" "accounted k w (acquire_opened k w res s)"
proof -
  have out: "keeps_callers k s (s\<lparr>p_out := x\<rparr>)" for x by (simp add: keeps_same)
  show "keeps_callers k s (acquire_opened k w res s)"
    by (auto simp: acquire_opened_def Let_def keeps_reject
        intro: keeps_trans [OF out keeps_hand_over] keeps_trans [OF keeps_trip keeps_reject] keeps_trans [OF keeps_trip acquire_accounts(1)]
        split: sum.split option.split)
  show "accounted k w (acquire_opened k w res s)"
    by (auto simp: acquire_opened_def Let_def settled_accounted acquire_accounts(2) split: sum.split option.split)
qed

text \<open>The caller \<open>refill\<close> serves may find its timer fired: then it is settled already.\<close>

lemma refill_opened_accounts:
  shows "keeps_callers k s (refill_opened k w res s)"
    and "is_settled w s \<or> k_acquireMs k = 0 \<or> w \<in> set (p_waitTimers s) \<Longrightarrow> accounted k w (refill_opened k w res s)"
proof -
  let ?s0 = "s\<lparr>p_waiters := w # p_waiters s\<rparr>"
  have out: "keeps_callers k s (s\<lparr>p_out := x\<rparr>)" for x by (simp add: keeps_same)
  have parked: "keeps_callers k s ?s0" by (rule keepsI) auto
  have fail: "keeps_callers k ?s0 (let s1 = trip k e ?s0 in case p_broken s1 of Some b \<Rightarrow> failWaiters b s1 | None \<Rightarrow> s1)" for e
    by (auto simp: Let_def intro: keeps_trip keeps_trans [OF keeps_trip keeps_failWaiters] split: option.split)
  show "keeps_callers k s (refill_opened k w res s)"
    using fail [THEN keeps_trans [OF parked]]
    by (simp add: refill_opened_def keeps_waiter keeps_trans [OF out keeps_waiter(1)] split: sum.split)
  assume "is_settled w s \<or> k_acquireMs k = 0 \<or> w \<in> set (p_waitTimers s)"
  then have "accounted k w ?s0" by (auto simp: accounted_def)
  then show "accounted k w (refill_opened k w res s)"
    using fail by (auto simp: refill_opened_def settled_accounted keeps_callers_def split: sum.split)
qed

lemma keeps_probe_opened: "keeps_callers k s (probe_opened k lp n res s)"
proof -
  have 1: "keeps_callers k s (settleBreaker ((armIdleTimer k c (s\<lparr>p_idle := x\<rparr>))\<lparr>p_lastProbeError := y\<rparr>))" for c x y
    by (rule keeps_trans [OF _ keeps_settleBreaker], rule keeps_same) (simp_all add: armIdleTimer_def)
  have 2: "keeps_callers k s (settleBreaker (s\<lparr>p_lastProbeError := x, p_broken := y\<rparr>))" for x y
    by (rule keeps_trans [OF _ keeps_settleBreaker], rule keeps_same) simp_all
  have 3: "keeps_callers k s (probe_loop k lp m (s\<lparr>p_lastProbeError := x\<rparr>))" for m x
    by (rule keeps_trans [OF _ keeps_probes(2)], rule keeps_same) simp_all
  show ?thesis using 1 2 3 by (simp add: probe_opened_def Let_def split: sum.split)
qed

lemma openers_remove1: "openers s - {b} \<subseteq> openers (s\<lparr>p_opened := remove1 (b, res) (p_opened s)\<rparr>)"
proof -
  have "x \<in> set (p_opened s) \<Longrightarrow> fst x \<noteq> b \<Longrightarrow> x \<in> set (remove1 (b, res) (p_opened s))" for x
    by (cases x) (auto simp: in_set_remove1)
  then show ?thesis by (force simp: openers_def)
qed

lemma keeps_open_continues:
  assumes "(b, res) \<in> set (p_opened s)"
  shows "keeps_callers k s (open_continues k b res s)"
proof -
  let ?s1 = "s\<lparr>p_opened := remove1 (b, res) (p_opened s)\<rparr>" and ?t = "open_continues k b res s"
  have t: "keeps_callers k ?s1 ?t"
    by (simp add: open_continues_def Let_def acquire_opened_accounts(1) refill_opened_accounts(1) keeps_probe_opened split: opener.split)
  have "accounted k w ?t" if w: "accounted k w s" for w
  proof (cases "accounted k w ?s1")
    case True
    with t show ?thesis by (simp add: keeps_callers_def)
  next
    case False
    with w openers_remove1 [of s b res] have "b = For_acquire w \<or> b = For_refill w \<and> (k_acquireMs k = 0 \<or> w \<in> set (p_waitTimers ?s1))"
      by (auto simp: accounted_def is_settled_def)
    then show ?thesis
      using acquire_opened_accounts(2) [of k w res ?s1] refill_opened_accounts(2) [of w ?s1 k res]
      by (auto simp: open_continues_def Let_def)
  qed
  with t show ?thesis by (simp add: keeps_callers_def)
qed

definition callers_ok :: "pool_cfg \<Rightarrow> pool \<Rightarrow> bool" where
  "callers_ok k s \<longleftrightarrow> (\<forall>w < p_nextCaller s. accounted k w s)"

lemma keeps_timeouts:
  "keeps_callers k s (recovery_timeout w s)" "keeps_callers k s (acquire_timeout w s)"
proof -
  have "v = w \<or> accounted k v (s\<lparr>p_recovered := remove1 w (p_recovered s)\<rparr>)" if "accounted k v s" for v
    using that by (auto simp: accounted_def in_set_remove1)
  then show "keeps_callers k s (recovery_timeout w s)"
    unfolding recovery_timeout_def keeps_callers_def by (auto simp: accounted_def)
  have "v = w \<or> accounted k v (s\<lparr>p_waiters := remove1 w (p_waiters s), p_waitTimers := set_delete w (p_waitTimers s)\<rparr>)" if "accounted k v s" for v
    using that by (auto simp: accounted_def in_set_remove1)
  then show "keeps_callers k s (acquire_timeout w s)"
    unfolding acquire_timeout_def keeps_callers_def by (auto simp: accounted_def)
qed

lemma keeps_recovered: "keeps_callers k s (acquire_recovered k w s)"
proof -
  have "v = w \<or> accounted k v (s\<lparr>p_woken := remove1 w (p_woken s)\<rparr>)" if "accounted k v s" for v
    using that by (auto simp: accounted_def in_set_remove1)
  then show ?thesis
    using acquire_rest_accounts(1) [of k "s\<lparr>p_woken := remove1 w (p_woken s)\<rparr>" w] acquire_rest_accounts(2) [of k w "s\<lparr>p_woken := remove1 w (p_woken s)\<rparr>"]
    unfolding acquire_recovered_def keeps_callers_def by auto
qed

lemma keeps_connect_settles: "(c, b) \<in> set (p_opening s) \<Longrightarrow> keeps_callers k s (connect_settles c b res s)"
proof (rule keepsI)
  assume "(c, b) \<in> set (p_opening s)"
  have "x \<in> set (p_opening s) \<Longrightarrow> snd x \<noteq> b \<Longrightarrow> x \<in> set (remove1 (c, b) (p_opening s))" for x
    by (cases x) (auto simp: in_set_remove1)
  then show "openers s \<subseteq> openers (connect_settles c b res s)"
    by (force simp: connect_settles_def Let_def openers_def split: option.splits)
qed (auto simp: connect_settles_def Let_def split: option.splits)

lemma keeps_rollback_done: "keeps_callers k s (rollback_done k c ok s)"
proof -
  have 1: "keeps_callers k s (checkin k c (s\<lparr>p_rollbacks := x\<rparr>))" for x
    by (rule keeps_trans [OF keeps_same keeps_checkin]) simp_all
  have 2: "keeps_callers k s (refill k (end_member c (s\<lparr>p_rollbacks := x, p_all := y\<rparr>)))" for x y
    by (rule keeps_trans [OF _ keeps_refill], rule keeps_same) (simp_all add: end_member_def)
  show ?thesis using 1 2 by (simp add: rollback_done_def Let_def)
qed

lemma keeps_probe_rested: "keeps_callers k s (probe_rested k lp n s)"
proof -
  have "keeps_callers k s (start_open k b (s\<lparr>p_rested := x, p_probes := m\<rparr>))" for b x m
    by (rule keeps_trans [OF keeps_same keeps_start_open]) simp_all
  then show ?thesis by (simp add: probe_rested_def Let_def keeps_same)
qed

lemma callers_ok_apply:
  assumes ok: "callers_ok k s"
  shows "callers_ok k (pool_apply k ev s)"
proof (cases "\<exists>m. ev = Acquire m")
  case True
  then obtain m where ev: "ev = Acquire m" ..
  let ?w = "p_nextCaller s"
  let ?s1 = "s\<lparr>p_nextCaller := Suc ?w, p_context := (p_context s)(?w := m)\<rparr>"
  have "accounted k v ?s1" if "v < ?w" for v
    using ok that by (auto simp: callers_ok_def accounted_def is_settled_def openers_def)
  then show ?thesis
    using acquire_accounts(1) [of k ?s1 ?w] acquire_accounts(2) [of k ?w ?s1] by (auto simp: ev callers_ok_def keeps_callers_def less_Suc_eq)
next
  case False
  have held: "s\<lparr>p_held := x\<rparr> = s\<lparr>p_held := x, p_marks := p_marks s\<rparr>" for x by simp
  have "keeps_callers k s (pool_apply k ev s)"
  proof (cases ev)
    case (Cancel_settled c)
    have "keeps_callers k s (cancel_settled k c s)"
      unfolding cancel_settled_def by (rule keeps_trans [OF keeps_same keeps_reclaim]) simp_all
    then show ?thesis by (simp add: Cancel_settled keeps_refl)
  next
    case (Idle_timer c)
    then show ?thesis by (simp add: idle_timer_fires_def Let_def end_member_def keeps_same keeps_refl)
  next
    case (Release w c)
    then show ?thesis using keeps_release [where k = k and s = s and c = c and m = "p_marks s"] by simp
  next
    case (Tx_leave m w c)
    then show ?thesis using keeps_release [where k = k and s = s and c = c] by (auto simp: tx_leave_def) (metis held)
  qed (use False in \<open>auto simp: keeps_refl tx_enter_def keeps_connect_settles keeps_open_continues keeps_recovered
      keeps_timeouts keeps_probes keeps_probe_rested keeps_rollback_done keeps_end intro: keeps_same\<close>)
  with ok show ?thesis by (simp add: callers_ok_def keeps_callers_def)
qed

interpretation pool_callers: invariant_of pool_init "pool_step k" "callers_ok k" for k
  by unfold_locales (auto simp: pool_init_def new_pool_def callers_ok_def callers_ok_apply [unfolded callers_ok_def] elim: pool_step.cases)

subsection \<open>The circuit breaker\<close>

definition probing :: "pool \<Rightarrow> bool" where
  "probing s \<longleftrightarrow> p_naps s \<noteq> [] \<or> p_rested s \<noteq> [] \<or> (\<exists>lp n. For_probe lp n \<in> openers s)"

text \<open>Whoever waits for a recovery waits while the breaker is down, and then a probe is at work.\<close>

definition breaker_ok :: "pool \<Rightarrow> bool" where
  "breaker_ok s \<longleftrightarrow> (p_recovered s \<noteq> [] \<longrightarrow> p_down s \<and> \<not> p_closed s) \<and> (p_down s \<and> \<not> p_closed s \<longrightarrow> probing s)"

text \<open>Operations that leave the breaker alone.\<close>

definition calm :: "pool \<Rightarrow> pool \<Rightarrow> bool" where
  "calm s t \<longleftrightarrow> p_recovered t = p_recovered s \<and> p_down t = p_down s \<and> p_closed t = p_closed s \<and> (probing s \<longrightarrow> probing t)"

lemma breaker_calm: "breaker_ok s \<Longrightarrow> calm s t \<Longrightarrow> breaker_ok t"
  by (auto simp: breaker_ok_def calm_def)

lemma calm_refl: "calm s s" and calm_trans: "calm s t \<Longrightarrow> calm t u \<Longrightarrow> calm s u"
  by (auto simp: calm_def)

lemma calm_same:
  assumes "p_recovered t = p_recovered s" "p_down t = p_down s" "p_closed t = p_closed s" "p_naps t = p_naps s"
    "p_rested t = p_rested s" "p_opening t = p_opening s" "p_opened t = p_opened s"
  shows "calm s t"
  using assms by (simp add: calm_def probing_def openers_def)

lemma calm_basic [breaker_kept]:
  "calm s (reject_caller w e s)" "calm s (hand_over w c s)" "calm s (waiter_resolve w c s)" "calm s (waiter_reject w e s)"
  "calm s (end_member c s)" "calm s (armIdleTimer k c s)" "calm s (waitForFree k w s)"
  by (auto simp: reject_caller_def hand_over_def waiter_resolve_def waiter_reject_def end_member_def armIdleTimer_def
      waitForFree_def intro!: calm_same calm_refl)

lemma calm_start_open [breaker_kept]: "calm s (start_open k b s)"
  by (auto simp: start_open_def calm_def probing_def openers_def split: option.splits)

lemma calm_fold: "(\<And>x s. calm s (f x s)) \<Longrightarrow> calm s (fold f xs s)"
  by (induction xs arbitrary: s) (auto intro: calm_refl calm_trans)

lemma calm_failWaiters [breaker_kept]: "calm s (failWaiters e s)"
  unfolding failWaiters_def by (rule calm_trans [OF calm_same calm_fold]) (simp_all add: calm_basic)

lemma calm_take_idle: "take_idle s = (r, t) \<Longrightarrow> calm s t"
proof (induction s rule: take_idle.induct)
  case (1 s)
  let ?c = "last (p_idle s)" and ?s1 = "clearIdleTimer (last (p_idle s)) (s\<lparr>p_idle := butlast (p_idle s)\<rparr>)"
  have s1: "calm s (?s1\<lparr>p_all := xs\<rparr>)" "calm s (?s1\<lparr>p_out := xs\<rparr>)" for xs
    by (rule calm_same; simp add: clearIdleTimer_def)+
  show ?case
  proof (cases "p_idle s = []")
    case True
    with 1(2) show ?thesis by (subst (asm) take_idle.simps) (auto simp: calm_refl)
  next
    case False
    show ?thesis
    proof (cases "pm_closed (p_mem ?s1 ?c)")
      case True
      with 1 False s1(1) show ?thesis by (subst (asm) (2) take_idle.simps) (auto simp: Let_def intro: calm_trans)
    next
      case no: False
      with 1(2) False s1(2) show ?thesis by (subst (asm) take_idle.simps) (auto simp: Let_def)
    qed
  qed
qed

lemma calm_acquire_rest [breaker_kept]: "calm s (acquire_rest k w s)"
proof -
  obtain r t where rt: "take_idle s = (r, t)" by (cases "take_idle s")
  from calm_take_idle [OF rt] rt show ?thesis
    by (auto simp: acquire_rest_def intro: calm_trans calm_basic calm_start_open split: option.splits)
qed

lemma calm_refill_loop: "calm s (refill_loop k s)"
proof (induction k s rule: refill_loop.induct)
  case (1 k s)
  have step: "calm s (start_open k (For_refill w) (s\<lparr>p_waiters := ws\<rparr>))" for w ws
    by (rule calm_trans [OF calm_same calm_start_open]) simp_all
  show ?case
    by (subst refill_loop.simps) (auto intro: calm_refl calm_trans [OF step 1] split: list.splits)
qed

lemma calm_refill [breaker_kept]: "calm s (refill k s)"
  by (simp add: refill_def calm_refl calm_refill_loop)

text \<open>A settled breaker has nobody waiting.\<close>

lemma wake_fields: "p_recovered (wake_recovered s) = []" "p_down (wake_recovered s) = p_down s"
  "p_closed (wake_recovered s) = p_closed s"
proof -
  have "p_recovered (fold onRecover ws t) = p_recovered t \<and> p_down (fold onRecover ws t) = p_down t \<and>
      p_closed (fold onRecover ws t) = p_closed t" for ws t
    by (induction ws arbitrary: t) (auto simp: onRecover_def reject_caller_def split: option.splits)
  then show "p_recovered (wake_recovered s) = []" "p_down (wake_recovered s) = p_down s" "p_closed (wake_recovered s) = p_closed s"
    by (simp_all add: wake_recovered_def)
qed

lemma cancel_fields: "p_down (cancelProbeNap s) = p_down s" "p_closed (cancelProbeNap s) = p_closed s"
  by (simp_all add: cancelProbeNap_def probe_wake_def split: option.splits)

lemma breaker_settled: "breaker_ok (settleBreaker s)"
  by (simp add: breaker_ok_def settleBreaker_def wake_fields cancel_fields)

lemma breaker_probe_loop: "(p_recovered s \<noteq> [] \<longrightarrow> p_down s \<and> \<not> p_closed s) \<Longrightarrow> breaker_ok (probe_loop k lp n s)"
  by (auto simp: breaker_ok_def probe_loop_def probing_def)

lemma breaker_trip: "breaker_ok s \<Longrightarrow> breaker_ok (trip k e s)"
  by (auto simp: trip_def breaker_settled startProbe_def intro!: breaker_probe_loop)

lemma breaker_acquire: "breaker_ok s \<Longrightarrow> breaker_ok (acquire k w s)"
proof -
  assume ok: "breaker_ok s"
  have "p_down s \<Longrightarrow> \<not> p_closed s \<Longrightarrow> breaker_ok (s\<lparr>p_recovered := p_recovered s @ [w]\<rparr>)"
    using ok by (auto simp: breaker_ok_def probing_def)
  then show ?thesis
    using breaker_calm [OF ok] by (auto simp: acquire_def calm_basic calm_acquire_rest split: option.splits)
qed

lemma breaker_checkin: "breaker_ok s \<Longrightarrow> breaker_ok (checkin k c s)"
proof -
  assume ok: "breaker_ok s"
  have "calm s (armIdleTimer k c (s\<lparr>p_idle := x\<rparr>))" for x by (rule calm_trans [OF calm_same calm_basic(6)]) simp_all
  moreover have "calm s (waiter_resolve w c (s\<lparr>p_waiters := ws, p_out := x\<rparr>))" for w ws x
    by (rule calm_trans [OF calm_same calm_basic(3)]) simp_all
  ultimately show ?thesis using breaker_calm [OF ok] by (auto simp: checkin_def breaker_settled split: list.splits)
qed

lemma breaker_reclaim: "breaker_ok s \<Longrightarrow> breaker_ok (reclaim k c s)"
proof -
  assume ok: "breaker_ok s"
  have "calm s (refill k (s\<lparr>p_all := x\<rparr>))" "calm s (end_member c (s\<lparr>p_all := x\<rparr>))" for x
    by (rule calm_trans [OF calm_same calm_refill]; simp) (rule calm_trans [OF calm_same calm_basic(5)]; simp)
  moreover have "calm s (s\<lparr>p_rollbacks := x\<rparr>)" for x by (simp add: calm_same)
  ultimately show ?thesis using breaker_calm [OF ok] by (auto simp: reclaim_def breaker_checkin ok)
qed

lemma breaker_release:
  assumes ok: "breaker_ok s"
  shows "breaker_ok (release k c (s\<lparr>p_held := x, p_marks := m\<rparr>))"
proof -
  have "breaker_ok (s\<lparr>p_held := x, p_marks := m\<rparr>)" "breaker_ok (s\<lparr>p_held := x, p_marks := m, p_out := y\<rparr>)"
    "breaker_ok (s\<lparr>p_held := x, p_marks := m, p_out := y, p_draining := z\<rparr>)" for y z
    by (rule breaker_calm [OF ok calm_same]; simp)+
  then show ?thesis by (simp add: release_def Let_def breaker_reclaim)
qed

lemma breaker_open_continues:
  assumes ok: "breaker_ok s"
  shows "breaker_ok (open_continues k b res s)"
proof -
  let ?s1 = "s\<lparr>p_opened := remove1 (b, res) (p_opened s)\<rparr>"
  have wait: "p_recovered ?s1 \<noteq> [] \<longrightarrow> p_down ?s1 \<and> \<not> p_closed ?s1" using ok by (simp add: breaker_ok_def)
  have "For_probe lp n \<in> openers ?s1" if "\<And>lp n. b \<noteq> For_probe lp n" "For_probe lp n \<in> openers s" for lp n
    using openers_remove1 [of s b res] that by (metis Diff_iff singletonD subsetD)
  then have ok1: "breaker_ok ?s1" if "\<And>lp n. b \<noteq> For_probe lp n"
    using ok that by (simp add: breaker_ok_def probing_def) blast
  have acq: "breaker_ok (acquire_opened k w res t)" if t: "breaker_ok t" for w t
  proof -
    have "calm t (hand_over w c (t\<lparr>p_out := x\<rparr>))" for c x by (rule calm_trans [OF calm_same calm_basic(2)]) simp_all
    with t show ?thesis
      by (auto simp: acquire_opened_def Let_def intro: breaker_calm calm_basic breaker_trip breaker_acquire split: sum.split option.split)
  qed
  have ref: "breaker_ok (refill_opened k w res t)" if t: "breaker_ok t" for w t
  proof -
    have 1: "calm t (waiter_resolve w c (t\<lparr>p_out := x\<rparr>))" for c x by (rule calm_trans [OF calm_same calm_basic(3)]) simp_all
    have "breaker_ok (t\<lparr>p_waiters := x\<rparr>)" for x by (rule breaker_calm [OF t]) (simp add: calm_same)
    then have "breaker_ok (trip k e (t\<lparr>p_waiters := x\<rparr>))" "breaker_ok (failWaiters d (trip k e (t\<lparr>p_waiters := x\<rparr>)))" for d e x
      by (auto intro: breaker_trip breaker_calm [OF _ calm_failWaiters])
    with 1 t show ?thesis
      by (auto simp: refill_opened_def Let_def intro: breaker_calm calm_basic split: sum.split option.split)
  qed
  show ?thesis
  proof (cases b)
    case (For_probe lp n)
    have "breaker_ok (probe_loop k lp m (?s1\<lparr>p_lastProbeError := x\<rparr>))" for m x
      by (rule breaker_probe_loop) (use wait in simp)
    then show ?thesis by (auto simp: For_probe open_continues_def probe_opened_def Let_def breaker_settled split: sum.split)
  qed (use ok1 acq ref in \<open>simp_all add: open_continues_def Let_def\<close>)
qed

lemma breaker_apply:
  assumes ok: "breaker_ok s"
  shows "breaker_ok (pool_apply k ev s)"
proof -
  have held: "s\<lparr>p_held := x\<rparr> = s\<lparr>p_held := x, p_marks := p_marks s\<rparr>" for x by simp
  show ?thesis
  proof (cases ev)
    case (Acquire m)
    show ?thesis unfolding Acquire pool_apply.simps by (rule breaker_acquire, rule breaker_calm [OF ok calm_same]) simp_all
  next
    case (Connect_settles c b res)
    have "snd x \<noteq> b \<Longrightarrow> x \<in> set (p_opening s) \<Longrightarrow> x \<in> set (remove1 (c, b) (p_opening s))" for x
      by (cases x) (auto simp: in_set_remove1)
    then have "openers s \<subseteq> openers (connect_settles c b res s)"
      by (force simp: connect_settles_def Let_def openers_def split: option.splits)
    then have "calm s (connect_settles c b res s)"
      by (auto simp: calm_def probing_def connect_settles_def Let_def split: option.splits)
    with ok show ?thesis by (simp add: Connect_settles breaker_calm)
  next
    case (Open_continues b res)
    then show ?thesis by (simp add: ok breaker_open_continues)
  next
    case (Recovered w)
    have "calm s (acquire_recovered k w s)"
      unfolding acquire_recovered_def by (rule calm_trans [OF calm_same calm_acquire_rest]) simp_all
    with ok show ?thesis by (simp add: Recovered breaker_calm)
  next
    case (Recovery_timeout w)
    have "breaker_ok (s\<lparr>p_recovered := remove1 w (p_recovered s)\<rparr>)"
      using ok by (cases "p_recovered s") (auto simp: breaker_ok_def probing_def)
    with ok show ?thesis by (auto simp: Recovery_timeout recovery_timeout_def intro: breaker_calm calm_basic)
  next
    case (Acquire_timeout w)
    have "calm s (acquire_timeout w s)"
      unfolding acquire_timeout_def by (rule calm_trans [OF calm_same calm_basic(1)]) simp_all
    with ok show ?thesis by (simp add: Acquire_timeout breaker_calm)
  next
    case (Nap_over lp)
    have "lp \<in> fst ` set (p_naps s) \<Longrightarrow> calm s (probe_wake lp s)"
      by (auto simp: calm_def probe_wake_def probing_def filter_empty_conv)
    with ok show ?thesis by (simp add: Nap_over breaker_calm)
  next
    case (Probe_turn lp n)
    have "breaker_ok (probe_rested k lp n s)"
      using ok by (auto simp: probe_rested_def Let_def breaker_ok_def probing_def start_open_def openers_def split: option.splits)
    with ok show ?thesis by (simp add: Probe_turn)
  next
    case (Cancel_settled c)
    have "breaker_ok (s\<lparr>p_draining := x\<rparr>)" for x by (rule breaker_calm [OF ok]) (simp add: calm_same)
    then show ?thesis by (simp add: Cancel_settled cancel_settled_def breaker_reclaim ok)
  next
    case (Rollback_done c b)
    have 1: "breaker_ok (s\<lparr>p_rollbacks := x\<rparr>)" for x by (rule breaker_calm [OF ok]) (simp add: calm_same)
    have "calm s (refill k (end_member c (s\<lparr>p_rollbacks := x, p_all := y\<rparr>)))" for x y
      by (rule calm_trans [OF calm_same calm_trans [OF calm_basic(5) calm_refill]]) simp_all
    with 1 ok show ?thesis by (auto simp: Rollback_done rollback_done_def Let_def breaker_checkin intro: breaker_calm)
  next
    case (Release w c)
    then show ?thesis using breaker_release [OF ok, where c = c and k = k and m = "p_marks s"] by simp
  next
    case (Tx_leave m w c)
    then show ?thesis using breaker_release [OF ok, where c = c and k = k] by (auto simp: tx_leave_def) (metis held)
  next
    case End_pool
    let ?s1 = "wake_recovered (failWaiters PoolEnded (cancelProbeNap (s\<lparr>p_closed := True\<rparr>)))"
    have "p_closed (failWaiters e t) = p_closed t" for e t using calm_failWaiters by (simp add: calm_def)
    then have "breaker_ok ?s1" by (simp add: breaker_ok_def wake_fields cancel_fields)
    then have "breaker_ok (end_pool s)"
      unfolding end_pool_def Let_def by (rule breaker_calm [OF _ calm_trans [OF calm_same calm_fold [OF calm_basic(5)]]]) simp_all
    then show ?thesis by (simp add: End_pool)
  qed (auto simp: idle_timer_fires_def Let_def end_member_def tx_enter_def ok intro!: breaker_calm [OF ok] calm_same)
qed

lemma breaker_new: "breaker_ok new_pool"
  by (simp add: new_pool_def breaker_ok_def)

interpretation pool_breaker: invariant_of pool_init "pool_step k" breaker_ok for k
  by unfold_locales (auto simp: pool_init_def breaker_new breaker_apply elim: pool_step.cases)

subsection \<open>How many connections\<close>

text \<open>Every operation but the probe's stays within the limit, or within what it found.\<close>

definition within :: "pool_cfg \<Rightarrow> pool \<Rightarrow> pool \<Rightarrow> bool" where
  "within k s t \<longleftrightarrow> length (p_all t) \<le> max (length (p_all s)) (k_max k) \<and> p_probes t = p_probes s"

lemma within_trans: "within k s t \<Longrightarrow> within k t u \<Longrightarrow> within k s u"
  by (auto simp: within_def)

lemma within_same: "p_all t = p_all s \<Longrightarrow> p_probes t = p_probes s \<Longrightarrow> within k s t"
  by (simp add: within_def)

lemma within_delete: "p_all t = set_delete c (p_all s) \<Longrightarrow> p_probes t = p_probes s \<Longrightarrow> within k s t"
  by (simp add: within_def set_delete_def le_max_iff_disj)

lemma within_open: "length (p_all s) < k_max k \<Longrightarrow> within k s (start_open k b s)"
  by (auto simp: within_def start_open_def set_add_def split: option.splits)

lemma within_basic:
  "within k s s" "within k s (reject_caller w e s)" "within k s (hand_over w c s)" "within k s (waiter_resolve w c s)"
  "within k s (waiter_reject w e s)" "within k s (end_member c s)" "within k s (armIdleTimer k c s)"
  "within k s (waitForFree k w s)" "within k s (cancelProbeNap s)" "within k s (probe_loop k lp n s)" "within k s (onRecover w s)"
  by (auto simp: reject_caller_def hand_over_def waiter_resolve_def waiter_reject_def end_member_def armIdleTimer_def
      waitForFree_def cancelProbeNap_def probe_wake_def probe_loop_def onRecover_def intro!: within_same split: option.splits)

lemma within_fold: "(\<And>x s. within k s (f x s)) \<Longrightarrow> within k s (fold f xs s)"
  by (induction xs arbitrary: s) (auto intro: within_basic within_trans)

lemma within_breaker: "within k s (wake_recovered s)" "within k s (settleBreaker s)" "within k s (trip k e s)" "within k s (failWaiters e s)"
proof -
  show wake: "within k s (wake_recovered s)" for s
    unfolding wake_recovered_def by (rule within_trans [OF within_same within_fold]) (simp_all add: within_basic)
  show settle: "within k s (settleBreaker s)" for s
    unfolding settleBreaker_def by (rule within_trans [OF within_same within_trans [OF within_basic(9) wake]]) simp_all
  show "within k s (failWaiters e s)"
    unfolding failWaiters_def by (rule within_trans [OF within_same within_fold]) (simp_all add: within_basic)
  have "within k s (settleBreaker (s\<lparr>p_broken := x\<rparr>))" for x
    by (rule within_trans [OF within_same settle]) simp_all
  moreover have "within k s (probe_loop k lp 0 (s\<lparr>p_lastDownError := x, p_lastProbeError := y, p_down := True, p_nextLoop := n\<rparr>))"
    for lp x y n by (rule within_trans [OF within_same within_basic(10)]) simp_all
  ultimately show "within k s (trip k e s)" by (simp add: trip_def startProbe_def within_basic)
qed

lemma within_take_idle: "take_idle s = (r, t) \<Longrightarrow> within k s t"
proof (induction s rule: take_idle.induct)
  case (1 s)
  let ?c = "last (p_idle s)" and ?s1 = "clearIdleTimer (last (p_idle s)) (s\<lparr>p_idle := butlast (p_idle s)\<rparr>)"
  have s1: "within k s (?s1\<lparr>p_all := set_delete ?c (p_all ?s1)\<rparr>)" by (rule within_delete) (simp_all add: clearIdleTimer_def)
  show ?case
  proof (cases "p_idle s \<noteq> [] \<and> pm_closed (p_mem ?s1 ?c)")
    case True
    with 1 s1 show ?thesis by (subst (asm) (2) take_idle.simps) (auto simp: Let_def intro: within_trans)
  next
    case False
    with 1(2) show ?thesis
      by (subst (asm) take_idle.simps) (auto simp: Let_def clearIdleTimer_def split: if_splits intro: within_same within_basic)
  qed
qed

lemma within_acquire_rest: "within k s (acquire_rest k w s)"
proof -
  obtain r t where rt: "take_idle s = (r, t)" by (cases "take_idle s")
  from within_take_idle [OF rt, of k] rt show ?thesis
    by (auto simp: acquire_rest_def intro: within_trans within_basic within_open split: option.splits)
qed

lemma within_acquire: "within k s (acquire k w s)"
  by (auto simp: acquire_def within_basic within_acquire_rest intro: within_same split: option.splits)

lemma within_refill: "within k s (refill k s)"
proof -
  have "within k s (refill_loop k s)"
  proof (induction k s rule: refill_loop.induct)
    case (1 k s)
    have step: "within k s (start_open k (For_refill w) (s\<lparr>p_waiters := ws\<rparr>))" if "length (p_all s) < k_max k" for w ws
      by (rule within_trans [OF within_same within_open]) (use that in simp_all)
    show ?case
      by (subst refill_loop.simps) (auto intro: within_basic within_trans [OF step 1] split: list.splits)
  qed
  then show ?thesis by (simp add: refill_def within_basic)
qed

lemma within_checkin: "within k s (checkin k c s)"
proof -
  have 1: "within k s (armIdleTimer k c (s\<lparr>p_idle := x\<rparr>))" for x
    by (rule within_trans [OF within_same within_basic(7)]) simp_all
  moreover have "within k s (waiter_resolve w c (s\<lparr>p_waiters := ws, p_out := x\<rparr>))" for w ws x
    by (rule within_trans [OF within_same within_basic(4)]) simp_all
  ultimately show ?thesis by (auto simp: checkin_def intro: within_trans [OF _ within_breaker(2)] split: list.splits)
qed

lemma within_reclaim: "within k s (reclaim k c s)"
proof -
  have "within k s (refill k (s\<lparr>p_all := set_delete c (p_all s)\<rparr>))" by (rule within_trans [OF within_delete within_refill]) simp_all
  moreover have "within k s (end_member c (s\<lparr>p_all := set_delete c (p_all s)\<rparr>))" by (rule within_trans [OF within_delete within_basic(6)]) simp_all
  ultimately show ?thesis by (auto simp: reclaim_def within_checkin intro: within_same)
qed

lemma within_release: "p_all s = p_all s0 \<Longrightarrow> p_probes s = p_probes s0 \<Longrightarrow> within k s0 (release k c s)"
  by (auto simp: release_def Let_def intro: within_same within_trans [OF within_same within_reclaim])

lemma within_opened: "within k s (open_continues k b res s)"
proof -
  have 1: "within k s (acquire_opened k w r s)" for s w r
    by (auto simp: acquire_opened_def Let_def intro: within_basic within_trans [OF within_same within_basic(3)]
        within_trans [OF within_breaker(3) within_basic(2)] within_trans [OF within_breaker(3) within_acquire] split: sum.split option.split)
  have t: "within k s (trip k e (s\<lparr>p_waiters := x\<rparr>))" for s e x by (rule within_trans [OF within_same within_breaker(3)]) simp_all
  have 2: "within k s (refill_opened k w r s)" for s w r
    by (auto simp: refill_opened_def Let_def intro: within_basic within_trans [OF within_same within_basic(4)]
        t within_trans [OF t within_breaker(4)] split: sum.split option.split)
  have 3: "within k s (probe_opened k lp n r s)" for s lp n r
    by (auto simp: probe_opened_def Let_def armIdleTimer_def
        intro!: within_trans [OF within_same within_breaker(2)] within_trans [OF within_same within_basic(10)] split: sum.split)
  show ?thesis
    by (auto simp: open_continues_def Let_def intro!: within_trans [OF within_same 1] within_trans [OF within_same 2]
        within_trans [OF within_same 3] split: opener.split)
qed

definition size_ok :: "pool_cfg \<Rightarrow> pool \<Rightarrow> bool" where
  "size_ok k s \<longleftrightarrow> length (p_all s) \<le> k_max k + p_probes s"

lemma size_within: "size_ok k s \<Longrightarrow> within k s t \<Longrightarrow> size_ok k t"
  by (auto simp: size_ok_def within_def)

lemma size_ok_apply:
  assumes ok: "size_ok k s"
  shows "size_ok k (pool_apply k ev s)"
proof (cases ev)
  case (Probe_turn lp n)
  show ?thesis
    using ok by (auto simp: Probe_turn probe_rested_def Let_def size_ok_def start_open_def set_add_def split: option.splits)
next
  case End_pool
  have "p_all (fold end_member cs t) = p_all t" for cs t by (induction cs arbitrary: t) (simp_all add: end_member_def)
  then show ?thesis by (simp add: End_pool size_ok_def end_pool_def Let_def)
next
  case (Rollback_done c b)
  have "within k s (refill k (end_member c (s\<lparr>p_rollbacks := x, p_all := set_delete c (p_all s)\<rparr>)))" for x
    by (rule within_trans [OF within_delete within_refill]) (simp_all add: end_member_def)
  moreover have "within k s (checkin k c (s\<lparr>p_rollbacks := x\<rparr>))" for x by (rule within_trans [OF within_same within_checkin]) simp_all
  ultimately show ?thesis using size_within [OF ok] by (simp add: Rollback_done rollback_done_def Let_def ok)
next
  case (Acquire m)
  show ?thesis unfolding Acquire pool_apply.simps by (rule size_within [OF ok within_trans [OF within_same within_acquire]]) simp_all
next
  case (Connect_settles c b res)
  have "within k s (connect_settles c b res s)"
    by (auto simp: connect_settles_def Let_def within_def set_delete_def le_max_iff_disj split: option.splits)
  with ok show ?thesis by (simp add: Connect_settles size_within)
next
  case (Idle_timer c)
  have "within k s (idle_timer_fires c s)"
    by (auto simp: idle_timer_fires_def Let_def end_member_def within_def set_delete_def le_max_iff_disj)
  with ok show ?thesis by (simp add: Idle_timer size_within)
qed (auto simp: ok tx_enter_def tx_leave_def acquire_recovered_def recovery_timeout_def acquire_timeout_def cancel_settled_def
    probe_wake_def intro!: size_within [OF ok] within_opened within_release within_trans [OF within_same within_acquire_rest]
    within_trans [OF within_same within_basic(2)] within_trans [OF within_same within_reclaim] intro: within_same)

lemma size_ok_new: "size_ok k new_pool"
  by (simp add: size_ok_def new_pool_def)

interpretation pool_size: invariant_of pool_init "pool_step k" "size_ok k" for k
  by unfold_locales (auto simp: pool_init_def size_ok_new size_ok_apply elim: pool_step.cases)

subsection \<open>Properties\<close>

definition demo_cfg :: pool_cfg where
  "demo_cfg = pool_config (Some 1) (Some no_rc_opts) None None None None"

definition refused :: err_obj where
  "refused = \<lparr>eo_code = Some ''ECONNREFUSED'', eo_name = None, eo_message = None, eo_fatal = False\<rparr>"

text \<open>One checkout, the next caller parked at the limit, and the connection dies in its holder's hands:
  its release makes \<open>refill\<close> open a connection for the parked caller.\<close>

definition refilling :: "pevent list" where
  "refilling = [Acquire None, Connect_settles 0 (For_acquire 0) None, Open_continues (For_acquire 0) (Inr 0),
     Acquire None, Member_changes 0 (new_member\<lparr>pm_closed := True\<rparr>), Release 0 0]"

definition checked_out :: "pevent list" where
  "checked_out = [Acquire None, Connect_settles 0 (For_acquire 0) None, Open_continues (For_acquire 0) (Inr 0), Acquire None]"

lemma take_idle_eval:
  "p_idle s = [] \<Longrightarrow> take_idle s = (None, s)"
  "p_idle s \<noteq> [] \<Longrightarrow> \<not> pm_closed (p_mem s (last (p_idle s))) \<Longrightarrow> take_idle s =
     (Some (last (p_idle s)), clearIdleTimer (last (p_idle s)) (s\<lparr>p_idle := butlast (p_idle s), p_out := set_add (last (p_idle s)) (p_out s)\<rparr>))"
  by (subst take_idle.simps, simp add: Let_def clearIdleTimer_def)+

lemmas pool_eval = pool_run_def new_pool_def demo_cfg_def pool_config_def or_else_def no_rc_opts_def acquire_def
  in_guarded_tx_def acquire_rest_def take_idle_eval clearIdleTimer_def start_open_def connect_settles_def open_continues_def
  acquire_opened_def hand_over_def is_settled_def waitForFree_def set_add_def set_delete_def release_def reclaim_def
  refill_def refill_loop.simps

lemma reach_run:
  "reach pool_init (pool_step k) s \<Longrightarrow> well_behaved ev s \<Longrightarrow> reach pool_init (pool_step k) (pool_apply k ev s)"
  by (auto intro: reach_step pool_step)

lemma reach_new: "reach pool_init (pool_step k) new_pool"
  by (simp add: reach_init pool_init_def)

lemma checked_out_reach: "reach pool_init (pool_step demo_cfg) (pool_run demo_cfg checked_out)"
  unfolding pool_run_def checked_out_def fold.simps comp_def id_def
  by (intro reach_run reach_new) (simp_all add: well_behaved_def)

lemma distinct_counts: "(\<And>c. count (mset xs) c \<le> 1) \<Longrightarrow> distinct xs"
proof (induction xs)
  case (Cons x xs)
  have "count (mset xs) c \<le> 1" for c using Cons.prems [of c] by (cases "x = c") (simp_all add: le_Suc_eq)
  moreover have "x \<notin> set xs" using Cons.prems [of x] by auto
  ultimately show ?case using Cons.IH by simp
qed simp

text \<open>C7: No connection is handed to two callers. In every state the pool can reach while callers release
  what they hold once, the connections in callers' hands are distinct, none of them is idle, being
  rolled back, draining a cancelled query or being opened, and until the pool is ended each of them is
  in the pool's checked-out set, so its holder's release will be honoured.\<close>

theorem pool_exclusive_checkout:
  assumes "reach pool_init (pool_step k) s"
  shows "distinct (map snd (p_held s)) \<and>
    snd ` set (p_held s) \<inter> (set (p_idle s) \<union> set (p_draining s) \<union> set (p_rollbacks s) \<union> fst ` set (p_opening s)) = {} \<and>
    (p_closed s \<or> snd ` set (p_held s) \<subseteq> set (p_out s))"
proof -
  have ok: "members_ok s" by (rule pool_members.reach_inv [OF assms])
  then have one: "count (places s) c \<le> 1" for c by (simp add: members_ok_def)
  let ?h = "mset (map snd (p_held s))"
  let ?rest = "mset (p_idle s) + mset (p_draining s) + mset (p_rollbacks s) + mset (map fst (p_opening s))"
  have le: "count ?h c + count ?rest c \<le> 1" for c using one [of c] by (simp add: places_def del: mset_map)
  have "distinct (map snd (p_held s))" using le by (intro distinct_counts) (meson add_leD1)
  moreover have "c \<notin># ?rest" if "c \<in># ?h" for c
  proof -
    have "0 < count ?h c" using that by (simp only: count_greater_zero_iff)
    with le [of c] have "count ?rest c = 0" by linarith
    then show ?thesis by (simp only: not_in_iff)
  qed
  ultimately show ?thesis using ok by (auto simp: members_ok_def)
qed

theorem pool_exclusive_checkout_witness:
  "p_held (pool_run demo_cfg checked_out) = [(0, 0)] \<and> p_idle (pool_run demo_cfg checked_out) = [] \<and>
   distinct (map snd (p_held (pool_run demo_cfg checked_out)))"
  using pool_exclusive_checkout [OF checked_out_reach] by (simp add: pool_eval checked_out_def)

text \<open>C8: No acquire hangs and no herd waits in vain. In every reachable state of a pool with an acquire
  timeout, each caller whose promise has not settled is parked at the limit or being served by \<open>refill\<close>
  with its timer armed, is opening a connection, has been woken and is about to continue, or waits for
  recovery; and whenever somebody waits for recovery the breaker is down, the pool is open, and a probe
  is sleeping, about to run, or connecting.\<close>

theorem pool_no_hung_acquire:
  assumes "reach pool_init (pool_step k) s" "0 < k_acquireMs k" "w < p_nextCaller s" "\<not> is_settled w s"
  shows "(w \<in> set (p_waitTimers s) \<and> (w \<in> set (p_waiters s) \<or> For_refill w \<in> openers s)) \<or> For_acquire w \<in> openers s \<or>
     w \<in> set (p_woken s) \<or> (w \<in> set (p_recovered s) \<and> p_down s \<and> \<not> p_closed s \<and> probing s)"
proof -
  have "accounted k w s" using pool_callers.reach_inv [OF assms(1)] assms(3) by (simp add: callers_ok_def)
  moreover have "w \<in> set (p_recovered s) \<Longrightarrow> p_down s \<and> \<not> p_closed s \<and> probing s"
    using pool_breaker.reach_inv [OF assms(1)] by (auto simp: breaker_ok_def)
  ultimately show ?thesis using assms(2,4) by (auto simp: accounted_def)
qed

theorem pool_no_hung_acquire_witness:
  "p_waiters (pool_run demo_cfg checked_out) = [1] \<and> 1 \<in> set (p_waitTimers (pool_run demo_cfg checked_out))"
proof -
  have "\<not> is_settled 1 (pool_run demo_cfg checked_out)" "1 < p_nextCaller (pool_run demo_cfg checked_out)"
    "0 < k_acquireMs demo_cfg" "p_waiters (pool_run demo_cfg checked_out) = [1]" "p_woken (pool_run demo_cfg checked_out) = []"
    "openers (pool_run demo_cfg checked_out) = {}" "p_recovered (pool_run demo_cfg checked_out) = []"
    by (simp_all add: pool_eval checked_out_def openers_def)
  with pool_no_hung_acquire [OF checked_out_reach, of 1] show ?thesis by simp
qed

text \<open>Releasing a connection touches neither the marks nor anybody's context.\<close>

definition same_context :: "pool \<Rightarrow> pool \<Rightarrow> bool" where
  "same_context s t \<longleftrightarrow> p_marks t = p_marks s \<and> p_context t = p_context s \<and> p_closed t = p_closed s"

lemma same_context_basic [simp]:
  "same_context s s" "same_context s (reject_caller w e s)" "same_context s (hand_over w c s)"
  "same_context s (waiter_resolve w c s)" "same_context s (armIdleTimer k c s)" "same_context s (end_member c s)"
  "same_context s (start_open k b s)" "same_context s (cancelProbeNap s)" "same_context s (onRecover w s)"
  by (simp_all add: same_context_def reject_caller_def hand_over_def waiter_resolve_def armIdleTimer_def end_member_def
      start_open_def cancelProbeNap_def probe_wake_def onRecover_def split: option.splits)

lemma same_context_trans: "same_context s t \<Longrightarrow> same_context t u \<Longrightarrow> same_context s u"
  by (simp add: same_context_def)

lemma same_context_settle: "same_context s (settleBreaker s)"
proof -
  have "same_context t (fold onRecover ws t)" for ws t
    by (induction ws arbitrary: t) (auto intro: same_context_trans [OF same_context_basic(9)])
  from this [of "(cancelProbeNap (s\<lparr>p_down := False\<rparr>))\<lparr>p_recovered := []\<rparr>"] same_context_basic(8) [of "s\<lparr>p_down := False\<rparr>"]
  show ?thesis unfolding settleBreaker_def wake_recovered_def by (simp add: same_context_def)
qed

lemma same_context_checkin: "same_context s (checkin k c s)"
  using same_context_settle [of "armIdleTimer k c (s\<lparr>p_idle := p_idle s @ [c]\<rparr>)"] same_context_basic(5) [of "s\<lparr>p_idle := p_idle s @ [c]\<rparr>" k c]
    same_context_basic(4) [of "s\<lparr>p_waiters := ws, p_out := set_add c (p_out s)\<rparr>" w c for ws w]
  by (auto simp: checkin_def same_context_def split: list.splits)

lemma same_context_refill: "same_context s (refill k s)"
proof -
  have "same_context t (refill_loop k t)" for t
  proof (induction k t rule: refill_loop.induct)
    case (1 k s)
    have "same_context s (start_open k (For_refill w) (s\<lparr>p_waiters := ws\<rparr>))" for w ws
      using same_context_basic(7) [of "s\<lparr>p_waiters := ws\<rparr>" k "For_refill w"] by (simp add: same_context_def)
    from same_context_trans [OF this 1] show ?case by (subst refill_loop.simps) (auto split: list.splits)
  qed
  then show ?thesis by (simp add: refill_def)
qed

lemma same_context_release: "same_context s (release k c s)"
proof -
  have "same_context t (reclaim k c t)" for t
    using same_context_refill [of "t\<lparr>p_all := set_delete c (p_all t)\<rparr>" k] same_context_checkin [of t k c]
    by (auto simp: reclaim_def same_context_def end_member_def)
  from this [of "s\<lparr>p_out := set_delete c (p_out s)\<rparr>"] show ?thesis by (simp add: release_def Let_def same_context_def)
qed

text \<open>C9: The pool holds at most \<open>max\<close> connections, counting those being opened, plus one for each open
  its reconnect probe has started.\<close>

theorem pool_size_bound:
  assumes "reach pool_init (pool_step k) s"
  shows "length (p_all s) \<le> k_max k + p_probes s"
  using pool_size.reach_inv [OF assms] by (simp add: size_ok_def)

theorem pool_size_bound_witness: "length (p_all (pool_run demo_cfg checked_out)) \<le> 1"
  using pool_size_bound [OF checked_out_reach] by (simp add: pool_eval checked_out_def)

text \<open>A transaction's callback cannot check out a second connection. While the mark of a guarded
  transaction is active, an \<open>acquire\<close> in its context is rejected with the guard's error and changes
  nothing else; once the transaction has settled and released its connection, the same context is
  guarded no longer.\<close>

theorem tx_guard:
  assumes "p_context s w = Some m" "k_txGuard k" "\<not> p_closed s" "\<not> is_settled w s"
  shows "acquire k w (tx_enter k m s) = (tx_enter k m s)\<lparr>p_log := p_log s @ [(w, Inl TxGuard)]\<rparr> \<and>
    \<not> in_guarded_tx w (tx_leave k m c (tx_enter k m s))"
proof
  show "acquire k w (tx_enter k m s) = (tx_enter k m s)\<lparr>p_log := p_log s @ [(w, Inl TxGuard)]\<rparr>"
    using assms by (simp add: acquire_def tx_enter_def in_guarded_tx_def reject_caller_def is_settled_def)
  show "\<not> in_guarded_tx w (tx_leave k m c (tx_enter k m s))"
    using assms same_context_release [of "s\<lparr>p_marks := (p_marks s)(m := False)\<rparr>" k c]
    by (simp add: tx_leave_def tx_enter_def in_guarded_tx_def same_context_def)
qed

definition in_tx :: pool where
  "in_tx = new_pool\<lparr>p_context := (\<lambda>_. Some 5)\<rparr>"

theorem tx_guard_witness:
  "p_log (acquire demo_cfg 0 (tx_enter demo_cfg 5 in_tx)) = [(0, Inl TxGuard)]"
proof -
  have "p_context in_tx 0 = Some 5" "k_txGuard demo_cfg" "\<not> p_closed in_tx" "\<not> is_settled 0 in_tx" "p_log in_tx = []"
    by (simp_all add: in_tx_def new_pool_def is_settled_def demo_cfg_def pool_config_def Let_def)
  with tx_guard [of in_tx 0 5 demo_cfg 0] show ?thesis by simp
qed

lemma refused_transient: "\<not> classify_fatal (ConnectErr refused)"
  by (simp add: classify_fatal_def fatal_obj_def refused_def FATAL_CODES_def isUntrustedCertificate_def UNTRUSTED_CERTIFICATE_CODES_def)

lemma refilling_state:
  "pool_run demo_cfg refilling = new_pool\<lparr>p_all := [1], p_waitTimers := [1], p_opening := [(1, For_refill 1)],
     p_mem := (\<lambda>_. new_member)(0 := new_member\<lparr>pm_closed := True\<rparr>), p_next := 2, p_nextCaller := 2, p_log := [(0, Inr 0)]\<rparr>"
  by (simp add: pool_eval refilling_def Let_def new_member_def) (simp add: fun_eq_iff numeral_2_eq_2)

lemma pool_run_append: "pool_run k (xs @ ys) = fold (pool_apply k) ys (pool_run k xs)"
  by (simp add: pool_run_def)

lemmas pool_eval_breaker = trip_def refused_transient startProbe_def probe_loop_def backoff_def probe_wake_def probe_rested_def
  probe_opened_def settleBreaker_def cancelProbeNap_def wake_recovered_def armIdleTimer_def refill_opened_def waiter_resolve_def
  acquire_timeout_def reject_caller_def stuckHint_def

text \<open>A recovered database does not wake a parked caller. With one connection allowed, a caller is
  parked, the connection dies and is released, \<open>refill\<close> fails to reconnect and puts the caller back,
  the breaker trips, and the probe then reconnects: the new connection is idle, the breaker is up,
  nothing is pending anywhere in the pool, and the caller is still parked, served only by its timer or
  by somebody else's release.\<close>

theorem pool_lost_wakeup:
  "(let s = pool_run demo_cfg (refilling @ [Connect_settles 1 (For_refill 1) (Some refused),
        Open_continues (For_refill 1) (Inl (ConnectErr refused)), Nap_over 0, Probe_turn 0 0,
        Connect_settles 2 (For_probe 0 0) None, Open_continues (For_probe 0 0) (Inr 2)])
    in p_waiters s = [1] \<and> \<not> is_settled 1 s \<and> p_idle s = [2] \<and> \<not> p_down s \<and> p_held s = [] \<and> p_opening s = [] \<and>
       p_opened s = [] \<and> p_woken s = [] \<and> p_recovered s = [] \<and> p_naps s = [] \<and> p_rested s = [] \<and>
       p_draining s = [] \<and> p_rollbacks s = [])"
  unfolding pool_run_append refilling_state
  by (simp add: pool_eval_breaker pool_eval)

text \<open>A connection can be lost for good. When the parked caller's timer fires while \<open>refill\<close> is
  connecting for it, the connection that then opens is marked checked out for a caller that has already
  been rejected: nobody holds it, nobody will release it, and with \<open>max = 1\<close> the next caller finds the
  pool full.\<close>

theorem pool_leaks_refilled:
  "(let s = pool_run demo_cfg (refilling @ [Acquire_timeout 1, Connect_settles 1 (For_refill 1) None,
        Open_continues (For_refill 1) (Inr 1), Acquire None])
    in p_out s = [1] \<and> p_all s = [1] \<and> p_held s = [] \<and> p_idle s = [] \<and> p_opening s = [] \<and> p_opened s = [] \<and> p_waiters s = [2])"
  unfolding pool_run_append refilling_state
  by (simp add: pool_eval_breaker pool_eval)

text \<open>\<open>release()\<close> is not idempotent. A caller that releases twice, after somebody else was handed the
  same connection, takes it away from its new holder: the next caller is handed it as well, and two
  callers hold one connection.\<close>

theorem pool_stale_release:
  "p_held (pool_run demo_cfg (take 3 checked_out @ [Release 0 0, Acquire None, Release 0 0, Acquire None])) = [(1, 0), (2, 0)]"
  by (simp add: pool_eval checked_out_def Let_def new_member_def checkin_def armIdleTimer_def)

end
