(* ===== verification/Repl_Decode.thy ===== *)
theory Repl_Decode
  imports Json_Walk Wire_Parser
begin

section \<open>Logical replication: LSNs and pgoutput (src/replication.ts)\<close>

text \<open>
  \<open>ReplicationConnection.decode\<close> and what it calls: relation announcements with the per-column
  decoders a declared shape selects, tuples, updates with their TOAST fill and key comparison,
  and the once-per-table warnings. Cell decoders are functions of the buffer, the offset and the
  length, as in the source; the catalog that chooses them (\<open>pickDecoder\<close>, \<open>replBinaryFor\<close>,
  \<open>replBinaryForCol\<close>) is a parameter of \<open>relEntry\<close>. The messages of errors keep their subject.
\<close>

subsection \<open>LSNs\<close>

fun hex_digits :: "nat \<Rightarrow> nat list" where
  "hex_digits n = (if n < 16 then [n] else hex_digits (n div 16) @ [n mod 16])"

declare hex_digits.simps [simp del]

definition upper_hex :: "nat \<Rightarrow> unit16" where
  "upper_hex d = (if d < 10 then u16 (48 + d) else u16 (55 + d))"

definition lsnToString :: "nat \<Rightarrow> jsstr" where
  "lsnToString lsn = map upper_hex (hex_digits (lsn div 2 ^ 32)) @ u16 47 # map upper_hex (hex_digits (lsn mod 2 ^ 32))"

text \<open>\<open>parseInt(s, 16)\<close>: the longest hexadecimal prefix after blanks, a sign and \<open>0x\<close>; \<open>BigInt\<close> of the
  double throws on NaN.\<close>

fun hex_prefix :: "jsstr \<Rightarrow> nat list" where
  "hex_prefix [] = []"
| "hex_prefix (c # cs) = (if radix_digit c < 16 then radix_digit c # hex_prefix cs else [])"

definition hex_value :: "nat list \<Rightarrow> nat" where
  "hex_value ds = foldl (\<lambda>n d. n * 16 + d) 0 ds"

definition skip_0x :: "jsstr \<Rightarrow> jsstr" where
  "skip_0x s = (case s of a # x # r \<Rightarrow> if a = u16 48 \<and> (x = u16 120 \<or> x = u16 88) then r else s | _ \<Rightarrow> s)"

definition parseInt16 :: "jsstr \<Rightarrow> js_error + int" where
  "parseInt16 s =
     (let (neg, r) = sign_of (dropWhile js_space s); ds = hex_prefix (skip_0x r) in
      if ds = [] then Inl (Thrown ''BigInt(NaN)'')
      else case double (of_nat (hex_value ds)) of
        Fin q \<Rightarrow> Inr (if neg then - \<lfloor>q\<rfloor> else \<lfloor>q\<rfloor>)
      | _ \<Rightarrow> Inl (Thrown ''BigInt(Infinity)''))"

definition until_slash :: "jsstr \<Rightarrow> jsstr" where
  "until_slash s = takeWhile (\<lambda>c. c \<noteq> u16 47) s"

definition after_slash :: "jsstr \<Rightarrow> jsstr option" where
  "after_slash s = (case dropWhile (\<lambda>c. c \<noteq> u16 47) s of [] \<Rightarrow> None | _ # r \<Rightarrow> Some (until_slash r))"

text \<open>\<open>(hi << 32n) | lo\<close> of BigInts; a missing part is \<open>undefined\<close>, whose text has no hexadecimal prefix.\<close>

definition lsnFromString :: "jsstr \<Rightarrow> js_error + int" where
  "lsnFromString s =
     rbind (parseInt16 (until_slash s)) (\<lambda>hi.
     rbind (parseInt16 (case after_slash s of Some r \<Rightarrow> r | None \<Rightarrow> asc ''undefined'')) (\<lambda>lo.
       Inr (or (push_bit 32 hi) lo)))"

subsection \<open>Relations, rows and events\<close>

record rel_column =
  rc_name :: jsstr
  rc_oid :: int
  rc_key :: bool

record rel_info =
  ri_schema :: jsstr
  ri_table :: jsstr
  ri_identity :: nat             \<comment> \<open>the character of \<open>replicaIdentity\<close>\<close>
  ri_columns :: "rel_column list"

type_synonym cell_decoder = "bytes \<Rightarrow> int \<Rightarrow> int \<Rightarrow> dres"

record rel_entry =
  re_info :: rel_info
  re_names :: "jsstr list"
  re_decoders :: "cell_decoder list"
  re_bin :: "cell_decoder option list option"
  re_key :: "jsstr list option"

type_synonym row_obj = "(jsstr \<times> dval) list"

datatype old_kind = OldKey | OldFull

datatype repl_event =
    RBegin int dval jnum jsstr                 \<comment> \<open>xid, commitTime, commitTimeUs, finalLsn\<close>
  | RCommit jsstr jsstr dval jnum              \<comment> \<open>lsn, endLsn, commitTime, commitTimeUs\<close>
  | RInsert jsstr jsstr row_obj
  | RUpdate jsstr jsstr row_obj "jsstr list" "bool option" "(row_obj \<times> old_kind) option"
  | RDelete jsstr jsstr row_obj old_kind
  | RTruncate "(jsstr \<times> jsstr) list" bool bool
  | RMessage bool jsstr bytes jsstr            \<comment> \<open>transactional, prefix, content, lsn\<close>
  | RRelation rel_info

datatype repl_warning =
    W_publication_empty jsstr
  | W_replica_identity jsstr jsstr nat
  | W_partition_relation jsstr jsstr jsstr

text \<open>A declared column of a \<open>TableShape\<close>: its output key, OID (0 for \<open>'unknown'\<close>), whether it is a JSON
  marker, and an opaque tag for the rest of its specification; a transform is applied to the decoded value.\<close>

record shape_col =
  sc_name :: jsstr
  sc_oid :: int
  sc_json :: bool
  sc_tag :: nat
  sc_xform :: "(dval \<Rightarrow> dres) option"

record table_shape =
  ts_cols :: "shape_col list"
  ts_columns :: "(jsstr \<times> jsstr) list"     \<comment> \<open>shape key to SQL column\<close>
  ts_key :: "jsstr list option"

text \<open>The part of \<open>ReplicationConnection\<close> that decoding reads and writes. Keys of the maps are
  schema and table joined by a NUL, as in the source.\<close>

record repl =
  r_relations :: "int \<Rightarrow> rel_entry option"
  r_shaped :: "jsstr \<Rightarrow> table_shape option"
  r_binaryMode :: bool
  r_hydrateToast :: bool
  r_warn :: bool                            \<comment> \<open>an \<open>onWarning\<close> callback is set\<close>
  r_warned :: "jsstr set"
  r_leafPartitions :: "jsstr \<Rightarrow> jsstr option"
  r_warnings :: "repl_warning list"         \<comment> \<open>what the callback received\<close>

record decoder_catalog =
  dc_pick :: "int \<Rightarrow> shape_col option \<Rightarrow> cell_decoder"         \<comment> \<open>\<open>pickDecoder(tagArrayCol(...))\<close> with the OID in force\<close>
  dc_replBinaryFor :: "int \<Rightarrow> cell_decoder option"
  dc_replBinaryForCol :: "shape_col \<Rightarrow> cell_decoder option"

definition qual_name :: "jsstr \<Rightarrow> jsstr \<Rightarrow> jsstr" where
  "qual_name schema table = schema @ u16 0 # table"

subsection \<open>Warnings, once per table and kind\<close>

definition deliverWarning :: "repl_warning \<Rightarrow> repl \<Rightarrow> repl" where
  "deliverWarning w s = s\<lparr>r_warnings := r_warnings s @ [w]\<rparr>"

definition warnIdentity :: "rel_entry \<Rightarrow> repl \<Rightarrow> repl" where
  "warnIdentity r s =
     (let i = re_info r; k = asc ''replica-identity'' @ u16 0 # qual_name (ri_schema i) (ri_table i) in
      if \<not> r_warn s then s
      else if k \<in> r_warned s then s
      else deliverWarning (W_replica_identity (ri_schema i) (ri_table i) (ri_identity i)) (s\<lparr>r_warned := insert k (r_warned s)\<rparr>))"

definition warnPartition :: "jsstr \<Rightarrow> jsstr \<Rightarrow> repl \<Rightarrow> repl" where
  "warnPartition schema table s =
     (let k = asc ''partition-relation'' @ u16 0 # qual_name schema table in
      if \<not> r_warn s then s
      else case r_leafPartitions s (qual_name schema table) of
        None \<Rightarrow> s
      | Some pub \<Rightarrow>
          if k \<in> r_warned s then s
          else deliverWarning (W_partition_relation schema table pub) (s\<lparr>r_warned := insert k (r_warned s)\<rparr>))"

subsection \<open>Relation entries\<close>

fun index_where :: "('a \<Rightarrow> bool) \<Rightarrow> 'a list \<Rightarrow> nat option" where
  "index_where p [] = None"
| "index_where p (x # xs) = (if p x then Some 0 else map_option Suc (index_where p xs))"

text \<open>The loop over the declared columns: the SQL columns already taken and the output names so far.\<close>

fun map_shape :: "table_shape \<Rightarrow> rel_info \<Rightarrow> shape_col list \<Rightarrow> (jsstr \<times> shape_col) list \<Rightarrow> jsstr list \<Rightarrow>
    js_error + (jsstr \<times> shape_col) list \<times> jsstr list" where
  "map_shape sh info [] bySql names = Inr (bySql, names)"
| "map_shape sh info (sc # scs) bySql names =
     (let sql = (case map_of (ts_columns sh) (sc_name sc) of Some c \<Rightarrow> c | None \<Rightarrow> sc_name sc) in
      case index_where (\<lambda>c. rc_name c = sql) (ri_columns info) of
        None \<Rightarrow> Inl (Thrown ''shape column not in relation'')
      | Some i \<Rightarrow>
          if map_of bySql sql \<noteq> None then Inl (Thrown ''two shape keys map to one column'')
          else map_shape sh info scs (bySql @ [(sql, sc)]) (names[i := sc_name sc]))"

definition xf :: "cell_decoder \<Rightarrow> (dval \<Rightarrow> dres) option \<Rightarrow> cell_decoder" where
  "xf d f = (case f of None \<Rightarrow> d | Some g \<Rightarrow> (\<lambda>b p l. rbind (d b p l) g))"

definition text_decoder :: "decoder_catalog \<Rightarrow> (jsstr \<times> shape_col) list \<Rightarrow> rel_column \<Rightarrow> cell_decoder" where
  "text_decoder dc bySql c =
     (case map_of bySql (rc_name c) of
        None \<Rightarrow> dc_pick dc (rc_oid c) None
      | Some sc \<Rightarrow> xf (dc_pick dc (if sc_oid sc = 0 then rc_oid c else sc_oid sc) (Some sc)) (sc_xform sc))"

definition bin_decoder :: "decoder_catalog \<Rightarrow> (jsstr \<times> shape_col) list \<Rightarrow> rel_column \<Rightarrow> cell_decoder option" where
  "bin_decoder dc bySql c =
     (case map_of bySql (rc_name c) of
        None \<Rightarrow> dc_replBinaryFor dc (rc_oid c)
      | Some sc \<Rightarrow> map_option (\<lambda>d. xf d (sc_xform sc))
          (if sc_oid sc = 0 \<and> \<not> sc_json sc then dc_replBinaryFor dc (rc_oid c) else dc_replBinaryForCol dc sc))"

definition relEntry :: "decoder_catalog \<Rightarrow> repl \<Rightarrow> rel_info \<Rightarrow> js_error + rel_entry" where
  "relEntry dc s info =
     (let shape = r_shaped s (qual_name (ri_schema info) (ri_table info)); cols = map rc_name (ri_columns info) in
      rbind (case shape of None \<Rightarrow> Inr ([], cols)
             | Some sh \<Rightarrow> rbind (map_shape sh info (ts_cols sh) [] cols) (\<lambda>(m, names).
                 if distinct names then Inr (m, names) else Inl (Thrown ''output key collides with another column'')))
        (\<lambda>(bySql, names).
           let bin = (if r_binaryMode s then Some (map (bin_decoder dc bySql) (ri_columns info)) else None) in
           if (case bin of Some ds \<Rightarrow> None \<in> set ds | None \<Rightarrow> False) then Inl (Thrown ''no binary decoder for a column'')
           else Inr \<lparr>re_info = info, re_names = names, re_decoders = map (text_decoder dc bySql) (ri_columns info),
                     re_bin = bin, re_key = (case shape of Some sh \<Rightarrow> ts_key sh | None \<Rightarrow> None)\<rparr>))"

subsection \<open>Tuples\<close>

text \<open>\<open>row[name] = v\<close>: an assignment to \<open>__proto__\<close> creates no property.\<close>

definition row_set :: "row_obj \<Rightarrow> jsstr \<Rightarrow> dval \<Rightarrow> row_obj" where
  "row_set row k v = (if k = asc ''__proto__'' then row else obj_set row k v)"

text \<open>\<open>b.toString('utf8', s, e)\<close> clamps both ends.\<close>

definition utf8_between :: "bytes \<Rightarrow> int \<Rightarrow> int \<Rightarrow> jsstr" where
  "utf8_between b s e = from_utf8 (take (nat e - nat s) (drop (nat s) b))"

definition cell_value :: "rel_entry \<Rightarrow> bytes \<Rightarrow> nat \<Rightarrow> byte option \<Rightarrow> int \<Rightarrow> int \<Rightarrow> dres" where
  "cell_value rel b i k off len =
     (if k = Some (b8 98) then
        (case re_bin rel of
           Some ds \<Rightarrow> (if i < length ds then (case ds ! i of Some d \<Rightarrow> d b off len | None \<Rightarrow> Inl (Thrown ''no binary decoder''))
                      else Inl (Thrown ''no binary decoder''))
         | None \<Rightarrow> Inl (Thrown ''no binary decoder''))
      else if i < length (re_decoders rel) then (re_decoders rel ! i) b off len
      else Inr (DStr (utf8_between b off (off + len))))"

fun tuple_loop :: "rel_entry \<Rightarrow> bytes \<Rightarrow> nat \<Rightarrow> nat \<Rightarrow> int \<Rightarrow> row_obj \<Rightarrow> jsstr list \<Rightarrow> js_error + row_obj \<times> jsstr list \<times> int" where
  "tuple_loop rel b i 0 off row unchanged = Inr (row, unchanged, off)"
| "tuple_loop rel b i (Suc n) off row unchanged =
     (let name = (if i < length (re_names rel) then re_names rel ! i else dec_nat i); k = byte_at b off in
      if k = Some (b8 110) then tuple_loop rel b (Suc i) n (off + 1) (row_set row name DNull) unchanged
      else if k = Some (b8 117) then tuple_loop rel b (Suc i) n (off + 1) row (unchanged @ [name])
      else rbind (read_int 4 b (off + 1)) (\<lambda>len.
           rbind (cell_value rel b i k (off + 5) len) (\<lambda>v.
             tuple_loop rel b (Suc i) n (off + 5 + len) (row_set row name v) unchanged)))"

definition tuple_at :: "rel_entry \<Rightarrow> bytes \<Rightarrow> int \<Rightarrow> js_error + row_obj \<times> jsstr list \<times> int" where
  "tuple_at rel b off = rbind (read_int 2 b off) (\<lambda>n. tuple_loop rel b 0 (nat n) (off + 2) [] [])"

subsection \<open>Updates\<close>

text \<open>\<open>sameValue\<close> on two values of decoded rows, None where a row has no such property. Arrays and
  objects of two rows are never the same reference.\<close>

fun same_value :: "dval \<Rightarrow> dval \<Rightarrow> bool" where
  "same_value (DArr xs) b = False"
| "same_value (DObj xs) b = False"
| "same_value (DUser xs) b = False"
| "same_value (DBuf xs) (DBuf ys) \<longleftrightarrow> xs = ys"
| "same_value (DF32 xs) (DF32 ys) \<longleftrightarrow> xs = ys"
| "same_value a b \<longleftrightarrow> a = b"

definition sameValue :: "dval option \<Rightarrow> dval option \<Rightarrow> bool" where
  "sameValue a b = (case (a, b) of (Some x, Some y) \<Rightarrow> same_value x y | (None, None) \<Rightarrow> True | _ \<Rightarrow> False)"

fun hydrate :: "row_obj \<Rightarrow> jsstr list \<Rightarrow> row_obj \<Rightarrow> row_obj" where
  "hydrate old [] row = row"
| "hydrate old (n # ns) row = hydrate old ns (case map_of old n of Some v \<Rightarrow> row_set row n v | None \<Rightarrow> row)"

definition key_changed :: "rel_entry \<Rightarrow> (row_obj \<times> old_kind) option \<Rightarrow> jsstr list \<Rightarrow> row_obj \<Rightarrow> bool option" where
  "key_changed r old unchanged row =
     map_option (\<lambda>key. case old of
         Some (_, OldKey) \<Rightarrow> True
       | None \<Rightarrow> False
       | Some (o_row, OldFull) \<Rightarrow>
           list_ex (\<lambda>n. n \<notin> set unchanged \<and> \<not> sameValue (map_of o_row n) (map_of row n)) key) (re_key r)"

definition update_event :: "repl \<Rightarrow> rel_entry \<Rightarrow> (row_obj \<times> old_kind) option \<Rightarrow> row_obj \<Rightarrow> jsstr list \<Rightarrow> repl_event" where
  "update_event s r old new_row unchanged =
     (let row = (case old of
           Some (o_row, OldFull) \<Rightarrow> if r_hydrateToast s then hydrate o_row unchanged new_row else new_row
         | _ \<Rightarrow> new_row)
      in RUpdate (ri_schema (re_info r)) (ri_table (re_info r)) row unchanged (key_changed r old unchanged row) old)"

subsection \<open>decode\<close>

definition PG_EPOCH_US :: int where "PG_EPOCH_US = 946684800000000"

definition ts_date :: "int \<Rightarrow> dval" where
  "ts_date us = js_date (double (of_int ((us + PG_EPOCH_US) div 1000)))"

definition ts_us :: "int \<Rightarrow> jnum" where
  "ts_us us = double (of_int (us + PG_EPOCH_US))"

definition cstr_at :: "bytes \<Rightarrow> int \<Rightarrow> js_error + jsstr \<times> int" where
  "cstr_at b off = (case name_end b (nat off) of
       None \<Rightarrow> Inl NoReturn
     | Some e \<Rightarrow> Inr (utf8_between b off (int e), int e + 1))"

definition rel_of :: "repl \<Rightarrow> int \<Rightarrow> js_error + rel_entry" where
  "rel_of s i = (case r_relations s i of Some r \<Rightarrow> Inr r | None \<Rightarrow> Inl (Thrown ''unannounced relation''))"

fun rel_columns :: "bytes \<Rightarrow> nat \<Rightarrow> int \<Rightarrow> js_error + rel_column list" where
  "rel_columns b 0 off = Inr []"
| "rel_columns b (Suc n) off =
     rbind (cstr_at b (off + 1)) (\<lambda>(nm, o1).
     rbind (read_int 4 b o1) (\<lambda>oid.
     rbind (rel_columns b n (o1 + 8)) (\<lambda>cs.
       Inr (\<lparr>rc_name = nm, rc_oid = oid, rc_key = (byte_at b off = Some 1)\<rparr> # cs))))"

definition char_code :: "byte option \<Rightarrow> nat" where
  "char_code k = (case k of Some c \<Rightarrow> unat c | None \<Rightarrow> 0)"

definition decode_relation :: "decoder_catalog \<Rightarrow> repl \<Rightarrow> bytes \<Rightarrow> js_error + repl \<times> repl_event option" where
  "decode_relation dc s b =
     rbind (read_int 4 b 1) (\<lambda>rid.
     rbind (cstr_at b 5) (\<lambda>(schema, o1).
     rbind (cstr_at b o1) (\<lambda>(table, o2).
     rbind (read_int 2 b (o2 + 1)) (\<lambda>n.
     rbind (rel_columns b (nat n) (o2 + 3)) (\<lambda>cols.
       let info = \<lparr>ri_schema = schema, ri_table = table, ri_identity = char_code (byte_at b o2), ri_columns = cols\<rparr> in
       rbind (relEntry dc s info) (\<lambda>e.
         Inr (warnPartition schema table (s\<lparr>r_relations := (r_relations s)(rid := Some e)\<rparr>), Some (RRelation info))))))))"

definition decode_insert :: "repl \<Rightarrow> bytes \<Rightarrow> js_error + repl \<times> repl_event option" where
  "decode_insert s b =
     rbind (read_int 4 b 1) (\<lambda>rid. rbind (rel_of s rid) (\<lambda>r.
     rbind (tuple_at r b 6) (\<lambda>(row, unchanged, p).
       Inr (s, Some (RInsert (ri_schema (re_info r)) (ri_table (re_info r)) row)))))"

definition old_tuple :: "rel_entry \<Rightarrow> bytes \<Rightarrow> js_error + (row_obj \<times> old_kind) option \<times> int" where
  "old_tuple r b =
     (let k = char_code (byte_at b 5) in
      if k = 75 \<or> k = 79
      then rbind (tuple_at r b 6) (\<lambda>(row, unchanged, p). Inr (Some (row, if k = 75 then OldKey else OldFull), p + 1))
      else Inr (None, 6))"

definition decode_update :: "repl \<Rightarrow> bytes \<Rightarrow> js_error + repl \<times> repl_event option" where
  "decode_update s b =
     rbind (read_int 4 b 1) (\<lambda>rid. rbind (rel_of s rid) (\<lambda>r.
     rbind (old_tuple r b) (\<lambda>(old, p).
       let s1 = (case old of Some (_, OldFull) \<Rightarrow> s | _ \<Rightarrow> warnIdentity r s) in
       rbind (tuple_at r b p) (\<lambda>(row, unchanged, q).
         Inr (s1, Some (update_event s1 r old row unchanged))))))"

definition decode_delete :: "repl \<Rightarrow> bytes \<Rightarrow> js_error + repl \<times> repl_event option" where
  "decode_delete s b =
     rbind (read_int 4 b 1) (\<lambda>rid. rbind (rel_of s rid) (\<lambda>r.
       let key = (char_code (byte_at b 5) = 75); s1 = (if key then warnIdentity r s else s) in
       rbind (tuple_at r b 6) (\<lambda>(row, unchanged, p).
         Inr (s1, Some (RDelete (ri_schema (re_info r)) (ri_table (re_info r)) row (if key then OldKey else OldFull))))))"

fun truncate_tables :: "repl \<Rightarrow> bytes \<Rightarrow> nat \<Rightarrow> int \<Rightarrow> js_error + (jsstr \<times> jsstr) list" where
  "truncate_tables s b 0 off = Inr []"
| "truncate_tables s b (Suc n) off =
     rbind (read_int 4 b off) (\<lambda>rid. rbind (rel_of s rid) (\<lambda>r.
     rbind (truncate_tables s b n (off + 4)) (\<lambda>ts. Inr ((ri_schema (re_info r), ri_table (re_info r)) # ts))))"

definition decode_truncate :: "repl \<Rightarrow> bytes \<Rightarrow> js_error + repl \<times> repl_event option" where
  "decode_truncate s b =
     rbind (read_int 4 b 1) (\<lambda>n.
     rbind (truncate_tables s b (nat n) 6) (\<lambda>ts.
       let flags = char_code (byte_at b 5) in Inr (s, Some (RTruncate ts (odd flags) (odd (flags div 2))))))"

definition decode_message :: "repl \<Rightarrow> bytes \<Rightarrow> js_error + repl \<times> repl_event option" where
  "decode_message s b =
     rbind (read_uint 8 b 2) (\<lambda>lsn.
     rbind (cstr_at b 10) (\<lambda>(prefix, p).
     rbind (read_int 4 b p) (\<lambda>len.
       Inr (s, Some (RMessage (byte_at b 1 = Some 1) prefix (subarray b (p + 4) (p + 4 + len)) (lsnToString (nat lsn)))))))"

definition decode_begin :: "bytes \<Rightarrow> js_error + repl_event" where
  "decode_begin b =
     rbind (read_uint 8 b 1) (\<lambda>lsn. rbind (read_uint 8 b 9) (\<lambda>us. rbind (read_int 4 b 17) (\<lambda>xid.
       Inr (RBegin xid (ts_date us) (ts_us us) (lsnToString (nat lsn))))))"

definition decode_commit :: "bytes \<Rightarrow> js_error + repl_event" where
  "decode_commit b =
     rbind (read_uint 8 b 2) (\<lambda>lsn. rbind (read_uint 8 b 10) (\<lambda>e. rbind (read_uint 8 b 18) (\<lambda>us.
       Inr (RCommit (lsnToString (nat lsn)) (lsnToString (nat e)) (ts_date us) (ts_us us)))))"

definition decode_pgoutput :: "decoder_catalog \<Rightarrow> repl \<Rightarrow> bytes \<Rightarrow> js_error + repl \<times> repl_event option" where
  "decode_pgoutput dc s b =
     (let tag = char_code (byte_at b 0) in
      if tag = 66 then rbind (decode_begin b) (\<lambda>e. Inr (s, Some e))
      else if tag = 67 then rbind (decode_commit b) (\<lambda>e. Inr (s, Some e))
      else if tag = 82 then decode_relation dc s b
      else if tag = 73 then decode_insert s b
      else if tag = 85 then decode_update s b
      else if tag = 68 then decode_delete s b
      else if tag = 84 then decode_truncate s b
      else if tag = 77 then decode_message s b
      else if tag = 79 \<or> tag = 89 then Inr (s, None)
      else Inl (Thrown ''unknown pgoutput message''))"

subsection \<open>LSN texts round-trip\<close>

lemma hex_digits_less: "\<forall>d\<in>set (hex_digits n). d < 16"
  by (induction n rule: hex_digits.induct) (subst hex_digits.simps, auto)

lemma hex_digits_nonempty: "hex_digits n \<noteq> []"
  by (subst hex_digits.simps) simp

lemma hex_value_snoc: "hex_value (ds @ [d]) = hex_value ds * 16 + d"
  by (simp add: hex_value_def)

lemma hex_value_hex_digits: "hex_value (hex_digits n) = n"
proof (induction n rule: hex_digits.induct)
  case (1 n)
  then show ?case by (subst hex_digits.simps) (auto simp: hex_value_snoc, simp add: hex_value_def)
qed

lemma upper_hex_unat: "d < 16 \<Longrightarrow> unat (upper_hex d) = (if d < 10 then 48 + d else 55 + d)"
  by (simp add: upper_hex_def)

lemma upper_hex_props:
  assumes "d < 16"
  shows "radix_digit (upper_hex d) = d" "upper_hex d \<noteq> u16 47" "\<not> js_space (upper_hex d)"
    "unat (upper_hex d) \<noteq> 45" "unat (upper_hex d) \<noteq> 43" "upper_hex d \<noteq> u16 120" "upper_hex d \<noteq> u16 88"
proof -
  note u = upper_hex_unat [OF assms]
  show "radix_digit (upper_hex d) = d" using assms by (simp add: radix_digit_def Let_def u)
  show "\<not> js_space (upper_hex d)" using assms by (auto simp: js_space_def Let_def u)
  show "unat (upper_hex d) \<noteq> 45" "unat (upper_hex d) \<noteq> 43" using assms by (auto simp: u)
  have "unat (upper_hex d) \<noteq> 47" "unat (upper_hex d) \<noteq> 120" "unat (upper_hex d) \<noteq> 88" using assms by (auto simp: u)
  then show "upper_hex d \<noteq> u16 47" "upper_hex d \<noteq> u16 120" "upper_hex d \<noteq> u16 88" by auto
qed

lemma hex_prefix_digits: "\<forall>d\<in>set ds. d < 16 \<Longrightarrow> hex_prefix (map upper_hex ds) = ds"
  by (induction ds) (auto simp: upper_hex_props)

lemma parseInt16_hex:
  assumes "n < 2 ^ 32"
  shows "parseInt16 (map upper_hex (hex_digits n)) = Inr (int n)"
proof -
  obtain d ds where ds: "hex_digits n = d # ds" using hex_digits_nonempty by (metis neq_Nil_conv)
  have lt: "d < 16" "\<forall>x\<in>set ds. x < 16" using hex_digits_less [of n] by (auto simp: ds)
  have "skip_0x (map upper_hex (d # ds)) = map upper_hex (d # ds)"
    using lt by (cases ds) (auto simp: skip_0x_def upper_hex_props)
  moreover have "hex_prefix (map upper_hex (d # ds)) = d # ds" by (rule hex_prefix_digits) (use lt in simp)
  moreover have "n \<le> 2 ^ 53" using assms by simp
  ultimately show ?thesis
    using lt double_nat [of n] hex_value_hex_digits [of n] unfolding ds
    by (simp add: parseInt16_def sign_of_def upper_hex_props Let_def)
qed

lemma until_slash_hex: "\<forall>d\<in>set ds. d < 16 \<Longrightarrow> until_slash (map upper_hex ds @ u16 47 # r) = map upper_hex ds"
  "\<forall>d\<in>set ds. d < 16 \<Longrightarrow> until_slash (map upper_hex ds) = map upper_hex ds"
  "\<forall>d\<in>set ds. d < 16 \<Longrightarrow> dropWhile (\<lambda>c. c \<noteq> u16 47) (map upper_hex ds @ u16 47 # r) = u16 47 # r"
  by (induction ds) (auto simp: until_slash_def upper_hex_props)

lemma or_disjoint: "0 \<le> lo \<Longrightarrow> lo < 2 ^ 32 \<Longrightarrow> or (push_bit 32 hi) lo = hi * 2 ^ 32 + (lo :: int)"
proof -
  assume lo: "0 \<le> lo" "lo < 2 ^ 32"
  then have t: "take_bit 32 lo = lo" by (simp add: take_bit_int_eq_self_iff)
  have "and (push_bit 32 hi) (take_bit 32 lo) = 0" by (auto simp: bit_eq_iff bit_simps)
  from disjunctive_add_eq_or [OF this] show ?thesis by (simp add: t push_bit_eq_mult)
qed

lemma lsn_roundtrip:
  assumes "lsn < 2 ^ 64"
  shows "lsnFromString (lsnToString lsn) = Inr (int lsn)"
proof -
  have "lsn div 2 ^ 32 < 2 ^ 32" using assms by (simp add: div_less_iff_less_mult)
  then have "parseInt16 (map upper_hex (hex_digits (lsn div 2 ^ 32))) = Inr (int (lsn div 2 ^ 32))"
    "parseInt16 (map upper_hex (hex_digits (lsn mod 2 ^ 32))) = Inr (int (lsn mod 2 ^ 32))"
    by (simp_all add: parseInt16_hex)
  moreover have "or (push_bit 32 (int (lsn div 2 ^ 32))) (int (lsn mod 2 ^ 32)) = int (lsn div 2 ^ 32) * 2 ^ 32 + int (lsn mod 2 ^ 32)"
    by (rule or_disjoint) (simp_all add: zmod_int)
  moreover have "int (lsn div 2 ^ 32) * 2 ^ 32 + int (lsn mod 2 ^ 32) = int lsn"
    by (simp add: zdiv_int zmod_int)
  ultimately show ?thesis
    by (simp add: lsnFromString_def lsnToString_def after_slash_def until_slash_hex hex_digits_less)
qed

subsection \<open>Tuples are read back\<close>

text \<open>The cells of a pgoutput tuple, and the wire form PostgreSQL's protocol documents for them.\<close>

datatype tcell = TNull | TUnchanged | TText bytes | TBin bytes

fun tcell_wire :: "tcell \<Rightarrow> bytes" where
  "tcell_wire TNull = [b8 110]"
| "tcell_wire TUnchanged = [b8 117]"
| "tcell_wire (TText v) = b8 116 # be_bytes 4 (int (length v)) @ v"
| "tcell_wire (TBin v) = b8 98 # be_bytes 4 (int (length v)) @ v"

definition tuple_wire :: "tcell list \<Rightarrow> bytes" where
  "tuple_wire cells = be_bytes 2 (int (length cells)) @ concat (map tcell_wire cells)"

text \<open>A decoder reads a value off a cell wherever the cell stands.\<close>

definition reads_cell :: "cell_decoder \<Rightarrow> bytes \<Rightarrow> dval \<Rightarrow> bool" where
  "reads_cell d v x \<longleftrightarrow> (\<forall>pre post. d (pre @ v @ post) (int (length pre)) (int (length v)) = Inr x)"

fun cell_reads :: "rel_entry \<Rightarrow> nat \<Rightarrow> tcell \<Rightarrow> dval option \<Rightarrow> bool" where
  "cell_reads rel i TNull x \<longleftrightarrow> x = Some DNull"
| "cell_reads rel i TUnchanged x \<longleftrightarrow> x = None"
| "cell_reads rel i (TText v) x \<longleftrightarrow> length v < 2 ^ 31 \<and> i < length (re_decoders rel) \<and>
     (\<exists>y. x = Some y \<and> reads_cell (re_decoders rel ! i) v y)"
| "cell_reads rel i (TBin v) x \<longleftrightarrow> length v < 2 ^ 31 \<and>
     (\<exists>y ds d. x = Some y \<and> re_bin rel = Some ds \<and> i < length ds \<and> ds ! i = Some d \<and> reads_cell d v y)"

fun cells_read :: "rel_entry \<Rightarrow> nat \<Rightarrow> tcell list \<Rightarrow> dval option list \<Rightarrow> bool" where
  "cells_read rel i [] xs \<longleftrightarrow> xs = []"
| "cells_read rel i (c # cs) xs \<longleftrightarrow> (case xs of [] \<Rightarrow> False | y # ys \<Rightarrow> cell_reads rel i c y \<and> cells_read rel (Suc i) cs ys)"

fun present :: "jsstr list \<Rightarrow> dval option list \<Rightarrow> row_obj" where
  "present (n # ns) (Some x # xs) = (n, x) # present ns xs"
| "present (n # ns) (None # xs) = present ns xs"
| "present _ _ = []"

fun omitted :: "jsstr list \<Rightarrow> dval option list \<Rightarrow> jsstr list" where
  "omitted (n # ns) (Some x # xs) = omitted ns xs"
| "omitted (n # ns) (None # xs) = n # omitted ns xs"
| "omitted _ _ = []"

lemma obj_set_fresh: "k \<notin> fst ` set row \<Longrightarrow> obj_set row k v = row @ [(k, v)]"
  by (induction row) auto

lemma cell_value_text:
  assumes "reads_cell (re_decoders rel ! i) v y" "i < length (re_decoders rel)"
  shows "cell_value rel (pre @ v @ post) i (Some (b8 116)) (int (length pre)) (int (length v)) = Inr y"
proof -
  have "b8 116 \<noteq> b8 98" by (simp add: b8_def)
  with assms show ?thesis by (simp add: cell_value_def reads_cell_def)
qed

lemma cell_value_bin:
  assumes "reads_cell d v y" "re_bin rel = Some ds" "i < length ds" "ds ! i = Some d"
  shows "cell_value rel (pre @ v @ post) i (Some (b8 98)) (int (length pre)) (int (length v)) = Inr y"
  using assms by (simp add: cell_value_def reads_cell_def)

lemma byte_at_here: "byte_at (pre @ c # post) (int (length pre)) = Some c"
  by (simp add: byte_at_def nth_append)

text \<open>One value cell: its tag, its length, its bytes.\<close>

lemma tuple_step_value:
  fixes pre post v :: bytes
  assumes "length v < 2 ^ 31" "tag = b8 116 \<or> tag = b8 98" "i < length (re_names rel)"
    "\<And>pre post. cell_value rel (pre @ v @ post) i (Some tag) (int (length pre)) (int (length v)) = Inr y"
  shows "tuple_loop rel (pre @ (tag # be_bytes 4 (int (length v)) @ v) @ post) i (Suc n) (int (length pre)) row unchanged =
    tuple_loop rel (pre @ (tag # be_bytes 4 (int (length v)) @ v) @ post) (Suc i) n
      (int (length (pre @ tag # be_bytes 4 (int (length v)) @ v))) (row_set row (re_names rel ! i) y) unchanged"
proof -
  let ?b = "pre @ (tag # be_bytes 4 (int (length v)) @ v) @ post"
  have tag: "byte_at ?b (int (length pre)) = Some tag" using byte_at_here [of pre tag] by simp
  have no: "tag \<noteq> b8 110" "tag \<noteq> b8 117" using assms(2) by (auto simp: b8_def)
  have len: "read_int 4 ?b (int (length pre) + 1) = Inr (int (length v))"
    by (rule read_int_here [of _ _ _ "pre @ [tag]" "v @ post"]) (use assms(1) in \<open>simp_all add: in_int_def\<close>)
  have val: "cell_value rel ?b i (Some tag) (int (length pre) + 5) (int (length v)) = Inr y"
    using assms(4) [of "pre @ tag # be_bytes 4 (int (length v))" post] by (simp add: add.commute)
  show ?thesis using tag no len val assms(3) by (simp add: Let_def ac_simps)
qed

lemma tuple_step_mark:
  assumes "i < length (re_names rel)"
  shows "tuple_loop rel (pre @ [b8 110] @ post) i (Suc n) (int (length pre)) row unchanged =
      tuple_loop rel (pre @ [b8 110] @ post) (Suc i) n (int (length (pre @ [b8 110]))) (row_set row (re_names rel ! i) DNull) unchanged"
    and "tuple_loop rel (pre @ [b8 117] @ post) i (Suc n) (int (length pre)) row unchanged =
      tuple_loop rel (pre @ [b8 117] @ post) (Suc i) n (int (length (pre @ [b8 117]))) row (unchanged @ [re_names rel ! i])"
proof -
  have "b8 117 \<noteq> b8 110" by (simp add: b8_def)
  then show "tuple_loop rel (pre @ [b8 110] @ post) i (Suc n) (int (length pre)) row unchanged =
      tuple_loop rel (pre @ [b8 110] @ post) (Suc i) n (int (length (pre @ [b8 110]))) (row_set row (re_names rel ! i) DNull) unchanged"
    and "tuple_loop rel (pre @ [b8 117] @ post) i (Suc n) (int (length pre)) row unchanged =
      tuple_loop rel (pre @ [b8 117] @ post) (Suc i) n (int (length (pre @ [b8 117]))) row (unchanged @ [re_names rel ! i])"
    using assms byte_at_here [of pre "b8 110" post] byte_at_here [of pre "b8 117" post]
    by (simp_all add: Let_def ac_simps)
qed

lemma cell_wire_step:
  assumes "cell_reads rel i c x" "i < length (re_names rel)"
  shows "tuple_loop rel (pre @ tcell_wire c @ post) i (Suc n) (int (length pre)) row unchanged =
    tuple_loop rel (pre @ tcell_wire c @ post) (Suc i) n (int (length (pre @ tcell_wire c)))
      (case x of Some y \<Rightarrow> row_set row (re_names rel ! i) y | None \<Rightarrow> row)
      (case x of Some y \<Rightarrow> unchanged | None \<Rightarrow> unchanged @ [re_names rel ! i])"
proof (cases c)
  case (TText v)
  with assms obtain y where y: "x = Some y" "reads_cell (re_decoders rel ! i) v y" "i < length (re_decoders rel)" "length v < 2 ^ 31" by auto
  show ?thesis
    using tuple_step_value [where pre = pre and post = post and v = v and tag = "b8 116" and y = y, OF y(4) _ assms(2)
        cell_value_text [OF y(2,3)]]
    by (simp add: TText y(1) del: tuple_loop.simps)
next
  case (TBin v)
  with assms obtain y ds d where y: "x = Some y" "re_bin rel = Some ds" "i < length ds" "ds ! i = Some d" "reads_cell d v y" "length v < 2 ^ 31"
    by auto
  show ?thesis
    using tuple_step_value [where pre = pre and post = post and v = v and tag = "b8 98" and y = y, OF y(6) _ assms(2)
        cell_value_bin [OF y(5) y(2,3,4)]]
    by (simp add: TBin y(1) del: tuple_loop.simps)
qed (use assms tuple_step_mark [OF assms(2), of pre post n row unchanged] in \<open>simp_all del: tuple_loop.simps\<close>)

lemma tuple_loop_reads:
  assumes "cells_read rel (length prior) cells xs" "re_names rel = prior @ ns" "length ns = length cells" "distinct (prior @ ns)"
    "asc ''__proto__'' \<notin> set ns" "fst ` set row \<subseteq> set prior"
  shows "tuple_loop rel (pre @ concat (map tcell_wire cells) @ post) (length prior) (length cells) (int (length pre)) row unchanged =
    Inr (row @ present ns xs, unchanged @ omitted ns xs, int (length pre + length (concat (map tcell_wire cells))))"
  using assms
proof (induction cells arbitrary: prior ns xs pre row unchanged)
  case (Cons c cells)
  then obtain n ns' x xs' where eq: "ns = n # ns'" "xs = x # xs'" by (cases ns; cases xs) auto
  have nm: "re_names rel ! length prior = n" "length prior < length (re_names rel)" using Cons.prems eq by auto
  have cr: "cell_reads rel (length prior) c x" using Cons.prems(1) eq by simp
  let ?row = "case x of Some y \<Rightarrow> row_set row n y | None \<Rightarrow> row"
  let ?un = "case x of Some y \<Rightarrow> unchanged | None \<Rightarrow> unchanged @ [n]"
  have row: "?row = row @ (case x of Some y \<Rightarrow> [(n, y)] | None \<Rightarrow> [])"
    using Cons.prems(4,5,6) eq by (auto simp: row_set_def split: option.splits intro!: obj_set_fresh)
  have sub: "fst ` set ?row \<subseteq> set (prior @ [n])" using Cons.prems(6) by (auto simp: row split: option.splits)
  have "tuple_loop rel ((pre @ tcell_wire c) @ concat (map tcell_wire cells) @ post) (length (prior @ [n])) (length cells)
      (int (length (pre @ tcell_wire c))) ?row ?un =
    Inr (?row @ present ns' xs', ?un @ omitted ns' xs', int (length (pre @ tcell_wire c) + length (concat (map tcell_wire cells))))"
    by (rule Cons.IH) (use Cons.prems eq sub in auto)
  with cell_wire_step [OF cr nm(2), of pre "concat (map tcell_wire cells) @ post" "length cells" row unchanged]
  show ?case using row by (cases x) (simp_all add: eq nm del: tuple_loop.simps)
qed simp

lemma tuple_at_reads:
  assumes "cells_read rel 0 cells xs" "length (re_names rel) = length cells" "distinct (re_names rel)"
    "asc ''__proto__'' \<notin> set (re_names rel)" "length cells < 2 ^ 15"
  shows "tuple_at rel (pre @ tuple_wire cells @ post) (int (length pre)) =
    Inr (present (re_names rel) xs, omitted (re_names rel) xs, int (length pre + length (tuple_wire cells)))"
proof -
  have "read_int 2 (pre @ tuple_wire cells @ post) (int (length pre)) = Inr (int (length cells))"
    by (rule read_int_here [of _ _ _ pre "concat (map tcell_wire cells) @ post"]) (use assms(5) in \<open>simp_all add: in_int_def tuple_wire_def\<close>)
  moreover have "tuple_loop rel ((pre @ be_bytes 2 (int (length cells))) @ concat (map tcell_wire cells) @ post) 0 (length cells)
      (int (length (pre @ be_bytes 2 (int (length cells))))) [] [] =
    Inr ([] @ present (re_names rel) xs, [] @ omitted (re_names rel) xs,
      int (length (pre @ be_bytes 2 (int (length cells))) + length (concat (map tcell_wire cells))))"
    using tuple_loop_reads [where rel = rel and prior = "[]" and ns = "re_names rel" and cells = cells and xs = xs and row = "[]"
        and pre = "pre @ be_bytes 2 (int (length cells))" and post = post and unchanged = "[]"] assms(1-4)
    by simp
  ultimately show ?thesis by (simp add: tuple_at_def tuple_wire_def del: tuple_loop.simps) (simp add: ac_simps)
qed

subsection \<open>Inserts and updates\<close>

lemma row_lookup: "map_of (obj_set row k v) n = (if n = k then Some v else map_of row n)"
  by (induction row) auto

lemma hydrate_lookup:
  "asc ''__proto__'' \<notin> set ns \<Longrightarrow>
   map_of (hydrate old ns row) n = (if n \<in> set ns \<and> map_of old n \<noteq> None then map_of old n else map_of row n)"
  by (induction ns arbitrary: row) (auto simp: row_set_def row_lookup split: option.splits)

lemma present_lookup:
  "distinct ns \<Longrightarrow> length xs = length ns \<Longrightarrow> i < length ns \<Longrightarrow> map_of (present ns xs) (ns ! i) = xs ! i"
proof (induction ns xs arbitrary: i rule: present.induct)
  case (1 n ns x xs)
  then show ?case by (cases i) (auto simp: nth_mem)
next
  case (2 n ns xs)
  have "fst ` set (present ms ys) \<subseteq> set ms" for ms ys by (induction ms ys rule: present.induct) auto
  from this [of ns xs] 2 have "map_of (present ns xs) n = None" by (auto simp: map_of_eq_None_iff)
  with 2 show ?case by (cases i) auto
qed auto

lemma omitted_set: "length xs = length ns \<Longrightarrow> distinct ns \<Longrightarrow> i < length ns \<Longrightarrow> ns ! i \<in> set (omitted ns xs) \<longleftrightarrow> xs ! i = None"
proof (induction ns xs arbitrary: i rule: omitted.induct)
  case (1 n ns x xs)
  have "set (omitted ms ys) \<subseteq> set ms" for ms ys by (induction ms ys rule: omitted.induct) auto
  from this [of ns xs] 1 show ?case by (cases i) auto
next
  case (2 n ns xs)
  then show ?case by (cases i) (auto simp: nth_mem)
qed auto

lemma cells_read_length: "cells_read rel i cs xs \<Longrightarrow> length xs = length cs"
  by (induction cs arbitrary: i xs) (auto split: list.splits)

text \<open>A relation whose rows the decoder can hold: as many names as cells, all different, none of
  them \<open>__proto__\<close>.\<close>

definition names_ok :: "rel_entry \<Rightarrow> tcell list \<Rightarrow> bool" where
  "names_ok r cells \<longleftrightarrow> length (re_names r) = length cells \<and> distinct (re_names r) \<and>
     asc ''__proto__'' \<notin> set (re_names r) \<and> length cells < 2 ^ 15"

lemma tuple_ok: "names_ok r cells \<Longrightarrow> cells_read r 0 cells xs \<Longrightarrow> b = pre @ tuple_wire cells @ post \<Longrightarrow> p = int (length pre) \<Longrightarrow>
   tuple_at r b p = Inr (present (re_names r) xs, omitted (re_names r) xs, int (length pre + length (tuple_wire cells)))"
  using tuple_at_reads [of r cells xs pre post] by (simp add: names_ok_def)

definition insert_wire :: "int \<Rightarrow> tcell list \<Rightarrow> bytes" where
  "insert_wire rid cells = b8 73 # be_bytes 4 rid @ b8 78 # tuple_wire cells"

definition update_wire :: "int \<Rightarrow> tcell list \<Rightarrow> tcell list \<Rightarrow> bytes" where
  "update_wire rid olds news = b8 85 # be_bytes 4 rid @ b8 79 # tuple_wire olds @ b8 78 # tuple_wire news"

lemma wire_id: "in_int 4 rid \<Longrightarrow> read_int 4 (t # be_bytes 4 rid @ r) 1 = Inr rid"
  by (rule read_int_here [of _ _ _ "[t]" r]) simp_all

lemma insert_decoded:
  assumes "r_relations s rid = Some r" "in_int 4 rid" "names_ok r cells" "cells_read r 0 cells xs"
  shows "decode_pgoutput dc s (insert_wire rid cells) =
    Inr (s, Some (RInsert (ri_schema (re_info r)) (ri_table (re_info r)) (present (re_names r) xs)))"
proof -
  have tag: "char_code (byte_at (insert_wire rid cells) 0) = 73" by (simp add: insert_wire_def byte_at_def char_code_def)
  have "tuple_at r (insert_wire rid cells) 6 = Inr (present (re_names r) xs, omitted (re_names r) xs,
      int (length (b8 73 # be_bytes 4 rid @ [b8 78]) + length (tuple_wire cells)))"
    by (rule tuple_ok [OF assms(3,4), where post = "[]"]) (simp_all add: insert_wire_def)
  with assms(1,2) tag show ?thesis
    by (simp add: decode_pgoutput_def decode_insert_def rel_of_def) (simp add: insert_wire_def wire_id)
qed

lemma update_decoded:
  assumes "r_relations s rid = Some r" "in_int 4 rid" "names_ok r olds" "names_ok r news"
    "cells_read r 0 olds os" "cells_read r 0 news ns"
  shows "decode_pgoutput dc s (update_wire rid olds news) =
    Inr (s, Some (update_event s r (Some (present (re_names r) os, OldFull)) (present (re_names r) ns) (omitted (re_names r) ns)))"
proof -
  let ?b = "update_wire rid olds news"
  have tag: "char_code (byte_at ?b 0) = 85" by (simp add: update_wire_def byte_at_def char_code_def)
  have kind: "char_code (byte_at ?b 5) = 79"
    using byte_at_here [of "b8 85 # be_bytes 4 rid" "b8 79" "tuple_wire olds @ b8 78 # tuple_wire news"]
    by (simp add: update_wire_def char_code_def)
  have o1: "tuple_at r ?b 6 = Inr (present (re_names r) os, omitted (re_names r) os,
      int (length (b8 85 # be_bytes 4 rid @ [b8 79]) + length (tuple_wire olds)))"
    by (rule tuple_ok [OF assms(3,5), where post = "b8 78 # tuple_wire news"]) (simp_all add: update_wire_def)
  have n1: "tuple_at r ?b (7 + int (length (tuple_wire olds))) = Inr (present (re_names r) ns, omitted (re_names r) ns,
      int (length (b8 85 # be_bytes 4 rid @ b8 79 # tuple_wire olds @ [b8 78]) + length (tuple_wire news)))"
    by (rule tuple_ok [OF assms(4,6), where post = "[]"]) (simp_all add: update_wire_def)
  have "old_tuple r ?b = Inr (Some (present (re_names r) os, OldFull), 7 + int (length (tuple_wire olds)))"
    using kind o1 by (simp add: old_tuple_def)
  with n1 tag assms(1,2) show ?thesis
    by (simp add: decode_pgoutput_def decode_update_def rel_of_def) (simp add: update_wire_def wire_id)
qed

text \<open>C26: With \<open>hydrateToast\<close> and a full old row, an update is delivered complete: \<open>decode\<close> of the wire
  form of the update yields an event whose new row has, for every column of the relation, the value
  the new tuple carries (null included), or, where the new tuple says the TOASTed value is unchanged,
  the value the old tuple carries; and \<open>unchanged\<close> lists exactly those columns.\<close>

theorem update_complete:
  assumes "r_relations s rid = Some r" "in_int 4 rid" "names_ok r olds" "names_ok r news"
    "cells_read r 0 olds os" "cells_read r 0 news ns" "None \<notin> set os" "r_hydrateToast s"
  shows "\<exists>row kc. decode_pgoutput dc s (update_wire rid olds news) =
      Inr (s, Some (RUpdate (ri_schema (re_info r)) (ri_table (re_info r)) row (omitted (re_names r) ns) kc
        (Some (present (re_names r) os, OldFull)))) \<and>
    (\<forall>i < length (re_names r). map_of row (re_names r ! i) = (if ns ! i = None then os ! i else ns ! i) \<and>
       (re_names r ! i \<in> set (omitted (re_names r) ns) \<longleftrightarrow> ns ! i = None))"
proof -
  let ?n = "re_names r"
  let ?row = "hydrate (present ?n os) (omitted ?n ns) (present ?n ns)"
  have len: "length os = length ?n" "length ns = length ?n" "distinct ?n" "asc ''__proto__'' \<notin> set ?n"
    using assms(3-6) cells_read_length by (auto simp: names_ok_def)
  have "set (omitted ms ys) \<subseteq> set ms" for ms ys by (induction ms ys rule: omitted.induct) auto
  then have no: "asc ''__proto__'' \<notin> set (omitted ?n ns)" using len(4) by blast
  have row: "map_of ?row (?n ! i) = (if ns ! i = None then os ! i else ns ! i)" if i: "i < length ?n" for i
  proof -
    have "os ! i \<noteq> None" using assms(7) i len(1) by (metis nth_mem)
    then show ?thesis using i len by (simp add: hydrate_lookup [OF no] present_lookup omitted_set)
  qed
  have "decode_pgoutput dc s (update_wire rid olds news) =
      Inr (s, Some (RUpdate (ri_schema (re_info r)) (ri_table (re_info r)) ?row (omitted ?n ns)
        (key_changed r (Some (present ?n os, OldFull)) (omitted ?n ns) ?row) (Some (present ?n os, OldFull))))"
    using update_decoded [OF assms(1-6), of dc] assms(8) by (simp add: update_event_def Let_def)
  then show ?thesis by (intro exI conjI allI impI) (assumption, erule row, simp add: len omitted_set)
qed

text \<open>A table with a text key and a TOASTed text column, updated so that the second column is unchanged.\<close>

definition demo_decoder :: cell_decoder where
  "demo_decoder b p l = Inr (DStr (utf8_between b p (p + l)))"

definition demo_rel :: rel_entry where
  "demo_rel = \<lparr>re_info = \<lparr>ri_schema = asc ''public'', ri_table = asc ''docs'', ri_identity = 102, ri_columns = []\<rparr>,
     re_names = [asc ''id'', asc ''body''], re_decoders = [demo_decoder, demo_decoder], re_bin = None, re_key = Some [asc ''id'']\<rparr>"

definition demo_repl :: repl where
  "demo_repl = \<lparr>r_relations = (\<lambda>_. None)(7 := Some demo_rel), r_shaped = (\<lambda>_. None), r_binaryMode = False,
     r_hydrateToast = True, r_warn = True, r_warned = {}, r_leafPartitions = (\<lambda>_. None), r_warnings = []\<rparr>"

lemma demo_reads: "reads_cell demo_decoder v (DStr (from_utf8 v))"
  by (simp add: reads_cell_def demo_decoder_def utf8_between_def nat_add_distrib)

theorem update_complete_witness:
  "\<forall>dc. \<exists>row kc. decode_pgoutput dc demo_repl (update_wire 7 [TText [b8 49], TText [b8 120]] [TText [b8 50], TUnchanged]) =
     Inr (demo_repl, Some (RUpdate (asc ''public'') (asc ''docs'') row [asc ''body''] kc
       (Some ([(asc ''id'', DStr (from_utf8 [b8 49])), (asc ''body'', DStr (from_utf8 [b8 120]))], OldFull)))) \<and>
     map_of row (asc ''body'') = Some (DStr (from_utf8 [b8 120]))"
proof
  fix dc
  let ?os = "[Some (DStr (from_utf8 [b8 49])), Some (DStr (from_utf8 [b8 120]))]"
  let ?ns = "[Some (DStr (from_utf8 [b8 50])), None]"
  have d: "asc ''id'' \<noteq> asc ''body''" "asc ''id'' \<noteq> asc ''__proto__''" "asc ''body'' \<noteq> asc ''__proto__''"
    by (simp_all add: asc_def u16_def)
  have "r_relations demo_repl 7 = Some demo_rel" "in_int 4 7" "r_hydrateToast demo_repl"
    by (simp_all add: demo_repl_def in_int_def)
  moreover have "names_ok demo_rel [TText a, c]" for a c using d by (auto simp: names_ok_def demo_rel_def)
  moreover have "cells_read demo_rel 0 [TText [b8 49], TText [b8 120]] ?os" "cells_read demo_rel 0 [TText [b8 50], TUnchanged] ?ns"
    by (simp_all add: demo_rel_def demo_reads)
  moreover have "None \<notin> set ?os" by simp
  ultimately have "\<exists>row kc. decode_pgoutput dc demo_repl (update_wire 7 [TText [b8 49], TText [b8 120]] [TText [b8 50], TUnchanged]) =
      Inr (demo_repl, Some (RUpdate (ri_schema (re_info demo_rel)) (ri_table (re_info demo_rel)) row (omitted (re_names demo_rel) ?ns) kc
        (Some (present (re_names demo_rel) ?os, OldFull)))) \<and>
    (\<forall>i < length (re_names demo_rel). map_of row (re_names demo_rel ! i) = (if ?ns ! i = None then ?os ! i else ?ns ! i) \<and>
       (re_names demo_rel ! i \<in> set (omitted (re_names demo_rel) ?ns) \<longleftrightarrow> ?ns ! i = None))"
    by (intro update_complete)
  then show "\<exists>row kc. decode_pgoutput dc demo_repl (update_wire 7 [TText [b8 49], TText [b8 120]] [TText [b8 50], TUnchanged]) =
     Inr (demo_repl, Some (RUpdate (asc ''public'') (asc ''docs'') row [asc ''body''] kc
       (Some ([(asc ''id'', DStr (from_utf8 [b8 49])), (asc ''body'', DStr (from_utf8 [b8 120]))], OldFull)))) \<and>
     map_of row (asc ''body'') = Some (DStr (from_utf8 [b8 120]))"
    by (auto simp: demo_rel_def numeral_2_eq_2 All_less_Suc)
qed

end
