(* ===== verification/Repl_Stream.thy ===== *)
theory Repl_Stream
  imports Repl_Decode Conn_State
begin

section \<open>Logical replication: the stream (src/replication.ts)\<close>

text \<open>
  The replication connection between the socket and the consumer: the message queue with its byte
  ceiling, positions and acknowledgement, the commands' replies, the turn of \<open>start()\<close>'s loop for
  one message, and \<open>batchTransactions\<close>. \<open>next()\<close> is cut at its await: \<open>NParked\<close> is the state in which
  it waits to be woken and then starts over. Bytes written to the socket are collected in order.
\<close>

subsection \<open>State\<close>

datatype rerr =
    R_pg "(jsstr \<times> jsstr) list"
  | R_js js_error
  | R_busy | R_stream_ended | R_session_spent | R_receive_timeout | R_ended
  | R_publication_empty | R_publication_missing "jsstr list" | R_invalid_slot jsstr | R_no_copy_both

record rstream =
  x_q :: "raw_message list"
  x_qBytes :: int
  x_maxQueue :: "int option"          \<comment> \<open>None is Infinity\<close>
  x_qPaused :: bool
  x_parser :: bytes
  x_err :: "rerr option"
  x_ended :: bool
  x_lastReceived :: int
  x_flushed :: int
  x_lastDeliveredStart :: int
  x_lastDeliveredEnd :: int
  x_streaming :: bool
  x_copyOpen :: bool
  x_timers :: nat
  x_serverMajor :: int
  x_sent :: "bytes list"

definition new_rstream :: rstream where
  "new_rstream = \<lparr>x_q = [], x_qBytes = 0, x_maxQueue = None, x_qPaused = False, x_parser = [], x_err = None,
     x_ended = False, x_lastReceived = 0, x_flushed = 0, x_lastDeliveredStart = 0, x_lastDeliveredEnd = 0,
     x_streaming = False, x_copyOpen = False, x_timers = 0, x_serverMajor = 0, x_sent = []\<rparr>"

subsection \<open>The queue\<close>

definition msg_cost :: "raw_message \<Rightarrow> int" where
  "msg_cost m = int (length (rm_body m)) + 5"

definition queue_cost :: "raw_message list \<Rightarrow> int" where
  "queue_cost ms = sum_list (map msg_cost ms)"

definition rs_fail :: "rerr \<Rightarrow> rstream \<Rightarrow> rstream" where
  "rs_fail e s = s\<lparr>x_err := (case x_err s of None \<Rightarrow> Some e | Some d \<Rightarrow> Some d)\<rparr>"

definition over :: "int \<Rightarrow> int option \<Rightarrow> bool" where
  "over n mx = (case mx of None \<Rightarrow> False | Some m \<Rightarrow> m < n)"

definition under_half :: "int \<Rightarrow> int option \<Rightarrow> bool" where
  "under_half n mx = (case mx of None \<Rightarrow> True | Some m \<Rightarrow> 2 * n < m)"

definition rs_onData :: "bytes \<Rightarrow> rstream \<Rightarrow> rstream" where
  "rs_onData d s =
     (case push (x_parser s) d of
        (Inl e, buf) \<Rightarrow> rs_fail (R_js e) (s\<lparr>x_parser := buf\<rparr>)
      | (Inr msgs, buf) \<Rightarrow>
          let s1 = s\<lparr>x_parser := buf, x_q := x_q s @ msgs, x_qBytes := x_qBytes s + queue_cost msgs\<rparr> in
          if msgs \<noteq> [] \<and> over (x_qBytes s1) (x_maxQueue s1) \<and> \<not> x_qPaused s1 then s1\<lparr>x_qPaused := True\<rparr> else s1)"

definition forceResume :: "rstream \<Rightarrow> rstream" where
  "forceResume s = s\<lparr>x_qPaused := False\<rparr>"

text \<open>\<open>parseInt(s, 10) || 0\<close>.\<close>

definition parse_major :: "jsstr \<Rightarrow> int" where
  "parse_major s = (let (neg, r) = sign_of (dropWhile js_space s); n = int (digits_val (digits_of r)) in
     if digits_of r = [] then 0 else if neg then - n else n)"

text \<open>ParameterStatus; without a terminator the scan does not end (None).\<close>

definition rs_param :: "bytes \<Rightarrow> rstream \<Rightarrow> rstream option" where
  "rs_param b s =
     (case name_end b 0 of
        None \<Rightarrow> None
      | Some z \<Rightarrow>
          if from_latin1 (take z b) \<noteq> asc ''server_version'' then Some s
          else case name_end b (z + 1) of
            None \<Rightarrow> None
          | Some e \<Rightarrow> Some (s\<lparr>x_serverMajor := parse_major (from_latin1 (take (e - (z + 1)) (drop (z + 1) b)))\<rparr>))"

datatype nres = NGot raw_message | NThrew rerr | NEnded | NParked | NHangs

definition shift :: "raw_message \<Rightarrow> raw_message list \<Rightarrow> rstream \<Rightarrow> rstream" where
  "shift m ms s =
     (let s1 = s\<lparr>x_q := ms, x_qBytes := x_qBytes s - msg_cost m\<rparr> in
      if x_qPaused s1 \<and> under_half (x_qBytes s1) (x_maxQueue s1) then forceResume s1 else s1)"

function rs_next :: "rstream \<Rightarrow> nres \<times> rstream" where
  "rs_next s =
     (case x_q s of
        m # ms \<Rightarrow>
          let s1 = shift m ms s; ty = unat (rm_type m) in
          if ty = 83 then (case rs_param (rm_body m) s1 of None \<Rightarrow> (NHangs, s1) | Some s2 \<Rightarrow> rs_next (s2\<lparr>x_q := ms\<rparr>))
          else if ty = 75 \<or> ty = 78 \<or> ty = 65 then rs_next s1
          else (NGot m, s1)
      | [] \<Rightarrow> (case x_err s of Some e \<Rightarrow> (NThrew e, s) | None \<Rightarrow> if x_ended s then (NEnded, s) else (NParked, s)))"
  by pat_completeness auto
termination
  by (relation "measure (\<lambda>s. length (x_q s))") (auto simp: shift_def forceResume_def Let_def)

declare rs_next.simps [simp del]

subsection \<open>Frames, status, acknowledgement\<close>

definition rs_frame :: "nat \<Rightarrow> bytes \<Rightarrow> rstream \<Rightarrow> rstream" where
  "rs_frame ty payload s = s\<lparr>x_sent := x_sent s @ [b8 ty # be_bytes 4 (int (length payload) + 4) @ payload]\<rparr>"

definition u64 :: "int \<Rightarrow> js_error + bytes" where
  "u64 n = (if 0 \<le> n \<and> n < 2 ^ 64 then Inr (be_bytes 8 n) else Inl (OutOfRange n))"

text \<open>The standby status: write, flush and apply positions and the clock (microseconds since 2000).\<close>

definition status_bytes :: "int \<Rightarrow> rstream \<Rightarrow> js_error + bytes" where
  "status_bytes now s =
     rbind (u64 (x_lastReceived s)) (\<lambda>r. rbind (u64 (x_flushed s)) (\<lambda>f. rbind (u64 (now - PG_EPOCH_US)) (\<lambda>t.
       Inr (b8 114 # r @ f @ f @ t @ [0]))))"

definition sendStatus :: "int \<Rightarrow> rstream \<Rightarrow> (js_error + unit) \<times> rstream" where
  "sendStatus now s = (case status_bytes now s of Inl e \<Rightarrow> (Inl e, s) | Inr b \<Rightarrow> (Inr (), rs_frame 100 b s))"

definition ack_target :: "int \<Rightarrow> rstream \<Rightarrow> int" where
  "ack_target v s = (if x_lastDeliveredStart s \<le> v \<and> v < x_lastDeliveredEnd s then x_lastDeliveredEnd s else v)"

definition rs_ack :: "int \<Rightarrow> int \<Rightarrow> rstream \<Rightarrow> rstream" where
  "rs_ack now v s =
     (let t = ack_target v s in
      if x_flushed s < t then snd (sendStatus now (s\<lparr>x_flushed := t\<rparr>)) else s)"

subsection \<open>Commands\<close>

text \<open>The reply loop of \<open>run()\<close> over the messages \<open>next()\<close> hands it: column names, rows of texts, the
  error, whether ReadyForQuery or CopyBothResponse ended it.\<close>

record reply =
  y_columns :: "jsstr list"
  y_rows :: "jsstr option list list"
  y_err :: "rerr option"

definition reply_message :: "raw_message \<Rightarrow> reply \<Rightarrow> js_error + reply" where
  "reply_message m r =
     (let ty = unat (rm_type m) in
      if ty = 84 then rbind (parseRowDescription (rm_body m)) (\<lambda>fs. Inr (r\<lparr>y_columns := map f_name fs\<rparr>))
      else if ty = 68 then rbind (parseDataRow (rm_body m)) (\<lambda>cs. Inr (r\<lparr>y_rows := y_rows r @ [map (map_option from_utf8) cs]\<rparr>))
      else if ty = 69 then Inr (r\<lparr>y_err := Some (R_pg (parseErrorFields (rm_body m)))\<rparr>)
      else Inr r)"

datatype run_step = Run_more reply | Run_done "rerr + reply"

definition run_finish :: "reply \<Rightarrow> run_step" where
  "run_finish r = Run_done (case y_err r of Some e \<Rightarrow> Inl e | None \<Rightarrow> Inr r)"

definition run_turn :: "nres \<Rightarrow> reply \<Rightarrow> rstream \<Rightarrow> run_step \<times> rstream" where
  "run_turn n r s =
     (case n of
        NGot m \<Rightarrow>
          (let ty = unat (rm_type m) in
           if ty = 90 then (run_finish r, s)
           else if ty = 87 then (run_finish r, s\<lparr>x_q := m # x_q s, x_qBytes := x_qBytes s + msg_cost m\<rparr>)
           else case reply_message m r of Inl e \<Rightarrow> (Run_done (Inl (R_js e)), s) | Inr r1 \<Rightarrow> (Run_more r1, s))
      | NThrew e \<Rightarrow> (Run_done (Inl e), s)
      | NEnded \<Rightarrow> (Run_done (Inl R_ended), s)
      | _ \<Rightarrow> (Run_more r, s))"

definition start_command :: "jsstr \<Rightarrow> rstream \<Rightarrow> rstream" where
  "start_command sql s = rs_frame 81 (utf8 (sql @ [u16 0])) s"

definition exitCopyMode :: "rstream \<Rightarrow> rstream" where
  "exitCopyMode s = (if x_copyOpen s then rs_frame 99 [] (s\<lparr>x_copyOpen := False\<rparr>) else s)"

text \<open>\<open>for (;;) { const n = await this.next(); if (!n || n.type === 'Z') break }\<close>\<close>

definition drain_ends :: "nres \<Rightarrow> bool" where
  "drain_ends n = (case n of NGot m \<Rightarrow> unat (rm_type m) = 90 | NEnded \<Rightarrow> True | NThrew e \<Rightarrow> True | _ \<Rightarrow> False)"

definition command_guard :: "rstream \<Rightarrow> rerr + unit" where
  "command_guard s = (if x_streaming s then Inl R_busy else Inr ())"

subsection \<open>Starting a stream\<close>

definition slot_char :: "unit16 \<Rightarrow> bool" where
  "slot_char c = (let n = unat c in 97 \<le> n \<and> n \<le> 122 \<or> 48 \<le> n \<and> n \<le> 57 \<or> n = 95)"

definition checkSlot :: "jsstr \<Rightarrow> rerr + jsstr" where
  "checkSlot s = (if 1 \<le> length s \<and> length s \<le> 63 \<and> list_all slot_char s then Inr s else Inl (R_invalid_slot s))"

definition double_char :: "nat \<Rightarrow> jsstr \<Rightarrow> jsstr" where
  "double_char q s = concat (map (\<lambda>c. if c = u16 q then [c, c] else [c]) s)"

fun join_comma :: "jsstr list \<Rightarrow> jsstr" where
  "join_comma [] = []"
| "join_comma [x] = x"
| "join_comma (x # xs) = x @ u16 44 # join_comma xs"

text \<open>\<open>publication_names\<close>: quoted identifiers, commas, and the whole doubled again for the literal.\<close>

definition pub_names :: "jsstr list \<Rightarrow> jsstr" where
  "pub_names ps = double_char 39 (join_comma (map (\<lambda>p. u16 34 # double_char 34 p @ [u16 34]) ps))"

definition pub_lits :: "jsstr list \<Rightarrow> jsstr" where
  "pub_lits ps = join_comma (map (\<lambda>p. u16 39 # double_char 39 p @ [u16 39]) ps)"

definition start_sql :: "jsstr \<Rightarrow> nat \<Rightarrow> jsstr list \<Rightarrow> bool \<Rightarrow> bool \<Rightarrow> jsstr" where
  "start_sql slot from pubs messages bin =
     asc ''START_REPLICATION SLOT '' @ slot @ asc '' LOGICAL '' @ lsnToString from @ asc '' (proto_version '' @
     [u16 39] @ asc ''1'' @ [u16 39] @ asc '', publication_names '' @ [u16 39] @ pub_names pubs @ [u16 39] @
     (if messages then asc '', messages '' @ [u16 39] @ asc ''true'' @ [u16 39] else []) @
     (if bin then asc '', binary '' @ [u16 39] @ asc ''true'' @ [u16 39] else []) @ asc '')''"

text \<open>The rows of the publication probe: name, \<open>'t'\<close> when it exists, number of tables.\<close>

definition probe_publications :: "jsstr list \<Rightarrow> (jsstr \<times> jsstr \<times> jsstr) list \<Rightarrow> repl_warning list \<times> (rerr + unit)" where
  "probe_publications pubs rows =
     (let missing = map fst (filter (\<lambda>(n, p, t). p \<noteq> asc ''t'') rows);
          warned = map (\<lambda>(n, p, t). W_publication_empty n) (filter (\<lambda>(n, p, t). p = asc ''t'' \<and> t = asc ''0'') rows)
      in if pubs = [] then ([], Inl R_publication_empty)
         else (warned, if missing \<noteq> [] then Inl (R_publication_missing missing) else Inr ()))"

datatype binary_opt = B_auto | B_set bool

definition decide_binary :: "decoder_catalog \<Rightarrow> binary_opt \<Rightarrow> int \<Rightarrow> int list \<Rightarrow> shape_col list list \<Rightarrow> bool" where
  "decide_binary dc want major oids shapes =
     (case want of
        B_set b \<Rightarrow> b
      | B_auto \<Rightarrow> major \<ge> 14 \<and> oids \<noteq> [] \<and> list_all (\<lambda>i. dc_replBinaryFor dc i \<noteq> None) oids \<and>
          list_all (list_all (\<lambda>c. sc_oid c = 0 \<or> dc_replBinaryForCol dc c \<noteq> None)) shapes)"

text \<open>\<open>maxQueueBytes\<close>: absent, a number, \<open>Infinity\<close>, or one that is not finite and not \<open>Infinity\<close>.\<close>

datatype queue_opt = Q_default | Q_bytes int | Q_infinity | Q_nan

definition resolve_maxQueue :: "queue_opt \<Rightarrow> int option" where
  "resolve_maxQueue mqb = (case mqb of
       Q_default \<Rightarrow> Some (64 * 1024 * 1024)
     | Q_bytes n \<Rightarrow> Some (if 0 < n then n else 64 * 1024 * 1024)
     | Q_infinity \<Rightarrow> None
     | Q_nan \<Rightarrow> Some (64 * 1024 * 1024))"

definition reserve :: "rstream \<Rightarrow> rerr + rstream" where
  "reserve s = (if x_streaming s then Inl R_busy else Inr (s\<lparr>x_streaming := True\<rparr>))"

definition send_start :: "queue_opt \<Rightarrow> jsstr \<Rightarrow> rstream \<Rightarrow> rstream" where
  "send_start mqb sql s = rs_frame 81 (utf8 (sql @ [u16 0])) (s\<lparr>x_maxQueue := resolve_maxQueue mqb\<rparr>)"

datatype setup_step = Setup_more "rerr option" | Setup_streaming | Setup_finished | Setup_threw rerr

definition setup_turn :: "nres \<Rightarrow> rerr option \<Rightarrow> rstream \<Rightarrow> setup_step \<times> rstream" where
  "setup_turn n setupErr s =
     (case n of
        NGot m \<Rightarrow>
          (let ty = unat (rm_type m) in
           if ty = 87 then (Setup_streaming, s\<lparr>x_copyOpen := True\<rparr>)
           else if ty = 69 then (Setup_more (Some (R_pg (parseErrorFields (rm_body m)))), s)
           else if ty = 90 then (Setup_threw (case setupErr of Some e \<Rightarrow> e | None \<Rightarrow> R_no_copy_both), s)
           else (Setup_more setupErr, s))
      | NThrew e \<Rightarrow> (Setup_threw e, s)
      | NEnded \<Rightarrow> (Setup_finished, s)
      | _ \<Rightarrow> (Setup_more setupErr, s))"

subsection \<open>One message of the stream\<close>

datatype stream_step =
    St_continue
  | St_yield repl_event
  | St_threw rerr
  | St_drain rerr        \<comment> \<open>read up to ReadyForQuery, then throw\<close>

definition keepalive :: "int \<Rightarrow> bool \<Rightarrow> int \<Rightarrow> bool \<Rightarrow> rstream \<Rightarrow> rstream" where
  "keepalive now idleAck walEnd reply s =
     (let s1 = (if x_lastReceived s < walEnd then s\<lparr>x_lastReceived := walEnd\<rparr> else s);
          s2 = (if idleAck \<and> x_lastDeliveredEnd s1 \<le> x_flushed s1 \<and> x_flushed s1 < walEnd then s1\<lparr>x_flushed := walEnd\<rparr> else s1)
      in if reply then snd (sendStatus now s2) else s2)"

definition note_commit :: "int \<Rightarrow> int \<Rightarrow> rstream \<Rightarrow> rstream" where
  "note_commit lsn e s =
     (if x_lastDeliveredEnd s < e then s\<lparr>x_lastDeliveredStart := lsn, x_lastDeliveredEnd := e\<rparr> else s)"

text \<open>A commit's positions come back out of the texts the event carries.\<close>

definition deliver :: "repl_event \<Rightarrow> rstream \<Rightarrow> js_error + rstream" where
  "deliver e s = (case e of
       RCommit lsn end_lsn t us \<Rightarrow>
         rbind (lsnFromString end_lsn) (\<lambda>en. rbind (lsnFromString lsn) (\<lambda>st. Inr (note_commit st en s)))
     | _ \<Rightarrow> Inr s)"

definition xlog_data :: "decoder_catalog \<Rightarrow> bytes \<Rightarrow> repl \<Rightarrow> rstream \<Rightarrow> stream_step \<times> repl \<times> rstream" where
  "xlog_data dc p r s =
     (case read_uint 8 p 1 of
        Inl e \<Rightarrow> (St_threw (R_js e), r, s)
      | Inr walStart \<Rightarrow>
          let s1 = (if x_lastReceived s < walStart then s\<lparr>x_lastReceived := walStart\<rparr> else s) in
          case decode_pgoutput dc r (drop 25 p) of
            Inl e \<Rightarrow> (St_threw (R_js e), r, s1)
          | Inr (r1, None) \<Rightarrow> (St_continue, r1, s1)
          | Inr (r1, Some ev) \<Rightarrow>
              (case deliver ev s1 of Inl e \<Rightarrow> (St_threw (R_js e), r1, s1) | Inr s2 \<Rightarrow> (St_yield ev, r1, s2)))"

definition xlog_frame :: "decoder_catalog \<Rightarrow> int \<Rightarrow> bool \<Rightarrow> bytes \<Rightarrow> repl \<Rightarrow> rstream \<Rightarrow> stream_step \<times> repl \<times> rstream" where
  "xlog_frame dc now idleAck p r s =
     (if byte_at p 0 = Some (b8 107) then
        (case read_uint 8 p 1 of
           Inl e \<Rightarrow> (St_threw (R_js e), r, s)
         | Inr walEnd \<Rightarrow> (St_continue, r, keepalive now idleAck walEnd (byte_at p 17 = Some 1) s))
      else if byte_at p 0 \<noteq> Some (b8 119) then (St_continue, r, s)
      else xlog_data dc p r s)"

definition stream_turn :: "decoder_catalog \<Rightarrow> int \<Rightarrow> bool \<Rightarrow> raw_message \<Rightarrow> repl \<Rightarrow> rstream \<Rightarrow> stream_step \<times> repl \<times> rstream" where
  "stream_turn dc now idleAck m r s =
     (let ty = unat (rm_type m) in
      if ty = 69 then (St_threw (R_pg (parseErrorFields (rm_body m))), r, s)
      else if ty = 99 then (St_drain R_stream_ended, r, rs_frame 99 [] (s\<lparr>x_copyOpen := False\<rparr>))
      else if ty = 67 then (St_drain R_session_spent, r, s\<lparr>x_copyOpen := False\<rparr>)
      else if ty = 90 then (St_threw R_session_spent, r, s\<lparr>x_copyOpen := False\<rparr>)
      else if ty \<noteq> 100 then (St_continue, r, s)
      else xlog_frame dc now idleAck (rm_body m) r s)"

definition receive_check :: "int \<Rightarrow> int \<Rightarrow> int \<Rightarrow> rstream \<Rightarrow> rstream" where
  "receive_check now lastMessageAt recvMs s =
     (if x_qPaused s then s else if recvMs \<le> now - lastMessageAt then rs_fail R_receive_timeout s else s)"

definition stream_finally :: "rstream \<Rightarrow> rstream" where
  "stream_finally s =
     (let s1 = forceResume (s\<lparr>x_streaming := False\<rparr>) in
      s1\<lparr>x_maxQueue := None, x_qBytes := queue_cost (x_q s1), x_timers := 0\<rparr>)"

definition rs_end :: "rstream \<Rightarrow> rstream" where
  "rs_end s = (let s1 = forceResume (s\<lparr>x_ended := True, x_timers := 0\<rparr>) in s1\<lparr>x_sent := x_sent s1 @ [b8 88 # be_bytes 4 4]\<rparr>)"

subsection \<open>batchTransactions\<close>

record commit_fields =
  cf_lsn :: jsstr
  cf_endLsn :: jsstr
  cf_time :: dval
  cf_timeUs :: jnum

record batch =
  ba_xid :: int
  ba_events :: "repl_event list"
  ba_commit :: "commit_fields option"     \<comment> \<open>\<open>done: true\<close> with the commit's fields, or \<open>done: false\<close>\<close>

definition max_events :: "int option \<Rightarrow> nat option" where
  "max_events opt = (case opt of Some n \<Rightarrow> if 0 < n then Some (nat n) else None | None \<Rightarrow> None)"

definition full :: "nat option \<Rightarrow> repl_event list \<Rightarrow> bool" where
  "full mx evs = (case mx of Some n \<Rightarrow> n \<le> length evs | None \<Rightarrow> False)"

fun batchTransactions :: "nat option \<Rightarrow> int \<Rightarrow> repl_event list \<Rightarrow> repl_event list \<Rightarrow> batch list" where
  "batchTransactions mx xid evs [] = []"
| "batchTransactions mx xid evs (RBegin x t us lsn # es) = batchTransactions mx x [] es"
| "batchTransactions mx xid evs (RCommit l e t us # es) =
     \<lparr>ba_xid = xid, ba_events = evs, ba_commit = Some \<lparr>cf_lsn = l, cf_endLsn = e, cf_time = t, cf_timeUs = us\<rparr>\<rparr>
       # batchTransactions mx xid [] es"
| "batchTransactions mx xid evs (RMessage False p c l # es) = batchTransactions mx xid evs es"
| "batchTransactions mx xid evs (e # es) =
     (if full mx (evs @ [e])
      then \<lparr>ba_xid = xid, ba_events = evs @ [e], ba_commit = None\<rparr> # batchTransactions mx xid [] es
      else batchTransactions mx xid (evs @ [e]) es)"

end
