(* ===== verification/Repl_Props.thy ===== *)
theory Repl_Props
  imports Repl_Stream
begin

section \<open>Logical replication: properties\<close>

text \<open>
  The slot's confirmed position never passes a delivered transaction the consumer has not
  acknowledged; a paused socket always has messages left to deliver; the batches of
  \<open>batchTransactions\<close> are the transactions of the stream, cut into chunks.
\<close>

subsection \<open>Acknowledgement\<close>

datatype pos_event = Keepalive int bool int bool | Commit int int | Ack int int

fun pos_apply :: "pos_event \<Rightarrow> rstream \<Rightarrow> rstream" where
  "pos_apply (Keepalive now idle w r) s = keepalive now idle w r s"
| "pos_apply (Commit l e) s = note_commit l e s"
| "pos_apply (Ack now v) s = rs_ack now v s"

lemma sendStatus_fields [simp]:
  "x_flushed (snd (sendStatus now s)) = x_flushed s" "x_lastDeliveredEnd (snd (sendStatus now s)) = x_lastDeliveredEnd s"
  "x_lastDeliveredStart (snd (sendStatus now s)) = x_lastDeliveredStart s"
  by (simp_all add: sendStatus_def rs_frame_def split: sum.splits)

text \<open>The commit \<open>(l, e)\<close> has been delivered and is not confirmed.\<close>

definition unconfirmed :: "int \<Rightarrow> int \<Rightarrow> rstream \<Rightarrow> bool" where
  "unconfirmed l e s \<longleftrightarrow> x_flushed s < e \<and> e \<le> x_lastDeliveredEnd s \<and> l \<le> x_lastDeliveredStart s"

text \<open>What may happen without acknowledging it: keepalives, later commits, acknowledgements of
  positions before it.\<close>

fun before_ack :: "int \<Rightarrow> pos_event \<Rightarrow> bool" where
  "before_ack l (Keepalive now idle w r) = True"
| "before_ack l (Commit l' e') \<longleftrightarrow> l \<le> l'"
| "before_ack l (Ack now v) \<longleftrightarrow> v < l"

lemma unconfirmed_step:
  assumes "unconfirmed l e s" "l < e" "before_ack l ev"
  shows "unconfirmed l e (pos_apply ev s)"
  using assms by (cases ev) (auto simp: unconfirmed_def keepalive_def note_commit_def rs_ack_def ack_target_def Let_def)

lemma unconfirmed_run:
  "unconfirmed l e s \<Longrightarrow> l < e \<Longrightarrow> list_all (before_ack l) evs \<Longrightarrow> unconfirmed l e (fold pos_apply evs s)"
  by (induction evs arbitrary: s) (auto intro: unconfirmed_step)

text \<open>C27: WAL is not released before its transaction is acknowledged. After a commit \<open>(l, e)\<close> beyond
  everything delivered and confirmed is handed to the consumer, no sequence of keepalives (idle
  acknowledgement on or off), later commits and acknowledgements of positions before \<open>l\<close> moves the
  confirmed position to \<open>e\<close>; and acknowledging \<open>e\<close>, or any position inside the commit record, as the last
  delivered commit confirms it.\<close>

theorem ack_safety:
  assumes "x_lastDeliveredEnd s < e" "x_flushed s < e" "l < e" "list_all (before_ack l) evs" "l \<le> v" "v \<le> e"
  shows "x_flushed (fold pos_apply evs (note_commit l e s)) < e \<and> e \<le> x_flushed (rs_ack now v (note_commit l e s))"
proof
  have "unconfirmed l e (note_commit l e s)" using assms by (simp add: unconfirmed_def note_commit_def)
  from unconfirmed_run [OF this assms(3,4)] show "x_flushed (fold pos_apply evs (note_commit l e s)) < e"
    by (simp add: unconfirmed_def)
  show "e \<le> x_flushed (rs_ack now v (note_commit l e s))"
    using assms by (simp add: rs_ack_def ack_target_def note_commit_def Let_def)
qed

theorem ack_safety_witness:
  "x_flushed (fold pos_apply [Keepalive 0 True 99 True, Commit 30 40, Ack 0 5] (note_commit 10 20 new_rstream)) < 20 \<and>
   20 \<le> x_flushed (rs_ack 0 10 (note_commit 10 20 new_rstream))"
  using ack_safety [of new_rstream 20 10 "[Keepalive 0 True 99 True, Commit 30 40, Ack 0 5]" 10 0] by (simp add: new_rstream_def)

subsection \<open>Back-pressure\<close>

definition queue_ok :: "rstream \<Rightarrow> bool" where
  "queue_ok s \<longleftrightarrow> x_qBytes s = queue_cost (x_q s) \<and>
     (x_qPaused s \<longrightarrow> (\<exists>m. x_maxQueue s = Some m \<and> 0 < m \<and> m \<le> 2 * x_qBytes s)) \<and>
     (\<forall>m. x_maxQueue s = Some m \<longrightarrow> 0 < m)"

lemma queue_cost_simps [simp]:
  "queue_cost [] = 0" "queue_cost (m # ms) = msg_cost m + queue_cost ms" "queue_cost (ms @ ns) = queue_cost ms + queue_cost ns"
  by (simp_all add: queue_cost_def)

lemma queue_cost_nonneg: "0 \<le> queue_cost ms"
  by (induction ms) (simp_all add: msg_cost_def)

text \<open>Operations that leave the queue alone.\<close>

lemma queue_same:
  assumes "queue_ok s" "x_q t = x_q s" "x_qBytes t = x_qBytes s" "x_qPaused t = x_qPaused s" "x_maxQueue t = x_maxQueue s"
  shows "queue_ok t"
  using assms by (auto simp: queue_ok_def)

lemma queue_onData: "queue_ok s \<Longrightarrow> queue_ok (rs_onData d s)"
proof -
  assume ok: "queue_ok s"
  have "0 \<le> queue_cost ms" for ms by (rule queue_cost_nonneg)
  then show ?thesis
    using ok by (auto simp: rs_onData_def rs_fail_def Let_def queue_ok_def over_def split: prod.split sum.split option.splits)
      (smt (verit))+
qed

lemma queue_shift: "queue_ok s \<Longrightarrow> x_q s = m # ms \<Longrightarrow> queue_ok (shift m ms s)"
  by (auto simp: shift_def Let_def queue_ok_def forceResume_def under_half_def)

lemma queue_param: "rs_param b s = Some t \<Longrightarrow> queue_ok s \<Longrightarrow> queue_ok t \<and> x_q t = x_q s"
  by (auto simp: rs_param_def queue_ok_def split: option.splits if_splits)

lemma shift_q [simp]: "x_q (shift m ms s) = ms"
  by (simp add: shift_def Let_def forceResume_def)

lemma queue_next: "queue_ok s \<Longrightarrow> rs_next s = (r, t) \<Longrightarrow> queue_ok t"
proof (induction s rule: rs_next.induct)
  case (1 s)
  show ?case
  proof (cases "x_q s")
    case Nil
    with 1(3,4) show ?thesis by (subst (asm) rs_next.simps) (auto split: option.splits if_splits)
  next
    case (Cons m ms)
    let ?s1 = "shift m ms s"
    have ok1: "queue_ok ?s1" by (rule queue_shift [OF 1(3) Cons])
    show ?thesis
    proof (cases "unat (rm_type m) = 83")
      case True
      show ?thesis
      proof (cases "rs_param (rm_body m) ?s1")
        case None
        with 1(4) Cons True ok1 show ?thesis by (subst (asm) rs_next.simps) (auto simp: Let_def)
      next
        case (Some s2)
        have ok2: "queue_ok (s2\<lparr>x_q := ms\<rparr>)" using queue_param [OF Some ok1] by (auto simp: queue_ok_def)
        from 1(4) Cons True Some have "rs_next (s2\<lparr>x_q := ms\<rparr>) = (r, t)" by (subst (asm) rs_next.simps) (simp add: Let_def)
        from 1(1) [OF Cons refl refl True Some ok2 this] show ?thesis .
      qed
    next
      case no: False
      show ?thesis
      proof (cases "unat (rm_type m) = 75 \<or> unat (rm_type m) = 78 \<or> unat (rm_type m) = 65")
        case True
        from 1(4) Cons no True have "rs_next ?s1 = (r, t)" by (subst (asm) rs_next.simps) (simp add: Let_def)
        from 1(2) [OF Cons refl refl no True ok1 this] show ?thesis .
      next
        case False
        with 1(4) Cons no ok1 show ?thesis by (subst (asm) rs_next.simps) (auto simp: Let_def)
      qed
    qed
  qed
qed

text \<open>Everything that happens to the queue. A stream sets the ceiling only while it holds the
  reservation, and the previous stream's end has lifted it.\<close>

datatype queue_event =
    Data bytes | Next | Reply nres reply | Send_start queue_opt jsstr | Turn decoder_catalog int bool raw_message repl
  | Position pos_event | Finally | End | Command jsstr | Exit_copy

fun queue_apply :: "queue_event \<Rightarrow> rstream \<Rightarrow> rstream" where
  "queue_apply (Data d) s = rs_onData d s"
| "queue_apply Next s = snd (rs_next s)"
| "queue_apply (Reply n r) s = snd (run_turn n r s)"
| "queue_apply (Send_start mqb sql) s = (if x_maxQueue s = None then send_start mqb sql s else s)"
| "queue_apply (Turn dc now idle m r) s = snd (snd (stream_turn dc now idle m r s))"
| "queue_apply (Position ev) s = pos_apply ev s"
| "queue_apply Finally s = stream_finally s"
| "queue_apply End s = rs_end s"
| "queue_apply (Command sql) s = start_command sql s"
| "queue_apply Exit_copy s = exitCopyMode s"

definition queue_init :: "rstream \<Rightarrow> bool" where
  "queue_init s \<longleftrightarrow> s = new_rstream"

inductive queue_step :: "rstream \<Rightarrow> rstream \<Rightarrow> bool" where
  queue_step: "queue_step s (queue_apply ev s)"

definition same_queue :: "rstream \<Rightarrow> rstream \<Rightarrow> bool" where
  "same_queue s t \<longleftrightarrow> x_q t = x_q s \<and> x_qBytes t = x_qBytes s \<and> x_qPaused t = x_qPaused s \<and> x_maxQueue t = x_maxQueue s"

lemma same_queue_ok: "queue_ok s \<Longrightarrow> same_queue s t \<Longrightarrow> queue_ok t"
  by (auto simp: same_queue_def queue_ok_def)

lemma same_queue_status: "same_queue s (snd (sendStatus now s))"
  by (simp add: same_queue_def sendStatus_def rs_frame_def split: sum.splits)

lemma same_queue_pos: "same_queue s (pos_apply ev s)"
  using same_queue_status by (cases ev) (auto simp: same_queue_def keepalive_def note_commit_def rs_ack_def Let_def)

lemma same_queue_turn: "same_queue s (snd (snd (stream_turn dc now idle m r s)))"
proof -
  have 1: "same_queue s (keepalive now idle w b s)" for w b using same_queue_pos [of s "Keepalive now idle w b"] by simp
  have "same_queue s t" if "deliver e s = Inr t" for e s t
    using that by (auto simp: deliver_def same_queue_def note_commit_def rbind_def split: repl_event.splits sum.splits if_splits)
  then have "same_queue s (snd (snd (xlog_data dc p r s)))" for p
    by (fastforce simp: xlog_data_def Let_def same_queue_def split: sum.splits option.splits)
  with 1 show ?thesis
    by (auto simp: stream_turn_def xlog_frame_def Let_def rs_frame_def split: sum.splits) (simp_all add: same_queue_def)
qed

lemma queue_reply: "queue_ok s \<Longrightarrow> queue_ok (snd (run_turn n r s))"
proof -
  assume ok: "queue_ok s"
  have "queue_ok (s\<lparr>x_q := m # x_q s, x_qBytes := x_qBytes s + msg_cost m\<rparr>)" for m
    using ok by (auto simp: queue_ok_def msg_cost_def)
  with ok show ?thesis by (auto simp: run_turn_def Let_def split: nres.splits sum.splits)
qed

lemma queue_apply_ok:
  assumes ok: "queue_ok s"
  shows "queue_ok (queue_apply ev s)"
proof (cases ev)
  case Next
  then show ?thesis using queue_next [OF ok] by (cases "rs_next s") simp
next
  case (Send_start mqb sql)
  then show ?thesis
    using ok by (auto simp: queue_ok_def send_start_def rs_frame_def resolve_maxQueue_def split: queue_opt.splits)
next
  case Finally
  then show ?thesis by (simp add: stream_finally_def forceResume_def Let_def queue_ok_def)
next
  case End
  then show ?thesis using ok by (auto simp: rs_end_def forceResume_def Let_def queue_ok_def)
qed (use ok in \<open>auto simp: queue_onData queue_reply start_command_def exitCopyMode_def rs_frame_def
      intro: same_queue_ok same_queue_turn same_queue_pos, auto simp: queue_ok_def\<close>)

interpretation queue_sys: invariant_of queue_init queue_step queue_ok
  by unfold_locales (auto simp: queue_init_def new_rstream_def queue_ok_def [of "new_rstream"] queue_apply_ok elim!: queue_step.cases,
      auto simp: queue_ok_def)

text \<open>C28: Back-pressure never strands the stream. In every reachable state the byte count is that of the
  undelivered messages, and a socket paused by the ceiling has undelivered messages amounting to at
  least half the ceiling, so the consumer's next reads will resume it.\<close>

theorem paused_has_work:
  assumes "reach queue_init queue_step s"
  shows "x_qBytes s = queue_cost (x_q s) \<and>
    (x_qPaused s \<longrightarrow> x_q s \<noteq> [] \<and> (\<exists>m. x_maxQueue s = Some m \<and> m \<le> 2 * x_qBytes s))"
proof -
  have "queue_ok s" by (rule queue_sys.reach_inv [OF assms])
  then show ?thesis by (auto simp: queue_ok_def)
qed

definition paused_stream :: rstream where
  "paused_stream = queue_apply (Data [100, 0, 0, 0, 4]) (queue_apply (Send_start (Q_bytes 4) []) new_rstream)"

theorem paused_has_work_witness: "x_qPaused paused_stream \<and> x_q paused_stream \<noteq> []"
proof -
  have "reach queue_init queue_step paused_stream"
    unfolding paused_stream_def by (rule reach_step, rule reach_step, rule reach_init) (simp add: queue_init_def, rule queue_step, rule queue_step)
  moreover have "x_qPaused paused_stream"
    by (simp add: paused_stream_def rs_onData_def push_def push_loop.simps read_int_def in_buf_def be_val_def to_signed_def
        send_start_def rs_frame_def resolve_maxQueue_def new_rstream_def over_def msg_cost_def Let_def subarray_def clamp_index_def)
  ultimately show ?thesis using paused_has_work [of paused_stream] by blast
qed

subsection \<open>Transactions in batches\<close>

text \<open>A transaction of the stream: its begin, the events between, its commit.\<close>

record transaction =
  tx_xid :: int
  tx_begin :: "dval \<times> jnum \<times> jsstr"
  tx_events :: "repl_event list"
  tx_commit :: commit_fields

definition tx_stream :: "transaction \<Rightarrow> repl_event list" where
  "tx_stream tx = RBegin (tx_xid tx) (fst (tx_begin tx)) (fst (snd (tx_begin tx))) (snd (snd (tx_begin tx))) # tx_events tx @
     [RCommit (cf_lsn (tx_commit tx)) (cf_endLsn (tx_commit tx)) (cf_time (tx_commit tx)) (cf_timeUs (tx_commit tx))]"

fun is_change :: "repl_event \<Rightarrow> bool" where
  "is_change (RBegin a b c d) = False"
| "is_change (RCommit a b c d) = False"
| "is_change e = True"

fun kept :: "repl_event \<Rightarrow> bool" where
  "kept (RMessage False p c l) = False"
| "kept e = True"

text \<open>The chunks of one transaction: its events in order, none above the limit, the commit's fields on
  the last one only.\<close>

definition batches_of :: "nat option \<Rightarrow> transaction \<Rightarrow> batch list \<Rightarrow> bool" where
  "batches_of mx tx bs \<longleftrightarrow> concat (map ba_events bs) = filter kept (tx_events tx) \<and>
     list_all (\<lambda>b. ba_xid b = tx_xid tx \<and> (case mx of Some n \<Rightarrow> length (ba_events b) \<le> n | None \<Rightarrow> True)) bs \<and>
     (\<exists>cs. map ba_commit bs = replicate cs None @ [Some (tx_commit tx)])"

lemma batch_chunk:
  assumes "list_all is_change evs" "\<not> full mx acc" "mx \<noteq> Some 0"
  shows "\<exists>cs b. batchTransactions mx x acc (evs @ RCommit l e t us # rest) = cs @ b # batchTransactions mx x [] rest \<and>
     concat (map ba_events cs) @ ba_events b = acc @ filter kept evs \<and>
     list_all (\<lambda>b. ba_xid b = x \<and> ba_commit b = None \<and> (case mx of Some n \<Rightarrow> length (ba_events b) \<le> n | None \<Rightarrow> True)) cs \<and>
     ba_xid b = x \<and> (case mx of Some n \<Rightarrow> length (ba_events b) \<le> n | None \<Rightarrow> True) \<and>
     ba_commit b = Some \<lparr>cf_lsn = l, cf_endLsn = e, cf_time = t, cf_timeUs = us\<rparr>"
  using assms
proof (induction evs arbitrary: acc)
  case Nil
  then show ?case by (intro exI [of _ "[]"]) (auto simp: full_def split: option.splits)
next
  case (Cons ev evs)
  have ne: "\<not> full mx []" using Cons.prems(3) by (auto simp: full_def split: option.splits)
  show ?case
  proof (cases "kept ev")
    case False
    then obtain p c lsn where ev: "ev = RMessage False p c lsn" by (cases ev rule: kept.cases) auto
    from Cons.IH [of acc] Cons.prems show ?thesis by (simp add: ev)
  next
    case True
    have step: "batchTransactions mx x acc (ev # es) =
      (if full mx (acc @ [ev]) then \<lparr>ba_xid = x, ba_events = acc @ [ev], ba_commit = None\<rparr> # batchTransactions mx x [] es
       else batchTransactions mx x (acc @ [ev]) es)" for es
      using True Cons.prems(1) by (cases ev rule: kept.cases; cases ev) auto
    show ?thesis
    proof (cases "full mx (acc @ [ev])")
      case no: False
      with Cons.IH [of "acc @ [ev]"] Cons.prems True show ?thesis by (simp add: step)
    next
      case yes: True
      then have len: "case mx of Some n \<Rightarrow> length (acc @ [ev]) \<le> n | None \<Rightarrow> True"
        using Cons.prems(2) by (auto simp: full_def split: option.splits)
      from Cons.IH [of "[]"] Cons.prems ne obtain cs b where
        ih: "batchTransactions mx x [] (evs @ RCommit l e t us # rest) = cs @ b # batchTransactions mx x [] rest"
          "concat (map ba_events cs) @ ba_events b = filter kept evs"
          "list_all (\<lambda>b. ba_xid b = x \<and> ba_commit b = None \<and> (case mx of Some n \<Rightarrow> length (ba_events b) \<le> n | None \<Rightarrow> True)) cs"
          "ba_xid b = x" "case mx of Some n \<Rightarrow> length (ba_events b) \<le> n | None \<Rightarrow> True"
          "ba_commit b = Some \<lparr>cf_lsn = l, cf_endLsn = e, cf_time = t, cf_timeUs = us\<rparr>" by auto
      show ?thesis
        by (rule exI [of _ "\<lparr>ba_xid = x, ba_events = acc @ [ev], ba_commit = None\<rparr> # cs"], rule exI [of _ b])
          (use ih len yes True in \<open>simp add: step split: option.splits\<close>)
    qed
  qed
qed

lemma batch_one:
  assumes "list_all is_change (tx_events tx)" "mx \<noteq> Some 0"
  shows "\<exists>bs. batchTransactions mx x acc (tx_stream tx @ rest) = bs @ batchTransactions mx (tx_xid tx) [] rest \<and> batches_of mx tx bs"
proof -
  have ne: "\<not> full mx []" using assms(2) by (auto simp: full_def split: option.splits)
  let ?c = "tx_commit tx"
  from batch_chunk [OF assms(1) ne assms(2), of "tx_xid tx" "cf_lsn ?c" "cf_endLsn ?c" "cf_time ?c" "cf_timeUs ?c" rest]
  obtain cs b where b: "batchTransactions mx (tx_xid tx) [] (tx_events tx @ RCommit (cf_lsn ?c) (cf_endLsn ?c) (cf_time ?c) (cf_timeUs ?c) # rest) =
      cs @ b # batchTransactions mx (tx_xid tx) [] rest"
    "concat (map ba_events cs) @ ba_events b = filter kept (tx_events tx)"
    "list_all (\<lambda>b. ba_xid b = tx_xid tx \<and> ba_commit b = None \<and> (case mx of Some n \<Rightarrow> length (ba_events b) \<le> n | None \<Rightarrow> True)) cs"
    "ba_xid b = tx_xid tx" "case mx of Some n \<Rightarrow> length (ba_events b) \<le> n | None \<Rightarrow> True"
    "ba_commit b = Some \<lparr>cf_lsn = cf_lsn ?c, cf_endLsn = cf_endLsn ?c, cf_time = cf_time ?c, cf_timeUs = cf_timeUs ?c\<rparr>"
    by auto
  have "map ba_commit cs = replicate (length cs) None"
    using b(3) by (simp add: list_all_iff map_replicate_const [symmetric] cong: map_cong)
  with b have "batches_of mx tx (cs @ [b])"
    by (auto simp: batches_of_def list_all_iff)
  with b(1) show ?thesis by (intro exI [of _ "cs @ [b]"]) (simp add: tx_stream_def)
qed

text \<open>C29: \<open>batchTransactions\<close> delivers exactly the transactions. From a stream of whole transactions it
  yields, for each transaction in order, chunks whose events concatenate to the transaction's events
  (less non-transactional messages), each chunk within \<open>maxEvents\<close> and labelled with the transaction's
  id, and only the last chunk carries the commit's positions, so nothing partial can be acknowledged.\<close>

theorem batches_are_transactions:
  assumes "list_all (\<lambda>tx. list_all is_change (tx_events tx)) txs"
  shows "\<exists>bss. batchTransactions (max_events opt) x acc (concat (map tx_stream txs)) = concat bss \<and>
    list_all2 (batches_of (max_events opt)) txs bss"
  using assms
proof (induction txs arbitrary: x acc)
  case Nil
  then show ?case by (intro exI [of _ "[]"]) simp
next
  case (Cons tx txs)
  have "max_events opt \<noteq> Some 0" by (auto simp: max_events_def split: option.splits if_splits)
  with batch_one [of tx "max_events opt" x acc "concat (map tx_stream txs)"] Cons.prems
  obtain bs where b: "batchTransactions (max_events opt) x acc (tx_stream tx @ concat (map tx_stream txs)) =
      bs @ batchTransactions (max_events opt) (tx_xid tx) [] (concat (map tx_stream txs))" "batches_of (max_events opt) tx bs"
    by auto
  from Cons.IH [of "tx_xid tx" "[]"] Cons.prems obtain bss where
    "batchTransactions (max_events opt) (tx_xid tx) [] (concat (map tx_stream txs)) = concat bss"
    "list_all2 (batches_of (max_events opt)) txs bss" by auto
  with b show ?case by (intro exI [of _ "bs # bss"]) simp
qed

definition demo_tx :: transaction where
  "demo_tx = \<lparr>tx_xid = 5, tx_begin = (DNull, NaN, []),
     tx_events = [RInsert [] [] [], RTruncate [] False False, RMessage False [] [] [], RDelete [] [] [] OldKey],
     tx_commit = \<lparr>cf_lsn = asc ''0/1'', cf_endLsn = asc ''0/2'', cf_time = DNull, cf_timeUs = NaN\<rparr>\<rparr>"

theorem batches_are_transactions_witness:
  "\<exists>bs. batchTransactions (Some 2) 0 [] (tx_stream demo_tx) = bs \<and> batches_of (Some 2) demo_tx bs"
  using batches_are_transactions [of "[demo_tx]" "Some 2" 0 "[]"]
  by (auto simp: demo_tx_def max_events_def list_all2_Cons1)

end
