(* ===== verification/Cdc.thy ===== *)
theory Cdc
  imports Repl_Stream
begin

section \<open>Change data capture (src/cdc.ts)\<close>

text \<open>
  \<open>replicate()\<close>: the session loop \<open>run()\<close>, cut at its awaits, beside \<open>stop()\<close>. Where \<open>run()\<close> waits is the
  constructor of \<open>cd_pc\<close>; the environment answers the await (a connection, rows, a resolved or rejected
  callback, a timer). A callback of the consumer settles in one event and the code after it runs in
  another, so \<open>stop()\<close> and its continuation can come between. What the session does on its connection,
  which callbacks it calls and how they settle is recorded in order in \<open>cd_log\<close>. A callback that throws at
  once is one that rejects at once. Closing the stream's iterator, which leaving the loop awaits, is not
  an event of its own: nothing reads its result.
\<close>

subsection \<open>Options and errors\<close>

datatype invalid_cause = Absent | Wal_lost | No_confirmed_flush | System_changed

text \<open>The number a pid's text denotes: an integer, or something that is none.\<close>

datatype pid = Pid int | Pid_other

datatype cdc_error =
    CE_stop | CE_stopped_early
  | CE_pg jsstr                          \<comment> \<open>a \<open>PgError\<close> with its SQLSTATE\<close>
  | CE_publication_missing | CE_publication_empty | CE_invalid_slot jsstr | CE_bad_shape
  | CE_invalidated invalid_cause | CE_slot_busy pid | CE_version | CE_backfill_timeout
  | CE_recreate_verdict | CE_aborted | CE_range | CE_other nat

datatype slot_opt = S_temporary | S_durable jsstr | S_prefixed jsstr

text \<open>\<open>retryDelayMs\<close>: a delay, \<open>null\<close>, or a throw of the callback.\<close>

datatype retry = R_delay rat | R_give_up | R_throws cdc_error

record cdc_opts =
  oc_slot :: slot_opt
  oc_publications :: "jsstr list"
  oc_backfillTimeoutMs :: "jnum option"
  oc_statusIntervalMs :: "rat option"
  oc_receiveTimeoutMs :: "rat option"
  oc_keepAlive :: "bool option"          \<comment> \<open>\<open>keepAlive\<close> of a config object; a string has none\<close>
  oc_evict :: bool                       \<comment> \<open>\<open>onSlotBusy: 'evict'\<close>\<close>
  oc_recreate :: bool                    \<comment> \<open>\<open>onSlotInvalidated: 'recreate'\<close>\<close>
  oc_onResume :: bool                    \<comment> \<open>whether the callback is given\<close>
  oc_retry :: "nat \<Rightarrow> cdc_error \<Rightarrow> retry"
  oc_random :: "nat \<Rightarrow> jsstr"            \<comment> \<open>the suffix drawn in a session\<close>

text \<open>\<open>defaultRetryDelayMs\<close>; \<open>r\<close> is what \<open>Math.random()\<close> returned.\<close>

definition defaultRetryDelayMs :: "rat \<Rightarrow> nat \<Rightarrow> cdc_error \<Rightarrow> retry" where
  "defaultRetryDelayMs r attempt e = (if 10 \<le> attempt then R_give_up else R_delay (min (1000 * 2 ^ (attempt - 1) + r * 1000) 30000))"

definition PERMANENT_SQLSTATES :: "jsstr list" where
  "PERMANENT_SQLSTATES = map asc [''28P01'', ''28000'', ''3D000'', ''42501'']"

fun isPermanentFailure :: "cdc_error \<Rightarrow> bool" where
  "isPermanentFailure (CE_pg code) = (code \<in> set PERMANENT_SQLSTATES)"
| "isPermanentFailure CE_publication_missing = True"
| "isPermanentFailure CE_publication_empty = True"
| "isPermanentFailure (CE_invalid_slot n) = True"
| "isPermanentFailure CE_bad_shape = True"
| "isPermanentFailure (CE_invalidated c) = True"
| "isPermanentFailure (CE_slot_busy p) = True"
| "isPermanentFailure CE_version = True"
| "isPermanentFailure CE_backfill_timeout = True"
| "isPermanentFailure e = False"

definition isRecreatable :: "cdc_opts \<Rightarrow> cdc_error \<Rightarrow> bool" where
  "isRecreatable p e = (case e of CE_invalidated c \<Rightarrow> c \<noteq> System_changed \<and> oc_recreate p | _ \<Rightarrow> False)"

subsection \<open>Validation\<close>

definition slot_text :: "nat \<Rightarrow> jsstr \<Rightarrow> bool" where
  "slot_text mx s \<longleftrightarrow> 1 \<le> length s \<and> length s \<le> mx \<and> list_all slot_char s"

definition validateDurableSlotName :: "jsstr \<Rightarrow> cdc_error + unit" where
  "validateDurableSlotName s = (if slot_text 63 s then Inr () else Inl (CE_invalid_slot s))"

fun num_positive :: "jnum \<Rightarrow> bool" where
  "num_positive (Fin q) = (0 < q)"
| "num_positive (Inf neg) = (\<not> neg)"
| "num_positive _ = False"

definition validate_opts :: "cdc_opts \<Rightarrow> cdc_error + unit" where
  "validate_opts p =
     rbind (case oc_slot p of
         S_temporary \<Rightarrow> Inr ()
       | S_durable n \<Rightarrow> validateDurableSlotName n
       | S_prefixed q \<Rightarrow> if slot_text 54 q then Inr () else Inl (CE_invalid_slot q)) (\<lambda>_.
     if oc_publications p = [] then Inl CE_publication_empty
     else case oc_backfillTimeoutMs p of
       Some t \<Rightarrow> if num_positive t then Inr () else Inl CE_range
     | None \<Rightarrow> Inr ())"

definition durableName :: "cdc_opts \<Rightarrow> jsstr option" where
  "durableName p = (case oc_slot p of S_durable n \<Rightarrow> Some n | _ \<Rightarrow> None)"

definition tempPrefix :: "cdc_opts \<Rightarrow> jsstr" where
  "tempPrefix p = (case oc_slot p of S_prefixed q \<Rightarrow> q | _ \<Rightarrow> asc ''minipg_cdc'')"

definition tempSlotName :: "jsstr \<Rightarrow> jsstr \<Rightarrow> jsstr" where
  "tempSlotName pre hex = pre @ u16 95 # hex"

subsection \<open>State\<close>

datatype cdc_effect =
    L_session | L_connect "bool option" | L_end
  | L_command jsstr | L_identify
  | L_healthy                            \<comment> \<open>the health check found a slot to resume\<close>
  | L_row                                \<comment> \<open>the slot was seen\<close>
  | L_drop jsstr | L_create jsstr bool | L_created bool    \<comment> \<open>whether the slot is temporary\<close>
  | L_backfill jsstr jsstr bool | L_backfilled | L_onResume bool
  | L_start jsstr "rat option" "rat option"
  | L_handle batch | L_handled batch | L_ack jsstr
  | L_warn_retry nat rat | L_warn_backfill | L_warn_evicted pid | L_warn_wst
  | L_stop | L_fatal cdc_error

datatype cdc_pc =
    P_start | P_connect | P_wst | P_rekeep
  | P_identify | P_health | P_terminate pid | P_poll pid | P_poll_sleep pid
  | P_resume | P_resume_done "cdc_error + bool"
  | P_recreate_sleep | P_drop | P_drop_sleep
  | P_create | P_backfill | P_backfill_done "cdc_error option" | P_backfill_sleep
  | P_next | P_handler batch | P_handler_done batch "cdc_error option" | P_handler_sleep batch
  | P_backoff | P_returned

datatype stop_pc = SP_none | SP_handler | SP_handler_settled bool | SP_other | SP_other_settled | SP_done

datatype readiness = Y_pending | Y_resolved | Y_rejected cdc_error

text \<open>The window around \<open>backfill\<close>: open, or aborted for a reason; \<open>W_closed\<close> outside it.\<close>

datatype window = W_closed | W_open | W_aborted cdc_error

record cdc =
  cd_stopping :: bool
  cd_handling :: bool
  cd_fatalFired :: bool
  cd_sessions :: nat
  cd_attempt :: nat
  cd_repl :: bool                        \<comment> \<open>whether a connection was ever assigned\<close>
  cd_current :: bool
  cd_pendingAckLsn :: "jsstr option"
  cd_sawSlot :: bool
  cd_lastIdentity :: "(jsstr \<times> int) option"
  cd_derivedKeepAlive :: bool
  cd_ready :: readiness
  cd_aborted :: bool                     \<comment> \<open>the internal controller\<close>
  cd_pc :: cdc_pc
  cd_stop :: stop_pc
  cd_name :: jsstr
  cd_wst :: "int option"
  cd_resumed :: "(jsstr \<times> jsstr) option"
  cd_recreate :: "cdc_error option"
  cd_evictions :: nat
  cd_created :: "jsstr \<times> jsstr \<times> jsstr"
  cd_isReconnect :: bool
  cd_window :: window
  cd_deadline :: bool                    \<comment> \<open>the backfill timer is armed\<close>
  cd_log :: "cdc_effect list"

definition new_cdc :: cdc where
  "new_cdc = \<lparr>cd_stopping = False, cd_handling = False, cd_fatalFired = False, cd_sessions = 0, cd_attempt = 0, cd_repl = False,
     cd_current = False, cd_pendingAckLsn = None, cd_sawSlot = False, cd_lastIdentity = None, cd_derivedKeepAlive = False,
     cd_ready = Y_pending, cd_aborted = False, cd_pc = P_start, cd_stop = SP_none, cd_name = [], cd_wst = None, cd_resumed = None,
     cd_recreate = None, cd_evictions = 0, cd_created = ([], [], []), cd_isReconnect = False, cd_window = W_closed,
     cd_deadline = False, cd_log = []\<rparr>"

definition effect :: "cdc_effect \<Rightarrow> cdc \<Rightarrow> cdc" where
  "effect e s = s\<lparr>cd_log := cd_log s @ [e]\<rparr>"

definition goto :: "cdc_pc \<Rightarrow> cdc \<Rightarrow> cdc" where
  "goto pc s = s\<lparr>cd_pc := pc\<rparr>"

definition settle_ready :: "readiness \<Rightarrow> cdc \<Rightarrow> cdc" where
  "settle_ready r s = (if cd_ready s = Y_pending then s\<lparr>cd_ready := r\<rparr> else s)"

definition end_repl :: "cdc \<Rightarrow> cdc" where
  "end_repl s = (if cd_repl s then effect L_end s else s)"

definition fireFatal :: "cdc_error \<Rightarrow> cdc \<Rightarrow> cdc" where
  "fireFatal e s = (if cd_fatalFired s then s
     else effect (L_fatal e) (end_repl (settle_ready (Y_rejected e) (s\<lparr>cd_fatalFired := True\<rparr>))))"

definition returned :: "cdc \<Rightarrow> cdc" where
  "returned s = s\<lparr>cd_pc := P_returned, cd_window := W_closed, cd_deadline := False\<rparr>"

subsection \<open>Failing\<close>

text \<open>What a catch block does with \<open>effectiveRetryDelayMs\<close>: give up, a throw of the callback itself, or wait.\<close>

definition consult :: "cdc_opts \<Rightarrow> cdc_error \<Rightarrow> (cdc_error \<Rightarrow> cdc \<Rightarrow> cdc) \<Rightarrow> (rat \<Rightarrow> cdc \<Rightarrow> cdc) \<Rightarrow> cdc \<Rightarrow> cdc" where
  "consult p e threw wait s =
     (let s1 = s\<lparr>cd_attempt := Suc (cd_attempt s)\<rparr> in
      case oc_retry p (cd_attempt s1) e of
        R_give_up \<Rightarrow> returned (fireFatal e s1)
      | R_throws e' \<Rightarrow> threw e' s1
      | R_delay d \<Rightarrow> wait d s1)"

definition warn_and_wait :: "cdc_pc \<Rightarrow> rat \<Rightarrow> cdc \<Rightarrow> cdc" where
  "warn_and_wait pc d s = goto pc (effect (L_warn_retry (cd_attempt s) d) s)"

definition remap :: "cdc_opts \<Rightarrow> cdc_error \<Rightarrow> cdc_error" where
  "remap p e = (if durableName p \<noteq> None \<and> e = CE_pg (asc ''42704'') then CE_invalidated Absent else e)"

text \<open>The outer catch block; the window's \<open>finally\<close> has run before it.\<close>

definition fail :: "cdc_opts \<Rightarrow> cdc_error \<Rightarrow> cdc \<Rightarrow> cdc" where
  "fail p raw s =
     (let s1 = end_repl (s\<lparr>cd_window := W_closed, cd_deadline := False\<rparr>) in
      if cd_stopping s1 then returned s1
      else let e = remap p raw; s2 = settle_ready (Y_rejected e) s1 in
        if isPermanentFailure e \<and> \<not> isRecreatable p e then returned (fireFatal e s2)
        else consult p e (\<lambda>e' t. returned (fireFatal e' t)) (warn_and_wait P_backoff) s2)"

definition unless_stopping :: "cdc_opts \<Rightarrow> (cdc \<Rightarrow> cdc) \<Rightarrow> cdc \<Rightarrow> cdc" where
  "unless_stopping p k s = (if cd_stopping s then fail p CE_stop s else k s)"

subsection \<open>Streaming\<close>

definition derivedStatusIntervalMs :: "int option \<Rightarrow> rat option" where
  "derivedStatusIntervalMs wst = map_option (\<lambda>n. max 10000 (of_int n * 3 / 4)) wst"

definition derivedReceiveTimeoutMs :: "int option \<Rightarrow> rat option" where
  "derivedReceiveTimeoutMs wst = (case wst of None \<Rightarrow> None | Some n \<Rightarrow> if n = 0 then None else Some (max 60000 (of_int n * 2)))"

definition given_or :: "'a option \<Rightarrow> 'a option \<Rightarrow> 'a option" where
  "given_or a b = (case a of Some x \<Rightarrow> Some x | None \<Rightarrow> b)"

definition start_stream :: "cdc_opts \<Rightarrow> jsstr \<Rightarrow> cdc \<Rightarrow> cdc" where
  "start_stream p slot s = goto P_next (effect (L_start slot
     (given_or (oc_statusIntervalMs p) (derivedStatusIntervalMs (cd_wst s)))
     (given_or (oc_receiveTimeoutMs p) (derivedReceiveTimeoutMs (cd_wst s)))) s)"

definition call_handler :: "batch \<Rightarrow> cdc \<Rightarrow> cdc" where
  "call_handler b s = goto (P_handler b) (effect (L_handle b) (s\<lparr>cd_current := True\<rparr>))"

definition take_batch :: "cdc_opts \<Rightarrow> batch \<Rightarrow> cdc \<Rightarrow> cdc" where
  "take_batch p b = unless_stopping p (\<lambda>s.
     call_handler b (s\<lparr>cd_handling := True, cd_pendingAckLsn := map_option cf_endLsn (ba_commit b)\<rparr>))"

definition ack_pending :: "cdc \<Rightarrow> cdc" where
  "ack_pending s = (case cd_pendingAckLsn s of
       Some l \<Rightarrow> (effect (L_ack l) s)\<lparr>cd_pendingAckLsn := None, cd_attempt := 0\<rparr>
     | None \<Rightarrow> s)"

definition handler_done :: "cdc_opts \<Rightarrow> batch \<Rightarrow> cdc_error option \<Rightarrow> cdc \<Rightarrow> cdc" where
  "handler_done p b r s = (case r of
       None \<Rightarrow> goto P_next ((ack_pending s)\<lparr>cd_handling := False\<rparr>)
     | Some e \<Rightarrow> unless_stopping p (consult p e (fail p) (warn_and_wait (P_handler_sleep b))) s)"

subsection \<open>The backfill window\<close>

definition call_backfill :: "cdc \<Rightarrow> cdc" where
  "call_backfill s = (case cd_created s of (slot, snapshot, lsn) \<Rightarrow>
     goto P_backfill (effect (L_backfill snapshot lsn (cd_isReconnect s)) (s\<lparr>cd_current := True\<rparr>)))"

definition open_window :: "cdc_opts \<Rightarrow> cdc \<Rightarrow> cdc" where
  "open_window p s = s\<lparr>cd_window := W_open, cd_deadline := (oc_backfillTimeoutMs p \<noteq> None),
     cd_isReconnect := (1 < cd_sessions s \<or> cd_recreate s \<noteq> None)\<rparr>"

definition slot_created :: "cdc_opts \<Rightarrow> jsstr \<times> jsstr \<times> jsstr \<Rightarrow> cdc \<Rightarrow> cdc" where
  "slot_created p c s =
     (let s1 = effect (L_created (durableName p = None)) (s\<lparr>cd_created := c, cd_sawSlot := (durableName p \<noteq> None \<or> cd_sawSlot s)\<rparr>)
      in unless_stopping p (\<lambda>s. call_backfill (open_window p s)) s1)"

definition backfill_catch :: "cdc_opts \<Rightarrow> cdc_error \<Rightarrow> cdc \<Rightarrow> cdc" where
  "backfill_catch p e s =
     (if cd_window s = W_aborted CE_backfill_timeout then fail p CE_backfill_timeout s
      else unless_stopping p (consult p e (fail p) (warn_and_wait P_backfill_sleep)) s)"

definition backfill_done :: "cdc_opts \<Rightarrow> cdc_error option \<Rightarrow> cdc \<Rightarrow> cdc" where
  "backfill_done p r s = (case r of
       Some e \<Rightarrow> backfill_catch p e s
     | None \<Rightarrow> (case cd_window s of
         W_aborted e \<Rightarrow> backfill_catch p e s
       | _ \<Rightarrow> start_stream p (fst (cd_created s)) (effect L_backfilled (s\<lparr>cd_window := W_closed, cd_deadline := False\<rparr>))))"

subsection \<open>Slot administration\<close>

definition make_slot :: "cdc_opts \<Rightarrow> cdc \<Rightarrow> cdc" where
  "make_slot p s =
     (if cd_resumed s \<noteq> None then start_stream p (cd_name s) s
      else goto P_create (effect (L_create (cd_name s) (durableName p = None)) s))"

definition dropSlot :: "cdc \<Rightarrow> cdc" where
  "dropSlot s = goto P_drop (effect (L_drop (cd_name s)) s)"

definition maybe_recreate :: "cdc_opts \<Rightarrow> cdc \<Rightarrow> cdc" where
  "maybe_recreate p s = (case cd_recreate s of
       None \<Rightarrow> make_slot p s
     | Some e \<Rightarrow> consult p e (fail p) (\<lambda>d. goto P_recreate_sleep) s)"

definition resume_done :: "cdc_opts \<Rightarrow> cdc_error + bool \<Rightarrow> cdc \<Rightarrow> cdc" where
  "resume_done p r s = (case r of
       Inl e \<Rightarrow> fail p e s
     | Inr verdict \<Rightarrow> maybe_recreate p
         (if verdict then s\<lparr>cd_recreate := Some CE_recreate_verdict, cd_resumed := None\<rparr> else s))"

definition after_durable :: "cdc_opts \<Rightarrow> cdc \<Rightarrow> cdc" where
  "after_durable p = unless_stopping p (\<lambda>s.
     if cd_resumed s \<noteq> None \<and> oc_onResume p
     then goto P_resume (effect (L_onResume (1 < cd_sessions s)) (s\<lparr>cd_current := True\<rparr>))
     else maybe_recreate p s)"

text \<open>The catch block around the durable slot's checks.\<close>

definition durable_throw :: "cdc_opts \<Rightarrow> cdc_error \<Rightarrow> cdc \<Rightarrow> cdc" where
  "durable_throw p e s = (if isRecreatable p e then after_durable p (s\<lparr>cd_recreate := Some e\<rparr>) else fail p e s)"

definition health_sql :: "jsstr \<Rightarrow> jsstr" where
  "health_sql name = asc ''select active, active_pid, wal_status, confirmed_flush_lsn, restart_lsn from pg_replication_slots where slot_name = ''
     @ u16 39 # name @ u16 39 # asc '' and slot_type = '' @ u16 39 # asc ''logical'' @ [u16 39]"

definition poll_sql :: "jsstr \<Rightarrow> jsstr" where
  "poll_sql name = asc ''select active from pg_replication_slots where slot_name = '' @ u16 39 # name @ [u16 39]"

definition terminate_sql :: "int \<Rightarrow> jsstr" where
  "terminate_sql n = asc ''select pg_terminate_backend('' @ dec_int n @ asc '')''"

definition wst_sql :: jsstr where
  "wst_sql = asc ''select setting::int from pg_settings where name = '' @ u16 39 # asc ''wal_sender_timeout'' @ [u16 39]"

definition cdc_command :: "jsstr \<Rightarrow> cdc_pc \<Rightarrow> cdc \<Rightarrow> cdc" where
  "cdc_command sql pc s = goto pc (effect (L_command sql) s)"

definition readSlotHealth :: "cdc \<Rightarrow> cdc" where
  "readSlotHealth s = cdc_command (health_sql (cd_name s)) P_health s"

record health =
  h_active :: bool                       \<comment> \<open>the text is \<open>t\<close>\<close>
  h_active_pid :: "pid option"
  h_lost :: bool                         \<comment> \<open>\<open>wal_status\<close> is \<open>lost\<close>\<close>
  h_confirmed_flush_lsn :: "jsstr option"
  h_restart_lsn :: jsstr

definition evict :: "cdc_opts \<Rightarrow> pid \<Rightarrow> cdc \<Rightarrow> cdc" where
  "evict p q s = (case q of
       Pid n \<Rightarrow> cdc_command (terminate_sql n) (P_terminate q) s
     | Pid_other \<Rightarrow> durable_throw p (CE_slot_busy q) s)"

definition slot_row :: "cdc_opts \<Rightarrow> health \<Rightarrow> cdc \<Rightarrow> cdc" where
  "slot_row p h s =
     (if h_lost h then durable_throw p (CE_invalidated Wal_lost) s
      else case h_confirmed_flush_lsn h of
        None \<Rightarrow> durable_throw p (CE_invalidated No_confirmed_flush) s
      | Some f \<Rightarrow>
          (case (h_active h, h_active_pid h) of
            (True, Some q) \<Rightarrow>
              let s1 = (if oc_evict p then s\<lparr>cd_evictions := Suc (cd_evictions s)\<rparr> else s) in
              if \<not> oc_evict p \<or> 3 < cd_evictions s1 then durable_throw p (CE_slot_busy q) s1 else evict p q s1
          | _ \<Rightarrow> after_durable p (effect L_healthy (s\<lparr>cd_resumed := Some (f, h_restart_lsn h)\<rparr>))))"

definition health_answered :: "cdc_opts \<Rightarrow> health option \<Rightarrow> cdc \<Rightarrow> cdc" where
  "health_answered p row = unless_stopping p (\<lambda>s. case row of
       None \<Rightarrow> if \<not> cd_sawSlot s then after_durable p s else durable_throw p (CE_invalidated Absent) s
     | Some h \<Rightarrow> slot_row p h (effect L_row (s\<lparr>cd_sawSlot := True\<rparr>)))"

definition identified :: "cdc_opts \<Rightarrow> jsstr \<times> int \<Rightarrow> cdc \<Rightarrow> cdc" where
  "identified p i s =
     (if cd_lastIdentity s \<noteq> None \<and> cd_lastIdentity s \<noteq> Some i then durable_throw p (CE_invalidated System_changed) s
      else unless_stopping p readSlotHealth (s\<lparr>cd_lastIdentity := Some i\<rparr>))"

text \<open>The poll after an eviction: \<open>row\<close> is the slot's \<open>active\<close>, \<open>late\<close> whether the deadline has passed.\<close>

definition polled :: "cdc_opts \<Rightarrow> pid \<Rightarrow> jsstr option \<Rightarrow> bool \<Rightarrow> cdc \<Rightarrow> cdc" where
  "polled p q row late s = (case row of
       None \<Rightarrow> durable_throw p (CE_invalidated Absent) s
     | Some t \<Rightarrow>
         if t = asc ''f'' then unless_stopping p readSlotHealth (effect (L_warn_evicted q) s)
         else if late then durable_throw p (CE_slot_busy q) s
         else goto (P_poll_sleep q) s)"

definition drop_failed :: "cdc_opts \<Rightarrow> cdc_error \<Rightarrow> bool \<Rightarrow> cdc \<Rightarrow> cdc" where
  "drop_failed p e late s =
     (if e = CE_pg (asc ''42704'') then unless_stopping p (make_slot p) s
      else if e \<noteq> CE_pg (asc ''55006'') \<or> late then fail p e s
      else goto P_drop_sleep s)"

subsection \<open>Connecting\<close>

definition withDerivedKeepAlive :: "cdc_opts \<Rightarrow> bool \<Rightarrow> bool option" where
  "withDerivedKeepAlive p force = (if force then Some True else oc_keepAlive p)"

definition cdc_connect :: "cdc_opts \<Rightarrow> cdc \<Rightarrow> cdc" where
  "cdc_connect p s = goto P_connect (effect (L_connect (withDerivedKeepAlive p (cd_derivedKeepAlive s)))
     (effect L_session (s\<lparr>cd_sessions := Suc (cd_sessions s), cd_resumed := None, cd_recreate := None, cd_evictions := 0\<rparr>)))"

definition slot_checks :: "cdc_opts \<Rightarrow> cdc \<Rightarrow> cdc" where
  "slot_checks p s =
     (let s1 = s\<lparr>cd_derivedKeepAlive := (cd_wst s = Some 0 \<and> oc_keepAlive p = None)\<rparr>;
          s2 = (if cd_wst s = Some 0 then effect L_warn_wst s1 else s1) in
      case durableName p of
        Some n \<Rightarrow> goto P_identify (effect L_identify (s2\<lparr>cd_name := n\<rparr>))
      | None \<Rightarrow> after_durable p (s2\<lparr>cd_name := tempSlotName (tempPrefix p) (oc_random p (cd_sessions s2))\<rparr>))"

definition wst_answered :: "cdc_opts \<Rightarrow> int option \<Rightarrow> cdc \<Rightarrow> cdc" where
  "wst_answered p wst = unless_stopping p (\<lambda>s.
     let s1 = s\<lparr>cd_wst := wst\<rparr> in
     if wst = Some 0 \<and> oc_keepAlive p = None \<and> \<not> cd_derivedKeepAlive s1
     then goto P_rekeep (effect (L_connect (withDerivedKeepAlive p True)) (end_repl s1))
     else slot_checks p s1)"

subsection \<open>Events\<close>

datatype cdc_answer =
    A_ok | A_threw cdc_error
  | A_setting "int option"
  | A_identity jsstr int
  | A_health "health option"
  | A_active "jsstr option" bool
  | A_drop_threw cdc_error bool
  | A_verdict bool
  | A_slot "jsstr \<times> jsstr \<times> jsstr"
  | A_batch batch | A_end
  | A_go                                 \<comment> \<open>the code after a settled callback runs\<close>

definition settle_current :: "bool \<Rightarrow> cdc \<Rightarrow> cdc" where
  "settle_current ok s = s\<lparr>cd_current := False, cd_stop := (case cd_stop s of
       SP_handler \<Rightarrow> SP_handler_settled ok
     | SP_other \<Rightarrow> SP_other_settled
     | x \<Rightarrow> x)\<rparr>"

definition run_resumes :: "cdc_opts \<Rightarrow> cdc_pc \<Rightarrow> cdc_answer \<Rightarrow> cdc \<Rightarrow> cdc option" where
  "run_resumes p pc a s = (case pc of
       P_start \<Rightarrow> (case a of
           A_go \<Rightarrow> Some (if cd_stopping s then returned s else cdc_connect p s)
         | _ \<Rightarrow> None)
     | P_connect \<Rightarrow> (case a of
           A_ok \<Rightarrow> Some (unless_stopping p (cdc_command wst_sql P_wst) (s\<lparr>cd_repl := True\<rparr>))
         | A_threw e \<Rightarrow> Some (fail p e s)
         | _ \<Rightarrow> None)
     | P_wst \<Rightarrow> (case a of
           A_setting n \<Rightarrow> Some (wst_answered p n s)
         | A_threw e \<Rightarrow> Some (fail p e s)
         | _ \<Rightarrow> None)
     | P_rekeep \<Rightarrow> (case a of
           A_ok \<Rightarrow> Some (unless_stopping p (slot_checks p) (s\<lparr>cd_repl := True\<rparr>))
         | A_threw e \<Rightarrow> Some (fail p e s)
         | _ \<Rightarrow> None)
     | P_identify \<Rightarrow> (case a of
           A_identity sys timeline \<Rightarrow> Some (identified p (sys, timeline) s)
         | A_threw e \<Rightarrow> Some (durable_throw p e s)
         | _ \<Rightarrow> None)
     | P_health \<Rightarrow> (case a of
           A_health row \<Rightarrow> Some (health_answered p row s)
         | A_threw e \<Rightarrow> Some (durable_throw p (if e = CE_pg (asc ''42703'') then CE_version else e) s)
         | _ \<Rightarrow> None)
     | P_terminate q \<Rightarrow> (case a of
           A_ok \<Rightarrow> Some (cdc_command (poll_sql (cd_name s)) (P_poll q) s)
         | A_threw e \<Rightarrow> Some (durable_throw p e s)
         | _ \<Rightarrow> None)
     | P_poll q \<Rightarrow> (case a of
           A_active row late \<Rightarrow> Some (polled p q row late s)
         | A_threw e \<Rightarrow> Some (durable_throw p e s)
         | _ \<Rightarrow> None)
     | P_poll_sleep q \<Rightarrow> (case a of
           A_ok \<Rightarrow> Some (cdc_command (poll_sql (cd_name s)) (P_poll q) s)
         | _ \<Rightarrow> None)
     | P_resume \<Rightarrow> (case a of
           A_verdict v \<Rightarrow> Some (goto (P_resume_done (Inr v)) (settle_current True s))
         | A_threw e \<Rightarrow> Some (goto (P_resume_done (Inl e)) (settle_current False s))
         | _ \<Rightarrow> None)
     | P_resume_done r \<Rightarrow> (case a of
           A_go \<Rightarrow> Some (resume_done p r s)
         | _ \<Rightarrow> None)
     | P_recreate_sleep \<Rightarrow> (case a of
           A_ok \<Rightarrow> Some (unless_stopping p dropSlot s)
         | _ \<Rightarrow> None)
     | P_drop \<Rightarrow> (case a of
           A_ok \<Rightarrow> Some (unless_stopping p (make_slot p) s)
         | A_drop_threw e late \<Rightarrow> Some (drop_failed p e late s)
         | _ \<Rightarrow> None)
     | P_drop_sleep \<Rightarrow> (case a of
           A_ok \<Rightarrow> Some (dropSlot s)
         | _ \<Rightarrow> None)
     | P_create \<Rightarrow> (case a of
           A_slot c \<Rightarrow> Some (slot_created p c s)
         | A_threw e \<Rightarrow> Some (fail p e s)
         | _ \<Rightarrow> None)
     | P_backfill \<Rightarrow> (case a of
           A_ok \<Rightarrow> Some (goto (P_backfill_done None) (settle_current True s))
         | A_threw e \<Rightarrow> Some (goto (P_backfill_done (Some e)) (settle_current False s))
         | _ \<Rightarrow> None)
     | P_backfill_done r \<Rightarrow> (case a of
           A_go \<Rightarrow> Some (backfill_done p r s)
         | _ \<Rightarrow> None)
     | P_backfill_sleep \<Rightarrow> (case a of
           A_ok \<Rightarrow> Some (unless_stopping p call_backfill s)
         | _ \<Rightarrow> None)
     | P_next \<Rightarrow> (case a of
           A_batch b \<Rightarrow> Some (take_batch p b s)
         | A_end \<Rightarrow> Some (returned (end_repl s))
         | A_threw e \<Rightarrow> Some (fail p e s)
         | _ \<Rightarrow> None)
     | P_handler b \<Rightarrow> (case a of
           A_ok \<Rightarrow> Some (goto (P_handler_done b None) (effect (L_handled b) (settle_current True s)))
         | A_threw e \<Rightarrow> Some (goto (P_handler_done b (Some e)) (settle_current False s))
         | _ \<Rightarrow> None)
     | P_handler_done b r \<Rightarrow> (case a of
           A_go \<Rightarrow> Some (handler_done p b r s)
         | _ \<Rightarrow> None)
     | P_handler_sleep b \<Rightarrow> (case a of
           A_ok \<Rightarrow> Some (unless_stopping p (call_handler b) s)
         | _ \<Rightarrow> None)
     | P_backoff \<Rightarrow> (case a of
           A_ok \<Rightarrow> Some (if cd_stopping s then returned s else cdc_connect p s)
         | _ \<Rightarrow> None)
     | P_returned \<Rightarrow> None)"

text \<open>\<open>stop()\<close>: the second call does nothing new; the first one sets the flag and then either waits for the
  handler before it aborts, or aborts and then waits.\<close>

definition abort_controller :: "cdc \<Rightarrow> cdc" where
  "abort_controller s = s\<lparr>cd_aborted := True, cd_window := (if cd_window s = W_open then W_aborted CE_aborted else cd_window s)\<rparr>"

definition stop_ends :: "cdc \<Rightarrow> cdc" where
  "stop_ends s = (end_repl s)\<lparr>cd_stop := SP_done\<rparr>"

definition doStop :: "cdc \<Rightarrow> cdc" where
  "doStop s =
     (let s1 = effect L_stop (settle_ready (Y_rejected CE_stopped_early) (s\<lparr>cd_stopping := True\<rparr>)) in
      if cd_handling s1
      then (if cd_current s1 then s1\<lparr>cd_stop := SP_handler\<rparr> else stop_ends (abort_controller s1))
      else (let s2 = abort_controller s1 in if cd_current s2 then s2\<lparr>cd_stop := SP_other\<rparr> else stop_ends s2))"

definition stop_resumes :: "cdc \<Rightarrow> cdc" where
  "stop_resumes s = (case cd_stop s of
       SP_handler_settled ok \<Rightarrow>
         let s1 = (case cd_pendingAckLsn s of
             Some l \<Rightarrow> if ok then (if cd_repl s then effect (L_ack l) s else s)\<lparr>cd_pendingAckLsn := None\<rparr> else s
           | None \<Rightarrow> s)
         in stop_ends (abort_controller s1)
     | SP_other_settled \<Rightarrow> stop_ends s
     | _ \<Rightarrow> s)"

datatype cdc_event = E_run cdc_answer | E_stop | E_stop_resumes | E_deadline | E_streaming

definition cdc_apply :: "cdc_opts \<Rightarrow> cdc_event \<Rightarrow> cdc \<Rightarrow> cdc" where
  "cdc_apply p ev s = (case ev of
       E_run a \<Rightarrow> (case run_resumes p (cd_pc s) a s of Some t \<Rightarrow> t | None \<Rightarrow> s)
     | E_stop \<Rightarrow> if cd_stop s = SP_none then doStop s else s
     | E_stop_resumes \<Rightarrow> stop_resumes s
     | E_deadline \<Rightarrow> if cd_deadline s
         then effect L_warn_backfill (s\<lparr>cd_deadline := False, cd_window := (if cd_window s = W_open then W_aborted CE_backfill_timeout else cd_window s)\<rparr>)
         else s
     | E_streaming \<Rightarrow> if cd_pc s = P_next then settle_ready Y_resolved s else s)"

definition cdc_run :: "cdc_opts \<Rightarrow> cdc_event list \<Rightarrow> cdc \<Rightarrow> cdc" where
  "cdc_run p evs s = fold (cdc_apply p) evs s"

definition cdc_init :: "cdc \<Rightarrow> bool" where
  "cdc_init s \<longleftrightarrow> s = new_cdc"

definition cdc_step :: "cdc_opts \<Rightarrow> cdc \<Rightarrow> cdc \<Rightarrow> bool" where
  "cdc_step p s t \<longleftrightarrow> (\<exists>ev. t = cdc_apply p ev s)"

end
