(* ===== verification/Cdc_Props.thy ===== *)
theory Cdc_Props
  imports Cdc
begin

section \<open>Change data capture: what every run keeps to\<close>

text \<open>
  Properties of \<open>replicate()\<close> over the log of its effects, in every state that calls, answers, failures,
  timers and \<open>stop()\<close> can reach in any order: acknowledgement, the protocol on a connection, fatal errors and
  the retry budget; and the runs in which the code does not do what it promises.
\<close>

subsection \<open>What the log shows\<close>

definition acks :: "cdc_effect list \<Rightarrow> jsstr list" where
  "acks lg = concat (map (\<lambda>e. case e of L_ack l \<Rightarrow> [l] | _ \<Rightarrow> []) lg)"

definition batch_lsn :: "batch \<Rightarrow> jsstr option" where
  "batch_lsn b = map_option cf_endLsn (ba_commit b)"

text \<open>The end positions of the transactions whose handler has resolved.\<close>

definition handled_lsns :: "cdc_effect list \<Rightarrow> jsstr list" where
  "handled_lsns lg = concat (map (\<lambda>e. case e of L_handled b \<Rightarrow> (case batch_lsn b of Some l \<Rightarrow> [l] | None \<Rightarrow> []) | _ \<Rightarrow> []) lg)"

definition fatals :: "cdc_effect list \<Rightarrow> cdc_error list" where
  "fatals lg = concat (map (\<lambda>e. case e of L_fatal x \<Rightarrow> [x] | _ \<Rightarrow> []) lg)"

definition late_fatals :: "cdc_effect list \<Rightarrow> cdc_error list" where
  "late_fatals lg = fatals (dropWhile (\<lambda>e. e \<noteq> L_stop) lg)"

text \<open>Sessions begun since the last acknowledgement.\<close>

definition sessions_since :: "cdc_effect list \<Rightarrow> nat" where
  "sessions_since lg = fold (\<lambda>e n. case e of L_session \<Rightarrow> Suc n | L_ack l \<Rightarrow> 0 | _ \<Rightarrow> n) lg 0"

text \<open>The protocol of one connection. \<open>Q_wrong\<close> is never left: a stream without a resumable slot or a finished
  backfill, a command inside the backfill window or beside the stream, a handler call or acknowledgement
  without a stream, a slot created beside a healthy one, and a durable slot that had been seen created
  again without being dropped.\<close>

datatype proto = Q_idle | Q_open | Q_healthy | Q_dropped | Q_creating | Q_window | Q_based | Q_streaming | Q_wrong

definition allowed :: "proto list \<Rightarrow> proto \<Rightarrow> proto \<Rightarrow> proto" where
  "allowed qs q' q = (if q \<in> set qs then q' else Q_wrong)"

fun proto_step :: "cdc_effect \<Rightarrow> proto \<times> bool \<Rightarrow> proto \<times> bool" where
  "proto_step (L_connect ka) (q, seen) = (if q = Q_wrong then Q_wrong else Q_open, seen)"
| "proto_step (L_command sql) (q, seen) = (allowed [Q_open] Q_open q, seen)"
| "proto_step L_identify (q, seen) = (allowed [Q_open] Q_open q, seen)"
| "proto_step L_row (q, seen) = (allowed [Q_open] Q_open q, True)"
| "proto_step L_healthy (q, seen) = (allowed [Q_open] Q_healthy q, seen)"
| "proto_step (L_onResume r) (q, seen) = (allowed [Q_healthy] Q_healthy q, seen)"
| "proto_step (L_drop n) (q, seen) = (allowed [Q_open, Q_healthy, Q_dropped] Q_dropped q, seen)"
| "proto_step (L_create n temporary) (q, seen) =
     (allowed (if seen \<and> \<not> temporary then [Q_dropped] else [Q_open, Q_dropped]) Q_creating q, seen)"
| "proto_step (L_created temporary) (q, seen) = (allowed [Q_creating] Q_window q, seen \<or> \<not> temporary)"
| "proto_step (L_backfill sn l r) (q, seen) = (allowed [Q_window] Q_window q, seen)"
| "proto_step L_backfilled (q, seen) = (allowed [Q_window] Q_based q, seen)"
| "proto_step (L_start n si rt) (q, seen) = (allowed [Q_healthy, Q_based] Q_streaming q, seen)"
| "proto_step (L_handle b) (q, seen) = (allowed [Q_streaming] Q_streaming q, seen)"
| "proto_step (L_handled b) (q, seen) = (allowed [Q_streaming] Q_streaming q, seen)"
| "proto_step (L_ack l) (q, seen) = (allowed [Q_streaming] Q_streaming q, seen)"
| "proto_step e (q, seen) = (q, seen)"

definition proto :: "cdc_effect list \<Rightarrow> proto \<times> bool" where
  "proto lg = fold proto_step lg (Q_idle, False)"

lemma log_append [simp]:
  "acks (xs @ ys) = acks xs @ acks ys" "handled_lsns (xs @ ys) = handled_lsns xs @ handled_lsns ys" "fatals (xs @ ys) = fatals xs @ fatals ys"
  by (simp_all add: acks_def handled_lsns_def fatals_def)

lemma proto_append: "proto (xs @ [e]) = proto_step e (proto xs)"
  by (simp add: proto_def)

lemma since_append: "sessions_since (xs @ [e]) = (case e of L_session \<Rightarrow> Suc (sessions_since xs) | L_ack l \<Rightarrow> 0 | _ \<Rightarrow> sessions_since xs)"
  by (cases e) (simp_all add: sessions_since_def)

lemma log_one:
  "acks [e] = (case e of L_ack l \<Rightarrow> [l] | _ \<Rightarrow> [])" "fatals [e] = (case e of L_fatal x \<Rightarrow> [x] | _ \<Rightarrow> [])"
  "handled_lsns [e] = (case e of L_handled b \<Rightarrow> (case batch_lsn b of Some l \<Rightarrow> [l] | None \<Rightarrow> []) | _ \<Rightarrow> [])"
  by (simp_all add: acks_def handled_lsns_def fatals_def)

lemma late_append: "late_fatals (xs @ [e]) = (if L_stop \<in> set xs then late_fatals xs @ fatals [e] else [])"
proof (cases "L_stop \<in> set xs")
  case True
  then have "dropWhile (\<lambda>e. e \<noteq> L_stop) (xs @ [e]) = dropWhile (\<lambda>e. e \<noteq> L_stop) xs @ [e]" by (rule dropWhile_append1) simp
  with True show ?thesis by (simp add: late_fatals_def)
next
  case False
  then have "dropWhile (\<lambda>e. e \<noteq> L_stop) (xs @ [e]) = dropWhile (\<lambda>e. e \<noteq> L_stop) [e]" by (intro dropWhile_append2) auto
  with False show ?thesis by (simp add: late_fatals_def log_one) (simp add: fatals_def)
qed


subsection \<open>The invariant\<close>

definition never_throws :: "cdc_opts \<Rightarrow> bool" where
  "never_throws p \<longleftrightarrow> (\<forall>n e x. oc_retry p n e \<noteq> R_throws x)"

definition gives_up_at :: "nat \<Rightarrow> cdc_opts \<Rightarrow> bool" where
  "gives_up_at N p \<longleftrightarrow> 0 < N \<and> (\<forall>n e. N \<le> n \<longrightarrow> oc_retry p n e = R_give_up)"

text \<open>What holds wherever \<open>run()\<close> has not ended, whatever it waits for.\<close>

definition alive :: "cdc_opts \<Rightarrow> cdc \<Rightarrow> bool" where
  "alive p s \<longleftrightarrow>
     (cd_stop s \<noteq> SP_none) = cd_stopping s \<and> (L_stop \<in> set (cd_log s)) = cd_stopping s \<and>
     \<not> cd_fatalFired s \<and> fatals (cd_log s) = [] \<and>
     snd (proto (cd_log s)) \<le> (cd_sawSlot s \<or> durableName p = None) \<and>
     sessions_since (cd_log s) \<le> Suc (cd_attempt s) \<and> (\<forall>N. gives_up_at N p \<longrightarrow> cd_attempt s < N)"

definition stage :: "proto \<Rightarrow> cdc \<Rightarrow> bool" where
  "stage q s \<longleftrightarrow> fst (proto (cd_log s)) = q"

definition run_over :: "cdc_opts \<Rightarrow> cdc \<Rightarrow> bool" where
  "run_over p s \<longleftrightarrow>
     (cd_stop s \<noteq> SP_none) = cd_stopping s \<and> (L_stop \<in> set (cd_log s)) = cd_stopping s \<and>
     cd_fatalFired s = (fatals (cd_log s) \<noteq> []) \<and> length (fatals (cd_log s)) \<le> 1 \<and>
     set (late_fatals (cd_log s)) \<subseteq> {CE_recreate_verdict} \<and>
     (\<forall>N. gives_up_at N p \<longrightarrow> sessions_since (cd_log s) \<le> N) \<and>
     acks (cd_log s) = handled_lsns (cd_log s) \<and> \<not> cd_current s \<and> cd_stop s \<noteq> SP_handler \<and>
     (cd_stop s = SP_handler_settled True \<longrightarrow> cd_pendingAckLsn s = None) \<and> \<not> stage Q_wrong s"

definition waiting :: "cdc_opts \<Rightarrow> proto set \<Rightarrow> cdc \<Rightarrow> bool" where
  "waiting p qs s \<longleftrightarrow> alive p s \<and> acks (cd_log s) = handled_lsns (cd_log s) \<and> cd_pendingAckLsn s = None \<and> \<not> cd_handling s \<and>
     cd_stop s \<noteq> SP_handler \<and> fst (proto (cd_log s)) \<in> qs \<and> Q_wrong \<notin> qs"

definition handler_wait :: "cdc_opts \<Rightarrow> batch \<Rightarrow> cdc \<Rightarrow> bool" where
  "handler_wait p b s \<longleftrightarrow> alive p s \<and> acks (cd_log s) = handled_lsns (cd_log s) \<and> cd_pendingAckLsn s = batch_lsn b \<and> cd_repl s \<and>
     stage Q_streaming s \<and> (cd_stop s = SP_handler_settled True \<longrightarrow> batch_lsn b = None)"

abbreviation fresh :: "cdc \<Rightarrow> bool" where
  "fresh s \<equiv> cd_resumed s = None \<and> cd_recreate s = None"

definition pc_ok :: "cdc_opts \<Rightarrow> cdc \<Rightarrow> bool" where
  "pc_ok p s = (case cd_pc s of
       P_start \<Rightarrow> waiting p (UNIV - {Q_wrong}) s \<and> \<not> cd_current s \<and> sessions_since (cd_log s) \<le> cd_attempt s
     | P_backoff \<Rightarrow> waiting p (UNIV - {Q_wrong}) s \<and> \<not> cd_current s \<and> sessions_since (cd_log s) \<le> cd_attempt s
     | P_connect \<Rightarrow> waiting p {Q_open} s \<and> \<not> cd_current s \<and> fresh s
     | P_wst \<Rightarrow> waiting p {Q_open} s \<and> \<not> cd_current s \<and> fresh s \<and> cd_repl s
     | P_rekeep \<Rightarrow> waiting p {Q_open} s \<and> \<not> cd_current s \<and> fresh s \<and> cd_repl s
     | P_identify \<Rightarrow> waiting p {Q_open} s \<and> \<not> cd_current s \<and> fresh s \<and> cd_repl s
     | P_health \<Rightarrow> waiting p {Q_open} s \<and> \<not> cd_current s \<and> fresh s \<and> cd_repl s
     | P_terminate q \<Rightarrow> waiting p {Q_open} s \<and> \<not> cd_current s \<and> fresh s \<and> cd_repl s
     | P_poll q \<Rightarrow> waiting p {Q_open} s \<and> \<not> cd_current s \<and> fresh s \<and> cd_repl s
     | P_poll_sleep q \<Rightarrow> waiting p {Q_open} s \<and> \<not> cd_current s \<and> fresh s \<and> cd_repl s
     | P_resume \<Rightarrow> waiting p {Q_healthy} s \<and> cd_current s \<and> cd_resumed s \<noteq> None \<and> cd_recreate s = None \<and> cd_repl s
     | P_resume_done r \<Rightarrow> waiting p {Q_healthy} s \<and> \<not> cd_current s \<and> cd_resumed s \<noteq> None \<and> cd_recreate s = None \<and> cd_repl s
     | P_recreate_sleep \<Rightarrow> waiting p {Q_open, Q_healthy} s \<and> \<not> cd_current s \<and> cd_resumed s = None \<and> cd_repl s
     | P_drop \<Rightarrow> waiting p {Q_dropped} s \<and> \<not> cd_current s \<and> cd_resumed s = None \<and> cd_repl s
     | P_drop_sleep \<Rightarrow> waiting p {Q_dropped} s \<and> \<not> cd_current s \<and> cd_resumed s = None \<and> cd_repl s
     | P_create \<Rightarrow> waiting p {Q_creating} s \<and> \<not> cd_current s \<and> cd_repl s
     | P_backfill \<Rightarrow> waiting p {Q_window} s \<and> cd_current s \<and> cd_repl s
     | P_backfill_done r \<Rightarrow> waiting p {Q_window} s \<and> \<not> cd_current s \<and> cd_repl s
     | P_backfill_sleep \<Rightarrow> waiting p {Q_window} s \<and> \<not> cd_current s \<and> cd_repl s
     | P_next \<Rightarrow> waiting p {Q_streaming} s \<and> \<not> cd_current s \<and> cd_repl s
     | P_handler b \<Rightarrow> handler_wait p b s \<and> cd_current s
     | P_handler_sleep b \<Rightarrow> handler_wait p b s \<and> \<not> cd_current s \<and> cd_stop s \<noteq> SP_handler
     | P_handler_done b r \<Rightarrow> \<not> cd_current s \<and> cd_stop s \<noteq> SP_handler \<and> (case r of
           Some e \<Rightarrow> handler_wait p b s
         | None \<Rightarrow> alive p s \<and> stage Q_streaming s \<and> cd_repl s \<and> handled_lsns (cd_log s) = acks (cd_log s) @ (case cd_pendingAckLsn s of Some l \<Rightarrow> [l] | None \<Rightarrow> []))
     | P_returned \<Rightarrow> run_over p s)"

text \<open>Fields the invariant does not read.\<close>

lemma waiting_upd [simp]:
  "waiting p qs (s\<lparr>cd_recreate := a\<rparr>) = waiting p qs s" "waiting p qs (s\<lparr>cd_resumed := b\<rparr>) = waiting p qs s"
  "waiting p qs (s\<lparr>cd_evictions := c\<rparr>) = waiting p qs s" "waiting p qs (s\<lparr>cd_name := d\<rparr>) = waiting p qs s"
  "waiting p qs (s\<lparr>cd_wst := e\<rparr>) = waiting p qs s" "waiting p qs (s\<lparr>cd_lastIdentity := f\<rparr>) = waiting p qs s"
  "waiting p qs (s\<lparr>cd_derivedKeepAlive := g\<rparr>) = waiting p qs s" "waiting p qs (s\<lparr>cd_created := h\<rparr>) = waiting p qs s"
  "waiting p qs (s\<lparr>cd_isReconnect := i\<rparr>) = waiting p qs s" "waiting p qs (s\<lparr>cd_window := j\<rparr>) = waiting p qs s"
  "waiting p qs (s\<lparr>cd_deadline := g\<rparr>) = waiting p qs s" "waiting p qs (s\<lparr>cd_ready := k\<rparr>) = waiting p qs s"
  "waiting p qs (s\<lparr>cd_aborted := g\<rparr>) = waiting p qs s" "waiting p qs (s\<lparr>cd_pc := l\<rparr>) = waiting p qs s"
  "waiting p qs (s\<lparr>cd_repl := g\<rparr>) = waiting p qs s" "waiting p qs (s\<lparr>cd_current := g\<rparr>) = waiting p qs s"
  "waiting p qs (s\<lparr>cd_sessions := n\<rparr>) = waiting p qs s"
  by (simp_all add: waiting_def alive_def)

lemma effect_fields [simp]:
  "cd_stopping (effect e s) = cd_stopping s" "cd_handling (effect e s) = cd_handling s" "cd_fatalFired (effect e s) = cd_fatalFired s"
  "cd_attempt (effect e s) = cd_attempt s" "cd_repl (effect e s) = cd_repl s" "cd_current (effect e s) = cd_current s"
  "cd_pendingAckLsn (effect e s) = cd_pendingAckLsn s" "cd_sawSlot (effect e s) = cd_sawSlot s" "cd_pc (effect e s) = cd_pc s"
  "cd_stop (effect e s) = cd_stop s" "cd_resumed (effect e s) = cd_resumed s" "cd_recreate (effect e s) = cd_recreate s"
  "cd_log (effect e s) = cd_log s @ [e]" "cd_window (effect e s) = cd_window s" "cd_created (effect e s) = cd_created s"
  "cd_sessions (effect e s) = cd_sessions s" "cd_wst (effect e s) = cd_wst s" "cd_name (effect e s) = cd_name s"
  by (simp_all add: effect_def)

lemma end_repl_fields [simp]:
  "cd_stopping (end_repl s) = cd_stopping s" "cd_handling (end_repl s) = cd_handling s" "cd_fatalFired (end_repl s) = cd_fatalFired s"
  "cd_attempt (end_repl s) = cd_attempt s" "cd_repl (end_repl s) = cd_repl s" "cd_current (end_repl s) = cd_current s"
  "cd_pendingAckLsn (end_repl s) = cd_pendingAckLsn s" "cd_sawSlot (end_repl s) = cd_sawSlot s" "cd_pc (end_repl s) = cd_pc s"
  "cd_stop (end_repl s) = cd_stop s" "cd_resumed (end_repl s) = cd_resumed s" "cd_recreate (end_repl s) = cd_recreate s"
  by (simp_all add: end_repl_def)

lemma settle_ready_fields [simp]:
  "cd_stopping (settle_ready r s) = cd_stopping s" "cd_handling (settle_ready r s) = cd_handling s" "cd_fatalFired (settle_ready r s) = cd_fatalFired s"
  "cd_attempt (settle_ready r s) = cd_attempt s" "cd_repl (settle_ready r s) = cd_repl s" "cd_current (settle_ready r s) = cd_current s"
  "cd_pendingAckLsn (settle_ready r s) = cd_pendingAckLsn s" "cd_sawSlot (settle_ready r s) = cd_sawSlot s" "cd_pc (settle_ready r s) = cd_pc s"
  "cd_stop (settle_ready r s) = cd_stop s" "cd_resumed (settle_ready r s) = cd_resumed s" "cd_recreate (settle_ready r s) = cd_recreate s"
  "cd_log (settle_ready r s) = cd_log s"
  by (simp_all add: settle_ready_def)


subsection \<open>Every function keeps it\<close>

fun plain :: "cdc_effect \<Rightarrow> bool" where
  "plain (L_ack l) = False" | "plain (L_handled b) = False" | "plain (L_fatal e) = False" | "plain L_stop = False"
| "plain L_session = False" | "plain L_row = False" | "plain (L_created t) = False" | "plain e = True"

lemma plain_effect:
  assumes "plain e"
  shows "acks [e] = []" "handled_lsns [e] = []" "fatals [e] = []" "e \<noteq> L_stop" "sessions_since (xs @ [e]) = sessions_since xs"
    "snd (proto_step e x) = snd x"
  using assms by (cases e; cases x; simp add: log_one since_append)+

lemma waiting_effect:
  assumes "waiting p qs s" "plain e" "Q_wrong \<notin> qs'"
    "\<And>q. q \<in> qs \<Longrightarrow> fst (proto_step e (q, snd (proto (cd_log s)))) \<in> qs'"
  shows "waiting p qs' (effect e s)"
proof -
  have "fst (proto (cd_log s)) \<in> qs" using assms(1) by (simp add: waiting_def)
  from assms(4) [OF this] have "fst (proto_step e (proto (cd_log s))) \<in> qs'" by simp
  with assms plain_effect [OF assms(2)] show ?thesis by (simp add: waiting_def alive_def proto_append)
qed

fun neutral :: "cdc_effect \<Rightarrow> bool" where
  "neutral L_end = True" | "neutral (L_warn_retry n d) = True" | "neutral L_warn_backfill = True"
| "neutral (L_warn_evicted q) = True" | "neutral L_warn_wst = True" | "neutral e = False"

lemma neutral_effect: "neutral e \<Longrightarrow> plain e \<and> proto_step e x = x"
  by (cases e; cases x) simp_all

lemma waiting_neutral: "neutral e \<Longrightarrow> waiting p qs s \<Longrightarrow> waiting p qs (effect e s)"
  by (rule waiting_effect) (auto simp: neutral_effect waiting_def)

lemma waiting_end [intro]: "waiting p qs s \<Longrightarrow> waiting p qs (end_repl s)"
  by (simp add: end_repl_def waiting_neutral)

lemma waiting_ready [simp]: "waiting p qs (settle_ready r s) = waiting p qs s"
  by (simp add: settle_ready_def)

lemma waiting_mono: "waiting p qs s \<Longrightarrow> qs \<subseteq> qs' \<Longrightarrow> Q_wrong \<notin> qs' \<Longrightarrow> waiting p qs' s"
  by (auto simp: waiting_def)

lemma core_attempt: "waiting p qs s \<Longrightarrow> oc_retry p (Suc (cd_attempt s)) e \<noteq> R_give_up \<Longrightarrow>
  waiting p qs (s\<lparr>cd_attempt := Suc (cd_attempt s)\<rparr>) \<and> sessions_since (cd_log s) \<le> Suc (cd_attempt s)"
  by (auto simp: waiting_def alive_def gives_up_at_def not_less_eq_eq)

text \<open>Giving up ends the run with one fatal error.\<close>

definition ending :: "cdc_opts \<Rightarrow> cdc \<Rightarrow> bool" where
  "ending p s \<longleftrightarrow>
     (cd_stop s \<noteq> SP_none) = cd_stopping s \<and> (L_stop \<in> set (cd_log s)) = cd_stopping s \<and>
     \<not> cd_fatalFired s \<and> fatals (cd_log s) = [] \<and> (\<forall>N. gives_up_at N p \<longrightarrow> sessions_since (cd_log s) \<le> N) \<and>
     acks (cd_log s) = handled_lsns (cd_log s) \<and> \<not> cd_current s \<and> cd_stop s \<noteq> SP_handler \<and>
     (cd_stop s = SP_handler_settled True \<longrightarrow> cd_pendingAckLsn s = None) \<and> \<not> stage Q_wrong s"

lemma no_late: "fatals xs = [] \<Longrightarrow> late_fatals xs = []"
proof -
  assume f: "fatals xs = []"
  have "fatals xs = fatals (takeWhile (\<lambda>e. e \<noteq> L_stop) xs) @ late_fatals xs"
    unfolding late_fatals_def log_append(3) [symmetric] by simp
  with f show ?thesis by simp
qed

lemma ending_waiting: "waiting p qs s \<Longrightarrow> \<not> cd_current s \<Longrightarrow> ending p (s\<lparr>cd_attempt := n\<rparr>) \<and> ending p s"
  by (auto simp: ending_def waiting_def alive_def stage_def intro: Suc_leI le_trans)

lemma ending_handler: "handler_wait p b s \<Longrightarrow> \<not> cd_current s \<Longrightarrow> cd_stop s \<noteq> SP_handler \<Longrightarrow> ending p (s\<lparr>cd_attempt := n\<rparr>) \<and> ending p s"
  by (auto simp: ending_def handler_wait_def alive_def stage_def intro: Suc_leI le_trans)

lemma ending_upd [simp]:
  "ending p (s\<lparr>cd_window := j\<rparr>) = ending p s" "ending p (s\<lparr>cd_deadline := g\<rparr>) = ending p s" "ending p (s\<lparr>cd_ready := k\<rparr>) = ending p s"
  "ending p (s\<lparr>cd_pc := l\<rparr>) = ending p s" "ending p (s\<lparr>cd_recreate := a\<rparr>) = ending p s"
  by (simp_all add: ending_def stage_def)

lemma ending_end [intro]: "ending p s \<Longrightarrow> ending p (end_repl s)"
proof -
  have "plain L_end" by simp
  from plain_effect [OF this] show "ending p s \<Longrightarrow> ending p (end_repl s)"
    by (simp add: end_repl_def ending_def stage_def proto_append neutral_effect)
qed

lemma ending_ready [simp]: "ending p (settle_ready r s) = ending p s"
  by (simp add: settle_ready_def)

lemma returned_ok: "ending p s \<Longrightarrow> pc_ok p (returned s)"
  by (auto simp: pc_ok_def returned_def ending_def run_over_def stage_def no_late)

lemma fatal_ok:
  assumes "ending p s" "cd_stopping s \<Longrightarrow> e = CE_recreate_verdict"
  shows "pc_ok p (returned (fireFatal e s))"
proof -
  let ?t = "end_repl (settle_ready (Y_rejected e) s)"
  have t: "ending p ?t" using assms(1) by auto
  have eq: "fireFatal e s = effect (L_fatal e) (?t\<lparr>cd_fatalFired := True\<rparr>)"
    using assms(1) by (simp add: ending_def fireFatal_def settle_ready_def end_repl_def effect_def)
  have st: "cd_stopping ?t = cd_stopping s" by simp
  show ?thesis
    using t assms(2) st unfolding eq
    by (cases "proto (cd_log ?t)")
      (auto simp: pc_ok_def returned_def ending_def run_over_def stage_def no_late late_append log_one since_append proto_append)
qed

lemma consult_ok:
  assumes "never_throws p" "ending p (s\<lparr>cd_attempt := Suc (cd_attempt s)\<rparr>)" "cd_stopping s \<Longrightarrow> e = CE_recreate_verdict"
    "\<And>d. oc_retry p (Suc (cd_attempt s)) e \<noteq> R_give_up \<Longrightarrow> pc_ok p (wait d (s\<lparr>cd_attempt := Suc (cd_attempt s)\<rparr>))"
  shows "pc_ok p (consult p e threw wait s)"
  using assms by (auto simp: consult_def never_throws_def Let_def intro!: fatal_ok split: retry.split)

lemma fail_stopping: "ending p s \<Longrightarrow> cd_stopping s \<Longrightarrow> pc_ok p (fail p e s)"
  by (auto simp: fail_def Let_def intro!: returned_ok)

lemma fail_ok:
  assumes p: "never_throws p" and w: "waiting p qs s" "\<not> cd_current s"
  shows "pc_ok p (fail p e s)"
proof (cases "cd_stopping s")
  case True
  with w ending_waiting show ?thesis by (blast intro: fail_stopping)
next
  case False
  let ?s = "settle_ready (Y_rejected (remap p e)) (end_repl (s\<lparr>cd_window := W_closed, cd_deadline := False\<rparr>))"
  have t: "waiting p qs ?s" "\<not> cd_current ?s" using w by auto
  have "waiting p (UNIV - {Q_wrong}) ?s" using t by (rule_tac waiting_mono) (auto simp: waiting_def)
  note t = this t(2)
  have "pc_ok p (warn_and_wait P_backoff d (?s\<lparr>cd_attempt := Suc (cd_attempt ?s)\<rparr>))"
    if "oc_retry p (Suc (cd_attempt ?s)) (remap p e) \<noteq> R_give_up" for d
    using core_attempt [OF t(1) that] t(2)
    by (auto simp: warn_and_wait_def goto_def pc_ok_def since_append intro!: waiting_neutral)
  with False ending_waiting [OF t] show ?thesis
    by (auto simp: fail_def Let_def intro!: fatal_ok consult_ok [OF p])
qed


lemma unless_ok:
  assumes "never_throws p" "waiting p qs s" "\<not> cd_current s" "\<not> cd_stopping s \<Longrightarrow> pc_ok p (k s)"
  shows "pc_ok p (unless_stopping p k s)"
  using assms by (auto simp: unless_stopping_def intro: fail_ok)

lemma start_ok: "waiting p {q} s \<Longrightarrow> q \<in> {Q_healthy, Q_based} \<Longrightarrow> \<not> cd_current s \<Longrightarrow> cd_repl s \<Longrightarrow> pc_ok p (start_stream p n s)"
  by (auto simp: start_stream_def goto_def pc_ok_def allowed_def intro: waiting_effect)

definition make_pre :: "cdc_opts \<Rightarrow> cdc \<Rightarrow> bool" where
  "make_pre p s \<longleftrightarrow> \<not> cd_current s \<and> cd_repl s \<and>
     (if cd_resumed s \<noteq> None then waiting p {Q_healthy} s
      else waiting p {Q_dropped} s \<or> waiting p {Q_open} s \<and> (durableName p \<noteq> None \<longrightarrow> \<not> cd_sawSlot s))"

lemma make_ok: "make_pre p s \<Longrightarrow> pc_ok p (make_slot p s)"
proof (cases "cd_resumed s = None")
  case False
  assume "make_pre p s"
  with False show ?thesis by (auto simp: make_pre_def make_slot_def intro: start_ok)
next
  case True
  assume m: "make_pre p s"
  have "snd (proto (cd_log s)) \<longrightarrow> cd_sawSlot s \<or> durableName p = None" if "waiting p qs s" for qs
    using that by (auto simp: waiting_def alive_def)
  with m True have "waiting p {Q_creating} (effect (L_create (cd_name s) (durableName p = None)) s)"
    by (auto simp: make_pre_def allowed_def intro!: waiting_effect)
  with m True show ?thesis by (simp add: make_pre_def make_slot_def goto_def pc_ok_def)
qed

lemma drop_ok:
  assumes "waiting p {Q_open, Q_healthy, Q_dropped} s" "\<not> cd_current s" "cd_repl s" "cd_resumed s = None"
  shows "pc_ok p (dropSlot s)"
  using assms by (auto simp: dropSlot_def goto_def pc_ok_def allowed_def intro: waiting_effect)

lemma recreate_ok:
  assumes p: "never_throws p"
    and s: "cd_recreate s = None \<Longrightarrow> make_pre p s"
      "\<And>e. cd_recreate s = Some e \<Longrightarrow> waiting p {Q_open, Q_healthy} s \<and> \<not> cd_current s \<and> cd_repl s \<and> cd_resumed s = None \<and> (cd_stopping s \<longrightarrow> e = CE_recreate_verdict)"
  shows "pc_ok p (maybe_recreate p s)"
proof (cases "cd_recreate s")
  case None
  with s(1) show ?thesis by (simp add: maybe_recreate_def make_ok)
next
  case (Some e)
  have "pc_ok p (goto P_recreate_sleep (s\<lparr>cd_attempt := Suc (cd_attempt s)\<rparr>))" if "oc_retry p (Suc (cd_attempt s)) e \<noteq> R_give_up"
    using core_attempt [OF _ that] s(2) [OF Some] by (auto simp: goto_def pc_ok_def)
  with s(2) [OF Some] ending_waiting Some show ?thesis
    by (auto simp: maybe_recreate_def intro!: consult_ok [OF p])
qed

lemma after_ok:
  assumes p: "never_throws p" and w: "waiting p {q} s" "\<not> cd_current s" "cd_repl s"
    and c: "q = Q_healthy \<and> cd_resumed s \<noteq> None \<and> cd_recreate s = None \<or>
      q = Q_open \<and> cd_resumed s = None \<and> (cd_recreate s \<noteq> None \<or> durableName p = None \<or> \<not> cd_sawSlot s)"
  shows "pc_ok p (after_durable p s)"
  unfolding after_durable_def
proof (rule unless_ok [OF p w(1, 2)])
  assume n: "\<not> cd_stopping s"
  have "pc_ok p (goto P_resume (effect (L_onResume r) (s\<lparr>cd_current := True\<rparr>)))" if "cd_resumed s \<noteq> None" for r
    using that c w by (auto simp: goto_def pc_ok_def allowed_def intro: waiting_effect)
  moreover have "waiting p {Q_open, Q_healthy} s" using w c by (auto intro: waiting_mono)
  then have "pc_ok p (maybe_recreate p s)"
    using w c n by (auto intro!: recreate_ok [OF p] simp: make_pre_def)
  ultimately show "pc_ok p (if cd_resumed s \<noteq> None \<and> oc_onResume p
     then goto P_resume (effect (L_onResume (1 < cd_sessions s)) (s\<lparr>cd_current := True\<rparr>)) else maybe_recreate p s)"
    by simp
qed

text \<open>The checks of a durable slot.\<close>

definition in_checks :: "cdc_opts \<Rightarrow> cdc \<Rightarrow> bool" where
  "in_checks p s \<longleftrightarrow> waiting p {Q_open} s \<and> \<not> cd_current s \<and> cd_repl s \<and> fresh s"

lemma throw_ok: "never_throws p \<Longrightarrow> in_checks p s \<Longrightarrow> pc_ok p (durable_throw p e s)"
  by (auto simp: in_checks_def durable_throw_def intro: fail_ok after_ok [where q = Q_open])

lemma in_checks_upd [simp]:
  "in_checks p (s\<lparr>cd_evictions := n\<rparr>) = in_checks p s" "in_checks p (s\<lparr>cd_lastIdentity := i\<rparr>) = in_checks p s" "in_checks p (s\<lparr>cd_name := d\<rparr>) = in_checks p s"
  "in_checks p (s\<lparr>cd_derivedKeepAlive := g\<rparr>) = in_checks p s" "in_checks p (s\<lparr>cd_wst := e\<rparr>) = in_checks p s"
  by (simp_all add: in_checks_def)

lemma command_ok: "in_checks p s \<Longrightarrow> pc \<in> {P_wst, P_health, P_terminate q, P_poll q} \<Longrightarrow> pc_ok p (cdc_command sql pc s)"
proof -
  assume s: "in_checks p s" and pc: "pc \<in> {P_wst, P_health, P_terminate q, P_poll q}"
  have "waiting p {Q_open} (effect (L_command sql) s)"
    using s by (intro waiting_effect [where qs = "{Q_open}"]) (auto simp: in_checks_def allowed_def)
  with s pc show ?thesis by (auto simp: in_checks_def cdc_command_def goto_def pc_ok_def)
qed

lemma in_checks_neutral: "neutral e \<Longrightarrow> in_checks p s \<Longrightarrow> in_checks p (effect e s)"
  by (simp add: in_checks_def waiting_neutral)

lemma health_read_ok: "in_checks p s \<Longrightarrow> pc_ok p (readSlotHealth s)"
  by (simp add: readSlotHealth_def command_ok)

lemma in_checks_unless: "never_throws p \<Longrightarrow> in_checks p s \<Longrightarrow> (\<not> cd_stopping s \<Longrightarrow> pc_ok p (k s)) \<Longrightarrow> pc_ok p (unless_stopping p k s)"
  by (auto simp: in_checks_def intro: unless_ok)

lemma evict_ok: "never_throws p \<Longrightarrow> in_checks p s \<Longrightarrow> pc_ok p (evict p q s)"
  by (simp add: evict_def throw_ok command_ok split: pid.split)

lemma healthy_ok:
  assumes "never_throws p" "in_checks p s"
  shows "pc_ok p (after_durable p (effect L_healthy (s\<lparr>cd_resumed := Some x\<rparr>)))"
proof -
  have "waiting p {Q_healthy} (effect L_healthy (s\<lparr>cd_resumed := Some x\<rparr>))"
    using assms(2) by (intro waiting_effect [where qs = "{Q_open}"]) (auto simp: in_checks_def allowed_def)
  then show ?thesis using assms by (intro after_ok [where q = Q_healthy]) (auto simp: in_checks_def)
qed

lemma row_ok:
  assumes p: "never_throws p" and s: "in_checks p s"
  shows "pc_ok p (slot_row p h s)"
proof -
  let ?e = "s\<lparr>cd_evictions := Suc (cd_evictions s)\<rparr>"
  have e: "in_checks p ?e" using s by simp
  show ?thesis
    using throw_ok [OF p s] throw_ok [OF p e] evict_ok [OF p e] healthy_ok [OF p s]
    by (simp add: slot_row_def Let_def split: option.split bool.split)
qed

lemma row_seen:
  assumes "in_checks p s"
  shows "in_checks p (effect L_row (s\<lparr>cd_sawSlot := True\<rparr>))"
proof -
  have "proto (cd_log s) = (Q_open, snd (proto (cd_log s)))" using assms by (simp add: in_checks_def waiting_def prod_eq_iff)
  then have "proto (cd_log s @ [L_row]) = (Q_open, True)" by (metis allowed_def list.set_intros(1) proto_append proto_step.simps(4))
  with assms show ?thesis by (simp add: in_checks_def waiting_def alive_def log_one since_append)
qed

lemma answered_ok: "never_throws p \<Longrightarrow> in_checks p s \<Longrightarrow> pc_ok p (health_answered p row s)"
  unfolding health_answered_def
  by (rule in_checks_unless, assumption+)
    (auto simp: row_ok row_seen throw_ok split: option.split intro!: after_ok [where q = Q_open] simp: in_checks_def [of p s])

lemma identified_ok: "never_throws p \<Longrightarrow> in_checks p s \<Longrightarrow> pc_ok p (identified p i s)"
  by (auto simp: identified_def throw_ok health_read_ok intro!: in_checks_unless)

lemma poll_sleep_ok: "in_checks p s \<Longrightarrow> pc_ok p (goto (P_poll_sleep q) s)"
  by (simp add: in_checks_def goto_def pc_ok_def)

lemma polled_ok: "never_throws p \<Longrightarrow> in_checks p s \<Longrightarrow> pc_ok p (polled p q row late s)"
  by (auto simp: polled_def throw_ok poll_sleep_ok in_checks_neutral health_read_ok intro!: in_checks_unless split: option.split)

lemma drop_sleep_ok: "waiting p {Q_dropped} s \<Longrightarrow> \<not> cd_current s \<Longrightarrow> cd_repl s \<Longrightarrow> cd_resumed s = None \<Longrightarrow> pc_ok p (goto P_drop_sleep s)"
  by (simp add: goto_def pc_ok_def)

lemma drop_failed_ok:
  assumes "never_throws p" "waiting p {Q_dropped} s" "\<not> cd_current s" "cd_repl s" "cd_resumed s = None"
  shows "pc_ok p (drop_failed p e late s)"
  using assms by (auto simp: drop_failed_def make_pre_def drop_sleep_ok intro!: unless_ok make_ok intro: fail_ok)

text \<open>The window, the handler, and connecting.\<close>

lemma backfill_call_ok: "waiting p {Q_window} s \<Longrightarrow> cd_repl s \<Longrightarrow> pc_ok p (call_backfill s)"
  by (auto simp: call_backfill_def goto_def pc_ok_def allowed_def split: prod.split intro!: waiting_effect [where qs = "{Q_window}"])

lemma created_ok:
  assumes p: "never_throws p" and s: "waiting p {Q_creating} s" "\<not> cd_current s" "cd_repl s"
  shows "pc_ok p (slot_created p c s)"
proof -
  let ?s = "effect (L_created (durableName p = None)) (s\<lparr>cd_created := c, cd_sawSlot := (durableName p \<noteq> None \<or> cd_sawSlot s)\<rparr>)"
  have "proto (cd_log s) = (Q_creating, snd (proto (cd_log s)))" using s by (simp add: waiting_def prod_eq_iff)
  then have "proto (cd_log s @ [L_created x]) = (Q_window, snd (proto (cd_log s)) \<or> \<not> x)" for x
    by (metis allowed_def list.set_intros(1) proto_append proto_step.simps(9))
  then have w: "waiting p {Q_window} ?s" using s by (auto simp: waiting_def alive_def log_one since_append)
  have "pc_ok p (call_backfill (open_window p ?s))"
    using w s(3) by (intro backfill_call_ok) (simp_all add: open_window_def)
  then show ?thesis unfolding slot_created_def Let_def using s by (intro unless_ok [OF p w]) simp_all
qed

lemma wait_ok:
  assumes p: "never_throws p" and s: "waiting p qs s" "\<not> cd_current s"
    and ok: "\<And>d. waiting p qs (s\<lparr>cd_attempt := Suc (cd_attempt s)\<rparr>) \<Longrightarrow> pc_ok p (wait d (s\<lparr>cd_attempt := Suc (cd_attempt s)\<rparr>))"
  shows "pc_ok p (unless_stopping p (consult p e threw wait) s)"
proof (rule unless_ok [OF p s])
  assume "\<not> cd_stopping s"
  then show "pc_ok p (consult p e threw wait s)"
    using s ok ending_waiting core_attempt by (intro consult_ok [OF p]) blast+
qed

lemma catch_ok:
  assumes "never_throws p" "waiting p {Q_window} s" "\<not> cd_current s" "cd_repl s"
  shows "pc_ok p (backfill_catch p e s)"
proof -
  have "pc_ok p (warn_and_wait P_backfill_sleep d (s\<lparr>cd_attempt := n\<rparr>))" if "waiting p {Q_window} (s\<lparr>cd_attempt := n\<rparr>)" for d n
    using that assms(3, 4) by (simp add: warn_and_wait_def goto_def pc_ok_def waiting_neutral)
  then show ?thesis using assms by (auto simp: backfill_catch_def intro!: wait_ok fail_ok)
qed

lemma backfill_done_ok:
  assumes "never_throws p" "waiting p {Q_window} s" "\<not> cd_current s" "cd_repl s"
  shows "pc_ok p (backfill_done p r s)"
proof -
  let ?s = "s\<lparr>cd_window := W_closed, cd_deadline := False\<rparr>"
  have "waiting p {Q_based} (effect L_backfilled ?s)"
    using assms(2) by (intro waiting_effect [where qs = "{Q_window}"]) (auto simp: allowed_def)
  then have "pc_ok p (start_stream p n (effect L_backfilled ?s))" for n using assms(3, 4) by (intro start_ok [where q = Q_based]) simp_all
  with catch_ok [OF assms] show ?thesis by (simp add: backfill_done_def split: option.split window.split)
qed

lemma call_handler_ok:
  assumes "handler_wait p b s" "cd_stop s \<noteq> SP_handler"
  shows "pc_ok p (call_handler b s)"
proof -
  have "plain (L_handle b)" by simp
  have "proto (cd_log s) = (Q_streaming, snd (proto (cd_log s)))" using assms by (simp add: handler_wait_def stage_def prod_eq_iff)
  then have "proto (cd_log s @ [L_handle b]) = proto (cd_log s)"
    by (metis allowed_def list.set_intros(1) proto_append proto_step.simps(13))
  with assms plain_effect [OF \<open>plain (L_handle b)\<close>] show ?thesis
    by (auto simp: call_handler_def goto_def pc_ok_def handler_wait_def alive_def stage_def)
qed

lemma take_ok:
  assumes "never_throws p" "waiting p {Q_streaming} s" "\<not> cd_current s" "cd_repl s"
  shows "pc_ok p (take_batch p b s)"
  unfolding take_batch_def
proof (rule unless_ok [OF assms(1-3)])
  let ?s = "s\<lparr>cd_handling := True, cd_pendingAckLsn := map_option cf_endLsn (ba_commit b)\<rparr>"
  assume "\<not> cd_stopping s"
  then have "cd_stop s = SP_none" using assms(2) by (simp add: waiting_def alive_def)
  with assms have "handler_wait p b ?s" by (simp add: handler_wait_def waiting_def alive_def stage_def batch_lsn_def)
  with \<open>cd_stop s = SP_none\<close> show "pc_ok p (call_handler b ?s)" by (simp add: call_handler_ok)
qed

lemma handler_failed_ok:
  assumes p: "never_throws p" and h: "handler_wait p b s" "\<not> cd_current s" "cd_stop s \<noteq> SP_handler"
  shows "pc_ok p (unless_stopping p (consult p e (fail p) (warn_and_wait (P_handler_sleep b))) s)"
proof (cases "cd_stopping s")
  case True
  with h ending_handler show ?thesis by (auto simp: unless_stopping_def intro!: fail_stopping)
next
  case False
  have "pc_ok p (warn_and_wait (P_handler_sleep b) d (s\<lparr>cd_attempt := Suc (cd_attempt s)\<rparr>))"
    if "oc_retry p (Suc (cd_attempt s)) e \<noteq> R_give_up" for d
  proof -
    have "plain (L_warn_retry n d)" for n by simp
    from plain_effect [OF this] that h show ?thesis
      by (auto simp: warn_and_wait_def goto_def pc_ok_def handler_wait_def alive_def stage_def proto_append neutral_effect gives_up_at_def not_less_eq_eq)
  qed
  with False ending_handler [OF h] show ?thesis
    by (auto simp: unless_stopping_def intro!: consult_ok [OF p])
qed


lemma ack_effect:
  assumes "alive p s" "stage Q_streaming s"
  shows "alive p (effect (L_ack l) s) \<and> stage Q_streaming (effect (L_ack l) s) \<and> acks (cd_log (effect (L_ack l) s)) = acks (cd_log s) @ [l] \<and>
    handled_lsns (cd_log (effect (L_ack l) s)) = handled_lsns (cd_log s) \<and> sessions_since (cd_log (effect (L_ack l) s)) = 0"
proof -
  have "proto (cd_log s) = (Q_streaming, snd (proto (cd_log s)))" using assms by (simp add: stage_def prod_eq_iff)
  then have "proto (cd_log s @ [L_ack l]) = proto (cd_log s)"
    by (metis allowed_def list.set_intros(1) proto_append proto_step.simps(15))
  with assms show ?thesis by (simp add: alive_def stage_def log_one since_append)
qed

lemma handled_ok:
  assumes "alive p s" "stage Q_streaming s" "cd_repl s" "\<not> cd_current s" "cd_stop s \<noteq> SP_handler"
    "handled_lsns (cd_log s) = acks (cd_log s) @ (case cd_pendingAckLsn s of Some l \<Rightarrow> [l] | None \<Rightarrow> [])"
  shows "pc_ok p (handler_done p b None s)"
proof (cases "cd_pendingAckLsn s")
  case None
  with assms show ?thesis by (simp add: handler_done_def ack_pending_def goto_def pc_ok_def waiting_def stage_def alive_def)
next
  case (Some l)
  let ?s = "effect (L_ack l) s"
  have "gives_up_at N p \<Longrightarrow> 0 < N" for N by (simp add: gives_up_at_def)
  with ack_effect [OF assms(1, 2), of l] have "alive p (?s\<lparr>cd_pendingAckLsn := None, cd_attempt := 0, cd_handling := False, cd_pc := P_next\<rparr>)"
    by (simp add: alive_def)
  with Some assms ack_effect [OF assms(1, 2), of l] show ?thesis
    by (simp add: handler_done_def ack_pending_def goto_def pc_ok_def waiting_def stage_def)
qed

lemma connect_ok:
  assumes "waiting p (UNIV - {Q_wrong}) s" "\<not> cd_current s" "sessions_since (cd_log s) \<le> cd_attempt s"
  shows "pc_ok p (cdc_connect p s)"
proof -
  let ?s = "effect L_session (s\<lparr>cd_sessions := Suc (cd_sessions s), cd_resumed := None, cd_recreate := None, cd_evictions := 0\<rparr>)"
  have "proto (cd_log s @ [L_session]) = proto (cd_log s)" by (cases "proto (cd_log s)") (simp add: proto_append)
  with assms have "waiting p (UNIV - {Q_wrong}) ?s" by (simp add: waiting_def alive_def log_one since_append)
  then have "waiting p {Q_open} (effect (L_connect ka) ?s)" for ka by (rule waiting_effect) auto
  with assms(2) show ?thesis by (simp add: cdc_connect_def goto_def pc_ok_def)
qed

lemma checks_ok:
  assumes p: "never_throws p" and s: "in_checks p s"
  shows "pc_ok p (slot_checks p s)"
proof -
  let ?k = "\<lambda>s. s\<lparr>cd_derivedKeepAlive := (cd_wst s = Some 0 \<and> oc_keepAlive p = None)\<rparr>"
  let ?s = "if cd_wst s = Some 0 then effect L_warn_wst (?k s) else ?k s"
  have t: "in_checks p ?s" using s by (simp add: in_checks_neutral)
  have A: "pc_ok p (goto P_identify (effect L_identify (?s\<lparr>cd_name := n\<rparr>)))" for n
  proof -
    have "waiting p {Q_open} (effect L_identify (?s\<lparr>cd_name := n\<rparr>))"
      using t by (intro waiting_effect [where qs = "{Q_open}"]) (auto simp: in_checks_def allowed_def)
    with t show ?thesis by (auto simp: in_checks_def goto_def pc_ok_def)
  qed
  have B: "pc_ok p (after_durable p (?s\<lparr>cd_name := n\<rparr>))" if "durableName p = None" for n
    using t that by (intro after_ok [OF p, where q = Q_open]) (auto simp: in_checks_def)
  show ?thesis
    by (cases "durableName p") (simp_all only: slot_checks_def Let_def option.case A B)
qed

lemma wst_ok:
  assumes p: "never_throws p" and s: "in_checks p s"
  shows "pc_ok p (wst_answered p n s)"
  unfolding wst_answered_def
proof (rule in_checks_unless [OF p s])
  let ?s = "end_repl (s\<lparr>cd_wst := n\<rparr>)"
  have "waiting p {Q_open} (effect (L_connect (withDerivedKeepAlive p True)) ?s)"
    using s by (intro waiting_effect [where qs = "{Q_open}"]) (auto simp: in_checks_def)
  with s have "pc_ok p (goto P_rekeep (effect (L_connect (withDerivedKeepAlive p True)) ?s))"
    by (auto simp: in_checks_def goto_def pc_ok_def)
  moreover have "pc_ok p (slot_checks p (s\<lparr>cd_wst := n\<rparr>))" using s by (intro checks_ok [OF p]) simp
  ultimately show "pc_ok p (let s1 = s\<lparr>cd_wst := n\<rparr> in if n = Some 0 \<and> oc_keepAlive p = None \<and> \<not> cd_derivedKeepAlive s1
      then goto P_rekeep (effect (L_connect (withDerivedKeepAlive p True)) (end_repl s1)) else slot_checks p s1)"
    unfolding Let_def by - (split if_split, blast)
qed

subsection \<open>Every event keeps it\<close>

lemma settle_current_fields [simp]:
  "cd_stopping (settle_current b s) = cd_stopping s" "cd_log (settle_current b s) = cd_log s" "cd_handling (settle_current b s) = cd_handling s"
  "cd_pendingAckLsn (settle_current b s) = cd_pendingAckLsn s" "cd_repl (settle_current b s) = cd_repl s" "\<not> cd_current (settle_current b s)"
  "cd_resumed (settle_current b s) = cd_resumed s" "cd_recreate (settle_current b s) = cd_recreate s" "cd_stop (settle_current b s) \<noteq> SP_handler"
  "cd_stop (settle_current b s) = SP_none \<longleftrightarrow> cd_stop s = SP_none" "cd_fatalFired (settle_current b s) = cd_fatalFired s" "cd_attempt (settle_current b s) = cd_attempt s"
  "cd_sawSlot (settle_current b s) = cd_sawSlot s" "alive p (settle_current b s) = alive p s"
  by (simp_all add: settle_current_def alive_def split: stop_pc.split)

lemma settle_waiting: "waiting p qs s \<Longrightarrow> waiting p qs (settle_current b s)"
  by (simp add: waiting_def)

lemma handler_resolved:
  assumes "handler_wait p b s"
  shows "pc_ok p (goto (P_handler_done b None) (effect (L_handled b) (settle_current True s)))"
proof -
  have q: "proto (cd_log s) = (Q_streaming, snd (proto (cd_log s)))" using assms by (simp add: handler_wait_def stage_def prod_eq_iff)
  then have "proto (cd_log s @ [L_handled b]) = proto (cd_log s)"
    by (metis allowed_def list.set_intros(1) proto_append proto_step.simps(14))
  with assms show ?thesis
    by (auto simp: goto_def pc_ok_def handler_wait_def alive_def stage_def log_one since_append)
qed

lemma handler_rejected: "handler_wait p b s \<Longrightarrow> pc_ok p (goto (P_handler_done b (Some e)) (settle_current False s))"
  by (auto simp: goto_def pc_ok_def handler_wait_def stage_def alive_def settle_current_def split: stop_pc.splits)

lemma resume_done_ok:
  assumes p: "never_throws p" and s: "waiting p {Q_healthy} s" "\<not> cd_current s" "cd_repl s" "cd_resumed s \<noteq> None" "cd_recreate s = None"
  shows "pc_ok p (resume_done p r s)"
proof -
  have "waiting p {Q_open, Q_healthy} s" by (rule waiting_mono [OF s(1)]) auto
  with s have "pc_ok p (maybe_recreate p (s\<lparr>cd_recreate := Some CE_recreate_verdict, cd_resumed := None\<rparr>))"
    by (intro recreate_ok [OF p]) auto
  moreover have "pc_ok p (maybe_recreate p s)" using s by (intro recreate_ok [OF p]) (auto simp: make_pre_def)
  moreover have "pc_ok p (fail p e s)" for e using s by (intro fail_ok [OF p])
  ultimately show ?thesis by (simp add: resume_done_def split: sum.split)
qed

lemma end_ok: "waiting p qs s \<Longrightarrow> \<not> cd_current s \<Longrightarrow> pc_ok p (returned (end_repl s))"
  using ending_waiting by (blast intro: returned_ok)

lemma stop_before_connect: "waiting p qs s \<Longrightarrow> \<not> cd_current s \<Longrightarrow> pc_ok p (returned s)"
  using ending_waiting by (blast intro: returned_ok)


lemmas run_ok = unless_ok fail_ok command_ok wst_ok checks_ok identified_ok throw_ok answered_ok polled_ok resume_done_ok drop_ok make_ok
  drop_failed_ok created_ok backfill_done_ok backfill_call_ok take_ok end_ok handler_resolved handler_rejected handled_ok handler_failed_ok
  connect_ok stop_before_connect

lemma run_resumes_ok:
  assumes p: "never_throws p" and s: "pc_ok p s" and r: "run_resumes p (cd_pc s) a s = Some t"
  shows "pc_ok p t"
proof (cases "cd_pc s")
  case P_start with s r show ?thesis by (auto simp: run_resumes_def pc_ok_def [of p s] intro: run_ok split: cdc_answer.splits if_splits)
next
  case P_connect
  then have w: "waiting p {Q_open} s" "\<not> cd_current s" "in_checks p (s\<lparr>cd_repl := True\<rparr>)"
    using s by (simp_all add: pc_ok_def in_checks_def)
  with P_connect r p show ?thesis
    by (auto simp: run_resumes_def intro: in_checks_unless command_ok fail_ok split: cdc_answer.splits)
next
  case P_wst
  then have "in_checks p s" using s by (simp add: pc_ok_def in_checks_def)
  with P_wst r p show ?thesis by (auto simp: run_resumes_def in_checks_def [of p s] intro: wst_ok fail_ok split: cdc_answer.splits)
next
  case P_rekeep
  then have w: "waiting p {Q_open} s" "\<not> cd_current s" "in_checks p (s\<lparr>cd_repl := True\<rparr>)"
    using s by (simp_all add: pc_ok_def in_checks_def)
  with P_rekeep r p show ?thesis
    by (auto simp: run_resumes_def intro: in_checks_unless checks_ok fail_ok split: cdc_answer.splits)
next
  case P_identify
  then have "in_checks p s" using s by (simp add: pc_ok_def in_checks_def)
  with P_identify r p show ?thesis by (auto simp: run_resumes_def intro: identified_ok throw_ok split: cdc_answer.splits)
next
  case P_health
  then have "in_checks p s" using s by (simp add: pc_ok_def in_checks_def)
  with P_health r p show ?thesis by (auto simp: run_resumes_def intro: answered_ok throw_ok split: cdc_answer.splits)
next
  case (P_terminate q)
  then have "in_checks p s" using s by (simp add: pc_ok_def in_checks_def)
  with P_terminate r p show ?thesis by (auto simp: run_resumes_def intro: command_ok throw_ok split: cdc_answer.splits)
next
  case (P_poll q)
  then have "in_checks p s" using s by (simp add: pc_ok_def in_checks_def)
  with P_poll r p show ?thesis by (auto simp: run_resumes_def intro: polled_ok throw_ok split: cdc_answer.splits)
next
  case (P_poll_sleep q)
  then have "in_checks p s" using s by (simp add: pc_ok_def in_checks_def)
  with P_poll_sleep r p show ?thesis by (auto simp: run_resumes_def intro: command_ok split: cdc_answer.splits)
next
  case P_resume
  with s r show ?thesis
    by (auto simp: run_resumes_def pc_ok_def goto_def settle_waiting split: cdc_answer.splits)
next
  case (P_resume_done x)
  with s r p show ?thesis by (auto simp: run_resumes_def pc_ok_def [of p s] intro: resume_done_ok split: cdc_answer.splits)
next
  case P_recreate_sleep
  with s have w: "waiting p {Q_open, Q_healthy} s" "\<not> cd_current s" "cd_repl s" "cd_resumed s = None" by (simp_all add: pc_ok_def)
  then have "waiting p {Q_open, Q_healthy, Q_dropped} s" by (auto intro: waiting_mono)
  with w P_recreate_sleep r p show ?thesis by (auto simp: run_resumes_def intro: unless_ok drop_ok split: cdc_answer.splits)
next
  case P_drop
  with s have w: "waiting p {Q_dropped} s" "\<not> cd_current s" "cd_repl s" "cd_resumed s = None" by (simp_all add: pc_ok_def)
  then have "make_pre p s" by (simp add: make_pre_def)
  with w P_drop r p show ?thesis by (auto simp: run_resumes_def intro: unless_ok make_ok drop_failed_ok split: cdc_answer.splits)
next
  case P_drop_sleep
  with s have w: "waiting p {Q_dropped} s" "\<not> cd_current s" "cd_repl s" "cd_resumed s = None" by (simp_all add: pc_ok_def)
  then have "waiting p {Q_open, Q_healthy, Q_dropped} s" by (auto intro: waiting_mono)
  with w P_drop_sleep r p show ?thesis by (auto simp: run_resumes_def intro: drop_ok split: cdc_answer.splits)
next
  case P_create
  with s r p show ?thesis by (auto simp: run_resumes_def pc_ok_def [of p s] intro: created_ok fail_ok split: cdc_answer.splits)
next
  case P_backfill
  with s r show ?thesis by (auto simp: run_resumes_def pc_ok_def goto_def settle_waiting split: cdc_answer.splits)
next
  case (P_backfill_done x)
  with s r p show ?thesis by (auto simp: run_resumes_def pc_ok_def [of p s] intro: backfill_done_ok split: cdc_answer.splits)
next
  case P_backfill_sleep
  with s r p show ?thesis by (auto simp: run_resumes_def pc_ok_def [of p s] intro: unless_ok backfill_call_ok split: cdc_answer.splits)
next
  case P_next
  with s r p show ?thesis by (auto simp: run_resumes_def pc_ok_def [of p s] intro: take_ok end_ok fail_ok split: cdc_answer.splits)
next
  case (P_handler b)
  with s r show ?thesis by (auto simp: run_resumes_def pc_ok_def [of p s] intro: handler_resolved handler_rejected split: cdc_answer.splits)
next
  case (P_handler_done b x)
  with s r p show ?thesis
    by (cases x) (auto simp: run_resumes_def pc_ok_def [of p s] handler_done_def [of p b "Some e" for e] intro: handled_ok handler_failed_ok split: cdc_answer.splits)
next
  case (P_handler_sleep b)
  with s have w: "handler_wait p b s" "\<not> cd_current s" "cd_stop s \<noteq> SP_handler" by (simp_all add: pc_ok_def)
  have "pc_ok p (unless_stopping p (call_handler b) s)"
    using w ending_handler [OF w] by (auto simp: unless_stopping_def intro: fail_stopping call_handler_ok)
  with P_handler_sleep r show ?thesis by (auto simp: run_resumes_def split: cdc_answer.splits)
next
  case P_backoff with s r show ?thesis by (auto simp: run_resumes_def pc_ok_def [of p s] intro: run_ok split: cdc_answer.splits if_splits)
next
  case P_returned with r show ?thesis by (simp add: run_resumes_def)
qed


text \<open>What the invariant reads of a state.\<close>

definition same_view :: "cdc \<Rightarrow> cdc \<Rightarrow> bool" where
  "same_view s t \<longleftrightarrow> cd_pc t = cd_pc s \<and> cd_handling t = cd_handling s \<and> cd_fatalFired t = cd_fatalFired s \<and> cd_attempt t = cd_attempt s \<and>
     cd_repl t = cd_repl s \<and> cd_current t = cd_current s \<and> cd_sawSlot t = cd_sawSlot s \<and> cd_resumed t = cd_resumed s \<and> cd_recreate t = cd_recreate s \<and>
     handled_lsns (cd_log t) = handled_lsns (cd_log s) \<and> fatals (cd_log t) = fatals (cd_log s) \<and> proto (cd_log t) = proto (cd_log s)"

lemmas pc_ok_defs = pc_ok_def waiting_def handler_wait_def run_over_def alive_def stage_def same_view_def

lemma same_ok:
  assumes "same_view s t" "pc_ok p s" "cd_stop t = cd_stop s" "cd_stopping t = cd_stopping s" "L_stop \<in> set (cd_log t) \<longleftrightarrow> L_stop \<in> set (cd_log s)"
    "cd_pendingAckLsn t = cd_pendingAckLsn s" "acks (cd_log t) = acks (cd_log s)" "late_fatals (cd_log t) = late_fatals (cd_log s)"
    "sessions_since (cd_log t) = sessions_since (cd_log s)"
  shows "pc_ok p t"
proof (cases "cd_pc s")
  case (P_handler_done b r)
  with assms show ?thesis by (cases r) (auto simp: pc_ok_defs)
qed (use assms in \<open>simp_all add: pc_ok_defs\<close>)

lemma abort_fields [simp]: "cd_stopping (abort_controller s) = cd_stopping s"
  by (simp add: abort_controller_def)

lemma neutral_ok:
  assumes "neutral e" "pc_ok p s"
  shows "pc_ok p (effect e s)"
proof -
  have e: "plain e" "proto (cd_log s @ [e]) = proto (cd_log s)" using neutral_effect [OF assms(1)] by (simp_all add: proto_append)
  have "late_fatals (cd_log s) = []" if "L_stop \<notin> set (cd_log s)"
  proof -
    from that have "dropWhile (\<lambda>e. e \<noteq> L_stop) (cd_log s) = []" by auto
    then show ?thesis by (simp only: late_fatals_def) (simp add: fatals_def)
  qed
  then have "late_fatals (cd_log s @ [e]) = late_fatals (cd_log s)" using plain_effect(3) [OF e(1)] by (simp add: late_append)
  with e plain_effect [OF e(1)] assms(2) show ?thesis
    by (intro same_ok [of s "effect e s" p]) (simp_all add: same_view_def)
qed

lemma ready_ok: "pc_ok p s \<Longrightarrow> pc_ok p (settle_ready r s)"
  by (rule same_ok [of s]) (simp_all add: same_view_def)

lemma window_ok: "pc_ok p s \<Longrightarrow> pc_ok p (s\<lparr>cd_deadline := d, cd_window := w\<rparr>)"
  by (rule same_ok [of s]) (simp_all add: same_view_def)

lemma deadline_ok: "pc_ok p s \<Longrightarrow> pc_ok p (s\<lparr>cd_deadline := d\<rparr>)"
  by (rule same_ok [of s]) (simp_all add: same_view_def)

lemma abort_ok: "pc_ok p s \<Longrightarrow> pc_ok p (abort_controller s)"
  by (rule same_ok [of s]) (simp_all add: same_view_def abort_controller_def)

lemma stop_done_ok: "pc_ok p s \<Longrightarrow> cd_stopping s \<Longrightarrow> pc_ok p (s\<lparr>cd_stop := SP_done\<rparr>)"
  by (cases "cd_pc s") (auto simp: pc_ok_defs split: option.splits)

lemma stop_ends_ok: "pc_ok p s \<Longrightarrow> cd_stopping s \<Longrightarrow> pc_ok p (stop_ends s)"
  by (auto simp: stop_ends_def end_repl_def intro!: stop_done_ok neutral_ok)

lemma stop_mark_ok:
  assumes "pc_ok p s" "cd_stop s = SP_none" "k \<in> {SP_done, SP_other} \<or> k = SP_handler \<and> cd_handling s \<and> cd_current s"
  shows "pc_ok p (effect L_stop (s\<lparr>cd_stopping := True, cd_stop := k\<rparr>))"
proof -
  have "proto (cd_log s @ [L_stop]) = proto (cd_log s)" by (cases "proto (cd_log s)") (simp add: proto_append)
  moreover have "L_stop \<notin> set (cd_log s)" using assms(1, 2) by (cases "cd_pc s") (auto simp: pc_ok_defs split: option.splits)
  ultimately show ?thesis
    using assms by (cases "cd_pc s") (auto simp: pc_ok_defs log_one since_append late_append split: option.splits)
qed

lemma doStop_ok:
  assumes "pc_ok p s" "cd_stop s = SP_none"
  shows "pc_ok p (doStop s)"
proof -
  let ?s = "settle_ready (Y_rejected CE_stopped_early) s"
  let ?m = "\<lambda>k. effect L_stop (?s\<lparr>cd_stopping := True, cd_stop := k\<rparr>)"
  have r: "settle_ready y (s\<lparr>cd_stopping := True\<rparr>) = (settle_ready y s)\<lparr>cd_stopping := True\<rparr>" for y by (simp add: settle_ready_def)
  have m: "pc_ok p (?m k)" if "k \<in> {SP_done, SP_other} \<or> k = SP_handler \<and> cd_handling s \<and> cd_current s" for k
    using that assms by (intro stop_mark_ok ready_ok) simp_all
  have a: "pc_ok p (stop_ends (abort_controller (?m SP_done)))" "pc_ok p (abort_controller (?m SP_other))"
    using m [of SP_done] m [of SP_other] by (auto intro!: stop_ends_ok abort_ok)
  have e: "stop_ends (abort_controller (effect L_stop (?s\<lparr>cd_stopping := True\<rparr>))) = stop_ends (abort_controller (?m SP_done))"
    "(abort_controller (effect L_stop (?s\<lparr>cd_stopping := True\<rparr>)))\<lparr>cd_stop := SP_other\<rparr> = abort_controller (?m SP_other)"
    "(effect L_stop (?s\<lparr>cd_stopping := True\<rparr>))\<lparr>cd_stop := SP_handler\<rparr> = ?m SP_handler"
    by (simp_all add: stop_ends_def end_repl_def effect_def abort_controller_def)
  have c: "cd_current (abort_controller (effect L_stop (?s\<lparr>cd_stopping := True\<rparr>))) = cd_current s" by (simp add: abort_controller_def)
  show ?thesis
    unfolding doStop_def r Let_def e c using m [of SP_handler] a by simp
qed

lemma stop_resumes_ok:
  assumes s: "pc_ok p s"
  shows "pc_ok p (stop_resumes s)"
proof -
  have stp: "cd_stop s \<noteq> SP_none \<Longrightarrow> cd_stopping s" using s by (cases "cd_pc s") (auto simp: pc_ok_defs split: option.splits)
  have ab: "cd_stopping s \<Longrightarrow> pc_ok p (stop_ends (abort_controller s))" "cd_stopping s \<Longrightarrow> pc_ok p (stop_ends s)"
    using s by (auto intro!: stop_ends_ok abort_ok)
  have "pc_ok p (stop_ends (abort_controller ((if cd_repl s then effect (L_ack l) s else s)\<lparr>cd_pendingAckLsn := None\<rparr>)))"
    if l: "cd_pendingAckLsn s = Some l" and k: "cd_stop s = SP_handler_settled True" for l
  proof -
    obtain b where b: "cd_pc s = P_handler_done b None"
      using s l k by (cases "cd_pc s") (auto simp: pc_ok_defs split: option.splits)
    then have c: "alive p s" "stage Q_streaming s" "cd_repl s" "\<not> cd_current s" "handled_lsns (cd_log s) = acks (cd_log s) @ [l]"
      using s l by (simp_all add: pc_ok_def)
    have "pc_ok p ((effect (L_ack l) s)\<lparr>cd_pendingAckLsn := None\<rparr>)"
      using b c k ack_effect [OF c(1, 2), of l] by (simp add: pc_ok_def alive_def stage_def)
    with c(3) stp k show ?thesis by (auto intro!: stop_ends_ok abort_ok)
  qed
  with ab stp show ?thesis by (auto simp: stop_resumes_def Let_def s split: stop_pc.split option.split)
qed

lemma cdc_apply_ok: "never_throws p \<Longrightarrow> pc_ok p s \<Longrightarrow> pc_ok p (cdc_apply p ev s)"
  by (auto simp: cdc_apply_def split: cdc_event.split option.split
      intro!: doStop_ok stop_resumes_ok neutral_ok window_ok deadline_ok ready_ok intro: run_resumes_ok)

lemma new_ok: "pc_ok p new_cdc"
  by (simp add: pc_ok_defs new_cdc_def acks_def handled_lsns_def fatals_def proto_def sessions_since_def gives_up_at_def)

interpretation cdc_inv: invariant_of cdc_init "cdc_step p" "\<lambda>s. never_throws p \<longrightarrow> pc_ok p s" for p
  by unfold_locales (auto simp: cdc_init_def cdc_step_def new_ok cdc_apply_ok)

lemma reached_ok: "reach cdc_init (cdc_step p) s \<Longrightarrow> never_throws p \<Longrightarrow> pc_ok p s"
  using cdc_inv.reach_inv by blast

lemma reach_cdc_run: "reach cdc_init (cdc_step p) s \<Longrightarrow> reach cdc_init (cdc_step p) (cdc_run p evs s)"
proof (induction evs arbitrary: s)
  case (Cons e evs)
  have "reach cdc_init (cdc_step p) (cdc_apply p e s)"
    by (rule reach_step [OF Cons.prems]) (auto simp: cdc_step_def)
  from Cons.IH [OF this] show ?case by (simp add: cdc_run_def)
qed (simp add: cdc_run_def)

lemma reach_new_cdc: "reach cdc_init (cdc_step p) (cdc_run p evs new_cdc)"
  by (rule reach_cdc_run, rule reach_init) (simp add: cdc_init_def)

subsection \<open>Acknowledgement\<close>

text \<open>C21: Every transaction whose handler resolved is acknowledged exactly once, in order, and nothing else ever is:
  in every state that sessions, failures, retries and \<open>stop()\<close> can reach in any interleaving, the positions
  acknowledged so far are those of the resolved handler calls, except that the last one may still be about
  to be, in the step after its handler. This needs a \<open>retryDelayMs\<close> that does not throw.\<close>

theorem cdc_acks_exact:
  assumes "reach cdc_init (cdc_step p) s" "never_throws p"
  shows "handled_lsns (cd_log s) = acks (cd_log s) \<or>
    (\<exists>b l. cd_pc s = P_handler_done b None \<and> handled_lsns (cd_log s) = acks (cd_log s) @ [l])"
  using reached_ok [OF assms] by (cases "cd_pc s") (auto simp: pc_ok_defs split: option.splits)

definition demo_batch :: batch where
  "demo_batch = \<lparr>ba_xid = 7, ba_events = [], ba_commit = Some \<lparr>cf_lsn = asc ''0/1'', cf_endLsn = asc ''0/2'', cf_time = DNull, cf_timeUs = NaN\<rparr>\<rparr>"

definition demo_cdc :: cdc_opts where
  "demo_cdc = \<lparr>oc_slot = S_durable (asc ''s''), oc_publications = [asc ''p''], oc_backfillTimeoutMs = None, oc_statusIntervalMs = None,
     oc_receiveTimeoutMs = None, oc_keepAlive = None, oc_evict = False, oc_recreate = False, oc_onResume = False,
     oc_retry = defaultRetryDelayMs 0, oc_random = (\<lambda>n. [])\<rparr>"

definition demo_row :: health where
  "demo_row = \<lparr>h_active = False, h_active_pid = None, h_lost = False, h_confirmed_flush_lsn = Some (asc ''0/1''), h_restart_lsn = asc ''0/1''\<rparr>"

definition to_health :: "cdc_event list" where
  "to_health = map E_run [A_ok, A_setting (Some 60000), A_identity (asc ''1'') 1]"

lemma default_never_throws: "never_throws demo_cdc" "gives_up_at 10 demo_cdc"
  by (simp_all add: never_throws_def gives_up_at_def demo_cdc_def defaultRetryDelayMs_def)

lemmas cdc_eval = cdc_run_def cdc_apply_def run_resumes_def cdc_connect_def unless_stopping_def cdc_command_def wst_answered_def slot_checks_def
  identified_def readSlotHealth_def health_answered_def slot_row_def after_durable_def durable_throw_def maybe_recreate_def make_slot_def start_stream_def
  slot_created_def open_window_def call_backfill_def backfill_done_def take_batch_def call_handler_def handler_done_def ack_pending_def settle_current_def
  fail_def consult_def warn_and_wait_def fireFatal_def returned_def remap_def isRecreatable_def resume_done_def doStop_def stop_resumes_def stop_ends_def
  abort_controller_def end_repl_def settle_ready_def effect_def goto_def new_cdc_def durableName_def Let_def to_health_def demo_row_def

theorem cdc_acks_exact_witness:
  "\<exists>s. reach cdc_init (cdc_step demo_cdc) s \<and> handled_lsns (cd_log s) = [asc ''0/2''] \<and> acks (cd_log s) = [asc ''0/2'']"
proof -
  let ?s = "cdc_run demo_cdc ([E_run A_go] @ to_health @ map E_run [A_health (Some demo_row), A_batch demo_batch, A_ok, A_go]) new_cdc"
  have r: "reach cdc_init (cdc_step demo_cdc) ?s" by (rule reach_new_cdc)
  have e: "handled_lsns (cd_log ?s) = [asc ''0/2'']" "cd_pc ?s = P_next"
    by (simp_all add: cdc_eval demo_cdc_def demo_batch_def handled_lsns_def batch_lsn_def)
  with cdc_acks_exact [OF r default_never_throws(1)] r show ?thesis by auto
qed

subsection \<open>The protocol\<close>



text \<open>What is sent on a connection, or opens one.\<close>

fun on_wire :: "cdc_effect \<Rightarrow> bool" where
  "on_wire (L_connect ka) = True" | "on_wire (L_command c) = True" | "on_wire L_identify = True" | "on_wire (L_drop n) = True"
| "on_wire (L_create n x) = True" | "on_wire (L_start n x y) = True" | "on_wire e = False"

definition silent :: "cdc_effect list \<Rightarrow> bool" where
  "silent es \<longleftrightarrow> \<not> list_ex on_wire es"




lemma silent_snoc [simp]: "silent (es @ [e]) \<longleftrightarrow> silent es \<and> \<not> on_wire e" "silent []"
  by (simp_all add: silent_def)











subsection \<open>Giving up\<close>



text \<open>That exception is real: with \<open>onResume\<close> answering \<open>'recreate'\<close> to a session that is being stopped, and no
  retry left, \<open>onFatalError\<close> is called after \<open>stop()\<close>, which is documented never to fire it.\<close>

lemma cdc_stop_then_fatal:
  "\<exists>p s. never_throws p \<and> reach cdc_init (cdc_step p) s \<and> late_fatals (cd_log s) = [CE_recreate_verdict]"
proof -
  let ?p = "demo_cdc\<lparr>oc_onResume := True, oc_retry := (\<lambda>n e. R_give_up)\<rparr>"
  let ?s = "cdc_run ?p ([E_run A_go] @ to_health @ [E_run (A_health (Some demo_row)), E_stop, E_run (A_verdict True), E_stop_resumes, E_run A_go]) new_cdc"
  have "never_throws ?p" by (simp add: never_throws_def)
  moreover have "reach cdc_init (cdc_step ?p) ?s" by (rule reach_new_cdc)
  moreover have "late_fatals (cd_log ?s) = [CE_recreate_verdict]"
    by (simp add: cdc_eval demo_cdc_def late_fatals_def fatals_def)
  ultimately show ?thesis by blast
qed

text \<open>C24: The retry budget bounds the sessions: under a policy that gives up at attempt \<open>N\<close> at the latest, at most
  \<open>N\<close> sessions are begun without an acknowledgement between them. The default policy gives up at 10.\<close>

theorem cdc_budget:
  assumes "reach cdc_init (cdc_step p) s" "never_throws p" "gives_up_at N p"
  shows "sessions_since (cd_log s) \<le> N"
  using reached_ok [OF assms(1, 2)] assms(3)
  by (cases "cd_pc s") (auto simp: pc_ok_defs split: option.splits intro: Suc_leI le_trans)

lemma default_policy: "oc_retry p = defaultRetryDelayMs r \<Longrightarrow> never_throws p \<and> gives_up_at 10 p"
  by (simp add: never_throws_def gives_up_at_def defaultRetryDelayMs_def)

theorem cdc_budget_witness:
  "\<exists>s. reach cdc_init (cdc_step demo_cdc) s \<and> sessions_since (cd_log s) = 2 \<and> sessions_since (cd_log s) \<le> 10"
proof -
  let ?s = "cdc_run demo_cdc (map E_run [A_go, A_threw (CE_other 0), A_ok]) new_cdc"
  have r: "reach cdc_init (cdc_step demo_cdc) ?s" by (rule reach_new_cdc)
  have "sessions_since (cd_log ?s) = 2" by (simp add: cdc_eval demo_cdc_def defaultRetryDelayMs_def) (simp add: sessions_since_def)
  with cdc_budget [OF r default_never_throws] r show ?thesis by blast
qed

subsection \<open>Runs that lose the baseline\<close>

fun is_backfill :: "cdc_effect \<Rightarrow> bool" where
  "is_backfill (L_backfill sn l r) = True"
| "is_backfill _ = False"

text \<open>A durable slot can be streamed although its baseline was never read: when the connection dies after the
  server has created the slot and before the answer arrives, the next session finds the slot healthy and
  resumes it. The handle streams and acknowledges, and \<open>backfill\<close> is never called.\<close>

theorem cdc_lost_create:
  "\<exists>s. reach cdc_init (cdc_step demo_cdc) s \<and> L_create (asc ''s'') False \<in> set (cd_log s) \<and> acks (cd_log s) = [asc ''0/2''] \<and>
    list_ex is_backfill (cd_log s) = False"
proof -
  let ?s = "cdc_run demo_cdc ([E_run A_go] @ to_health @ map E_run [A_health None, A_threw (CE_other 0), A_ok] @ to_health @
      map E_run [A_health (Some demo_row), A_batch demo_batch, A_ok, A_go]) new_cdc"
  have "reach cdc_init (cdc_step demo_cdc) ?s" by (rule reach_new_cdc)
  moreover have "L_create (asc ''s'') False \<in> set (cd_log ?s)" "acks (cd_log ?s) = [asc ''0/2'']" "list_ex is_backfill (cd_log ?s) = False"
    by (simp_all add: cdc_eval demo_cdc_def demo_batch_def defaultRetryDelayMs_def acks_def)
  ultimately show ?thesis by blast
qed

text \<open>A \<open>retryDelayMs\<close> that throws out of the handler's retry leaves \<open>handling\<close> and the pending position behind; \<open>stop()\<close>
  in the next session then waits for \<open>onResume\<close> or \<open>backfill\<close> without aborting it first, and acknowledges a
  transaction whose handler has never resolved.\<close>

lemma throwing_policy_acks_unhandled:
  "\<exists>p s. reach cdc_init (cdc_step p) s \<and> acks (cd_log s) = [asc ''0/2''] \<and> handled_lsns (cd_log s) = []"
proof -
  let ?p = "demo_cdc\<lparr>oc_retry := (\<lambda>n e. if n = 1 then R_throws (CE_other 1) else R_delay 0), oc_onResume := True\<rparr>"
  let ?s = "cdc_run ?p ([E_run A_go] @ to_health @ map E_run [A_health (Some demo_row), A_verdict False, A_go, A_batch demo_batch, A_threw (CE_other 0), A_go, A_ok] @
      to_health @ [E_run (A_health (Some demo_row)), E_stop, E_run (A_verdict False), E_stop_resumes]) new_cdc"
  have "reach cdc_init (cdc_step ?p) ?s" by (rule reach_new_cdc)
  moreover have "acks (cd_log ?s) = [asc ''0/2''] \<and> handled_lsns (cd_log ?s) = []"
    by (simp add: cdc_eval demo_cdc_def demo_batch_def acks_def handled_lsns_def)
  ultimately show ?thesis by blast
qed

end
