(* ===== verification/Shape_Cols.thy ===== *)
theory Shape_Cols
  imports Json_Spec Encode_Binary
begin

section \<open>Row shapes (src/spec.ts): types to columns\<close>

text \<open>
  The type-name tables, parameter types, and \<open>shapeCols\<close>: a declared row shape becomes the list of
  columns the decoders are planned from. A shape is an object literal or a list of entries whose
  values are types, JSON markers, registry markers, transforms of types, nullable wrappers, or
  groups. Type names are ASCII texts; names every JavaScript object inherits (\<open>constructor\<close>,
  \<open>__proto__\<close>) are outside the tables' model.
\<close>

subsection \<open>Tables\<close>

definition TYPE_OID :: "string \<Rightarrow> int option" where
  "TYPE_OID = map_of
     [(''int2'', 21), (''smallint'', 21), (''int4'', 23), (''int'', 23), (''integer'', 23), (''serial'', 23), (''oid'', 26),
      (''int8'', 20), (''bigint'', 20), (''float4'', 700), (''real'', 700), (''float8'', 701), (''double precision'', 701),
      (''numeric'', 1700), (''decimal'', 1700), (''money'', 790), (''bool'', 16), (''boolean'', 16),
      (''text'', 25), (''varchar'', 1043), (''bpchar'', 1042), (''char'', 18), (''name'', 19),
      (''json'', 114), (''jsonb'', 3802), (''bytea'', 17), (''uuid'', 2950),
      (''date'', 1082), (''time'', 1083), (''timestamp'', 1114), (''timestamptz'', 1184), (''interval'', 1186), (''point'', 600),
      (''line'', 628), (''box'', 603)]"

definition ARRAY_OID :: "int \<Rightarrow> int option" where
  "ARRAY_OID = map_of
     [(16, 1000), (21, 1005), (23, 1007), (26, 1028), (20, 1016), (700, 1021), (701, 1022), (1700, 1231), (790, 791),
      (25, 1009), (1043, 1015), (1042, 1014), (18, 1002), (19, 1003), (114, 199), (3802, 3807), (17, 1001), (2950, 2951),
      (1082, 1182), (1083, 1183), (1114, 1115), (1184, 1185), (1186, 1187), (628, 629), (600, 1017), (603, 1020)]"

definition BINARY_FAST :: "int list" where
  "BINARY_FAST = [21, 23, 26, 20, 701, 1082, 1114, 1184, 17]"

definition EXT_VECTOR :: int where "EXT_VECTOR = - 1000"
definition EXT_HALFVEC :: int where "EXT_HALFVEC = - 1002"
definition EXT_SPARSEVEC :: int where "EXT_SPARSEVEC = - 1003"

subsection \<open>Parameter types\<close>

datatype param_type = PT_oid int | PT_name string

definition paramTypeOid :: "param_type \<Rightarrow> js_error + int" where
  "paramTypeOid t = (case t of
       PT_oid n \<Rightarrow> Inr n
     | PT_name s \<Rightarrow>
         (case TYPE_OID (to_lower (if ends_array s then drop_array s else s)) of
            None \<Rightarrow> Inl (UnknownType s)
          | Some base \<Rightarrow>
              if \<not> ends_array s then Inr base
              else case ARRAY_OID base of Some a \<Rightarrow> Inr a | None \<Rightarrow> Inl (NoArrayType s)))"

definition resolveParamTypes :: "param_type list \<Rightarrow> js_error + int list" where
  "resolveParamTypes ts = rmap paramTypeOid ts"

subsection \<open>Shapes\<close>

record custom_marker =
  cm_oid :: int
  cm_target :: "string option"
  cm_isArray :: bool

datatype shape_leaf = L_type string | L_json json_marker | L_custom custom_marker

type_synonym xform = "nat \<times> (dval \<Rightarrow> dres)"

text \<open>\<open>Collect(spec)\<close> and \<open>CollectNullable(spec)\<close> are groups; any other value is a leaf, possibly inside
  \<open>Transform\<close> and that inside \<open>Nullable\<close>.\<close>

datatype shape_value =
    SV_collect bool bool "(jsstr \<times> shape_value) list"   \<comment> \<open>nullable, object literal, fields\<close>
  | SV_leaf bool "xform option" shape_leaf                     \<comment> \<open>nullable, transform\<close>

type_synonym shape = "(jsstr \<times> shape_value) list"

record ccol =
  co_name :: jsstr
  co_oid :: int
  co_js :: "string option"
  co_json :: "json_marker option"
  co_binary :: bool
  co_array :: "(int \<times> string option) option"
  co_path :: "jsstr list"
  co_groupNullable :: "bool list"
  co_xform :: "xform option"
  co_nullable :: bool

definition leaf_col :: "jsstr \<Rightarrow> int \<Rightarrow> string option \<Rightarrow> ccol" where
  "leaf_col nm oid js = \<lparr>co_name = nm, co_oid = oid, co_js = js, co_json = None, co_binary = False, co_array = None,
     co_path = [], co_groupNullable = [], co_xform = None, co_nullable = False\<rparr>"

definition ext_oid :: "string \<Rightarrow> int option" where
  "ext_oid base = (if base = ''vector'' then Some EXT_VECTOR else if base = ''halfvec'' then Some EXT_HALFVEC
     else if base = ''sparsevec'' then Some EXT_SPARSEVEC else None)"

definition array_col :: "jsstr \<Rightarrow> string \<Rightarrow> string option \<Rightarrow> js_error + ccol" where
  "array_col nm elemName js =
     (case ext_oid elemName of
        Some e \<Rightarrow> Inr ((leaf_col nm e None)\<lparr>co_array := Some (e, js)\<rparr>)
      | None \<Rightarrow>
          (case TYPE_OID elemName of
             None \<Rightarrow> Inl (UnknownType elemName)
           | Some e \<Rightarrow> (case ARRAY_OID e of
               None \<Rightarrow> Inl (NoArrayType elemName)
             | Some a \<Rightarrow> Inr ((leaf_col nm a None)\<lparr>co_array := Some (e, js)\<rparr>))))"

definition wants_binary :: "int \<Rightarrow> string option \<Rightarrow> bool" where
  "wants_binary oid js = (if oid = 700 then js = Some ''precise'' else oid \<in> set BINARY_FAST \<and> \<not> (js = Some ''string'' \<and> oid \<noteq> 20))"

definition type_col :: "jsstr \<Rightarrow> string \<Rightarrow> js_error + ccol" where
  "type_col nm t =
     (if t = ''unknown'' then Inr (leaf_col nm 0 None)
      else rbind (splitType t) (\<lambda>(pg, js).
        case ext_oid (to_lower pg) of
          Some e \<Rightarrow> Inr (leaf_col nm e js)
        | None \<Rightarrow>
            if ends_array pg then array_col nm (to_lower (drop_array pg)) js
            else (case TYPE_OID (to_lower pg) of
                None \<Rightarrow> Inl (UnknownType pg)
              | Some oid \<Rightarrow> Inr ((leaf_col nm oid js)\<lparr>co_binary := wants_binary oid js\<rparr>))))"

definition resolveLeaf :: "jsstr \<Rightarrow> shape_leaf \<Rightarrow> js_error + ccol" where
  "resolveLeaf nm t = (case t of
       L_custom m \<Rightarrow>
         Inr (if cm_isArray m then (leaf_col nm (cm_oid m) None)\<lparr>co_array := Some (cm_oid m, cm_target m)\<rparr>
              else leaf_col nm (cm_oid m) (cm_target m))
     | L_json m \<Rightarrow> rbind (validateJsonSpec m) (\<lambda>_.
         Inr ((leaf_col nm (if jm_jsonb m then 3802 else 114) None)\<lparr>co_json := Some m\<rparr>))
     | L_type s \<Rightarrow> type_col nm s)"

text \<open>\<open>walk\<close>: depth first, in the order of the entries; the first error wins.\<close>

fun walk_shape :: "shape \<Rightarrow> jsstr list \<Rightarrow> bool list \<Rightarrow> js_error + ccol list" where
  "walk_shape [] path gn = Inr []"
| "walk_shape ((nm, SV_collect nullable lit spec) # es) path gn =
     rbind (specEntries lit spec) (\<lambda>_.
     rbind (walk_shape spec (path @ [nm]) (gn @ [nullable])) (\<lambda>cs.
     rbind (walk_shape es path gn) (\<lambda>ds. Inr (cs @ ds))))"
| "walk_shape ((nm, SV_leaf nullable xf t) # es) path gn =
     rbind (resolveLeaf nm t) (\<lambda>c.
     rbind (walk_shape es path gn) (\<lambda>ds.
       Inr (c\<lparr>co_path := path, co_groupNullable := gn, co_xform := xf, co_nullable := nullable\<rparr> # ds)))"

definition shapeCols :: "bool \<Rightarrow> shape \<Rightarrow> js_error + ccol list" where
  "shapeCols lit spec = rbind (specEntries lit spec) (\<lambda>es. walk_shape es [] [])"

text \<open>\<open>merge_unknown_cols\<close>: columns of type 'unknown' take the OIDs the server reported, by position.\<close>

definition merge_unknown_cols :: "ccol list \<Rightarrow> int list \<Rightarrow> ccol list" where
  "merge_unknown_cols cols oids =
     (if list_ex (\<lambda>c. co_oid c = 0) cols
      then map (\<lambda>(c, j). if co_oid c \<noteq> 0 then c else c\<lparr>co_oid := (if j < length oids then oids ! j else 0)\<rparr>) (zip cols [0..<length cols])
      else cols)"

subsection \<open>Columns are well typed\<close>

text \<open>What the decoders rely on: a binary column is of a type whose binary form they read and not
  asked for as text; an array column is text, its OID the array type of its element (and the element
  table of the decoders agrees) or a sentinel; a JSON column has a JSON OID and no other target.\<close>

definition col_ok :: "ccol \<Rightarrow> bool" where
  "col_ok c \<longleftrightarrow>
     (co_binary c \<longrightarrow> co_oid c \<in> insert 700 (set BINARY_FAST) \<and> co_array c = None \<and> co_json c = None \<and>
        (co_js c = Some ''string'' \<longrightarrow> co_oid c = 20) \<and> (co_oid c = 700 \<longrightarrow> co_js c = Some ''precise'')) \<and>
     (\<forall>e j. co_array c = Some (e, j) \<longrightarrow> co_js c = None \<and> co_json c = None \<and>
        (co_oid c = e \<or> ARRAY_OID e = Some (co_oid c) \<and> (e = 603 \<or> ELEM_OID (co_oid c) = Some e))) \<and>
     (co_json c \<noteq> None \<longrightarrow> co_oid c \<in> {114, 3802} \<and> co_js c = None) \<and>
     length (co_groupNullable c) = length (co_path c)"

lemma array_elem_inverse: "ARRAY_OID e = Some a \<Longrightarrow> e = 603 \<or> ELEM_OID a = Some e"
  unfolding ARRAY_OID_def by (drule map_of_SomeD) (auto simp: ELEM_OID_def)

lemma leaf_col_fields [simp]:
  "co_oid (leaf_col n i j) = i" "co_js (leaf_col n i j) = j" "co_json (leaf_col n i j) = None" "co_binary (leaf_col n i j) = False"
  "co_array (leaf_col n i j) = None" "co_name (leaf_col n i j) = n" "co_path (leaf_col n i j) = []" "co_groupNullable (leaf_col n i j) = []"
  by (simp_all add: leaf_col_def)

lemma type_col_ok: "type_col nm t = Inr c \<Longrightarrow> col_ok c \<and> co_name c = nm"
  by (auto simp: type_col_def array_col_def col_ok_def wants_binary_def rbind_Inr_iff dest: array_elem_inverse
      split: if_splits option.splits prod.splits)

lemma resolveLeaf_ok: "resolveLeaf nm t = Inr c \<Longrightarrow> col_ok c \<and> co_name c = nm"
  by (auto simp: resolveLeaf_def rbind_Inr_iff type_col_ok split: shape_leaf.splits) (auto simp: col_ok_def)

text \<open>The leaves of a shape with the groups they stand in, depth first.\<close>

fun shape_leaves :: "jsstr list \<Rightarrow> shape \<Rightarrow> (jsstr list \<times> jsstr) list" where
  "shape_leaves path [] = []"
| "shape_leaves path ((nm, SV_collect nullable lit spec) # es) = shape_leaves (path @ [nm]) spec @ shape_leaves path es"
| "shape_leaves path ((nm, SV_leaf nullable xf t) # es) = (path, nm) # shape_leaves path es"

lemma walk_shape_ok:
  "walk_shape es path gn = Inr cs \<Longrightarrow> length gn = length path \<Longrightarrow>
   list_all col_ok cs \<and> map (\<lambda>c. (co_path c, co_name c)) cs = shape_leaves path es"
proof (induction es path gn arbitrary: cs rule: walk_shape.induct)
  case (2 nm nullable lit spec es path gn)
  then show ?case by (fastforce simp: rbind_Inr_iff)
next
  case (3 nm nullable xf t es path gn)
  from 3(2) obtain c ds where c: "resolveLeaf nm t = Inr c" and ds: "walk_shape es path gn = Inr ds"
    and cs: "cs = c\<lparr>co_path := path, co_groupNullable := gn, co_xform := xf, co_nullable := nullable\<rparr> # ds"
    by (auto simp: rbind_Inr_iff)
  have "col_ok (c\<lparr>co_path := path, co_groupNullable := gn, co_xform := xf, co_nullable := nullable\<rparr>)"
    using resolveLeaf_ok [OF c] 3(3) by (simp add: col_ok_def)
  with 3(1) [OF ds 3(3)] resolveLeaf_ok [OF c] show ?case by (simp add: cs)
qed simp

lemma unknown_col_plain: "walk_shape es path gn = Inr cs \<Longrightarrow> c \<in> set cs \<Longrightarrow> co_oid c = 0 \<Longrightarrow>
   co_binary c = False"
proof (induction es path gn arbitrary: cs rule: walk_shape.induct)
  case (2 nm nullable lit spec es path gn)
  then show ?case by (fastforce simp: rbind_Inr_iff)
next
  case (3 nm nullable xf t es path gn)
  from 3(2) obtain d ds where d: "resolveLeaf nm t = Inr d" and ds: "walk_shape es path gn = Inr ds"
    and cs: "cs = d\<lparr>co_path := path, co_groupNullable := gn, co_xform := xf, co_nullable := nullable\<rparr> # ds"
    by (auto simp: rbind_Inr_iff)
  have "co_oid d = 0 \<Longrightarrow> \<not> co_binary d"
    using resolveLeaf_ok [OF d] by (auto simp: col_ok_def BINARY_FAST_def)
  with 3 cs ds show ?case by auto
qed simp

text \<open>C36: A shape that resolves yields well-typed columns in declared order. Whenever \<open>shapeCols\<close> accepts a
  shape, its columns are the shape's leaves depth first, each with the groups it stands in; binary
  format is requested only for types with a binary decoder and never where the text was asked for; an
  array column stays in text format and its OID is the array type of its element (consistently with
  the decoders' own table, \<open>box[]\<close> apart) or a sentinel; a JSON column carries a JSON OID. Filling in
  the server's OIDs changes exactly the columns declared 'unknown', and those are read as text.\<close>

theorem shape_columns_typed:
  assumes "shapeCols lit spec = Inr cs"
  shows "list_all col_ok cs \<and> map (\<lambda>c. (co_path c, co_name c)) cs = shape_leaves [] spec \<and>
     length (merge_unknown_cols cs oids) = length cs \<and>
     (\<forall>j<length cs. merge_unknown_cols cs oids ! j =
        (if co_oid (cs ! j) \<noteq> 0 then cs ! j else (cs ! j)\<lparr>co_oid := if j < length oids then oids ! j else 0, co_binary := False\<rparr>))"
proof -
  have "specEntries lit spec = Inr es \<Longrightarrow> es = spec" for es by (auto simp: specEntries_def split: if_splits)
  with assms have w: "walk_shape spec [] [] = Inr cs" by (auto simp: shapeCols_def rbind_Inr_iff)
  have m: "length (merge_unknown_cols cs oids) = length cs"
    "j < length cs \<Longrightarrow> merge_unknown_cols cs oids ! j =
       (if co_oid (cs ! j) \<noteq> 0 then cs ! j else (cs ! j)\<lparr>co_oid := if j < length oids then oids ! j else 0\<rparr>)" for j
    by (auto simp: merge_unknown_cols_def list_ex_length)
  have "merge_unknown_cols cs oids ! j =
      (if co_oid (cs ! j) \<noteq> 0 then cs ! j else (cs ! j)\<lparr>co_oid := if j < length oids then oids ! j else 0, co_binary := False\<rparr>)"
    if j: "j < length cs" for j
  proof (cases "co_oid (cs ! j) = 0")
    case True
    with unknown_col_plain [OF w nth_mem [OF j]] have "co_binary (cs ! j) = False" by simp
    with True m(2) [OF j] show ?thesis by (cases "cs ! j") simp
  qed (simp add: m(2) [OF j])
  with m(1) walk_shape_ok [OF w] show ?thesis by simp
qed

definition demo_shape :: shape where
  "demo_shape = [(asc ''id'', SV_leaf False None (L_type ''int8:string'')),
     (asc ''owner'', SV_collect True True [(asc ''tags'', SV_leaf True None (L_type ''text[]''))])]"

theorem shape_columns_typed_witness:
  "\<exists>cs. shapeCols True demo_shape = Inr cs \<and> list_all col_ok cs \<and> map co_oid cs = [20, 1009] \<and>
     map (\<lambda>c. (co_path c, co_name c)) cs = [([], asc ''id''), ([asc ''owner''], asc ''tags'')]"
proof -
  obtain cs where cs: "shapeCols True demo_shape = Inr cs" "map co_oid cs = [20, 1009]"
    by (simp add: shapeCols_def demo_shape_def specEntries_def index_key_def is_digit_def asc_def resolveLeaf_def type_col_def
        splitType_def colon_def trim_def space_char_def to_lower_def lower_char_def JS_TARGETS_def ext_oid_def ends_array_def
        drop_array_def TYPE_OID_def ARRAY_OID_def array_col_def Let_def)
  with shape_columns_typed [OF cs(1)] show ?thesis by (auto simp: demo_shape_def)
qed

end
