(* ===== verification/Row_Mapper.thy ===== *)
theory Row_Mapper
  imports Shape_Cols
begin

section \<open>Row mappers: assembling rows (src/mapper.ts, src/decode.ts)\<close>

text \<open>
  A row mapper reads the cells of a DataRow body, decodes each with its column's decoder and assembles
  the row. The interpreted engine loops over the decoders and builds nested objects from a tree; the
  compiled one evaluates a generated object literal. The definitions of the second engine are the
  meaning of that literal. Both take the columns' cell decoders as functions.
\<close>

type_synonym cell_fn = "bytes \<Rightarrow> int \<Rightarrow> int \<Rightarrow> dres"

subsection \<open>Reading the cells\<close>

text \<open>The inlined length read: \<open>undefined\<close> shifts to 0.\<close>

definition byte_num :: "bytes \<Rightarrow> int \<Rightarrow> int" where
  "byte_num b i = (case byte_at b i of Some c \<Rightarrow> uint c | None \<Rightarrow> 0)"

definition readLen :: "bytes \<Rightarrow> int \<Rightarrow> int" where
  "readLen b p = to_signed 4 (byte_num b p * 16777216 + byte_num b (p + 1) * 65536 + byte_num b (p + 2) * 256 + byte_num b (p + 3))"

fun decode_cells :: "cell_fn list \<Rightarrow> bytes \<Rightarrow> int \<Rightarrow> js_error + dval list" where
  "decode_cells [] b p = Inr []"
| "decode_cells (d # ds) b p =
     (let l = readLen b p in
      if l = - 1 then rbind (decode_cells ds b (p + 4)) (\<lambda>vs. Inr (DNull # vs))
      else rbind (d b (p + 4) l) (\<lambda>v. rbind (decode_cells ds b (p + 4 + l)) (\<lambda>vs. Inr (v # vs))))"

subsection \<open>The assembly tree\<close>

record oleaf =
  ol_key :: jsstr
  ol_i :: nat
  ol_xform :: "(dval \<Rightarrow> dres) option"
  ol_required :: bool

datatype onode = ONode (on_leaves: "oleaf list") (on_groups: "(jsstr \<times> onode) list") (on_nullable: bool)

text \<open>One column goes down its path, creating the groups it does not find, and becomes a leaf at its end.\<close>

fun put_leaf :: "(jsstr \<times> bool) list \<Rightarrow> oleaf \<Rightarrow> onode \<Rightarrow> onode"
and put_group :: "jsstr \<Rightarrow> bool \<Rightarrow> (jsstr \<times> bool) list \<Rightarrow> oleaf \<Rightarrow> (jsstr \<times> onode) list \<Rightarrow> (jsstr \<times> onode) list" where
  "put_leaf [] l (ONode ls gs n) = ONode (ls @ [l]) gs n"
| "put_leaf ((seg, nullable) # path) l (ONode ls gs n) = ONode ls (put_group seg nullable path l gs) n"
| "put_group seg nullable path l [] = [(seg, put_leaf path l (ONode [] [] nullable))]"
| "put_group seg nullable path l ((k, g) # gs) =
     (if k = seg then (k, put_leaf path l g) # gs else (k, g) # put_group seg nullable path l gs)"

definition col_leaf :: "ccol \<Rightarrow> nat \<Rightarrow> oleaf" where
  "col_leaf c i = \<lparr>ol_key = co_name c, ol_i = i, ol_xform = map_option snd (co_xform c), ol_required = (\<not> co_nullable c)\<rparr>"

definition path_of :: "ccol \<Rightarrow> (jsstr \<times> bool) list" where
  "path_of c = map (\<lambda>k. (co_path c ! k, k < length (co_groupNullable c) \<and> co_groupNullable c ! k)) [0..<length (co_path c)]"

definition buildObjTree :: "ccol list \<Rightarrow> onode" where
  "buildObjTree cols =
     foldl (\<lambda>node (c, i). put_leaf (path_of c) (col_leaf c i) node) (ONode [] [] False) (zip cols [0..<length cols])"

subsection \<open>Interpreted assembly\<close>

definition setKey :: "(jsstr \<times> dval) list \<Rightarrow> jsstr \<Rightarrow> dval \<Rightarrow> (jsstr \<times> dval) list" where
  "setKey obj k v = obj_set obj k v"

definition leaf_val :: "oleaf \<Rightarrow> dval list \<Rightarrow> dres" where
  "leaf_val l vals = (let v = vals ! ol_i l in
     case ol_xform l of Some f \<Rightarrow> if v \<noteq> DNull then f v else Inr v | None \<Rightarrow> Inr v)"

fun assemble_leaves :: "oleaf list \<Rightarrow> dval list \<Rightarrow> (jsstr \<times> dval) list \<Rightarrow> js_error + (jsstr \<times> dval) list" where
  "assemble_leaves [] vals obj = Inr obj"
| "assemble_leaves (l # ls) vals obj =
     rbind (leaf_val l vals) (\<lambda>v. assemble_leaves ls vals (setKey obj (ol_key l) v))"

fun groupAllNull :: "onode \<Rightarrow> dval list \<Rightarrow> bool" where
  "groupAllNull (ONode ls gs n) vals \<longleftrightarrow> list_all (\<lambda>l. vals ! ol_i l = DNull) ls \<and> list_all (\<lambda>g. groupAllNull (snd g) vals) gs"

fun assembleObj :: "onode \<Rightarrow> dval list \<Rightarrow> js_error + (jsstr \<times> dval) list"
and assemble_groups :: "(jsstr \<times> onode) list \<Rightarrow> dval list \<Rightarrow> (jsstr \<times> dval) list \<Rightarrow> js_error + (jsstr \<times> dval) list"
and assembleGroup :: "onode \<Rightarrow> dval list \<Rightarrow> dres" where
  "assembleObj (ONode ls gs n) vals = rbind (assemble_leaves ls vals []) (\<lambda>obj. assemble_groups gs vals obj)"
| "assemble_groups [] vals obj = Inr obj"
| "assemble_groups ((k, g) # gs) vals obj =
     rbind (assembleGroup g vals) (\<lambda>v. assemble_groups gs vals (setKey obj k v))"
| "assembleGroup (ONode ls gs n) vals =
     (if n \<and> list_ex (\<lambda>l. ol_required l \<and> vals ! ol_i l = DNull) ls then Inr DNull
      else if n \<and> \<not> list_ex ol_required ls \<and> groupAllNull (ONode ls gs n) vals then Inr DNull
      else rbind (rbind (assemble_leaves ls vals []) (\<lambda>obj. assemble_groups gs vals obj)) (\<lambda>obj. Inr (DObj obj)))"

fun flat_row :: "ccol list \<Rightarrow> dval list \<Rightarrow> (jsstr \<times> dval) list \<Rightarrow> (jsstr \<times> dval) list" where
  "flat_row [] vs row = row"
| "flat_row (c # cs) vs row = (case vs of [] \<Rightarrow> row | v # vs' \<Rightarrow> flat_row cs vs' (setKey row (co_name c) v))"

definition interpreted_object :: "ccol list \<Rightarrow> dval list \<Rightarrow> dres" where
  "interpreted_object cols vals =
     (if \<not> list_ex (\<lambda>c. co_path c \<noteq> [] \<or> co_xform c \<noteq> None) cols then Inr (DObj (flat_row cols vals []))
      else rbind (assembleObj (buildObjTree cols) vals) (\<lambda>obj. Inr (DObj obj)))"

definition interpretedMapper :: "ccol list \<Rightarrow> cell_fn list \<Rightarrow> bool \<Rightarrow> bytes \<Rightarrow> dres" where
  "interpretedMapper cols ds object b =
     rbind (decode_cells ds b 2) (\<lambda>vals. if object then interpreted_object cols vals else Inr (DArr vals))"

subsection \<open>The generated literal\<close>

text \<open>\<open>colVal\<close>: the temporary, or the transform applied to it unless it is null.\<close>

definition colVal :: "ccol \<Rightarrow> nat \<Rightarrow> dval list \<Rightarrow> dres" where
  "colVal c i vals = (case co_xform c of None \<Rightarrow> Inr (vals ! i)
     | Some x \<Rightarrow> if vals ! i = DNull then Inr DNull else snd x (vals ! i))"

text \<open>An object literal evaluates its properties in order; a repeated key keeps its place and takes the
  later value.\<close>

fun eval_props :: "(jsstr \<times> dres) list \<Rightarrow> (jsstr \<times> dval) list \<Rightarrow> js_error + (jsstr \<times> dval) list" where
  "eval_props [] obj = Inr obj"
| "eval_props ((k, e) # ps) obj = rbind e (\<lambda>v. eval_props ps (obj_set obj k v))"

fun allIdx :: "onode \<Rightarrow> nat list" where
  "allIdx (ONode ls gs n) = map ol_i ls @ concat (map (\<lambda>g. allIdx (snd g)) gs)"

definition lit_leaf :: "oleaf \<Rightarrow> dval list \<Rightarrow> dres" where
  "lit_leaf l vals = (case ol_xform l of None \<Rightarrow> Inr (vals ! ol_i l)
     | Some f \<Rightarrow> if vals ! ol_i l = DNull then Inr DNull else f (vals ! ol_i l))"

fun literal_group :: "onode \<Rightarrow> dval list \<Rightarrow> dres" where
  "literal_group (ONode ls gs n) vals =
     (let body = rbind (eval_props (map (\<lambda>l. (ol_key l, lit_leaf l vals)) ls @ map (\<lambda>g. (fst g, literal_group (snd g) vals)) gs) [])
            (\<lambda>obj. Inr (DObj obj));
          req = filter ol_required ls; idx = allIdx (ONode ls gs n) in
      if \<not> n then body
      else if req \<noteq> [] then (if list_ex (\<lambda>l. vals ! ol_i l = DNull) req then Inr DNull else body)
      else if idx \<noteq> [] then (if list_all (\<lambda>i. vals ! i = DNull) idx then Inr DNull else body)
      else body)"

text \<open>\<open>body(root)\<close>: the root never nulls.\<close>

definition buildObjectLiteral :: "ccol list \<Rightarrow> dval list \<Rightarrow> dres" where
  "buildObjectLiteral cols vals = literal_group (buildObjTree cols) vals"

definition buildArrayLiteral :: "ccol list \<Rightarrow> dval list \<Rightarrow> js_error + dval list" where
  "buildArrayLiteral cols vals = rmap (\<lambda>i. colVal (cols ! i) i vals) [0..<length cols]"

text \<open>\<open>rowLiteral\<close> is reached while compiling: a group in array mode is refused there.\<close>

definition rowLiteral :: "ccol list \<Rightarrow> bool \<Rightarrow> js_error + (dval list \<Rightarrow> dres)" where
  "rowLiteral cols object =
     (if \<not> object \<and> list_ex (\<lambda>c. co_path c \<noteq> []) cols then Inl (Thrown ''Collect() needs object mode'')
      else Inr (\<lambda>vals. if object then buildObjectLiteral cols vals
                       else rbind (buildArrayLiteral cols vals) (\<lambda>vs. Inr (DArr vs))))"

text \<open>The generated functions: read every cell, then evaluate the literal; for a result set, body by body.\<close>

definition rowBuilderSource :: "ccol list \<Rightarrow> cell_fn list \<Rightarrow> bool \<Rightarrow> js_error + (bytes \<Rightarrow> dres)" where
  "rowBuilderSource cols ds object =
     rbind (rowLiteral cols object) (\<lambda>lit. Inr (\<lambda>b. rbind (decode_cells ds b 2) lit))"

definition resultSetSource :: "ccol list \<Rightarrow> cell_fn list \<Rightarrow> bool \<Rightarrow> js_error + (bytes list \<Rightarrow> js_error + dval list)" where
  "resultSetSource cols ds object =
     rbind (rowLiteral cols object) (\<lambda>lit. Inr (\<lambda>arr. rmap (\<lambda>b. rbind (decode_cells ds b 2) lit) arr))"

definition compileRow :: "ccol list \<Rightarrow> cell_fn list \<Rightarrow> bool \<Rightarrow> js_error + (bytes \<Rightarrow> dres)" where
  "compileRow cols ds object = rowBuilderSource cols ds object"

definition compileResultSet :: "ccol list \<Rightarrow> cell_fn list \<Rightarrow> bool \<Rightarrow> js_error + (bytes list \<Rightarrow> js_error + dval list)" where
  "compileResultSet cols ds object = resultSetSource cols ds object"

text \<open>The engine of a \<open>decode\<close> setting, by whether the runtime allows compiling.\<close>

datatype decode_mode = DM_auto | DM_jit | DM_interpreted

definition buildMapperFactory :: "decode_mode \<Rightarrow> bool \<Rightarrow> js_error + (ccol list \<Rightarrow> cell_fn list \<Rightarrow> bool \<Rightarrow> js_error + (bytes \<Rightarrow> dres))" where
  "buildMapperFactory decode hasEval = (case decode of
       DM_interpreted \<Rightarrow> Inr (\<lambda>cols ds object. Inr (interpretedMapper cols ds object))
     | DM_jit \<Rightarrow> if \<not> hasEval then Inl (Thrown ''decode jit needs eval'') else Inr compileRow
     | DM_auto \<Rightarrow> Inr (if hasEval then compileRow else (\<lambda>cols ds object. Inr (interpretedMapper cols ds object))))"

subsection \<open>The engines build the same objects\<close>

fun inhabited :: "onode \<Rightarrow> bool" where
  "inhabited (ONode ls gs n) \<longleftrightarrow> (ls \<noteq> [] \<or> gs \<noteq> []) \<and> list_all (\<lambda>g. inhabited (snd g)) gs"

fun groups_inhabited :: "onode \<Rightarrow> bool" where
  "groups_inhabited (ONode ls gs n) \<longleftrightarrow> list_all (\<lambda>g. inhabited (snd g)) gs"

lemma put_inhabited:
  "(groups_inhabited node \<longrightarrow> inhabited (put_leaf path l node))"
  "list_all (\<lambda>g. inhabited (snd g)) gs \<longrightarrow> list_all (\<lambda>g. inhabited (snd g)) (put_group seg nu path l gs) \<and> put_group seg nu path l gs \<noteq> []"
proof (induction path l node and seg nu path l gs rule: put_leaf_put_group.induct)
  case (4 seg nu path l k g gs)
  have "inhabited g \<Longrightarrow> groups_inhabited g" by (cases g) auto
  with 4 show ?case by auto
qed auto

lemma inhabited_groups: "inhabited n \<Longrightarrow> groups_inhabited n"
  by (cases n) auto

lemma tree_inhabited: "groups_inhabited (buildObjTree cols)"
proof -
  have "groups_inhabited n \<Longrightarrow> groups_inhabited (foldl (\<lambda>node (c, i). put_leaf (path_of c) (col_leaf c i) node) n xs)" for n xs
    by (induction xs arbitrary: n) (auto simp: put_inhabited inhabited_groups)
  then show ?thesis by (simp add: buildObjTree_def)
qed

lemma root_not_nullable: "\<not> on_nullable (buildObjTree cols)"
proof -
  have "on_nullable (put_leaf path l n) = on_nullable n" for path l n by (cases n; cases path) auto
  then have "on_nullable (foldl (\<lambda>node (c, i). put_leaf (path_of c) (col_leaf c i) node) n xs) = on_nullable n" for n xs
    by (induction xs arbitrary: n) auto
  then show ?thesis by (simp add: buildObjTree_def)
qed

lemma inhabited_group: "inhabited (ONode ls gs nu) \<Longrightarrow> g \<in> set gs \<Longrightarrow> inhabited (snd g)"
  by (auto simp: list_all_iff)

lemma onode_induct [case_names node]:
  assumes "\<And>ls gs nu. (\<And>g. g \<in> set gs \<Longrightarrow> P (snd g)) \<Longrightarrow> P (ONode ls gs nu)"
  shows "P n"
proof (induction n)
  case (ONode ls gs nu)
  show ?case
  proof (rule assms)
    fix g assume "g \<in> set gs"
    with ONode [of g "snd g"] show "P (snd g)" by (cases g) auto
  qed
qed

lemma allIdx_nonempty: "inhabited n \<Longrightarrow> allIdx n \<noteq> []"
proof (induction n rule: onode_induct)
  case (node ls gs nu)
  show ?case
  proof (cases gs)
    case Nil
    with node.prems show ?thesis by simp
  next
    case (Cons g gs')
    with node.IH [of g] inhabited_group [OF node.prems, of g] show ?thesis by simp
  qed
qed

lemma allIdx_null: "list_all (\<lambda>i. vals ! i = DNull) (allIdx n) \<longleftrightarrow> groupAllNull n vals"
proof (induction n rule: onode_induct)
  case (node ls gs nu)
  then have "list_all (\<lambda>g. list_all (\<lambda>i. vals ! i = DNull) (allIdx (snd g))) gs \<longleftrightarrow> list_all (\<lambda>g. groupAllNull (snd g) vals) gs"
    by (simp add: list_all_iff)
  then show ?case by (auto simp: list_all_iff)
qed

lemma lit_leaf_val: "lit_leaf l vals = leaf_val l vals"
  by (auto simp: lit_leaf_def leaf_val_def Let_def split: option.splits)

lemma eval_leaves: "eval_props (map (\<lambda>l. (ol_key l, lit_leaf l vals)) ls @ ps) obj = rbind (assemble_leaves ls vals obj) (eval_props ps)"
  by (induction ls arbitrary: obj) (auto simp: lit_leaf_val setKey_def rbind_def split: sum.splits)

lemma eval_groups:
  "(\<And>g. g \<in> set gs \<Longrightarrow> literal_group (snd g) vals = assembleGroup (snd g) vals) \<Longrightarrow>
   eval_props (map (\<lambda>g. (fst g, literal_group (snd g) vals)) gs) obj = assemble_groups gs vals obj"
  by (induction gs arbitrary: obj) (auto simp: setKey_def)

lemma literal_group_eq: "inhabited n \<Longrightarrow> literal_group n vals = assembleGroup n vals"
proof (induction n rule: onode_induct)
  case (node ls gs nu)
  have g: "literal_group (snd g) vals = assembleGroup (snd g) vals" if "g \<in> set gs" for g
    using node.IH [OF that] inhabited_group [OF node.prems that] by simp
  have ev: "eval_props (map (\<lambda>l. (ol_key l, lit_leaf l vals)) ls @ map (\<lambda>g. (fst g, literal_group (snd g) vals)) gs) obj =
      rbind (assemble_leaves ls vals obj) (\<lambda>obj. assemble_groups gs vals obj)" for obj
    unfolding eval_leaves by (rule arg_cong [where f = "rbind _"]) (simp add: fun_eq_iff eval_groups [OF g])
  have idx: "allIdx (ONode ls gs nu) \<noteq> []" by (rule allIdx_nonempty [OF node.prems])
  have req: "filter ol_required ls \<noteq> [] \<longleftrightarrow> list_ex ol_required ls"
    "list_ex (\<lambda>l. vals ! ol_i l = DNull) (filter ol_required ls) \<longleftrightarrow> list_ex (\<lambda>l. ol_required l \<and> vals ! ol_i l = DNull) ls"
    by (auto simp: list_ex_iff filter_empty_conv)
  have none: "\<not> list_ex ol_required ls \<Longrightarrow> \<not> list_ex (\<lambda>l. ol_required l \<and> vals ! ol_i l = DNull) ls"
    by (auto simp: list_ex_iff)
  have null: "list_all (\<lambda>i. vals ! i = DNull) (allIdx (ONode ls gs nu)) \<longleftrightarrow> groupAllNull (ONode ls gs nu) vals"
    by (rule allIdx_null)
  show ?case
    unfolding literal_group.simps assembleGroup.simps Let_def ev req null
    using idx none by auto
qed

lemma literal_root: "groups_inhabited n \<Longrightarrow> \<not> on_nullable n \<Longrightarrow> literal_group n vals = rbind (assembleObj n vals) (\<lambda>obj. Inr (DObj obj))"
proof (cases n)
  case (ONode ls gs nu)
  assume "groups_inhabited n" "\<not> on_nullable n"
  then have g: "literal_group (snd g) vals = assembleGroup (snd g) vals" if "g \<in> set gs" for g
    using that ONode by (auto simp: list_all_iff intro: literal_group_eq)
  have ev: "eval_props (map (\<lambda>l. (ol_key l, lit_leaf l vals)) ls @ map (\<lambda>g. (fst g, literal_group (snd g) vals)) gs) obj =
      rbind (assemble_leaves ls vals obj) (\<lambda>obj. assemble_groups gs vals obj)" for obj
    unfolding eval_leaves by (rule arg_cong [where f = "rbind _"]) (simp add: fun_eq_iff eval_groups [OF g])
  from \<open>\<not> on_nullable n\<close> ONode have nu: "\<not> nu" by simp
  show ?thesis using nu unfolding ONode literal_group.simps assembleObj.simps Let_def ev by simp
qed

text \<open>Without groups and transforms the tree is one level of leaves, and the flat loop builds the same row.\<close>

definition flat_cols :: "ccol list \<Rightarrow> bool" where
  "flat_cols cols \<longleftrightarrow> (\<forall>c\<in>set cols. co_path c = [] \<and> co_xform c = None)"

lemma flat_tree:
  "\<forall>x\<in>set xs. co_path (fst x) = [] \<Longrightarrow>
   foldl (\<lambda>node (c, i). put_leaf (path_of c) (col_leaf c i) node) (ONode ls [] False) xs = ONode (ls @ map (\<lambda>(c, i). col_leaf c i) xs) [] False"
  by (induction xs arbitrary: ls) (auto simp: path_of_def)

lemma flat_leaves:
  "\<forall>c\<in>set cols. co_xform c = None \<Longrightarrow> length vals = k + length cols \<Longrightarrow>
   assemble_leaves (map (\<lambda>(c, i). col_leaf c i) (zip cols [k..<k + length cols])) vals obj = Inr (flat_row cols (drop k vals) obj)"
proof (induction cols arbitrary: k obj)
  case (Cons c cs)
  have k: "k < length vals" using Cons.prems by simp
  then have d: "drop k vals = vals ! k # drop (Suc k) vals" by (simp add: Cons_nth_drop_Suc)
  have u: "[k..<k + length (c # cs)] = k # [Suc k..<Suc k + length cs]" by (simp add: upt_conv_Cons del: upt_Suc)
  have lv: "leaf_val (col_leaf c k) vals = Inr (vals ! k)" using Cons.prems by (simp add: leaf_val_def col_leaf_def)
  have key: "ol_key (col_leaf c k) = co_name c" by (simp add: col_leaf_def)
  show ?case
    unfolding u d using Cons.IH [of "Suc k"] Cons.prems by (simp add: lv key)
qed simp

lemma flat_object:
  assumes "flat_cols cols" "length vals = length cols"
  shows "assembleObj (buildObjTree cols) vals = Inr (flat_row cols vals [])"
proof -
  have "\<forall>x\<in>set (zip cols [0..<length cols]). co_path (fst x) = []"
    using assms(1) by (auto simp: flat_cols_def dest: set_zip_leftD)
  from flat_tree [OF this, of "[]"]
  have t: "buildObjTree cols = ONode (map (\<lambda>(c, i). col_leaf c i) (zip cols [0..<length cols])) [] False"
    by (simp add: buildObjTree_def)
  have x: "\<forall>c\<in>set cols. co_xform c = None" using assms(1) by (simp add: flat_cols_def)
  show ?thesis using flat_leaves [OF x, of vals 0 "[]"] assms(2) by (simp add: t)
qed

lemma decode_cells_length: "decode_cells ds b p = Inr vs \<Longrightarrow> length vs = length ds"
  by (induction ds b p arbitrary: vs rule: decode_cells.induct) (auto simp: Let_def rbind_Inr_iff split: if_splits)

lemma object_assembly:
  assumes "length vals = length cols"
  shows "buildObjectLiteral cols vals = interpreted_object cols vals"
proof -
  have f: "\<not> list_ex (\<lambda>c. co_path c \<noteq> [] \<or> co_xform c \<noteq> None) cols \<Longrightarrow> flat_cols cols"
    unfolding list_ex_iff flat_cols_def by blast
  show ?thesis
    using flat_object [OF f assms]
    by (auto simp: buildObjectLiteral_def interpreted_object_def literal_root [OF tree_inhabited root_not_nullable])
qed

lemma array_literal:
  assumes "\<forall>c\<in>set cols. co_xform c = None" "length vals = length cols"
  shows "buildArrayLiteral cols vals = Inr vals"
proof -
  have "rmap (\<lambda>i. colVal (cols ! i) i vals) is = Inr (map ((!) vals) is)" if "set is \<subseteq> {..<length cols}" for "is"
    using that assms(1) by (induction "is") (auto simp: colVal_def)
  from this [of "[0..<length cols]"] assms(2) show ?thesis
    by (metis (no_types, lifting) atLeastLessThan_upt buildArrayLiteral_def lessThan_atLeast0 map_nth order_refl)
qed

lemma compiled_row:
  assumes "length ds = length cols" and "object \<or> flat_cols cols"
  shows "\<exists>lit. rowLiteral cols object = Inr lit \<and> (\<forall>b. rbind (decode_cells ds b 2) lit = interpretedMapper cols ds object b)"
proof -
  let ?lit = "\<lambda>vals. if object then buildObjectLiteral cols vals else rbind (buildArrayLiteral cols vals) (\<lambda>vs. Inr (DArr vs))"
  have lit: "rowLiteral cols object = Inr ?lit"
    using assms(2) by (auto simp: rowLiteral_def flat_cols_def list_ex_iff)
  have row: "rbind (decode_cells ds b 2) ?lit = interpretedMapper cols ds object b" for b
  proof (cases "decode_cells ds b 2")
    case (Inr vals)
    then have len: "length vals = length cols" using decode_cells_length assms(1) by fastforce
    show ?thesis
      using assms(2) object_assembly [OF len] array_literal [OF _ len] by (auto simp: interpretedMapper_def Inr flat_cols_def)
  qed (simp add: interpretedMapper_def)
  with lit show ?thesis by blast
qed

text \<open>The compiled and the interpreted row mapper agree. For columns and their cell decoders, compiling
  the row mapper in object mode never fails, and the compiled function gives on every DataRow body,
  well-formed or not, exactly the value or the error of the interpreted mapper: the same nested
  objects with the same keys in the same order, nullable groups collapsed to null in the same cases
  (by their required leaves, or by all leaves when none is required), transforms skipped on null, and
  the first error the same. In array mode they agree for shapes without groups and transforms. The
  compiled result-set mapper is the row mapper on each body in turn; and whatever \<open>decode\<close> setting
  yields a mapper, it is this one.\<close>

theorem row_mapper_parity:
  assumes "length ds = length cols" and "object \<or> flat_cols cols"
  shows "(\<exists>f. compileRow cols ds object = Inr f \<and> (\<forall>b. f b = interpretedMapper cols ds object b)) \<and>
     (\<exists>g. compileResultSet cols ds object = Inr g \<and> (\<forall>bs. g bs = rmap (interpretedMapper cols ds object) bs)) \<and>
     (\<forall>decode hasEval mk. buildMapperFactory decode hasEval = Inr mk \<longrightarrow>
        (\<exists>f. mk cols ds object = Inr f \<and> (\<forall>b. f b = interpretedMapper cols ds object b)))"
proof -
  from compiled_row [OF assms] obtain lit where lit: "rowLiteral cols object = Inr lit"
    and row: "\<And>b. rbind (decode_cells ds b 2) lit = interpretedMapper cols ds object b" by blast
  from row have f: "\<exists>f. compileRow cols ds object = Inr f \<and> (\<forall>b. f b = interpretedMapper cols ds object b)"
    by (simp add: compileRow_def rowBuilderSource_def lit)
  moreover from row have "\<exists>g. compileResultSet cols ds object = Inr g \<and> (\<forall>bs. g bs = rmap (interpretedMapper cols ds object) bs)"
    by (simp add: compileResultSet_def resultSetSource_def lit)
  moreover have "\<exists>f. mk cols ds object = Inr f \<and> (\<forall>b. f b = interpretedMapper cols ds object b)"
    if "buildMapperFactory decode hasEval = Inr mk" for decode hasEval mk
    using that f by (auto simp: buildMapperFactory_def split: decode_mode.splits if_splits)
  ultimately show ?thesis by blast
qed

definition demo_cols :: "ccol list" where
  "demo_cols = [leaf_col (asc ''id'') 23 None,
     (leaf_col (asc ''name'') 25 None)\<lparr>co_path := [asc ''owner''], co_groupNullable := [True], co_nullable := True\<rparr>]"

definition demo_cell :: cell_fn where "demo_cell b p l = Inr (DBig l)"

theorem row_mapper_parity_witness:
  "(\<exists>f. compileRow demo_cols [demo_cell, demo_cell] True = Inr f \<and>
     f [0, 2, 0, 0, 0, 1, 49, 255, 255, 255, 255] = Inr (DObj [(asc ''id'', DBig 1), (asc ''owner'', DNull)])) \<and>
   (\<exists>f. compileRow demo_cols [demo_cell, demo_cell] True = Inr f \<and> (\<forall>b. f b = interpretedMapper demo_cols [demo_cell, demo_cell] True b))"
proof -
  have b: "interpretedMapper demo_cols [demo_cell, demo_cell] True [0, 2, 0, 0, 0, 1, 49, 255, 255, 255, 255] =
      Inr (DObj [(asc ''id'', DBig 1), (asc ''owner'', DNull)])"
    by code_simp
  from row_mapper_parity [of "[demo_cell, demo_cell]" demo_cols True] b show ?thesis by (auto simp: demo_cols_def)
qed

end
