(* ===== verification/Decode_Cells.thy ===== *)
theory Decode_Cells
  imports Json_Walk Row_Mapper
begin

section \<open>Cell decoders (src/decode.ts, src/geo.ts, src/registry.ts)\<close>

text \<open>
  How a column's decoder is chosen in each engine and what it computes: the default decoder catalog and
  its overrides, the interpreted strategies with \<open>pickDecoder\<close>, the snippets the compiled engine inlines
  and the helpers it falls back to, the geometric and vector texts, and the registry of \<open>defineType\<close>. A
  catalog entry is the default decoder of its OID or a decoder of the user's. Decoders of users and targets
  of registered types are functions of the model's state, never made up.
\<close>

subsection \<open>The default catalog\<close>

type_synonym decoder = "bytes \<Rightarrow> dres"

definition asString :: decoder where "asString b = Inr (DStr (from_utf8 b))"
definition asNumber :: decoder where "asNumber b = Inr (DNum (js_number (from_utf8 b)))"
definition asBool :: decoder where "asBool b = Inr (DBool (byte_at b 0 = Some (b8 116)))"

fun hex_pairs :: "jsstr \<Rightarrow> bytes" where
  "hex_pairs (c # d # s) = (if radix_digit c < 16 \<and> radix_digit d < 16 then b8 (radix_digit c * 16 + radix_digit d) # hex_pairs s else [])"
| "hex_pairs s = []"

text \<open>The text of a bytea: after the prefix, hex digits (\<open>Buffer.from(s, 'hex')\<close> stops at the first pair that
  is none); otherwise the text's own bytes.\<close>

definition bytea_text :: "jsstr \<Rightarrow> bytes" where
  "bytea_text s = (if take 2 s = [u16 92, u16 120] then hex_pairs (drop 2 s) else utf8 s)"

definition asBytea :: decoder where "asBytea b = Inr (DBuf (bytea_text (from_utf8 b)))"

definition defaultDecoders :: "int \<Rightarrow> decoder option" where
  "defaultDecoders oid =
     (if oid = 16 then Some asBool else if oid = 17 then Some asBytea
      else if oid \<in> {21, 23, 26, 700, 701} then Some asNumber
      else if oid \<in> {114, 3802} then Some asJson else None)"

datatype entry = E_default | E_user decoder

type_synonym catalog = "int \<Rightarrow> entry option"

definition is_custom :: "catalog \<Rightarrow> int \<Rightarrow> bool" where
  "is_custom m oid = (case m oid of Some (E_user _) \<Rightarrow> True | _ \<Rightarrow> False)"

definition decoderFor :: "int \<Rightarrow> catalog \<Rightarrow> decoder" where
  "decoderFor oid m = (case m oid of
       Some (E_user d) \<Rightarrow> d
     | Some E_default \<Rightarrow> (case defaultDecoders oid of Some d \<Rightarrow> d | None \<Rightarrow> asString)
     | None \<Rightarrow> asString)"

definition base_catalog :: catalog where
  "base_catalog oid = (if defaultDecoders oid = None then None else Some E_default)"

text \<open>Overrides come as a list, later entries win; none of them is a default decoder itself. The element decoder of json arrays is a leaf over text.\<close>

definition of_arrval :: "dval arrval \<Rightarrow> dval" where
  "of_arrval = rec_arrval DNull id (\<lambda>xs. DArr (map snd xs))"

definition array_text :: "dval leaf \<Rightarrow> nat \<Rightarrow> jsstr \<Rightarrow> dres" where
  "array_text leaf delim s = (case parseArrayLiteral leaf delim s of
       Some (Inr vs) \<Rightarrow> Inr (DArr (map of_arrval vs))
     | Some (Inl e) \<Rightarrow> Inl e
     | None \<Rightarrow> Inl (Thrown ''not reached''))"

definition buildDecoders :: "bool \<Rightarrow> (int \<times> decoder) list \<Rightarrow> json_bigints \<Rightarrow> catalog" where
  "buildDecoders supported overrides jb =
     (let d = E_user (jsonDecoder supported jb);
          ad = E_user (\<lambda>b. array_text (\<lambda>s. bigintJsonParser supported jb s None) 44 (from_utf8 b));
          m = (if jb = JB_number then base_catalog
               else base_catalog(114 \<mapsto> d, 3802 \<mapsto> d, 199 \<mapsto> ad, 3807 \<mapsto> ad))
      in fold (\<lambda>(oid, f) m. m(oid \<mapsto> E_user f)) overrides m)"

subsection \<open>Geometric and vector texts (src/geo.ts)\<close>

definition index_unit :: "nat \<Rightarrow> jsstr \<Rightarrow> int" where
  "index_unit c s = (let k = length (takeWhile (\<lambda>x. unat x \<noteq> c) s) in if k < length s then int k else - 1)"

definition index_from :: "nat \<Rightarrow> jsstr \<Rightarrow> int \<Rightarrow> int" where
  "index_from c s p = (let q = max 0 p; r = index_unit c (drop (nat q) s) in if r < 0 then - 1 else q + r)"

definition last_index :: "nat \<Rightarrow> jsstr \<Rightarrow> int" where
  "last_index c s = (let r = index_unit c (rev s) in if r < 0 then - 1 else int (length s) - 1 - r)"

text \<open>\<open>Number(s.slice(i, j))\<close>; \<open>slice\<close> clamps like \<open>subarray\<close>.\<close>

definition num_slice :: "jsstr \<Rightarrow> int \<Rightarrow> int \<Rightarrow> dval" where
  "num_slice s i j = DNum (js_number (subarray s i j))"

definition parsePointTuple :: "jsstr \<Rightarrow> dval list" where
  "parsePointTuple s = (let c = index_unit 44 s in [num_slice s 1 c, num_slice s (c + 1) (- 1)])"

definition parsePoint :: "jsstr \<Rightarrow> dval" where
  "parsePoint s = DObj (zip [asc ''x'', asc ''y''] (parsePointTuple s))"

definition parseLineTuple :: "jsstr \<Rightarrow> dval list" where
  "parseLineTuple s = (let c1 = index_unit 44 s; c2 = index_from 44 s (c1 + 1) in
     [num_slice s 1 c1, num_slice s (c1 + 1) c2, num_slice s (c2 + 1) (- 1)])"

definition parseLineAbc :: "jsstr \<Rightarrow> dval" where
  "parseLineAbc s = DObj (zip [asc ''a'', asc ''b'', asc ''c''] (parseLineTuple s))"

definition parseVector :: "jsstr \<Rightarrow> dres" where
  "parseVector s = json_parse s"

text \<open>\<open>Float32Array.from\<close> of the parsed array; a text that is no JSON array, which the server does not send for
  these types, is left as an error.\<close>

definition to_f32 :: "dval \<Rightarrow> jnum" where
  "to_f32 v = (case v of DNum x \<Rightarrow> fround x | DNull \<Rightarrow> Fin 0 | DBool b \<Rightarrow> Fin (if b then 1 else 0) | DStr s \<Rightarrow> fround (js_number s) | _ \<Rightarrow> NaN)"

definition parse_f32 :: "jsstr \<Rightarrow> dres" where
  "parse_f32 s = rbind (json_parse s) (\<lambda>v. case v of DArr vs \<Rightarrow> Inr (DF32 (map to_f32 vs)) | _ \<Rightarrow> Inl (Thrown ''not an array''))"

fun comma_split :: "jsstr \<Rightarrow> jsstr list" where
  "comma_split [] = [[]]"
| "comma_split (c # s) = (if unat c = 44 then [] # comma_split s
     else case comma_split s of w # ws \<Rightarrow> (c # w) # ws | [] \<Rightarrow> [[c]])"

definition sparse_pair :: "jsstr \<Rightarrow> jnum \<times> jnum" where
  "sparse_pair w = (let c = index_unit 58 w in (js_number (subarray w 0 c), js_number (subarray w (c + 1) (int (length w)))))"

definition sparse_parts :: "jsstr \<Rightarrow> jnum \<times> (jnum \<times> jnum) list" where
  "sparse_parts s = (let slash = last_index 47 s; body = subarray s 1 (slash - 1) in
     (js_number (subarray s (slash + 1) (int (length s))), if body = [] then [] else map sparse_pair (comma_split body)))"

definition parseSparsevec :: "jsstr \<Rightarrow> dval" where
  "parseSparsevec s = (let (dim, ps) = sparse_parts s in
     DObj [(asc ''dim'', DNum dim), (asc ''indices'', DArr (map (DNum \<circ> fst) ps)), (asc ''values'', DArr (map (DNum \<circ> snd) ps))])"

text \<open>An index outside the dimension, which the server does not send, is left as an error.\<close>

fun dense_set :: "(jnum \<times> jnum) list \<Rightarrow> jnum list \<Rightarrow> js_error + jnum list" where
  "dense_set [] vs = Inr vs"
| "dense_set ((i, v) # ps) vs = (case i of
     Fin q \<Rightarrow> if q = of_int \<lfloor>q\<rfloor> \<and> 1 \<le> \<lfloor>q\<rfloor> \<and> \<lfloor>q\<rfloor> \<le> int (length vs) then dense_set ps (vs[nat (\<lfloor>q\<rfloor> - 1) := v]) else Inl (Thrown ''index'')
   | _ \<Rightarrow> Inl (Thrown ''index''))"

definition sparseToDense :: "jsstr \<Rightarrow> dres" where
  "sparseToDense s = (let (dim, ps) = sparse_parts s in
     case dim of
       Fin q \<Rightarrow> if q = of_int \<lfloor>q\<rfloor> \<and> 0 \<le> \<lfloor>q\<rfloor> \<and> \<lfloor>q\<rfloor> < 2 ^ 32
         then rbind (dense_set ps (replicate (nat \<lfloor>q\<rfloor>) (Fin 0))) (\<lambda>vs. Inr (DArr (map DNum vs))) else Inl (OutOfRange \<lfloor>q\<rfloor>)
     | _ \<Rightarrow> Inl (OutOfRange 0))"

definition extLeafFor :: "int \<Rightarrow> string option \<Rightarrow> dval leaf option" where
  "extLeafFor elem js =
     (if elem = 600 then (if js = Some ''xy'' then Some (\<lambda>s. Inr (parsePoint s)) else if js = Some ''tuple'' then Some (\<lambda>s. Inr (DArr (parsePointTuple s))) else None)
      else if elem = 628 then (if js = Some ''abc'' then Some (\<lambda>s. Inr (parseLineAbc s)) else if js = Some ''tuple'' then Some (\<lambda>s. Inr (DArr (parseLineTuple s))) else None)
      else if elem = EXT_VECTOR \<or> elem = EXT_HALFVEC then (if js = Some ''array'' then Some parseVector else if js = Some ''f32'' then Some parse_f32 else None)
      else if elem = EXT_SPARSEVEC then (if js = Some ''sparse'' then Some (\<lambda>s. Inr (parseSparsevec s)) else if js = Some ''array'' then Some sparseToDense else None)
      else None)"

text \<open>\<open>b.toString(encoding, s, e)\<close> clamps its bounds and is empty when they cross.\<close>

definition buf_range :: "bytes \<Rightarrow> int \<Rightarrow> int \<Rightarrow> bytes" where
  "buf_range b s e = (let s' = nat (max 0 s); e' = nat (max 0 (min e (int (length b)))) in take (e' - s') (drop s' b))"

definition extAt :: "ccol \<Rightarrow> cell_fn option" where
  "extAt c = map_option (\<lambda>leaf b p l. leaf (from_utf8 (buf_range b p (p + l)))) (extLeafFor (co_oid c) (co_js c))"

subsection \<open>Registered types (src/registry.ts)\<close>

record custom_def =
  cd_ascii :: bool
  cd_delim :: nat
  cd_targets :: "string \<Rightarrow> dval leaf option"
  cd_rawTargets :: "string \<Rightarrow> cell_fn option"

type_synonym registry = "int \<Rightarrow> custom_def option"

text \<open>\<open>defineType\<close>: the table of definitions and the next sentinel; a delimiter that is not one code unit is
  refused before a sentinel is taken. The markers check that a target exists.\<close>

record type_table =
  nextCustomOid :: int
  DEFS :: registry

definition no_types :: type_table where
  "no_types = \<lparr>nextCustomOid = - 2000, DEFS = (\<lambda>_. None)\<rparr>"

record custom_spec =
  cs_ascii :: "bool option"
  cs_delim :: "jsstr option"
  cs_targets :: "(string \<Rightarrow> dval leaf option) option"
  cs_rawTargets :: "(string \<Rightarrow> cell_fn option) option"

definition or_empty :: "('k \<Rightarrow> 'v option) option \<Rightarrow> 'k \<Rightarrow> 'v option" where
  "or_empty = case_option (\<lambda>_. None) id"

definition bad_delim :: "custom_spec \<Rightarrow> bool" where
  "bad_delim spec \<longleftrightarrow> (case cs_delim spec of Some d \<Rightarrow> length d \<noteq> 1 | None \<Rightarrow> False)"

definition defineType :: "custom_spec \<Rightarrow> type_table \<Rightarrow> js_error + int \<times> type_table" where
  "defineType spec t =
     (if bad_delim spec then Inl (Thrown ''delim must be a single character'')
      else let oid = nextCustomOid t;
               d = \<lparr>cd_ascii = (cs_ascii spec = Some True), cd_delim = (case cs_delim spec of Some d \<Rightarrow> unat (hd d) | None \<Rightarrow> 44),
                    cd_targets = or_empty (cs_targets spec), cd_rawTargets = or_empty (cs_rawTargets spec)\<rparr>
           in Inr (oid, t\<lparr>nextCustomOid := oid - 1, DEFS := (DEFS t)(oid \<mapsto> d)\<rparr>))"

definition check_target :: "custom_def \<Rightarrow> string option \<Rightarrow> js_error + unit" where
  "check_target d target = (case target of
       Some t \<Rightarrow> if cd_targets d t = None \<and> cd_rawTargets d t = None then Inl (Thrown ''no target'') else Inr ()
     | None \<Rightarrow> Inr ())"

text \<open>The sentinels in use are exactly those between the next one and -2000, so a new one is fresh, never an
  OID of PostgreSQL or of geo.ts, and registering a type keeps all others.\<close>

definition table_ok :: "type_table \<Rightarrow> bool" where
  "table_ok t \<longleftrightarrow> dom (DEFS t) = {nextCustomOid t <.. - 2000} \<and> nextCustomOid t \<le> - 2000"

lemma no_types_ok: "table_ok no_types"
  by (simp add: table_ok_def no_types_def)

lemma defineType_fresh:
  assumes "table_ok t" "defineType spec t = Inr (oid, t')"
  shows "table_ok t'" "DEFS t oid = None" "oid \<le> - 2000" "\<exists>d. DEFS t' = (DEFS t)(oid \<mapsto> d)"
proof -
  have d: "oid \<notin> dom (DEFS t)" using assms by (simp add: table_ok_def defineType_def Let_def split: if_splits)
  then show "DEFS t oid = None" by (simp add: domIff)
  have n: "oid = nextCustomOid t" "nextCustomOid t' = oid - 1" "nextCustomOid t \<le> - 2000"
    using assms by (auto simp: table_ok_def defineType_def Let_def split: if_splits)
  then show "oid \<le> - 2000" by simp
  show ex: "\<exists>d. DEFS t' = (DEFS t)(oid \<mapsto> d)"
    using assms(2) by (auto simp: defineType_def Let_def split: if_splits)
  then have "dom (DEFS t') = insert oid {oid <.. - 2000}" 
    using assms(1) n by (metis dom_fun_upd option.distinct(1) table_ok_def)
  also have "\<dots> = {oid - 1 <.. - 2000}" using n by auto
  finally show "table_ok t'" using n by (simp add: table_ok_def)
qed

definition text_slice :: "bool \<Rightarrow> bytes \<Rightarrow> int \<Rightarrow> int \<Rightarrow> js_error + jsstr" where
  "text_slice latin = (if latin then lat1 else utf8_slice)"

definition customAt :: "registry \<Rightarrow> ccol \<Rightarrow> cell_fn option" where
  "customAt defs c =
     (if co_array c \<noteq> None then None
      else case defs (co_oid c) of
        None \<Rightarrow> None
      | Some d \<Rightarrow>
          let bare = (\<lambda>b p l. rbind (text_slice (cd_ascii d) b p l) (\<lambda>s. Inr (DStr s))) in
          Some (case co_js c of
            None \<Rightarrow> bare
          | Some t \<Rightarrow> (case cd_rawTargets d t of
              Some raw \<Rightarrow> raw
            | None \<Rightarrow> (case cd_targets d t of
                Some f \<Rightarrow> (\<lambda>b p l. rbind (text_slice (cd_ascii d) b p l) f)
              | None \<Rightarrow> bare))))"

definition customDelimFor :: "registry \<Rightarrow> int \<Rightarrow> nat option" where
  "customDelimFor defs elem = map_option cd_delim (defs elem)"

definition customLeafFor :: "registry \<Rightarrow> int \<Rightarrow> string option \<Rightarrow> dval leaf option" where
  "customLeafFor defs elem target =
     (case defs elem of
        None \<Rightarrow> None
      | Some d \<Rightarrow> Some (case target of
            None \<Rightarrow> (\<lambda>s. Inr (DStr s))
          | Some t \<Rightarrow> (case cd_targets d t of
              Some f \<Rightarrow> f
            | None \<Rightarrow> (case cd_rawTargets d t of
                Some raw \<Rightarrow> (\<lambda>s. let b = (if cd_ascii d then latin1 s else utf8 s) in raw b 0 (int (length b)))
              | None \<Rightarrow> (\<lambda>s. Inr (DStr s))))))"

subsection \<open>Array columns\<close>

definition str_leaf :: "dval leaf" where "str_leaf s = Inr (DStr s)"
definition num_leaf :: "dval leaf" where "num_leaf s = Inr (DNum (js_number s))"
definition bigint_leaf :: "dval leaf" where "bigint_leaf s = rbind (js_bigint s) (\<lambda>n. Inr (DBig n))"

definition parseInstantMs :: "jsstr \<Rightarrow> jnum" where
  "parseInstantMs s = instant_num (instantFromString s)"

definition elemLeafFor :: "registry \<Rightarrow> int \<Rightarrow> string option \<Rightarrow> dval leaf" where
  "elemLeafFor defs elem js =
     (case customLeafFor defs elem js of Some f \<Rightarrow> f | None \<Rightarrow>
     (case extLeafFor elem js of Some f \<Rightarrow> f | None \<Rightarrow>
        if elem = 16 then (\<lambda>s. Inr (DBool (s = asc ''t'')))
        else if elem = 17 then (\<lambda>s. Inr (DBuf (bytea_text s)))
        else if elem = 20 then (if js = Some ''number'' then num_leaf else if js = Some ''string'' then str_leaf else bigint_leaf)
        else if elem \<in> {21, 23, 26, 700, 701} then num_leaf
        else if elem = 1700 then (if js = Some ''number'' then num_leaf else if js = Some ''bigint'' then bigint_leaf else str_leaf)
        else if elem = 790 then (if js = Some ''number'' then num_leaf else str_leaf)
        else if elem \<in> {114, 3802} then json_parse
        else if elem \<in> {1082, 1114, 1184} then
          (if js = Some ''ms'' then (\<lambda>s. Inr (DNum (parseInstantMs s))) else if js = Some ''string'' then str_leaf
           else (\<lambda>s. Inr (js_date (parseInstantMs s))))
        else str_leaf))"

definition arrayDecoderForElem :: "registry \<Rightarrow> int \<Rightarrow> string option \<Rightarrow> decoder" where
  "arrayDecoderForElem defs elem js b =
     array_text (elemLeafFor defs elem js)
       (if elem = 603 then 59 else case customDelimFor defs elem of Some d \<Rightarrow> d | None \<Rightarrow> 44) (from_utf8 b)"

subsection \<open>Tables\<close>

definition ASCII_COMMON :: "int list" where
  "ASCII_COMMON = [20, 1700, 1082, 1083, 1114, 1184, 1186, 2950]"

definition ASCII_EXTRA :: "int list" where
  "ASCII_EXTRA = [774, 829, 650, 869, 1266, 1560, 1562, 3220, 600, 601, 602, 603, 604, 628, 718,
     3904, 3906, 3908, 3910, 3912, 3926, 4451, 4532, 4533, 4534, 4535, 4536]"

definition ASCII_SAFE :: "int list" where
  "ASCII_SAFE = ASCII_COMMON @ ASCII_EXTRA"

definition is_instant :: "int \<Rightarrow> bool" where
  "is_instant oid \<longleftrightarrow> oid \<in> {1082, 1114, 1184}"

definition INT_OIDS :: "int list" where
  "INT_OIDS = [20, 21, 23, 26]"

definition defaultJs :: "int \<Rightarrow> string" where
  "defaultJs oid =
     (if oid = 16 then ''bool'' else if oid = 17 then ''bytea'' else if oid \<in> {114, 3802} then ''json''
      else if oid \<in> {21, 23, 26, 700, 701} then ''number''
      else if oid \<in> {20, 1700, 790} then ''string''
      else if oid \<in> {18, 19, 25, 1042, 1043, 1082, 1083, 1114, 1184, 1186, 2950} then ''string''
      else if oid \<in> set ASCII_SAFE then ''string'' else ''helper'')"

subsection \<open>Interpreted strategies\<close>

definition on_text :: "(bytes \<Rightarrow> int \<Rightarrow> int \<Rightarrow> js_error + jsstr) \<Rightarrow> (jsstr \<Rightarrow> dres) \<Rightarrow> cell_fn" where
  "on_text sl f b p l = rbind (sl b p l) f"

definition on_num :: "(bytes \<Rightarrow> int \<Rightarrow> int \<Rightarrow> js_error + jnum) \<Rightarrow> (jnum \<Rightarrow> dval) \<Rightarrow> cell_fn" where
  "on_num num f b p l = rbind (num b p l) (\<lambda>x. Inr (f x))"

definition txtUtf8 :: cell_fn where "txtUtf8 = on_text utf8_slice (\<lambda>s. Inr (DStr s))"
definition txtLatin1 :: cell_fn where "txtLatin1 = on_text lat1 (\<lambda>s. Inr (DStr s))"
definition txtBool :: cell_fn where "txtBool b p l = Inr (DBool (byte_is b p {116}))"
definition txtJson :: cell_fn where "txtJson = on_text utf8_slice json_parse"
definition txtBytea :: cell_fn where "txtBytea = on_text lat1 (\<lambda>s. Inr (DBuf (bytea_text s)))"
definition txtBigInt :: cell_fn where "txtBigInt = on_text lat1 bigint_leaf"

definition tsParse :: "bytes \<Rightarrow> int \<Rightarrow> int \<Rightarrow> jnum" where
  "tsParse b p l = instant_num (instantFromBytes b (nat p) (nat l))"

definition tsDate :: cell_fn where "tsDate b p l = Inr (js_date (tsParse b p l))"
definition tsEpoch :: cell_fn where "tsEpoch b p l = Inr (DNum (tsParse b p l))"

text \<open>IEEE-754 interchange formats: \<open>e\<close> exponent bits, \<open>m\<close> fraction bits.\<close>

definition ieee :: "nat \<Rightarrow> nat \<Rightarrow> int \<Rightarrow> jnum" where
  "ieee e m n =
     (let neg = (n div 2 ^ (e + m)) mod 2 = 1; ex = (n div 2 ^ m) mod 2 ^ e; fr = n mod 2 ^ m; bias = 2 ^ (e - 1) - 1;
          sg = (if neg then - 1 else (1 :: rat)) in
      if ex = 2 ^ e - 1 then (if fr = 0 then Inf neg else NaN)
      else if ex = 0 then (if fr = 0 then (if neg then NegZ else Fin 0) else Fin (sg * of_int fr * 2 powi (1 - bias - int m)))
      else Fin (sg * of_int (2 ^ m + fr) * 2 powi (ex - bias - int m)))"

definition rd64 :: "bytes \<Rightarrow> int \<Rightarrow> jnum" where
  "rd64 b p = double (of_int (readLen b p * 4294967296 + readLen b (p + 4) mod 4294967296))"

definition bin_read :: "(bytes \<Rightarrow> int \<Rightarrow> js_error + int) \<Rightarrow> (int \<Rightarrow> dval) \<Rightarrow> cell_fn" where
  "bin_read rd f b p l = rbind (rd b p) (\<lambda>n. Inr (f n))"

definition int_num :: "int \<Rightarrow> dval" where "int_num n = DNum (Fin (of_int n))"

definition binBool :: cell_fn where "binBool b p l = Inr (DBool (byte_is b p {1}))"
definition binInt2 :: cell_fn where "binInt2 = bin_read (read_int 2) int_num"
definition binInt4 :: cell_fn where "binInt4 = bin_read (read_int 4) int_num"
definition binOid :: cell_fn where "binOid = bin_read (read_uint 4) int_num"
definition binFloat4 :: cell_fn where "binFloat4 = bin_read (read_uint 4) (\<lambda>n. DNum (ieee 8 23 n))"
definition binFloat8 :: cell_fn where "binFloat8 = bin_read (read_uint 8) (\<lambda>n. DNum (ieee 11 52 n))"
definition binInt8Num :: cell_fn where "binInt8Num b p l = Inr (DNum (rd64 b p))"

definition binInt8Str :: cell_fn where
  "binInt8Str b p l = (case rd64 b p of
       Fin q \<Rightarrow> if - 9007199254740991 \<le> q \<and> q \<le> 9007199254740991 then Inr (DStr (dec_int \<lfloor>q\<rfloor>))
         else rbind (read_int 8 b p) (\<lambda>n. Inr (DStr (dec_int n)))
     | _ \<Rightarrow> rbind (read_int 8 b p) (\<lambda>n. Inr (DStr (dec_int n))))"

definition binInt8BigInt :: cell_fn where "binInt8BigInt = bin_read (read_int 8) DBig"

text \<open>\<open>binTimestampMs\<close> as the double it returns, rounded at every step; the quotient by 1000 is exact.\<close>

definition bin_ts :: "bytes \<Rightarrow> int \<Rightarrow> jnum" where
  "bin_ts b p = (let hi = readLen b p; lo = readLen b (p + 4) mod 4294967296;
        x = double (of_int (hi * 4294967)); y = double (fin_val x + of_int ((hi * 296 + lo) div 1000))
      in double (fin_val y + 946684800000))"

definition binTsEpoch :: cell_fn where "binTsEpoch b p l = Inr (DNum (bin_ts b p))"
definition binTsDate :: cell_fn where "binTsDate b p l = Inr (js_date (bin_ts b p))"

definition bin_date_ms :: "int \<Rightarrow> jnum" where
  "bin_date_ms n = double (of_int (n * 86400000 + 946684800000))"

definition binDateEpoch :: cell_fn where "binDateEpoch = bin_read (read_int 4) (\<lambda>n. DNum (bin_date_ms n))"
definition binDateDate :: cell_fn where "binDateDate = bin_read (read_int 4) (\<lambda>n. js_date (bin_date_ms n))"

text \<open>The bytes of the cell; the part past the end of the body would be uninitialised memory, so a cell that
  overruns it is left as an error.\<close>

definition binBytea :: cell_fn where
  "binBytea b p l = (if l < 0 then Inl (OutOfRange l) else if 0 \<le> p \<and> p + l \<le> int (length b) then Inr (DBuf (take (nat l) (drop (nat p) b))) else Inl BufferOutOfBounds)"

definition uuid_text :: "jsstr \<Rightarrow> jsstr" where
  "uuid_text h = subarray h 0 8 @ u16 45 # subarray h 8 12 @ u16 45 # subarray h 12 16 @ u16 45 # subarray h 16 20 @ u16 45 # subarray h 20 32"

definition binUuid :: cell_fn where
  "binUuid b p l = Inr (DStr (uuid_text (hex_bytes (buf_range b p (p + 16)))))"

definition binText :: cell_fn where "binText = on_text utf8_slice (\<lambda>s. Inr (DStr s))"

definition wrap :: "decoder \<Rightarrow> cell_fn" where
  "wrap d b p l = d (subarray b p (p + l))"

subsection \<open>Choosing the interpreted decoder\<close>

definition pickBinary :: "int \<Rightarrow> string option \<Rightarrow> js_error + cell_fn" where
  "pickBinary oid js =
     (if oid = 16 then Inr binBool else if oid = 21 then Inr binInt2 else if oid = 23 then Inr binInt4 else if oid = 26 then Inr binOid
      else if oid = 20 then Inr (if js = Some ''number'' then binInt8Num else if js = Some ''string'' then binInt8Str else binInt8BigInt)
      else if oid = 700 then Inr binFloat4 else if oid = 701 then Inr binFloat8
      else if oid = 1114 \<or> oid = 1184 then Inr (if js = Some ''ms'' then binTsEpoch else binTsDate)
      else if oid = 1082 then Inr (if js = Some ''ms'' then binDateEpoch else binDateDate)
      else if oid = 2950 then Inr binUuid else if oid = 17 then Inr binBytea
      else if oid \<in> {18, 19, 25, 1042, 1043} then Inr binText
      else Inl (Thrown ''no binary decoder''))"

definition pickText :: "int \<Rightarrow> string option \<Rightarrow> cell_fn option" where
  "pickText oid js0 =
     (let js1 = (if js0 = None \<and> is_instant oid then Some ''date'' else js0) in
      if js1 \<in> {Some ''date'', Some ''ms''} \<and> is_instant oid then Some (if js1 = Some ''date'' then tsDate else tsEpoch)
      else let js2 = (if js1 \<in> {Some ''date'', Some ''ms''} then Some ''string'' else js1) in
        if js2 = Some ''bigint'' \<or> (js2 = None \<and> oid = 20) then Some txtBigInt
        else if oid = 700 \<and> js2 = Some ''precise'' then Some (on_num txtF4Precise DNum)
        else let js3 = (if oid = 700 \<and> js2 \<noteq> Some ''string'' then None else js2);
                 eff = (case js3 of Some t \<Rightarrow> t | None \<Rightarrow> defaultJs oid) in
          if eff = ''number'' then Some (if oid \<in> set INT_OIDS then on_num txtInt DNum else on_num txtF64 DNum)
          else if eff = ''string'' then Some (if oid \<in> set ASCII_SAFE then txtLatin1 else txtUtf8)
          else if eff = ''latin1'' then Some txtLatin1
          else if eff = ''bool'' then Some txtBool
          else if eff = ''json'' then Some txtJson
          else if eff = ''bytea'' then Some txtBytea
          else None)"

text \<open>\<open>dateParse\<close> is what the json walk uses of \<open>Date.parse\<close>.\<close>

definition pickDecoder :: "(jsstr \<Rightarrow> jnum) \<Rightarrow> registry \<Rightarrow> catalog \<Rightarrow> ccol \<Rightarrow> js_error + cell_fn" where
  "pickDecoder dateParse defs m c =
     (if co_binary c then pickBinary (co_oid c) (co_js c)
      else case co_json c of
        Some mk \<Rightarrow>
          let base = wrap (decoderFor (co_oid c) m) in
          Inr (if \<not> specNeedsWalk (jm_spec mk) then base else (\<lambda>b p l. rbind (base b p l) (buildJsonWalk dateParse mk)))
      | None \<Rightarrow>
          if is_custom m (co_oid c) then Inr (wrap (decoderFor (co_oid c) m))
          else case co_array c of
            Some (e, js) \<Rightarrow> Inr (wrap (arrayDecoderForElem defs e js))
          | None \<Rightarrow>
              (case customAt defs c of Some f \<Rightarrow> Inr f | None \<Rightarrow>
              (case extAt c of Some f \<Rightarrow> Inr f | None \<Rightarrow>
              (case pickText (co_oid c) (co_js c) of Some f \<Rightarrow> Inr f | None \<Rightarrow> Inr (wrap (decoderFor (co_oid c) m))))))"

subsection \<open>The compiled engine's snippets and helpers\<close>

definition tsFromBytes :: "bool \<Rightarrow> cell_fn" where
  "tsFromBytes date b p l =
     (let (r, valid) = instantTemplate (at_bytes b) (nat p) (nat p + nat l);
          ems = (case r of Some t \<Rightarrow> if valid then double (of_int t) else NaN | None \<Rightarrow> NaN)
      in Inr (if date then js_date ems else DNum ems))"

definition inlineSnippet :: "int \<Rightarrow> string option \<Rightarrow> cell_fn option" where
  "inlineSnippet oid js0 =
     (let js1 = (if js0 = None \<and> is_instant oid then Some ''date'' else js0) in
      if js1 \<in> {Some ''date'', Some ''ms''} \<and> is_instant oid then Some (tsFromBytes (js1 = Some ''date''))
      else let js = (if js1 \<in> {Some ''date'', Some ''ms''} then Some ''string'' else js1) in
        if js = Some ''bigint'' \<or> (js = None \<and> oid = 20) then Some (on_text lat1 (\<lambda>s. rbind (js_bigint s) (\<lambda>n. Inr (DBig n))))
        else if oid = 700 \<and> js \<noteq> Some ''string''
        then Some (if js = Some ''precise'' then on_num f64FromBytes (\<lambda>x. DNum (fround x)) else on_num f64FromBytes DNum)
        else let eff = (case js of Some t \<Rightarrow> t | None \<Rightarrow> defaultJs oid) in
          if eff = ''number'' then Some (if oid \<in> set INT_OIDS then on_num intFromBytes DNum else on_num f64FromBytes DNum)
          else if eff = ''string'' then Some (on_text (if oid \<in> set ASCII_SAFE then lat1 else utf8_slice) (\<lambda>s. Inr (DStr s)))
          else if eff = ''latin1'' then Some (on_text lat1 (\<lambda>s. Inr (DStr s)))
          else if eff = ''bool'' then Some (\<lambda>b p l. Inr (DBool (byte_is b p {116})))
          else if eff = ''json'' then Some (on_text utf8_slice json_parse)
          else if eff = ''bytea'' then Some (on_text lat1 (\<lambda>s. Inr (DBuf (bytea_text s))))
          else None)"

definition binarySnippet :: "int \<Rightarrow> string option \<Rightarrow> cell_fn option" where
  "binarySnippet oid js =
     (if oid = 16 then Some (\<lambda>b p l. Inr (DBool (byte_is b p {1})))
      else if oid = 21 then Some (bin_read (read_int 2) int_num)
      else if oid = 23 then Some (bin_read (read_int 4) int_num)
      else if oid = 26 then Some (bin_read (read_uint 4) int_num)
      else if oid = 20 then Some
        (if js = Some ''number'' then (\<lambda>b p l. Inr (DNum (rd64 b p)))
         else if js = Some ''string'' then binInt8Str
         else bin_read (read_int 8) DBig)
      else if oid = 700 then Some (bin_read (read_uint 4) (\<lambda>n. DNum (ieee 8 23 n)))
      else if oid = 701 then Some (bin_read (read_uint 8) (\<lambda>n. DNum (ieee 11 52 n)))
      else if oid \<in> {1114, 1184} then Some (if js = Some ''ms'' then (\<lambda>b p l. Inr (DNum (bin_ts b p))) else (\<lambda>b p l. Inr (js_date (bin_ts b p))))
      else if oid = 1082 then Some (if js = Some ''ms'' then bin_read (read_int 4) (\<lambda>n. DNum (bin_date_ms n)) else bin_read (read_int 4) (\<lambda>n. js_date (bin_date_ms n)))
      else if oid = 2950 then Some binUuid
      else if oid = 17 then Some binBytea
      else if oid \<in> {18, 19, 25, 1042, 1043} then Some (on_text utf8_slice (\<lambda>s. Inr (DStr s)))
      else None)"

definition byteaAt :: cell_fn where
  "byteaAt b p l = Inr (DBuf (bytea_text (from_utf8 (buf_range b p (p + l)))))"

definition helperFor :: "int \<Rightarrow> catalog \<Rightarrow> cell_fn" where
  "helperFor oid m = (if oid = 17 \<and> m 17 = Some E_default then byteaAt else wrap (decoderFor oid m))"

definition helperForCol :: "registry \<Rightarrow> catalog \<Rightarrow> ccol \<Rightarrow> cell_fn" where
  "helperForCol defs m c =
     (if m (co_oid c) = None then
        (case co_array c of
           Some (e, js) \<Rightarrow> wrap (arrayDecoderForElem defs e js)
         | None \<Rightarrow>
             (case customAt defs c of Some f \<Rightarrow> f | None \<Rightarrow>
             (case extAt c of Some f \<Rightarrow> f | None \<Rightarrow> helperFor (co_oid c) m)))
      else helperFor (co_oid c) m)"

text \<open>\<open>columnLines\<close>: the code of one column; \<open>scan\<close> is the generated json scanner of a marker.\<close>

definition columnLines :: "(json_marker \<Rightarrow> cell_fn) \<Rightarrow> registry \<Rightarrow> catalog \<Rightarrow> ccol \<Rightarrow> js_error + cell_fn" where
  "columnLines scan defs m c =
     (if co_binary c then (case binarySnippet (co_oid c) (co_js c) of Some f \<Rightarrow> Inr f | None \<Rightarrow> Inl (Thrown ''no binary decoder''))
      else case co_json c of
        Some mk \<Rightarrow> Inr (scan mk)
      | None \<Rightarrow>
          Inr (case (if co_array c \<noteq> None \<or> is_custom m (co_oid c) then None else inlineSnippet (co_oid c) (co_js c)) of
            Some f \<Rightarrow> f
          | None \<Rightarrow> helperForCol defs m c))"

subsection \<open>The engines choose the same decoders\<close>

lemma tsFromBytes_eq: "tsFromBytes date = (if date then tsDate else tsEpoch)"
  by (intro ext) (auto simp: tsFromBytes_def tsDate_def tsEpoch_def tsParse_def template_refines instant_num_def instant_of_def
      split: prod.splits option.splits)

lemma on_num_precise: "on_num txtF64 (\<lambda>x. DNum (fround x)) = on_num txtF4Precise DNum"
  by (intro ext) (simp add: on_num_def txtF4Precise_def rbind_def split: sum.split)

lemma snippet_strategies:
  "on_text lat1 (\<lambda>s. rbind (js_bigint s) (\<lambda>n. Inr (DBig n))) = txtBigInt"
  "on_num f64FromBytes (\<lambda>x. DNum (fround x)) = on_num txtF4Precise DNum"
  "on_num f64FromBytes DNum = on_num txtF64 DNum" "on_num intFromBytes DNum = on_num txtInt DNum"
  "on_text (if a then lat1 else utf8_slice) (\<lambda>s. Inr (DStr s)) = (if a then txtLatin1 else txtUtf8)"
  "on_text lat1 (\<lambda>s. Inr (DStr s)) = txtLatin1"
  "(\<lambda>b p l. Inr (DBool (byte_is b p {116}))) = txtBool"
  "on_text utf8_slice json_parse = txtJson" "on_text lat1 (\<lambda>s. Inr (DBuf (bytea_text s))) = txtBytea"
  by (simp_all add: txtBigInt_def bigint_leaf_def [abs_def] on_num_precise f64FromBytes_txtF64 intFromBytes_txtInt txtLatin1_def
      txtUtf8_def txtBool_def [abs_def] txtJson_def txtBytea_def)

lemma inline_pick: "inlineSnippet oid js = pickText oid js"
proof (cases "oid = 700")
  case False
  show ?thesis
    unfolding inlineSnippet_def pickText_def Let_def tsFromBytes_eq snippet_strategies
    by (simp only: False simp_thms if_False)
next
  case True
  have d: "defaultJs 700 = ''number''" "700 \<notin> set INT_OIDS" "\<not> is_instant 700" "(700::int) \<noteq> 20"
    by (simp_all add: defaultJs_def INT_OIDS_def is_instant_def)
  show ?thesis
    unfolding True inlineSnippet_def pickText_def Let_def tsFromBytes_eq snippet_strategies
    by (simp add: d)
qed

lemma binary_pick: "pickBinary oid js = (case binarySnippet oid js of Some f \<Rightarrow> Inr f | None \<Rightarrow> Inl (Thrown ''no binary decoder''))"
  by (auto simp: pickBinary_def binarySnippet_def binBool_def [abs_def] binInt2_def binInt4_def binOid_def binInt8Num_def [abs_def]
      binInt8BigInt_def binFloat4_def binFloat8_def binTsEpoch_def [abs_def] binTsDate_def [abs_def] binDateEpoch_def binDateDate_def binText_def)

text \<open>What a column has to satisfy: a registered type has a sentinel OID and a target that is not one of the
  built-in names; catalog entries that are not the user's are default ones; an array column does not have
  the OID of a default decoder; a bytea column has no target or a built-in one.\<close>

definition BUILTIN_TARGETS :: "string list" where
  "BUILTIN_TARGETS = [''number'', ''string'', ''latin1'', ''date'', ''ms'', ''bigint'', ''bool'', ''json'', ''bytea'']"

definition built_in :: "string option \<Rightarrow> bool" where
  "built_in js \<longleftrightarrow> (case js of None \<Rightarrow> False | Some t \<Rightarrow> t \<in> set BUILTIN_TARGETS)"

definition catalog_ok :: "catalog \<Rightarrow> bool" where
  "catalog_ok m \<longleftrightarrow> (\<forall>oid. m oid = Some E_default \<longrightarrow> defaultDecoders oid \<noteq> None)"

definition decodable :: "registry \<Rightarrow> ccol \<Rightarrow> bool" where
  "decodable defs c \<longleftrightarrow> co_json c = None \<and>
     (defs (co_oid c) \<noteq> None \<longrightarrow> co_oid c \<le> - 2000 \<and> \<not> built_in (co_js c)) \<and>
     (co_array c \<noteq> None \<longrightarrow> defaultDecoders (co_oid c) = None) \<and>
     (co_oid c = 17 \<longrightarrow> co_js c = None \<or> built_in (co_js c))"

lemma build_catalog_ok: "catalog_ok (buildDecoders supported overrides jb)"
proof -
  have f: "catalog_ok m \<Longrightarrow> catalog_ok (fold (\<lambda>(oid, f) m. m(oid \<mapsto> E_user f)) ovs m)" for m ovs
  proof (induction ovs arbitrary: m)
    case (Cons x ovs)
    have "catalog_ok (m(fst x \<mapsto> E_user (snd x)))" using Cons.prems by (simp add: catalog_ok_def)
    from Cons.IH [OF this] show ?case by (simp add: case_prod_beta)
  qed simp
  show ?thesis unfolding buildDecoders_def Let_def
    by (rule f) (auto simp: catalog_ok_def base_catalog_def split: if_splits)
qed

lemma other_target: "t \<notin> set BUILTIN_TARGETS \<Longrightarrow> oid \<noteq> 700 \<Longrightarrow> inlineSnippet oid (Some t) = None"
  by (simp add: inlineSnippet_def BUILTIN_TARGETS_def Let_def)

lemma sentinel_no_inline:
  assumes "oid \<le> - 2000" "\<not> built_in js"
  shows "inlineSnippet oid js = None" "defaultDecoders oid = None"
proof -
  have "oid \<notin> set ASCII_SAFE" "\<not> is_instant oid" "oid \<noteq> 20" "oid \<noteq> 700"
    using assms(1) by (auto simp: ASCII_SAFE_def ASCII_COMMON_def ASCII_EXTRA_def is_instant_def)
  moreover have "defaultJs oid = ''helper''" using assms(1) calculation by (simp add: defaultJs_def)
  ultimately have d: "inlineSnippet oid None = None" and n: "oid \<noteq> 700"
    by (simp_all add: inlineSnippet_def Let_def)
  show "inlineSnippet oid js = None"
  proof (cases js)
    case (Some t)
    with assms(2) have "t \<notin> set BUILTIN_TARGETS" by (simp add: built_in_def)
    with Some n show ?thesis by (simp add: other_target)
  qed (simp add: d)
  show "defaultDecoders oid = None" using assms(1) by (simp add: defaultDecoders_def)
qed

lemma ext_no_inline:
  assumes "extLeafFor oid js = Some f"
  shows "inlineSnippet oid js = None" "defaultDecoders oid = None"
proof -
  have o: "oid \<in> {600, 628, - 1000, - 1002, - 1003}"
    using assms by (auto simp: extLeafFor_def EXT_VECTOR_def EXT_HALFVEC_def EXT_SPARSEVEC_def split: if_splits)
  have j: "js \<in> {Some ''xy'', Some ''tuple'', Some ''abc'', Some ''array'', Some ''f32'', Some ''sparse''}"
    using assms by (auto simp: extLeafFor_def split: if_splits)
  obtain t where t: "js = Some t" "t \<notin> set BUILTIN_TARGETS" using j by (auto simp: BUILTIN_TARGETS_def)
  from o have "oid \<noteq> 700" by auto
  with t show "inlineSnippet oid js = None" by (simp add: other_target)
  from o show "defaultDecoders oid = None" by (auto simp: defaultDecoders_def)
qed

lemma bytea_inline: "js = None \<or> built_in js \<Longrightarrow> inlineSnippet 17 js \<noteq> None"
  by (auto simp: inlineSnippet_def Let_def built_in_def BUILTIN_TARGETS_def is_instant_def defaultJs_def split: option.splits)

lemma engines_cell:
  assumes m: "catalog_ok m" and c: "decodable defs c"
  shows "columnLines scan defs m c = pickDecoder dateParse defs m c"
proof (cases "co_binary c")
  case True
  then show ?thesis by (simp add: columnLines_def pickDecoder_def binary_pick)
next
  case tx: False
  have j: "co_json c = None" using c by (simp add: decodable_def)
  show ?thesis
  proof (cases "is_custom m (co_oid c)")
    case True
    then have "m (co_oid c) \<noteq> None" "m (co_oid c) \<noteq> Some E_default" by (auto simp: is_custom_def split: option.splits entry.splits)
    with True tx j show ?thesis by (auto simp: columnLines_def pickDecoder_def helperForCol_def helperFor_def)
  next
    case nc: False
    have none: "defaultDecoders (co_oid c) = None \<Longrightarrow> m (co_oid c) = None"
      using nc m by (auto simp: is_custom_def catalog_ok_def split: option.splits entry.splits)
    show ?thesis
    proof (cases "co_array c")
      case (Some p)
      with none c have "m (co_oid c) = None" by (simp add: decodable_def)
      with Some nc tx j show ?thesis by (cases p) (simp add: columnLines_def pickDecoder_def helperForCol_def)
    next
      case na: None
      show ?thesis
      proof (cases "customAt defs c")
        case (Some f)
        then have "defs (co_oid c) \<noteq> None" by (auto simp: customAt_def split: if_splits option.splits)
        with c sentinel_no_inline none have "inlineSnippet (co_oid c) (co_js c) = None" "m (co_oid c) = None" by (auto simp: decodable_def)
        with Some nc na tx j show ?thesis by (simp add: columnLines_def pickDecoder_def helperForCol_def)
      next
        case cu: None
        show ?thesis
        proof (cases "extAt c")
          case (Some f)
          then have "inlineSnippet (co_oid c) (co_js c) = None" "m (co_oid c) = None"
            using ext_no_inline none by (auto simp: extAt_def)
          with Some cu nc na tx j show ?thesis by (simp add: columnLines_def pickDecoder_def helperForCol_def)
        next
          case ex: None
          have "inlineSnippet (co_oid c) (co_js c) = None \<Longrightarrow> co_oid c \<noteq> 17" using c bytea_inline [of "co_js c"] by (auto simp: decodable_def)
          with ex cu nc na tx j show ?thesis
            by (auto simp: columnLines_def pickDecoder_def helperForCol_def helperFor_def inline_pick split: option.splits)
        qed
      qed
    qed
  qed
qed

end
