(* ===== verification/Cursor.thy ===== *)
theory Cursor
  imports Prelude
begin

section \<open>Server-side cursors (src/cursor.ts)\<close>

text \<open>
  \<open>Cursor\<close> as a record and one function per method. An \<open>async\<close> method is cut at its awaits: what it
  waits for is a member of \<open>cu_pending\<close>, and the rest of the method runs when the environment answers
  (a query's rows or error, the acquired lease). Calls of \<open>next()\<close>, \<open>open()\<close> and \<open>close()\<close> are numbered and
  \<open>cu_log\<close> holds how their promises settled; the statements sent to a connection and the leases given
  back are recorded in order. Queries, leases and timers themselves belong to the environment.
\<close>

subsection \<open>Data\<close>

datatype cstate = C_idle | C_open | C_done

datatype cursor_error =
    C_failed nat     \<comment> \<open>what a query or \<open>acquire()\<close> rejected with\<close>
  | C_idle_for       \<comment> \<open>the consumer stopped calling \<open>next()\<close>\<close>
  | C_exceeded       \<comment> \<open>\<open>maxDurationMs\<close>\<close>
  | C_no_lease       \<comment> \<open>the TypeError of reading a property of \<open>null\<close>\<close>

record cursor_opts =
  co_sql :: jsstr
  co_fetchSize :: "int option"
  co_snapshot :: "jsstr option"
  co_fullScan :: bool
  co_idleTimeoutMs :: "int option"
  co_maxDurationMs :: "int option"

datatype 'r settled = S_batch "'r list" | S_null | S_void | S_threw cursor_error

text \<open>What a finished \<open>close()\<close> or \<open>cleanup()\<close> returns to.\<close>

datatype 'r kont =
    K_call nat               \<comment> \<open>the caller of \<open>close()\<close>\<close>
  | K_timer                  \<comment> \<open>\<open>void this.abort(...)\<close>\<close>
  | K_next nat "'r settled"  \<comment> \<open>\<open>next()\<close>, which then returns this\<close>
  | K_rethrow nat            \<comment> \<open>the catch block of \<open>next()\<close>: \<open>throw this.err\<close>\<close>
  | K_open cursor_error              \<comment> \<open>the catch block of \<open>open()\<close>: \<open>throw e\<close>\<close>

datatype 'r await =
    A_acquire
  | A_setup nat "jsstr list"   \<comment> \<open>a setup statement on this connection, and those left\<close>
  | A_opening nat              \<comment> \<open>\<open>await this.opening\<close> in \<open>next()\<close>\<close>
  | A_open nat                 \<comment> \<open>a caller holding the promise of \<open>open()\<close>\<close>
  | A_fetch nat
  | A_close nat "'r kont"
  | A_commit nat "'r kont"
  | A_rollback "'r kont"
  | A_cleanup "'r kont"

datatype promise = P_pending | P_ok | P_rejected cursor_error

record 'r cursor =
  cu_state :: cstate
  cu_err :: "cursor_error option"
  cu_lease :: "nat option"
  cu_idleTimer :: "nat option"
  cu_deadline :: bool
  cu_opening :: "promise option"
  cu_fetching :: bool
  cu_pending :: "'r await list"
  cu_armed :: "nat list"             \<comment> \<open>idle timers that are running\<close>
  cu_nextTimer :: nat
  cu_sent :: "(nat \<times> jsstr) list"
  cu_ended :: "nat list"             \<comment> \<open>connections dropped by \<open>conn.end()\<close>\<close>
  cu_released :: "nat list"
  cu_log :: "(nat \<times> 'r settled) list"
  cu_unhandled :: "cursor_error list"        \<comment> \<open>rejections of promises nobody holds\<close>

definition new_cursor :: "'r cursor" where
  "new_cursor = \<lparr>cu_state = C_idle, cu_err = None, cu_lease = None, cu_idleTimer = None, cu_deadline = False,
     cu_opening = None, cu_fetching = False, cu_pending = [], cu_armed = [], cu_nextTimer = 0, cu_sent = [],
     cu_ended = [], cu_released = [], cu_log = [], cu_unhandled = []\<rparr>"

subsection \<open>Statements\<close>

definition idleMs :: "cursor_opts \<Rightarrow> int" where
  "idleMs p = (case co_idleTimeoutMs p of Some n \<Rightarrow> n | None \<Rightarrow> 300000)"

definition fetch_size :: "cursor_opts \<Rightarrow> int" where
  "fetch_size p = max 1 (case co_fetchSize p of Some n \<Rightarrow> n | None \<Rightarrow> 5000)"

definition quote_text :: "jsstr \<Rightarrow> jsstr" where
  "quote_text s = concat (map (\<lambda>c. if c = u16 39 then [c, c] else [c]) s)"

text \<open>\<open>nm\<close> is the cursor's name; an empty snapshot counts as none.\<close>

definition snapshot_of :: "cursor_opts \<Rightarrow> jsstr option" where
  "snapshot_of p = (if co_snapshot p = Some [] then None else co_snapshot p)"

definition begin_sql :: "cursor_opts \<Rightarrow> jsstr" where
  "begin_sql p = (if snapshot_of p \<noteq> None then asc ''begin isolation level repeatable read read only'' else asc ''begin'')"

definition setup_sql :: "cursor_opts \<Rightarrow> jsstr \<Rightarrow> jsstr list" where
  "setup_sql p nm =
     (if 0 < idleMs p then [asc ''set local idle_in_transaction_session_timeout = '' @ dec_int (idleMs p)] else []) @
     (if co_fullScan p then [asc ''set local cursor_tuple_fraction = 1.0''] else []) @
     (case snapshot_of p of Some s \<Rightarrow> [asc ''set transaction snapshot '' @ u16 39 # quote_text s @ [u16 39]] | None \<Rightarrow> []) @
     [asc ''declare '' @ nm @ asc '' no scroll cursor for '' @ co_sql p]"

definition fetch_sql :: "cursor_opts \<Rightarrow> jsstr \<Rightarrow> jsstr" where
  "fetch_sql p nm = asc ''fetch '' @ dec_int (fetch_size p) @ asc '' from '' @ nm"

definition close_sql :: "jsstr \<Rightarrow> jsstr" where
  "close_sql nm = asc ''close '' @ nm"

subsection \<open>Steps\<close>

definition conn_query :: "nat \<Rightarrow> jsstr \<Rightarrow> 'r await \<Rightarrow> 'r cursor \<Rightarrow> 'r cursor" where
  "conn_query l sql a s = s\<lparr>cu_sent := cu_sent s @ [(l, sql)], cu_pending := cu_pending s @ [a]\<rparr>"

definition cur_settle :: "nat \<Rightarrow> 'r settled \<Rightarrow> 'r cursor \<Rightarrow> 'r cursor" where
  "cur_settle n r s = s\<lparr>cu_log := cu_log s @ [(n, r)]\<rparr>"

definition clear_idle :: "'r cursor \<Rightarrow> 'r cursor" where
  "clear_idle s = (case cu_idleTimer s of None \<Rightarrow> s
     | Some t \<Rightarrow> s\<lparr>cu_armed := filter (\<lambda>u. u \<noteq> t) (cu_armed s), cu_idleTimer := None\<rparr>)"

definition clearTimers :: "'r cursor \<Rightarrow> 'r cursor" where
  "clearTimers s = (clear_idle s)\<lparr>cu_deadline := False\<rparr>"

definition release_lease :: "'r cursor \<Rightarrow> 'r cursor" where
  "release_lease s = (case cu_lease s of None \<Rightarrow> s
     | Some l \<Rightarrow> s\<lparr>cu_released := cu_released s @ [l], cu_lease := None\<rparr>)"

text \<open>Where a finished \<open>close()\<close> or \<open>cleanup()\<close> goes on; an error it threw itself takes the place of what
  would have been returned or thrown.\<close>

definition continue_with :: "cursor_error option \<Rightarrow> 'r kont \<Rightarrow> 'r cursor \<Rightarrow> 'r cursor" where
  "continue_with threw k s = (case k of
       K_call n \<Rightarrow> cur_settle n (case threw of None \<Rightarrow> S_void | Some e \<Rightarrow> S_threw e) s
     | K_timer \<Rightarrow> (case threw of None \<Rightarrow> s | Some e \<Rightarrow> s\<lparr>cu_unhandled := cu_unhandled s @ [e]\<rparr>)
     | K_next n r \<Rightarrow> cur_settle n (case threw of None \<Rightarrow> r | Some e \<Rightarrow> S_threw e) s
     | K_rethrow n \<Rightarrow> cur_settle n (S_threw (case threw of Some e \<Rightarrow> e | None \<Rightarrow> (case cu_err s of Some e \<Rightarrow> e | None \<Rightarrow> C_no_lease)))
         (s\<lparr>cu_fetching := False\<rparr>)
     | K_open e \<Rightarrow> s\<lparr>cu_opening := Some (P_rejected (case threw of Some e' \<Rightarrow> e' | None \<Rightarrow> e))\<rparr>)"

definition finish_close :: "'r kont \<Rightarrow> 'r cursor \<Rightarrow> 'r cursor" where
  "finish_close k s = continue_with None k (release_lease s)"

definition cur_close :: "jsstr \<Rightarrow> 'r kont \<Rightarrow> 'r cursor \<Rightarrow> 'r cursor" where
  "cur_close nm k s =
     (if cu_state s = C_done then continue_with None k s
      else let wasOpen = (cu_state s = C_open \<and> cu_lease s \<noteq> None);
               s1 = clearTimers (s\<lparr>cu_state := C_done\<rparr>) in
        case cu_lease s1 of
          Some l \<Rightarrow> if wasOpen \<and> cu_err s1 = None then conn_query l (close_sql nm) (A_close l k) s1 else finish_close k s1
        | None \<Rightarrow> finish_close k s1)"

definition cleanup :: "cursor_error \<Rightarrow> 'r kont \<Rightarrow> 'r cursor \<Rightarrow> 'r cursor" where
  "cleanup e k s =
     (let s1 = clearTimers (s\<lparr>cu_err := Some e, cu_state := C_done\<rparr>) in
      case cu_lease s1 of
        None \<Rightarrow> continue_with None k s1
      | Some l \<Rightarrow>
          if \<not> cu_fetching s1 then conn_query l (asc ''rollback'') (A_cleanup k) s1
          else s1\<lparr>cu_ended := cu_ended s1 @ [l], cu_pending := cu_pending s1 @ [A_cleanup k]\<rparr>)"

text \<open>The end of \<open>cleanup()\<close> reads \<open>this.lease\<close> again, after its await.\<close>

definition cleanup_ends :: "'r kont \<Rightarrow> 'r cursor \<Rightarrow> 'r cursor" where
  "cleanup_ends k s = (if cu_lease s = None then continue_with (Some C_no_lease) k s else continue_with None k (release_lease s))"

definition cur_abort :: "cursor_error \<Rightarrow> 'r cursor \<Rightarrow> 'r cursor" where
  "cur_abort why s = (if cu_state s = C_done \<or> cu_err s \<noteq> None then s else cleanup why K_timer s)"

definition start_opening :: "'r cursor \<Rightarrow> 'r cursor" where
  "start_opening s = s\<lparr>cu_state := C_open, cu_opening := Some P_pending, cu_pending := cu_pending s @ [A_acquire]\<rparr>"

definition cur_open :: "nat \<Rightarrow> 'r cursor \<Rightarrow> 'r cursor" where
  "cur_open n s =
     (case cu_err s of
        Some e \<Rightarrow> cur_settle n (S_threw e) s
      | None \<Rightarrow>
          if cu_state s \<noteq> C_idle
          then (if cu_opening s = None then cur_settle n S_void s else s\<lparr>cu_pending := cu_pending s @ [A_open n]\<rparr>)
          else (start_opening s)\<lparr>cu_pending := cu_pending (start_opening s) @ [A_open n]\<rparr>)"

definition opening_turn :: "cursor_opts \<Rightarrow> nat \<Rightarrow> jsstr list \<Rightarrow> 'r cursor \<Rightarrow> 'r cursor" where
  "opening_turn p l left s = (case left of
       q # qs \<Rightarrow> conn_query l q (A_setup l qs) s
     | [] \<Rightarrow> (if co_maxDurationMs p \<noteq> None \<and> co_maxDurationMs p \<noteq> Some 0 then s\<lparr>cu_deadline := True\<rparr> else s)\<lparr>cu_opening := Some P_ok\<rparr>)"

definition cur_next :: "nat \<Rightarrow> 'r cursor \<Rightarrow> 'r cursor" where
  "cur_next n s =
     (case cu_err s of
        Some e \<Rightarrow> cur_settle n (S_threw e) s
      | None \<Rightarrow>
          if cu_state s = C_done then cur_settle n S_null s
          else let s1 = (if cu_state s = C_idle then start_opening s else s)
               in s1\<lparr>cu_pending := cu_pending s1 @ [A_opening n]\<rparr>)"

text \<open>\<open>next()\<close> once the cursor is open: the fetch, whose failures all go to the catch block.\<close>

definition next_fetch :: "cursor_opts \<Rightarrow> jsstr \<Rightarrow> nat \<Rightarrow> 'r cursor \<Rightarrow> 'r cursor" where
  "next_fetch p nm n s =
     (case cu_err s of
        Some e \<Rightarrow> cur_settle n (S_threw e) s
      | None \<Rightarrow>
          let s1 = (clear_idle s)\<lparr>cu_fetching := True\<rparr> in
          case cu_lease s1 of
            None \<Rightarrow> cleanup C_no_lease (K_rethrow n) s1
          | Some l \<Rightarrow> conn_query l (fetch_sql p nm) (A_fetch n) s1)"

definition arm_idle :: "cursor_opts \<Rightarrow> 'r cursor \<Rightarrow> 'r cursor" where
  "arm_idle p s = (if 0 < idleMs p
     then s\<lparr>cu_idleTimer := Some (cu_nextTimer s), cu_armed := cu_armed s @ [cu_nextTimer s], cu_nextTimer := Suc (cu_nextTimer s)\<rparr> else s)"

definition fetched :: "cursor_opts \<Rightarrow> jsstr \<Rightarrow> nat \<Rightarrow> 'r list \<Rightarrow> 'r cursor \<Rightarrow> 'r cursor" where
  "fetched p nm n rows s =
     (let s1 = s\<lparr>cu_fetching := False\<rparr> in
      if int (length rows) < fetch_size p
      then cur_close nm (K_next n (if rows = [] then S_null else S_batch rows)) s1
      else cur_settle n (S_batch rows) (arm_idle p s1))"

subsection \<open>Events\<close>

text \<open>The answer to an await: a query's rows (none for a command), the acquired lease, or an error.\<close>

datatype 'r answer = Rows "'r list" | Lease nat | Fails nat

fun resume :: "cursor_opts \<Rightarrow> jsstr \<Rightarrow> 'r await \<Rightarrow> 'r answer \<Rightarrow> 'r cursor \<Rightarrow> 'r cursor option" where
  "resume p nm A_acquire (Lease l) s =
     Some (conn_query l (begin_sql p) (A_setup l (setup_sql p nm)) (s\<lparr>cu_lease := Some l\<rparr>))"
| "resume p nm A_acquire (Fails e) s = Some (s\<lparr>cu_opening := Some (P_rejected (C_failed e))\<rparr>)"
| "resume p nm (A_setup l left) (Rows _) s = Some (opening_turn p l left s)"
| "resume p nm (A_setup l left) (Fails e) s = Some (cleanup (C_failed e) (K_open (C_failed e)) s)"
| "resume p nm (A_opening n) (Rows _) s = (case cu_opening s of
       Some P_ok \<Rightarrow> Some (next_fetch p nm n s)
     | Some (P_rejected e) \<Rightarrow> Some (cur_settle n (S_threw e) s)
     | _ \<Rightarrow> None)"
| "resume p nm (A_open n) (Rows _) s = (case cu_opening s of
       Some P_ok \<Rightarrow> Some (cur_settle n S_void s)
     | Some (P_rejected e) \<Rightarrow> Some (cur_settle n (S_threw e) s)
     | _ \<Rightarrow> None)"
| "resume p nm (A_fetch n) (Rows rows) s = Some (fetched p nm n rows s)"
| "resume p nm (A_fetch n) (Fails e) s =
     Some (cleanup (case cu_err s of Some e' \<Rightarrow> e' | None \<Rightarrow> C_failed e) (K_rethrow n) s)"
| "resume p nm (A_close l k) (Rows _) s = Some (conn_query l (asc ''commit'') (A_commit l k) s)"
| "resume p nm (A_close l k) (Fails _) s = Some (conn_query l (asc ''rollback'') (A_rollback k) s)"
| "resume p nm (A_commit l k) (Rows _) s = Some (finish_close k s)"
| "resume p nm (A_commit l k) (Fails _) s = Some (conn_query l (asc ''rollback'') (A_rollback k) s)"
| "resume p nm (A_rollback k) (Rows _) s = Some (finish_close k s)"
| "resume p nm (A_rollback k) (Fails _) s = Some (finish_close k s)"
| "resume p nm (A_cleanup k) (Rows _) s = Some (cleanup_ends k s)"
| "resume p nm (A_cleanup k) (Fails _) s = Some (cleanup_ends k s)"
| "resume p nm _ _ s = None"

datatype 'r cevent =
    E_open nat | E_next nat | E_close nat
  | E_answer "'r await" "'r answer"
  | E_idle_fires nat
  | E_deadline_fires

definition cur_apply :: "cursor_opts \<Rightarrow> jsstr \<Rightarrow> 'r cevent \<Rightarrow> 'r cursor \<Rightarrow> 'r cursor" where
  "cur_apply p nm ev s = (case ev of
       E_open n \<Rightarrow> cur_open n s
     | E_next n \<Rightarrow> cur_next n s
     | E_close n \<Rightarrow> cur_close nm (K_call n) s
     | E_answer a r \<Rightarrow>
         if a \<in> set (cu_pending s)
         then (case resume p nm a r (s\<lparr>cu_pending := remove1 a (cu_pending s)\<rparr>) of Some t \<Rightarrow> t | None \<Rightarrow> s)
         else s
     | E_idle_fires t \<Rightarrow>
         if t \<in> set (cu_armed s) then cur_abort C_idle_for (s\<lparr>cu_armed := filter (\<lambda>u. u \<noteq> t) (cu_armed s)\<rparr>) else s
     | E_deadline_fires \<Rightarrow> if cu_deadline s then cur_abort C_exceeded (s\<lparr>cu_deadline := False\<rparr>) else s)"

definition cur_run :: "cursor_opts \<Rightarrow> jsstr \<Rightarrow> 'r cevent list \<Rightarrow> 'r cursor \<Rightarrow> 'r cursor" where
  "cur_run p nm evs s = fold (cur_apply p nm) evs s"

subsection \<open>Draining\<close>

text \<open>\<open>all()\<close> on a connection that answers in turn: \<open>rows\<close> is what the query has left to yield, \<open>serve\<close>
  the answer to an await, and \<open>drive\<close> answers until nothing is left to answer.\<close>

definition serve :: "cursor_opts \<Rightarrow> nat \<Rightarrow> 'r list \<Rightarrow> 'r await \<Rightarrow> 'r answer \<times> 'r list" where
  "serve p l rows a = (case a of
       A_acquire \<Rightarrow> (Lease l, rows)
     | A_fetch n \<Rightarrow> (Rows (take (nat (fetch_size p)) rows), drop (nat (fetch_size p)) rows)
     | _ \<Rightarrow> (Rows [], rows))"

definition runnable :: "'r cursor \<Rightarrow> 'r await \<Rightarrow> bool" where
  "runnable s a = (case a of A_opening n \<Rightarrow> cu_opening s \<noteq> Some P_pending | A_open n \<Rightarrow> cu_opening s \<noteq> Some P_pending | _ \<Rightarrow> True)"

fun drive :: "nat \<Rightarrow> cursor_opts \<Rightarrow> jsstr \<Rightarrow> nat \<Rightarrow> 'r list \<Rightarrow> 'r cursor \<Rightarrow> 'r list \<times> 'r cursor" where
  "drive 0 p nm l rows s = (rows, s)"
| "drive (Suc f) p nm l rows s =
     (case filter (runnable s) (cu_pending s) of
        [] \<Rightarrow> (rows, s)
      | a # _ \<Rightarrow> drive f p nm l (snd (serve p l rows a)) (cur_apply p nm (E_answer a (fst (serve p l rows a))) s))"

fun cur_all :: "nat \<Rightarrow> cursor_opts \<Rightarrow> jsstr \<Rightarrow> nat \<Rightarrow> nat \<Rightarrow> 'r list list \<Rightarrow> 'r list \<Rightarrow> 'r cursor \<Rightarrow> (cursor_error + 'r list) option \<times> 'r cursor" where
  "cur_all 0 p nm l n batches rows s = (None, s)"
| "cur_all (Suc f) p nm l n batches rows s =
     (let (rows', s') = drive 20 p nm l rows (cur_next n s) in
      case map_of (rev (cu_log s')) n of
        Some (S_batch b) \<Rightarrow> cur_all f p nm l (Suc n) (batches @ [b]) rows' s'
      | Some S_null \<Rightarrow> (Some (Inr (concat batches)), s')
      | Some (S_threw e) \<Rightarrow> (Some (Inl e), s')
      | _ \<Rightarrow> (None, s'))"

subsection \<open>One lease, given back at most once\<close>

fun await_conn :: "'r await \<Rightarrow> nat option" where
  "await_conn (A_setup l qs) = Some l"
| "await_conn (A_close l k) = Some l"
| "await_conn (A_commit l k) = Some l"
| "await_conn a = None"

definition owns :: "nat \<Rightarrow> 'r cursor \<Rightarrow> bool" where
  "owns l s \<longleftrightarrow> cu_lease s = Some l \<or> cu_released s = [l]"

definition lease_ok :: "'r cursor \<Rightarrow> bool" where
  "lease_ok s \<longleftrightarrow>
     (cu_state s = C_idle \<longrightarrow> A_acquire \<notin> set (cu_pending s) \<and> cu_lease s = None \<and> cu_released s = []) \<and>
     count_list (cu_pending s) A_acquire \<le> 1 \<and>
     (A_acquire \<in> set (cu_pending s) \<longrightarrow> cu_lease s = None \<and> cu_released s = []) \<and>
     (cu_lease s \<noteq> None \<longrightarrow> cu_released s = []) \<and> length (cu_released s) \<le> 1 \<and>
     (\<forall>x\<in>set (cu_sent s). owns (fst x) s) \<and> (\<forall>l\<in>set (cu_ended s). owns l s) \<and>
     (\<forall>a\<in>set (cu_pending s). \<forall>l. await_conn a = Some l \<longrightarrow> owns l s)"

lemma ok_query:
  "lease_ok s \<Longrightarrow> owns l s \<Longrightarrow> a \<noteq> A_acquire \<Longrightarrow> await_conn a \<in> {None, Some l} \<Longrightarrow> lease_ok (conn_query l q a s)"
  by (auto simp: lease_ok_def conn_query_def owns_def)

lemma ok_await: "lease_ok s \<Longrightarrow> a \<noteq> A_acquire \<Longrightarrow> await_conn a = None \<Longrightarrow> lease_ok (s\<lparr>cu_pending := cu_pending s @ [a]\<rparr>)"
  by (auto simp: lease_ok_def owns_def)

lemma ok_settle: "lease_ok s \<Longrightarrow> lease_ok (cur_settle n r s)"
  by (simp add: lease_ok_def cur_settle_def owns_def)

lemma ok_fields [simp]:
  "lease_ok (s\<lparr>cu_fetching := b\<rparr>) = lease_ok s" "lease_ok (s\<lparr>cu_deadline := b\<rparr>) = lease_ok s"
  "lease_ok (s\<lparr>cu_opening := o_p\<rparr>) = lease_ok s" "lease_ok (s\<lparr>cu_armed := ts\<rparr>) = lease_ok s"
  "lease_ok (s\<lparr>cu_unhandled := es\<rparr>) = lease_ok s" "lease_ok (s\<lparr>cu_idleTimer := t\<rparr>) = lease_ok s"
  "lease_ok (s\<lparr>cu_nextTimer := j\<rparr>) = lease_ok s" "lease_ok (s\<lparr>cu_err := e\<rparr>) = lease_ok s"
  by (simp_all add: lease_ok_def owns_def)

lemma ok_done: "lease_ok s \<Longrightarrow> lease_ok (s\<lparr>cu_state := C_done\<rparr>)"
  by (simp add: lease_ok_def owns_def)

lemma ok_clear_idle [simp]: "lease_ok (clear_idle s) = lease_ok s"
proof -
  have "lease_ok (s\<lparr>cu_armed := a, cu_idleTimer := t\<rparr>) = lease_ok s" for a t by (simp add: lease_ok_def owns_def)
  then show ?thesis by (simp add: clear_idle_def split: option.split)
qed

lemma clear_idle_fields [simp]:
  "cu_lease (clear_idle s) = cu_lease s" "cu_state (clear_idle s) = cu_state s" "cu_err (clear_idle s) = cu_err s"
  "cu_pending (clear_idle s) = cu_pending s" "cu_released (clear_idle s) = cu_released s" "cu_fetching (clear_idle s) = cu_fetching s"
  "cu_sent (clear_idle s) = cu_sent s" "cu_ended (clear_idle s) = cu_ended s" "cu_log (clear_idle s) = cu_log s" "cu_opening (clear_idle s) = cu_opening s"
  by (simp_all add: clear_idle_def split: option.split)

lemma ok_clearTimers [simp]: "lease_ok (clearTimers s) = lease_ok s"
  by (simp add: clearTimers_def)

lemma clearTimers_fields [simp]:
  "cu_lease (clearTimers s) = cu_lease s" "cu_state (clearTimers s) = cu_state s" "cu_err (clearTimers s) = cu_err s"
  "cu_fetching (clearTimers s) = cu_fetching s" "cu_pending (clearTimers s) = cu_pending s" "cu_released (clearTimers s) = cu_released s"
  "cu_sent (clearTimers s) = cu_sent s" "cu_ended (clearTimers s) = cu_ended s" "cu_log (clearTimers s) = cu_log s" "cu_opening (clearTimers s) = cu_opening s"
  by (simp_all add: clearTimers_def)

lemma ok_continue: "lease_ok s \<Longrightarrow> lease_ok (continue_with t k s)"
  by (auto simp: continue_with_def ok_settle split: kont.split option.split)

lemma ok_release: "lease_ok s \<Longrightarrow> cu_state s \<noteq> C_idle \<or> cu_lease s = None \<Longrightarrow> lease_ok (release_lease s)"
  by (auto simp: lease_ok_def release_lease_def owns_def split: option.split)

lemma not_idle: "lease_ok s \<Longrightarrow> cu_state s \<noteq> C_idle \<or> cu_lease s = None"
  by (auto simp: lease_ok_def)

lemma ok_finish: "lease_ok s \<Longrightarrow> lease_ok (finish_close k s)"
  unfolding finish_close_def by (intro ok_continue ok_release not_idle)

lemma ok_close: "lease_ok s \<Longrightarrow> lease_ok (cur_close nm k s)"
  by (auto simp: cur_close_def Let_def ok_continue ok_finish ok_done owns_def intro!: ok_query split: option.split)

lemma ok_cleanup: "lease_ok s \<Longrightarrow> lease_ok (cleanup e k s)"
proof -
  assume s: "lease_ok s"
  let ?s = "clearTimers (s\<lparr>cu_err := Some e, cu_state := C_done\<rparr>)"
  have t: "lease_ok ?s" using ok_done [OF s] by (simp add: lease_ok_def owns_def)
  have "cu_lease ?s = Some l \<Longrightarrow> lease_ok (?s\<lparr>cu_ended := cu_ended ?s @ [l], cu_pending := cu_pending ?s @ [A_cleanup k]\<rparr>)" for l
    using t by (auto simp: lease_ok_def owns_def)
  then show ?thesis
    using t by (auto simp: cleanup_def Let_def ok_continue owns_def intro!: ok_query split: option.split)
qed

lemma ok_cleanup_ends: "lease_ok s \<Longrightarrow> lease_ok (cleanup_ends k s)"
  by (auto simp: cleanup_ends_def intro!: ok_continue ok_release dest: not_idle)

lemma ok_abort: "lease_ok s \<Longrightarrow> lease_ok (cur_abort e s)"
  by (simp add: cur_abort_def ok_cleanup)

lemma ok_start_opening: "lease_ok s \<Longrightarrow> cu_state s = C_idle \<Longrightarrow> lease_ok (start_opening s)"
  by (auto simp: lease_ok_def start_opening_def owns_def count_list_0_iff)

lemma ok_open: "lease_ok s \<Longrightarrow> lease_ok (cur_open n s)"
  by (auto simp: cur_open_def ok_settle intro!: ok_await ok_start_opening split: option.split)

lemma ok_next: "lease_ok s \<Longrightarrow> lease_ok (cur_next n s)"
  by (auto simp: cur_next_def Let_def ok_settle intro!: ok_await ok_start_opening split: option.split)

lemma ok_opening_turn: "lease_ok s \<Longrightarrow> owns l s \<Longrightarrow> lease_ok (opening_turn p l qs s)"
  by (auto simp: opening_turn_def intro!: ok_query split: list.split)

lemma ok_next_fetch: "lease_ok s \<Longrightarrow> lease_ok (next_fetch p nm n s)"
  by (auto simp: next_fetch_def Let_def ok_settle ok_cleanup owns_def intro!: ok_query split: option.split)

lemma ok_arm: "lease_ok (arm_idle p s) = lease_ok s"
  by (simp add: arm_idle_def lease_ok_def owns_def)

lemma ok_fetched: "lease_ok s \<Longrightarrow> lease_ok (fetched p nm n rows s)"
  by (simp add: fetched_def Let_def ok_close ok_settle ok_arm)

lemma ok_acquired:
  assumes "lease_ok s" "A_acquire \<in> set (cu_pending s)"
  shows "lease_ok (s\<lparr>cu_pending := remove1 A_acquire (cu_pending s), cu_lease := Some l\<rparr>)"
proof -
  have "count_list (remove1 A_acquire (cu_pending s)) A_acquire = 0"
    using assms(1) unfolding lease_ok_def count_list_remove1 by simp
  then have "A_acquire \<notin> set (remove1 A_acquire (cu_pending s))" unfolding count_list_0_iff .
  moreover have "\<forall>a\<in>set (cu_pending s). await_conn a = None"
    using assms by (auto simp: lease_ok_def owns_def)
  then have "\<forall>a\<in>set (remove1 A_acquire (cu_pending s)). await_conn a = None"
    using set_remove1_subset by fast
  ultimately show ?thesis using assms by (auto simp: lease_ok_def owns_def)
qed

lemma ok_answered: "lease_ok s \<Longrightarrow> lease_ok (s\<lparr>cu_pending := remove1 a (cu_pending s)\<rparr>)"
proof -
  assume s: "lease_ok s"
  have "count_list (remove1 a (cu_pending s)) A_acquire \<le> count_list (cu_pending s) A_acquire" by simp
  with s show ?thesis unfolding lease_ok_def owns_def by (auto dest: notin_set_remove1 intro: order_trans)
qed

lemma ok_resume:
  assumes ok: "lease_ok s" and a: "a \<in> set (cu_pending s)"
    and r: "resume p nm a r (s\<lparr>cu_pending := remove1 a (cu_pending s)\<rparr>) = Some t"
  shows "lease_ok t"
proof -
  let ?s = "s\<lparr>cu_pending := remove1 a (cu_pending s)\<rparr>"
  have s: "lease_ok ?s" by (rule ok_answered [OF ok])
  have own: "await_conn a = Some l \<Longrightarrow> owns l ?s" for l
    using ok a by (auto simp: lease_ok_def owns_def)
  have acq: "a = A_acquire \<Longrightarrow> lease_ok (?s\<lparr>cu_lease := Some l\<rparr>) \<and> owns l (?s\<lparr>cu_lease := Some l\<rparr>)" for l
    using ok_acquired [OF ok, of l] a by (simp add: owns_def)
  show ?thesis
    using r s own acq
    by (cases "(p, nm, a, r, ?s)" rule: resume.cases)
      (auto simp: ok_settle ok_finish ok_cleanup_ends ok_cleanup ok_fetched ok_next_fetch ok_opening_turn
        split: option.splits promise.splits intro!: ok_query)
qed

lemma ok_apply: "lease_ok s \<Longrightarrow> lease_ok (cur_apply p nm ev s)"
  by (auto simp: cur_apply_def ok_open ok_next ok_close ok_abort split: cevent.split option.split dest: ok_resume)

definition cur_init :: "'r cursor \<Rightarrow> bool" where
  "cur_init s \<longleftrightarrow> s = new_cursor"

definition cur_step :: "cursor_opts \<Rightarrow> jsstr \<Rightarrow> 'r cursor \<Rightarrow> 'r cursor \<Rightarrow> bool" where
  "cur_step p nm s t \<longleftrightarrow> (\<exists>ev. t = cur_apply p nm ev s)"

interpretation cursor_lease: invariant_of cur_init "cur_step p nm" lease_ok for p nm
proof
  show "lease_ok s" if "cur_init s" for s using that by (simp add: cur_init_def lease_ok_def new_cursor_def)
  show "lease_ok t" if "lease_ok s" "cur_step p nm s t" for s t using that ok_apply by (auto simp: cur_step_def)
qed

text \<open>C12: A cursor uses one connection and gives it back at most once. In every state a cursor can reach,
  whatever the calls, answers, failures and timers and however they interleave, all statements it ever
  sent and every connection it dropped are one connection, which it either still holds or has released,
  exactly once and never while holding it.\<close>

theorem cursor_one_lease:
  assumes "reach cur_init (cur_step p nm) s"
  shows "length (cu_released s) \<le> 1 \<and> (cu_lease s \<noteq> None \<longrightarrow> cu_released s = []) \<and>
    (\<forall>l\<in>fst ` set (cu_sent s) \<union> set (cu_ended s). cu_lease s = Some l \<and> cu_released s = [] \<or> cu_lease s = None \<and> cu_released s = [l])"
  using cursor_lease.reach_inv [OF assms] by (auto simp: lease_ok_def owns_def)

lemma reach_cur_run: "reach cur_init (cur_step p nm) s \<Longrightarrow> reach cur_init (cur_step p nm) (cur_run p nm evs s)"
proof (induction evs arbitrary: s)
  case (Cons e evs)
  have "reach cur_init (cur_step p nm) (cur_apply p nm e s)"
    by (rule reach_step [OF Cons.prems]) (auto simp: cur_step_def)
  from Cons.IH [OF this] show ?case by (simp add: cur_run_def)
qed (simp add: cur_run_def)

lemma reach_new_cursor: "reach cur_init (cur_step p nm) new_cursor"
  by (rule reach_init) (simp add: cur_init_def)

lemmas cur_eval = snapshot_of_def cur_run_def cur_apply_def cur_next_def cur_close_def start_opening_def new_cursor_def conn_query_def
  next_fetch_def fetched_def fetch_size_def setup_sql_def idleMs_def opening_turn_def cur_settle_def finish_close_def continue_with_def
  clearTimers_def clear_idle_def release_lease_def Let_def

definition demo_opts :: cursor_opts where
  "demo_opts = \<lparr>co_sql = asc ''select 1'', co_fetchSize = Some 2, co_snapshot = None, co_fullScan = False,
     co_idleTimeoutMs = Some 0, co_maxDurationMs = None\<rparr>"

text \<open>A consumer that calls \<open>close()\<close> while its first \<open>next()\<close> is still acquiring the connection.\<close>

definition closed_early :: "nat cevent list" where
  "closed_early = [E_next 0, E_close 1, E_answer A_acquire (Lease 7), E_answer (A_setup 7 (setup_sql demo_opts (asc ''c''))) (Rows []),
     E_answer (A_setup 7 []) (Rows []), E_answer (A_opening 0) (Rows []), E_answer (A_fetch 0) (Rows [5])]"

theorem cursor_one_lease_witness:
  "\<exists>s :: nat cursor. reach cur_init (cur_step demo_opts (asc ''c'')) s \<and> cu_lease s = Some 7 \<and> cu_released s = [] \<and> fst ` set (cu_sent s) = {7}"
proof -
  let ?s = "cur_run demo_opts (asc ''c'') [E_next 0, E_answer A_acquire (Lease 7)] (new_cursor :: nat cursor)"
  have r: "reach cur_init (cur_step demo_opts (asc ''c'')) ?s" by (rule reach_cur_run [OF reach_new_cursor])
  have e: "cu_lease ?s = Some 7" "fst ` set (cu_sent ?s) = {7}" by (simp_all add: cur_eval)
  from cursor_one_lease [OF r] r e show ?thesis by blast
qed

text \<open>The connection acquired after such a \<open>close()\<close> is never given back: both calls have settled, nothing is
  pending, no timer is armed, and the lease is held inside an open transaction.\<close>

lemma close_while_opening_leaks:
  "let s = cur_run demo_opts (asc ''c'') closed_early new_cursor in
     cu_log s = [(1, S_void), (0, S_batch [5])] \<and> cu_pending s = [] \<and> cu_armed s = [] \<and> \<not> cu_deadline s \<and>
     cu_state s = C_done \<and> cu_lease s = Some 7 \<and> cu_released s = [] \<and> (\<forall>x\<in>set (cu_sent s). snd x \<noteq> asc ''commit'' \<and> snd x \<noteq> asc ''rollback'')"
  by (simp add: closed_early_def demo_opts_def cur_eval) (simp add: asc_def begin_sql_def fetch_sql_def fetch_size_def dec_int_def)

subsection \<open>A drained cursor returns the whole result\<close>

definition cur_ready :: "nat \<Rightarrow> 'r cursor \<Rightarrow> bool" where
  "cur_ready l s \<longleftrightarrow> cu_state s = C_open \<and> cu_err s = None \<and> cu_lease s = Some l \<and> cu_opening s = Some P_ok \<and> cu_pending s = [] \<and>
     cu_released s = [] \<and> cu_armed s = (case cu_idleTimer s of None \<Rightarrow> [] | Some t \<Rightarrow> [t])"

definition cur_over :: "nat \<Rightarrow> 'r cursor \<Rightarrow> bool" where
  "cur_over l s \<longleftrightarrow> cu_state s = C_done \<and> cu_err s = None \<and> cu_lease s = None \<and> cu_pending s = [] \<and> cu_released s = [l] \<and>
     cu_armed s = [] \<and> \<not> cu_deadline s"

lemma drive_stop: "filter (runnable s) (cu_pending s) = [] \<Longrightarrow> drive f p nm l rows s = (rows, s)"
  by (cases f) simp_all

lemma drive_more: "filter (runnable s) (cu_pending s) = a # as \<Longrightarrow>
  drive (Suc f) p nm l rows s = drive f p nm l (snd (serve p l rows a)) (cur_apply p nm (E_answer a (fst (serve p l rows a))) s)"
  by simp

declare drive.simps [simp del]

lemma drive_setup:
  assumes "cu_pending s = [A_opening n, A_setup l qs]" "cu_opening s = Some P_pending"
  shows "\<exists>d. drive (Suc (length qs + f)) p nm l rows s =
    drive f p nm l rows (s\<lparr>cu_pending := [A_opening n], cu_opening := Some P_ok, cu_sent := cu_sent s @ map (Pair l) qs, cu_deadline := d\<rparr>)"
  using assms
proof (induction qs arbitrary: s)
  case Nil
  then show ?case
    by (cases s) (auto simp: drive_more runnable_def serve_def cur_apply_def opening_turn_def
        intro!: exI [where x = "co_maxDurationMs p \<noteq> None \<and> co_maxDurationMs p \<noteq> Some 0 \<or> cu_deadline s"])
next
  case (Cons q qs)
  let ?t = "s\<lparr>cu_sent := cu_sent s @ [(l, q)], cu_pending := [A_opening n, A_setup l qs]\<rparr>"
  have "drive (Suc (length (q # qs) + f)) p nm l rows s = drive (Suc (length qs + f)) p nm l rows ?t"
    using Cons.prems by (simp add: drive_more runnable_def serve_def cur_apply_def opening_turn_def conn_query_def)
  with Cons.IH [of ?t] Cons.prems show ?case by simp
qed

text \<open>The state in which a call of \<open>next()\<close> is about to fetch.\<close>

definition cur_fetches :: "nat \<Rightarrow> nat \<Rightarrow> 'r cursor \<Rightarrow> bool" where
  "cur_fetches l n s \<longleftrightarrow> cu_pending s = [A_opening n] \<and> cur_ready l (s\<lparr>cu_pending := []\<rparr>)"

lemma drive_open:
  "\<exists>s f. drive 20 p nm l rs (cur_next n new_cursor) = drive (Suc (Suc (Suc (Suc f)))) p nm l rs s \<and> cur_fetches l n s \<and>
    cu_log s = [] \<and> cu_sent s = map (Pair l) (begin_sql p # setup_sql p nm)"
proof -
  let ?q = "setup_sql p nm"
  let ?s = "new_cursor\<lparr>cu_state := C_open, cu_opening := Some P_pending, cu_lease := Some l,
      cu_sent := [(l, begin_sql p)], cu_pending := [A_opening n, A_setup l ?q]\<rparr>"
  have q: "length ?q \<le> 4" by (simp add: setup_sql_def split: option.split)
  then obtain f where f: "(20::nat) = Suc (Suc (length ?q + Suc (Suc (Suc (Suc f)))))"
    using le_Suc_ex [of "length ?q" 14] by (auto simp: algebra_simps)
  have "drive 20 p nm l rs (cur_next n new_cursor) = drive (Suc (length ?q + Suc (Suc (Suc (Suc f))))) p nm l rs ?s"
    unfolding f by (simp add: drive_more cur_next_def start_opening_def new_cursor_def runnable_def serve_def cur_apply_def conn_query_def)
  moreover obtain d where "drive (Suc (length ?q + Suc (Suc (Suc (Suc f))))) p nm l rs ?s = drive (Suc (Suc (Suc (Suc f)))) p nm l rs
      (?s\<lparr>cu_pending := [A_opening n], cu_opening := Some P_ok, cu_sent := cu_sent ?s @ map (Pair l) ?q, cu_deadline := d\<rparr>)"
    using drive_setup [of ?s n l ?q "Suc (Suc (Suc (Suc f)))" p nm rs] by auto
  ultimately show ?thesis
    by (intro exI conjI) (assumption | simp add: cur_fetches_def cur_ready_def new_cursor_def)+
qed

lemma ready_next: "cur_ready l s \<Longrightarrow> cur_fetches l n (cur_next n s) \<and> cu_log (cur_next n s) = cu_log s \<and> cu_sent (cur_next n s) = cu_sent s"
  by (simp add: cur_ready_def cur_fetches_def cur_next_def)

lemma cleared: "cu_armed s = (case cu_idleTimer s of None \<Rightarrow> [] | Some t \<Rightarrow> [t]) \<Longrightarrow> cu_armed (clear_idle s) = [] \<and> cu_idleTimer (clear_idle s) = None"
  by (simp add: clear_idle_def split: option.splits)

lemma fetch_size_pos: "1 \<le> fetch_size p"
  by (simp add: fetch_size_def)

lemma drive_batch:
  assumes s: "cur_fetches l n s"
  shows "\<exists>t. drive (Suc (Suc (Suc (Suc f)))) p nm l rs s = (drop (nat (fetch_size p)) rs, t) \<and>
     (if nat (fetch_size p) \<le> length rs
      then cur_ready l t \<and> cu_log t = cu_log s @ [(n, S_batch (take (nat (fetch_size p)) rs))] \<and> cu_sent t = cu_sent s @ [(l, fetch_sql p nm)]
      else cur_over l t \<and> cu_log t = cu_log s @ [(n, if rs = [] then S_null else S_batch rs)] \<and>
        cu_sent t = cu_sent s @ map (Pair l) [fetch_sql p nm, close_sql nm, asc ''commit''])"
proof -
  let ?k = "nat (fetch_size p)"
  let ?c = "clear_idle (s\<lparr>cu_pending := []\<rparr>)"
  let ?u = "?c\<lparr>cu_fetching := True, cu_sent := cu_sent s @ [(l, fetch_sql p nm)], cu_pending := [A_fetch n]\<rparr>"
  let ?v = "?c\<lparr>cu_sent := cu_sent s @ [(l, fetch_sql p nm)], cu_pending := [], cu_fetching := False\<rparr>"
  have c: "cu_armed ?c = []" "cu_idleTimer ?c = None" using s cleared [of "s\<lparr>cu_pending := []\<rparr>"] by (simp_all add: cur_fetches_def cur_ready_def)
  have cl: "clear_idle ?v = ?v" "clear_idle (?v\<lparr>cu_state := C_done\<rparr>) = ?v\<lparr>cu_state := C_done\<rparr>" using c by (simp_all add: clear_idle_def)
  have f1: "cu_err ?c = None" "cu_lease ?c = Some l" "cu_opening ?c = Some P_ok" "cu_state ?c = C_open" "cu_released ?c = []" "cu_log ?c = cu_log s"
    "cu_sent ?c = cu_sent s" "cu_pending ?c = []"
    using s by (simp_all add: cur_fetches_def cur_ready_def)
  have 1: "drive (Suc (Suc (Suc (Suc f)))) p nm l rs s = drive (Suc (Suc (Suc f))) p nm l rs ?u"
    using s f1 by (simp add: drive_more cur_fetches_def cur_ready_def runnable_def serve_def cur_apply_def next_fetch_def conn_query_def Let_def)
  have 2: "drive (Suc (Suc (Suc f))) p nm l rs ?u = drive (Suc (Suc f)) p nm l (drop ?k rs) (fetched p nm n (take ?k rs) (?u\<lparr>cu_pending := []\<rparr>))"
    by (simp add: drive_more runnable_def serve_def cur_apply_def)
  show ?thesis
  proof (cases "?k \<le> length rs")
    case True
    then have F: "fetched p nm n (take ?k rs) (?u\<lparr>cu_pending := []\<rparr>) = cur_settle n (S_batch (take ?k rs)) (arm_idle p ?v)"
      using fetch_size_pos [of p] by (simp add: fetched_def Let_def)
    have "cur_ready l (cur_settle n (S_batch (take ?k rs)) (arm_idle p ?v))"
      using f1 c by (simp add: cur_ready_def cur_settle_def arm_idle_def)
    moreover have "cu_log (cur_settle n (S_batch (take ?k rs)) (arm_idle p ?v)) = cu_log s @ [(n, S_batch (take ?k rs))]"
      "cu_sent (cur_settle n (S_batch (take ?k rs)) (arm_idle p ?v)) = cu_sent s @ [(l, fetch_sql p nm)]"
      using f1 by (simp_all add: cur_settle_def arm_idle_def)
    moreover have "drive (Suc (Suc f)) p nm l (drop ?k rs) (cur_settle n (S_batch (take ?k rs)) (arm_idle p ?v)) =
        (drop ?k rs, cur_settle n (S_batch (take ?k rs)) (arm_idle p ?v))"
      by (rule drive_stop) (simp add: cur_settle_def arm_idle_def)
    ultimately show ?thesis using True 1 2 F by auto
  next
    case False
    let ?r = "if rs = [] then S_null else S_batch rs"
    let ?w = "?v\<lparr>cu_state := C_done, cu_deadline := False, cu_sent := cu_sent s @ [(l, fetch_sql p nm), (l, close_sql nm)], cu_pending := [A_close l (K_next n ?r)]\<rparr>"
    have "fetched p nm n (take ?k rs) (?u\<lparr>cu_pending := []\<rparr>) = ?w"
      using False f1 cl by (simp add: fetched_def cur_close_def clearTimers_def conn_query_def Let_def)
    then have 3: "drive (Suc (Suc f)) p nm l (drop ?k rs) (fetched p nm n (take ?k rs) (?u\<lparr>cu_pending := []\<rparr>)) =
        drive (Suc f) p nm l (drop ?k rs) (?w\<lparr>cu_sent := cu_sent ?w @ [(l, asc ''commit'')], cu_pending := [A_commit l (K_next n ?r)]\<rparr>)"
      by (simp add: drive_more runnable_def serve_def cur_apply_def conn_query_def)
    let ?t = "finish_close (K_next n ?r) (?w\<lparr>cu_sent := cu_sent ?w @ [(l, asc ''commit'')], cu_pending := []\<rparr>)"
    have 4: "drive (Suc f) p nm l (drop ?k rs) (?w\<lparr>cu_sent := cu_sent ?w @ [(l, asc ''commit'')], cu_pending := [A_commit l (K_next n ?r)]\<rparr>) =
        drive f p nm l (drop ?k rs) ?t"
      by (simp add: drive_more runnable_def serve_def cur_apply_def)
    have "cur_over l ?t" "cu_log ?t = cu_log s @ [(n, ?r)]" "cu_sent ?t = cu_sent s @ map (Pair l) [fetch_sql p nm, close_sql nm, asc ''commit'']"
      "cu_pending ?t = []"
      using f1 c by (simp_all add: finish_close_def continue_with_def cur_settle_def release_lease_def cur_over_def)
    with False 1 2 3 4 drive_stop [of ?t f p nm l "drop ?k rs"] show ?thesis by auto
  qed
qed

lemma over_next: "cur_over l s \<Longrightarrow> cur_next n s = cur_settle n S_null s"
  by (simp add: cur_over_def cur_next_def)

lemma log_last: "map_of (rev (log @ [(n, r)])) n = Some r"
  by simp

lemma all_over:
  assumes "cur_over l s"
  shows "cur_all (Suc f) p nm l n bs rs s = (Some (Inr (concat bs)), cur_settle n S_null s)"
proof -
  have "drive 20 p nm l rs (cur_next n s) = (rs, cur_settle n S_null s)"
    using assms by (simp add: over_next) (rule drive_stop, simp add: cur_over_def cur_settle_def)
  then show ?thesis by (simp add: cur_settle_def)
qed

lemma all_from_fetch:
  assumes "drive 20 p nm l rs (cur_next n s) = drive (Suc (Suc (Suc (Suc g)))) p nm l rs u" "cur_fetches l n u" "length rs < f"
  shows "\<exists>t. cur_all (Suc f) p nm l n bs rs s = (Some (Inr (concat bs @ rs)), t) \<and> cur_over l t \<and>
    cu_sent t = cu_sent u @ map (Pair l) (replicate (Suc (length rs div nat (fetch_size p))) (fetch_sql p nm) @ [close_sql nm, asc ''commit''])"
  using assms
proof (induction f arbitrary: rs n s bs g u)
  case (Suc f)
  let ?k = "nat (fetch_size p)"
  have k: "0 < ?k" using fetch_size_pos [of p] by simp
  obtain t where d: "drive 20 p nm l rs (cur_next n s) = (drop ?k rs, t)"
    and t: "if ?k \<le> length rs
      then cur_ready l t \<and> cu_log t = cu_log u @ [(n, S_batch (take ?k rs))] \<and> cu_sent t = cu_sent u @ [(l, fetch_sql p nm)]
      else cur_over l t \<and> cu_log t = cu_log u @ [(n, if rs = [] then S_null else S_batch rs)] \<and>
        cu_sent t = cu_sent u @ map (Pair l) [fetch_sql p nm, close_sql nm, asc ''commit'']"
    using drive_batch [OF Suc.prems(2), of g p nm rs] Suc.prems(1) by auto
  show ?case
  proof (cases "?k \<le> length rs")
    case True
    with t have r: "cur_ready l t" and lg: "cu_log t = cu_log u @ [(n, S_batch (take ?k rs))]" and se: "cu_sent t = cu_sent u @ [(l, fetch_sql p nm)]"
      by simp_all
    have step: "cur_all (Suc (Suc f)) p nm l n bs rs s = cur_all (Suc f) p nm l (Suc n) (bs @ [take ?k rs]) (drop ?k rs) t"
      using d lg by simp
    have "(20::nat) = Suc (Suc (Suc (Suc 16)))" by simp
    then have "drive 20 p nm l (drop ?k rs) (cur_next (Suc n) t) = drive (Suc (Suc (Suc (Suc 16)))) p nm l (drop ?k rs) (cur_next (Suc n) t)" by simp
    moreover have "cur_fetches l (Suc n) (cur_next (Suc n) t)" "cu_sent (cur_next (Suc n) t) = cu_sent t" using ready_next [OF r] by simp_all
    moreover have "length (drop ?k rs) < f" using Suc.prems(3) True k by simp
    ultimately obtain v where v: "cur_all (Suc f) p nm l (Suc n) (bs @ [take ?k rs]) (drop ?k rs) t = (Some (Inr (concat (bs @ [take ?k rs]) @ drop ?k rs)), v)"
      "cur_over l v" "cu_sent v = cu_sent t @ map (Pair l) (replicate (Suc ((length rs - ?k) div ?k)) (fetch_sql p nm) @ [close_sql nm, asc ''commit''])"
      using Suc.IH [of "drop ?k rs" "Suc n" t 16 "cur_next (Suc n) t" "bs @ [take ?k rs]"] by (simp only: length_drop) blast
    have "Suc ((length rs - ?k) div ?k) = length rs div ?k" using True k by (simp add: le_div_geq)
    with v step se show ?thesis by simp
  next
    case False
    with t have r: "cur_over l t" and lg: "cu_log t = cu_log u @ [(n, if rs = [] then S_null else S_batch rs)]"
      and se: "cu_sent t = cu_sent u @ map (Pair l) [fetch_sql p nm, close_sql nm, asc ''commit'']" by simp_all
    have dv: "length rs div ?k = 0" using False by simp
    show ?thesis
    proof (cases "rs = []")
      case True
      then show ?thesis using d lg r se dv by simp
    next
      case ne: False
      then have "cur_all (Suc (Suc f)) p nm l n bs rs s = cur_all (Suc f) p nm l (Suc n) (bs @ [rs]) (drop ?k rs) t"
        using d lg by simp
      also have "\<dots> = (Some (Inr (concat (bs @ [rs]))), cur_settle (Suc n) S_null t)" by (rule all_over [OF r])
      finally show ?thesis using r se dv by (simp add: cur_settle_def cur_over_def)
    qed
  qed
qed simp

text \<open>C13: Draining a cursor returns the whole result. On a connection that answers every statement, \<open>all()\<close>
  of a new cursor resolves, for every result, batch size and option, with exactly the rows of the query in
  order; it has sent the transaction's setup in order, one more fetch than there are full batches, then
  close and commit, all on the leased connection; and it leaves the lease released once, no timer armed
  and nothing pending.\<close>

theorem cursor_drains:
  "\<exists>t. cur_all (length rows + 2) p nm l 0 [] rows new_cursor = (Some (Inr rows), t) \<and>
    cu_sent t = map (Pair l) (begin_sql p # setup_sql p nm @ replicate (Suc (length rows div nat (fetch_size p))) (fetch_sql p nm) @
      [close_sql nm, asc ''commit'']) \<and>
    cu_released t = [l] \<and> cu_lease t = None \<and> cu_state t = C_done \<and> cu_pending t = [] \<and> cu_armed t = [] \<and> \<not> cu_deadline t"
proof -
  obtain s f where "drive 20 p nm l rows (cur_next 0 new_cursor) = drive (Suc (Suc (Suc (Suc f)))) p nm l rows s" "cur_fetches l 0 s"
    and se: "cu_sent s = map (Pair l) (begin_sql p # setup_sql p nm)"
    using drive_open [of p nm l rows 0] by blast
  from all_from_fetch [OF this(1, 2), of "Suc (length rows)" "[]"] obtain t where
    "cur_all (Suc (Suc (length rows))) p nm l 0 [] rows new_cursor = (Some (Inr rows), t)" "cur_over l t"
    "cu_sent t = cu_sent s @ map (Pair l) (replicate (Suc (length rows div nat (fetch_size p))) (fetch_sql p nm) @ [close_sql nm, asc ''commit''])"
    by auto
  with se show ?thesis by (simp add: cur_over_def)
qed

end
