(* ===== verification/Bulk.thy ===== *)
theory Bulk
  imports Copy_Rows Shape_Cols
begin

section \<open>Bulk statements and transactions (src/connection.ts)\<close>

text \<open>
  \<open>bulkInsert\<close>, \<open>bulkUpdate\<close> and \<open>copyMany\<close>: the SQL they generate, the statement caches, the cutting of
  the rows into chunks, and how the chunks run (one statement, one transaction, or one commit each);
  \<open>runTx\<close> behind \<open>begin()\<close> and \<open>transaction()\<close>. A connection is seen through its queries: \<open>exec\<close> runs a
  statement on the state of the session and gives its result or error, \<open>inTx\<close> is \<open>inTransaction\<close>. Both
  are parameters. Columns are listed in the order of \<open>Object.keys\<close>. Progress reports and metrics are left
  out; they do not change what is sent or returned.
\<close>

subsection \<open>SQL text\<close>

definition qIdent :: "jsstr \<Rightarrow> jsstr" where
  "qIdent s = u16 34 # concat (map (\<lambda>c. if c = u16 34 then [c, c] else [c]) s) @ [u16 34]"

fun join_with :: "jsstr \<Rightarrow> jsstr list \<Rightarrow> jsstr" where
  "join_with sep [] = []"
| "join_with sep [x] = x"
| "join_with sep (x # y # xs) = x @ sep @ join_with sep (y # xs)"

fun split_on :: "unit16 \<Rightarrow> jsstr \<Rightarrow> jsstr list" where
  "split_on d [] = [[]]"
| "split_on d (c # s) = (if c = d then [] # split_on d s
     else case split_on d s of w # ws \<Rightarrow> (c # w) # ws | [] \<Rightarrow> [[c]])"

definition table_sql :: "jsstr \<Rightarrow> jsstr" where
  "table_sql t = join_with (asc ''.'') (map qIdent (split_on (u16 46) t))"

type_synonym columns = "(jsstr \<times> string) list"

definition comma_list :: "jsstr list \<Rightarrow> jsstr" where
  "comma_list xs = join_with (asc '','') xs"

definition returning_sql :: "jsstr \<Rightarrow> jsstr" where
  "returning_sql returning = (if returning = [] then [] else asc '' returning '' @ returning)"

definition bulk_cast :: "nat \<Rightarrow> string \<Rightarrow> js_error + jsstr \<times> int" where
  "bulk_cast i alias = rbind (paramTypeOid (PT_name (alias @ ''[]''))) (\<lambda>oid.
     Inr (u16 36 # dec_nat (i + 1) @ asc ''::'' @ asc (to_lower alias) @ asc ''[]'', oid))"

definition bulkCasts :: "columns \<Rightarrow> js_error + jsstr list \<times> int list" where
  "bulkCasts columns = rbind (rmap (\<lambda>i. bulk_cast i (snd (columns ! i))) [0..<length columns]) (\<lambda>cs. Inr (map fst cs, map snd cs))"

definition insert_sql :: "jsstr \<Rightarrow> columns \<Rightarrow> jsstr list \<Rightarrow> jsstr \<Rightarrow> jsstr" where
  "insert_sql table columns casts returning =
     asc ''insert into '' @ table_sql table @ asc '' ('' @ comma_list (map (qIdent \<circ> fst) columns) @ asc '') select * from unnest('' @
     comma_list casts @ asc '')'' @ returning_sql returning"

fun index_of :: "jsstr list \<Rightarrow> jsstr \<Rightarrow> int" where
  "index_of [] k = - 1"
| "index_of (n # ns) k = (if n = k then 0 else let i = index_of ns k in if i < 0 then i else i + 1)"

definition pos_alias :: "jsstr list \<Rightarrow> jsstr \<Rightarrow> jsstr" where
  "pos_alias names c = asc ''_c'' @ dec_int (index_of names c)"

definition update_sql :: "jsstr \<Rightarrow> columns \<Rightarrow> jsstr list \<Rightarrow> jsstr list \<Rightarrow> jsstr \<Rightarrow> jsstr" where
  "update_sql table columns casts keys returning =
     (let names = map fst columns; sets = filter (\<lambda>n. n \<notin> set keys) names; p = pos_alias names in
      asc ''update '' @ table_sql table @ asc '' _t set '' @
      join_with (asc '', '') (map (\<lambda>c. qIdent c @ asc '' = _u.'' @ p c) sets) @
      asc '' from unnest('' @ comma_list casts @ asc '') as _u('' @ comma_list (map p names) @ asc '')'' @
      asc '' where '' @ join_with (asc '' and '') (map (\<lambda>k. asc ''_t.'' @ qIdent k @ asc '' = _u.'' @ p k) keys) @ returning_sql returning)"

datatype tx_options = Tx_text jsstr | Tx_obj (tx_isolation: jsstr) (tx_readOnly: "bool option") (tx_deferrable: "bool option")

definition letter_or_space :: "unit16 \<Rightarrow> bool" where
  "letter_or_space c = (let n = unat c in 65 \<le> n \<and> n \<le> 90 \<or> 97 \<le> n \<and> n \<le> 122 \<or> n = 32)"

definition trim_spaces :: "jsstr \<Rightarrow> jsstr" where
  "trim_spaces s = rev (dropWhile (\<lambda>c. c = u16 32) (rev (dropWhile (\<lambda>c. c = u16 32) s)))"

definition beginClause :: "tx_options option \<Rightarrow> jsstr" where
  "beginClause opts = (case opts of
       None \<Rightarrow> asc ''begin''
     | Some (Tx_text t) \<Rightarrow> (let s = trim_spaces (filter letter_or_space t) in if s = [] then asc ''begin'' else asc ''begin '' @ s)
     | Some (Tx_obj lvl ro df) \<Rightarrow>
         (let parts = (if lvl = [] then [] else [asc ''isolation level '' @ lvl]) @
            (case ro of None \<Rightarrow> [] | Some b \<Rightarrow> [if b then asc ''read only'' else asc ''read write'']) @
            (case df of None \<Rightarrow> [] | Some b \<Rightarrow> [if b then asc ''deferrable'' else asc ''not deferrable''])
          in if parts = [] then asc ''begin'' else asc ''begin '' @ join_with (asc '' '') parts))"

subsection \<open>Statements and the caches\<close>

datatype bparam = BP_array "jsval list" | BP_value jsval

record stmt =
  st_sql :: jsstr
  st_params :: "bparam list"
  st_name :: "jsstr option"
  st_oids :: "int list option"
  st_copy :: "(js_error option \<times> bytes list) option"  \<comment> \<open>the payload of a COPY\<close>

record bulk_meta =
  bm_sql :: jsstr
  bm_oids :: "int list"
  bm_name :: jsstr

record bulk_cache =
  bc_insertMeta :: "(jsstr \<times> bulk_meta) list"
  bc_valuesMeta :: "(jsstr \<times> jsstr) list"

definition nul_join :: "jsstr list \<Rightarrow> jsstr" where
  "nul_join xs = join_with [u16 0] xs"

definition insert_key :: "jsstr \<Rightarrow> columns \<Rightarrow> jsstr \<Rightarrow> jsstr" where
  "insert_key table columns returning =
     asc ''I'' @ u16 0 # table @ u16 0 # nul_join (map fst columns) @ u16 0 # nul_join (map (asc \<circ> snd) columns) @
     (if returning = [] then [] else u16 0 # returning)"

definition update_key :: "jsstr \<Rightarrow> columns \<Rightarrow> jsstr list \<Rightarrow> jsstr \<Rightarrow> jsstr" where
  "update_key table columns keys returning =
     asc ''U'' @ u16 0 # table @ u16 0 # nul_join (map fst columns) @ u16 0 # nul_join (map (asc \<circ> snd) columns) @ u16 0 # nul_join keys @
     (if returning = [] then [] else u16 0 # returning)"

text \<open>Look the key up, or build the statement and remember it under a fresh name.\<close>

definition cached_meta :: "jsstr \<Rightarrow> jsstr \<Rightarrow> columns \<Rightarrow> (jsstr list \<Rightarrow> jsstr) \<Rightarrow> bulk_cache \<Rightarrow> js_error + bulk_meta \<times> bulk_cache" where
  "cached_meta key pre columns mk_sql bc =
     (case map_of (bc_insertMeta bc) key of
        Some m \<Rightarrow> Inr (m, bc)
      | None \<Rightarrow> rbind (bulkCasts columns) (\<lambda>(casts, oids).
          let m = \<lparr>bm_sql = mk_sql casts, bm_oids = oids, bm_name = pre @ dec_nat (length (bc_insertMeta bc))\<rparr>
          in Inr (m, bc\<lparr>bc_insertMeta := bc_insertMeta bc @ [(key, m)]\<rparr>)))"

subsection \<open>Rows to parameters\<close>

text \<open>\<open>pivotRows\<close>: one array per column, for the rows from \<open>start\<close> up to \<open>stop\<close>.\<close>

definition pivotRows :: "jsstr list \<Rightarrow> copyrow list \<Rightarrow> nat \<Rightarrow> nat \<Rightarrow> jsval list list" where
  "pivotRows names rows start stop =
     map (\<lambda>c. map (\<lambda>r. cell (rows ! r) names c) [start..<stop]) [0..<length names]"

text \<open>The VALUES form: an undefined cell is the keyword DEFAULT, any other the next parameter.\<close>

fun values_cells :: "jsval list \<Rightarrow> jsval list \<Rightarrow> jsstr list \<times> jsval list" where
  "values_cells [] params = ([], params)"
| "values_cells (v # vs) params =
     (if v = JUndef then (let (cs, ps) = values_cells vs params in (asc ''DEFAULT'' # cs, ps))
      else let (cs, ps) = values_cells vs (params @ [v]) in ((u16 36 # dec_nat (length params + 1)) # cs, ps))"

fun values_rows :: "jsstr list \<Rightarrow> copyrow list \<Rightarrow> jsval list \<Rightarrow> jsstr list \<times> jsval list" where
  "values_rows names [] params = ([], params)"
| "values_rows names (row # rows) params =
     (let (cs, ps) = values_cells (map (cell row names) [0..<length names]) params;
          (ts, qs) = values_rows names rows ps
      in ((u16 40 # comma_list cs @ [u16 41]) # ts, qs))"

definition values_prefix :: "jsstr \<Rightarrow> columns \<Rightarrow> jsstr" where
  "values_prefix table columns = asc ''insert into '' @ table_sql table @ asc '' ('' @ comma_list (map (qIdent \<circ> fst) columns) @ asc '') values ''"

definition values_chunk :: "jsstr \<Rightarrow> columns \<Rightarrow> copyrow list \<Rightarrow> jsstr \<Rightarrow> nat \<Rightarrow> nat \<Rightarrow> bulk_cache \<Rightarrow> stmt \<times> bulk_cache" where
  "values_chunk table columns rows returning start stop bc =
     (let (ts, ps) = values_rows (map fst columns) (take (stop - start) (drop start rows)) [];
          sql = values_prefix table columns @ comma_list ts @ returning_sql returning;
          fresh = asc ''_iv'' @ dec_nat (length (bc_valuesMeta bc));
          nm = (case map_of (bc_valuesMeta bc) sql of Some n \<Rightarrow> n | None \<Rightarrow> fresh);
          bc' = (if map_of (bc_valuesMeta bc) sql = None then bc\<lparr>bc_valuesMeta := bc_valuesMeta bc @ [(sql, fresh)]\<rparr> else bc)
      in (\<lparr>st_sql = sql, st_params = map BP_value ps, st_name = Some nm, st_oids = None, st_copy = None\<rparr>, bc'))"

definition unnest_chunk :: "jsstr option \<Rightarrow> bulk_meta \<Rightarrow> jsstr list \<Rightarrow> copyrow list \<Rightarrow> nat \<Rightarrow> nat \<Rightarrow> bulk_cache \<Rightarrow> stmt \<times> bulk_cache" where
  "unnest_chunk nm m names rows start stop bc =
     (\<lparr>st_sql = bm_sql m, st_params = map BP_array (pivotRows names rows start stop),
       st_name = Some (case nm of Some n \<Rightarrow> n | None \<Rightarrow> bm_name m), st_oids = Some (bm_oids m), st_copy = None\<rparr>, bc)"

subsection \<open>Chunks\<close>

definition value_bytes :: "jsval \<Rightarrow> nat" where
  "value_bytes v = (case v of JStr s \<Rightarrow> length s + 4 | JBuf b \<Rightarrow> length b + 4 | JU8 b \<Rightarrow> length b + 4 | _ \<Rightarrow> 12)"

definition defaultChunk :: "jsstr list \<Rightarrow> copyrow list \<Rightarrow> nat" where
  "defaultChunk names rows = (case rows of
       [] \<Rightarrow> 64
     | row # _ \<Rightarrow>
         let b = 24 + sum_list (map (\<lambda>c. value_bytes (cell row names c)) [0..<length names])
         in max 16 (min 64 (32768 div b)))"

function ranges :: "nat \<Rightarrow> nat \<Rightarrow> nat \<Rightarrow> (nat \<times> nat) list" where
  "ranges n c i = (if i < n \<and> 0 < c then (i, min (i + c) n) # ranges n c (i + c) else [])"
  by pat_completeness auto
termination by (relation "measure (\<lambda>(n, c, i). n - i)") auto

declare ranges.simps [simp del]

subsection \<open>Running the chunks\<close>

datatype berr =
    B_failed nat              \<comment> \<open>what a query rejected with\<close>
  | B_type js_error
  | B_no_columns | B_no_by | B_by_unknown jsstr | B_no_set | B_atomic_in_tx

text \<open>A rejection, with the \<open>insertedRows\<close> or \<open>updatedRows\<close> put on the error.\<close>

type_synonym failure = "berr \<times> int option"

record 'r bres =
  br_rows :: "'r list"
  br_columns :: "jsstr list"
  br_rowCount :: "int option"
  br_command :: "jsstr option"

definition row_count :: "'r bres \<Rightarrow> int" where
  "row_count r = (case br_rowCount r of Some n \<Rightarrow> n | None \<Rightarrow> 0)"

definition mergeResults :: "'r bres list \<Rightarrow> 'r bres" where
  "mergeResults rs = \<lparr>br_rows = concat (map br_rows rs), br_columns = (case rs of r # _ \<Rightarrow> br_columns r | [] \<Rightarrow> []),
     br_rowCount = Some (sum_list (map row_count rs)), br_command = (case rs of r # _ \<Rightarrow> br_command r | [] \<Rightarrow> None)\<rparr>"

text \<open>The session: the connection's state as \<open>exec\<close> sees it, the caches, the savepoint counter.\<close>

record 's session =
  se_srv :: 's
  se_cache :: bulk_cache
  se_sp :: nat

type_synonym ('s, 'r) exec = "stmt \<Rightarrow> 's \<Rightarrow> (nat + 'r bres) \<times> 's"
type_synonym ('s, 'a) act = "'s session \<Rightarrow> (failure + 'a) \<times> 's session"

definition se_query :: "('s, 'r) exec \<Rightarrow> stmt \<Rightarrow> ('s, 'r bres) act" where
  "se_query ex st b = (case ex st (se_srv b) of
       (Inl e, s) \<Rightarrow> (Inl (B_failed e, None), b\<lparr>se_srv := s\<rparr>)
     | (Inr r, s) \<Rightarrow> (Inr r, b\<lparr>se_srv := s\<rparr>))"

definition command :: "jsstr \<Rightarrow> stmt" where
  "command sql = \<lparr>st_sql = sql, st_params = [], st_name = None, st_oids = None, st_copy = None\<rparr>"

type_synonym make_chunk = "nat \<Rightarrow> nat \<Rightarrow> bulk_cache \<Rightarrow> stmt \<times> bulk_cache"

definition run_range :: "('s, 'r) exec \<Rightarrow> make_chunk \<Rightarrow> nat \<times> nat \<Rightarrow> ('s, 'r bres) act" where
  "run_range ex mk rg b = (let (st, bc) = mk (fst rg) (snd rg) (se_cache b) in se_query ex st (b\<lparr>se_cache := bc\<rparr>))"

text \<open>\<open>atomic: false\<close>: one chunk after the other; the error carries what was committed before it.\<close>

fun run_seq :: "('s, 'r) exec \<Rightarrow> make_chunk \<Rightarrow> (nat \<times> nat) list \<Rightarrow> 'r bres list \<Rightarrow> int \<Rightarrow> ('s, 'r bres) act" where
  "run_seq ex mk [] rs d b = (Inr (mergeResults rs), b)"
| "run_seq ex mk (rg # rgs) rs d b =
     (case run_range ex mk rg b of
        (Inl (e, _), b1) \<Rightarrow> (Inl (e, Some d), b1)
      | (Inr r, b1) \<Rightarrow> run_seq ex mk rgs (rs @ [r]) (d + row_count r) b1)"

text \<open>The pipelined chunks: all are sent, whatever becomes of the earlier ones.\<close>

fun run_each :: "('s, 'r) exec \<Rightarrow> make_chunk \<Rightarrow> (nat \<times> nat) list \<Rightarrow> 's session \<Rightarrow> (failure + 'r bres) list \<times> 's session" where
  "run_each ex mk [] b = ([], b)"
| "run_each ex mk (rg # rgs) b =
     (let (r, b1) = run_range ex mk rg b; (rs, b2) = run_each ex mk rgs b1 in (r # rs, b2))"

definition promise_all :: "(failure + 'a) list \<Rightarrow> failure + 'a list" where
  "promise_all rs = rmap (\<lambda>r. r) rs"

definition run_all :: "('s, 'r) exec \<Rightarrow> make_chunk \<Rightarrow> (nat \<times> nat) list \<Rightarrow> ('s, 'r bres) act" where
  "run_all ex mk rgs b = (let (rs, b1) = run_each ex mk rgs b in (rbind (promise_all rs) (\<lambda>rs. Inr (mergeResults rs)), b1))"

subsection \<open>Transactions\<close>

definition tx_undo :: "('s, 'r) exec \<Rightarrow> 's session \<Rightarrow> 's session" where
  "tx_undo ex b = snd (se_query ex (command (asc ''rollback'')) b)"

definition sp_undo :: "('s, 'r) exec \<Rightarrow> jsstr \<Rightarrow> 's session \<Rightarrow> 's session" where
  "sp_undo ex sp b = (case se_query ex (command (asc ''rollback to savepoint '' @ sp)) b of
       (Inr _, b1) \<Rightarrow> snd (se_query ex (command (asc ''release savepoint '' @ sp)) b1)
     | (Inl _, b1) \<Rightarrow> b1)"

text \<open>The body, then the closing statement; a failure of either undoes and rethrows.\<close>

definition tx_body :: "('s, 'r) exec \<Rightarrow> stmt \<Rightarrow> ('s session \<Rightarrow> 's session) \<Rightarrow> ('s, 'a) act \<Rightarrow> ('s, 'a) act" where
  "tx_body ex fin undo fn b = (case fn b of
       (Inl e, b1) \<Rightarrow> (Inl e, undo b1)
     | (Inr r, b1) \<Rightarrow> (case se_query ex fin b1 of
           (Inr _, b2) \<Rightarrow> (Inr r, b2)
         | (Inl e, b2) \<Rightarrow> (Inl e, undo b2)))"

definition runTx :: "('s, 'r) exec \<Rightarrow> ('s \<Rightarrow> bool) \<Rightarrow> tx_options option \<Rightarrow> ('s, 'a) act \<Rightarrow> ('s, 'a) act" where
  "runTx ex inTx opts fn b =
     (if inTx (se_srv b)
      then let sp = asc ''minipg_sp_'' @ dec_nat (Suc (se_sp b)) in
        (case se_query ex (command (asc ''savepoint '' @ sp)) (b\<lparr>se_sp := Suc (se_sp b)\<rparr>) of
           (Inl e, b1) \<Rightarrow> (Inl e, b1)
         | (Inr _, b1) \<Rightarrow> tx_body ex (command (asc ''release savepoint '' @ sp)) (sp_undo ex sp) fn b1)
      else (case se_query ex (command (beginClause opts)) b of
           (Inl e, b1) \<Rightarrow> (Inl e, b1)
         | (Inr _, b1) \<Rightarrow> tx_body ex (command (asc ''commit'')) (tx_undo ex) fn b1))"

subsection \<open>The bulk calls\<close>

definition runBulk :: "('s, 'r) exec \<Rightarrow> ('s \<Rightarrow> bool) \<Rightarrow> jsstr list \<Rightarrow> copyrow list \<Rightarrow> nat option \<Rightarrow> bool \<Rightarrow> make_chunk \<Rightarrow> ('s, 'r bres) act" where
  "runBulk ex inTx names rows chunk_opt atomic mk b =
     (let chunk = max 1 (case chunk_opt of Some c \<Rightarrow> c | None \<Rightarrow> defaultChunk names rows) in
      if length rows \<le> chunk then run_range ex mk (0, length rows) b
      else if \<not> atomic then
        (if inTx (se_srv b) then (Inl (B_atomic_in_tx, None), b) else run_seq ex mk (ranges (length rows) chunk 0) [] 0 b)
      else if inTx (se_srv b) then run_all ex mk (ranges (length rows) chunk 0) b
      else runTx ex inTx None (run_all ex mk (ranges (length rows) chunk 0)) b)"

record bulk_opts =
  bo_returning :: jsstr
  bo_name :: "jsstr option"
  bo_chunk :: "nat option"
  bo_atomic :: bool
  bo_defaults :: bool
  bo_by :: "jsstr list"

definition with_meta :: "js_error + bulk_meta \<times> bulk_cache \<Rightarrow> (bulk_meta \<Rightarrow> ('s, 'a) act) \<Rightarrow> ('s, 'a) act" where
  "with_meta res f b = (case res of Inl e \<Rightarrow> (Inl (B_type e, None), b) | Inr (m, bc) \<Rightarrow> f m (b\<lparr>se_cache := bc\<rparr>))"

definition bulkInsert :: "('s, 'r) exec \<Rightarrow> ('s \<Rightarrow> bool) \<Rightarrow> jsstr \<Rightarrow> columns \<Rightarrow> copyrow list \<Rightarrow> bulk_opts \<Rightarrow> ('s, 'r bres) act" where
  "bulkInsert ex inTx table columns rows opts b =
     (let names = map fst columns; ret = bo_returning opts in
      if names = [] then (Inl (B_no_columns, None), b)
      else if bo_defaults opts
      then runBulk ex inTx names rows (bo_chunk opts) (bo_atomic opts) (values_chunk table columns rows ret) b
      else with_meta (cached_meta (insert_key table columns ret) (asc ''_im'') columns (\<lambda>casts. insert_sql table columns casts ret) (se_cache b))
        (\<lambda>m. runBulk ex inTx names rows (bo_chunk opts) (bo_atomic opts) (unnest_chunk (bo_name opts) m names rows)) b)"

definition bulkUpdate :: "('s, 'r) exec \<Rightarrow> ('s \<Rightarrow> bool) \<Rightarrow> jsstr \<Rightarrow> columns \<Rightarrow> copyrow list \<Rightarrow> bulk_opts \<Rightarrow> ('s, 'r bres) act" where
  "bulkUpdate ex inTx table columns rows opts b =
     (let names = map fst columns; ret = bo_returning opts; keys = bo_by opts in
      if names = [] then (Inl (B_no_columns, None), b)
      else if keys = [] then (Inl (B_no_by, None), b)
      else (case find (\<lambda>k. k \<notin> set names) keys of
          Some k \<Rightarrow> (Inl (B_by_unknown k, None), b)
        | None \<Rightarrow>
            if filter (\<lambda>n. n \<notin> set keys) names = [] then (Inl (B_no_set, None), b)
            else with_meta (cached_meta (update_key table columns keys ret) (asc ''_um'') columns (\<lambda>casts. update_sql table columns casts keys ret) (se_cache b))
              (\<lambda>m. runBulk ex inTx names rows (bo_chunk opts) (bo_atomic opts) (unnest_chunk (bo_name opts) m names rows)) b))"

text \<open>\<open>copyMany\<close>: one COPY, or one per chunk, in order. Only with \<open>atomic: false\<close> does the error carry the count.\<close>

definition copy_chunk :: "jsstr \<Rightarrow> bool \<Rightarrow> int list \<Rightarrow> jsstr list \<Rightarrow> nat \<Rightarrow> copyrow list \<Rightarrow> make_chunk" where
  "copy_chunk sql bin oids names chunkBytes rows start stop bc =
     (let part = take (stop - start) (drop start rows) in
      ((command sql)\<lparr>st_copy := Some (if bin then copyRowsBinary oids names part chunkBytes else copyRowsText names part chunkBytes)\<rparr>, bc))"

definition copy_sql :: "jsstr \<Rightarrow> columns \<Rightarrow> bool \<Rightarrow> jsstr" where
  "copy_sql table columns bin = asc ''copy '' @ table_sql table @ asc '' ('' @ comma_list (map (qIdent \<circ> fst) columns) @ asc '') from stdin'' @
     (if bin then asc '' (format binary)'' else [])"

definition copy_seq :: "('s, 'r) exec \<Rightarrow> make_chunk \<Rightarrow> (nat \<times> nat) list \<Rightarrow> bool \<Rightarrow> ('s, 'r bres) act" where
  "copy_seq ex mk rgs atomic b = (case run_seq ex mk rgs [] 0 b of
       (Inl (e, d), b1) \<Rightarrow> (Inl (e, if atomic then None else d), b1)
     | (Inr r, b1) \<Rightarrow> (Inr r, b1))"

definition copyMany :: "('s, 'r) exec \<Rightarrow> ('s \<Rightarrow> bool) \<Rightarrow> jsstr \<Rightarrow> columns \<Rightarrow> copyrow list \<Rightarrow> bool option \<Rightarrow> nat \<Rightarrow> nat \<Rightarrow> bool \<Rightarrow> ('s, 'r bres) act" where
  "copyMany ex inTx table columns rows format chunk chunkBytes atomic b =
     (let names = map fst columns in
      if names = [] then (Inl (B_no_columns, None), b)
      else (case rmap (\<lambda>c. paramTypeOid (PT_name (snd c))) columns of
          Inl e \<Rightarrow> (Inl (B_type e, None), b)
        | Inr oids \<Rightarrow>
            let bin = (case format of Some f \<Rightarrow> f | None \<Rightarrow> copyBinarySupported oids);
                mk = copy_chunk (copy_sql table columns bin) bin oids names chunkBytes rows;
                rgs = ranges (length rows) chunk 0 in
            if chunk = 0 \<or> length rows \<le> chunk then run_range ex mk (0, length rows) b
            else if \<not> atomic then
              (if inTx (se_srv b) then (Inl (B_atomic_in_tx, None), b) else copy_seq ex mk rgs False b)
            else if inTx (se_srv b) then copy_seq ex mk rgs True b
            else runTx ex inTx None (copy_seq ex mk rgs True) b))"

subsection \<open>Every row once, in order\<close>

text \<open>What \<open>select * from unnest($1, $2, ...)\<close> yields for arrays of one length.\<close>

definition unnest :: "jsval list list \<Rightarrow> jsval list list" where
  "unnest cols = (case cols of [] \<Rightarrow> [] | col # _ \<Rightarrow> map (\<lambda>j. map (\<lambda>c. c ! j) cols) [0..<length col])"

lemma ranges_cover: "0 < c \<Longrightarrow> concat (map (\<lambda>(lo, hi). [lo..<hi]) (ranges n c i)) = [i..<n]"
proof (induction n c i rule: ranges.induct)
  case (1 n c i)
  show ?case
  proof (cases "i < n")
    case True
    have "[i..<min (i + c) n] @ [i + c..<n] = [i..<n]"
    proof (cases "i + c \<le> n")
      case le: True
      then show ?thesis by (metis le_add1 le_add_diff_inverse min.absorb1 upt_add_eq_append)
    qed (simp add: min_def)
    with 1 True show ?thesis by (subst ranges.simps) simp
  qed (simp add: ranges.simps)
qed

lemma ranges_bounds: "(lo, hi) \<in> set (ranges n c i) \<Longrightarrow> i \<le> lo \<and> lo < hi \<and> hi \<le> n \<and> hi \<le> lo + c"
proof (induction n c i rule: ranges.induct)
  case (1 n c i)
  then show ?case by (subst (asm) (2) ranges.simps) (force split: if_splits)
qed

lemma ranges_count: "0 < c \<Longrightarrow> length (ranges n c i) = (n - i + c - 1) div c"
proof (induction n c i rule: ranges.induct)
  case (1 n c i)
  show ?case
  proof (cases "i < n")
    case True
    have IH: "length (ranges n c (i + c)) = (n - (i + c) + c - 1) div c" using 1 True by simp
    have "n - i + c - 1 = n - i - 1 + c" using True by simp
    then have "(n - i + c - 1) div c = Suc ((n - i - 1) div c)" using 1(2) by (simp only: div_add_self2)
    moreover have "(n - (i + c) + c - 1) div c = (n - i - 1) div c"
    proof (cases "i + c \<le> n")
      case False
      then have "(n - i - 1) div c = 0" "(c - 1) div c = 0" using 1(2) True by auto
      with False show ?thesis by simp
    qed (simp add: algebra_simps)
    ultimately show ?thesis using True 1(2) IH by (subst ranges.simps) simp
  qed (use 1(2) in \<open>simp add: ranges.simps\<close>)
qed

lemma unnest_pivot:
  assumes "names \<noteq> []" "lo \<le> hi"
  shows "unnest (pivotRows names rows lo hi) = map (\<lambda>r. map (cell (rows ! r) names) [0..<length names]) [lo..<hi]"
proof -
  have "pivotRows names rows lo hi \<noteq> []" using assms by (simp add: pivotRows_def)
  then obtain col cols where p: "pivotRows names rows lo hi = col # cols" by (cases "pivotRows names rows lo hi") auto
  then have len: "length col = hi - lo" by (auto simp: pivotRows_def map_eq_Cons_conv)
  have "map (\<lambda>c. c ! j) (pivotRows names rows lo hi) = map (cell (rows ! (lo + j)) names) [0..<length names]" if "j < hi - lo" for j
    using that by (simp add: pivotRows_def o_def nth_append)
  then have "unnest (pivotRows names rows lo hi) = map (\<lambda>j. map (cell (rows ! (lo + j)) names) [0..<length names]) [0..<hi - lo]"
    unfolding unnest_def by (simp add: p len)
  also have "\<dots> = map (\<lambda>r. map (cell (rows ! r) names) [0..<length names]) [lo..<hi]"
    using assms(2) by (intro nth_equalityI) simp_all
  finally show ?thesis .
qed

text \<open>C11: Chunking loses, repeats and reorders no row. For every list of rows, every non-empty list of columns
  and every chunk size, the chunks of a bulk call are non-empty, no longer than the chunk size, and as many
  as announced; and the rows the server makes of their column arrays, chunk after chunk, are the input's
  rows in order, cell by cell in column order, whether a row was given as an array or as a record.\<close>

theorem bulk_rows_exact:
  assumes "names \<noteq> []" "0 < c"
  shows "concat (map (\<lambda>(lo, hi). unnest (pivotRows names rows lo hi)) (ranges (length rows) c 0)) =
      map (\<lambda>row. map (cell row names) [0..<length names]) rows \<and>
    list_all (\<lambda>(lo, hi). lo < hi \<and> hi - lo \<le> c) (ranges (length rows) c 0) \<and>
    length (ranges (length rows) c 0) = (length rows + c - 1) div c"
proof -
  let ?f = "\<lambda>r. map (cell (rows ! r) names) [0..<length names]"
  have A: "map (\<lambda>(lo, hi). unnest (pivotRows names rows lo hi)) (ranges (length rows) c 0) =
      map (\<lambda>(lo, hi). map ?f [lo..<hi]) (ranges (length rows) c 0)"
    by (rule map_cong [OF refl]) (auto dest!: ranges_bounds intro!: unnest_pivot [OF assms(1)])
  have "concat (map (\<lambda>(lo, hi). unnest (pivotRows names rows lo hi)) (ranges (length rows) c 0)) =
      map ?f (concat (map (\<lambda>(lo, hi). [lo..<hi]) (ranges (length rows) c 0)))"
    unfolding A by (simp add: map_concat o_def split_def)
  also have "\<dots> = map (\<lambda>row. map (cell row names) [0..<length names]) rows"
    unfolding ranges_cover [OF assms(2)] by (intro nth_equalityI) simp_all
  finally show ?thesis using ranges_count [OF assms(2), of "length rows" 0] by (auto simp: list_all_iff dest: ranges_bounds)
qed

theorem bulk_rows_exact_witness:
  "concat (map (\<lambda>(lo, hi). unnest (pivotRows [asc ''a'', asc ''b''] [Row_arr [JInt 1, JInt 2], Row_arr [JInt 3], Row_obj [(asc ''b'', JInt 4)]] lo hi))
     (ranges 3 2 0)) = [[JInt 1, JInt 2], [JInt 3, JUndef], [JUndef, JInt 4]]"
proof -
  have "asc ''a'' \<noteq> asc ''b''" by (simp add: asc_def u16_def)
  then show ?thesis
    using bulk_rows_exact [of "[asc ''a'', asc ''b'']" 2 "[Row_arr [JInt 1, JInt 2], Row_arr [JInt 3], Row_obj [(asc ''b'', JInt 4)]]"]
    by (simp add: cell_def cell_name_def numeral_2_eq_2 numeral_3_eq_3)
qed

subsection \<open>The statement cache of bulk updates\<close>

lemma join_snoc: "xs \<noteq> [] \<Longrightarrow> join_with sep (xs @ [x]) = join_with sep xs @ sep @ x"
  by (induction sep xs rule: join_with.induct) simp_all

text \<open>The cache key of a bulk update does not separate the key columns from the returning clause. When a
  call with key columns \<open>keys\<close> and a returning clause \<open>k\<close> has been made, a call on the same table and columns
  with the key columns \<open>keys\<close> and \<open>k\<close> and no returning clause finds that call's statement in the cache and
  runs it, whatever statement it would have generated itself: the rows are matched by fewer columns.\<close>

theorem bulk_update_key_collision:
  assumes "keys \<noteq> []" "k \<noteq> []" "cached_meta (update_key table columns keys k) pre columns mk bc = Inr (m, bc1)"
  shows "cached_meta (update_key table columns (keys @ [k]) []) pre columns mk' bc1 = Inr (m, bc1)"
proof -
  have "update_key table columns (keys @ [k]) [] = update_key table columns keys k"
    using assms(1,2) by (simp add: update_key_def nul_join_def join_snoc)
  moreover have "map_of (bc_insertMeta bc1) (update_key table columns keys k) = Some m"
    using assms(3) by (auto simp: cached_meta_def rbind_Inr_iff map_add_def Let_def split: option.splits)
  ultimately show ?thesis by (simp add: cached_meta_def)
qed

definition demo_columns :: columns where
  "demo_columns = [(asc ''a'', ''int4''), (asc ''b'', ''int4''), (asc ''c'', ''int4'')]"

lemma demo_casts: "\<exists>x. bulkCasts demo_columns = Inr x"
  by (simp add: bulkCasts_def demo_columns_def bulk_cast_def paramTypeOid_def TYPE_OID_def ARRAY_OID_def ends_array_def drop_array_def
      to_lower_def lower_char_def)

theorem bulk_update_key_collision_witness:
  "\<exists>m bc casts. cached_meta (update_key (asc ''t'') demo_columns [asc ''a'', asc ''b''] []) (asc ''_um'') demo_columns
       (\<lambda>cs. update_sql (asc ''t'') demo_columns cs [asc ''a'', asc ''b''] []) bc = Inr (m, bc) \<and>
     bm_sql m = update_sql (asc ''t'') demo_columns casts [asc ''a''] (asc ''b'') \<and>
     bm_sql m \<noteq> update_sql (asc ''t'') demo_columns casts [asc ''a'', asc ''b''] []"
proof -
  obtain casts oids where c: "bulkCasts demo_columns = Inr (casts, oids)" using demo_casts by auto
  let ?mk = "\<lambda>cs. update_sql (asc ''t'') demo_columns cs [asc ''a''] (asc ''b'')"
  obtain m bc where m: "cached_meta (update_key (asc ''t'') demo_columns [asc ''a''] (asc ''b'')) (asc ''_um'') demo_columns ?mk
      \<lparr>bc_insertMeta = [], bc_valuesMeta = []\<rparr> = Inr (m, bc)" "bm_sql m = ?mk casts"
    by (simp add: cached_meta_def c Let_def)
  have "bm_sql m \<noteq> update_sql (asc ''t'') demo_columns casts [asc ''a'', asc ''b''] []"
    unfolding m(2) by (simp add: update_sql_def demo_columns_def Let_def asc_def returning_sql_def qIdent_def)
  with bulk_update_key_collision [OF _ _ m(1)] m(2) show ?thesis by (fastforce simp: asc_def)
qed

subsection \<open>All or nothing\<close>




lemma run_range_query: "\<exists>lo hi bc. run_range ex mk rg b = se_query ex (fst (mk lo hi bc)) (b\<lparr>se_cache := snd (mk lo hi bc)\<rparr>)"
  by (auto simp: run_range_def case_prod_beta Let_def)














end
