(* ===== verification/Streams.thy ===== *)
theory Streams
  imports Wire_Messages Wire_Parser
begin

section \<open>Row streams and COPY (src/connection.ts)\<close>

text \<open>
  The iterators of \<open>stream()\<close> and \<open>copyTo()\<close> between the connection's callbacks and the consumer's calls, and the
  pump that sends a COPY source. Calls of \<open>next()\<close> and \<open>return()\<close> are numbered; how their promises settled is
  recorded in order. The callbacks are called by the message handlers while the task is not cancelled.
\<close>

subsection \<open>stream()\<close>

datatype 'r it_result = It_value 'r | It_done | It_error nat

record 'r row_stream =
  rw_buf :: "'r list"
  rw_waiting :: "nat option"
  rw_done :: bool
  rw_err :: "nat option"
  rw_paused :: bool
  rw_cancelled :: bool
  rw_cancelTask :: bool              \<comment> \<open>\<open>cancelTask\<close> was called\<close>
  rw_log :: "(nat \<times> 'r it_result) list"

definition new_row_stream :: "'r row_stream" where
  "new_row_stream = \<lparr>rw_buf = [], rw_waiting = None, rw_done = False, rw_err = None, rw_paused = False, rw_cancelled = False,
     rw_cancelTask = False, rw_log = []\<rparr>"

definition HWM :: "int option \<Rightarrow> int" where
  "HWM opt = (case opt of Some n \<Rightarrow> n | None \<Rightarrow> 200)"

definition rw_settle :: "nat \<Rightarrow> 'r it_result \<Rightarrow> 'r row_stream \<Rightarrow> 'r row_stream" where
  "rw_settle n r s = s\<lparr>rw_log := rw_log s @ [(n, r)]\<rparr>"

definition rw_wake :: "'r it_result \<Rightarrow> 'r row_stream \<Rightarrow> 'r row_stream" where
  "rw_wake r s = (case rw_waiting s of Some n \<Rightarrow> rw_settle n r (s\<lparr>rw_waiting := None\<rparr>) | None \<Rightarrow> s)"

definition onRow :: "int \<Rightarrow> bool \<Rightarrow> 'r \<Rightarrow> 'r row_stream \<Rightarrow> 'r row_stream" where
  "onRow hwm socket r s =
     (let s1 = s\<lparr>rw_buf := rw_buf s @ [r]\<rparr> in
      if rw_waiting s1 \<noteq> None then rw_wake (It_value (hd (rw_buf s1))) (s1\<lparr>rw_buf := tl (rw_buf s1)\<rparr>)
      else if hwm < int (length (rw_buf s1)) \<and> socket \<and> \<not> rw_paused s1 then s1\<lparr>rw_paused := True\<rparr>
      else s1)"

definition streamEnd :: "'r row_stream \<Rightarrow> 'r row_stream" where
  "streamEnd s = rw_wake It_done (s\<lparr>rw_done := True\<rparr>)"

definition streamError :: "nat \<Rightarrow> 'r row_stream \<Rightarrow> 'r row_stream" where
  "streamError e s = rw_wake (It_error e) (s\<lparr>rw_err := Some e\<rparr>)"

definition rw_next :: "int \<Rightarrow> nat \<Rightarrow> 'r row_stream \<Rightarrow> 'r row_stream" where
  "rw_next hwm n s =
     (case rw_buf s of
        v # rest \<Rightarrow>
          let s1 = s\<lparr>rw_buf := rest\<rparr>;
              s2 = (if rw_paused s1 \<and> 2 * int (length rest) < hwm then s1\<lparr>rw_paused := False\<rparr> else s1)
          in rw_settle n (It_value v) s2
      | [] \<Rightarrow>
          (case rw_err s of
             Some e \<Rightarrow> rw_settle n (It_error e) s
           | None \<Rightarrow> if rw_done s then rw_settle n It_done s else s\<lparr>rw_waiting := Some n\<rparr>))"

definition rw_return :: "bool \<Rightarrow> nat \<Rightarrow> 'r row_stream \<Rightarrow> 'r row_stream" where
  "rw_return inTransaction n s =
     (let s1 = s\<lparr>rw_cancelled := True\<rparr>;
          s2 = (if \<not> rw_done s1 \<and> rw_err s1 = None \<and> \<not> inTransaction then s1\<lparr>rw_cancelTask := True\<rparr> else s1)
      in rw_settle n It_done (s2\<lparr>rw_paused := False\<rparr>))"

text \<open>The events of a stream whose consumer awaits each \<open>next()\<close> before the next one. Rows come while the
  statement runs and the task is not cancelled; the end or an error comes once.\<close>

datatype 'r row_event = V_row bool 'r | V_end | V_error nat | V_next nat | V_return bool nat

fun row_enabled :: "'r row_event \<Rightarrow> 'r row_stream \<Rightarrow> bool" where
  "row_enabled (V_row k r) s = (\<not> rw_done s \<and> rw_err s = None \<and> \<not> rw_cancelled s)"
| "row_enabled V_end s = (\<not> rw_done s \<and> rw_err s = None)"
| "row_enabled (V_error e) s = (\<not> rw_done s \<and> rw_err s = None)"
| "row_enabled (V_next n) s = (rw_waiting s = None)"
| "row_enabled (V_return b n) s = (rw_waiting s = None)"

fun row_apply :: "int \<Rightarrow> 'r row_event \<Rightarrow> 'r row_stream \<Rightarrow> 'r row_stream" where
  "row_apply hwm (V_row k r) s = onRow hwm k r s"
| "row_apply hwm V_end s = streamEnd s"
| "row_apply hwm (V_error e) s = streamError e s"
| "row_apply hwm (V_next n) s = rw_next hwm n s"
| "row_apply hwm (V_return b n) s = rw_return b n s"

text \<open>A run of events, with the rows that arrived.\<close>

inductive row_run :: "int \<Rightarrow> 'r row_event list \<Rightarrow> 'r row_stream \<Rightarrow> bool" for hwm where
  row_new: "row_run hwm [] new_row_stream"
| row_more: "row_run hwm evs s \<Longrightarrow> row_enabled e s \<Longrightarrow> row_run hwm (evs @ [e]) (row_apply hwm e s)"

definition arrived :: "'r row_event list \<Rightarrow> 'r list" where
  "arrived evs = concat (map (\<lambda>e. case e of V_row k r \<Rightarrow> [r] | _ \<Rightarrow> []) evs)"

definition delivered :: "(nat \<times> 'r it_result) list \<Rightarrow> 'r list" where
  "delivered lg = concat (map (\<lambda>x. case snd x of It_value v \<Rightarrow> [v] | _ \<Rightarrow> []) lg)"


lemma delivered_snoc [simp]: "delivered (lg @ [(n, r)]) = delivered lg @ (case r of It_value v \<Rightarrow> [v] | _ \<Rightarrow> [])"
  by (simp add: delivered_def)

lemma arrived_snoc [simp]: "arrived (evs @ [e]) = arrived evs @ (case e of V_row k r \<Rightarrow> [r] | _ \<Rightarrow> [])"
  by (simp add: arrived_def)





lemmas row_eval = onRow_def streamEnd_def streamError_def rw_next_def rw_return_def rw_wake_def rw_settle_def Let_def new_row_stream_def

fun row_exec :: "int \<Rightarrow> 'r row_event list \<Rightarrow> 'r row_stream \<Rightarrow> 'r row_stream option" where
  "row_exec hwm [] s = Some s"
| "row_exec hwm (e # es) s = (if row_enabled e s then row_exec hwm es (row_apply hwm e s) else None)"

lemma row_exec_run: "row_run hwm pre s \<Longrightarrow> row_exec hwm evs s = Some t \<Longrightarrow> row_run hwm (pre @ evs) t"
proof (induction evs arbitrary: pre s)
  case (Cons e evs)
  then have "row_run hwm (pre @ [e]) (row_apply hwm e s)" "row_exec hwm evs (row_apply hwm e s) = Some t"
    by (auto intro: row_more split: if_splits)
  from Cons.IH [OF this] show ?case by simp
qed simp


text \<open>With a high-water mark of zero the first buffered row pauses the socket and no call of \<open>next()\<close> resumes it: the
  consumer waits, the socket is paused, and nothing is left to wake it.\<close>

lemma zero_mark_starves:
  "\<exists>s :: nat row_stream. row_run 0 [V_row True 5, V_next 0, V_next 1] s \<and> rw_waiting s = Some 1 \<and> rw_paused s"
proof -
  obtain s :: "nat row_stream" where e: "row_exec 0 [V_row True 5, V_next 0, V_next 1] new_row_stream = Some s" and w: "rw_waiting s = Some 1" "rw_paused s"
    by (simp add: row_eval)
  from row_exec_run [OF row_new e] w show ?thesis by auto
qed

text \<open>A second \<open>next()\<close> while one waits takes its place, and the first promise never settles.\<close>

lemma overlapping_next_lost:
  "let s = streamEnd (onRow 200 True (5 :: nat) (rw_next 200 1 (rw_next 200 0 new_row_stream))) in
     rw_log s = [(1, It_value 5)] \<and> rw_waiting s = None \<and> rw_done s"
  by (simp add: row_eval)


subsection \<open>copyTo()\<close>

datatype copy_result = CR_pending | CR_tag | CR_failed nat

record copy_out =
  cp_chunks :: "bytes list"
  cp_buffered :: nat
  cp_waiting :: "nat option"
  cp_done :: bool
  cp_err :: "nat option"
  cp_paused :: bool
  cp_cancelled :: bool
  cp_cancelTask :: bool
  cp_result :: copy_result
  cp_log :: "(nat \<times> bytes it_result) list"

definition new_copy_out :: copy_out where
  "new_copy_out = \<lparr>cp_chunks = [], cp_buffered = 0, cp_waiting = None, cp_done = False, cp_err = None, cp_paused = False,
     cp_cancelled = False, cp_cancelTask = False, cp_result = CR_pending, cp_log = []\<rparr>"

definition copy_HWM :: "int option \<Rightarrow> int" where
  "copy_HWM opt = (case opt of Some n \<Rightarrow> n | None \<Rightarrow> 512 * 1024)"

definition cp_settle :: "nat \<Rightarrow> bytes it_result \<Rightarrow> copy_out \<Rightarrow> copy_out" where
  "cp_settle n r s = s\<lparr>cp_log := cp_log s @ [(n, r)]\<rparr>"

definition cp_wake :: "bytes it_result \<Rightarrow> copy_out \<Rightarrow> copy_out" where
  "cp_wake r s = (case cp_waiting s of Some n \<Rightarrow> cp_settle n r (s\<lparr>cp_waiting := None\<rparr>) | None \<Rightarrow> s)"

definition onCopyData :: "int \<Rightarrow> bool \<Rightarrow> bytes \<Rightarrow> copy_out \<Rightarrow> copy_out" where
  "onCopyData hwm socket chunk s =
     (if cp_waiting s \<noteq> None then cp_wake (It_value chunk) s
      else let s1 = s\<lparr>cp_chunks := cp_chunks s @ [chunk], cp_buffered := cp_buffered s + length chunk\<rparr> in
        if hwm < int (cp_buffered s1) \<and> \<not> cp_paused s1 \<and> socket then s1\<lparr>cp_paused := True\<rparr> else s1)"

text \<open>The first settlement of \<open>result\<close> stands.\<close>

definition settle_result :: "copy_result \<Rightarrow> copy_out \<Rightarrow> copy_out" where
  "settle_result r s = (if cp_result s = CR_pending then s\<lparr>cp_result := r\<rparr> else s)"

definition copyEnd :: "copy_out \<Rightarrow> copy_out" where
  "copyEnd s = cp_wake It_done (settle_result CR_tag (s\<lparr>cp_done := True\<rparr>))"

definition copyError :: "nat \<Rightarrow> copy_out \<Rightarrow> copy_out" where
  "copyError e s = cp_wake (It_error e) (settle_result (CR_failed e) (s\<lparr>cp_err := Some e\<rparr>))"

definition drain :: "copy_out \<Rightarrow> bytes \<times> copy_out" where
  "drain s = (concat (cp_chunks s), s\<lparr>cp_chunks := [], cp_buffered := 0, cp_paused := False\<rparr>)"

definition cp_next :: "nat \<Rightarrow> copy_out \<Rightarrow> copy_out" where
  "cp_next n s =
     (if cp_chunks s \<noteq> [] then (let (v, s1) = drain s in cp_settle n (It_value v) s1)
      else case cp_err s of
        Some e \<Rightarrow> cp_settle n (It_error e) s
      | None \<Rightarrow> if cp_done s then cp_settle n It_done s else s\<lparr>cp_waiting := Some n\<rparr>)"

definition cp_return :: "bool \<Rightarrow> nat \<Rightarrow> copy_out \<Rightarrow> copy_out" where
  "cp_return inTransaction n s =
     (let isRunning = (\<not> cp_done s \<and> cp_err s = None);
          s1 = s\<lparr>cp_cancelled := True, cp_chunks := [], cp_buffered := 0, cp_paused := False, cp_done := True\<rparr>
      in cp_settle n It_done (if isRunning \<and> \<not> inTransaction then s1\<lparr>cp_cancelTask := True\<rparr> else s1))"

datatype copy_event = U_data bool bytes | U_end | U_error nat | U_next nat | U_return bool nat

fun copy_enabled :: "copy_event \<Rightarrow> copy_out \<Rightarrow> bool" where
  "copy_enabled (U_data k b) s = (\<not> cp_done s \<and> cp_err s = None \<and> \<not> cp_cancelled s)"
| "copy_enabled (U_next n) s = (cp_waiting s = None)"
| "copy_enabled (U_return b n) s = (cp_waiting s = None)"
| "copy_enabled e s = (cp_err s = None \<and> (\<not> cp_done s \<or> cp_cancelled s))"

fun copy_apply :: "int \<Rightarrow> copy_event \<Rightarrow> copy_out \<Rightarrow> copy_out" where
  "copy_apply hwm (U_data k b) s = onCopyData hwm k b s"
| "copy_apply hwm U_end s = copyEnd s"
| "copy_apply hwm (U_error e) s = copyError e s"
| "copy_apply hwm (U_next n) s = cp_next n s"
| "copy_apply hwm (U_return b n) s = cp_return b n s"

inductive copy_run :: "int \<Rightarrow> copy_event list \<Rightarrow> copy_out \<Rightarrow> bool" for hwm where
  copy_new: "copy_run hwm [] new_copy_out"
| copy_more: "copy_run hwm evs s \<Longrightarrow> copy_enabled e s \<Longrightarrow> copy_run hwm (evs @ [e]) (copy_apply hwm e s)"

definition sent_bytes :: "copy_event list \<Rightarrow> bytes" where
  "sent_bytes evs = concat (map (\<lambda>e. case e of U_data k b \<Rightarrow> b | _ \<Rightarrow> []) evs)"

definition copy_inv :: "copy_event list \<Rightarrow> copy_out \<Rightarrow> bool" where
  "copy_inv evs s \<longleftrightarrow>
     (\<not> cp_cancelled s \<longrightarrow> concat (delivered (cp_log s)) @ concat (cp_chunks s) = sent_bytes evs) \<and>
     (cp_cancelled s \<longrightarrow> (\<exists>rest. concat (delivered (cp_log s)) @ rest = sent_bytes evs)) \<and>
     (cp_cancelled s \<longrightarrow> cp_chunks s = []) \<and> cp_buffered s = length (concat (cp_chunks s)) \<and>
     (cp_waiting s \<noteq> None \<longrightarrow> cp_chunks s = [] \<and> \<not> cp_done s \<and> cp_err s = None) \<and>
     (cp_paused s \<longrightarrow> cp_chunks s \<noteq> [])"

lemma sent_snoc [simp]: "sent_bytes (evs @ [e]) = sent_bytes evs @ (case e of U_data k b \<Rightarrow> b | _ \<Rightarrow> [])"
  by (simp add: sent_bytes_def)

lemma copy_inv_step: "copy_inv evs s \<Longrightarrow> copy_enabled e s \<Longrightarrow> copy_inv (evs @ [e]) (copy_apply hwm e s)"
  by (cases e; cases "cp_waiting s")
    (auto simp: copy_inv_def onCopyData_def copyEnd_def copyError_def cp_next_def cp_return_def cp_wake_def cp_settle_def settle_result_def drain_def Let_def
      split: option.split)

lemma copy_run_inv: "copy_run hwm evs s \<Longrightarrow> copy_inv evs s"
proof (induction rule: copy_run.induct)
  case copy_new
  show ?case by (simp add: copy_inv_def new_copy_out_def delivered_def sent_bytes_def)
qed (rule copy_inv_step)

text \<open>\<open>copyTo()\<close> relays the bytes of the COPY exactly: until the consumer closes it, what was yielded followed by what
  is buffered is the concatenation of all CopyData payloads, and in any case what was yielded is a prefix of
  it; a call that waits does so with nothing buffered and, for every high-water mark, an unpaused socket; the
  byte count that decides about pausing is exact.\<close>

theorem copyTo_exact:
  assumes "copy_run hwm evs s"
  shows "(\<not> cp_cancelled s \<longrightarrow> concat (delivered (cp_log s)) @ concat (cp_chunks s) = sent_bytes evs) \<and>
    (\<exists>rest. concat (delivered (cp_log s)) @ rest = sent_bytes evs) \<and> cp_buffered s = length (concat (cp_chunks s)) \<and>
    (cp_waiting s \<noteq> None \<longrightarrow> cp_chunks s = [] \<and> \<not> cp_paused s \<and> \<not> cp_done s \<and> cp_err s = None)"
  using copy_run_inv [OF assms] by (auto simp: copy_inv_def)

lemmas copy_eval = onCopyData_def copyEnd_def copyError_def cp_next_def cp_return_def cp_wake_def cp_settle_def settle_result_def drain_def Let_def new_copy_out_def

theorem copyTo_exact_witness:
  "\<exists>s. copy_run 1 [U_data True [1, 2], U_data True [3], U_next 0] s \<and> concat (delivered (cp_log s)) @ concat (cp_chunks s) = [1, 2, 3] \<and> cp_chunks s = []"
proof -
  let ?s = "copy_apply 1 (U_next 0) (copy_apply 1 (U_data True [3]) (copy_apply 1 (U_data True [1, 2]) new_copy_out))"
  have "copy_run 1 ((([] @ [U_data True [1, 2]]) @ [U_data True [3]]) @ [U_next 0]) ?s"
    by (intro copy_more copy_new) (simp_all add: copy_eval)
  then have r: "copy_run 1 [U_data True [1, 2], U_data True [3], U_next 0] ?s" by simp
  have "cp_chunks ?s = []" "\<not> cp_cancelled ?s" by (simp_all add: copy_eval)
  with copyTo_exact [OF r] r show ?thesis by (auto simp: sent_bytes_def)
qed


subsection \<open>The COPY pump\<close>






























end
