(* ===== verification/Http.thy ===== *)
theory Http
  imports Conn_Handle Copy_Rows Shape_Cols
begin

unbundle bit_operations_syntax

section \<open>The gateway client (src/http.ts)\<close>

text \<open>
  \<open>HttpClient\<close> posts statements to a gateway; the body of the answer is a stream of backend messages, cut by
  \<open>Parser\<close>, split into one result per statement and decoded by the row mappers of the driver. The state is
  the cache of row descriptions, whose hash is sent along so that the gateway may leave the description out.
  What \<open>fetch\<close> answers is an argument; a method is its part up to the request and its part from the answer
  on, so that calls can overlap. Headers, tokens, timeouts and abort signals only feed \<open>fetch\<close>.
\<close>

datatype http_err =
    H_fetch nat                             \<comment> \<open>what \<open>fetch\<close> rejected with\<close>
  | H_server "(jsstr \<times> jsstr) list"         \<comment> \<open>\<open>PgError\<close>\<close>
  | H_js js_error
  | H_contentType jsstr
  | H_status int
  | H_frame byte
  | H_desync
  | H_txControl jsstr
  | H_count nat nat
  | H_types nat nat

definition lift_js :: "js_error + 'a \<Rightarrow> http_err + 'a" where
  "lift_js r = (case r of Inl e \<Rightarrow> Inl (H_js e) | Inr x \<Rightarrow> Inr x)"

subsection \<open>Transaction control is refused\<close>

definition lower_unit :: "unit16 \<Rightarrow> unit16" where
  "lower_unit u = (if 65 \<le> unat u \<and> unat u \<le> 90 then u + 32 else u)"

definition is_word_unit :: "unit16 \<Rightarrow> bool" where
  "is_word_unit u \<longleftrightarrow> is_digit u \<or> 97 \<le> unat (lower_unit u) \<and> unat (lower_unit u) \<le> 122 \<or> unat u = 95"

text \<open>What follows a word of the pattern, without regard to case; what follows it after white space; and \<open>\b\<close> after
  a letter.\<close>

definition after_word :: "string \<Rightarrow> jsstr \<Rightarrow> jsstr option" where
  "after_word w s = (if map lower_unit (take (length w) s) = asc w then Some (drop (length w) s) else None)"

definition after_spaced :: "string \<Rightarrow> jsstr \<Rightarrow> jsstr option" where
  "after_spaced w s = (case s of u # _ \<Rightarrow> if is_space u then after_word w (dropWhile is_space s) else None | [] \<Rightarrow> None)"

definition boundary :: "jsstr \<Rightarrow> bool" where
  "boundary s = (case s of [] \<Rightarrow> True | u # _ \<Rightarrow> \<not> is_word_unit u)"

definition bounded :: "jsstr option \<Rightarrow> jsstr option" where
  "bounded r = (case r of Some s \<Rightarrow> if boundary s then Some s else None | None \<Rightarrow> None)"

definition two_words :: "string \<Rightarrow> string \<Rightarrow> jsstr \<Rightarrow> jsstr option" where
  "two_words w v s = (case after_word w s of Some r \<Rightarrow> after_spaced v r | None \<Rightarrow> None)"

definition rollback_alone :: "jsstr \<Rightarrow> jsstr option" where
  "rollback_alone s = (case after_word ''rollback'' s of
       Some r \<Rightarrow> if bounded (after_spaced ''to'' r) = None then Some r else None
     | None \<Rightarrow> None)"

fun first_some :: "'a option list \<Rightarrow> 'a option" where
  "first_some [] = None"
| "first_some (Some x # xs) = Some x"
| "first_some (None # xs) = first_some xs"

text \<open>The word that the pattern captured.\<close>

definition TX_SQL :: "jsstr \<Rightarrow> jsstr option" where
  "TX_SQL sql =
     (let s = dropWhile is_space sql in
      case first_some (map bounded [after_word ''begin'' s, two_words ''start'' ''transaction'' s, after_word ''commit'' s,
          after_word ''end'' s, rollback_alone s, after_word ''abort'' s, two_words ''prepare'' ''transaction'' s]) of
        Some rest \<Rightarrow> Some (take (length s - length rest) s)
      | None \<Rightarrow> None)"

definition guard :: "jsstr \<Rightarrow> http_err + unit" where
  "guard sql = (case TX_SQL sql of Some tx \<Rightarrow> Inl (H_txControl tx) | None \<Rightarrow> Inr ())"

subsection \<open>The hash of a row description\<close>

definition FNV_PRIME :: "64 word" where "FNV_PRIME = 0x100000001b3"

definition fnv_step :: "64 word \<Rightarrow> byte \<Rightarrow> 64 word" where
  "fnv_step h b = (h XOR ucast b) * FNV_PRIME"

fun toString16 :: "nat \<Rightarrow> jsstr" where
  "toString16 n = (if n < 16 then [hex_unit n] else toString16 (n div 16) @ [hex_unit (n mod 16)])"

declare toString16.simps [simp del]

definition padStart :: "nat \<Rightarrow> unit16 \<Rightarrow> jsstr \<Rightarrow> jsstr" where
  "padStart n u s = replicate (n - length s) u @ s"

definition fnv1a64 :: "bytes \<Rightarrow> jsstr" where
  "fnv1a64 b = padStart 16 (u16 48) (toString16 (unat (foldl fnv_step 0xcbf29ce484222325 b)))"

subsection \<open>Results in the stream\<close>

record raw_result =
  rr_fields :: "field list option"
  rr_rows :: "bytes list"
  rr_command :: "jsstr option"
  rr_rowCount :: "int option"
  rr_error :: "(jsstr \<times> jsstr) list option"

type_synonym desc_cache = "jsstr \<Rightarrow> (jsstr \<times> field list) option"

record split_state =
  ss_results :: "raw_result list"
  ss_cur :: raw_result
  ss_trailing :: "(jsstr \<times> jsstr) list option"
  ss_cache :: desc_cache

definition new_result :: raw_result where
  "new_result = \<lparr>rr_fields = None, rr_rows = [], rr_command = None, rr_rowCount = None, rr_error = None\<rparr>"

definition push_result :: "split_state \<Rightarrow> split_state" where
  "push_result st = st\<lparr>ss_results := ss_results st @ [ss_cur st], ss_cur := new_result\<rparr>"

definition harvest :: "jsstr list \<Rightarrow> raw_message \<Rightarrow> field list \<Rightarrow> split_state \<Rightarrow> split_state" where
  "harvest sqls m fs st =
     (let i = length (ss_results st) in
      if i < length sqls then st\<lparr>ss_cache := (ss_cache st)(sqls ! i \<mapsto> (fnv1a64 (frame_bytes m), fs))\<rparr> else st)"

definition complete_result :: "bytes \<Rightarrow> raw_result \<Rightarrow> raw_result" where
  "complete_result body r = r\<lparr>rr_command := Some (tag_command (firstCstr body)), rr_rowCount := tag_rowCount (firstCstr body)\<rparr>"

definition split_msg :: "jsstr list \<Rightarrow> raw_message \<Rightarrow> split_state \<Rightarrow> http_err option \<times> split_state" where
  "split_msg sqls m st =
     (let body = rm_body m; ty = rm_type m in
      if ty = 84 then
        (case parseRowDescription body of
           Inl e \<Rightarrow> (Some (H_js e), st)
         | Inr fs \<Rightarrow> (None, harvest sqls m fs (st\<lparr>ss_cur := (ss_cur st)\<lparr>rr_fields := Some fs\<rparr>\<rparr>)))
      else if ty = 68 then (None, st\<lparr>ss_cur := (ss_cur st)\<lparr>rr_rows := rr_rows (ss_cur st) @ [body]\<rparr>\<rparr>)
      else if ty = 67 then (None, push_result (st\<lparr>ss_cur := complete_result body (ss_cur st)\<rparr>))
      else if ty = 73 then (None, push_result st)
      else if ty = 69 then
        (if length sqls \<le> length (ss_results st) then (None, st\<lparr>ss_trailing := Some (parseErrorFields body)\<rparr>)
         else (None, push_result (st\<lparr>ss_cur := (ss_cur st)\<lparr>rr_error := Some (parseErrorFields body)\<rparr>\<rparr>)))
      else if ty \<in> {82, 75, 83, 90} then (Some (H_frame ty), st)
      else (None, st))"

fun split_loop :: "jsstr list \<Rightarrow> raw_message list \<Rightarrow> split_state \<Rightarrow> http_err option \<times> split_state" where
  "split_loop sqls [] st = (None, st)"
| "split_loop sqls (m # ms) st = (case split_msg sqls m st of
       (Some e, st') \<Rightarrow> (Some e, st')
     | (None, st') \<Rightarrow> split_loop sqls ms st')"

definition http_split :: "raw_message list \<Rightarrow> jsstr list \<Rightarrow> desc_cache \<Rightarrow>
    (http_err + raw_result list \<times> (jsstr \<times> jsstr) list option) \<times> desc_cache" where
  "http_split ms sqls cache =
     (case split_loop sqls ms \<lparr>ss_results = [], ss_cur = new_result, ss_trailing = None, ss_cache = cache\<rparr> of
        (Some e, st) \<Rightarrow> (Inl e, ss_cache st)
      | (None, st) \<Rightarrow> (Inr (ss_results st, ss_trailing st), ss_cache st))"

subsection \<open>Transport\<close>

record http_response =
  hr_contentType :: jsstr                 \<comment> \<open>empty when absent\<close>
  hr_ok :: bool
  hr_status :: int
  hr_body :: bytes

datatype fetch_answer = Fe_rejected nat | Fe_response http_response

definition text_includes :: "jsstr \<Rightarrow> jsstr \<Rightarrow> bool" where
  "text_includes s p = list_ex (\<lambda>i. take (length p) (drop i s) = p) [0..<Suc (length s)]"

definition http_post :: "fetch_answer \<Rightarrow> http_err + raw_message list" where
  "http_post r = (case r of
       Fe_rejected e \<Rightarrow> Inl (H_fetch e)
     | Fe_response res \<Rightarrow>
         if \<not> text_includes (hr_contentType res) (asc ''vnd.minipg.pgwire'') then Inl (H_contentType (hr_contentType res))
         else rbind (lift_js (fst (push [] (hr_body res)))) (\<lambda>msgs.
           if hr_ok res then Inr msgs
           else case find (\<lambda>m. rm_type m = 69) msgs of
               Some m \<Rightarrow> Inl (H_server (parseErrorFields (rm_body m)))
             | None \<Rightarrow> Inl (H_status (hr_status res))))"

subsection \<open>Decoding\<close>

text \<open>The configuration; the mapper factory is the driver's. A shape is given as what \<open>$cols\<close> or \<open>shapeCols\<close> makes of
  it.\<close>

record 'j http_cfg =
  hc_temporalString :: bool
  hc_int8 :: string
  hc_sendDesc :: bool
  hc_mapperFactory :: "codegen_col list \<Rightarrow> result_mode \<Rightarrow> js_error + (bytes \<Rightarrow> js_error + 'j row)"

type_synonym shape_plan = "(js_error + codegen_col list) option"

definition planCol :: "'j http_cfg \<Rightarrow> codegen_col \<Rightarrow> codegen_col" where
  "planCol cfg c0 =
     (let c = tagArrayCol ELEM_OID c0;
          int8 = (if hc_int8 cfg \<noteq> ''bigint'' \<and> cc_js c = None \<and> \<not> cc_json c then
              (if cc_oid c = 20 then c\<lparr>cc_js := Some (hc_int8 cfg)\<rparr>
               else case cc_array c of
                 Some (el, None) \<Rightarrow> if el = 20 then c\<lparr>cc_array := Some (el, Some (hc_int8 cfg))\<rparr> else c
               | _ \<Rightarrow> c)
            else c)
      in if hc_temporalString cfg then
           (if cc_js c = None \<and> \<not> cc_json c \<and> cc_oid c \<in> set INSTANT_OIDS then c\<lparr>cc_js := Some ''string'', cc_binary := False\<rparr>
            else case cc_array c of
              Some (el, None) \<Rightarrow> if el \<in> set INSTANT_OIDS then c\<lparr>cc_array := Some (el, Some ''string'')\<rparr> else int8
            | _ \<Rightarrow> int8)
         else int8)"

definition text_col :: "codegen_col \<Rightarrow> codegen_col" where
  "text_col c = (if cc_binary c then c\<lparr>cc_binary := False\<rparr> else c)"

definition planCols :: "'j http_cfg \<Rightarrow> field list \<Rightarrow> shape_plan \<Rightarrow> js_error + codegen_col list" where
  "planCols cfg flds shape =
     rbind (case shape of
         Some plan \<Rightarrow> rbind plan (\<lambda>cols. Inr (mergeUnknownCols (map text_col cols) flds))
       | None \<Rightarrow> Inr (map (\<lambda>f. plain_col (f_name f) (f_dataTypeOid f) False) flds))
       (\<lambda>cols. Inr (map (planCol cfg) cols))"

definition parseDataRowCells :: "bytes \<Rightarrow> js_error + bytes option list" where
  "parseDataRowCells b = rbind (read_uint 2 b 0) (\<lambda>n. row_cells b 2 (nat n))"

record 'j query_result =
  qr_rows :: "'j row list"
  qr_columns :: "jsstr list"
  qr_rowCount :: "int option"
  qr_command :: "jsstr option"

definition decode_mode_of :: "result_mode option \<Rightarrow> shape_plan \<Rightarrow> result_mode" where
  "decode_mode_of mode shape = (case mode of Some m \<Rightarrow> m | None \<Rightarrow> if shape \<noteq> None then MObject else MArray)"

definition http_row :: "(bytes \<Rightarrow> js_error + 'j row) option \<Rightarrow> result_mode \<Rightarrow> bytes \<Rightarrow> js_error + 'j row" where
  "http_row mapper m b = (case mapper of
       Some f \<Rightarrow> f b
     | None \<Rightarrow> if m = MBuffer then rbind (parseDataRowCells b) (\<lambda>cs. Inr (RowBuffer cs)) else Inr (RowRaw b))"

definition decode_fields :: "'j http_cfg \<Rightarrow> field list \<Rightarrow> raw_result \<Rightarrow> result_mode option \<Rightarrow> shape_plan \<Rightarrow> js_error + 'j query_result" where
  "decode_fields cfg flds r mode shape =
     (let m = decode_mode_of mode shape in
      rbind (planCols cfg flds shape) (\<lambda>cols.
      rbind (if m = MArray \<or> m = MObject then rbind (hc_mapperFactory cfg cols m) (\<lambda>f. Inr (Some f)) else Inr None) (\<lambda>mapper.
      rbind (rmap (http_row mapper m) (rr_rows r)) (\<lambda>rows.
        Inr \<lparr>qr_rows = rows, qr_columns = map cc_name cols, qr_rowCount = rr_rowCount r, qr_command = rr_command r\<rparr>))))"

definition http_decode :: "'j http_cfg \<Rightarrow> desc_cache \<Rightarrow> raw_result \<Rightarrow> jsstr \<Rightarrow> result_mode option \<Rightarrow> shape_plan \<Rightarrow> http_err + 'j query_result" where
  "http_decode cfg cache r sql mode shape =
     (case rr_error r of
        Some e \<Rightarrow> Inl (H_server e)
      | None \<Rightarrow>
          (case (case rr_fields r of Some fs \<Rightarrow> Some fs | None \<Rightarrow> map_option snd (cache sql)) of
             None \<Rightarrow> if rr_rows r \<noteq> [] then Inl H_desync
               else Inr \<lparr>qr_rows = [], qr_columns = [], qr_rowCount = rr_rowCount r, qr_command = rr_command r\<rparr>
           | Some fs \<Rightarrow> lift_js (decode_fields cfg fs r mode shape)))"

subsection \<open>The calls\<close>

record http_query =
  hq_sql :: jsstr
  hq_params :: "jsval list"
  hq_types :: "param_type list option"
  hq_mode :: "result_mode option"
  hq_shape :: shape_plan

record http_stmt =
  hs_sql :: jsstr
  hs_params :: "jsval list"
  hs_types :: "param_type list option"

record batch_opts =
  ho_isolation :: "jsstr option"
  ho_readOnly :: "bool option"
  ho_deferrable :: "bool option"

datatype http_request =
    Rq_query http_stmt "jsstr option"
  | Rq_batch "http_stmt list" batch_opts
  | Rq_pipeline "http_stmt list"

definition checkTypes :: "param_type list option \<Rightarrow> nat \<Rightarrow> http_err + int list option" where
  "checkTypes types nParams = (case types of
       None \<Rightarrow> Inr None
     | Some ts \<Rightarrow> rbind (lift_js (resolveParamTypes ts)) (\<lambda>oids.
         if length ts \<noteq> nParams then Inl (H_types nParams (length ts)) else Inr (Some oids)))"

definition checked :: "http_query \<Rightarrow> http_err + int list option" where
  "checked q = rbind (guard (hq_sql q)) (\<lambda>_. checkTypes (hq_types q) (length (hq_params q)))"

definition stmt_of :: "http_query \<Rightarrow> int list option \<Rightarrow> http_err + http_stmt" where
  "stmt_of q oids = rbind (lift_js (encodeJsonParams (hq_params q) oids)) (\<lambda>ps.
     Inr \<lparr>hs_sql = hq_sql q, hs_params = ps, hs_types = hq_types q\<rparr>)"

definition stmts_of :: "http_query list \<Rightarrow> http_err + http_stmt list" where
  "stmts_of qs = rbind (rmap checked qs) (\<lambda>oids. rmap (\<lambda>(q, o'). stmt_of q o') (zip qs oids))"


definition query_answer :: "'j http_cfg \<Rightarrow> http_query \<Rightarrow> fetch_answer \<Rightarrow> desc_cache \<Rightarrow> (http_err + 'j query_result) \<times> desc_cache" where
  "query_answer cfg q r cache = (case http_post r of
       Inl e \<Rightarrow> (Inl e, cache)
     | Inr ms \<Rightarrow> (case http_split ms [hq_sql q] cache of
           (Inl e, cache') \<Rightarrow> (Inl e, cache')
         | (Inr (results, trailing), cache') \<Rightarrow>
             (case trailing of
                Some e \<Rightarrow> Inl (H_server e)
              | None \<Rightarrow> if length results \<noteq> 1 then Inl (H_count 1 (length results))
                  else http_decode cfg cache' (hd results) (hq_sql q) (hq_mode q) (hq_shape q), cache')))"

definition batch_request :: "http_query list \<Rightarrow> batch_opts \<Rightarrow> http_err + http_request" where
  "batch_request qs opts = rbind (stmts_of qs) (\<lambda>ss. Inr (Rq_batch ss opts))"

definition firstErr :: "raw_result list \<Rightarrow> (jsstr \<times> jsstr) list option \<Rightarrow> (jsstr \<times> jsstr) list option" where
  "firstErr results trailing = (case find (\<lambda>r. rr_error r \<noteq> None) results of Some r \<Rightarrow> rr_error r | None \<Rightarrow> trailing)"

definition batch_answer :: "'j http_cfg \<Rightarrow> http_query list \<Rightarrow> fetch_answer \<Rightarrow> desc_cache \<Rightarrow> (http_err + 'j query_result list) \<times> desc_cache" where
  "batch_answer cfg qs r cache = (case http_post r of
       Inl e \<Rightarrow> (Inl e, cache)
     | Inr ms \<Rightarrow> (case http_split ms (map hq_sql qs) cache of
           (Inl e, cache') \<Rightarrow> (Inl e, cache')
         | (Inr (results, trailing), cache') \<Rightarrow>
             (case firstErr results trailing of
                Some e \<Rightarrow> Inl (H_server e)
              | None \<Rightarrow> if length results \<noteq> length qs then Inl (H_count (length qs) (length results))
                  else rmap (\<lambda>(r, q). http_decode cfg cache' r (hq_sql q) (hq_mode q) (hq_shape q)) (zip results qs), cache')))"

definition pipeline_request :: "http_query list \<Rightarrow> http_err + http_request" where
  "pipeline_request qs = rbind (stmts_of qs) (\<lambda>ss. Inr (Rq_pipeline ss))"

text \<open>Outcomes of \<open>pipeline()\<close>: \<open>Inl\<close> is rejected, \<open>Inr\<close> fulfilled.\<close>

definition pipeline_answer :: "'j http_cfg \<Rightarrow> http_query list \<Rightarrow> fetch_answer \<Rightarrow> desc_cache \<Rightarrow>
    (http_err + (http_err + 'j query_result) list) \<times> desc_cache" where
  "pipeline_answer cfg qs r cache = (case http_post r of
       Inl e \<Rightarrow> (Inl e, cache)
     | Inr ms \<Rightarrow> (case http_split ms (map hq_sql qs) cache of
           (Inl e, cache') \<Rightarrow> (Inl e, cache')
         | (Inr (results, trailing), cache') \<Rightarrow>
             (case trailing of
                Some e \<Rightarrow> Inl (H_server e)
              | None \<Rightarrow> if length results \<noteq> length qs then Inl (H_count (length qs) (length results))
                  else Inr (map (\<lambda>(r, q). case rr_error r of
                      Some e \<Rightarrow> Inl (H_server e)
                    | None \<Rightarrow> http_decode cfg cache' r (hq_sql q) (hq_mode q) (hq_shape q)) (zip results qs)), cache')))"

subsection \<open>What the gateway sends\<close>

text \<open>The frames of one statement (PROTOCOL.md): a description unless it is left out, rows, and the end. Messages the
  client passes over may stand anywhere.\<close>

datatype reply_end = RE_complete bytes | RE_empty | RE_error bytes

record stmt_reply =
  re_desc :: "bytes option"
  re_rows :: "bytes list"
  re_end :: reply_end

abbreviation mk :: "byte \<Rightarrow> bytes \<Rightarrow> raw_message" where
  "mk ty b \<equiv> \<lparr>rm_type = ty, rm_body = b\<rparr>"

fun end_msg :: "reply_end \<Rightarrow> raw_message" where
  "end_msg (RE_complete b) = mk 67 b"
| "end_msg RE_empty = mk 73 []"
| "end_msg (RE_error b) = mk 69 b"

definition reply_msgs :: "stmt_reply \<Rightarrow> raw_message list" where
  "reply_msgs r = (case re_desc r of None \<Rightarrow> [] | Some b \<Rightarrow> [mk 84 b]) @ map (mk 68) (re_rows r) @ [end_msg (re_end r)]"

definition reply_stream :: "stmt_reply list \<Rightarrow> bytes option \<Rightarrow> raw_message list" where
  "reply_stream rs tr = concat (map reply_msgs rs) @ (case tr of None \<Rightarrow> [] | Some b \<Rightarrow> [mk 69 b])"

definition told :: "raw_message \<Rightarrow> bool" where
  "told m \<longleftrightarrow> rm_type m \<in> {84, 68, 67, 73, 69, 82, 75, 83, 90}"

definition parsed :: "bytes \<Rightarrow> field list option" where
  "parsed b = (case parseRowDescription b of Inr fs \<Rightarrow> Some fs | Inl _ \<Rightarrow> None)"

definition reply_ok :: "stmt_reply \<Rightarrow> bool" where
  "reply_ok r = (case re_desc r of None \<Rightarrow> True | Some b \<Rightarrow> parsed b \<noteq> None)"

definition desc_hash :: "bytes \<Rightarrow> jsstr" where
  "desc_hash b = fnv1a64 (frame_bytes (mk 84 b))"

definition reply_result :: "stmt_reply \<Rightarrow> raw_result" where
  "reply_result r =
     (let x = new_result\<lparr>rr_fields := Option.bind (re_desc r) parsed, rr_rows := re_rows r\<rparr> in
      case re_end r of RE_complete b \<Rightarrow> complete_result b x | RE_empty \<Rightarrow> x | RE_error b \<Rightarrow> x\<lparr>rr_error := Some (parseErrorFields b)\<rparr>)"

definition learn :: "jsstr \<Rightarrow> stmt_reply \<Rightarrow> desc_cache \<Rightarrow> desc_cache" where
  "learn sql r cache = (case re_desc r of None \<Rightarrow> cache
     | Some b \<Rightarrow> (case parsed b of None \<Rightarrow> cache | Some fs \<Rightarrow> cache(sql \<mapsto> (desc_hash b, fs))))"

definition learn_all :: "jsstr list \<Rightarrow> stmt_reply list \<Rightarrow> desc_cache \<Rightarrow> desc_cache" where
  "learn_all sqls rs cache = fold (\<lambda>(sql, r). learn sql r) (zip sqls rs) cache"

subsection \<open>Splitting\<close>

lemma split_untold: "\<not> told m \<Longrightarrow> split_msg sqls m st = (None, st)"
  by (auto simp: split_msg_def told_def Let_def)

lemma split_filter: "split_loop sqls ms st = split_loop sqls (filter told ms) st"
  by (induction ms arbitrary: st) (auto simp: split_untold split: prod.split option.split)

lemma split_rows: "split_loop sqls (map (mk 68) bs @ ms) st = split_loop sqls ms (st\<lparr>ss_cur := (ss_cur st)\<lparr>rr_rows := rr_rows (ss_cur st) @ bs\<rparr>\<rparr>)"
  by (induction bs arbitrary: st) (simp_all add: split_msg_def)

lemma split_end:
  assumes "length (ss_results st) < length sqls"
  shows "split_msg sqls (end_msg e) st = (None, push_result (st\<lparr>ss_cur := (case e of
      RE_complete b \<Rightarrow> complete_result b (ss_cur st) | RE_empty \<Rightarrow> ss_cur st
    | RE_error b \<Rightarrow> (ss_cur st)\<lparr>rr_error := Some (parseErrorFields b)\<rparr>)\<rparr>))"
  using assms by (cases e) (simp_all add: split_msg_def)

lemma split_reply:
  assumes "ss_cur st = new_result" "length (ss_results st) < length sqls" "reply_ok r"
  shows "split_loop sqls (reply_msgs r @ ms) st = split_loop sqls ms (st\<lparr>ss_results := ss_results st @ [reply_result r],
    ss_cur := new_result, ss_cache := learn (sqls ! length (ss_results st)) r (ss_cache st)\<rparr>)"
proof (cases "re_desc r")
  case None
  then show ?thesis
    using assms by (simp add: reply_msgs_def split_rows split_end push_result_def reply_result_def learn_def new_result_def Let_def split: reply_end.split)
next
  case (Some b)
  then obtain fs where "parseRowDescription b = Inr fs" using assms(3) by (auto simp: reply_ok_def parsed_def split: sum.splits)
  with Some show ?thesis
    using assms by (cases st) (simp add: reply_msgs_def split_rows split_end push_result_def reply_result_def learn_def new_result_def
        split_msg_def harvest_def desc_hash_def parsed_def Let_def split: reply_end.split)
qed

lemma split_replies:
  assumes "ss_cur st = new_result" "length (ss_results st) + length rs \<le> length sqls" "list_all reply_ok rs"
  shows "split_loop sqls (concat (map reply_msgs rs) @ ms) st = split_loop sqls ms (st\<lparr>ss_results := ss_results st @ map reply_result rs,
    ss_cur := new_result, ss_cache := learn_all (drop (length (ss_results st)) sqls) rs (ss_cache st)\<rparr>)"
  using assms
proof (induction rs arbitrary: st)
  case (Cons r rs)
  let ?n = "length (ss_results st)"
  have d: "drop ?n sqls = sqls ! ?n # drop (Suc ?n) sqls" using Cons.prems(2) by (simp add: Cons_nth_drop_Suc)
  show ?case using Cons by (simp add: split_reply d learn_all_def)
next
  case Nil
  then have "st\<lparr>ss_cur := new_result\<rparr> = st" by (cases st) simp
  then show ?case by (simp add: learn_all_def)
qed

lemma http_split_replies:
  assumes "filter told ms = reply_stream rs tr" "list_all reply_ok rs" "length rs \<le> length sqls" "tr \<noteq> None \<longrightarrow> length rs = length sqls"
  shows "http_split ms sqls cache = (Inr (map reply_result rs, map_option parseErrorFields tr), learn_all sqls rs cache)"
  unfolding http_split_def using assms
  by (subst split_filter) (cases tr, simp_all add: reply_stream_def split_replies split_replies [where ms = "[]", simplified] split_msg_def)

subsection \<open>From the answer to the results\<close>

definition answer_of :: "raw_message list \<Rightarrow> fetch_answer" where
  "answer_of ms = Fe_response \<lparr>hr_contentType = asc ''application/vnd.minipg.pgwire'', hr_ok = True, hr_status = 200,
     hr_body = concat (map frame_bytes ms)\<rparr>"

lemma post_answer: "list_all fits_frame ms \<Longrightarrow> http_post (answer_of ms) = Inr ms"
  using frames_frames [of ms "[]"]
  by (simp add: http_post_def answer_of_def push_frames with_first_def lift_js_def text_includes_def asc_def upt_conv_Cons)

definition reply_error :: "stmt_reply \<Rightarrow> (jsstr \<times> jsstr) list option" where
  "reply_error r = (case re_end r of RE_error b \<Rightarrow> Some (parseErrorFields b) | _ \<Rightarrow> None)"

lemma rr_error_reply [simp]: "rr_error (reply_result r) = reply_error r"
  by (simp add: reply_result_def reply_error_def complete_result_def new_result_def Let_def split: reply_end.split)

definition decode_reply :: "'j http_cfg \<Rightarrow> desc_cache \<Rightarrow> http_query \<Rightarrow> stmt_reply \<Rightarrow> http_err + 'j query_result" where
  "decode_reply cfg cache q r = http_decode cfg cache (reply_result r) (hq_sql q) (hq_mode q) (hq_shape q)"

lemma find_error: "firstErr (map reply_result rs) t = first_some (map reply_error rs @ [t])"
proof (induction rs)
  case (Cons r rs)
  then show ?case by (cases "reply_error r") (simp_all add: firstErr_def)
qed (cases t, simp_all add: firstErr_def)

lemma rmap_map: "rmap f (map g xs) = rmap (f \<circ> g) xs"
  by (induction xs) simp_all

lemma zip_results: "zip (map reply_result rs) qs = map (\<lambda>(r, q). (reply_result r, q)) (zip rs qs)"
  by (simp add: zip_map1)


text \<open>C16: A batch gives every statement its own rows or fails as a whole. However the gateway interleaves notices, if its
  stream answers the statements in order, then the call rejects with the first error in that order, counting
  one that came after the last result (a failed COMMIT); a stream that ends early without an error is
  refused; otherwise the \<open>i\<close>-th result is decoded from exactly the rows between the \<open>i\<close>-th statement's description
  and its end.\<close>

theorem http_batch_exact:
  assumes "list_all fits_frame ms" "filter told ms = reply_stream rs tr" "list_all reply_ok rs"
    "length rs \<le> length qs" "tr \<noteq> None \<longrightarrow> length rs = length qs"
  shows "fst (batch_answer cfg qs (answer_of ms) cache) = (case first_some (map reply_error rs @ [map_option parseErrorFields tr]) of
      Some e \<Rightarrow> Inl (H_server e)
    | None \<Rightarrow> if length rs < length qs then Inl (H_count (length qs) (length rs))
        else rmap (\<lambda>(r, q). decode_reply cfg (learn_all (map hq_sql qs) rs cache) q r) (zip rs qs))"
  using assms http_split_replies [OF assms(2, 3), of "map hq_sql qs" cache]
  by (auto simp: batch_answer_def post_answer find_error zip_results rmap_map o_def decode_reply_def case_prod_unfold split: option.split)

definition demo_query :: "string \<Rightarrow> http_query" where
  "demo_query s = \<lparr>hq_sql = asc s, hq_params = [], hq_types = None, hq_mode = None, hq_shape = None\<rparr>"

definition demo_http :: "nat http_cfg" where
  "demo_http = \<lparr>hc_temporalString = False, hc_int8 = ''bigint'', hc_sendDesc = True, hc_mapperFactory = (\<lambda>cols m. Inr (\<lambda>b. Inr (RowArray [])))\<rparr>"

definition demo_replies :: "stmt_reply list" where
  "demo_replies = [\<lparr>re_desc = Some [0, 0], re_rows = [[0, 0]], re_end = RE_complete [83, 32, 49, 0]\<rparr>,
     \<lparr>re_desc = None, re_rows = [], re_end = RE_error [67, 50, 51, 0, 0]\<rparr>]"

definition demo_answer :: "raw_message list" where
  "demo_answer = [mk 84 [0, 0], mk 68 [0, 0], mk 78 [0], mk 67 [83, 32, 49, 0], mk 69 [67, 50, 51, 0, 0]]"

lemma parsed_none: "parsed [0, 0] = Some []"
  by (simp add: parsed_def parseRowDescription_def read_int_def in_buf_def to_signed_def be_val_def)

lemma demo_answers: "list_all fits_frame demo_answer" "filter told demo_answer = reply_stream demo_replies None" "list_all reply_ok demo_replies"
  by (simp_all add: demo_answer_def demo_replies_def fits_frame_def told_def reply_stream_def reply_msgs_def reply_ok_def parsed_none)

theorem http_batch_exact_witness:
  "fst (batch_answer demo_http [demo_query ''a'', demo_query ''b''] (answer_of demo_answer) (\<lambda>_. None)) = Inl (H_server (parseErrorFields [67, 50, 51, 0, 0]))"
  using http_batch_exact [OF demo_answers, of "[demo_query ''a'', demo_query ''b'']" demo_http "\<lambda>_. None"]
  by (simp add: demo_replies_def reply_error_def)

text \<open>\<open>pipeline()\<close> reports each statement by itself: for a stream that answers all statements the outcomes are, in order,
  the statement's own error or the result decoded from its own rows, and no error of one statement
  rejects the call or touches another.\<close>

theorem http_pipeline_exact:
  assumes "list_all fits_frame ms" "filter told ms = reply_stream rs None" "list_all reply_ok rs" "length rs = length qs"
  shows "fst (pipeline_answer cfg qs (answer_of ms) cache) =
    Inr (map (\<lambda>(r, q). case reply_error r of Some e \<Rightarrow> Inl (H_server e) | None \<Rightarrow> decode_reply cfg (learn_all (map hq_sql qs) rs cache) q r) (zip rs qs))"
  using assms http_split_replies [OF assms(2, 3), of "map hq_sql qs" cache]
  by (auto simp: pipeline_answer_def post_answer zip_results decode_reply_def case_prod_unfold o_def split: option.split)

theorem http_pipeline_exact_witness:
  "\<exists>x. fst (pipeline_answer demo_http [demo_query ''a'', demo_query ''b''] (answer_of demo_answer) (\<lambda>_. None)) = Inr [Inr x, Inl (H_server (parseErrorFields [67, 50, 51, 0, 0]))]"
  using http_pipeline_exact [OF demo_answers, of "[demo_query ''a'', demo_query ''b'']" demo_http "\<lambda>_. None"]
  by (simp add: demo_replies_def reply_error_def decode_reply_def http_decode_def reply_result_def complete_result_def new_result_def parsed_none
      decode_fields_def planCols_def demo_http_def demo_query_def decode_mode_of_def http_row_def lift_js_def)

subsection \<open>Descriptions left out\<close>

text \<open>The gateway leaves the description out when the hash sent along is that of the frame it would send.\<close>

definition elide :: "jsstr option \<Rightarrow> stmt_reply \<Rightarrow> stmt_reply" where
  "elide desc r = (if desc = map_option desc_hash (re_desc r) then r\<lparr>re_desc := None\<rparr> else r)"


text \<open>Every entry of the cache comes from a description.\<close>

definition cache_true :: "desc_cache \<Rightarrow> bool" where
  "cache_true cache \<longleftrightarrow> (\<forall>sql h fs. cache sql = Some (h, fs) \<longrightarrow> (\<exists>b. h = desc_hash b \<and> parsed b = Some fs))"

definition came_from :: "desc_cache \<Rightarrow> jsstr \<Rightarrow> bytes option \<Rightarrow> bool" where
  "came_from cache sql bo \<longleftrightarrow> (case bo of None \<Rightarrow> cache sql = None
     | Some b \<Rightarrow> cache sql = Some (desc_hash b, the (parsed b)) \<and> parsed b \<noteq> None)"

lemma cache_true_split_msg:
  assumes "cache_true (ss_cache st)"
  shows "cache_true (ss_cache (snd (split_msg sqls m st)))"
proof -
  have "cache_true (c(sql \<mapsto> (fnv1a64 (frame_bytes m), fs)))" if "cache_true c" "rm_type m = 84" "parseRowDescription (rm_body m) = Inr fs" for c sql fs
    using that by (cases m) (auto simp: cache_true_def desc_hash_def parsed_def intro!: exI [of _ "rm_body m"])
  with assms show ?thesis
    by (auto simp: split_msg_def Let_def push_result_def harvest_def split: sum.split)
qed


lemma cache_true_split: "cache_true cache \<Longrightarrow> cache_true (snd (http_split ms sqls cache))"
proof -
  have "cache_true (ss_cache st) \<Longrightarrow> cache_true (ss_cache (snd (split_loop sqls ms st)))" for st
  proof (induction ms arbitrary: st)
    case (Cons m ms)
    from cache_true_split_msg [OF Cons.prems, of sqls m] Cons.IH show ?case by (auto split: prod.split option.split)
  qed simp
  from this [of "\<lparr>ss_results = [], ss_cur = new_result, ss_trailing = None, ss_cache = cache\<rparr>"]
  show "cache_true cache \<Longrightarrow> ?thesis" by (auto simp: http_split_def split: prod.split option.split)
qed

lemma cache_true_new: "cache_true (\<lambda>_. None)"
  by (simp add: cache_true_def)

text \<open>Every call keeps this, so whatever was asked before, an entry has a description it came from.\<close>

lemma cache_true_calls:
  assumes "cache_true cache"
  shows "cache_true (snd (query_answer cfg q r cache))" "cache_true (snd (batch_answer cfg qs r cache))"
    "cache_true (snd (pipeline_answer cfg qs r cache))"
  using cache_true_split [OF assms] assms
  by (auto simp: query_answer_def batch_answer_def pipeline_answer_def split: sum.split prod.split) (metis snd_conv)+

lemma cache_true_came_from: "cache_true cache \<Longrightarrow> \<exists>bo. came_from cache sql bo"
proof (cases "cache sql")
  case (Some e)
  assume "cache_true cache"
  with Some obtain b where "fst e = desc_hash b" "parsed b = Some (snd e)" unfolding cache_true_def by (metis prod.collapse)
  with Some show ?thesis by (intro exI [of _ "Some b"]) (cases e, simp add: came_from_def)
qed (auto simp: came_from_def intro: exI [of _ None])

lemma told_reply: "filter told (reply_msgs r) = reply_msgs r"
  by (cases "re_end r") (auto simp: reply_msgs_def told_def split: option.split)

lemma query_one:
  assumes "list_all fits_frame ms" "filter told ms = reply_msgs r" "reply_ok r"
  shows "query_answer cfg q (answer_of ms) cache = (let c = learn (hq_sql q) r cache in (decode_reply cfg c q r, c))"
proof -
  have "filter told ms = reply_stream [r] None" using assms(2) by (simp add: reply_stream_def)
  from http_split_replies [OF this, of "[hq_sql q]" cache] assms(1, 3) show ?thesis
    by (simp add: query_answer_def post_answer decode_reply_def learn_all_def Let_def)
qed


lemma decode_elided:
  assumes "c (hq_sql q) = Some (h, fs)"
  shows "decode_reply cfg c q (r\<lparr>re_desc := None\<rparr>) = (case reply_error r of Some e \<Rightarrow> Inl (H_server e)
    | None \<Rightarrow> lift_js (decode_fields cfg fs (reply_result r) (hq_mode q) (hq_shape q)))"
  using assms by (simp add: decode_reply_def http_decode_def decode_fields_def reply_result_def complete_result_def new_result_def Let_def reply_error_def split: reply_end.split)



text \<open>Overlapping calls break this. Two calls of a statement send the hash of its description; the table changes between
  their executions, so that the first answer leaves the description out and the second carries the new
  one. When the second arrives first, the rows of the first are decoded with the new description.\<close>

lemma elision_race:
  assumes "parsed b1 = Some fs1" "parsed b2 = Some fs2" "re_desc r1 = Some b1" "re_desc r2 = Some b2" "reply_error r1 = None"
    "list_all fits_frame (reply_msgs (elide (Some (desc_hash b1)) r1))" "list_all fits_frame (reply_msgs r2)"
  shows "fst (query_answer cfg q (answer_of (reply_msgs (elide (Some (desc_hash b1)) r1)))
      (snd (query_answer cfg q (answer_of (reply_msgs r2)) cache))) =
    lift_js (decode_fields cfg fs2 (reply_result r1) (hq_mode q) (hq_shape q))"
proof -
  have e: "elide (Some (desc_hash b1)) r1 = r1\<lparr>re_desc := None\<rparr>" using assms(3) by (simp add: elide_def)
  let ?c = "learn (hq_sql q) r2 cache"
  have c: "?c (hq_sql q) = Some (desc_hash b2, fs2)" by (simp add: learn_def assms(2, 4))
  have ok: "reply_ok r2" "reply_ok (r1\<lparr>re_desc := None\<rparr>)" using assms(2, 4) by (simp_all add: reply_ok_def)
  from query_one [OF assms(7) told_reply ok(1), of cfg q cache] query_one [OF assms(6) [unfolded e] told_reply ok(2), of cfg q ?c]
  show ?thesis by (simp add: e Let_def learn_def [of _ "r1\<lparr>re_desc := None\<rparr>"] decode_elided [where c = "?c" and q = q, OF c] assms(5))
qed


subsection \<open>The columns are those of the driver\<close>

text \<open>With the default for int8 the plan is the one the socket driver makes of the same columns in text format.\<close>

lemma http_plan_mirrors:
  assumes "hc_int8 cfg = ''bigint''" "e_elemOid env = ELEM_OID" "e_temporalString env = hc_temporalString cfg"
  shows "planCols cfg fs None = Inr (resolveCols env (fields_cols (\<lambda>_. False) fs))"
    "planCols cfg fs (Some (Inr cols)) = Inr (resolveCols env (mergeUnknownCols (map text_col cols) fs))"
  using assms by (simp_all add: planCols_def planCol_def resolveCols_def fields_cols_def Let_def cong: option.case_cong if_cong)

text \<open>Rows in buffer mode are those of the driver for as many columns as a signed count can say.\<close>

lemma http_cells_mirror:
  assumes "parseDataRow b = Inr cs"
  shows "parseDataRowCells b = Inr cs"
proof -
  let ?n = "be_val (take 2 b)"
  have l: "in_buf 2 b 0" "\<not> to_signed 2 ?n < 0" "row_cells b 2 (nat (to_signed 2 ?n)) = Inr cs"
    using assms by (auto simp: parseDataRow_def read_int_def rbind_def split: if_splits)
  have "?n < 65536" using be_val_bound [of "take 2 b"] l(1) by (simp add: in_buf_def)
  with l show ?thesis by (auto simp: parseDataRowCells_def read_uint_def to_signed_def split: if_splits)
qed

lemma length_toString16: "n < 16 ^ k \<Longrightarrow> 0 < k \<Longrightarrow> length (toString16 n) \<le> k"
proof (induction n arbitrary: k rule: toString16.induct)
  case (1 n)
  show ?case
  proof (cases "n < 16")
    case False
    with "1.prems" obtain j where j: "k = Suc j" "0 < j" by (cases k; cases "k - 1") auto
    with "1.prems" have "n div 16 < 16 ^ j" by (simp add: less_mult_imp_div_less mult.commute)
    from "1.IH" [OF False this j(2)] j False show ?thesis by (subst toString16.simps) simp
  qed (use "1.prems" in \<open>subst toString16.simps; simp\<close>)
qed

text \<open>A hash is always 16 characters.\<close>

lemma length_fnv1a64: "length (fnv1a64 b) = 16"
proof -
  have "unat (foldl fnv_step 0xcbf29ce484222325 b) < 16 ^ 16" using unsigned_less [of "foldl fnv_step 0xcbf29ce484222325 b"] by simp
  from length_toString16 [OF this] show ?thesis by (simp add: fnv1a64_def padStart_def)
qed

end
