(* ===== verification/Neon.thy ===== *)
theory Neon
  imports Http Json_Text
begin

section \<open>Neon over HTTP (src/neon-http.ts)\<close>

text \<open>
  \<open>NeonHttpClient\<close> posts a statement and reads rows from a JSON text whose cells are the PostgreSQL texts. The row
  mappers take DataRow bodies, so each row is rebuilt as one: \<open>decodeSingleRaw\<close> scans the bytes of the
  answer for the cells, without \<open>JSON.parse\<close>; \<open>decodeParsed\<close>, used for transactions, takes the parsed rows. The
  theorem shows that both build the same bodies. Positions are indices into the answer, as in the source.
\<close>

subsection \<open>Scanning JSON bytes\<close>

text \<open>From behind the opening quote: whether an escape was met, and the index after the closing quote (or the end).\<close>

function scan_loop :: "bytes \<Rightarrow> bool \<Rightarrow> nat \<Rightarrow> bool \<times> nat" where
  "scan_loop buf esc i =
     (if i < length buf then
        (if buf ! i = 0x5c then scan_loop buf True (if byte_eq buf (i + 1) 0x75 then i + 6 else i + 2)
         else if buf ! i = 0x22 then (esc, i + 1)
         else scan_loop buf esc (i + 1))
      else (esc, i))"
  by pat_completeness auto
termination by (relation "measure (\<lambda>(buf, esc, i). length buf - i)") auto

declare scan_loop.simps [simp del]

definition scanString :: "bytes \<Rightarrow> nat \<Rightarrow> bool \<times> nat" where
  "scanString buf i = scan_loop buf False (i + 1)"

lemma scan_loop_le: "i \<le> snd (scan_loop buf esc i)"
proof (induction buf esc i rule: scan_loop.induct)
  case (1 buf esc i)
  then show ?case by (subst scan_loop.simps) (auto split: if_splits)
qed

definition is_ws :: "byte \<Rightarrow> bool" where
  "is_ws c \<longleftrightarrow> c = 0x20 \<or> c = 0x09 \<or> c = 0x0a \<or> c = 0x0d"

function skipWs :: "bytes \<Rightarrow> nat \<Rightarrow> nat" where
  "skipWs buf i = (if i < length buf \<and> is_ws (buf ! i) then skipWs buf (i + 1) else i)"
  by pat_completeness auto
termination by (relation "measure (\<lambda>(buf, i). length buf - i)") auto

declare skipWs.simps [simp del]

lemma skipWs_le: "i \<le> skipWs buf i"
proof (induction buf i rule: skipWs.induct)
  case (1 buf i)
  then show ?case by (subst skipWs.simps) auto
qed

text \<open>\<open>endOfValue\<close>: of a string, of an object or array by the depth of its own brackets, of anything else up to a
  delimiter. Bytes past the end are undefined and end the loops.\<close>

function bracket_end :: "bytes \<Rightarrow> byte \<Rightarrow> byte \<Rightarrow> int \<Rightarrow> nat \<Rightarrow> nat" where
  "bracket_end buf op cl depth i =
     (if i < length buf then
        (if buf ! i = 0x22 then bracket_end buf op cl depth (snd (scanString buf i))
         else if buf ! i = op then bracket_end buf op cl (depth + 1) (i + 1)
         else if buf ! i = cl then (if depth - 1 = 0 then i + 1 else bracket_end buf op cl (depth - 1) (i + 1))
         else bracket_end buf op cl depth (i + 1))
      else i)"
  by pat_completeness auto
termination
proof (relation "measure (\<lambda>(buf, op, cl, depth, i). length buf - i)")
  fix buf :: bytes and op cl :: byte and depth :: int and i :: nat
  assume "i < length buf"
  moreover have "i + 1 \<le> snd (scanString buf i)" unfolding scanString_def by (rule scan_loop_le)
  ultimately show "((buf, op, cl, depth, snd (scanString buf i)), (buf, op, cl, depth, i)) \<in> measure (\<lambda>(buf, op, cl, depth, i). length buf - i)"
    by simp
qed auto

function scalar_end :: "bytes \<Rightarrow> nat \<Rightarrow> nat" where
  "scalar_end buf i =
     (if i < length buf \<and> \<not> (buf ! i = 0x2c \<or> buf ! i = 0x7d \<or> buf ! i = 0x5d \<or> buf ! i \<le> 0x20) then scalar_end buf (i + 1) else i)"
  by pat_completeness auto
termination by (relation "measure (\<lambda>(buf, i). length buf - i)") auto

declare bracket_end.simps [simp del] scalar_end.simps [simp del]

definition endOfValue :: "bytes \<Rightarrow> nat \<Rightarrow> nat" where
  "endOfValue buf i =
     (if byte_eq buf i 0x22 then snd (scanString buf i)
      else if byte_eq buf i 0x7b then bracket_end buf 0x7b 0x7d 0 i
      else if byte_eq buf i 0x5b then bracket_end buf 0x5b 0x5d 0 i
      else scalar_end buf i)"

text \<open>\<open>while (c === 0x2c) { i = skipWs(raw, i + 1); c = raw[i] }\<close>\<close>

function skip_commas :: "bytes \<Rightarrow> nat \<Rightarrow> nat" where
  "skip_commas raw i = (if byte_eq raw i 0x2c then skip_commas raw (skipWs raw (i + 1)) else i)"
  by pat_completeness auto
termination
proof (relation "measure (\<lambda>(raw, i). length raw - i)")
  fix raw :: bytes and i :: nat
  assume "byte_eq raw i 0x2c"
  then have "i < length raw" by (simp add: byte_eq_def)
  moreover have "i + 1 \<le> skipWs raw (i + 1)" by (rule skipWs_le)
  ultimately have "length raw - skipWs raw (i + 1) < length raw - i" by linarith
  then show "((raw, skipWs raw (i + 1)), (raw, i)) \<in> measure (\<lambda>(raw, i). length raw - i)" by simp
qed simp

declare skip_commas.simps [simp del]

subsection \<open>Rows as DataRow bodies\<close>

text \<open>The content of a \<open>RowBuf\<close> behind the column count. \<open>pushSlice\<close> writes the length first; a slice that ends before it
  starts moves the position back.\<close>

definition pushNull :: "bytes \<Rightarrow> bytes" where
  "pushNull rb = rb @ be_bytes 4 (- 1)"

definition pushSlice :: "bytes \<Rightarrow> nat \<Rightarrow> nat \<Rightarrow> bytes \<Rightarrow> js_error + bytes" where
  "pushSlice src start stop rb = rbind (i32_bytes (int stop - int start)) (\<lambda>len.
     if length src < start then Inl BufferOutOfBounds
     else if stop < start then Inr (take (length rb + 4 - (start - stop)) (rb @ len))
     else Inr (rb @ len @ subarray src (int start) (int stop)))"

definition pushText :: "jsstr option \<Rightarrow> bytes \<Rightarrow> js_error + bytes" where
  "pushText s rb = (case s of None \<Rightarrow> Inr (pushNull rb) | Some t \<Rightarrow> pushSlice (utf8 t) 0 (length (utf8 t)) rb)"

definition finish_row :: "nat \<Rightarrow> bytes \<Rightarrow> js_error + bytes" where
  "finish_row ncols rb = (if ncols \<le> 32767 then Inr (be_bytes 2 (int ncols) @ rb) else Inl (OutOfRange (int ncols)))"

text \<open>\<open>Buffer.from(JSON.parse(text) as string, 'utf8')\<close>: a value that is no string throws.\<close>

definition parsed_text :: "bytes \<Rightarrow> js_error + bytes" where
  "parsed_text b = rbind (json_parse (from_utf8 b)) (\<lambda>v. case v of DStr s \<Rightarrow> Inr (utf8 s) | _ \<Rightarrow> Inl (Thrown ''Buffer.from''))"

fun raw_cells :: "bytes \<Rightarrow> nat \<Rightarrow> nat \<Rightarrow> bytes \<Rightarrow> js_error + bytes \<times> nat" where
  "raw_cells raw 0 i rb = Inr (rb, i)"
| "raw_cells raw (Suc n) i rb =
     (let i1 = skip_commas raw (skipWs raw i) in
      if byte_eq raw i1 0x6e then raw_cells raw n (i1 + 4) (pushNull rb)
      else case scanString raw i1 of (scanEscaped, se) \<Rightarrow>
        rbind (if scanEscaped
            then rbind (parsed_text (subarray raw (int i1) (int se))) (\<lambda>b. pushSlice b 0 (length b) rb)
            else pushSlice raw (i1 + 1) (se - 1) rb)
          (\<lambda>rb1. raw_cells raw n se rb1))"

text \<open>The rows up to the closing bracket. Without one the loop ends by an exception or, with no columns, not at all; every
  turn moves on, so that fuel beyond the length of the answer only runs out in the latter case.\<close>

fun raw_rows :: "(bytes \<Rightarrow> js_error + 'r) \<Rightarrow> nat \<Rightarrow> bytes \<Rightarrow> nat \<Rightarrow> nat \<Rightarrow> js_error + 'r list \<times> nat" where
  "raw_rows rowFrom 0 raw ncols i = Inl NoReturn"
| "raw_rows rowFrom (Suc fuel) raw ncols i =
     (let i1 = skip_commas raw (skipWs raw i) in
      if byte_eq raw i1 0x5d then Inr ([], i1 + 1)
      else rbind (raw_cells raw ncols (i1 + 1) []) (\<lambda>(rb, i2).
        let i3 = skipWs raw i2; i4 = (if byte_eq raw i3 0x5d then i3 + 1 else i3) in
        rbind (finish_row ncols rb) (\<lambda>body. rbind (rowFrom body) (\<lambda>r.
        rbind (raw_rows rowFrom fuel raw ncols i4) (\<lambda>(rs, j). Inr (r # rs, j))))))"

declare raw_rows.simps [simp del]

definition parsed_row :: "nat \<Rightarrow> jsstr option list \<Rightarrow> js_error + bytes" where
  "parsed_row ncols row =
     rbind (foldl (\<lambda>rb c. rbind rb (pushText (if c < length row then row ! c else None))) (Inr []) [0..<ncols]) (finish_row ncols)"

subsection \<open>The client\<close>

datatype neon_err = N_tx jsstr | N_fetch nat | N_pg dval | N_status int | N_js js_error

record 'j neon_cfg =
  nc_temporalString :: bool
  nc_mapperFactory :: "codegen_col list \<Rightarrow> result_mode \<Rightarrow> js_error + (bytes \<Rightarrow> js_error + 'j row)"

definition neon_col :: "bool \<Rightarrow> codegen_col \<Rightarrow> codegen_col" where
  "neon_col temporalString c0 =
     (let c = tagArrayCol ELEM_OID c0 in
      if \<not> temporalString then c
      else if cc_js c = None \<and> \<not> cc_json c \<and> cc_oid c \<in> set INSTANT_OIDS then c\<lparr>cc_js := Some ''string'', cc_binary := False\<rparr>
      else case cc_array c of
        Some (el, None) \<Rightarrow> if el \<in> set INSTANT_OIDS then c\<lparr>cc_array := Some (el, Some ''string'')\<rparr> else c
      | _ \<Rightarrow> c)"

text \<open>Of a field only its name and \<open>dataTypeID\<close> are used.\<close>

definition neon_planCols :: "'j neon_cfg \<Rightarrow> field list \<Rightarrow> shape_plan \<Rightarrow> js_error + codegen_col list" where
  "neon_planCols cfg flds shape =
     rbind (case shape of
         Some plan \<Rightarrow> rbind plan (\<lambda>cols. Inr (mergeUnknownCols (map text_col cols) flds))
       | None \<Rightarrow> Inr (map (\<lambda>f. plain_col (f_name f) (f_dataTypeOid f) False) flds))
       (\<lambda>cols. Inr (map (neon_col (nc_temporalString cfg)) cols))"

definition rowFrom :: "result_mode \<Rightarrow> (bytes \<Rightarrow> js_error + 'j row) option \<Rightarrow> bytes \<Rightarrow> js_error + 'j row" where
  "rowFrom mode mapper body = (case mapper of
       Some f \<Rightarrow> f body
     | None \<Rightarrow> if mode = MBuffer then rbind (parseDataRow body) (\<lambda>cs. Inr (RowBuffer cs)) else Inr (RowRaw body))"

definition neon_mapper :: "'j neon_cfg \<Rightarrow> codegen_col list \<Rightarrow> result_mode \<Rightarrow> js_error + (bytes \<Rightarrow> js_error + 'j row) option" where
  "neon_mapper cfg cols mode =
     (if mode = MArray \<or> mode = MObject then rbind (nc_mapperFactory cfg cols mode) (\<lambda>f. Inr (Some f)) else Inr None)"

text \<open>\<open>buf.indexOf(key, from)\<close>\<close>

definition find_bytes :: "bytes \<Rightarrow> bytes \<Rightarrow> nat \<Rightarrow> nat option" where
  "find_bytes buf key start = find (\<lambda>i. take (length key) (drop i buf) = key) [start..<length buf]"

definition FKEY :: bytes where "FKEY = latin1 (asc ''\"fields\":'')"
definition RKEY :: bytes where "RKEY = latin1 (asc ''\"rows\":'')"

definition strField :: "bytes \<Rightarrow> bytes \<Rightarrow> nat \<Rightarrow> js_error + jsstr option" where
  "strField buf key start = (case find_bytes buf key start of
       None \<Rightarrow> Inr None
     | Some i \<Rightarrow>
         let j = skipWs buf (i + length key) in
         if \<not> byte_eq buf j 0x22 then Inr None
         else rbind (json_parse (from_utf8 (subarray buf (int j) (int (snd (scanString buf j)))))) (\<lambda>v.
           case v of DStr s \<Rightarrow> Inr (Some s) | _ \<Rightarrow> Inl (Thrown ''command'')))"

text \<open>The text \<open>Number\<close> is applied to.\<close>

definition numField :: "bytes \<Rightarrow> bytes \<Rightarrow> nat \<Rightarrow> jsstr option" where
  "numField buf key start = (case find_bytes buf key start of
       None \<Rightarrow> None
     | Some i \<Rightarrow>
         let j = skipWs buf (i + length key);
             s = from_latin1 (takeWhile (\<lambda>c. \<not> (c = 0x2c \<or> c = 0x7d \<or> c \<le> 0x20)) (drop j buf))
         in if s = asc ''null'' then None else Some s)"

text \<open>The results of \<open>neon-http.ts\<close>: rows, columns, the text of the row count or a number, and the command. \<open>as_fields\<close> stands for
  the unchecked cast of the parsed field list.\<close>

record 'j neon_result =
  nr_rows :: "'j row list"
  nr_columns :: "jsstr list"
  nr_rowCount :: "jsstr option"
  nr_command :: "jsstr option"

definition decodeSingleRaw :: "(dval \<Rightarrow> js_error + field list) \<Rightarrow> 'j neon_cfg \<Rightarrow> bytes \<Rightarrow> result_mode \<Rightarrow> shape_plan \<Rightarrow> js_error + 'j neon_result" where
  "decodeSingleRaw as_fields cfg raw mode shape =
     (let past = (\<lambda>r key. case r of Some i \<Rightarrow> i + length key | None \<Rightarrow> length key - 1);
          fvs = skipWs raw (past (find_bytes raw FKEY 0) FKEY);
          fve = endOfValue raw fvs in
      rbind (rbind (json_parse (from_utf8 (subarray raw (int fvs) (int fve)))) as_fields) (\<lambda>flds.
      let i = skipWs raw (past (find_bytes raw RKEY fve) RKEY) + 1 in
      rbind (neon_planCols cfg flds shape) (\<lambda>cols.
      rbind (neon_mapper cfg cols mode) (\<lambda>mapper.
      rbind (raw_rows (rowFrom mode mapper) (length raw + 1) raw (length cols) i) (\<lambda>(rows, j).
      rbind (strField raw (latin1 (asc ''\"command\":'')) j) (\<lambda>command.
        Inr \<lparr>nr_rows = rows, nr_columns = map cc_name cols, nr_rowCount = numField raw (latin1 (asc ''\"rowCount\":'')) j, nr_command = command\<rparr>))))))"

record neon_parsed =
  np_fields :: "field list"
  np_rows :: "jsstr option list list"
  np_rowCount :: "jsstr option"
  np_command :: "jsstr option"

definition decodeParsed :: "'j neon_cfg \<Rightarrow> neon_parsed \<Rightarrow> result_mode \<Rightarrow> shape_plan \<Rightarrow> js_error + 'j neon_result" where
  "decodeParsed cfg result mode shape =
     rbind (neon_planCols cfg (np_fields result) shape) (\<lambda>cols.
     rbind (neon_mapper cfg cols mode) (\<lambda>mapper.
     rbind (rmap (\<lambda>row. rbind (parsed_row (length cols) row) (rowFrom mode mapper)) (np_rows result)) (\<lambda>rows.
       Inr \<lparr>nr_rows = rows, nr_columns = map cc_name cols,
         nr_rowCount = Some (case np_rowCount result of Some n \<Rightarrow> n | None \<Rightarrow> dec_int (int (length rows))), nr_command = np_command result\<rparr>)))"

record neon_response =
  ne_ok :: bool
  ne_status :: int
  ne_body :: bytes

datatype neon_answer = Ne_rejected nat | Ne_response neon_response

definition json_prop :: "dval \<Rightarrow> string \<Rightarrow> dval option" where
  "json_prop v k = (case v of DObj kvs \<Rightarrow> map_of kvs (asc k) | _ \<Rightarrow> None)"

definition truthy :: "dval option \<Rightarrow> bool" where
  "truthy v = (case v of None \<Rightarrow> False | Some DNull \<Rightarrow> False | Some (DBool b) \<Rightarrow> b | Some (DStr s) \<Rightarrow> s \<noteq> []
     | Some (DNum n) \<Rightarrow> n \<noteq> js_number (asc ''0'') \<and> n \<noteq> js_number (asc ''-0'') | Some (DBig n) \<Rightarrow> n \<noteq> 0 | Some _ \<Rightarrow> True)"

definition neon_post :: "neon_answer \<Rightarrow> neon_err + bytes" where
  "neon_post r = (case r of
       Ne_rejected e \<Rightarrow> Inl (N_fetch e)
     | Ne_response res \<Rightarrow>
         if ne_ok res then Inr (ne_body res)
         else (case json_parse (from_utf8 (ne_body res)) of
             Inr v \<Rightarrow> if truthy (json_prop v ''message'') \<or> truthy (json_prop v ''code'') then Inl (N_pg v) else Inl (N_status (ne_status res))
           | Inl e \<Rightarrow> Inl (N_status (ne_status res))))"

definition neon_js :: "js_error + 'a \<Rightarrow> neon_err + 'a" where
  "neon_js r = (case r of Inl e \<Rightarrow> Inl (N_js e) | Inr x \<Rightarrow> Inr x)"

text \<open>A statement; a batch gives each its own mode and shape.\<close>

definition neon_mode :: "http_query \<Rightarrow> result_mode" where
  "neon_mode q = decode_mode_of (hq_mode q) (hq_shape q)"

definition neon_query :: "(dval \<Rightarrow> js_error + field list) \<Rightarrow> 'j neon_cfg \<Rightarrow> (jsstr \<Rightarrow> jsval list \<Rightarrow> neon_answer) \<Rightarrow> http_query \<Rightarrow> neon_err + 'j neon_result" where
  "neon_query as_fields cfg send q =
     (case TX_SQL (hq_sql q) of
        Some tx \<Rightarrow> Inl (N_tx tx)
      | None \<Rightarrow>
          rbind (neon_js (encodeJsonParams (hq_params q) None)) (\<lambda>ps.
          rbind (neon_post (send (hq_sql q) ps)) (\<lambda>raw. neon_js (decodeSingleRaw as_fields cfg raw (neon_mode q) (hq_shape q)))))"

definition neon_transaction :: "'j neon_cfg \<Rightarrow> ((jsstr \<times> jsval list) list \<Rightarrow> neon_answer) \<Rightarrow> (bytes \<Rightarrow> js_error + neon_parsed list) \<Rightarrow>
    http_query list \<Rightarrow> neon_err + 'j neon_result list" where
  "neon_transaction cfg send as_results qs =
     rbind (rmap (\<lambda>q. case TX_SQL (hq_sql q) of Some tx \<Rightarrow> Inl (N_tx tx) | None \<Rightarrow> Inr ()) qs) (\<lambda>_.
     rbind (neon_js (rmap (\<lambda>q. rbind (encodeJsonParams (hq_params q) None) (\<lambda>ps. Inr (hq_sql q, ps))) qs)) (\<lambda>body.
     rbind (neon_post (send body)) (\<lambda>raw.
     neon_js (rbind (as_results raw) (\<lambda>results.
       rmap (\<lambda>(i, r). if i < length qs then decodeParsed cfg r (neon_mode (qs ! i)) (hq_shape (qs ! i)) else Inl (Thrown ''queries[i]''))
         (enumerate 0 results))))))"

subsection \<open>The scan finds the cells\<close>

text \<open>A cell in the text: null, a string without escapes, or one with escapes, as the bytes between its quotes.\<close>

datatype lit_item = LI_byte byte | LI_esc byte | LI_uni byte byte byte byte

fun item_bytes :: "lit_item \<Rightarrow> bytes" where
  "item_bytes (LI_byte b) = [b]"
| "item_bytes (LI_esc b) = [0x5c, b]"
| "item_bytes (LI_uni a b c d) = [0x5c, 0x75, a, b, c, d]"

fun item_ok :: "lit_item \<Rightarrow> bool" where
  "item_ok (LI_byte b) \<longleftrightarrow> b \<noteq> 0x22 \<and> b \<noteq> 0x5c"
| "item_ok (LI_esc b) \<longleftrightarrow> b \<noteq> 0x75"
| "item_ok (LI_uni a b c d) \<longleftrightarrow> True"

fun is_escape :: "lit_item \<Rightarrow> bool" where
  "is_escape (LI_byte b) \<longleftrightarrow> False"
| "is_escape _ \<longleftrightarrow> True"

definition quoted :: "bytes \<Rightarrow> bytes" where "quoted b = [0x22] @ b @ [0x22]"

lemma unat_117: "unat x = 117 \<longleftrightarrow> x = (117 :: byte)" and unat_44: "unat x = 44 \<longleftrightarrow> x = (44 :: byte)" and unat_93: "unat x = 93 \<longleftrightarrow> x = (93 :: byte)"
  and unat_110: "unat x = 110 \<longleftrightarrow> x = (110 :: byte)"
  by (auto simp: word_unat_eq_iff)

lemma plus6: "n + 6 = Suc (Suc (Suc (Suc (Suc (Suc n)))))"
  by simp

lemma plus4: "n + 4 = Suc (Suc (Suc (Suc n)))"
  by simp

lemma scan_item: "item_ok x \<Longrightarrow> scan_loop (pre @ item_bytes x @ post) esc (length pre) =
    scan_loop (pre @ item_bytes x @ post) (esc \<or> is_escape x) (length pre + length (item_bytes x))"
  by (cases x; subst scan_loop.simps) (auto simp: byte_eq_def nth_append unat_117 plus6)

lemma scan_items:
  "list_all item_ok xs \<Longrightarrow> scan_loop (pre @ concat (map item_bytes xs) @ 0x22 # post) esc (length pre) =
    (esc \<or> list_ex is_escape xs, length pre + length (concat (map item_bytes xs)) + 1)"
proof (induction xs arbitrary: pre esc)
  case Nil
  show ?case by (subst scan_loop.simps) simp
next
  case (Cons x xs)
  from Cons.IH [of "pre @ item_bytes x" "esc \<or> is_escape x"] Cons.prems
    scan_item [of x pre "concat (map item_bytes xs) @ 0x22 # post" esc]
  show ?case by (simp add: add.assoc disj_assoc)
qed

lemma scanString_items:
  "list_all item_ok xs \<Longrightarrow> scanString (pre @ quoted (concat (map item_bytes xs)) @ post) (length pre) =
    (list_ex is_escape xs, length pre + length (quoted (concat (map item_bytes xs))))"
  using scan_items [of xs "pre @ [0x22]" post False] by (simp add: scanString_def quoted_def)


definition is_sep :: "byte \<Rightarrow> bool" where
  "is_sep c \<longleftrightarrow> is_ws c \<or> c = 0x2c"

lemma skipWs_ws: "list_all is_ws w \<Longrightarrow> post \<noteq> [] \<Longrightarrow> \<not> is_ws (hd post) \<Longrightarrow> skipWs (pre @ w @ post) (length pre) = length pre + length w"
proof (induction w arbitrary: pre)
  case Nil
  then show ?case by (subst skipWs.simps) (cases post; simp)
next
  case (Cons c w)
  from Cons.IH [of "pre @ [c]"] Cons.prems show ?case by (subst skipWs.simps) simp
qed

lemma skip_gap:
  "list_all is_sep g \<Longrightarrow> post \<noteq> [] \<Longrightarrow> \<not> is_sep (hd post) \<Longrightarrow>
    skip_commas (pre @ g @ post) (skipWs (pre @ g @ post) (length pre)) = length pre + length g"
proof (induction g arbitrary: pre)
  case Nil
  then show ?case by (subst skipWs.simps, subst skip_commas.simps) (cases post; simp add: is_sep_def byte_eq_def; simp add: unat_44)
next
  case (Cons c g)
  note ih = Cons.IH [of "pre @ [c]"]
  show ?case
  proof (cases "is_ws c")
    case True
    with ih Cons.prems show ?thesis by (subst skipWs.simps) simp
  next
    case False
    with Cons.prems have c: "c = 0x2c" by (simp add: is_sep_def)
    have "skipWs (pre @ (c # g) @ post) (length pre) = length pre" using False by (subst skipWs.simps) simp
    with ih Cons.prems c show ?thesis by (simp, subst skip_commas.simps) (simp add: byte_eq_def)
  qed
qed


subsection \<open>Cells\<close>

datatype neon_cell = NC_null | NC_plain jsstr | NC_escaped "lit_item list"

fun cell_src :: "neon_cell \<Rightarrow> bytes" where
  "cell_src NC_null = [0x6e, 0x75, 0x6c, 0x6c]"
| "cell_src (NC_plain u) = quoted (utf8 u)"
| "cell_src (NC_escaped xs) = quoted (concat (map item_bytes xs))"

text \<open>What \<open>JSON.parse\<close> makes of it.\<close>

definition cell_string :: "neon_cell \<Rightarrow> jsstr option" where
  "cell_string c = (case json_parse (from_utf8 (cell_src c)) of Inr (DStr s) \<Rightarrow> Some s | _ \<Rightarrow> None)"

definition plain_unit :: "unit16 \<Rightarrow> bool" where
  "plain_unit c \<longleftrightarrow> 32 \<le> unat c \<and> unat c \<noteq> 34 \<and> unat c \<noteq> 92"

definition short_text :: "jsstr option \<Rightarrow> bool" where
  "short_text s = (case s of Some t \<Rightarrow> length (utf8 t) \<le> 2147483647 | None \<Rightarrow> True)"

definition cell_fine :: "neon_cell \<Rightarrow> bool" where
  "cell_fine c \<longleftrightarrow> short_text (cell_string c) \<and> (case c of
       NC_null \<Rightarrow> True
     | NC_plain u \<Rightarrow> well_formed u \<and> list_all plain_unit u
     | NC_escaped xs \<Rightarrow> list_all item_ok xs \<and> list_ex is_escape xs \<and> cell_string c \<noteq> None)"

lemma utf8_cp_ascii: "b \<in> set (utf8_cp n) \<Longrightarrow> unat b < 128 \<Longrightarrow> n < 1114112 \<Longrightarrow> n = unat b"
proof -
  assume b: "b \<in> set (utf8_cp n)" "unat b < 128" and n: "n < 1114112"
  have m: "192 + n div 64 < 256 \<and> 128 \<le> (192 + n div 64) mod 256" if "n < 2048" using that by (simp add: div_less_iff_less_mult)
  have m3: "128 \<le> (224 + n div 4096) mod 256" if "n < 65536" using that by (simp add: div_less_iff_less_mult)
  have m4: "128 \<le> (240 + n div 262144) mod 256" using n by (simp add: div_less_iff_less_mult)
  have k: "128 \<le> (128 + x mod 64) mod 256" for x :: nat using mod_less_divisor [of 64 x] by simp
  have u: "unat (b8 x) = x mod 256" for x by (simp add: unat_b8)
  show "n = unat b" using b m m3 m4 k n by (auto simp: utf8_cp_def u not_less [symmetric] split: if_splits)
qed

lemma code_point_unit: "n \<in> set (code_points u) \<Longrightarrow> n < 128 \<Longrightarrow> \<exists>c\<in>set u. unat c = n"
  by (induction u rule: code_points.induct) (auto simp: lone_cp_def split: if_splits)

lemma plain_items:
  assumes "list_all plain_unit u"
  shows "list_all item_ok (map LI_byte (utf8 u))" "concat (map item_bytes (map LI_byte (utf8 u))) = utf8 u" "\<not> list_ex is_escape (map LI_byte (utf8 u))"
proof -
  have "unat b \<noteq> 34 \<and> unat b \<noteq> 92" if b: "b \<in> set (utf8 u)" for b
  proof (rule ccontr)
    assume n: "\<not> (unat b \<noteq> 34 \<and> unat b \<noteq> 92)"
    from b obtain n where m: "n \<in> set (code_points u)" "b \<in> set (utf8_cp n)" by (auto simp: utf8_def)
    then have "n < 1114112" using code_points_scalar [of u] by (auto simp: list_all_iff is_scalar_def)
    with m n have "n = unat b" by (intro utf8_cp_ascii) auto
    with code_point_unit [OF m(1)] n assms show False by (auto simp: list_all_iff plain_unit_def)
  qed
  then have "b \<noteq> 34 \<and> b \<noteq> 92" if "b \<in> set (utf8 u)" for b using that by fastforce
  then show "list_all item_ok (map LI_byte (utf8 u))" by (simp add: list_all_iff)
  show "concat (map item_bytes (map LI_byte (utf8 u))) = utf8 u" by (simp add: o_def)
  show "\<not> list_ex is_escape (map LI_byte (utf8 u))" by (simp add: list_ex_iff)
qed

lemma json_string_plain: "list_all plain_unit u \<Longrightarrow> json_string (u @ [u16 34]) = Some (u, [])"
proof (induction u)
  case Nil
  show ?case by (subst json_string.simps) simp
next
  case (Cons c u)
  then show ?case by (subst json_string.simps) (simp add: plain_unit_def)
qed

lemma quoted_utf8: "utf8 ([u16 34] @ u @ [u16 34]) = quoted (utf8 u)"
proof -
  have "utf8 (u @ [u16 34]) = utf8 u @ utf8 [u16 34]" by (rule utf8_append_at) (simp add: is_lo_def)
  then show ?thesis by (simp add: quoted_def utf8_ascii_Cons b8_def)
qed

lemma well_formed_snoc: "well_formed u \<Longrightarrow> \<not> is_hi c \<Longrightarrow> \<not> is_lo c \<Longrightarrow> well_formed (u @ [c])"
  by (induction u rule: well_formed.induct) (auto split: if_splits)

lemma plain_string: "well_formed u \<Longrightarrow> list_all plain_unit u \<Longrightarrow> cell_string (NC_plain u) = Some u"
proof -
  assume u: "well_formed u" "list_all plain_unit u"
  have "well_formed (u @ [u16 34])" using u(1) by (intro well_formed_snoc) (simp_all add: is_hi_def is_lo_def)
  then have "well_formed ([u16 34] @ u @ [u16 34])" by (cases u) (auto simp: is_hi_def is_lo_def)
  then have "from_utf8 (quoted (utf8 u)) = [u16 34] @ u @ [u16 34]" using from_utf8_utf8 quoted_utf8 by metis
  then show ?thesis
    by (simp add: cell_string_def json_parse_def json_parse_with_def skip_ws_def json_space_def json_key_def json_string_plain [OF u(2)])
qed


lemma plain_scan: "list_all plain_unit u \<Longrightarrow> scanString (pre @ quoted (utf8 u) @ post) (length pre) = (False, length pre + length (quoted (utf8 u)))"
  using scanString_items [OF plain_items(1), of u pre post] plain_items(2, 3) [of u] by simp

definition cell_out :: "neon_cell \<Rightarrow> bytes" where
  "cell_out c = cell_bytes (map_option utf8 (cell_string c))"

lemma null_string: "cell_string NC_null = None"
proof -
  have "utf8 (asc ''null'') = [0x6e, 0x75, 0x6c, 0x6c]" by (simp add: asc_def utf8_ascii latin1_def) (simp add: b8_def u16_def)
  moreover have "from_utf8 (utf8 (asc ''null'')) = asc ''null''" by (rule from_utf8_utf8) (simp add: asc_def is_hi_def is_lo_def)
  moreover have "json_value num (2 * k + 2) (asc ''null'') = Inr (DNull, [])" for num k by (simp add: asc_def literal_def)
  moreover have "skip_ws (asc ''null'') = asc ''null''" "skip_ws [] = []" by (simp_all add: asc_def skip_ws_def json_space_def)
  ultimately show ?thesis by (simp add: cell_string_def json_parse_def json_parse_with_def)
qed

lemma push_whole: "length b \<le> 2147483647 \<Longrightarrow> pushSlice b 0 (length b) rb = Inr (rb @ cell_bytes (Some b))"
  using subarray_at [of "[]" b "[]"] by (simp add: pushSlice_def i32_bytes_def cell_bytes_simps)

lemma push_inner:
  assumes "length b \<le> 2147483647"
  shows "pushSlice (pre @ quoted b @ post) (length pre + 1) (length pre + length (quoted b) - 1) rb = Inr (rb @ cell_bytes (Some b))"
  using assms subarray_at [of "pre @ [0x22]" b "0x22 # post"] by (simp add: pushSlice_def i32_bytes_def cell_bytes_simps quoted_def ac_simps)

lemma cell_start: "cell_src c \<noteq> []" "\<not> is_sep (hd (cell_src c))" "hd (cell_src c) \<noteq> 0x5d"
  by (cases c; simp add: quoted_def is_sep_def is_ws_def)+

lemma cell_scan:
  assumes "cell_fine c"
  shows "(let raw = pre @ cell_src c @ post; i1 = length pre in
      if byte_eq raw i1 0x6e then raw_cells raw n (i1 + 4) (pushNull rb)
      else case scanString raw i1 of (scanEscaped, se) \<Rightarrow>
        rbind (if scanEscaped
            then rbind (parsed_text (subarray raw (int i1) (int se))) (\<lambda>b. pushSlice b 0 (length b) rb)
            else pushSlice raw (i1 + 1) (se - 1) rb)
          (\<lambda>rb1. raw_cells raw n se rb1)) =
    raw_cells (pre @ cell_src c @ post) n (length pre + length (cell_src c)) (rb @ cell_out c)"
proof (cases c)
  case NC_null
  then show ?thesis by (simp add: byte_eq_def cell_out_def null_string pushNull_def cell_bytes_simps plus4)
next
  case (NC_plain u)
  with assms have u: "well_formed u" "list_all plain_unit u" by (simp_all add: cell_fine_def)
  with assms NC_plain have l: "length (utf8 u) \<le> 2147483647" by (simp add: cell_fine_def plain_string short_text_def)
  have "\<not> byte_eq (pre @ quoted (utf8 u) @ post) (length pre) 110" by (simp add: byte_eq_def quoted_def)
  then show ?thesis
    using push_inner [OF l, of pre post rb] by (simp add: NC_plain Let_def plain_scan [OF u(2)] cell_out_def plain_string [OF u] del: length_append)
next
  case (NC_escaped xs)
  with assms obtain s where xs: "list_all item_ok xs" "list_ex is_escape xs" and s: "cell_string c = Some s"
    by (auto simp: cell_fine_def)
  have p: "parsed_text (quoted (concat (map item_bytes xs))) = Inr (utf8 s)"
    using s by (auto simp: NC_escaped cell_string_def parsed_text_def split: sum.splits dval.splits)
  have l: "length (utf8 s) \<le> 2147483647" using assms s by (simp add: cell_fine_def short_text_def)
  have "\<not> byte_eq (pre @ quoted (concat (map item_bytes xs)) @ post) (length pre) 110" by (simp add: byte_eq_def quoted_def)
  moreover have "subarray (pre @ quoted (concat (map item_bytes xs)) @ post) (int (length pre)) (int (length pre + length (quoted (concat (map item_bytes xs)))))
      = quoted (concat (map item_bytes xs))" using subarray_at [of pre "quoted (concat (map item_bytes xs))" post] by (simp only: of_nat_add)
  ultimately show ?thesis
    using s by (simp only: NC_escaped cell_src.simps Let_def scanString_items [OF xs(1)] xs(2) p cell_out_def option.map if_True if_False prod.case rbind_simps push_whole [OF l])
qed

lemma raw_cell:
  assumes "cell_fine c" "list_all is_sep g"
  shows "raw_cells (pre @ g @ cell_src c @ post) (Suc n) (length pre) rb =
    raw_cells (pre @ g @ cell_src c @ post) n (length pre + length g + length (cell_src c)) (rb @ cell_out c)"
proof -
  have "skip_commas (pre @ g @ cell_src c @ post) (skipWs (pre @ g @ cell_src c @ post) (length pre)) = length pre + length g"
    using skip_gap [OF assms(2), of "cell_src c @ post" pre] cell_start [of c] by simp
  with cell_scan [OF assms(1), of "pre @ g" post n rb] show ?thesis by (simp add: Let_def)
qed

type_synonym neon_row = "bytes \<times> (bytes \<times> neon_cell) list \<times> bytes"

definition cells_src :: "(bytes \<times> neon_cell) list \<Rightarrow> bytes" where
  "cells_src cs = concat (map (\<lambda>(g, c). g @ cell_src c) cs)"

definition row_src :: "neon_row \<Rightarrow> bytes" where
  "row_src r = (case r of (g, cs, w) \<Rightarrow> g @ [0x5b] @ cells_src cs @ w @ [0x5d])"

definition row_strings :: "neon_row \<Rightarrow> jsstr option list" where
  "row_strings r = (case r of (g, cs, w) \<Rightarrow> map (\<lambda>(g, c). cell_string c) cs)"

definition row_fine :: "nat \<Rightarrow> neon_row \<Rightarrow> bool" where
  "row_fine ncols r \<longleftrightarrow> (case r of (g, cs, w) \<Rightarrow> list_all is_sep g \<and> list_all is_ws w \<and> length cs = ncols \<and>
     list_all (\<lambda>(g, c). list_all is_sep g \<and> cell_fine c) cs)"

lemma raw_cells_all:
  assumes "list_all (\<lambda>(g, c). list_all is_sep g \<and> cell_fine c) cs"
  shows "raw_cells (pre @ cells_src cs @ post) (length cs) (length pre) rb =
    Inr (rb @ concat (map (\<lambda>(g, c). cell_out c) cs), length pre + length (cells_src cs))"
  using assms
proof (induction cs arbitrary: pre rb)
  case (Cons x cs)
  obtain g c where x: "x = (g, c)" by (cases x)
  from Cons.prems x have f: "cell_fine c" "list_all is_sep g" by simp_all
  from raw_cell [OF f, of pre "cells_src cs @ post" "length cs" rb] Cons.IH [of "pre @ g @ cell_src c" "rb @ cell_out c"] Cons.prems
  show ?case by (simp add: x cells_src_def add.assoc)
qed (simp add: cells_src_def)

lemma pushText_fine: "short_text s \<Longrightarrow> pushText s rb = Inr (rb @ cell_bytes (map_option utf8 s))"
  by (cases s) (simp_all add: pushText_def push_whole short_text_def pushNull_def cell_bytes_simps)

lemma parsed_row_fine:
  assumes "list_all short_text row" "length row \<le> 32767"
  shows "parsed_row (length row) row = Inr (data_row (map (map_option utf8) row))"
proof -
  have "k \<le> length row \<Longrightarrow> foldl (\<lambda>rb c. rbind rb (pushText (if c < length row then row ! c else None))) (Inr []) [0..<k] =
      (Inr (concat (map (\<lambda>s. cell_bytes (map_option utf8 s)) (take k row))) :: js_error + bytes)" for k
  proof (induction k)
    case (Suc k)
    then have "short_text (row ! k)" using assms(1) by (simp add: list_all_length)
    with Suc show ?case by (simp add: take_Suc_conv_app_nth pushText_fine)
  qed simp
  from this [of "length row"] show ?thesis using assms(2) by (simp add: parsed_row_def finish_row_def data_row_def o_def)
qed


lemma raw_row:
  assumes "row_fine ncols r" "ncols \<le> 32767"
  shows "raw_rows rf (Suc fuel) (pre @ row_src r @ post) ncols (length pre) =
    rbind (rf (data_row (map (map_option utf8) (row_strings r)))) (\<lambda>x.
    rbind (raw_rows rf fuel (pre @ row_src r @ post) ncols (length pre + length (row_src r))) (\<lambda>(xs, j). Inr (x # xs, j)))"
proof -
  obtain g cs w where r: "r = (g, cs, w)" by (cases r)
  let ?raw = "pre @ row_src r @ post"
  have f: "list_all is_sep g" "list_all is_ws w" "length cs = ncols" "list_all (\<lambda>(g, c). list_all is_sep g \<and> cell_fine c) cs"
    using assms(1) by (simp_all add: r row_fine_def)
  have 1: "skip_commas ?raw (skipWs ?raw (length pre)) = length pre + length g"
    using skip_gap [OF f(1), of "0x5b # cells_src cs @ w @ 0x5d # post" pre] by (simp add: r row_src_def is_sep_def is_ws_def)
  have 2: "\<not> byte_eq ?raw (length pre + length g) 0x5d" by (simp add: r row_src_def byte_eq_def nth_append)
  have 3: "raw_cells ?raw ncols (length pre + length g + 1) [] =
      Inr (concat (map (\<lambda>(g, c). cell_out c) cs), length pre + length g + 1 + length (cells_src cs))"
    using raw_cells_all [OF f(4), of "pre @ g @ [0x5b]" "w @ 0x5d # post" "[]"] f(3) by (simp add: r row_src_def)
  have 4: "skipWs ?raw (length pre + length g + 1 + length (cells_src cs)) = length pre + length g + 1 + length (cells_src cs) + length w"
    using skipWs_ws [OF f(2), of "0x5d # post" "pre @ g @ [0x5b] @ cells_src cs"] by (simp add: r row_src_def is_ws_def add.assoc)
  have 5: "byte_eq ?raw (length pre + length g + 1 + length (cells_src cs) + length w) 0x5d"
    by (simp add: r row_src_def byte_eq_def nth_append)
  have 6: "finish_row ncols (concat (map (\<lambda>(g, c). cell_out c) cs)) = Inr (data_row (map (map_option utf8) (row_strings r)))"
    using f(3) assms(2) by (simp add: finish_row_def data_row_def row_strings_def r cell_out_def o_def case_prod_unfold)
  have 7: "length pre + length g + 1 + length (cells_src cs) + length w + 1 = length pre + length (row_src r)" by (simp add: r row_src_def)
  show ?thesis by (simp only: raw_rows.simps Let_def 1 2 3 4 5 6 7 if_True if_False rbind_simps prod.case)
qed

lemma raw_rows_all:
  assumes "list_all (row_fine ncols) rows" "ncols \<le> 32767" "list_all is_sep g" "length rows < fuel"
  shows "raw_rows rf fuel (pre @ concat (map row_src rows) @ g @ 0x5d # post) ncols (length pre) =
    rbind (rmap (\<lambda>r. rf (data_row (map (map_option utf8) (row_strings r)))) rows)
      (\<lambda>xs. Inr (xs, length pre + length (concat (map row_src rows)) + length g + 1))"
  using assms(1, 4)
proof (induction rows arbitrary: pre fuel)
  case Nil
  then obtain k where k: "fuel = Suc k" by (cases fuel) auto
  have "skip_commas (pre @ g @ 0x5d # post) (skipWs (pre @ g @ 0x5d # post) (length pre)) = length pre + length g"
    using skip_gap [OF assms(3), of "0x5d # post" pre] by (simp add: is_sep_def is_ws_def)
  then show ?case by (simp add: k raw_rows.simps Let_def byte_eq_def nth_append)
next
  case (Cons r rows)
  then obtain k where k: "fuel = Suc k" by (cases fuel) auto
  from Cons.prems have r: "row_fine ncols r" by simp
  have "raw_rows rf k (pre @ row_src r @ concat (map row_src rows) @ g @ 0x5d # post) ncols (length pre + length (row_src r)) =
    rbind (rmap (\<lambda>r. rf (data_row (map (map_option utf8) (row_strings r)))) rows)
      (\<lambda>xs. Inr (xs, length pre + length (row_src r) + length (concat (map row_src rows)) + length g + 1))"
    using Cons.IH [of k "pre @ row_src r"] Cons.prems k by simp
  with raw_row [OF r assms(2), of rf k pre "concat (map row_src rows) @ g @ 0x5d # post"] show ?case
    by (simp add: k rbind_def split: sum.splits)
qed

lemma row_parsed: "row_fine ncols r \<Longrightarrow> ncols \<le> 32767 \<Longrightarrow> parsed_row ncols (row_strings r) = Inr (data_row (map (map_option utf8) (row_strings r)))"
proof -
  assume r: "row_fine ncols r" "ncols \<le> 32767"
  then have "list_all short_text (row_strings r)" "length (row_strings r) = ncols"
    by (auto simp: row_fine_def row_strings_def list_all_iff cell_fine_def split: prod.splits)
  with parsed_row_fine r(2) show ?thesis by auto
qed

lemma rows_length: "length rows \<le> length (concat (map row_src rows))"
proof (induction rows)
  case (Cons r rows)
  have "1 \<le> length (row_src r)" by (cases r) (simp add: row_src_def)
  with Cons show ?case by simp
qed simp

text \<open>An answer that ends before the rows are closed: past the end nothing is a bracket, and a result without columns reads
  nothing that could throw.\<close>

lemma unclosed_rows_loop: "length raw \<le> i \<Longrightarrow> (\<And>b. \<exists>x. rf b = Inr x) \<Longrightarrow> raw_rows rf fuel raw 0 i = Inl NoReturn"
proof (induction fuel arbitrary: i)
  case (Suc fuel)
  have w: "skipWs raw j = j" "\<not> byte_eq raw j k" if "length raw \<le> j" for j k
    using that by - (subst skipWs.simps, simp, simp add: byte_eq_def)
  then have c: "skip_commas raw j = j" if "length raw \<le> j" for j using that by (subst skip_commas.simps) simp
  obtain x where x: "rf (be_bytes 2 0) = Inr x" using Suc.prems(2) by blast
  from Suc.IH [of "i + 1"] Suc.prems w [of i] w [of "i + 1"] c [of i] show ?case by (simp add: raw_rows.simps Let_def finish_row_def x)
qed (simp add: raw_rows.simps)

text \<open>C18: The scan of the bytes reads what \<open>JSON.parse\<close> reads. Whatever rows the answer holds, with whatever white space between
  them, each cell null, a string without escapes, or a string with escapes, the fast path builds for every
  row the same DataRow as the path over the parsed rows, and so the same rows or the same first error for
  every mapper; it stops behind the closing bracket of the rows.\<close>

theorem neon_scan_exact:
  assumes "list_all (row_fine ncols) rows" "ncols \<le> 32767" "list_all is_sep g" "raw = pre @ concat (map row_src rows) @ g @ 0x5d # post"
  shows "raw_rows rf (length raw + 1) raw ncols (length pre) =
    rbind (rmap (\<lambda>row. rbind (parsed_row ncols row) rf) (map row_strings rows)) (\<lambda>xs. Inr (xs, length raw - length post))"
proof -
  have l: "length rows < length raw + 1" using rows_length [of rows] assms(4) by simp
  have "rmap (\<lambda>row. rbind (parsed_row ncols row) rf) (map row_strings rs) = rmap (\<lambda>r. rf (data_row (map (map_option utf8) (row_strings r)))) rs"
    if "list_all (row_fine ncols) rs" for rs
    using that by (induction rs) (simp_all add: row_parsed assms(2))
  with raw_rows_all [OF assms(1-3) l, of rf pre post] assms(1, 4) show ?thesis by (simp add: add.assoc)
qed

definition demo_cell_row :: neon_row where
  "demo_cell_row = ([0x20], [([], NC_null), ([0x2c, 0x20], NC_plain [u16 97])], [])"

theorem neon_scan_exact_witness:
  "raw_rows Inr 15 ([0x5b] @ row_src demo_cell_row @ [0x5d]) 2 1 = Inr ([data_row [None, Some [97]]], 14)"
proof -
  have p: "cell_string (NC_plain [u16 97]) = Some [u16 97]" by (rule plain_string) (simp_all add: plain_unit_def is_hi_def is_lo_def)
  have u: "utf8 [u16 97] = [97]" by (simp add: utf8_ascii_Cons) (simp add: b8_def)
  have r: "list_all (row_fine 2) [demo_cell_row]"
    by (simp add: demo_cell_row_def row_fine_def is_sep_def is_ws_def cell_fine_def null_string p u short_text_def plain_unit_def is_hi_def is_lo_def)
  have "length (row_src demo_cell_row) = 12" by (simp add: demo_cell_row_def row_src_def cells_src_def quoted_def u)
  moreover have "row_strings demo_cell_row = [None, Some [u16 97]]" by (simp add: demo_cell_row_def row_strings_def null_string p)
  moreover have "parsed_row 2 [None, Some [u16 97]] = Inr (data_row [None, Some [97]])"
    using parsed_row_fine [of "[None, Some [u16 97]]"] by (simp add: short_text_def u numeral_2_eq_2)
  ultimately show ?thesis using neon_scan_exact [OF r, of "[]" "[0x5b] @ row_src demo_cell_row @ [0x5d]" "[0x5b]" "[]" Inr] by simp
qed

end
