(* ===== verification/Aurora.thy ===== *)
theory Aurora
  imports Neon Bulk Decode_Array
begin

section \<open>The Aurora Data API (src/aurora.ts)\<close>

text \<open>
  \<open>AuroraClient\<close> sends statements to a JSON service whose results are typed fields. Each field is turned back into its
  PostgreSQL text and each record into a DataRow, for the row mappers of the driver. Transactions are calls
  that carry an identifier. What the service answers is an argument, and so is how a parsed body is read as
  records; \<open>String\<close> of a JSON number is \<open>js_string\<close>. Encoding of parameters, signing, signals and the
  constructor are left out.
\<close>

subsection \<open>Type names\<close>

definition TYPENAME_OID :: "string \<Rightarrow> int option" where
  "TYPENAME_OID t = map_of
     [(''bool'', 16), (''bytea'', 17), (''char'', 18), (''name'', 19), (''int8'', 20), (''int2'', 21), (''int4'', 23), (''text'', 25),
      (''oid'', 26), (''json'', 114), (''xml'', 142), (''point'', 600), (''lseg'', 601), (''path'', 602), (''box'', 603), (''polygon'', 604),
      (''line'', 628), (''cidr'', 650), (''float4'', 700), (''float8'', 701), (''circle'', 718), (''macaddr8'', 774), (''money'', 790),
      (''macaddr'', 829), (''inet'', 869), (''bpchar'', 1042), (''varchar'', 1043), (''date'', 1082), (''time'', 1083), (''timestamp'', 1114),
      (''timestamptz'', 1184), (''interval'', 1186), (''timetz'', 1266), (''bit'', 1560), (''varbit'', 1562), (''numeric'', 1700),
      (''uuid'', 2950), (''jsonb'', 3802), (''int4range'', 3904), (''numrange'', 3906), (''tsrange'', 3908), (''tstzrange'', 3910),
      (''daterange'', 3912), (''int8range'', 3926), (''serial'', 23), (''bigserial'', 20), (''smallserial'', 21)] t"

definition oidForTypeName :: "string \<Rightarrow> int" where
  "oidForTypeName t = (case TYPENAME_OID t of
       Some n \<Rightarrow> n
     | None \<Rightarrow> if take 1 t = ''_'' then (case Option.bind (TYPENAME_OID (drop 1 t)) ARRAY_OID of Some a \<Rightarrow> a | None \<Rightarrow> 25) else 25)"

definition UTC_TYPENAMES :: "string list" where
  "UTC_TYPENAMES = [''timestamptz'', ''timetz'', ''_timestamptz'', ''_timetz'']"

subsection \<open>Texts of fields\<close>

text \<open>The end of \<open>HAS_OFFSET\<close>, from the last unit: two digits, then a sign or, at most twice, an optional colon and two
  more digits.\<close>

fun offset_rev :: "nat \<Rightarrow> jsstr \<Rightarrow> bool" where
  "offset_rev k (a # b # c # r) \<longleftrightarrow> is_digit a \<and> is_digit b \<and>
     (unat c = 43 \<or> unat c = 45 \<or>
      (case k of 0 \<Rightarrow> False | Suc j \<Rightarrow> if unat c = 58 then offset_rev j r else offset_rev j (c # r)))"
| "offset_rev k _ \<longleftrightarrow> False"

definition ends_bc :: "jsstr \<Rightarrow> bool" where
  "ends_bc s \<longleftrightarrow> 3 \<le> length s \<and> drop (length s - 3) s = asc '' BC''"

definition HAS_OFFSET :: "jsstr \<Rightarrow> bool" where
  "HAS_OFFSET s \<longleftrightarrow> offset_rev 2 (rev (if ends_bc s then take (length s - 3) s else s))"

definition withUtc :: "jsstr \<Rightarrow> jsstr" where
  "withUtc s =
     (if HAS_OFFSET s \<or> \<not> (case s of c # _ \<Rightarrow> is_digit c | [] \<Rightarrow> False) then s
      else if ends_bc s then take (length s - 3) s @ asc ''+00 BC''
      else s @ asc ''+00'')"

text \<open>\<open>NEEDS_QUOTE\<close> of a delimiter: empty, null in any case, or one of the units the array syntax uses.\<close>

definition needs_quote :: "nat \<Rightarrow> jsstr \<Rightarrow> bool" where
  "needs_quote delim s \<longleftrightarrow> s = [] \<or> map lower_unit s = asc ''null'' \<or>
     list_ex (\<lambda>c. unat c \<in> {34, delim, 92, 123, 125, 32, 9, 10, 13, 11, 12}) s"

definition quoteEl :: "nat \<Rightarrow> jsstr \<Rightarrow> jsstr" where
  "quoteEl delim s = (if needs_quote delim s then u16 34 # esc_quoted s @ [u16 34] else s)"

datatype array_value = AValue
  (av_arrays: "array_value list option") (av_strings: "jsstr list option") (av_longs: "jsval list option")
  (av_doubles: "jsval list option") (av_bools: "bool list option")

fun arrayToLiteral :: "bool \<Rightarrow> nat \<Rightarrow> array_value \<Rightarrow> jsstr" where
  "arrayToLiteral utc delim (AValue arrays strings longs doubles bools) =
     u16 123 # join_with [u16 delim]
       (case arrays of Some xs \<Rightarrow> map (arrayToLiteral utc delim) xs
        | None \<Rightarrow> (case strings of Some ss \<Rightarrow> map (\<lambda>s. quoteEl delim (if utc then withUtc s else s)) ss
        | None \<Rightarrow> (case longs of Some ns \<Rightarrow> map js_string ns
        | None \<Rightarrow> (case doubles of Some ns \<Rightarrow> map js_string ns
        | None \<Rightarrow> (case bools of Some bs \<Rightarrow> map bool_text bs
        | None \<Rightarrow> []))))) @ [u16 125]"

text \<open>Node's base64 decoder: units outside both alphabets are skipped, \<open>=\<close> ends the text.\<close>

definition b64_digit :: "unit16 \<Rightarrow> nat option" where
  "b64_digit u = (let n = unat u in
     if 65 \<le> n \<and> n \<le> 90 then Some (n - 65) else if 97 \<le> n \<and> n \<le> 122 then Some (n - 71)
     else if 48 \<le> n \<and> n \<le> 57 then Some (n + 4) else if n = 43 \<or> n = 45 then Some 62 else if n = 47 \<or> n = 95 then Some 63 else None)"

fun b64_bytes :: "nat list \<Rightarrow> bytes" where
  "b64_bytes (a # b # c # d # r) = [b8 (a * 4 + b div 16), b8 (b mod 16 * 16 + c div 4), b8 (c mod 4 * 64 + d)] @ b64_bytes r"
| "b64_bytes [a, b, c] = [b8 (a * 4 + b div 16), b8 (b mod 16 * 16 + c div 4)]"
| "b64_bytes [a, b] = [b8 (a * 4 + b div 16)]"
| "b64_bytes _ = []"

definition from_base64 :: "jsstr \<Rightarrow> bytes" where
  "from_base64 s = b64_bytes (List.map_filter b64_digit (takeWhile (\<lambda>u. u \<noteq> u16 61) s))"

record aurora_field =
  af_isNull :: bool
  af_string :: "jsstr option"
  af_long :: "jsval option"
  af_double :: "jsval option"
  af_bool :: "bool option"
  af_blob :: "jsstr option"
  af_array :: "array_value option"

definition fieldToText :: "bool \<Rightarrow> nat \<Rightarrow> aurora_field \<Rightarrow> bytes option" where
  "fieldToText utc delim f =
     (if af_isNull f then None
      else case af_string f of Some s \<Rightarrow> Some (utf8 (if utc then withUtc s else s))
      | None \<Rightarrow> (case af_long f of Some n \<Rightarrow> Some (utf8 (js_string n))
      | None \<Rightarrow> (case af_double f of Some n \<Rightarrow> Some (utf8 (js_string n))
      | None \<Rightarrow> (case af_bool f of Some b \<Rightarrow> Some (utf8 (bool_text b))
      | None \<Rightarrow> (case af_blob f of Some b \<Rightarrow> Some (utf8 (hex_literal (from_base64 b)))
      | None \<Rightarrow> (case af_array f of Some a \<Rightarrow> Some (utf8 (arrayToLiteral utc delim a))
      | None \<Rightarrow> None))))))"

subsection \<open>Results\<close>

record column_meta =
  mt_name :: "jsstr option"
  mt_label :: "jsstr option"
  mt_typeName :: string

record aurora_answer =
  an_meta :: "column_meta list option"
  an_records :: "aurora_field list list option"
  an_updated :: "int option"

definition meta_field :: "column_meta \<Rightarrow> field" where
  "meta_field m = \<lparr>f_name = (case mt_label m of Some l \<Rightarrow> l | None \<Rightarrow> (case mt_name m of Some n \<Rightarrow> n | None \<Rightarrow> asc ''?'')), f_tableOid = 0,
     f_columnId = 0, f_dataTypeOid = oidForTypeName (mt_typeName m), f_dataTypeSize = 0, f_typeModifier = 0, f_format = 0\<rparr>"

text \<open>\<open>planCols\<close> with \<open>resolveCols\<close>: as for Neon, on the names and types the metadata reports.\<close>

definition aurora_planCols :: "'j neon_cfg \<Rightarrow> column_meta list \<Rightarrow> shape_plan \<Rightarrow> js_error + codegen_col list" where
  "aurora_planCols cfg meta shape = neon_planCols cfg (map meta_field meta) shape"

definition firstKeyword :: "jsstr \<Rightarrow> jsstr option" where
  "firstKeyword sql =
     (let w = takeWhile (\<lambda>u. 97 \<le> unat (lower_unit u) \<and> unat (lower_unit u) \<le> 122) (dropWhile (\<lambda>u. is_space u \<or> u = u16 40) sql)
      in if w = [] then None else Some (map (\<lambda>u. if 97 \<le> unat u then u - 32 else u) w))"

text \<open>A record has a cell per column of the metadata.\<close>

definition record_row :: "column_meta list \<Rightarrow> nat \<Rightarrow> aurora_field list \<Rightarrow> js_error + bytes" where
  "record_row meta ncols rec =
     finish_row ncols (concat (map (\<lambda>(f, m). cell_bytes (fieldToText (mt_typeName m \<in> set UTC_TYPENAMES) (if mt_typeName m = ''_box'' then 59 else 44) f))
       (zip rec meta)))"

definition decodeResult :: "'j neon_cfg \<Rightarrow> aurora_answer \<Rightarrow> jsstr \<Rightarrow> result_mode \<Rightarrow> shape_plan \<Rightarrow> js_error + 'j query_result" where
  "decodeResult cfg r sql mode shape =
     (case (an_meta r, an_records r) of
        (Some meta, Some records) \<Rightarrow>
          rbind (aurora_planCols cfg meta shape) (\<lambda>cols.
          if shape \<noteq> None \<and> length cols \<noteq> length meta then Inl (Thrown ''shape'')
          else rbind (neon_mapper cfg cols mode) (\<lambda>mapper.
          rbind (rmap (\<lambda>rec. rbind (record_row meta (length cols) rec) (rowFrom mode mapper)) records) (\<lambda>rows.
            Inr \<lparr>qr_rows = rows, qr_columns = map cc_name cols, qr_rowCount = Some (int (length records)), qr_command = firstKeyword sql\<rparr>)))
      | _ \<Rightarrow> Inr \<lparr>qr_rows = [], qr_columns = [], qr_rowCount = an_updated r, qr_command = firstKeyword sql\<rparr>)"

subsection \<open>Calls\<close>

datatype aurora_err = A_tx jsstr | A_fetch nat | A_pg jsstr | A_aws jsstr | A_js js_error

record aurora_response =
  ar_ok :: bool
  ar_status :: int
  ar_errType :: jsstr                     \<comment> \<open>the header, up to its first colon\<close>
  ar_message :: jsstr                     \<comment> \<open>of the JSON body, or the status\<close>
  ar_body :: bytes

datatype aurora_reply = Ar_rejected nat | Ar_response aurora_response

definition retriable :: "aurora_response \<Rightarrow> bool" where
  "retriable res \<longleftrightarrow> text_includes (ar_errType res) (asc ''DatabaseResuming'') \<or> text_includes (ar_errType res) (asc ''Throttling'') \<or> ar_status res = 429"

text \<open>The sleep before the next attempt, in milliseconds before it is scaled by the jitter.\<close>

definition nap :: "nat \<Rightarrow> nat" where "nap attempt = min 5000 (200 * 2 ^ attempt)"

definition contains_word :: "string \<Rightarrow> jsstr \<Rightarrow> bool" where
  "contains_word w s = list_ex (\<lambda>i. after_word w (drop i s) \<noteq> None) [0..<Suc (length s)]"

text \<open>\<open>/\bERROR:|Database error code|SQLSTATE/i\<close>\<close>

definition looksPg :: "jsstr \<Rightarrow> bool" where
  "looksPg s \<longleftrightarrow> list_ex (\<lambda>i. after_word ''error:'' (drop i s) \<noteq> None \<and> (i = 0 \<or> \<not> is_word_unit (s ! (i - 1)))) [0..<Suc (length s)] \<or>
     contains_word ''database error code'' s \<or> contains_word ''sqlstate'' s"

definition exact_word :: "string \<Rightarrow> jsstr \<Rightarrow> jsstr option" where
  "exact_word w s = (if take (length w) s = asc w then Some (drop (length w) s) else None)"

text \<open>What the message is without the service's preamble and without \<open>ERROR:\<close>.\<close>

definition after_preamble :: "jsstr \<Rightarrow> jsstr option" where
  "after_preamble s = Option.bind (after_word ''database error code:'' s) (\<lambda>r.
     let r1 = dropWhile is_space r; r2 = (case exact_word ''-'' r1 of Some q \<Rightarrow> q | None \<Rightarrow> r1); r3 = dropWhile is_digit r2 in
     if r3 = r2 then None
     else Option.bind (exact_word ''.'' r3) (\<lambda>r4. map_option (dropWhile is_space) (after_word ''message:'' (dropWhile is_space r4))))"

definition clean_message :: "jsstr \<Rightarrow> jsstr" where
  "clean_message s = (let s1 = (case after_preamble s of Some r \<Rightarrow> r | None \<Rightarrow> s) in
     case exact_word ''ERROR:'' s1 of Some r \<Rightarrow> dropWhile is_space r | None \<Rightarrow> s1)"

definition aurora_failed :: "aurora_response \<Rightarrow> aurora_err" where
  "aurora_failed res =
     (if looksPg (ar_message res) \<or> list_ex (\<lambda>w. text_includes (ar_errType res) (asc w)) [''Database'', ''BadRequest'', ''Statement'']
      then A_pg (clean_message (ar_message res)) else A_aws (ar_errType res))"

text \<open>The answers come in the order of the attempts: naps and the outcome, nothing when the answers end first.\<close>

fun aurora_call :: "nat \<Rightarrow> nat \<Rightarrow> aurora_reply list \<Rightarrow> nat list \<times> (aurora_err + bytes) option" where
  "aurora_call maxRetries attempt [] = ([], None)"
| "aurora_call maxRetries attempt (a # as) = (case a of
       Ar_rejected e \<Rightarrow> ([], Some (Inl (A_fetch e)))
     | Ar_response res \<Rightarrow>
         if ar_ok res then ([], Some (Inr (ar_body res)))
         else if attempt < maxRetries \<and> retriable res
         then (let (ns, r) = aurora_call maxRetries (attempt + 1) as in (nap attempt # ns, r))
         else ([], Some (Inl (aurora_failed res))))"


text \<open>\<open>LONG_BIG\<close>: a long value, or an entry of a list of them, with a run of 16 digits.\<close>

definition digits16 :: "jsstr \<Rightarrow> bool" where
  "digits16 s \<longleftrightarrow> 16 \<le> length s \<and> list_all is_digit (take 16 s)"

definition long_big_at :: "jsstr \<Rightarrow> bool" where
  "long_big_at s = (case exact_word ''\"longValue'' s of
       None \<Rightarrow> False
     | Some r \<Rightarrow> (case exact_word ''\"'' (case exact_word ''s'' r of Some q \<Rightarrow> q | None \<Rightarrow> r) of
         None \<Rightarrow> False
       | Some r1 \<Rightarrow> (case exact_word '':'' (dropWhile is_space r1) of
           None \<Rightarrow> False
         | Some r2 \<Rightarrow>
             let r3 = dropWhile is_space r2 in
             digits16 (case exact_word ''-'' r3 of Some q \<Rightarrow> q | None \<Rightarrow> r3) \<or>
             (case exact_word ''['' r3 of
                None \<Rightarrow> False
              | Some r4 \<Rightarrow>
                  let items = takeWhile (\<lambda>u. is_digit u \<or> is_space u \<or> unat u = 44 \<or> unat u = 45) r4 in
                  list_ex (\<lambda>k. digits16 (drop k items)) [0..<length items]))))"

definition LONG_BIG :: "jsstr \<Rightarrow> bool" where
  "LONG_BIG s = list_ex (\<lambda>i. long_big_at (drop i s)) [0..<length s]"

definition parseBody :: "bytes \<Rightarrow> dres" where
  "parseBody b = (let s = from_utf8 b in if LONG_BIG s then parseJsonBuffer b 0 (length b) JB_string else json_parse s)"

definition aurora_js :: "js_error + 'a \<Rightarrow> aurora_err + 'a" where
  "aurora_js r = (case r of Inl e \<Rightarrow> Inl (A_js e) | Inr x \<Rightarrow> Inr x)"

definition aurora_query :: "'j neon_cfg \<Rightarrow> (dval \<Rightarrow> js_error + aurora_answer) \<Rightarrow> (aurora_err + bytes) \<Rightarrow> http_query \<Rightarrow> aurora_err + 'j query_result" where
  "aurora_query cfg as_answer answer q =
     (case TX_SQL (hq_sql q) of
        Some tx \<Rightarrow> Inl (A_tx tx)
      | None \<Rightarrow> rbind answer (\<lambda>body. aurora_js (rbind (rbind (parseBody body) as_answer) (\<lambda>r.
          decodeResult cfg r (hq_sql q) (neon_mode q) (hq_shape q)))))"

subsection \<open>Transactions\<close>

text \<open>The calls that reach the service, a statement with the transaction it runs in, and what it keeps. \<open>tid\<close> reads the
  identifier from the answer to BeginTransaction; the savepoint counter belongs to the client of the
  transaction.\<close>

datatype aurora_op = AC_begin | AC_commit nat | AC_rollback nat | AC_exec jsstr "nat option"

record 's au_state =
  as_srv :: 's
  as_log :: "aurora_op list"
  as_sp :: nat

type_synonym ('s, 'r) au_service = "aurora_op \<Rightarrow> 's \<Rightarrow> (aurora_err + 'r) \<times> 's"
type_synonym ('s, 'a) au_act = "'s au_state \<Rightarrow> (aurora_err + 'a) \<times> 's au_state"

definition au_call :: "('s, 'r) au_service \<Rightarrow> aurora_op \<Rightarrow> ('s, 'r) au_act" where
  "au_call srv op st = (case srv op (as_srv st) of (r, s) \<Rightarrow> (r, st\<lparr>as_srv := s, as_log := as_log st @ [op]\<rparr>))"

definition au_exec :: "('s, 'r) au_service \<Rightarrow> nat option \<Rightarrow> jsstr \<Rightarrow> ('s, 'r) au_act" where
  "au_exec srv tx sql st = (case TX_SQL sql of Some w \<Rightarrow> (Inl (A_tx w), st) | None \<Rightarrow> au_call srv (AC_exec sql tx) st)"

definition beginOptions :: "tx_options \<Rightarrow> jsstr" where
  "beginOptions opts = (case opts of
       Tx_text t \<Rightarrow> trim_spaces (filter letter_or_space t)
     | Tx_obj lvl ro df \<Rightarrow> join_with (asc '' '')
         ((if lvl = [] then [] else [asc ''isolation level '' @ lvl]) @
          (case ro of None \<Rightarrow> [] | Some b \<Rightarrow> [if b then asc ''read only'' else asc ''read write'']) @
          (case df of None \<Rightarrow> [] | Some b \<Rightarrow> [if b then asc ''deferrable'' else asc ''not deferrable''])))"

definition au_savepoint :: "('s, 'r) au_service \<Rightarrow> nat \<Rightarrow> ('s, 'a) au_act \<Rightarrow> ('s, 'a) au_act" where
  "au_savepoint srv xid fn st0 =
     (let st = st0\<lparr>as_sp := Suc (as_sp st0)\<rparr>; sp = asc ''minipg_sp_'' @ dec_nat (as_sp st);
          undo = (\<lambda>st1. case au_exec srv (Some xid) (asc ''rollback to savepoint '' @ sp) st1 of
             (Inl _, st2) \<Rightarrow> st2
           | (Inr _, st2) \<Rightarrow> snd (au_exec srv (Some xid) (asc ''release savepoint '' @ sp) st2)) in
      case au_exec srv (Some xid) (asc ''savepoint '' @ sp) st of
        (Inl e, st1) \<Rightarrow> (Inl e, st1)
      | (Inr _, st1) \<Rightarrow> (case fn st1 of
            (Inl e, st2) \<Rightarrow> (Inl e, undo st2)
          | (Inr x, st2) \<Rightarrow> (case au_exec srv (Some xid) (asc ''release savepoint '' @ sp) st2 of
                (Inl e, st3) \<Rightarrow> (Inl e, undo st3)
              | (Inr _, st3) \<Rightarrow> (Inr x, st3))))"

definition aurora_runTx :: "('s, 'r) au_service \<Rightarrow> ('r \<Rightarrow> nat) \<Rightarrow> nat option \<Rightarrow> tx_options option \<Rightarrow> (nat \<Rightarrow> ('s, 'a) au_act) \<Rightarrow> ('s, 'a) au_act" where
  "aurora_runTx srv tid tx opts fn st = (case tx of
       Some xid \<Rightarrow> au_savepoint srv xid (fn xid) st
     | None \<Rightarrow> (case au_call srv AC_begin st of
           (Inl e, st1) \<Rightarrow> (Inl e, st1)
         | (Inr r, st1) \<Rightarrow>
             let xid = tid r; st2 = st1\<lparr>as_sp := 0\<rparr> in
             (case (case opts of None \<Rightarrow> (Inr (), st2)
                 | Some o' \<Rightarrow> (case au_exec srv (Some xid) (asc ''set transaction '' @ beginOptions o') st2 of (r1, st3) \<Rightarrow> (rbind r1 (\<lambda>_. Inr ()), st3))) of
                (Inl e, st3) \<Rightarrow> (Inl e, st3)
              | (Inr _, st3) \<Rightarrow> (case fn xid st3 of
                    (Inl e, st4) \<Rightarrow> (Inl e, snd (au_call srv (AC_rollback xid) st4))
                  | (Inr x, st4) \<Rightarrow> (case au_call srv (AC_commit xid) st4 of
                        (Inl e, st5) \<Rightarrow> (Inl e, snd (au_call srv (AC_rollback xid) st5))
                      | (Inr _, st5) \<Rightarrow> (Inr x, st5))))))"

subsection \<open>Attempts are bounded\<close>

text \<open>A call makes at most one attempt more than \<open>maxRetries\<close>, sleeps once between two attempts, for at most five seconds,
  and has an outcome as soon as that many answers have come.\<close>

lemma aurora_call_bounded:
  "length (fst (aurora_call k attempt as)) \<le> k - attempt \<and> list_all (\<lambda>n. n \<le> 5000) (fst (aurora_call k attempt as)) \<and>
   (k - attempt < length as \<longrightarrow> snd (aurora_call k attempt as) \<noteq> None)"
proof (induction as arbitrary: attempt)
  case (Cons a as)
  show ?case
  proof (cases "\<exists>res. a = Ar_response res \<and> \<not> ar_ok res \<and> attempt < k \<and> retriable res")
    case True
    with Cons.IH [of "attempt + 1"] show ?thesis by (auto simp: nap_def split: prod.splits)
  qed (auto split: aurora_reply.split)
qed simp

subsection \<open>Arrays\<close>

text \<open>What the literal stands for: every element handed to the decoder as the text the service gave, in the nesting of
  the value.\<close>

fun array_vals :: "'a leaf \<Rightarrow> bool \<Rightarrow> array_value \<Rightarrow> (js_error + 'a arrval) list" where
  "array_vals leaf utc (AValue arrays strings longs doubles bools) =
     (case arrays of Some xs \<Rightarrow> map (\<lambda>x. rbind (rmap id (array_vals leaf utc x)) (\<lambda>vs. Inr (AV_arr vs))) xs
      | None \<Rightarrow> (case strings of Some ss \<Rightarrow> map (\<lambda>s. leaf_value leaf (if utc then withUtc s else s)) ss
      | None \<Rightarrow> (case longs of Some ns \<Rightarrow> map (\<lambda>n. leaf_value leaf (js_string n)) ns
      | None \<Rightarrow> (case doubles of Some ns \<Rightarrow> map (\<lambda>n. leaf_value leaf (js_string n)) ns
      | None \<Rightarrow> (case bools of Some bs \<Rightarrow> map (\<lambda>b. leaf_value leaf (bool_text b)) bs
      | None \<Rightarrow> [])))))"

text \<open>Numbers are numbers: not empty, of the units numbers are written with.\<close>

definition numeric_text :: "jsval \<Rightarrow> bool" where
  "numeric_text v \<longleftrightarrow> js_string v \<noteq> [] \<and> list_all num_unit (js_string v)"

fun numeric_array :: "array_value \<Rightarrow> bool" where
  "numeric_array (AValue arrays strings longs doubles bools) \<longleftrightarrow>
     (case arrays of Some xs \<Rightarrow> list_all numeric_array xs | None \<Rightarrow> True) \<and>
     (case longs of Some ns \<Rightarrow> list_all numeric_text ns | None \<Rightarrow> True) \<and> (case doubles of Some ns \<Rightarrow> list_all numeric_text ns | None \<Rightarrow> True)"

definition parses_to :: "'a leaf \<Rightarrow> nat \<Rightarrow> jsstr \<Rightarrow> js_error + 'a arrval \<Rightarrow> bool" where
  "parses_to leaf delim t v \<longleftrightarrow> (\<exists>k. \<forall>n\<ge>k. \<forall>x u. unat x = delim \<or> unat x = 125 \<longrightarrow>
     arr_items (Suc n) leaf delim (t @ x # u) = push_elem v (arr_items n leaf delim (x # u)))"

lemma parses_quoted: "delim \<noteq> 34 \<Longrightarrow> parses_to leaf delim (u16 34 # esc_quoted s @ [u16 34]) (leaf_value leaf s)"
  unfolding parses_to_def using quoted_elem_esc by (auto simp: arr_items_Cons scalar_item_def)

lemma raw_elem_stops:
  "\<forall>c\<in>set s. unat c \<noteq> delim \<and> unat c \<noteq> 125 \<Longrightarrow> unat x = delim \<or> unat x = 125 \<Longrightarrow> raw_elem delim (s @ x # u) = (s, x # u)"
  by (induction s) auto

lemma parses_raw:
  assumes "s \<noteq> []" "\<forall>c\<in>set s. unat c \<notin> {34, delim, 123, 125}" "s \<noteq> asc ''NULL''"
  shows "parses_to leaf delim s (leaf_value leaf s)"
  unfolding parses_to_def
proof (intro exI [of _ 0] allI impI)
  fix n :: nat and x :: unit16 and u assume x: "unat x = delim \<or> unat x = 125"
  obtain c cs where s: "s = c # cs" using assms(1) by (cases s) auto
  have "raw_elem delim (s @ x # u) = (s, x # u)" using assms(2) x by (intro raw_elem_stops) auto
  then show "arr_items (Suc n) leaf delim (s @ x # u) = push_elem (leaf_value leaf s) (arr_items n leaf delim (x # u))"
    using assms(2, 3) by (simp add: s arr_items_Cons scalar_item_def raw_value_def)
qed

lemma parses_quoteEl: "delim \<noteq> 34 \<Longrightarrow> parses_to leaf delim (quoteEl delim s) (leaf_value leaf s)"
proof (cases "needs_quote delim s")
  case False
  then have "s \<noteq> []" "\<forall>c\<in>set s. unat c \<notin> {34, delim, 123, 125}" by (auto simp: needs_quote_def list_ex_iff)
  moreover have "s \<noteq> asc ''NULL''" using False by (auto simp: needs_quote_def asc_def lower_unit_def u16_def)
  ultimately show ?thesis using False by (simp add: quoteEl_def parses_raw)
qed (simp add: quoteEl_def parses_quoted)

lemma parses_numeric: "numeric_text v \<Longrightarrow> delim \<in> {44, 59} \<Longrightarrow> parses_to leaf delim (js_string v) (leaf_value leaf (js_string v))"
  by (intro parses_raw) (auto simp: numeric_text_def list_all_iff num_unit_def asc_def)

lemma parses_bool: "delim \<in> {44, 59} \<Longrightarrow> parses_to leaf delim (bool_text b) (leaf_value leaf (bool_text b))"
  by (intro parses_raw) (auto simp: bool_text_def asc_def)


definition array_texts :: "bool \<Rightarrow> nat \<Rightarrow> array_value \<Rightarrow> jsstr list" where
  "array_texts utc delim a =
     (case av_arrays a of Some xs \<Rightarrow> map (arrayToLiteral utc delim) xs
      | None \<Rightarrow> (case av_strings a of Some ss \<Rightarrow> map (\<lambda>s. quoteEl delim (if utc then withUtc s else s)) ss
      | None \<Rightarrow> (case av_longs a of Some ns \<Rightarrow> map js_string ns
      | None \<Rightarrow> (case av_doubles a of Some ns \<Rightarrow> map js_string ns
      | None \<Rightarrow> (case av_bools a of Some bs \<Rightarrow> map bool_text bs
      | None \<Rightarrow> [])))))"

lemma literal_texts: "arrayToLiteral utc delim a = u16 123 # join_with [u16 delim] (array_texts utc delim a) @ [u16 125]"
  by (cases a) (simp add: array_texts_def split: option.split)

lemma items_parse:
  assumes "list_all2 (parses_to leaf delim) ts vs" "delim \<in> {44, 59}"
  shows "\<exists>k. \<forall>n\<ge>k. \<forall>u. arr_items n leaf delim (join_with [u16 delim] ts @ u16 125 # u) = Some (rbind (rmap id vs) (\<lambda>xs. Inr (xs, u)))"
  using assms(1)
proof (induction ts vs rule: list_all2_induct)
  case Nil
  have "arr_items n leaf delim (u16 125 # u) = Some (Inr ([], u))" if "1 \<le> n" for n u using that by (cases n) (simp_all add: arr_items_Cons)
  then show ?case by (intro exI [of _ 1]) simp
next
  case (Cons t ts v vs)
  from Cons.IH obtain k1 where k1: "\<And>n u. k1 \<le> n \<Longrightarrow>
      arr_items n leaf delim (join_with [u16 delim] ts @ u16 125 # u) = Some (rbind (rmap id vs) (\<lambda>xs. Inr (xs, u)))" by blast
  from Cons.hyps(1) obtain k2 where k2: "\<And>n x u. k2 \<le> n \<Longrightarrow> unat (x :: unit16) = delim \<or> unat x = 125 \<Longrightarrow>
      arr_items (Suc n) leaf delim (t @ x # u) = push_elem v (arr_items n leaf delim (x # u))" unfolding parses_to_def by blast
  have d: "unat (u16 delim) = delim" using assms(2) by auto
  have "arr_items n leaf delim (join_with [u16 delim] (t # ts) @ u16 125 # u) = Some (rbind (rmap id (v # vs)) (\<lambda>xs. Inr (xs, u)))"
    if n: "Suc (Suc (k1 + k2)) \<le> n" for n u
  proof -
    obtain m where m: "n = Suc (Suc m)" "k1 \<le> m" "k2 \<le> Suc m" using n by (cases n; cases "n - 1") auto
    show ?thesis
    proof (cases ts)
      case Nil
      with Cons.hyps(2) have "vs = []" by simp
      moreover have "arr_items (Suc m) leaf delim (u16 125 # u) = Some (Inr ([], u))" by (simp add: arr_items_Cons)
      ultimately show ?thesis using Nil m k2 [of "Suc m" "u16 125" u] by (simp add: push_elem_Some rbind_def split: sum.splits)
    next
      case (Cons s ss)
      have "arr_items (Suc m) leaf delim (u16 delim # join_with [u16 delim] ts @ u16 125 # u) = arr_items m leaf delim (join_with [u16 delim] ts @ u16 125 # u)"
        using assms(2) d by (auto simp: arr_items_Cons)
      with Cons m k1 [of m u] k2 [of "Suc m" "u16 delim" "join_with [u16 delim] ts @ u16 125 # u"] d show ?thesis
        by (simp add: push_elem_Some rbind_def split: sum.splits)
    qed
  qed
  then show ?case by blast
qed

lemma parses_nested:
  assumes "list_all2 (parses_to leaf delim) ts vs" "delim \<in> {44, 59}"
  shows "parses_to leaf delim (u16 123 # join_with [u16 delim] ts @ [u16 125]) (rbind (rmap id vs) (\<lambda>vs. Inr (AV_arr vs)))"
proof -
  from items_parse [OF assms] obtain k where k: "\<And>n u. k \<le> n \<Longrightarrow>
      arr_items n leaf delim (join_with [u16 delim] ts @ u16 125 # u) = Some (rbind (rmap id vs) (\<lambda>xs. Inr (xs, u)))" by blast
  have "delim \<noteq> 123" using assms(2) by auto
  with k show ?thesis unfolding parses_to_def
    by (intro exI [of _ k]) (auto simp: rbind_def push_elem_def arr_items_Cons split: sum.splits)
qed

lemma texts_parse: "numeric_array a \<Longrightarrow> delim \<in> {44, 59} \<Longrightarrow> list_all2 (parses_to leaf delim) (array_texts utc delim a) (array_vals leaf utc a)"
proof (induction utc delim a rule: arrayToLiteral.induct)
  case (1 utc delim arrays strings longs doubles bools)
  have d: "delim \<noteq> 34" using "1.prems"(2) by auto
  show ?case
  proof (cases arrays)
    case (Some xs)
    have "parses_to leaf delim (arrayToLiteral utc delim x) (rbind (rmap id (array_vals leaf utc x)) (\<lambda>vs. Inr (AV_arr vs)))" if "x \<in> set xs" for x
      unfolding literal_texts using that "1.prems" Some by (intro parses_nested "1.IH") (auto simp: list_all_iff)
    with Some show ?thesis by (simp add: array_texts_def list_all2_map1 list_all2_map2 list.rel_map list_all2_same)
  next
    case None
    with "1.prems" show ?thesis
      by (auto simp: array_texts_def list.rel_map list_all2_same parses_quoteEl [OF d] parses_numeric parses_bool list_all_iff split: option.splits)
  qed
qed

text \<open>C20: Arrays survive the way through text. For every array value of the service, of any nesting, and both array
  delimiters, parsing the literal built from it gives its elements in the same nesting, each decoded from
  exactly the text the service gave (for times, that text with the UTC offset put back), or the first
  error of the element decoder.\<close>

theorem aurora_array_readback:
  assumes "numeric_array a" "delim \<in> {44, 59}"
  shows "parseArrayLiteral leaf delim (arrayToLiteral utc delim a) = Some (rmap id (array_vals leaf utc a))"
proof -
  let ?b = "join_with [u16 delim] (array_texts utc delim a)"
  from items_parse [OF texts_parse [OF assms, of leaf utc] assms(2)] obtain k where k: "\<And>n u. k \<le> n \<Longrightarrow>
      arr_items n leaf delim (?b @ u16 125 # u) = Some (rbind (rmap id (array_vals leaf utc a)) (\<lambda>xs. Inr (xs, u)))" by blast
  have sk: "drop 1 (skip_dims (arrayToLiteral utc delim a)) = ?b @ [u16 125]" by (simp add: skip_dims_def literal_texts)
  let ?n = "Suc (length (arrayToLiteral utc delim a))"
  obtain q where q: "arr_items ?n leaf delim (?b @ [u16 125]) = Some q"
    using arr_items_fuel [of "?b @ [u16 125]" ?n leaf delim] by (auto simp: literal_texts)
  from arr_items_more [OF q, of k] k [of "?n + k" "[]"] have "q = rbind (rmap id (array_vals leaf utc a)) (\<lambda>xs. Inr (xs, []))" by simp
  then show ?thesis unfolding parseArrayLiteral_def sk q by (cases "rmap id (array_vals leaf utc a)") simp_all
qed

theorem aurora_array_readback_witness:
  "parseArrayLiteral (\<lambda>s. Inr s) 44 (arrayToLiteral False 44 (AValue None (Some [asc ''null'', asc ''a b'']) None None None)) =
    Some (Inr [AV_leaf (asc ''null''), AV_leaf (asc ''a b'')])"
  using aurora_array_readback [of "AValue None (Some [asc ''null'', asc ''a b'']) None None None" 44 "\<lambda>s. Inr s" False] by (simp add: leaf_value_def)


subsection \<open>How a transaction ends\<close>







text \<open>A service that opens transaction 7 and refuses to set its options.\<close>

definition demo_service :: "(unit, nat) au_service" where
  "demo_service op s = (case op of AC_exec sql tx \<Rightarrow> (Inl (A_pg []), s) | _ \<Rightarrow> (Inr 7, s))"

definition demo_au :: "unit au_state" where "demo_au = \<lparr>as_srv = (), as_log = [], as_sp = 0\<rparr>"

lemma tx_left_open:
  "\<exists>st'. aurora_runTx demo_service (\<lambda>n. n) None (Some (Tx_obj [] (Some True) None)) (\<lambda>xid st. (Inr (), st)) demo_au = (Inl (A_pg []), st') \<and>
    as_log st' = [AC_begin, AC_exec (asc ''set transaction read only'') (Some 7)]"
proof -
  have "TX_SQL (asc ''set transaction read only'') = None"
    by (simp add: TX_SQL_def is_space_def after_word_def two_words_def rollback_alone_def bounded_def lower_unit_def asc_def u16_def)
  then show ?thesis by (simp add: aurora_runTx_def au_call_def au_exec_def demo_service_def demo_au_def beginOptions_def asc_def)
qed


end
