(* ===== verification/Repl_Binary.thy ===== *)
theory Repl_Binary
  imports Decode_Cells Wire_Parser
begin

section \<open>Binary tuples of logical replication (src/decode.ts)\<close>

text \<open>
  With \<open>binary: true\<close> the publisher sends columns in the format of their types' send functions. \<open>replBinaryFor\<close> and, for
  declared shapes, \<open>replBinaryForCol\<close> choose the decoder or none; numerics and arrays have decoders of their
  own here, the rest are those of query rows. Cells are read where they lie in the message. \<open>numeric_exact\<close> shows that
  a numeric's text is the number sent, \<open>binary_array_readback\<close> that arrays keep their nesting and their nulls.
\<close>

subsection \<open>Numerics\<close>

definition numeric_group :: "bytes \<Rightarrow> int \<Rightarrow> int \<Rightarrow> int \<Rightarrow> js_error + int" where
  "numeric_group b p nd i = (if 0 \<le> i \<and> i < nd then read_uint 2 b (p + 8 + i * 2) else Inr 0)"

text \<open>\<open>String(d).padStart(4, '0')\<close>\<close>

definition pad4 :: "int \<Rightarrow> jsstr" where "pad4 d = pad_dec 4 (nat d)"

text \<open>The fraction grows by at least four units a turn, so that as many turns as digits are enough.\<close>

fun frac_loop :: "bytes \<Rightarrow> int \<Rightarrow> int \<Rightarrow> int \<Rightarrow> nat \<Rightarrow> nat \<Rightarrow> nat \<Rightarrow> jsstr \<Rightarrow> js_error + jsstr" where
  "frac_loop b p nd weight dscale 0 g acc = Inr acc"
| "frac_loop b p nd weight dscale (Suc n) g acc =
     (if length acc < dscale
      then rbind (numeric_group b p nd (weight + 1 + int g)) (\<lambda>d. frac_loop b p nd weight dscale n (Suc g) (acc @ pad4 d))
      else Inr acc)"

definition int_part :: "bytes \<Rightarrow> int \<Rightarrow> int \<Rightarrow> int \<Rightarrow> js_error + jsstr" where
  "int_part b p nd weight =
     (if weight < 0 \<or> nd = 0 then Inr (asc ''0'')
      else rbind (rmap (\<lambda>i. rbind (numeric_group b p nd i) (\<lambda>d. Inr (if i = 0 then dec_int d else pad4 d))) [0..weight]) (\<lambda>ts. Inr (concat ts)))"

definition numeric_text_of :: "bytes \<Rightarrow> int \<Rightarrow> js_error + jsstr" where
  "numeric_text_of b p =
     rbind (read_uint 2 b p) (\<lambda>nd. rbind (read_int 2 b (p + 2)) (\<lambda>weight.
     rbind (read_uint 2 b (p + 4)) (\<lambda>sign. rbind (read_uint 2 b (p + 6)) (\<lambda>dscale.
       if sign = 0xc000 then Inr (asc ''NaN'') else if sign = 0xd000 then Inr (asc ''Infinity'') else if sign = 0xf000 then Inr (asc ''-Infinity'')
       else rbind (int_part b p nd weight) (\<lambda>it.
         let s = (if sign = 0x4000 then asc ''-'' else []) @ it in
         if 0 < dscale
         then rbind (frac_loop b p nd weight (nat dscale) (nat dscale) 0 []) (\<lambda>fr. Inr (s @ asc ''.'' @ take (nat dscale) fr))
         else Inr s)))))"

definition binNumericStr :: cell_fn where
  "binNumericStr b p l = rbind (numeric_text_of b p) (\<lambda>s. Inr (DStr s))"

subsection \<open>Arrays\<close>

fun array_dims :: "bytes \<Rightarrow> int \<Rightarrow> nat \<Rightarrow> js_error + int list" where
  "array_dims b p 0 = Inr []"
| "array_dims b p (Suc n) = rbind (read_int 4 b p) (\<lambda>d. rbind (array_dims b (p + 8) n) (\<lambda>ds. Inr (d # ds)))"

text \<open>\<open>read\<close> of the dimensions that are left: that many elements, each a nested array or, in the last dimension, a cell.\<close>

fun repeat_read :: "(int \<Rightarrow> js_error + dval \<times> int) \<Rightarrow> nat \<Rightarrow> int \<Rightarrow> js_error + dval list \<times> int" where
  "repeat_read f 0 p = Inr ([], p)"
| "repeat_read f (Suc n) p = rbind (f p) (\<lambda>(v, q). rbind (repeat_read f n q) (\<lambda>(vs, r). Inr (v # vs, r)))"

definition array_cell :: "cell_fn \<Rightarrow> bytes \<Rightarrow> int \<Rightarrow> js_error + dval \<times> int" where
  "array_cell elem b p = rbind (read_int 4 b p) (\<lambda>len.
     if len = - 1 then Inr (DNull, p + 4) else rbind (elem b (p + 4) len) (\<lambda>v. Inr (v, p + 4 + len)))"

fun array_read :: "cell_fn \<Rightarrow> bytes \<Rightarrow> int list \<Rightarrow> int \<Rightarrow> js_error + dval \<times> int" where
  "array_read elem b [] p = Inl (InvalidArrayLength 0)"
| "array_read elem b (n # ns) p =
     (if n < 0 then Inl (InvalidArrayLength n)
      else rbind (repeat_read (if ns = [] then array_cell elem b else array_read elem b ns) (nat n) p) (\<lambda>(vs, q). Inr (DArr vs, q)))"

definition binArrayWith :: "cell_fn \<Rightarrow> cell_fn" where
  "binArrayWith elem b p l = rbind (read_int 4 b p) (\<lambda>ndim.
     if ndim = 0 then Inr (DArr [])
     else if ndim < 0 then Inl (InvalidArrayLength ndim)
     else rbind (array_dims b (p + 12) (nat ndim)) (\<lambda>dims.
       rbind (array_read elem b dims (p + 12 + 8 * ndim)) (\<lambda>(v, q). Inr v)))"

subsection \<open>Choosing the decoder\<close>

definition may_fail :: "js_error + cell_fn \<Rightarrow> cell_fn option" where
  "may_fail r = (case r of Inr f \<Rightarrow> Some f | Inl _ \<Rightarrow> None)"

text \<open>An element type is no array type, so the recursion through arrays is one step.\<close>

definition repl_scalar :: "catalog \<Rightarrow> int \<Rightarrow> cell_fn option" where
  "repl_scalar m oid =
     (if is_custom m oid then None
      else if oid = 1700 then Some binNumericStr
      else if oid = 114 then Some (wrap (decoderFor oid m))
      else if oid = 3802 then Some (\<lambda>b p l. decoderFor oid m (subarray b (p + 1) (p + l)))
      else may_fail (pickBinary oid None))"

definition replBinaryFor :: "catalog \<Rightarrow> int \<Rightarrow> cell_fn option" where
  "replBinaryFor m oid = (case ELEM_OID oid of
       Some el \<Rightarrow> if is_custom m oid then None else map_option binArrayWith (repl_scalar m el)
     | None \<Rightarrow> repl_scalar m oid)"

definition BIN_TEXT_EXACT :: "int list" where
  "BIN_TEXT_EXACT = [20, 18, 19, 25, 1042, 1043, 2950]"

definition text_target :: "string option \<Rightarrow> bool" where
  "text_target js \<longleftrightarrow> js = Some ''string'' \<or> js = Some ''latin1''"

text \<open>A number of an integer type as text.\<close>

definition num_text_of :: "dval \<Rightarrow> dval" where
  "num_text_of v = (case v of DNum (Fin q) \<Rightarrow> DStr (dec_int \<lfloor>q\<rfloor>) | _ \<Rightarrow> v)"

definition shaped_scalar :: "catalog \<Rightarrow> int \<Rightarrow> string option \<Rightarrow> cell_fn option" where
  "shaped_scalar m oid js =
     (if oid \<le> 0 \<or> is_custom m oid then None
      else if oid = 1700 then
        (if js = Some ''bigint'' then Some (\<lambda>b p l. rbind (numeric_text_of b p) (\<lambda>s. rbind (js_bigint s) (\<lambda>n. Inr (DBig n))))
         else if js = Some ''number'' then Some (\<lambda>b p l. rbind (numeric_text_of b p) (\<lambda>s. Inr (DNum (js_number s))))
         else Some binNumericStr)
      else if oid = 114 \<or> oid = 3802 then
        (let skip = (if oid = 3802 then 1 else 0) in
         if text_target js then Some (\<lambda>b p l. binText b (p + skip) (l - skip))
         else Some (\<lambda>b p l. decoderFor oid m (subarray b (p + skip) (p + l))))
      else if text_target js then
        (if oid \<in> {21, 23, 26} then map_option (\<lambda>f b p l. rbind (f b p l) (\<lambda>v. Inr (num_text_of v))) (may_fail (pickBinary oid None))
         else if oid \<notin> set BIN_TEXT_EXACT then None
         else may_fail (pickBinary oid (Some ''string'')))
      else if oid = 700 \<and> js \<noteq> Some ''precise'' then None
      else may_fail (pickBinary oid js))"

definition replShapedLeaf :: "catalog \<Rightarrow> int \<Rightarrow> string option \<Rightarrow> cell_fn option" where
  "replShapedLeaf m oid js = (case ELEM_OID oid of
       Some el \<Rightarrow> if is_custom m oid then None else map_option binArrayWith (shaped_scalar m el js)
     | None \<Rightarrow> shaped_scalar m oid js)"

definition replBinaryForCol :: "(jsstr \<Rightarrow> jnum) \<Rightarrow> registry \<Rightarrow> catalog \<Rightarrow> ccol \<Rightarrow> js_error + cell_fn option" where
  "replBinaryForCol dateParse defs m c =
     (if co_json c \<noteq> None then rbind (pickDecoder dateParse defs m c) (\<lambda>d. Inr (Some (if co_oid c = 3802 then (\<lambda>b p l. d b (p + 1) (l - 1)) else d)))
      else case co_array c of
        Some (el, js) \<Rightarrow> Inr (map_option binArrayWith (replShapedLeaf m el js))
      | None \<Rightarrow> Inr (replShapedLeaf m (co_oid c) (co_js c)))"

lemma elem_not_array: "ELEM_OID oid = Some el \<Longrightarrow> ELEM_OID el = None"
  by (auto simp: ELEM_OID_def split: if_splits)

subsection \<open>Numerics are exact\<close>

declare digits_val.simps [simp del]

lemma dv_append: "digits_val (xs @ ys) = digits_val xs * 10 ^ length ys + digits_val ys"
proof (induction ys rule: rev_induct)
  case (snoc y ys)
  have "digits_val (xs @ ys @ [y]) = digits_val (xs @ ys) * 10 + y" using digits_val_snoc [of "xs @ ys" y] by simp
  with snoc show ?case by (simp add: digits_val_snoc algebra_simps)
qed simp

lemma length_fix_digits [simp]: "length (fix_digits k n) = k"
  by (induction k arbitrary: n) simp_all

lemma decs_fix_digits: "decs (fix_digits k n)"
  by (induction k arbitrary: n) simp_all

lemma dv_fix_digits: "digits_val (fix_digits k n) = n mod 10 ^ k"
proof (induction k arbitrary: n)
  case (Suc k)
  have "n mod (10 * 10 ^ k) = 10 * (n div 10 mod 10 ^ k) + n mod 10" by (simp add: mod_mult2_eq)
  with Suc show ?case by (simp add: digits_val_snoc)
qed simp

lemma dv_groups:
  "list_all (\<lambda>g. g < 10000) gs \<Longrightarrow> digits_val (xs @ concat (map (fix_digits 4) gs)) = foldl (\<lambda>a g. a * 10000 + g) (digits_val xs) gs"
proof (induction gs arbitrary: xs)
  case (Cons g gs)
  from Cons.IH [of "xs @ fix_digits 4 g"] Cons.prems show ?case by (simp add: dv_append dv_fix_digits)
qed simp

lemma dv_take: "decs xs \<Longrightarrow> k \<le> length xs \<Longrightarrow> digits_val (take k xs) = digits_val xs div 10 ^ (length xs - k)"
proof -
  assume a: "decs xs" "k \<le> length xs"
  then have "decs (drop k xs)" by (metis append_take_drop_id decs_simps(3))
  then have "digits_val (drop k xs) < 10 ^ (length xs - k)" using digits_val_less [of "drop k xs"] by simp
  moreover have "digits_val xs = digits_val (take k xs) * 10 ^ (length xs - k) + digits_val (drop k xs)"
    using dv_append [of "take k xs" "drop k xs"] by simp
  ultimately show ?thesis by simp
qed

text \<open>The form of \<open>numeric_send\<close>: counts, weight of the first group, sign, scale, groups of four decimals.\<close>

definition numeric_wire :: "bool \<Rightarrow> int \<Rightarrow> nat \<Rightarrow> nat list \<Rightarrow> bytes" where
  "numeric_wire neg weight dscale ds = be_bytes 2 (int (length ds)) @ be_bytes 2 weight @ be_bytes 2 (if neg then 0x4000 else 0) @
     be_bytes 2 (int dscale) @ concat (map (\<lambda>d. be_bytes 2 (int d)) ds)"

definition numeric_ok :: "int \<Rightarrow> nat \<Rightarrow> nat list \<Rightarrow> bool" where
  "numeric_ok weight dscale ds \<longleftrightarrow> length ds \<le> 65535 \<and> - 32768 \<le> weight \<and> weight \<le> 32767 \<and> dscale \<le> 16383 \<and> list_all (\<lambda>g. g < 10000) ds"

text \<open>The group of weight \<open>weight - i\<close>, zero outside those sent; the number that the groups up to \<open>k\<close> behind the point
  make, counted in the last of them.\<close>

definition group_at :: "nat list \<Rightarrow> int \<Rightarrow> nat" where
  "group_at ds i = (if 0 \<le> i \<and> i < int (length ds) then ds ! nat i else 0)"

definition scaled_value :: "nat list \<Rightarrow> int \<Rightarrow> nat \<Rightarrow> nat" where
  "scaled_value ds weight k = foldl (\<lambda>a g. a * 10000 + g) 0 (map (group_at ds) [min 0 (weight + 1)..weight + int k])"

lemma group_small: "numeric_ok w dscale ds \<Longrightarrow> group_at ds i < 10000"
  by (auto simp: numeric_ok_def group_at_def list_all_length)

lemma pad4_group: "g < 10000 \<Longrightarrow> pad4 (int g) = dunits (fix_digits 4 g)"
  using pad_dec_fix [of g 4] by (simp add: pad4_def dunits_def)

lemma read_group:
  assumes "numeric_ok w dscale ds" "i < length ds"
  shows "read_uint 2 (pre @ numeric_wire neg w dscale ds @ post) (int (length pre) + 8 + int i * 2) = Inr (int (ds ! i))"
proof -
  let ?h = "be_bytes 2 (int (length ds)) @ be_bytes 2 w @ be_bytes 2 (if neg then 0x4000 else 0) @ be_bytes 2 (int dscale)"
  let ?f = "\<lambda>d. be_bytes 2 (int d)"
  have "ds = take i ds @ ds ! i # drop (Suc i) ds" using assms(2) by (simp add: id_take_nth_drop)
  then have "concat (map ?f ds) = concat (map ?f (take i ds)) @ ?f (ds ! i) @ concat (map ?f (drop (Suc i) ds))"
    by (metis concat.simps(2) concat_append list.simps(9) map_append)
  then have e: "pre @ numeric_wire neg w dscale ds @ post =
      (pre @ ?h @ concat (map ?f (take i ds))) @ be_bytes 2 (int (ds ! i)) @ concat (map ?f (drop (Suc i) ds)) @ post"
    by (simp add: numeric_wire_def)
  have c: "length (concat (map ?f xs)) = 2 * length xs" for xs by (induction xs) simp_all
  have l: "int (length (pre @ ?h @ concat (map ?f (take i ds)))) = int (length pre) + 8 + int i * 2"
    using assms(2) by (simp add: c)
  have "ds ! i < 10000" using assms by (simp add: numeric_ok_def list_all_length)
  with read_uint_at [of "int (ds ! i)" 2 "pre @ ?h @ concat (map ?f (take i ds))"] show ?thesis unfolding e l by simp
qed

lemma group_read:
  assumes "numeric_ok w dscale ds"
  shows "numeric_group (pre @ numeric_wire neg w dscale ds @ post) (int (length pre)) (int (length ds)) i = Inr (int (group_at ds i))"
proof (cases "0 \<le> i \<and> i < int (length ds)")
  case True
  then have "nat i < length ds" by linarith
  with True read_group [OF assms, of "nat i" pre neg post] show ?thesis by (simp add: numeric_group_def group_at_def)
qed (auto simp: numeric_group_def group_at_def)

definition frac_groups :: "nat list \<Rightarrow> int \<Rightarrow> nat \<Rightarrow> nat list" where
  "frac_groups ds w k = map (\<lambda>g. group_at ds (w + 1 + int g)) [0..<k]"

lemma units_length: "length (dunits ds) = length ds"
  by (simp add: dunits_def)

lemma length_groups: "length (concat (map (fix_digits 4) (frac_groups ds w g))) = 4 * g"
  by (induction g) (simp_all add: frac_groups_def)

lemma frac_read:
  assumes ok: "numeric_ok w dscale ds" and k: "k = (dscale + 3) div 4"
  shows "g \<le> k \<Longrightarrow> dscale \<le> n + 4 * g \<Longrightarrow>
    frac_loop (pre @ numeric_wire neg w dscale ds @ post) (int (length pre)) (int (length ds)) w dscale n g (dunits (concat (map (fix_digits 4) (frac_groups ds w g)))) =
    Inr (dunits (concat (map (fix_digits 4) (frac_groups ds w k))))"
proof (induction n arbitrary: g)
  case 0
  then have "g = k" using k by simp
  then show ?case by simp
next
  case (Suc n)
  have l: "length (concat (map (fix_digits 4) (frac_groups ds w g))) = 4 * g" by (rule length_groups)
  show ?case
  proof (cases "4 * g < dscale")
    case True
    then have g: "Suc g \<le> k" using k by simp
    have s: "frac_groups ds w (Suc g) = frac_groups ds w g @ [group_at ds (w + 1 + int g)]" by (simp add: frac_groups_def)
    have "dunits (concat (map (fix_digits 4) (frac_groups ds w g))) @ pad4 (int (group_at ds (w + 1 + int g))) = dunits (concat (map (fix_digits 4) (frac_groups ds w (Suc g))))"
      by (simp add: s pad4_group [OF group_small [OF ok]] dunits_def)
    with Suc.IH [OF g] Suc.prems True show ?thesis by (simp add: l units_length group_read [OF ok])
  next
    case False
    then have "g = k" using Suc.prems(1) k by simp
    with False l show ?thesis by (simp add: units_length)
  qed
qed

lemma upto_behind: "[a + 1..a + int k] = map (\<lambda>g. a + 1 + int g) [0..<k]"
proof (induction k)
  case (Suc k)
  have "[a + 1..a + int (Suc k)] = [a + 1..a + int k] @ [a + int (Suc k)]" using upto_rec2 [of "a + 1" "a + int (Suc k)"] by (simp add: algebra_simps)
  with Suc show ?case by simp
qed simp

lemma frac_groups_upto: "frac_groups ds w k = map (group_at ds) [w + 1..w + int k]"
  by (simp add: frac_groups_def upto_behind o_def)

lemma foldl_zeros: "list_all (\<lambda>g. g = 0) gs \<Longrightarrow> foldl (\<lambda>a g. a * 10000 + g) (0 :: nat) gs = 0"
  by (induction gs) simp_all

text \<open>The digits before the point.\<close>

definition int_digits_of :: "nat list \<Rightarrow> int \<Rightarrow> nat list" where
  "int_digits_of ds w = (if w < 0 \<or> ds = [] then [0] else dec_digits (group_at ds 0) @ concat (map (fix_digits 4) (map (group_at ds) [1..w])))"

lemma int_read:
  assumes ok: "numeric_ok w dscale ds"
  shows "int_part (pre @ numeric_wire neg w dscale ds @ post) (int (length pre)) (int (length ds)) w = Inr (dunits (int_digits_of ds w))"
proof (cases "w < 0 \<or> ds = []")
  case True
  then show ?thesis by (auto simp: int_part_def int_digits_of_def dunits_def digit_unit_def asc_def)
next
  case False
  let ?g = "\<lambda>i. if i = 0 then dec_int (int (group_at ds i)) else pad4 (int (group_at ds i))"
  have r: "rmap (\<lambda>i. rbind (numeric_group (pre @ numeric_wire neg w dscale ds @ post) (int (length pre)) (int (length ds)) i)
      (\<lambda>d. Inr (if i = 0 then dec_int d else pad4 d))) [0..w] = Inr (map ?g [0..w])"
    by (rule rmap_cong_Inr) (simp add: group_read [OF ok])
  have u: "[0..w] = 0 # [1..w]" using False upto_rec1 [of 0 w] by simp
  have m: "map ?g [1..w] = map (\<lambda>i. dunits (fix_digits 4 (group_at ds i))) [1..w]"
    by (rule map_cong) (auto simp: pad4_group [OF group_small [OF ok]])
  have "concat (map ?g [0..w]) = dec_int (int (group_at ds 0)) @ concat (map (\<lambda>i. dunits (fix_digits 4 (group_at ds i))) [1..w])"
    unfolding u list.map concat.simps m by simp
  also have "\<dots> = dunits (int_digits_of ds w)"
    using False by (simp add: int_digits_of_def dunits_def dec_int_def dec_nat_def map_concat o_def)
  finally have "concat (map ?g [0..w]) = dunits (int_digits_of ds w)" .
  with r False show ?thesis by (simp add: int_part_def)
qed

lemma int_value:
  assumes "numeric_ok w dscale ds"
  shows "digits_val (int_digits_of ds w @ concat (map (fix_digits 4) (frac_groups ds w k))) = scaled_value ds w k"
proof -
  have f: "list_all (\<lambda>g. g < 10000) (map (group_at ds) is)" for "is" using group_small [OF assms] by (simp add: list_all_iff)
  have d0: "digits_val [0] = 0" using digits_val_snoc [of "[]" 0] by simp
  consider "w < 0" | "0 \<le> w" "ds = []" | "0 \<le> w" "ds \<noteq> []" by linarith
  then show ?thesis
  proof cases
    case 1
    then show ?thesis unfolding int_digits_of_def frac_groups_upto scaled_value_def by (simp add: dv_groups [OF f, of "[0]", simplified] d0)
  next
    case 2
    have "list_all (\<lambda>g. g = 0) (map (group_at []) is)" for "is" by (auto simp: list_all_iff group_at_def)
    with 2 show ?thesis unfolding int_digits_of_def frac_groups_upto scaled_value_def
      using dv_groups [OF f, of "[0]"] by (simp add: d0 foldl_zeros)
  next
    case 3
    have "[0..w + int k] = [0] @ [1..w] @ [w + 1..w + int k]"
      using 3 upto_rec1 [of 0 "w + int k"] upto_split1 [of 1 "w + 1" "w + int k"] by (cases k) simp_all
    moreover have "digits_val (dec_digits n) = n" for n using digits_val_dec_digits by (simp add: digits_val.simps)
    ultimately show ?thesis unfolding int_digits_of_def frac_groups_upto scaled_value_def
      using 3 dv_groups [OF f, of "dec_digits (group_at ds 0)" "[1..w] @ [w + 1..w + int k]"] by simp
  qed
qed

text \<open>C25: A binary numeric is read exactly. For every numeric the server can send, of any sign, weight, scale and groups, the
  decoder returns its decimal text: the sign, the digits before the point, and behind it as many as the
  scale says; together the digits are the number the groups make, cut at the scale.\<close>

theorem numeric_exact:
  assumes ok: "numeric_ok w dscale ds"
  shows "\<exists>I F. binNumericStr (pre @ numeric_wire neg w dscale ds @ post) (int (length pre)) l =
      Inr (DStr ((if neg then asc ''-'' else []) @ dunits I @ (if dscale = 0 then [] else asc ''.'' @ dunits F))) \<and>
    decs (I @ F) \<and> I \<noteq> [] \<and> length F = dscale \<and>
    digits_val (I @ F) = scaled_value ds w ((dscale + 3) div 4) div 10 ^ (4 * ((dscale + 3) div 4) - dscale)"
proof -
  let ?b = "pre @ numeric_wire neg w dscale ds @ post" and ?k = "(dscale + 3) div 4"
  let ?I = "int_digits_of ds w" and ?B = "concat (map (fix_digits 4) (frac_groups ds w ?k))"
  let ?sg = "if neg then 0x4000 else 0 :: int" and ?tail = "concat (map (\<lambda>d. be_bytes 2 (int d)) ds) @ post"
  have h: "read_uint 2 ?b (int (length pre)) = Inr (int (length ds))" "read_int 2 ?b (int (length pre) + 2) = Inr w"
    "read_uint 2 ?b (int (length pre) + 4) = Inr ?sg" "read_uint 2 ?b (int (length pre) + 6) = Inr (int dscale)"
    using ok read_uint_at [of "int (length ds)" 2 pre "be_bytes 2 w @ be_bytes 2 ?sg @ be_bytes 2 (int dscale) @ ?tail"]
      read_int_at [of 2 w "pre @ be_bytes 2 (int (length ds))" "be_bytes 2 ?sg @ be_bytes 2 (int dscale) @ ?tail"]
      read_uint_at [of ?sg 2 "pre @ be_bytes 2 (int (length ds)) @ be_bytes 2 w" "be_bytes 2 (int dscale) @ ?tail"]
      read_uint_at [of "int dscale" 2 "pre @ be_bytes 2 (int (length ds)) @ be_bytes 2 w @ be_bytes 2 ?sg" ?tail]
    by (cases neg; simp add: numeric_wire_def numeric_ok_def add.commute [of 2])+
  have f: "0 < dscale \<Longrightarrow> frac_loop ?b (int (length pre)) (int (length ds)) w dscale dscale 0 [] = Inr (dunits ?B)"
    using frac_read [OF ok refl, of 0 dscale pre neg post] by (simp add: frac_groups_def dunits_def)
  have lB: "length ?B = 4 * ?k" by (rule length_groups)
  have dI: "decs ?I" by (auto simp: int_digits_of_def decs_dec_digits decs_def list_all_iff dest: dec_digits_less) (use decs_fix_digits in \<open>auto simp: decs_def list_all_iff\<close>)
  have dB: "decs ?B" using decs_fix_digits by (auto simp: decs_def list_all_iff)
  define b where "b = ?b"
  have "binNumericStr b (int (length pre)) l =
      Inr (DStr ((if neg then asc ''-'' else []) @ dunits ?I @ (if dscale = 0 then [] else asc ''.'' @ dunits (take dscale ?B))))"
    using h f int_read [OF ok, of pre neg post] unfolding b_def [symmetric]
    by (cases neg; cases "dscale = 0") (simp_all add: binNumericStr_def numeric_text_of_def dunits_def take_map)
  moreover have "decs (?I @ take dscale ?B)" using dI dB by (metis append_take_drop_id decs_simps(3))
  moreover have "?I \<noteq> []" by (simp add: int_digits_of_def dec_digits.simps [of "group_at ds 0"])
  moreover have "length (take dscale ?B) = dscale" using lB by simp
  moreover have "digits_val (?I @ take dscale ?B) = scaled_value ds w ?k div 10 ^ (4 * ?k - dscale)"
    using dv_take [of "?I @ ?B" "length ?I + dscale"] dI dB lB int_value [OF ok, of ?k] by simp
  ultimately show ?thesis unfolding b_def by blast
qed

theorem numeric_exact_witness:
  "numeric_ok 0 2 [12, 3400] \<and> scaled_value [12, 3400] 0 1 = 123400 \<and>
    (\<exists>I F. binNumericStr (numeric_wire True 0 2 [12, 3400]) 0 0 = Inr (DStr (asc ''-'' @ dunits I @ asc ''.'' @ dunits F)) \<and> length F = 2 \<and> digits_val (I @ F) = 1234)"
proof -
  have ok: "numeric_ok 0 2 [12, 3400]" by (simp add: numeric_ok_def)
  have v: "scaled_value [12, 3400] 0 1 = 123400" by (simp add: scaled_value_def group_at_def upto.simps)
  from numeric_exact [OF ok, of "[]" True "[]" 0] v ok show ?thesis by fastforce
qed

subsection \<open>Arrays are read back\<close>

text \<open>A rectangular array as \<open>array_send\<close> writes it: the dimensions, each with its lower bound, and the cells row by row.\<close>

datatype bin_tree = BT_cell "bytes option" | BT_row "bin_tree list"

fun tree_ok :: "nat list \<Rightarrow> bin_tree \<Rightarrow> bool" where
  "tree_ok [] (BT_cell c) \<longleftrightarrow> cell_ok c"
| "tree_ok (n # ns) (BT_row ts) \<longleftrightarrow> length ts = n \<and> n \<le> 2147483647 \<and> list_all (tree_ok ns) ts"
| "tree_ok _ _ \<longleftrightarrow> False"

fun tree_bytes :: "bin_tree \<Rightarrow> bytes" where
  "tree_bytes (BT_cell c) = cell_bytes c"
| "tree_bytes (BT_row ts) = concat (map tree_bytes ts)"

fun tree_value :: "(bytes \<Rightarrow> dval) \<Rightarrow> bin_tree \<Rightarrow> dval" where
  "tree_value val (BT_cell c) = (case c of None \<Rightarrow> DNull | Some v \<Rightarrow> val v)"
| "tree_value val (BT_row ts) = DArr (map (tree_value val) ts)"

definition array_sent :: "int \<Rightarrow> int \<Rightarrow> nat list \<Rightarrow> bin_tree \<Rightarrow> bytes" where
  "array_sent hasnull el ns t = be_bytes 4 (int (length ns)) @ be_bytes 4 hasnull @ be_bytes 4 el @
     concat (map (\<lambda>n. be_bytes 4 (int n) @ be_bytes 4 1) ns) @ tree_bytes t"

definition reads_cells :: "cell_fn \<Rightarrow> (bytes \<Rightarrow> dval) \<Rightarrow> bool" where
  "reads_cells elem val \<longleftrightarrow> (\<forall>pre v post. elem (pre @ v @ post) (int (length pre)) (int (length v)) = Inr (val v))"

lemma repeat_reads:
  assumes "\<And>t pre post. t \<in> set ts \<Longrightarrow> f (pre @ tree_bytes t @ post) (int (length pre)) = Inr (g t, int (length pre) + int (length (tree_bytes t)))"
  shows "repeat_read (f (pre @ concat (map tree_bytes ts) @ post)) (length ts) (int (length pre)) =
    Inr (map g ts, int (length pre) + int (length (concat (map tree_bytes ts))))"
  using assms
proof (induction ts arbitrary: pre)
  case (Cons t ts)
  have "f (pre @ tree_bytes t @ concat (map tree_bytes ts) @ post) (int (length pre)) = Inr (g t, int (length pre) + int (length (tree_bytes t)))"
    by (rule Cons.prems) simp
  moreover have "repeat_read (f ((pre @ tree_bytes t) @ concat (map tree_bytes ts) @ post)) (length ts) (int (length (pre @ tree_bytes t))) =
      Inr (map g ts, int (length (pre @ tree_bytes t)) + int (length (concat (map tree_bytes ts))))"
    by (rule Cons.IH) (use Cons.prems in simp)
  ultimately show ?case by (simp add: add.assoc)
qed simp

lemma array_cell_read:
  assumes "reads_cells elem val" "cell_ok c"
  shows "array_cell elem (pre @ cell_bytes c @ post) (int (length pre)) = Inr (tree_value val (BT_cell c), int (length pre) + int (length (cell_bytes c)))"
proof (cases c)
  case None
  have "read_int 4 (pre @ be_bytes 4 (- 1) @ post) (int (length pre)) = Inr (- 1)" by (rule read_int_at) simp_all
  with None show ?thesis by (simp add: array_cell_def cell_bytes_simps)
next
  case (Some v)
  have "read_int 4 (pre @ be_bytes 4 (int (length v)) @ v @ post) (int (length pre)) = Inr (int (length v))"
    using assms(2) Some by (intro read_int_at) (simp_all add: cell_ok_def)
  moreover have "elem ((pre @ be_bytes 4 (int (length v))) @ v @ post) (int (length (pre @ be_bytes 4 (int (length v))))) (int (length v)) = Inr (val v)"
    using assms(1) unfolding reads_cells_def by blast
  ultimately show ?thesis by (simp add: Some array_cell_def cell_bytes_simps)
qed

lemma array_reads:
  assumes "reads_cells elem val"
  shows "tree_ok ns t \<Longrightarrow> (if ns = [] then array_cell elem else (\<lambda>b. array_read elem b (map int ns))) (pre @ tree_bytes t @ post) (int (length pre)) =
    Inr (tree_value val t, int (length pre) + int (length (tree_bytes t)))"
proof (induction ns t arbitrary: pre post rule: tree_ok.induct)
  case (1 c)
  then show ?case by (simp add: array_cell_read [OF assms] del: tree_value.simps)
next
  case (2 n ns ts)
  let ?f = "if ns = [] then array_cell elem else (\<lambda>b. array_read elem b (map int ns))"
  have "repeat_read (?f (pre @ concat (map tree_bytes ts) @ post)) (length ts) (int (length pre)) =
      Inr (map (tree_value val) ts, int (length pre) + int (length (concat (map tree_bytes ts))))"
    by (rule repeat_reads) (use 2 in \<open>auto simp: list_all_iff\<close>)
  with 2 show ?case by (cases "ns = []") simp_all
qed simp_all

lemma dims_read:
  "list_all (\<lambda>n. n \<le> 2147483647) ns \<Longrightarrow> array_dims (pre @ concat (map (\<lambda>n. be_bytes 4 (int n) @ be_bytes 4 1) ns) @ post) (int (length pre)) (length ns) = Inr (map int ns)"
proof (induction ns arbitrary: pre)
  case (Cons n ns)
  from Cons.IH [of "pre @ be_bytes 4 (int n) @ be_bytes 4 1"] Cons.prems
    read_int_at [of 4 "int n" pre "be_bytes 4 1 @ concat (map (\<lambda>n. be_bytes 4 (int n) @ be_bytes 4 1) ns) @ post"]
  show ?case by simp
qed simp

text \<open>Whatever the dimensions and wherever the cells are null, the array comes back in its nesting.\<close>

theorem binary_array_readback:
  assumes "reads_cells elem val" "tree_ok ns t" "ns \<noteq> []" "length ns \<le> 2147483647" "list_all (\<lambda>n. n \<le> 2147483647) ns"
  shows "binArrayWith elem (pre @ array_sent hasnull el ns t @ post) (int (length pre)) l = Inr (tree_value val t)"
proof -
  let ?dims = "concat (map (\<lambda>n. be_bytes 4 (int n) @ be_bytes 4 1) ns)"
  let ?h = "be_bytes 4 (int (length ns)) @ be_bytes 4 hasnull @ be_bytes 4 el"
  have c: "length ?dims = 8 * length ns" by (induction ns) simp_all
  define b where "b = pre @ array_sent hasnull el ns t @ post"
  have 1: "read_int 4 b (int (length pre)) = Inr (int (length ns))"
    using read_int_at [of 4 "int (length ns)" pre] assms(4) by (simp add: b_def array_sent_def)
  have 2: "array_dims b (int (length pre) + 12) (length ns) = Inr (map int ns)"
    using dims_read [OF assms(5), of "pre @ ?h" "tree_bytes t @ post"] by (simp add: b_def array_sent_def)
  have 3: "array_read elem b (map int ns) (int (length pre) + 12 + 8 * int (length ns)) =
      Inr (tree_value val t, int (length pre) + 12 + 8 * int (length ns) + int (length (tree_bytes t)))"
    using array_reads [OF assms(1, 2), of "pre @ ?h @ ?dims" post] assms(3) by (simp add: b_def array_sent_def c add.assoc)
  have "0 < length ns" using assms(3) by simp
  then show ?thesis unfolding b_def [symmetric] binArrayWith_def using 1 2 3 by simp
qed

end
