(* ===== verification/Spec2Isabelle.thy ===== *)
theory Spec2Isabelle
  imports Conn_Wire Encode_Jit Copy_Rows Temporal Json_Scan Pool_Props Repl_Props Cdc_Props Decode_Cells Cursor Bulk Streams Aurora Repl_Binary
begin

text \<open>
  A verification development for minipg, a PostgreSQL driver written in TypeScript (the files named
  below are under src/src).

  \<^bold>\<open>The program.\<close> A \<open>Connection\<close> (connection.ts) owns a socket. Callers submit queries; each becomes a
  task that waits in a queue, is serialised by the message writers (protocol.ts) with its parameters
  encoded (encode.ts), joins a pipeline of at most \<open>pipelineDepth\<close> tasks, and is settled when the
  server's ReadyForQuery for it arrives. Incoming bytes go through \<open>Parser\<close> (protocol.ts); rows are
  decoded by a mapper (mapper.ts, decode.ts) planned from a row shape (spec.ts), with JSON columns
  (json.ts, jsonparse.ts) and timestamps (temporal.ts) treated apart. A \<open>Pool\<close> (pool.ts) lends
  connections; a \<open>Cursor\<close> (cursor.ts) reads a result in batches over a leased connection; a replication
  connection (replication.ts) streams decoded changes of the database.

  \<^bold>\<open>Shared ground.\<close> \<open>Prelude\<close>: bytes, big-endian reads and writes with JavaScript's range checks,
  strings as lists of UTF-16 units with UTF-8 and Latin-1, results as sums, reachability and the locale
  \<open>invariant_of\<close> that the connection, the pool, the replication queue, the cursor and \<open>replicate()\<close> interpret. \<open>Js_Values\<close>:
  parameter values and the library functions the encoders use. \<open>Decode_Numbers\<close>: IEEE-754 arithmetic
  as correctly rounded exact rationals.

  \<^bold>\<open>Wire protocol\<close> (protocol.ts, errors.ts). \<open>Wire_Writer\<close>: the growing buffer and every method of
  \<open>Writer\<close>, as operations that succeed or throw after a partial write; \<open>refines\<close> is their contract.
  \<open>Wire_Messages\<close>: the messages of \<open>W\<close> and the write functions, which append the same bytes or throw the
  same error; the locale \<open>param_encoder\<close> is what a Bind needs of a parameter encoder. \<open>Wire_Parser\<close>:
  \<open>Parser.push\<close> does not depend on how the stream is cut and loses nothing; the row decoders invert the
  protocol's encodings.

  \<^bold>\<open>Parameters\<close> (encode.ts). \<open>Encode\<close>: text encoders and array literals, the write-through encoder equal to
  the reference one; \<open>Encode_Binary\<close>: parameter plans with binary encoders; both interpret
  \<open>param_encoder\<close>. \<open>Encode_Jit\<close>: the compiled Bind encoder, as the meaning of the code it generates,
  writes what the plan writes. \<open>Copy_Rows\<close>: COPY FROM rows, text and binary, cut into chunks.

  \<^bold>\<open>Connection\<close> (connection.ts). \<open>Conn_State\<close>, \<open>Conn_Dispatch\<close>, \<open>Conn_Handle\<close>: the state as a record and one
  function per handler; an event is one atomic handler, promise callbacks are events of their own.
  \<open>Conn_Invariant\<close> and \<open>Connection_Props\<close>: no caller is left waiting, the pipeline's accounting, order and
  attribution of responses, cancellation. \<open>Conn_Wire\<close>: a dispatched task puts whole messages with one
  Sync on the wire or nothing. \<open>Bulk\<close>: bulk inserts and updates, chunked COPY and transactions, over the
  connection as a session that runs statements; chunks cover every row once, atomic calls commit all or
  nothing, and the cache key of bulk updates is ambiguous. \<open>Streams\<close>: the iterators of \<open>stream()\<close> and \<open>copyTo()\<close> between the
  message handlers and their consumer, which deliver exactly what arrived, and the pump that sends a COPY source.

  \<^bold>\<open>Rows\<close>. \<open>Temporal\<close> (temporal.ts): the instant parsers agree, round-trip and stay exact. \<open>Decode_Array\<close>
  and \<open>Decode_Numbers\<close> (decode.ts): array literals and numbers from bytes. \<open>Json_Text\<close> (jsonparse.ts and
  the JSON parsing of the library), \<open>Json_Spec\<close>, \<open>Json_Walk\<close>, \<open>Json_Scan\<close> (json.ts): JSON columns in the
  interpreted and the compiled engine. \<open>Shape_Cols\<close> (spec.ts): a row shape to typed columns.
  \<open>Row_Mapper\<close> (mapper.ts, decode.ts): the interpreted row mapper and the generated one agree on every
  body. \<open>Decode_Cells\<close> (decode.ts, geo.ts, registry.ts): the decoder catalog, the cell decoders of both
  engines and how each chooses one, the geometric and vector texts, the registry of types. The section
  below composes the two: both engines decode every row alike, from the columns to the values.

  \<^bold>\<open>Pool\<close> (pool.ts). \<open>Pool_State\<close>: every method, cut at its awaits, and the events that resume it.
  \<open>Pool_Props\<close>: exclusive checkout, no hung acquire, the size bound, the transaction guard, and the lost
  wake-up after an outage.

  \<^bold>\<open>Cursor\<close> (cursor.ts). \<open>Cursor\<close>: methods cut at their awaits; one lease, given back at most once, under
  every interleaving; draining returns the whole result.

  \<^bold>\<open>Logical replication\<close> (replication.ts). \<open>Repl_Decode\<close>: pgoutput messages.
  \<open>Repl_Binary\<close>: binary tuples (the end of decode.ts), whose numerics are read exactly and whose arrays keep their nesting. \<open>Repl_Stream\<close>: queue,
  back-pressure, positions, acknowledgement, batching. \<open>Repl_Props\<close>: what is confirmed, what pauses, what
  a batch is.

  \<^bold>\<open>Change data capture\<close> (cdc.ts). \<open>Cdc\<close>: \<open>replicate()\<close>, its session loop cut at its awaits beside \<open>stop()\<close>, with a
  log of what it does. \<open>Cdc_Props\<close>: what is acknowledged, the protocol of a connection as an automaton that
  accepts every log, fatal errors, the retry budget, and a slot whose baseline is never read.

  \<^bold>\<open>HTTP\<close> (http.ts, neon-http.ts, aurora.ts). \<open>Http\<close>: the gateway client, whose answers are backend messages: how a stream is split into the results
  of its statements, batches and pipelines, and the cache of row descriptions the gateway may leave out. \<open>Neon\<close>
  (neon-http.ts): rows read from the bytes of a JSON answer; the scan builds the same rows as \<open>JSON.parse\<close>. \<open>Aurora\<close>
  (aurora.ts): typed fields back to texts, arrays that survive the way, the retry loop, and transactions as calls.

  \<^bold>\<open>Conventions.\<close> A method that awaits is split there, so operations interleave where the event loop
  lets them. Thrown values are results; texts of messages are shortened, their kinds kept. Generated
  code is represented by its meaning, not its text. Bytes past the end of a buffer are read as the
  source reads them (an exception, undefined, or nothing). Numbers that the source keeps as doubles are
  integers where it keeps them safe, rationals with rounding where it does not.

  \<^bold>\<open>Fuel.\<close> Array literals take the length of the text plus one (\<open>parse_total\<close>), JSON texts and byte
  buffers their length (\<open>json_decoders_return\<close>), the array loops of the compiled JSON scanner twice the
  length of the cell and a little more; no theorem rests on the last.
  Draining a cursor takes one turn per row and two more, each of at most twenty answers, which
  \<open>cursor_drains\<close> shows to be enough. Every other function terminates by a measure.

  \<^bold>\<open>Parameters of the model.\<close> The decoder catalog of replication, the generated scanner of a json column in
  the row engines, \<open>Date.parse\<close>, the functions given to \<open>Transform\<close>, \<open>defineType\<close> and \<open>config.types\<close>, and what \<open>connect()\<close> and queries
  answer: the environment chooses them. The theorem on atomic bulk calls assumes of the server what
  \<open>transactional\<close> says.

  \<^bold>\<open>Not modelled.\<close> Authentication and key derivation (auth.ts), the transports and entry points
  (node, Deno, Cloudflare, neon-ws, sigv4), which are sockets, fetch and cryptography; the parameters of the
  Data API; the
  Effect bindings and the type-level code; telemetry, plugins and debug output, which change no result;
  well-known binary geometries (geometry.ts); connection strings (url.ts).
\<close>

section \<open>The two decode engines\<close>

text \<open>The decoders of all columns, chosen in order; the first column without one fails.\<close>

definition compiled_row_fn :: "(json_marker \<Rightarrow> cell_fn) \<Rightarrow> registry \<Rightarrow> catalog \<Rightarrow> ccol list \<Rightarrow> bool \<Rightarrow> js_error + (bytes \<Rightarrow> dres)" where
  "compiled_row_fn scan defs m cols object = rbind (rmap (columnLines scan defs m) cols) (\<lambda>ds. compileRow cols ds object)"

definition interpreted_row_fn :: "(jsstr \<Rightarrow> jnum) \<Rightarrow> registry \<Rightarrow> catalog \<Rightarrow> ccol list \<Rightarrow> bool \<Rightarrow> js_error + (bytes \<Rightarrow> dres)" where
  "interpreted_row_fn dateParse defs m cols object =
     rbind (rmap (pickDecoder dateParse defs m) cols) (\<lambda>ds. Inr (interpretedMapper cols ds object))"

text \<open>C37: The compiled and the interpreted engine decode every row alike. For the columns of a resolved shape
  without json markers, any catalog with the user's overrides and any registered types whose targets are
  not named like built-in ones, either both engines refuse to build a mapper with the same error, or both
  build one, and on every DataRow body the two give the same value or the same error: every cell goes to
  the same strategy (text, binary, array, override, geometric or registered) and the row is assembled
  alike. In array mode this is for shapes without groups and transforms.\<close>

theorem row_engines_agree:
  assumes "list_all (decodable defs) cols" "object \<or> flat_cols cols"
  shows "case interpreted_row_fn dateParse defs (buildDecoders supported overrides jb) cols object of
      Inl e \<Rightarrow> compiled_row_fn scan defs (buildDecoders supported overrides jb) cols object = Inl e
    | Inr g \<Rightarrow> \<exists>f. compiled_row_fn scan defs (buildDecoders supported overrides jb) cols object = Inr f \<and> (\<forall>b. f b = g b)"
proof -
  let ?m = "buildDecoders supported overrides jb"
  have "rmap (columnLines scan defs ?m) cols = rmap (pickDecoder dateParse defs ?m) cols"
    using assms(1) by (induction cols) (simp_all add: engines_cell [OF build_catalog_ok, where dateParse = dateParse])
  moreover have "rmap (pickDecoder dateParse defs ?m) cols = Inr ds \<Longrightarrow> length ds = length cols" for ds
    by (rule length_rmap)
  ultimately show ?thesis
    using compiled_row [OF _ assms(2)]
    by (cases "rmap (pickDecoder dateParse defs ?m) cols")
      (fastforce simp: compiled_row_fn_def interpreted_row_fn_def compileRow_def rowBuilderSource_def)+
qed

theorem row_engines_agree_witness:
  "\<exists>f. compiled_row_fn (\<lambda>_ _ _ _. Inr DNull) (\<lambda>_. None) (buildDecoders True [] JB_number)
       [leaf_col (asc ''ok'') 16 None, leaf_col (asc ''s'') 25 None] True = Inr f \<and>
     f [0, 2, 0, 0, 0, 1, 116, 255, 255, 255, 255] = Inr (DObj [(asc ''ok'', DBool True), (asc ''s'', DNull)])"
proof -
  let ?c = "[leaf_col (asc ''ok'') 16 None, leaf_col (asc ''s'') 25 None]"
  let ?b = "[0, 2, 0, 0, 0, 1, 116, 255, 255, 255, 255] :: bytes"
  have d: "list_all (decodable (\<lambda>_. None)) ?c" by (simp add: decodable_def leaf_col_def)
  have e: "rbind (interpreted_row_fn (\<lambda>_. NaN) (\<lambda>_. None) (buildDecoders True [] JB_number) ?c True) (\<lambda>g. g ?b) =
      Inr (DObj [(asc ''ok'', DBool True), (asc ''s'', DNull)])"
    by code_simp
  show ?thesis
    using row_engines_agree [OF d, where object = True and dateParse = "\<lambda>_. NaN" and supported = True and overrides = "[]"
      and jb = JB_number and scan = "\<lambda>_ _ _ _. Inr DNull"] e
    by (auto split: sum.splits)
qed

end
